(* ===== verification/Boru_Prelude.thy ===== *)
theory Boru_Prelude
  imports Main "HOL-Library.AList" "HOL-Library.Char_ord" "HOL-Library.List_Lexorder"
    "HOL-Library.Word"
begin

text \<open>
  What the component theories share: Go maps as association lists behind an
  interface locale, the outcomes of a Go computation that may panic, Go strings
  (byte lists) with the few library functions of package strings the sources
  call, three-way comparison, and the named collections the proofs use.
\<close>

named_theorems go_defs \<open>definitions unfolded when an operation is followed step by step\<close>
named_theorems go_maps \<open>laws of Go maps\<close>

section \<open>Outcomes\<close>

text \<open>A run-time panic of Go, as a value.\<close>

datatype go_panic = NilDereference | IndexOutOfRange | NilMapWrite

type_synonym 'a go = "go_panic + 'a"

abbreviation go_ok :: "'a \<Rightarrow> 'a go" where "go_ok \<equiv> Inr"

abbreviation go_panics :: "go_panic \<Rightarrow> 'a go" where "go_panics \<equiv> Inl"

definition nilp :: "'a option \<Rightarrow> bool" where
  "nilp x = (x = None)"

lemma nilp_simps [simp]: "nilp None" "\<not> nilp (Some x)"
  by (simp_all add: nilp_def)

section \<open>Go maps\<close>

text \<open>
  A Go map is an association list with distinct keys.  The order of the list
  stands for one iteration order of the runtime, which the language leaves
  open, so no property may depend on it.
\<close>

type_synonym ('k, 'v) gomap = "('k \<times> 'v) list"

definition gm_empty :: "('k, 'v) gomap" where
  "gm_empty = []"

definition gm_get :: "('k, 'v) gomap \<Rightarrow> 'k \<Rightarrow> 'v option" where
  "gm_get m k = map_of m k"

definition gm_put :: "'k \<Rightarrow> 'v \<Rightarrow> ('k, 'v) gomap \<Rightarrow> ('k, 'v) gomap" where
  "gm_put k v m = AList.update k v m"

definition gm_del :: "'k \<Rightarrow> ('k, 'v) gomap \<Rightarrow> ('k, 'v) gomap" where
  "gm_del k m = AList.delete k m"

definition gm_ok :: "('k, 'v) gomap \<Rightarrow> bool" where
  "gm_ok m = distinct (map fst m)"

definition gm_has :: "('k, 'v) gomap \<Rightarrow> 'k \<Rightarrow> bool" where
  "gm_has m k = (gm_get m k \<noteq> None)"

definition gm_keys :: "('k, 'v) gomap \<Rightarrow> 'k list" where
  "gm_keys m = map fst m"

text \<open>The loop that copies a map entry by entry into a fresh one.\<close>

definition gm_copy_into :: "('k, 'v) gomap \<Rightarrow> ('k, 'v) gomap \<Rightarrow> ('k, 'v) gomap" where
  "gm_copy_into src dst = fold (\<lambda>(k, v). gm_put k v) src dst"

definition gm_copy :: "('k, 'v) gomap \<Rightarrow> ('k, 'v) gomap" where
  "gm_copy src = gm_copy_into src gm_empty"

locale go_map =
  fixes empty :: 'm
    and get :: "'m \<Rightarrow> 'k \<Rightarrow> 'v option"
    and put :: "'k \<Rightarrow> 'v \<Rightarrow> 'm \<Rightarrow> 'm"
    and del :: "'k \<Rightarrow> 'm \<Rightarrow> 'm"
    and entries :: "'m \<Rightarrow> ('k \<times> 'v) list"
    and ok :: "'m \<Rightarrow> bool"
  assumes get_empty: "get empty k = None"
    and get_put: "get (put k v m) k' = (if k' = k then Some v else get m k')"
    and get_del: "get (del k m) k' = (if k' = k then None else get m k')"
    and entries_get: "ok m \<Longrightarrow> map_of (entries m) k = get m k"
    and entries_distinct: "ok m \<Longrightarrow> distinct (map fst (entries m))"
    and ok_empty: "ok empty"
    and ok_put: "ok m \<Longrightarrow> ok (put k v m)"
    and ok_del: "ok m \<Longrightarrow> ok (del k m)"
begin

lemma get_put_same [simp]: "get (put k v m) k = Some v"
  by (simp add: get_put)

lemma get_put_other [simp]: "k' \<noteq> k \<Longrightarrow> get (put k v m) k' = get m k'"
  by (simp add: get_put)

lemma get_del_same [simp]: "get (del k m) k = None"
  by (simp add: get_del)

lemma ok_put_all: "ok m \<Longrightarrow> ok (fold (\<lambda>(k, v). put k v) xs m)"
  by (induction xs arbitrary: m) (auto simp: ok_put)

text \<open>The entries written by a copy loop win over what the target held.\<close>

lemma get_put_all:
  assumes "distinct (map fst xs)"
  shows "get (fold (\<lambda>(k, v). put k v) xs m) k
    = (case map_of xs k of Some v \<Rightarrow> Some v | None \<Rightarrow> get m k)"
  using assms
proof (induction xs arbitrary: m)
  case Nil
  then show ?case by simp
next
  case (Cons x xs)
  obtain a b where x: "x = (a, b)" by (cases x)
  have "map_of xs k = None" if "k = a"
    using that Cons.prems x by (simp add: map_of_eq_None_iff)
  with Cons x show ?case
    by (auto simp: get_put split: option.splits)
qed

lemma get_copy: "ok m \<Longrightarrow> get (fold (\<lambda>(k, v). put k v) (entries m) empty) k = get m k"
  by (simp add: get_put_all entries_distinct entries_get get_empty split: option.splits)

end

interpretation gm: go_map "gm_empty :: ('k, 'v) gomap" gm_get gm_put gm_del "\<lambda>m. m" gm_ok
  by unfold_locales
    (auto simp: gm_empty_def gm_get_def gm_put_def gm_del_def gm_ok_def update_conv'
      AList.delete_conv' distinct_update distinct_delete)

lemmas gm_laws [simp, go_maps] = gm.get_empty gm.get_put gm.get_del gm.ok_empty
lemmas gm_oks [intro, go_maps] = gm.ok_put gm.ok_del gm.ok_put_all

lemma gm_has_iff [simp]: "gm_has m k \<longleftrightarrow> k \<in> set (gm_keys m)"
  by (auto simp: gm_has_def gm_get_def gm_keys_def map_of_eq_None_iff image_iff)

lemma gm_copy_get [simp]: "gm_ok m \<Longrightarrow> gm_get (gm_copy m) k = gm_get m k"
  unfolding gm_copy_def gm_copy_into_def by (rule gm.get_copy)

lemma gm_copy_ok [intro]: "gm_ok (gm_copy m)"
  unfolding gm_copy_def gm_copy_into_def by (intro gm.ok_put_all gm.ok_empty)

section \<open>Strings\<close>

text \<open>A Go string is a sequence of bytes; package strings on one-byte separators.\<close>

fun go_split :: "char \<Rightarrow> string \<Rightarrow> string list" where
  "go_split sep [] = [[]]"
| "go_split sep (c # cs) =
    (if c = sep then [] # go_split sep cs
     else (case go_split sep cs of [] \<Rightarrow> [[c]] | p # ps \<Rightarrow> (c # p) # ps))"

fun go_join :: "char \<Rightarrow> string list \<Rightarrow> string" where
  "go_join sep [] = []"
| "go_join sep [p] = p"
| "go_join sep (p # q # ps) = p @ [sep] @ go_join sep (q # ps)"

definition go_contains_byte :: "char \<Rightarrow> string \<Rightarrow> bool" where
  "go_contains_byte c s = (c \<in> set s)"

definition go_has_prefix :: "string \<Rightarrow> string \<Rightarrow> bool" where
  "go_has_prefix s p = (take (length p) s = p)"

lemma go_split_not_Nil [simp]: "go_split sep s \<noteq> []"
  by (induction s) (auto split: list.splits)

lemma go_join_Cons: "ps \<noteq> [] \<Longrightarrow> go_join sep (p # ps) = p @ [sep] @ go_join sep ps"
  by (cases ps) auto

lemma go_join_split [simp]: "go_join sep (go_split sep s) = s"
proof (induction s)
  case (Cons c cs)
  then show ?case
    by (cases "go_split sep cs"; cases "tl (go_split sep cs)") (auto simp: go_join_Cons)
qed simp

lemma go_split_part: "sep \<notin> set p \<Longrightarrow> go_split sep p = [p]"
  by (induction p) auto

lemma go_split_append:
  "sep \<notin> set p \<Longrightarrow> go_split sep (p @ sep # s) = p # go_split sep s"
  by (induction p) auto

lemma go_split_join:
  "\<lbrakk>ps \<noteq> []; \<forall>p \<in> set ps. sep \<notin> set p\<rbrakk> \<Longrightarrow> go_split sep (go_join sep ps) = ps"
  by (induction sep ps rule: go_join.induct) (auto simp: go_split_part go_split_append)

lemma go_split_no_sep: "p \<in> set (go_split sep s) \<Longrightarrow> sep \<notin> set p"
  by (induction s arbitrary: p) (auto split: if_splits list.splits)

lemma go_has_prefix_iff: "go_has_prefix s p \<longleftrightarrow> (\<exists>t. s = p @ t)"
  unfolding go_has_prefix_def by (metis append_eq_conv_conj append_take_drop_id)

text \<open>\<open>strings.Compare\<close> and \<open>cmpInt\<close>-style results.\<close>

definition strings_Compare :: "string \<Rightarrow> string \<Rightarrow> int" where
  "strings_Compare a b = (if a = b then 0 else if a < b then -1 else 1)"

lemma strings_Compare_refl [simp]: "strings_Compare a a = 0"
  by (simp add: strings_Compare_def)

lemma strings_Compare_eq_0 [simp]: "strings_Compare a b = 0 \<longleftrightarrow> a = b"
  by (simp add: strings_Compare_def)

lemma strings_Compare_swap: "strings_Compare b a = - strings_Compare a b"
  by (auto simp: strings_Compare_def)

section \<open>Hexadecimal formatting\<close>

definition hex_digit :: "nat \<Rightarrow> char" where
  "hex_digit d = ''0123456789abcdef'' ! (d mod 16)"

text \<open>The digits of \<open>%x\<close>, least significant first, none for zero.\<close>

fun hex_rev :: "nat \<Rightarrow> string" where
  "hex_rev n = (if n = 0 then [] else hex_digit n # hex_rev (n div 16))"

declare hex_rev.simps [simp del]

text \<open>\<open>fmt.Sprintf("%0<w>x", n)\<close> for a non-negative integer.\<close>

definition hex_pad :: "nat \<Rightarrow> nat \<Rightarrow> string" where
  "hex_pad w n = (let s = rev (hex_rev n); s = (if n = 0 then ''0'' else s)
    in replicate (w - length s) (CHR ''0'') @ s)"

text \<open>Reading the digits back shows the format is injective.\<close>

definition digit_val :: "char \<Rightarrow> nat" where
  "digit_val c = (if of_char c < (58::nat) then of_char c - 48 else of_char c - 87)"

definition hex_val :: "string \<Rightarrow> nat" where
  "hex_val s = foldr (\<lambda>c v. digit_val c + 16 * v) s 0"

lemma digit_val_hex_digit [simp]: "digit_val (hex_digit d) = d mod 16"
proof -
  have "list_all (\<lambda>e. digit_val (''0123456789abcdef'' ! e) = e) [0..<16]"
    by code_simp
  then have "digit_val (''0123456789abcdef'' ! e) = e" if "e < 16" for e
    using that by (simp add: list_all_iff)
  then show ?thesis by (simp add: hex_digit_def)
qed

lemma hex_val_rev [simp]: "hex_val (hex_rev n) = n"
proof (induction n rule: hex_rev.induct)
  case (1 n)
  then show ?case
    by (subst hex_rev.simps) (auto simp: hex_val_def)
qed

lemma hex_val_append_zeros: "hex_val (s @ replicate k (CHR ''0'')) = hex_val s"
proof -
  have "foldr (\<lambda>c v. digit_val c + 16 * v) (replicate k (CHR ''0'')) 0 = 0"
    by (induction k) (auto simp: digit_val_def)
  then show ?thesis by (simp add: hex_val_def)
qed

lemma hex_val_pad [simp]: "hex_val (rev (hex_pad w n)) = n"
proof (cases "n = 0")
  case True
  have "rev (hex_pad w 0) = [] @ replicate (Suc (w - 1)) (CHR ''0'')"
    by (simp add: hex_pad_def Let_def hex_rev.simps replicate_append_same)
  then show ?thesis
    using True hex_val_append_zeros [of "[]"] by (simp add: hex_val_def digit_val_def)
next
  case False
  then show ?thesis by (simp add: hex_pad_def Let_def hex_val_append_zeros)
qed

lemma hex_pad_inj [simp]: "hex_pad w m = hex_pad w n \<longleftrightarrow> m = n"
  by (metis hex_val_pad)

text \<open>\<open>%0<w>x\<close> of a signed integer: the sign takes one column of the width.\<close>

definition hex_pad_int :: "nat \<Rightarrow> int \<Rightarrow> string" where
  "hex_pad_int w i =
    (if i < 0 then CHR ''-'' # hex_pad (w - 1) (nat (- i)) else hex_pad w (nat i))"

lemma hex_digit_ne_dash [simp]: "hex_digit d \<noteq> CHR ''-''"
proof
  assume a: "hex_digit d = CHR ''-''"
  have "digit_val (hex_digit d) < 16" by simp
  moreover have "digit_val (hex_digit d) = 0"
    by (simp only: a) (simp add: digit_val_def)
  ultimately have "d mod 16 = 0" by simp
  then have "hex_digit d = CHR ''0''" by (simp add: hex_digit_def)
  with a show False by simp
qed

lemmas dash_ne_hex_digit [simp] = hex_digit_ne_dash [symmetric]

lemma hex_rev_no_dash: "c \<in> set (hex_rev n) \<Longrightarrow> c \<noteq> CHR ''-''"
proof (induction n rule: hex_rev.induct)
  case (1 n)
  then show ?case
    by (subst (asm) (2) hex_rev.simps) (auto split: if_splits)
qed

lemma hex_pad_no_dash: "CHR ''-'' \<notin> set (hex_pad w n)"
  by (auto simp: hex_pad_def Let_def dest: hex_rev_no_dash)

lemma hex_pad_int_inj [simp]: "hex_pad_int w i = hex_pad_int w j \<longleftrightarrow> i = j"
proof -
  have ne: "CHR ''-'' # s \<noteq> hex_pad w n" for s n
    by (metis hex_pad_no_dash list.set_intros(1))
  show ?thesis
    unfolding hex_pad_int_def using ne by (auto simp: not_less) (metis ne)+
qed

end
