(* ===== verification/Values.thy ===== *)
theory Values
  imports Boru_Prelude
begin

text \<open>
  The unified value and type lattice of core/go: the struct Value (whose
  instances with a typeMeta are the lattice nodes), the identity test Equal,
  the subtype relation (IsAncestor, ConformsTo, IsSubtypeOf, PathSubtype), the
  paths, depths and ranks of nodes, the type order compareTypes and the lowest
  common ancestor.  Sources: core/go/value.go, core/go/types.go,
  core/go/typetable.go, core/go/compare_types.go, core/go/compare.go,
  core/go/util.go.

  A pointer to a node is its address together with the node, which is fixed
  once the node is built; a typeMeta carries its own address, so the sharing
  tests on pointers are tests on addresses.  The payload interface is the type
  parameter.
\<close>

section \<open>Data\<close>

text \<open>\<open>OriginKind\<close> is a byte; the two constants are 0 and 1.\<close>

type_synonym OriginKind = "8 word"

definition OriginBuiltin :: OriginKind where "OriginBuiltin = 0"

definition OriginUserDef :: OriginKind where "OriginUserDef = 1"

definition OriginKind_String :: "OriginKind \<Rightarrow> string" where
  "OriginKind_String o' =
    (if o' = OriginBuiltin then ''builtin''
     else if o' = OriginUserDef then ''userdef''
     else ''unknown'')"

text \<open>
  The behaviours the modelled code names; every other implementation of the
  interface TypeBehavior is told apart by a number only.
\<close>

datatype TypeBehavior = DefaultBehavior | TypeMembershipBehavior | OtherBehavior nat

record SrcPos =
  Row :: int
  Col :: int
  Src :: string

text \<open>The one-byte fields of Value.\<close>

record value_flags =
  flag_IsInternal :: bool
  flag_Origin :: OriginKind
  flag_Quoted :: bool
  flag_Eval :: bool
  flag_Undefined :: bool
  flag_FailedDispatch :: bool
  flag_ReachGroup :: bool
  flag_Carrier :: bool
  flag_Dynamic :: bool

definition no_flags :: value_flags where
  "no_flags = \<lparr> flag_IsInternal = False, flag_Origin = OriginBuiltin, flag_Quoted = False,
     flag_Eval = False, flag_Undefined = False, flag_FailedDispatch = False,
     flag_ReachGroup = False, flag_Carrier = False, flag_Dynamic = False \<rparr>"

datatype 'p val =
    Val (ID: string) (Data: "'p option") (Parent: "'p ptr option") (tmeta: "'p type_meta option")
      (pos: "SrcPos option") (dynFrom: "string option") (elem: "'p ptr option")
      (asc: "'p ptr option") (modns: "(string \<times> 'p val) option") (flags: value_flags)
  and 'p ptr = Ptr (addr: nat) (deref: "'p val")
  and 'p type_meta =
    Meta (maddr: nat) (meta_Name: string) (meta_Behavior: TypeBehavior) (meta_FixedID: int)
      (meta_Rank: int) (meta_Depth: int) (meta_In: int) (meta_Out: int) (meta_Owner: string)
      (meta_Body: "'p ptr option")

abbreviation IsInternal :: "'p val \<Rightarrow> bool" where "IsInternal v \<equiv> flag_IsInternal (flags v)"

abbreviation Origin :: "'p val \<Rightarrow> OriginKind" where "Origin v \<equiv> flag_Origin (flags v)"

abbreviation Carrier :: "'p val \<Rightarrow> bool" where "Carrier v \<equiv> flag_Carrier (flags v)"

text \<open>The zero Value of Go.\<close>

definition zero_Value :: "'p val" where
  "zero_Value = Val [] None None None None None None None None no_flags"

abbreviation parent_of :: "'p ptr \<Rightarrow> 'p ptr option" where
  "parent_of t \<equiv> Parent (deref t)"

section \<open>Metadata accessors\<close>

definition Name :: "'p val \<Rightarrow> string" where
  "Name v = (case tmeta v of None \<Rightarrow> [] | Some m \<Rightarrow> meta_Name m)"

definition OwnerID :: "'p val \<Rightarrow> string" where
  "OwnerID v = (case tmeta v of None \<Rightarrow> [] | Some m \<Rightarrow> meta_Owner m)"

definition FixedID :: "'p val \<Rightarrow> int" where
  "FixedID v = (case tmeta v of None \<Rightarrow> 0 | Some m \<Rightarrow> meta_FixedID m)"

definition Rank :: "'p val \<Rightarrow> int" where
  "Rank v = (case tmeta v of None \<Rightarrow> 0 | Some m \<Rightarrow> meta_Rank m)"

definition Depth :: "'p val \<Rightarrow> int" where
  "Depth v = (case tmeta v of None \<Rightarrow> 0 | Some m \<Rightarrow> meta_Depth m)"

definition In_lbl :: "'p val \<Rightarrow> int" where
  "In_lbl v = (case tmeta v of None \<Rightarrow> 0 | Some m \<Rightarrow> meta_In m)"

definition Out_lbl :: "'p val \<Rightarrow> int" where
  "Out_lbl v = (case tmeta v of None \<Rightarrow> 0 | Some m \<Rightarrow> meta_Out m)"

lemmas meta_access_defs =
  Name_def OwnerID_def FixedID_def Rank_def Depth_def In_lbl_def Out_lbl_def

definition NewTypeLiteral :: "'p ptr option \<Rightarrow> 'p val" where
  "NewTypeLiteral t = (case t of None \<Rightarrow> zero_Value | Some p \<Rightarrow> deref p)"

definition IsBareTypeNode :: "'p val \<Rightarrow> bool" where
  "IsBareTypeNode v = (nilp (Data v) \<and> \<not> Carrier v)"

definition IsNative :: "'p ptr option \<Rightarrow> bool" where
  "IsNative t = (case t of None \<Rightarrow> False | Some p \<Rightarrow> Origin (deref p) = OriginBuiltin)"

definition Leaf :: "'p ptr option \<Rightarrow> string" where
  "Leaf t = (case t of None \<Rightarrow> [] | Some p \<Rightarrow> Name (deref p))"

section \<open>The parent chain\<close>

lemma size_parent [termination_simp]: "parent_of t = Some q \<Longrightarrow> size q < size t"
  by (cases t; cases "deref t") auto

text \<open>Induction along the parent chain.\<close>

lemma ptr_induct [case_names step]:
  assumes "\<And>t. (\<And>q. parent_of t = Some q \<Longrightarrow> P q) \<Longrightarrow> P t"
  shows "P (t :: 'p ptr)"
proof (induction t rule: measure_induct_rule [where f = size])
  case (less x)
  show ?case by (rule assms) (rule less.IH, rule size_parent)
qed

text \<open>The specification the loops over \<open>Parent\<close> are related to: the chain, node first.\<close>

fun chain :: "'p ptr \<Rightarrow> 'p ptr list" where
  "chain t = t # (case parent_of t of None \<Rightarrow> [] | Some q \<Rightarrow> chain q)"

declare chain.simps [simp del]

lemma chain_root: "parent_of t = None \<Longrightarrow> chain t = [t]"
  by (subst chain.simps) simp

lemma chain_step: "parent_of t = Some q \<Longrightarrow> chain t = t # chain q"
  by (subst chain.simps) simp

lemma chain_ne [simp]: "chain t \<noteq> []"
  by (subst chain.simps) simp

lemma chain_hd [simp]: "hd (chain t) = t"
  by (subst chain.simps) simp

lemma self_in_chain [simp]: "t \<in> set (chain t)"
  by (subst chain.simps) simp

lemma chain_trans: "b \<in> set (chain a) \<Longrightarrow> set (chain b) \<subseteq> set (chain a)"
  by (induction a rule: ptr_induct)
    (metis chain.simps list.set_cases list.set_intros(2) option.case_eq_if option.exhaust_sel
      order_refl set_ConsD set_subset_Cons subset_trans chain_root chain_step empty_iff empty_set
      insertE list.simps(15))

text \<open>A measure for the loops whose variable may become nil.\<close>

fun psize :: "'p ptr option \<Rightarrow> nat" where
  "psize None = 0"
| "psize (Some t) = Suc (size t)"

lemma psize_parent [simp]: "psize (parent_of t) \<le> size t"
  by (cases "parent_of t") (auto dest: size_parent)

lemma psize_parent_less [simp, termination_simp]: "psize (parent_of t) < Suc (size t)"
  using psize_parent [of t] by (simp add: less_Suc_eq_le)

section \<open>Identity\<close>

definition Equal :: "'p ptr option \<Rightarrow> 'p ptr option \<Rightarrow> bool" where
  "Equal t other =
    (case (t, other) of
       (None, None) \<Rightarrow> True
     | (Some _, None) \<Rightarrow> False
     | (None, Some _) \<Rightarrow> False
     | (Some p, Some q) \<Rightarrow>
         addr p = addr q \<or>
         (case (tmeta (deref p), tmeta (deref q)) of
            (Some tm, Some om) \<Rightarrow>
              maddr tm = maddr om \<or>
              (if meta_In tm > 0 \<and> meta_In om > 0 then meta_In tm = meta_In om
               else ID (deref p) \<noteq> [] \<and> ID (deref p) = ID (deref q))
          | _ \<Rightarrow> ID (deref p) \<noteq> [] \<and> ID (deref p) = ID (deref q)))"

abbreviation same_type :: "'p ptr \<Rightarrow> 'p ptr \<Rightarrow> bool" where
  "same_type t u \<equiv> Equal (Some t) (Some u)"

lemma Equal_refl [simp]: "Equal t t"
  by (auto simp: Equal_def split: option.splits)

lemma Equal_sym: "Equal t u \<longleftrightarrow> Equal u t"
  by (auto simp: Equal_def split: option.splits)

lemma Equal_nil [simp]: "Equal None (Some t) = False" "Equal (Some t) None = False"
  by (simp_all add: Equal_def)

section \<open>Walking up\<close>

definition anyFixedID :: int where "anyFixedID = 1"

fun Path_ptr :: "'p ptr \<Rightarrow> string" where
  "Path_ptr t =
    (case parent_of t of
       None \<Rightarrow> Name (deref t)
     | Some q \<Rightarrow> if FixedID (deref q) = anyFixedID then Name (deref t)
                 else Path_ptr q @ ''/'' @ Name (deref t))"

declare Path_ptr.simps [simp del]

definition Path :: "'p ptr option \<Rightarrow> string" where
  "Path t = (case t of None \<Rightarrow> [] | Some p \<Rightarrow> Path_ptr p)"

fun Root_ptr :: "'p ptr \<Rightarrow> 'p ptr" where
  "Root_ptr t = (case parent_of t of None \<Rightarrow> t | Some q \<Rightarrow> Root_ptr q)"

declare Root_ptr.simps [simp del]

definition Root :: "'p ptr option \<Rightarrow> 'p ptr option" where
  "Root t = map_option Root_ptr t"

fun IsAncestor_walk :: "'p ptr \<Rightarrow> 'p ptr \<Rightarrow> bool" where
  "IsAncestor_walk x ancestor =
    (if same_type x ancestor then True
     else (case parent_of x of None \<Rightarrow> False | Some q \<Rightarrow> IsAncestor_walk q ancestor))"

declare IsAncestor_walk.simps [simp del]

definition IsAncestor :: "'p ptr \<Rightarrow> 'p ptr \<Rightarrow> bool" where
  "IsAncestor t ancestor =
    (if In_lbl (deref t) > 0 \<and> In_lbl (deref ancestor) > 0
     then In_lbl (deref ancestor) \<le> In_lbl (deref t) \<and> In_lbl (deref t) \<le> Out_lbl (deref ancestor)
     else IsAncestor_walk t ancestor)"

definition PathSubtype :: "'p ptr option \<Rightarrow> 'p ptr option \<Rightarrow> bool" where
  "PathSubtype t pattern =
    (case (t, pattern) of (Some p, Some q) \<Rightarrow> IsAncestor p q | _ \<Rightarrow> False)"

definition IsSubtypeOf :: "'p ptr option \<Rightarrow> 'p ptr option \<Rightarrow> bool" where
  "IsSubtypeOf t parent =
    (case (t, parent) of
       (Some p, Some q) \<Rightarrow> if Equal t parent then False else IsAncestor p q
     | _ \<Rightarrow> False)"

function chain_count :: "'p ptr option \<Rightarrow> int" where
  "chain_count None = 0"
| "chain_count (Some t) = 1 + chain_count (parent_of t)"
  by pat_completeness auto
termination by (relation "measure psize") simp_all

definition typeDepth :: "'p ptr option \<Rightarrow> int" where
  "typeDepth t =
    (case t of
       Some p \<Rightarrow> if Depth (deref p) > 0 then Depth (deref p) else chain_count t
     | None \<Rightarrow> chain_count t)"

definition depthOf :: "'p ptr option \<Rightarrow> int" where
  "depthOf parent =
    (case parent of
       None \<Rightarrow> 1
     | Some p \<Rightarrow> if Depth (deref p) > 0 then Depth (deref p) + 1 else typeDepth parent + 1)"

function rankOf :: "'p ptr option \<Rightarrow> int" where
  "rankOf None = 0"
| "rankOf (Some t) = (if Rank (deref t) \<noteq> 0 then Rank (deref t) else rankOf (parent_of t))"
  by pat_completeness auto
termination by (relation "measure psize") simp_all

function Specificity_loop :: "int \<Rightarrow> 'p ptr option \<Rightarrow> int" where
  "Specificity_loop n None = n"
| "Specificity_loop n (Some d) =
    (if FixedID (deref d) = anyFixedID \<and> n > 0 then n
     else Specificity_loop (n + 1) (parent_of d))"
  by pat_completeness auto
termination by (relation "measure (\<lambda>(n, d). psize d)") simp_all

definition Specificity :: "'p ptr option \<Rightarrow> int" where
  "Specificity t = Specificity_loop 0 t"

section \<open>The type order and common ancestors\<close>

definition cmpInt :: "int \<Rightarrow> int \<Rightarrow> int" where
  "cmpInt a b = (if a < b then -1 else if a > b then 1 else 0)"

definition compareTypes :: "'p ptr \<Rightarrow> 'p ptr \<Rightarrow> int" where
  "compareTypes a b =
    (if addr a = addr b then 0
     else let c = cmpInt (rankOf (Some a)) (rankOf (Some b)) in
     if c \<noteq> 0 then c
     else let c = cmpInt (typeDepth (Some a)) (typeDepth (Some b)) in
     if c \<noteq> 0 then c
     else let c = strings_Compare (Name (deref a)) (Name (deref b)) in
     if c \<noteq> 0 then c
     else strings_Compare (ID (deref a)) (ID (deref b)))"

text \<open>\<open>for da > db { a = a.Parent; da-- }\<close>; reading \<open>Parent\<close> of nil panics.\<close>

fun lift_to :: "nat \<Rightarrow> 'p ptr option \<Rightarrow> 'p ptr option go" where
  "lift_to 0 a = go_ok a"
| "lift_to (Suc n) None = go_panics NilDereference"
| "lift_to (Suc n) (Some t) = lift_to n (parent_of t)"

function climb :: "'p ptr option \<Rightarrow> 'p ptr option \<Rightarrow> 'p ptr option" where
  "climb (Some a) (Some b) =
    (if same_type a b then Some a else climb (parent_of a) (parent_of b))"
| "climb None b = None"
| "climb (Some a) None = None"
  by pat_completeness auto
termination by (relation "measure (\<lambda>(a, b). psize a)") simp_all

definition lowestCommonAncestor :: "'p ptr option \<Rightarrow> 'p ptr option \<Rightarrow> 'p ptr option go" where
  "lowestCommonAncestor a b =
    (if nilp a \<or> nilp b then go_ok None
     else let da = typeDepth a; db = typeDepth b in
       case lift_to (nat (da - db)) a of
         Inl e \<Rightarrow> Inl e
       | Inr a' \<Rightarrow>
         (case lift_to (nat (db - da)) b of
            Inl e \<Rightarrow> Inl e
          | Inr b' \<Rightarrow> go_ok (climb a' b')))"

declare chain_count.simps(2) [simp del] rankOf.simps(2) [simp del] climb.simps(1) [simp del]

section \<open>Names of types\<close>

text \<open>The first part of the name already known, if any: the error of the validation.\<close>

definition ValidateTypeNameParts :: "string \<Rightarrow> (string \<Rightarrow> bool) \<Rightarrow> string option" where
  "ValidateTypeNameParts name isKnown = find isKnown (go_split (CHR ''/'') name)"

definition IsCapitalisedName :: "string \<Rightarrow> bool" where
  "IsCapitalisedName name =
    (case name of [] \<Rightarrow> False | c # _ \<Rightarrow> CHR ''A'' \<le> c \<and> c \<le> CHR ''Z'')"

end
