(* ===== verification/Lattice.thy ===== *)
theory Lattice
  imports Values "HOL-Library.Product_Lexorder"
begin

text \<open>
  The laws of the lattice: on a coherent set of nodes (closed under Parent, one
  identity per node, labels that are nested-set intervals) Equal is equality of
  identities, IsAncestor is membership of the chain of identities, hence a
  partial order whose interval fast path agrees with the walk; depths and the
  lowest common ancestor.
\<close>

section \<open>Chains of identities\<close>

definition idchain :: "'p ptr \<Rightarrow> string list" where
  "idchain t = map (\<lambda>x. ID (deref x)) (chain t)"

lemma idchain_root: "parent_of t = None \<Longrightarrow> idchain t = [ID (deref t)]"
  by (simp add: idchain_def chain_root)

lemma idchain_step: "parent_of t = Some q \<Longrightarrow> idchain t = ID (deref t) # idchain q"
  by (simp add: idchain_def chain_step)

lemma idchain_self [simp]: "ID (deref t) \<in> set (idchain t)"
  by (auto simp: idchain_def)

lemma idchain_length [simp]: "length (idchain t) = length (chain t)"
  by (simp add: idchain_def)

lemma idchain_deref: "deref s = deref t \<Longrightarrow> idchain s = idchain t"
  by (cases "parent_of t") (simp_all add: idchain_root idchain_step)

section \<open>Coherent sets of nodes\<close>

definition closed_nodes :: "'p ptr set \<Rightarrow> bool" where
  "closed_nodes N \<longleftrightarrow> (\<forall>p \<in> N. \<forall>q. parent_of p = Some q \<longrightarrow> q \<in> N)"

definition identified :: "'p ptr set \<Rightarrow> bool" where
  "identified N \<longleftrightarrow>
    (\<forall>p \<in> N. ID (deref p) \<noteq> [] \<and> tmeta (deref p) \<noteq> None) \<and>
    (\<forall>p \<in> N. \<forall>q \<in> N. ID (deref p) = ID (deref q) \<longrightarrow> deref p = deref q) \<and>
    (\<forall>p \<in> N. \<forall>q \<in> N. addr p = addr q \<longrightarrow> ID (deref p) = ID (deref q)) \<and>
    (\<forall>p \<in> N. \<forall>q \<in> N. maddr (the (tmeta (deref p))) = maddr (the (tmeta (deref q))) \<longrightarrow>
       ID (deref p) = ID (deref q))"

definition well_labelled :: "'p ptr set \<Rightarrow> bool" where
  "well_labelled N \<longleftrightarrow>
    (\<forall>p \<in> N. \<forall>q \<in> N. In_lbl (deref p) > 0 \<and> In_lbl (deref q) > 0 \<longrightarrow>
       (In_lbl (deref p) = In_lbl (deref q) \<longrightarrow> ID (deref p) = ID (deref q)) \<and>
       (In_lbl (deref q) \<le> In_lbl (deref p) \<and> In_lbl (deref p) \<le> Out_lbl (deref q)
          \<longleftrightarrow> ID (deref q) \<in> set (idchain p)))"

definition coherent :: "'p ptr set \<Rightarrow> bool" where
  "coherent N \<longleftrightarrow> closed_nodes N \<and> identified N \<and> well_labelled N"

lemma coherentD:
  assumes "coherent N"
  shows coherent_closed: "closed_nodes N" and coherent_identified: "identified N"
    and coherent_labelled: "well_labelled N"
  using assms by (simp_all add: coherent_def)

lemma closedD: "\<lbrakk>closed_nodes N; p \<in> N; parent_of p = Some q\<rbrakk> \<Longrightarrow> q \<in> N"
  by (auto simp: closed_nodes_def)

lemma identified_deref:
  "\<lbrakk>identified N; p \<in> N; q \<in> N; ID (deref p) = ID (deref q)\<rbrakk> \<Longrightarrow> deref p = deref q"
  unfolding identified_def by blast

lemma identified_node:
  "\<lbrakk>identified N; p \<in> N\<rbrakk> \<Longrightarrow> ID (deref p) \<noteq> [] \<and> (\<exists>m. tmeta (deref p) = Some m)"
  unfolding identified_def by blast

lemma identified_addr:
  "\<lbrakk>identified N; p \<in> N; q \<in> N; addr p = addr q\<rbrakk> \<Longrightarrow> ID (deref p) = ID (deref q)"
  unfolding identified_def by blast

lemma identified_maddr:
  "\<lbrakk>identified N; p \<in> N; q \<in> N; tmeta (deref p) = Some m; tmeta (deref q) = Some m';
    maddr m = maddr m'\<rbrakk> \<Longrightarrow> ID (deref p) = ID (deref q)"
  unfolding identified_def by (metis option.sel)

lemma labelled_In:
  "\<lbrakk>well_labelled N; p \<in> N; q \<in> N; In_lbl (deref p) > 0; In_lbl (deref q) > 0;
    In_lbl (deref p) = In_lbl (deref q)\<rbrakk> \<Longrightarrow> ID (deref p) = ID (deref q)"
  unfolding well_labelled_def by blast

lemma labelled_interval:
  "\<lbrakk>well_labelled N; p \<in> N; q \<in> N; In_lbl (deref p) > 0; In_lbl (deref q) > 0\<rbrakk> \<Longrightarrow>
    In_lbl (deref q) \<le> In_lbl (deref p) \<and> In_lbl (deref p) \<le> Out_lbl (deref q)
      \<longleftrightarrow> ID (deref q) \<in> set (idchain p)"
  unfolding well_labelled_def by blast

lemma closed_chain: "\<lbrakk>closed_nodes N; t \<in> N\<rbrakk> \<Longrightarrow> set (chain t) \<subseteq> N"
proof (induction t rule: ptr_induct)
  case (step t)
  then show ?case
    by (cases "parent_of t") (auto simp: chain_root chain_step dest: closedD)
qed

text \<open>On a coherent set the fast paths of \<open>Equal\<close> all decide the identity.\<close>

lemma Equal_iff_ID:
  assumes N: "coherent N" and p: "p \<in> N" and q: "q \<in> N"
  shows "same_type p q \<longleftrightarrow> ID (deref p) = ID (deref q)"
proof -
  note I = coherent_identified [OF N]
  obtain tm om where tm: "tmeta (deref p) = Some tm" and om: "tmeta (deref q) = Some om"
    using identified_node [OF I p] identified_node [OF I q] by blast
  have ne: "ID (deref p) \<noteq> []"
    using identified_node [OF I p] by blast
  note a = identified_addr [OF I p q]
  note m = identified_maddr [OF I p q tm om]
  have l: "\<lbrakk>meta_In tm > 0; meta_In om > 0; meta_In tm = meta_In om\<rbrakk>
      \<Longrightarrow> ID (deref p) = ID (deref q)"
    using labelled_In [OF coherent_labelled [OF N] p q] tm om by (simp add: In_lbl_def)
  have d: "ID (deref p) = ID (deref q) \<Longrightarrow> tm = om"
    using identified_deref [OF I p q] tm om by simp
  show ?thesis
  proof (cases "ID (deref p) = ID (deref q)")
    case True
    then show ?thesis using d tm om by (simp add: Equal_def)
  next
    case False
    then have "addr p \<noteq> addr q" "maddr tm \<noteq> maddr om"
      "\<not> (meta_In tm > 0 \<and> meta_In om > 0 \<and> meta_In tm = meta_In om)"
      using a m l by blast+
    with False tm om show ?thesis by (simp add: Equal_def)
  qed
qed

lemma Equal_deref:
  assumes "coherent N" "p \<in> N" "q \<in> N"
  shows "same_type p q \<longleftrightarrow> deref p = deref q"
  using Equal_iff_ID [OF assms] identified_deref [OF coherent_identified [OF assms(1)] assms(2,3)]
  by auto

lemma walk_iff_chain:
  assumes N: "coherent N" and "t \<in> N" and a: "a \<in> N"
  shows "IsAncestor_walk t a \<longleftrightarrow> ID (deref a) \<in> set (idchain t)"
  using assms(2)
proof (induction t rule: ptr_induct)
  case (step t)
  show ?case
  proof (cases "parent_of t")
    case None
    then show ?thesis
      by (subst IsAncestor_walk.simps)
        (auto simp: idchain_root Equal_iff_ID [OF N step.prems a])
  next
    case (Some q)
    have "q \<in> N" by (rule closedD [OF coherent_closed [OF N] step.prems Some])
    with step.IH [OF Some] Some show ?thesis
      by (subst IsAncestor_walk.simps)
        (auto simp: idchain_step Equal_iff_ID [OF N step.prems a])
  qed
qed

text \<open>The interval test and the walk agree.\<close>

lemma IsAncestor_iff_chain:
  assumes N: "coherent N" and t: "t \<in> N" and a: "a \<in> N"
  shows "IsAncestor t a \<longleftrightarrow> ID (deref a) \<in> set (idchain t)"
  unfolding IsAncestor_def
  using walk_iff_chain [OF assms] labelled_interval [OF coherent_labelled [OF N] t a] by simp

lemma chain_of_member:
  assumes N: "coherent N" and t: "t \<in> N" and a: "a \<in> N" and "ID (deref a) \<in> set (idchain t)"
  shows "\<exists>x \<in> set (chain t). deref x = deref a"
proof -
  obtain x where x: "x \<in> set (chain t)" "ID (deref x) = ID (deref a)"
    using assms(4) by (auto simp: idchain_def)
  moreover have "x \<in> N" using closed_chain [OF coherent_closed [OF N] t] x by auto
  ultimately show ?thesis
    using identified_deref [OF coherent_identified [OF N] _ a] by blast
qed

lemma idchain_subset:
  assumes N: "coherent N" and t: "t \<in> N" and a: "a \<in> N" and m: "ID (deref a) \<in> set (idchain t)"
  shows "set (idchain a) \<subseteq> set (idchain t)"
proof -
  obtain x where x: "x \<in> set (chain t)" "deref x = deref a"
    using chain_of_member [OF assms] by blast
  then have "set (chain x) \<subseteq> set (chain t)" by (intro chain_trans)
  then have "set (idchain x) \<subseteq> set (idchain t)" by (auto simp: idchain_def)
  then show ?thesis using idchain_deref [OF x(2)] by simp
qed

lemma IsAncestor_refl: "\<lbrakk>coherent N; t \<in> N\<rbrakk> \<Longrightarrow> IsAncestor t t"
  by (simp add: IsAncestor_iff_chain)

lemma IsAncestor_trans:
  assumes N: "coherent N" "a \<in> N" "b \<in> N" "c \<in> N" and "IsAncestor a b" "IsAncestor b c"
  shows "IsAncestor a c"
  using assms idchain_subset [OF N(1) N(2) N(3)] by (auto simp: IsAncestor_iff_chain)

text \<open>Chains get strictly longer below a node, so the order is antisymmetric.\<close>

lemma chain_member_length:
  "x \<in> set (chain t) \<Longrightarrow> x = t \<or> length (chain x) < length (chain t)"
proof (induction t rule: ptr_induct)
  case (step t)
  then show ?case
    by (cases "parent_of t") (fastforce simp: chain_root chain_step)+
qed

lemma chain_length_deref: "deref x = deref y \<Longrightarrow> length (chain x) = length (chain y)"
  using idchain_deref [of x y] by (metis idchain_length)

lemma IsAncestor_antisym:
  assumes N: "coherent N" "a \<in> N" "b \<in> N" and ab: "IsAncestor a b" and ba: "IsAncestor b a"
  shows "ID (deref a) = ID (deref b)"
proof -
  obtain x where x: "x \<in> set (chain a)" "deref x = deref b"
    using chain_of_member [OF N(1,2,3)] ab N by (auto simp: IsAncestor_iff_chain)
  obtain y where y: "y \<in> set (chain b)" "deref y = deref a"
    using chain_of_member [OF N(1,3,2)] ba N by (auto simp: IsAncestor_iff_chain)
  have "length (chain a) = length (chain y)" "length (chain b) = length (chain x)"
    using x y by (metis chain_length_deref)+
  then have "x = a \<or> y = b"
    using chain_member_length [OF x(1)] chain_member_length [OF y(1)] by linarith
  then show ?thesis using x y by auto
qed

section \<open>Depths\<close>

text \<open>A cached depth, where there is one, is the length of the chain.\<close>

definition depths_ok :: "'p ptr set \<Rightarrow> bool" where
  "depths_ok N \<longleftrightarrow>
    (\<forall>p \<in> N. Depth (deref p) = 0 \<or> Depth (deref p) = int (length (chain p)))"

lemma chain_count_chain [simp]: "chain_count (Some t) = int (length (chain t))"
proof (induction t rule: ptr_induct)
  case (step t)
  then show ?case
    by (cases "parent_of t") (auto simp: chain_root chain_step chain_count.simps(2))
qed

text \<open>The same apart from the nodes at or below given identities.\<close>

definition depths_except :: "string set \<Rightarrow> 'p ptr set \<Rightarrow> bool" where
  "depths_except A N \<longleftrightarrow>
    (\<forall>p \<in> N. set (idchain p) \<inter> A = {} \<longrightarrow> Depth (deref p) = 0 \<or> Depth (deref p) = int (length (chain p)))"

lemma depths_except_none: "depths_except {} N = depths_ok N"
  by (simp add: depths_except_def depths_ok_def)

lemma typeDepth_chain:
  "\<lbrakk>depths_except A N; t \<in> N; set (idchain t) \<inter> A = {}\<rbrakk> \<Longrightarrow> typeDepth (Some t) = int (length (chain t))"
  by (auto simp: depths_except_def typeDepth_def split: if_splits)

lemma depthOf_chain:
  "\<lbrakk>depths_except A N; t \<in> N; set (idchain t) \<inter> A = {}\<rbrakk> \<Longrightarrow> depthOf (Some t) = int (length (chain t)) + 1"
  using typeDepth_chain [of A N t] by (simp add: depthOf_def typeDepth_def split: if_splits)

section \<open>The lowest common ancestor\<close>

definition common :: "'p ptr \<Rightarrow> 'p ptr \<Rightarrow> string set" where
  "common a b = set (idchain a) \<inter> set (idchain b)"

lemma longer_not_below:
  assumes N: "coherent N" "a \<in> N" "b \<in> N" and len: "length (chain b) \<le> length (chain a)"
    and m: "ID (deref a) \<in> set (idchain b)"
  shows "deref a = deref b"
proof -
  obtain x where x: "x \<in> set (chain b)" "deref x = deref a"
    using chain_of_member [OF N(1,3,2) m] by blast
  have "x = b \<or> length (chain x) < length (chain b)" by (rule chain_member_length [OF x(1)])
  with chain_length_deref [OF x(2)] len have "x = b" by simp
  with x show ?thesis by simp
qed

lemma lift_to_common:
  assumes N: "coherent N" and "a \<in> N" and b: "b \<in> N"
    and "length (chain a) = n + length (chain b)"
  shows "\<exists>x. lift_to n (Some a) = go_ok (Some x) \<and> x \<in> set (chain a) \<and> x \<in> N
    \<and> length (chain x) = length (chain b) \<and> common x b = common a b"
  using assms(2,4)
proof (induction n arbitrary: a)
  case 0
  then show ?case by auto
next
  case (Suc n)
  have "length (chain b) > 0" by simp
  with Suc.prems obtain q where q: "parent_of a = Some q"
    by (cases "parent_of a") (auto simp: chain_root)
  then have "q \<in> N" using closedD [OF coherent_closed [OF N] Suc.prems(1)] by simp
  moreover have "length (chain q) = n + length (chain b)"
    using Suc.prems q by (simp add: chain_step)
  ultimately obtain x where x: "lift_to n (Some q) = go_ok (Some x)" "x \<in> set (chain q)" "x \<in> N"
      "length (chain x) = length (chain b)" "common x b = common q b"
    using Suc.IH [of q] by blast
  have "ID (deref a) \<notin> set (idchain b)"
  proof
    assume "ID (deref a) \<in> set (idchain b)"
    then have "deref a = deref b"
      using longer_not_below [OF N Suc.prems(1) b] Suc.prems(2) by simp
    then show False using chain_length_deref Suc.prems(2) by fastforce
  qed
  then have "common a b = common q b"
    using q by (auto simp: common_def idchain_step)
  with x q show ?case by (auto simp: chain_step)
qed

definition lowest_in :: "string set \<Rightarrow> 'p ptr option \<Rightarrow> bool" where
  "lowest_in S r \<longleftrightarrow>
    (case r of None \<Rightarrow> S = {} | Some c \<Rightarrow> ID (deref c) \<in> S \<and> S \<subseteq> set (idchain c))"

definition lowest_common :: "'p ptr \<Rightarrow> 'p ptr \<Rightarrow> 'p ptr option \<Rightarrow> bool" where
  "lowest_common a b r \<longleftrightarrow> lowest_in (common a b) r"

lemma climb_lowest:
  assumes N: "coherent N" and "a \<in> N" "b \<in> N" "length (chain a) = length (chain b)"
  shows "lowest_common a b (climb (Some a) (Some b))"
  using assms(2-)
proof (induction a arbitrary: b rule: ptr_induct)
  case (step a)
  note eq = Equal_iff_ID [OF N step.prems(1,2)]
  show ?case
  proof (cases "ID (deref a) = ID (deref b)")
    case True
    then have "deref a = deref b"
      using identified_deref [OF coherent_identified [OF N] step.prems(1,2)] by simp
    then have "idchain a = idchain b" by (rule idchain_deref)
    with True eq show ?thesis
      by (simp add: climb.simps(1) lowest_common_def lowest_in_def common_def)
  next
    case False
    have ne: "ID (deref a) \<notin> set (idchain b)" "ID (deref b) \<notin> set (idchain a)"
      using longer_not_below [OF N step.prems(1,2)] longer_not_below [OF N step.prems(2,1)]
        step.prems(3) False by (metis order_refl)+
    show ?thesis
    proof (cases "parent_of a")
      case None
      then have "length (chain b) = 1" using step.prems(3) by (simp add: chain_root)
      then have "parent_of b = None" by (cases "parent_of b") (auto simp: chain_step)
      with None False eq show ?thesis
        by (simp add: climb.simps(1) lowest_common_def lowest_in_def common_def idchain_root)
    next
      case (Some q)
      then obtain r where r: "parent_of b = Some r"
        using step.prems(3) by (cases "parent_of b") (auto simp: chain_root chain_step)
      have "q \<in> N" "r \<in> N" "length (chain q) = length (chain r)"
        using step.prems Some r closedD [OF coherent_closed [OF N]] by (auto simp: chain_step)
      then have "lowest_common q r (climb (Some q) (Some r))"
        by (rule step.IH [OF Some])
      moreover have "common a b = common q r"
        using ne Some r by (auto simp: common_def idchain_step)
      ultimately show ?thesis
        using False Some r eq
        by (subst climb.simps(1)) (simp add: lowest_common_def)
    qed
  qed
qed

lemma common_sym: "common a b = common b a"
  by (auto simp: common_def)

lemma LCA_lowest:
  assumes N: "coherent N" "depths_except A N" and a: "a \<in> N" and b: "b \<in> N"
    and A: "set (idchain a) \<inter> A = {}" "set (idchain b) \<inter> A = {}"
  shows "\<exists>r. lowestCommonAncestor (Some a) (Some b) = go_ok r \<and> lowest_common a b r"
proof -
  let ?la = "length (chain a)" and ?lb = "length (chain b)"
  have d: "typeDepth (Some a) = int ?la" "typeDepth (Some b) = int ?lb"
    using typeDepth_chain [OF N(2)] a b A by auto
  consider "?lb \<le> ?la" | "?la \<le> ?lb" by linarith
  then show ?thesis
  proof cases
    case 1
    then obtain x where x: "lift_to (?la - ?lb) (Some a) = go_ok (Some x)" "x \<in> N"
        "length (chain x) = ?lb" "common x b = common a b"
      using lift_to_common [OF N(1) a b, of "?la - ?lb"] by auto
    have "nat (int ?la - int ?lb) = ?la - ?lb" "nat (int ?lb - int ?la) = 0"
      using 1 by auto
    moreover have "lowest_common a b r = lowest_common x b r" for r
      by (simp add: lowest_common_def x(4))
    ultimately show ?thesis
      using x(1) climb_lowest [OF N(1) x(2) b x(3)] d
      by (simp add: lowestCommonAncestor_def Let_def)
  next
    case 2
    then obtain x where x: "lift_to (?lb - ?la) (Some b) = go_ok (Some x)" "x \<in> N"
        "length (chain x) = ?la" "common x a = common b a"
      using lift_to_common [OF N(1) b a, of "?lb - ?la"] by auto
    have "nat (int ?la - int ?lb) = 0" "nat (int ?lb - int ?la) = ?lb - ?la"
      using 2 by auto
    moreover have "lowest_common a b r = lowest_common a x r" for r
      by (simp add: lowest_common_def x(4) common_sym [of a])
    ultimately show ?thesis
      using x(1) climb_lowest [OF N(1) a x(2)] x(3) d
      by (simp add: lowestCommonAncestor_def Let_def)
  qed
qed

section \<open>The type order\<close>

definition type_key :: "'p ptr \<Rightarrow> int \<times> int \<times> string \<times> string" where
  "type_key t = (rankOf (Some t), typeDepth (Some t), Name (deref t), ID (deref t))"

lemma rankOf_deref: "deref s = deref t \<Longrightarrow> rankOf (Some s) = rankOf (Some t)"
  by (simp add: rankOf.simps(2))

lemma typeDepth_deref: "deref s = deref t \<Longrightarrow> typeDepth (Some s) = typeDepth (Some t)"
  using chain_length_deref [of s t] by (simp add: typeDepth_def)

lemma type_key_deref: "deref s = deref t \<Longrightarrow> type_key s = type_key t"
  using rankOf_deref [of s t] typeDepth_deref [of s t] by (simp add: type_key_def)

lemma compareTypes_key:
  assumes "addr a = addr b \<Longrightarrow> deref a = deref b"
  shows "compareTypes a b =
    (if type_key a = type_key b then 0 else if type_key a < type_key b then -1 else 1)"
proof (cases "addr a = addr b")
  case True
  then show ?thesis
    using type_key_deref [OF assms [OF True]] by (simp add: compareTypes_def)
next
  case False
  then show ?thesis
    by (simp add: compareTypes_def type_key_def cmpInt_def strings_Compare_def Let_def)
qed

lemma addr_deref:
  "\<lbrakk>coherent N; a \<in> N; b \<in> N; addr a = addr b\<rbrakk> \<Longrightarrow> deref a = deref b"
  using identified_addr identified_deref coherent_identified by blast

end
