(* ===== verification/Type_Table.thy ===== *)
theory Type_Table
  imports Lattice
begin

text \<open>
  The table of types (core/go/typetable.go): its indexes, the shared counter the
  minted identities come from, registration of global types, minting,
  adoption, retirement and the two ways a table is copied.
\<close>

section \<open>State\<close>

text \<open>
  The indexes of a table.  \<open>bypath\<close>, \<open>rootSet\<close> and \<open>leafIndex\<close> are nil in the
  tables of registries, and \<open>seq\<close> is a pointer to a counter cell that several
  tables may share.  \<open>tt_addr\<close> is the address of the table.
\<close>

record 'p TypeTable =
  tt_addr :: nat
  byID :: "(string, 'p ptr) gomap"
  byName :: "(string, 'p ptr) gomap"
  parts :: "(string, bool) gomap"
  bypath :: "(string, 'p ptr) gomap option"
  rootSet :: "(string, bool) gomap option"
  leafIndex :: "(string, string) gomap option"
  seq :: "nat option"
  MintOwner :: string

text \<open>The errors of the registration paths, and the package variables.\<close>

datatype tt_error =
    EmptyOwner string
  | EmptyPath
  | EmptyPart string
  | BadPart string string
  | ParentNotRegistered string string
  | PathRegistered string
  | FixedIDCollides int string string
  | ParentPathNotRegistered string string
  | BuiltinParentMissing string string
  | DuplicateFixedID int string string
  | BuiltinMissing string
  | PartNotUpper string string
  | UnknownType string

record 'p globals =
  next_addr :: nat
  cells :: "(nat, 64 word) gomap"
  TypeNames :: "(string, 'p ptr) gomap"
  builtinInitErrs :: "tt_error list"

definition alloc :: "'p globals \<Rightarrow> nat \<times> 'p globals" where
  "alloc g = (next_addr g, g\<lparr>next_addr := Suc (next_addr g)\<rparr>)"

definition cell :: "'p globals \<Rightarrow> nat \<Rightarrow> 64 word" where
  "cell g a = (case gm_get (cells g) a of None \<Rightarrow> 0 | Some n \<Rightarrow> n)"

definition set_cell :: "nat \<Rightarrow> 64 word \<Rightarrow> 'p globals \<Rightarrow> 'p globals" where
  "set_cell a n g = g\<lparr>cells := gm_put a n (cells g)\<rparr>"

text \<open>\<open>new(atomic.Int64)\<close>.\<close>

definition new_counter :: "'p globals \<Rightarrow> nat \<times> 'p globals" where
  "new_counter g = (let (a, g) = alloc g in (a, set_cell a 0 g))"

definition Builtin_addr :: nat where "Builtin_addr = 0"

definition OwnerKernel :: string where "OwnerKernel = ''boru:kernel''"

definition OwnerLang :: string where "OwnerLang = ''boru:lang''"

definition OwnerProgram :: string where "OwnerProgram = ''program''"

definition dynamicIDBase :: "64 word" where "dynamicIDBase = 0x10000000"

text \<open>Reading a possibly nil map, and the map an assignment needs.\<close>

definition nm_get :: "('k, 'v) gomap option \<Rightarrow> 'k \<Rightarrow> 'v option" where
  "nm_get m k = (case m of None \<Rightarrow> None | Some m \<Rightarrow> gm_get m k)"

definition made :: "('k, 'v) gomap option \<Rightarrow> ('k, 'v) gomap" where
  "made m = (case m of None \<Rightarrow> gm_empty | Some m \<Rightarrow> m)"

lemma gm_get_made [simp]: "gm_get (made m) k = nm_get m k"
  by (simp add: made_def nm_get_def split: option.splits)

lemma nm_get_Some [simp]: "nm_get (Some m) = gm_get m"
  by (simp add: nm_get_def fun_eq_iff)

lemma nm_get_None [simp]: "nm_get None k = None"
  by (simp add: nm_get_def)

section \<open>Lookups\<close>

definition Lookup :: "'p TypeTable option \<Rightarrow> string \<Rightarrow> 'p ptr option" where
  "Lookup tt path = (case tt of None \<Rightarrow> None | Some tt \<Rightarrow> nm_get (bypath tt) path)"

definition LookupByID :: "'p TypeTable option \<Rightarrow> string \<Rightarrow> 'p ptr option" where
  "LookupByID tt i =
    (case tt of None \<Rightarrow> None | Some tt \<Rightarrow> if i = [] then None else gm_get (byID tt) i)"

definition LookupBuiltinByName :: "'p TypeTable option \<Rightarrow> string \<Rightarrow> 'p ptr option" where
  "LookupBuiltinByName tt name =
    (case tt of None \<Rightarrow> None | Some tt \<Rightarrow> gm_get (byName tt) name)"

definition IsRoot :: "'p TypeTable option \<Rightarrow> string \<Rightarrow> bool" where
  "IsRoot tt part =
    (case tt of None \<Rightarrow> False | Some tt \<Rightarrow> nm_get (rootSet tt) part = Some True)"

definition KnownPart :: "'p TypeTable option \<Rightarrow> string \<Rightarrow> bool" where
  "KnownPart tt part =
    (case tt of None \<Rightarrow> False | Some tt \<Rightarrow> gm_get (parts tt) part = Some True)"

definition ExpandShortName :: "'p TypeTable option \<Rightarrow> string \<Rightarrow> string option" where
  "ExpandShortName tt short =
    (case tt of None \<Rightarrow> None
     | Some tt \<Rightarrow> (case nm_get (leafIndex tt) short of
         None \<Rightarrow> None
       | Some p \<Rightarrow> if p = [] then None else Some p))"

definition NewDynamicTypeTable :: "'p globals \<Rightarrow> 'p globals \<times> 'p TypeTable" where
  "NewDynamicTypeTable g =
    (let (a, g) = alloc g; (c, g) = new_counter g in
     (g, \<lparr> tt_addr = a, byID = gm_empty, byName = gm_empty, parts = gm_empty,
           bypath = None, rootSet = None, leafIndex = None, seq = Some c,
           MintOwner = OwnerProgram \<rparr>))"

section \<open>Identities\<close>

text \<open>The prefix of an identity, from the name of the root of its branch.\<close>

definition id_prefix :: "string \<Rightarrow> string" where
  "id_prefix root =
    (if root = ''Scalar'' then ''S_''
     else if root = ''Node'' then ''N_''
     else if root = ''Word'' then ''W_''
     else ''T_'')"

definition mint_prefix :: "'p ptr option \<Rightarrow> string" where
  "mint_prefix parent =
    (case Root parent of None \<Rightarrow> ''T_'' | Some r \<Rightarrow> id_prefix (Name (deref r)))"

definition ensure_seq :: "'p globals \<Rightarrow> 'p TypeTable \<Rightarrow> 'p globals \<times> 'p TypeTable \<times> nat" where
  "ensure_seq g tt =
    (case seq tt of
       Some c \<Rightarrow> (g, tt, c)
     | None \<Rightarrow> let (c, g) = new_counter g in (g, tt\<lparr>seq := Some c\<rparr>, c))"

definition mintID ::
  "'p globals \<Rightarrow> 'p TypeTable \<Rightarrow> 'p ptr option \<Rightarrow> 'p globals \<times> 'p TypeTable \<times> string" where
  "mintID g tt parent =
    (let (g, tt, c) = ensure_seq g tt;
         n = cell g c + 1;
         g = set_cell c n g
     in (g, tt, mint_prefix parent @ hex_pad_int 12 (sint (dynamicIDBase + n))))"

definition path_root :: "string \<Rightarrow> string" where
  "path_root path = takeWhile (\<lambda>c. c \<noteq> CHR ''/'') path"

definition formatFixedID :: "string \<Rightarrow> int \<Rightarrow> string" where
  "formatFixedID path num = id_prefix (path_root path) @ hex_pad_int 12 num"

text \<open>The walk to the child of Any (or the degenerate root) a type descends from.\<close>

fun branch_of :: "'p ptr \<Rightarrow> 'p ptr" where
  "branch_of branch =
    (case parent_of branch of
       None \<Rightarrow> branch
     | Some q \<Rightarrow> if FixedID (deref q) \<noteq> anyFixedID then branch_of q else branch)"

declare branch_of.simps [simp del]

definition externalBandFor :: "'p ptr option \<Rightarrow> int" where
  "externalBandFor parent =
    (case parent of
       None \<Rightarrow> 0
     | Some p \<Rightarrow>
       let n = Name (deref (branch_of p)) in
       if n = ''Scalar'' then 21000000000
       else if n = ''Node'' then 31000000000
       else if n = ''Ideal'' then 41000000000
       else if n = ''Word'' then 51000000000
       else if n = ''Type'' then 61000000000
       else Rank (deref p))"

section \<open>Minting\<close>

text \<open>\<open>&Type{...}\<close> with its \<open>&typeMeta{...}\<close>: two fresh addresses.\<close>

definition new_node ::
  "'p globals \<Rightarrow> string \<Rightarrow> 'p ptr option \<Rightarrow> (nat \<Rightarrow> 'p type_meta) \<Rightarrow> value_flags \<Rightarrow> 'p globals \<times> 'p ptr"
where
  "new_node g i parent mk fl =
    (let (a, g) = alloc g; (m, g) = alloc g in
     (g, Ptr a (Val i None parent (Some (mk m)) None None None None None fl)))"

definition userdef_flags :: value_flags where
  "userdef_flags = no_flags\<lparr>flag_Origin := OriginUserDef\<rparr>"

definition builtin_flags :: "bool \<Rightarrow> value_flags" where
  "builtin_flags internal = no_flags\<lparr>flag_Origin := OriginBuiltin, flag_IsInternal := internal\<rparr>"

definition MintType ::
  "'p globals \<Rightarrow> 'p TypeTable \<Rightarrow> string \<Rightarrow> 'p ptr option \<Rightarrow> 'p globals \<times> 'p TypeTable \<times> 'p ptr"
where
  "MintType g tt name parent =
    (let rank = (if nilp parent then 0 else externalBandFor parent);
         (g, tt, i) = mintID g tt parent;
         (g, def) = new_node g i parent
           (\<lambda>m. Meta m name DefaultBehavior 0 rank (depthOf parent) 0 0 (MintOwner tt) None)
           userdef_flags
     in (g, tt\<lparr>byID := gm_put i def (byID tt)\<rparr>, def))"

definition MintRefinePrefab ::
  "'p globals \<Rightarrow> 'p TypeTable \<Rightarrow> 'p ptr option \<Rightarrow> 'p globals \<times> 'p TypeTable \<times> 'p ptr"
where
  "MintRefinePrefab g tt parent = MintType g tt [] parent"

definition IsRefinePrefab :: "'p val \<Rightarrow> bool" where
  "IsRefinePrefab v = (IsBareTypeNode v \<and> Origin v = OriginUserDef \<and> Name v = [])"

text \<open>An assignment to \<open>Behavior\<close> through the pointer of a node just made.\<close>

definition with_behavior :: "TypeBehavior \<Rightarrow> 'p ptr \<Rightarrow> 'p ptr" where
  "with_behavior b p =
    (case p of Ptr a (Val i d par tm ps df el as mn fl) \<Rightarrow>
      Ptr a (Val i d par
        (map_option (\<lambda>t. case t of Meta m nm _ fid rk dp li lo ow bd \<Rightarrow>
           Meta m nm b fid rk dp li lo ow bd) tm) ps df el as mn fl))"

definition MintTypeWithBehavior ::
  "'p globals \<Rightarrow> 'p TypeTable \<Rightarrow> string \<Rightarrow> 'p ptr option \<Rightarrow> TypeBehavior option
    \<Rightarrow> 'p globals \<times> 'p TypeTable \<times> 'p ptr"
where
  "MintTypeWithBehavior g tt name parent behavior =
    (let (g, tt, def) = MintType g tt name parent in
     case behavior of
       None \<Rightarrow> (g, tt, def)
     | Some b \<Rightarrow> let def = with_behavior b def in
         (g, tt\<lparr>byID := gm_put (ID (deref def)) def (byID tt)\<rparr>, def))"

definition Adopt :: "'p TypeTable option \<Rightarrow> 'p ptr option \<Rightarrow> 'p TypeTable option" where
  "Adopt tt t =
    (case (tt, t) of
       (Some tb, Some p) \<Rightarrow>
         if ID (deref p) = [] then tt
         else if gm_has (byID tb) (ID (deref p)) then tt
         else Some (tb\<lparr>byID := gm_put (ID (deref p)) p (byID tb)\<rparr>)
     | _ \<Rightarrow> tt)"

definition AdoptSeqFrom ::
  "'p globals \<Rightarrow> 'p TypeTable \<Rightarrow> 'p TypeTable option
    \<Rightarrow> 'p globals \<times> 'p TypeTable \<times> 'p TypeTable option"
where
  "AdoptSeqFrom g tt src =
    (case src of
       None \<Rightarrow> (g, tt, src)
     | Some sr \<Rightarrow> let (g, sr, c) = ensure_seq g sr in (g, tt\<lparr>seq := Some c\<rparr>, Some sr))"

definition Retire :: "'p TypeTable option \<Rightarrow> 'p ptr option \<Rightarrow> 'p TypeTable option" where
  "Retire tt def =
    (case (tt, def) of
       (Some tb, Some d) \<Rightarrow> Some (tb\<lparr>byID := gm_del (ID (deref d)) (byID tb)\<rparr>)
     | _ \<Rightarrow> tt)"

definition idSnapshot :: "'p TypeTable option \<Rightarrow> (string, 'p ptr) gomap option" where
  "idSnapshot tt = (case tt of None \<Rightarrow> None | Some tb \<Rightarrow> Some (gm_copy (byID tb)))"

definition readmit_step ::
  "string \<times> 'p ptr \<Rightarrow> (string, 'p ptr) gomap \<times> int \<Rightarrow> (string, 'p ptr) gomap \<times> int" where
  "readmit_step = (\<lambda>(i, def) (m, n). if gm_has m i then (m, n) else (gm_put i def m, n + 1))"

definition readmitRetired ::
  "'p TypeTable option \<Rightarrow> (string, 'p ptr) gomap option \<Rightarrow> 'p TypeTable option \<times> int" where
  "readmitRetired tt snap =
    (case tt of
       None \<Rightarrow> (None, 0)
     | Some tb \<Rightarrow>
         let (m, n) = fold readmit_step (made snap) (byID tb, 0)
         in (Some (tb\<lparr>byID := m\<rparr>), n))"

section \<open>Copies of a table\<close>

definition Clone ::
  "'p globals \<Rightarrow> 'p TypeTable option \<Rightarrow> 'p globals \<times> 'p TypeTable option" where
  "Clone g tt =
    (case tt of
       None \<Rightarrow> (g, None)
     | Some tb \<Rightarrow>
         let (a, g) = alloc g; (c, g) = new_counter g;
             g = (case seq tb of None \<Rightarrow> g | Some c0 \<Rightarrow> set_cell c (cell g c0) g)
         in (g, Some \<lparr> tt_addr = a, byID = gm_copy (byID tb), byName = gm_copy (byName tb),
                parts = gm_copy (parts tb), bypath = None, rootSet = None, leafIndex = None,
                seq = Some c, MintOwner = MintOwner tb \<rparr>))"

definition CloneDynamic ::
  "'p globals \<Rightarrow> 'p TypeTable option \<Rightarrow> 'p globals \<times> 'p TypeTable" where
  "CloneDynamic g tt =
    (case tt of
       None \<Rightarrow> NewDynamicTypeTable g
     | Some tb \<Rightarrow>
         let (a, g) = alloc g
         in (g, \<lparr> tt_addr = a, byID = gm_copy (byID tb), byName = gm_copy (byName tb),
                parts = gm_copy (parts tb), bypath = map_option gm_copy (bypath tb),
                rootSet = map_option gm_copy (rootSet tb),
                leafIndex = map_option gm_copy (leafIndex tb),
                seq = seq tb, MintOwner = MintOwner tb \<rparr>))"

section \<open>Registration\<close>

text \<open>The bookkeeping of the indexes that both registration paths share.\<close>

definition index_leaf :: "string \<Rightarrow> string \<Rightarrow> (string, string) gomap \<Rightarrow> (string, string) gomap" where
  "index_leaf name path m =
    (case gm_get m name of
       Some existing \<Rightarrow> if existing \<noteq> [] then gm_put name [] m else m
     | None \<Rightarrow> gm_put name path m)"

definition index_parts :: "string list \<Rightarrow> (string, bool) gomap \<Rightarrow> (string, bool) gomap" where
  "index_parts ps m = fold (\<lambda>p. gm_put p True) ps m"

definition buildTypeNames :: "(string, 'p ptr) gomap \<Rightarrow> (string, 'p ptr) gomap" where
  "buildTypeNames names = gm_copy names"

definition part_ok :: "string \<Rightarrow> bool" where
  "part_ok p = (IsCapitalisedName p \<or> go_has_prefix p ''__'')"

fun check_parts :: "string \<Rightarrow> string list \<Rightarrow> tt_error option" where
  "check_parts path [] = None"
| "check_parts path (p # ps) =
    (if p = [] then Some (EmptyPart path)
     else if \<not> part_ok p then Some (BadPart path p)
     else check_parts path ps)"

definition RegisterType ::
  "'p globals \<Rightarrow> 'p TypeTable \<Rightarrow> string \<Rightarrow> int \<Rightarrow> string \<Rightarrow> TypeBehavior option
    \<Rightarrow> tt_error + ('p globals \<times> 'p TypeTable \<times> 'p ptr)"
where
  "RegisterType g tt path fixedID owner behavior =
    (if owner = [] then Inl (EmptyOwner path)
     else let ps = go_split (CHR ''/'') path in
     if path = [] then Inl EmptyPath
     else case check_parts path ps of
       Some e \<Rightarrow> Inl e
     | None \<Rightarrow>
       let parentPath = go_join (CHR ''/'') (butlast ps);
           parent = (if length ps > 1 then nm_get (bypath tt) parentPath else None)
       in if length ps > 1 \<and> nilp parent then Inl (ParentNotRegistered parentPath path)
       else if \<not> nilp (nm_get (bypath tt) path) then Inl (PathRegistered path)
       else let i = formatFixedID path fixedID in
       case gm_get (byID tt) i of
         Some existing \<Rightarrow> Inl (FixedIDCollides fixedID path (Path (Some existing)))
       | None \<Rightarrow>
         let b = (case behavior of None \<Rightarrow> DefaultBehavior | Some b \<Rightarrow> b);
             rank = (if nilp parent then 0 else externalBandFor parent);
             (g, def) = new_node g i parent
               (\<lambda>m. Meta m (last ps) b fixedID rank (depthOf parent) 0 0 owner None)
               (builtin_flags False);
             tt = tt\<lparr>
               byID := gm_put i def (byID tt),
               bypath := Some (gm_put path def (made (bypath tt))),
               rootSet := Some (if nilp parent then gm_put path True (made (rootSet tt))
                                else made (rootSet tt)),
               byName := gm_put (last ps) def (byName tt),
               parts := index_parts ps (parts tt),
               leafIndex := Some (index_leaf (last ps) path (made (leafIndex tt)))\<rparr>;
             g = (if tt_addr tt = Builtin_addr
                  then g\<lparr>TypeNames := buildTypeNames (byName tt)\<rparr> else g)
         in Inr (g, tt, def))"

section \<open>Bounds of type parameters\<close>

text \<open>
  The placeholder of a generic parameter is minted first and gets its parent when
  its bound is known (core/go/generics.go): the node keeps its address and its
  metadata, the cached depth included.  The bound comes as the node it denotes,
  nil when it denotes none.
\<close>

definition CanonicalType :: "'p TypeTable option \<Rightarrow> 'p ptr option \<Rightarrow> 'p ptr option" where
  "CanonicalType r t =
    (case t of
       None \<Rightarrow> None
     | Some p \<Rightarrow>
         if nilp r \<or> ID (deref p) = [] then t
         else (case LookupByID r (ID (deref p)) of Some canon \<Rightarrow> Some canon | None \<Rightarrow> t))"

fun set_parent :: "'p ptr option \<Rightarrow> 'p val \<Rightarrow> 'p val" where
  "set_parent q (Val i d par m ps df el as ns fl) = Val i d q m ps df el as ns fl"

definition AttachGenBound :: "'p TypeTable option \<Rightarrow> 'p ptr \<Rightarrow> 'p ptr option \<Rightarrow> 'p ptr" where
  "AttachGenBound r node bn =
    (case bn of
       None \<Rightarrow> node
     | Some b \<Rightarrow> Ptr (addr node) (set_parent (CanonicalType r (Some b)) (deref node)))"

end
