(* ===== verification/Builtins.thy ===== *)
theory Builtins
  imports Type_Table
begin

text \<open>
  The builtin table (core/go/typetable.go): the declarations, registerBuiltin,
  the interval labelling and newBuiltinTypeTable; the well-known types and the
  resolution of type names and paths (core/go/types.go).
\<close>

section \<open>The declarations\<close>

record builtinDecl =
  d_Path :: string
  d_ParentPath :: string
  d_FixedID :: int
  d_IsInternal :: bool
  d_Alias :: string
  d_Rank :: int

definition decl :: "string \<Rightarrow> string \<Rightarrow> int \<Rightarrow> bool \<Rightarrow> string \<Rightarrow> int \<Rightarrow> builtinDecl" where
  "decl p pp f i a r = \<lparr> d_Path = p, d_ParentPath = pp, d_FixedID = f, d_IsInternal = i,
     d_Alias = a, d_Rank = r \<rparr>"

definition root_decls :: "builtinDecl list" where
  "root_decls =
   [decl ''Any'' '''' 1 False '''' 11000000000,
    decl ''None'' '''' 2 False '''' 12000000000,
    decl ''Never'' '''' 61 False '''' 13000000000,
    decl ''Absent'' '''' 74 False '''' 14000000000,
    decl ''Scalar'' ''Any'' 3 False '''' 20000000000,
    decl ''Node'' ''Any'' 11 False '''' 30000000000,
    decl ''Ideal'' ''Any'' 48 False '''' 40000000000,
    decl ''Word'' ''Any'' 17 False '''' 50000000000,
    decl ''Type'' ''Any'' 39 False '''' 60000000000]"

definition scalar_decls :: "builtinDecl list" where
  "scalar_decls =
   [decl ''Scalar/Atom'' '''' 18 False '''' 20100000000,
    decl ''Scalar/Boolean'' '''' 10 False '''' 20200000000,
    decl ''Scalar/Number'' '''' 7 False '''' 20300000000,
    decl ''Scalar/Number/Integer'' '''' 8 False '''' 20310000000,
    decl ''Scalar/Number/Float'' '''' 9 False '''' 20320000000,
    decl ''Scalar/Number/BigInteger'' '''' 100 False '''' 20330000000,
    decl ''Scalar/Number/BigDecimal'' '''' 101 False '''' 20340000000,
    decl ''Scalar/String'' '''' 4 False '''' 20400000000,
    decl ''Scalar/String/EmptyString'' '''' 6 False '''' 20410000000,
    decl ''Scalar/String/ProperString'' '''' 5 False '''' 20420000000,
    decl ''Scalar/Micron'' '''' 111 False '''' 20500000000,
    decl ''Scalar/Micron/Pathon'' '''' 47 False '''' 20510000000,
    decl ''Scalar/Micron/Emailon'' '''' 112 False '''' 20520000000,
    decl ''Scalar/Micron/Urlon'' '''' 113 False '''' 20530000000,
    decl ''Scalar/Micron/Ipon'' '''' 114 False '''' 20540000000,
    decl ''Scalar/Micron/Hoston'' '''' 115 False '''' 20550000000,
    decl ''Scalar/Micron/Semveron'' '''' 116 False '''' 20560000000,
    decl ''Scalar/Micron/Cidron'' '''' 117 False '''' 20570000000,
    decl ''Scalar/Micron/Macon'' '''' 118 False '''' 20580000000,
    decl ''Scalar/Micron/Coloron'' '''' 119 False '''' 20590000000,
    decl ''Scalar/Micron/Mimon'' '''' 120 False '''' 20600000000,
    decl ''Scalar/Micron/Qion'' '''' 121 False '''' 20610000000,
    decl ''Scalar/Micron/Phonon'' '''' 122 False '''' 20620000000]"

definition node_decls :: "builtinDecl list" where
  "node_decls =
   [decl ''Node/List'' '''' 12 False '''' 30100000000,
    decl ''Node/List/Args'' '''' 13 False '''' 30110000000,
    decl ''Node/List/FlexList'' '''' 79 False '''' 30120000000,
    decl ''Node/List/FlexList/WeakFlexList'' '''' 124 False '''' 30121000000,
    decl ''Node/Map'' '''' 14 False '''' 30200000000,
    decl ''Node/Map/Inspect'' '''' 31 False '''' 30210000000,
    decl ''Node/Map/FlexMap'' '''' 78 False '''' 30220000000,
    decl ''Node/Map/FlexMap/WeakFlexMap'' '''' 123 False '''' 30221000000,
    decl ''Node/Map/KeyVal'' '''' 5002 False '''' 31000000000,
    decl ''Node/Xml'' '''' 108 False '''' 30300000000,
    decl ''Node/Xml/FlexXml'' '''' 110 False '''' 30310000000,
    decl ''Node/Xml/FlexXml/WeakFlexXml'' '''' 125 False '''' 30311000000]"

definition ideal_decls :: "builtinDecl list" where
  "ideal_decls =
   [decl ''Ideal/Resource'' '''' 36 False '''' 40120000000,
    decl ''Ideal/Resource/Entity'' '''' 37 False '''' 40121000000,
    decl ''Ideal/Record'' '''' 16 False '''' 40300000000,
    decl ''Ideal/Options'' '''' 38 False '''' 40400000000,
    decl ''Ideal/Error'' '''' 45 False '''' 40500000000,
    decl ''Ideal/Store'' '''' 42 False '''' 40600000000,
    decl ''Ideal/Store/System'' '''' 43 False '''' 40610000000,
    decl ''Ideal/Table'' '''' 15 False '''' 40700000000,
    decl ''Ideal/Reach'' '''' 29 False '''' 40800000000,
    decl ''Ideal/Class'' '''' 102 False '''' 40900000000,
    decl ''Ideal/Surface'' '''' 103 False '''' 40910000000,
    decl ''Ideal/Module'' '''' 5000 False '''' 41000000000]"

definition word_decls :: "builtinDecl list" where
  "word_decls =
   [decl ''Word/__FW'' '''' 21 True ''Forward'' 50100000000,
    decl ''Word/__OP'' '''' 22 True ''Paren'' 50100001000,
    decl ''Word/__CP'' '''' 72 True ''CloseParen'' 50100002000,
    decl ''Word/__ED'' '''' 73 True ''End'' 50100003000,
    decl ''Word/__PE'' '''' 63 True '''' 50100004000,
    decl ''Word/__IS'' '''' 51 True '''' 50100005000,
    decl ''Word/__XI'' '''' 109 True '''' 50100005500,
    decl ''Word/__RC'' '''' 25 True ''Returncheck'' 50100007000,
    decl ''Word/__MK'' '''' 27 True ''Mark'' 50100008000,
    decl ''Word/__MV'' '''' 28 True ''Move'' 50100009000,
    decl ''Word/__IN'' '''' 20 True '''' 50100011000,
    decl ''Word/__IN/__DC'' '''' 64 True '''' 50100011001,
    decl ''Word/__SP'' '''' 75 True ''Splice'' 50100012000,
    decl ''Word/__DM'' '''' 76 True ''DispatchMod'' 50100013000,
    decl ''Word/__SG'' '''' 80 True ''Sugar'' 50100014000]"

definition type_decls :: "builtinDecl list" where
  "type_decls =
   [decl ''Type/Function'' '''' 19 False '''' 60100000000,
    decl ''Type/FunctionSignature'' '''' 24 False '''' 60200000000,
    decl ''Type/Disjunct'' '''' 26 False '''' 60300000000,
    decl ''Type/Disjunct/Enum'' '''' 62 False '''' 60310000000,
    decl ''Type/Negation'' '''' 77 False '''' 60400000000,
    decl ''Type/Self'' '''' 104 False '''' 60500000000,
    decl ''Type/TypeParam'' '''' 105 False '''' 60600000000,
    decl ''Type/GenSpec'' '''' 106 False '''' 60700000000,
    decl ''Type/GenParam'' '''' 107 False '''' 60800000000]"

definition builtinDecls :: "builtinDecl list" where
  "builtinDecls =
     root_decls @ scalar_decls @ node_decls @ ideal_decls @ word_decls @ type_decls"

section \<open>Registration of a builtin\<close>

definition recordBuiltinInitErr :: "tt_error \<Rightarrow> 'p globals \<Rightarrow> 'p globals" where
  "recordBuiltinInitErr e g = g\<lparr>builtinInitErrs := builtinInitErrs g @ [e]\<rparr>"

definition BuiltinInitError :: "'p globals \<Rightarrow> tt_error option" where
  "BuiltinInitError g = (case builtinInitErrs g of [] \<Rightarrow> None | e # _ \<Rightarrow> Some e)"

text \<open>The parent a declaration names: nothing, a registered type, or an error.\<close>

definition decl_parent :: "'p TypeTable \<Rightarrow> builtinDecl \<Rightarrow> tt_error + 'p ptr option" where
  "decl_parent tt d =
    (let ps = go_split (CHR ''/'') (d_Path d) in
     if d_ParentPath d \<noteq> [] then
       (case nm_get (bypath tt) (d_ParentPath d) of
          None \<Rightarrow> Inl (ParentPathNotRegistered (d_ParentPath d) (d_Path d))
        | Some p \<Rightarrow> Inr (Some p))
     else if length ps > 1 then
       let parentPath = go_join (CHR ''/'') (butlast ps) in
       (case nm_get (bypath tt) parentPath of
          None \<Rightarrow> Inl (BuiltinParentMissing parentPath (d_Path d))
        | Some p \<Rightarrow> Inr (Some p))
     else Inr None)"

definition builtin_indexes ::
  "builtinDecl \<Rightarrow> string \<Rightarrow> 'p ptr option \<Rightarrow> 'p ptr \<Rightarrow> 'p TypeTable \<Rightarrow> 'p TypeTable" where
  "builtin_indexes d i parent def tt =
    (let ps = go_split (CHR ''/'') (d_Path d);
         leaf = index_leaf (last ps) (d_Path d) (made (leafIndex tt))
     in tt\<lparr>
       byID := gm_put i def (byID tt),
       bypath := Some (gm_put (d_Path d) def (made (bypath tt))),
       rootSet := Some (if nilp parent then gm_put (d_Path d) True (made (rootSet tt))
                        else made (rootSet tt)),
       byName := (if d_IsInternal d then byName tt else gm_put (last ps) def (byName tt)),
       parts := index_parts ps (parts tt),
       leafIndex := Some (if d_Alias d \<noteq> [] then gm_put (d_Alias d) (d_Path d) leaf
                          else leaf)\<rparr>)"

definition registerBuiltin ::
  "builtinDecl \<Rightarrow> 'p globals \<times> 'p TypeTable \<Rightarrow> 'p globals \<times> 'p TypeTable" where
  "registerBuiltin d = (\<lambda>(g, tt).
    case decl_parent tt d of
      Inl e \<Rightarrow> (recordBuiltinInitErr e g, tt)
    | Inr parent \<Rightarrow>
      let i = formatFixedID (d_Path d) (d_FixedID d) in
      (case gm_get (byID tt) i of
         Some existing \<Rightarrow>
           (recordBuiltinInitErr
              (DuplicateFixedID (d_FixedID d) (d_Path d) (Path (Some existing))) g, tt)
       | None \<Rightarrow>
           let (g, def) = new_node g i parent
                 (\<lambda>m. Meta m (last (go_split (CHR ''/'') (d_Path d))) DefaultBehavior
                   (d_FixedID d) (d_Rank d) (depthOf parent) 0 0 OwnerKernel None)
                 (builtin_flags (d_IsInternal d))
           in (g, builtin_indexes d i parent def tt)))"

section \<open>Interval labels\<close>

text \<open>
  The depth-first numbering.  A label is stored under the address of the
  typeMeta it is written to: \<open>In\<close> on entry, \<open>Out\<close> after the children.
\<close>

type_synonym labels = "(nat, int \<times> int) gomap"

definition set_In :: "'p ptr \<Rightarrow> int \<Rightarrow> labels \<Rightarrow> labels" where
  "set_In t n L = (case tmeta (deref t) of None \<Rightarrow> L
    | Some m \<Rightarrow> gm_put (maddr m)
        (n, case gm_get L (maddr m) of None \<Rightarrow> 0 | Some (_, out) \<Rightarrow> out) L)"

definition set_Out :: "'p ptr \<Rightarrow> int \<Rightarrow> labels \<Rightarrow> labels" where
  "set_Out t n L = (case tmeta (deref t) of None \<Rightarrow> L
    | Some m \<Rightarrow> gm_put (maddr m)
        (case gm_get L (maddr m) of None \<Rightarrow> 0 | Some (inn, _) \<Rightarrow> inn, n) L)"

definition label_roots :: "'p ptr list \<Rightarrow> 'p ptr list" where
  "label_roots nodes = sort_key (\<lambda>t. ID (deref t)) (filter (\<lambda>t. nilp (parent_of t)) nodes)"

definition label_kids :: "'p ptr list \<Rightarrow> 'p ptr \<Rightarrow> 'p ptr list" where
  "label_kids nodes t =
    sort_key (\<lambda>t. ID (deref t))
      (filter (\<lambda>c. case parent_of c of None \<Rightarrow> False | Some q \<Rightarrow> ID (deref q) = ID (deref t)) nodes)"

fun visit :: "nat \<Rightarrow> 'p ptr list \<Rightarrow> 'p ptr \<Rightarrow> int \<times> labels \<Rightarrow> int \<times> labels" where
  "visit 0 nodes t s = s"
| "visit (Suc fuel) nodes t (counter, L) =
    (let counter = counter + 1;
         L = set_In t counter L;
         (counter, L) = fold (visit fuel nodes) (label_kids nodes t) (counter, L)
     in (counter, set_Out t counter L))"

definition interval_labels :: "'p ptr list \<Rightarrow> labels" where
  "interval_labels nodes =
    snd (fold (visit (Suc (length nodes)) nodes) (label_roots nodes) (0, gm_empty))"

text \<open>A write to typeMetas, seen through every pointer that leads to them.\<close>

function remeta :: "('p type_meta \<Rightarrow> 'p type_meta) \<Rightarrow> 'p ptr \<Rightarrow> 'p ptr" where
  "remeta f (Ptr a (Val i d par tm ps df el as mn fl)) =
    Ptr a (Val i d (case par of None \<Rightarrow> None | Some q \<Rightarrow> Some (remeta f q))
      (map_option f tm) ps df el as mn fl)"
  by (metis prod.exhaust ptr.exhaust val.exhaust) auto
termination by (relation "measure (\<lambda>(f, t). size t)") auto

definition relabel_meta :: "labels \<Rightarrow> 'p type_meta \<Rightarrow> 'p type_meta" where
  "relabel_meta L m =
    (case gm_get L (maddr m) of
       None \<Rightarrow> m
     | Some (i, out) \<Rightarrow> (case m of Meta a nm b fid rk dp _ _ ow bd \<Rightarrow>
         Meta a nm b fid rk dp i out ow bd))"

definition rebehave_meta :: "nat \<Rightarrow> TypeBehavior \<Rightarrow> 'p type_meta \<Rightarrow> 'p type_meta" where
  "rebehave_meta x b m =
    (if maddr m = x then
       (case m of Meta c nm _ fid rk dp li lo ow bd \<Rightarrow> Meta c nm b fid rk dp li lo ow bd)
     else m)"

definition map_pointers :: "('p ptr \<Rightarrow> 'p ptr) \<Rightarrow> 'p TypeTable \<Rightarrow> 'p TypeTable" where
  "map_pointers f tt =
    (let f = map (\<lambda>(k, p). (k, f p)) in
     tt\<lparr>byID := f (byID tt), byName := f (byName tt), bypath := map_option f (bypath tt)\<rparr>)"

definition labelIntervals :: "'p TypeTable \<Rightarrow> 'p TypeTable" where
  "labelIntervals tt = map_pointers (remeta (relabel_meta (interval_labels (map snd (byID tt))))) tt"

section \<open>The builtin table\<close>

definition install_type_behavior :: "'p TypeTable \<Rightarrow> 'p TypeTable" where
  "install_type_behavior tt =
    (case nm_get (bypath tt) ''Type'' of
       None \<Rightarrow> tt
     | Some t \<Rightarrow> (case tmeta (deref t) of
         None \<Rightarrow> tt
       | Some m \<Rightarrow> map_pointers (remeta (rebehave_meta (maddr m) TypeMembershipBehavior)) tt))"

definition empty_builtin_table :: "'p TypeTable" where
  "empty_builtin_table = \<lparr> tt_addr = Builtin_addr, byID = gm_empty, byName = gm_empty,
     parts = gm_empty, bypath = Some gm_empty, rootSet = Some gm_empty,
     leafIndex = Some gm_empty, seq = None, MintOwner = [] \<rparr>"

definition initial_globals :: "'p globals" where
  "initial_globals = \<lparr> next_addr = 1, cells = gm_empty, TypeNames = gm_empty,
     builtinInitErrs = [] \<rparr>"

definition build_table :: "builtinDecl list \<Rightarrow> 'p globals \<times> 'p TypeTable" where
  "build_table ds = fold registerBuiltin ds (initial_globals, empty_builtin_table)"

definition newBuiltinTypeTable :: "'p globals \<times> 'p TypeTable" where
  "newBuiltinTypeTable =
    (let (g, tt) = build_table builtinDecls
     in (g, install_type_behavior (labelIntervals tt)))"

end
