(* ===== verification/Intervals.thy ===== *)
theory Intervals
  imports Builtins
begin

text \<open>
  The depth-first labelling is a nested-set labelling: for any closed and
  identified list of nodes, the interval of a node holds exactly the entry
  numbers of the nodes below it.  The recursion bound (one more than the number
  of nodes) is never reached.
\<close>

section \<open>Preorder\<close>

fun preorder :: "nat \<Rightarrow> 'p ptr list \<Rightarrow> 'p ptr \<Rightarrow> 'p ptr list" where
  "preorder 0 ns t = []"
| "preorder (Suc f) ns t = t # concat (map (preorder f ns) (label_kids ns t))"

text \<open>A list of nodes the labelling runs on.\<close>

definition node_list :: "'p ptr list \<Rightarrow> bool" where
  "node_list ns \<longleftrightarrow> closed_nodes (set ns) \<and> identified (set ns) \<and> distinct (map (\<lambda>t. ID (deref t)) ns)"

definition fuel_ok :: "'p ptr list \<Rightarrow> nat \<Rightarrow> 'p ptr \<Rightarrow> bool" where
  "fuel_ok ns f t \<longleftrightarrow> length ns < length (chain t) + f"

abbreviation below :: "'p ptr list \<Rightarrow> 'p ptr \<Rightarrow> 'p ptr set" where
  "below ns t \<equiv> {x \<in> set ns. ID (deref t) \<in> set (idchain x)}"

lemma node_listD:
  assumes "node_list ns"
  shows node_list_closed: "closed_nodes (set ns)" and node_list_identified: "identified (set ns)"
  using assms by (simp_all add: node_list_def)

lemma node_list_inj:
  assumes "node_list ns" "x \<in> set ns" "y \<in> set ns" "ID (deref x) = ID (deref y)"
  shows "x = y"
  using assms unfolding node_list_def distinct_map by (metis inj_onD)

lemma node_list_distinct: "node_list ns \<Longrightarrow> distinct ns"
  by (simp add: node_list_def distinct_map)

lemma set_label_kids:
  "set (label_kids ns t) = {c \<in> set ns. \<exists>q. parent_of c = Some q \<and> ID (deref q) = ID (deref t)}"
  by (auto simp: label_kids_def split: option.splits)

lemma distinct_label_kids: "node_list ns \<Longrightarrow> distinct (label_kids ns t)"
  by (simp add: label_kids_def distinct_sort node_list_distinct)

lemma chain_in_nodes: "\<lbrakk>node_list ns; x \<in> set ns; y \<in> set (chain x)\<rbrakk> \<Longrightarrow> y \<in> set ns"
  using closed_chain [OF node_list_closed] by blast

lemma id_on_chain:
  assumes ns: "node_list ns" "x \<in> set ns" "t \<in> set ns" and m: "ID (deref t) \<in> set (idchain x)"
  shows "t \<in> set (chain x)"
proof -
  obtain y where y: "y \<in> set (chain x)" "ID (deref y) = ID (deref t)"
    using m by (auto simp: idchain_def)
  then have "y = t" using node_list_inj [OF ns(1) chain_in_nodes [OF ns(1,2)] ns(3)] by blast
  with y show ?thesis by simp
qed

lemma kid_chain_length:
  assumes ns: "node_list ns" "t \<in> set ns" and k: "k \<in> set (label_kids ns t)"
  shows "parent_of k = Some t" "length (chain k) = Suc (length (chain t))" "k \<in> set ns"
proof -
  obtain q where q: "k \<in> set ns" "parent_of k = Some q" "ID (deref q) = ID (deref t)"
    using k by (auto simp: set_label_kids)
  then have "q \<in> set ns" using closedD [OF node_list_closed [OF ns(1)]] by blast
  then have "q = t" using node_list_inj [OF ns(1) _ ns(2) q(3)] by blast
  with q show "parent_of k = Some t" "length (chain k) = Suc (length (chain t))" "k \<in> set ns"
    by (simp_all add: chain_step)
qed

lemma chain_same_length:
  "\<lbrakk>y \<in> set (chain x); z \<in> set (chain x); length (chain y) = length (chain z)\<rbrakk> \<Longrightarrow> y = z"
proof (induction x rule: ptr_induct)
  case (step x)
  show ?case
  proof (cases "parent_of x")
    case None
    then show ?thesis using step.prems by (simp add: chain_root)
  next
    case (Some q)
    have "length (chain w) \<noteq> length (chain x)" if "w \<in> set (chain q)" for w
      using chain_member_length [OF that] Some by (auto simp: chain_step)
    from this [of y] this [of z] show ?thesis
      using step.prems step.IH [OF Some] Some by (auto simp: chain_step)
  qed
qed

lemma chain_parent_length: "parent_of x = Some q \<Longrightarrow> length (chain x) = Suc (length (chain q))"
  by (simp add: chain_step)

lemma parent_above: "parent_of x = Some q \<Longrightarrow> x \<notin> set (chain q)"
  using chain_member_length [of x q] chain_parent_length [of x q] by auto

lemma chain_distinct: "distinct (chain x)"
proof (induction x rule: ptr_induct)
  case (step x)
  then show ?case
    by (cases "parent_of x") (simp_all add: chain_root chain_step parent_above)
qed

lemma path_through_kid:
  "\<lbrakk>t \<in> set (chain x); t \<noteq> x\<rbrakk> \<Longrightarrow> \<exists>k \<in> set (chain x). parent_of k = Some t"
proof (induction x rule: ptr_induct)
  case (step x)
  show ?case
  proof (cases "parent_of x")
    case None
    then show ?thesis using step.prems by (simp add: chain_root)
  next
    case (Some q)
    show ?thesis
    proof (cases "t = q")
      case True
      then show ?thesis using Some by (metis self_in_chain)
    next
      case False
      then have "t \<in> set (chain q)" using step.prems Some by (auto simp: chain_step)
      then obtain k where "k \<in> set (chain q)" "parent_of k = Some t"
        using step.IH [OF Some] False by blast
      then show ?thesis using Some by (auto simp: chain_step)
    qed
  qed
qed

lemma chain_fits: "\<lbrakk>node_list ns; t \<in> set ns\<rbrakk> \<Longrightarrow> length (chain t) \<le> length ns"
proof -
  assume ns: "node_list ns" "t \<in> set ns"
  show ?thesis
    using closed_chain [OF node_list_closed [OF ns(1)] ns(2)] chain_distinct [of t]
    by (metis List.finite_set card_length card_mono distinct_card order_trans)
qed

lemma below_split:
  assumes ns: "node_list ns" and t: "t \<in> set ns"
  shows "below ns t = insert t (\<Union>k \<in> set (label_kids ns t). below ns k)"
proof (intro equalityI subsetI)
  fix x assume x: "x \<in> below ns t"
  then have tx: "t \<in> set (chain x)" using id_on_chain [OF ns _ t] by blast
  show "x \<in> insert t (\<Union>k \<in> set (label_kids ns t). below ns k)"
  proof (cases "t = x")
    case False
    then obtain k where k: "k \<in> set (chain x)" "parent_of k = Some t"
      using path_through_kid [OF tx] by blast
    then have "k \<in> set (label_kids ns t)" "x \<in> below ns k"
      using x chain_in_nodes [OF ns] by (auto simp: set_label_kids idchain_def)
    then show ?thesis by blast
  qed simp
next
  fix x assume x: "x \<in> insert t (\<Union>k \<in> set (label_kids ns t). below ns k)"
  show "x \<in> below ns t"
  proof (cases "x = t")
    case False
    then obtain k where k: "k \<in> set (label_kids ns t)" "x \<in> below ns k" using x by blast
    have "k \<in> set (chain x)" using id_on_chain [OF ns] k kid_chain_length(3) [OF ns t] by blast
    then have "set (chain k) \<subseteq> set (chain x)" by (rule chain_trans)
    moreover have "t \<in> set (chain k)" using kid_chain_length(1) [OF ns t k(1)] by (simp add: chain_step)
    ultimately show ?thesis using k by (auto simp: idchain_def)
  qed (use t in simp)
qed

lemma below_kids_disjoint:
  assumes ns: "node_list ns" and t: "t \<in> set ns"
    and k: "k \<in> set (label_kids ns t)" "l \<in> set (label_kids ns t)" "k \<noteq> l"
  shows "below ns k \<inter> below ns l = {}"
proof -
  have "k = l" if "x \<in> below ns k" "x \<in> below ns l" for x
    using that id_on_chain [OF ns, of x] kid_chain_length [OF ns t] k chain_same_length [of k x l]
    by simp
  with k show ?thesis by blast
qed

lemma not_below_kid:
  assumes ns: "node_list ns" and t: "t \<in> set ns" and k: "k \<in> set (label_kids ns t)"
  shows "t \<notin> below ns k"
proof
  assume "t \<in> below ns k"
  then have "k \<in> set (chain t)" using id_on_chain [OF ns t] kid_chain_length(3) [OF ns t k] by blast
  then show False
    using parent_above [OF kid_chain_length(1) [OF ns t k]] by blast
qed

lemma fuel_ok_kid:
  "\<lbrakk>node_list ns; t \<in> set ns; k \<in> set (label_kids ns t); fuel_ok ns (Suc f) t\<rbrakk> \<Longrightarrow> fuel_ok ns f k"
  using kid_chain_length(2) by (fastforce simp: fuel_ok_def)

lemma fuel_ok_pos: "\<lbrakk>node_list ns; t \<in> set ns; fuel_ok ns f t\<rbrakk> \<Longrightarrow> \<exists>g. f = Suc g"
  using chain_fits by (cases f) (fastforce simp: fuel_ok_def)+

lemma preorder_below:
  assumes ns: "node_list ns"
  shows "\<lbrakk>t \<in> set ns; fuel_ok ns f t\<rbrakk> \<Longrightarrow> set (preorder f ns t) = below ns t \<and> distinct (preorder f ns t)"
proof (induction f arbitrary: t)
  case 0
  then show ?case using fuel_ok_pos [OF ns] by blast
next
  case (Suc f)
  let ?ks = "label_kids ns t"
  have IH: "set (preorder f ns k) = below ns k" "distinct (preorder f ns k)" if "k \<in> set ?ks" for k
    using Suc.IH kid_chain_length(3) [OF ns Suc.prems(1) that] that fuel_ok_kid [OF ns Suc.prems(1) that Suc.prems(2)]
    by auto
  have s: "set (concat (map (preorder f ns) ?ks)) = (\<Union>k \<in> set ?ks. below ns k)"
    using IH(1) by auto
  have "distinct (concat (map (preorder f ns) ks))" if "set ks \<subseteq> set ?ks" "distinct ks" for ks
    using that
  proof (induction ks)
    case (Cons k ks)
    have "set (preorder f ns k) \<inter> set (concat (map (preorder f ns) ks)) = {}"
      using Cons.prems IH(1) below_kids_disjoint [OF ns Suc.prems(1), of k] by fastforce
    then show ?case using Cons IH(2) by auto
  qed simp
  then have "distinct (concat (map (preorder f ns) ?ks))"
    using distinct_label_kids [OF ns] by blast
  moreover have "t \<notin> (\<Union>k \<in> set ?ks. below ns k)"
    using not_below_kid [OF ns Suc.prems(1)] by blast
  ultimately show ?case
    using s below_split [OF ns Suc.prems(1)] by (simp del: UN_simps)
qed

section \<open>The labels the depth-first visit writes\<close>

definition subtree :: "'p ptr list \<Rightarrow> 'p ptr \<Rightarrow> 'p ptr list" where
  "subtree ns t = preorder (Suc (length ns)) ns t"

lemma preorder_fuel:
  assumes ns: "node_list ns"
  shows "\<lbrakk>t \<in> set ns; fuel_ok ns f t; fuel_ok ns g t\<rbrakk> \<Longrightarrow> preorder f ns t = preorder g ns t"
proof (induction f arbitrary: g t)
  case 0
  then show ?case using fuel_ok_pos [OF ns] by blast
next
  case (Suc f)
  then obtain h where g: "g = Suc h" using fuel_ok_pos [OF ns] by blast
  have "preorder f ns k = preorder h ns k" if "k \<in> set (label_kids ns t)" for k
    using Suc.IH [of k h] that Suc.prems g fuel_ok_kid [OF ns Suc.prems(1) that]
      kid_chain_length(3) [OF ns Suc.prems(1) that] by blast
  then show ?case by (simp add: g cong: map_cong)
qed

lemma preorder_subtree:
  "\<lbrakk>node_list ns; t \<in> set ns; fuel_ok ns f t\<rbrakk> \<Longrightarrow> preorder f ns t = subtree ns t"
  unfolding subtree_def by (rule preorder_fuel) (auto simp: fuel_ok_def)

lemma subtree_unfold:
  assumes ns: "node_list ns" and t: "t \<in> set ns"
  shows "subtree ns t = t # concat (map (subtree ns) (label_kids ns t))"
proof -
  have "preorder (length ns) ns k = subtree ns k" if "k \<in> set (label_kids ns t)" for k
  proof (rule preorder_subtree [OF ns kid_chain_length(3) [OF ns t that]])
    show "fuel_ok ns (length ns) k"
      using kid_chain_length(2) [OF ns t that] by (simp add: fuel_ok_def)
  qed
  then show ?thesis unfolding subtree_def [of ns t] by (simp cong: map_cong)
qed

lemma subtree_below:
  assumes "node_list ns" "t \<in> set ns"
  shows "set (subtree ns t) = below ns t" "distinct (subtree ns t)"
  using preorder_below [OF assms(1), of t "Suc (length ns)"] assms(2)
  by (auto simp: subtree_def fuel_ok_def)

definition meta_key :: "'p ptr \<Rightarrow> nat" where
  "meta_key t = maddr (the (tmeta (deref t)))"

lemma meta_key_inj:
  assumes ns: "node_list ns" "x \<in> set ns" "y \<in> set ns" and "meta_key x = meta_key y"
  shows "x = y"
proof (rule node_list_inj [OF ns])
  show "ID (deref x) = ID (deref y)"
    using assms(4) node_list_identified [OF ns(1)] ns(2,3)
    unfolding identified_def meta_key_def by blast
qed

lemma set_In_get:
  "tmeta (deref t) \<noteq> None \<Longrightarrow> gm_get (set_In t n L) a =
    (if a = meta_key t then Some (n, case gm_get L a of None \<Rightarrow> 0 | Some (_, out) \<Rightarrow> out)
     else gm_get L a)"
  by (auto simp: set_In_def meta_key_def)

lemma set_Out_get:
  "tmeta (deref t) \<noteq> None \<Longrightarrow> gm_get (set_Out t n L) a =
    (if a = meta_key t then Some (case gm_get L a of None \<Rightarrow> 0 | Some (inn, _) \<Rightarrow> inn, n)
     else gm_get L a)"
  by (auto simp: set_Out_def meta_key_def)

text \<open>
  The labels \<open>L\<close> place the nodes of \<open>xs\<close>, a sequence of subtrees, from counter
  \<open>c\<close> on: a node's label is its position and the end of its own subtree.
\<close>

definition placed :: "'p ptr list \<Rightarrow> int \<Rightarrow> labels \<Rightarrow> 'p ptr list \<Rightarrow> bool" where
  "placed ns c L xs \<longleftrightarrow>
    (\<forall>x \<in> set xs. \<exists>us vs. xs = us @ subtree ns x @ vs \<and>
      gm_get L (meta_key x) =
        Some (c + int (length us) + 1, c + int (length us) + int (length (subtree ns x))))"

definition unchanged_off :: "labels \<Rightarrow> labels \<Rightarrow> 'p ptr list \<Rightarrow> bool" where
  "unchanged_off L L' xs \<longleftrightarrow> (\<forall>a. a \<notin> meta_key ` set xs \<longrightarrow> gm_get L' a = gm_get L a)"

lemma placed_append:
  assumes 1: "placed ns c L xs" and 2: "placed ns (c + int (length xs)) L' ys"
    and off: "unchanged_off L L' ys" and dis: "meta_key ` set xs \<inter> meta_key ` set ys = {}"
  shows "placed ns c L' (xs @ ys)"
  unfolding placed_def
proof
  fix x assume "x \<in> set (xs @ ys)"
  then consider "x \<in> set xs" | "x \<in> set ys" by auto
  then show "\<exists>us vs. xs @ ys = us @ subtree ns x @ vs \<and> gm_get L' (meta_key x) =
      Some (c + int (length us) + 1, c + int (length us) + int (length (subtree ns x)))"
  proof cases
    case 1
    then obtain us vs where u: "xs = us @ subtree ns x @ vs" "gm_get L (meta_key x) =
        Some (c + int (length us) + 1, c + int (length us) + int (length (subtree ns x)))"
      using assms(1) unfolding placed_def by blast
    have "meta_key x \<notin> meta_key ` set ys" using 1 dis by blast
    then have "gm_get L' (meta_key x) = gm_get L (meta_key x)"
      using off by (simp add: unchanged_off_def)
    with u show ?thesis by (intro exI [of _ us] exI [of _ "vs @ ys"]) simp
  next
    case 2
    then obtain us vs where "ys = us @ subtree ns x @ vs" "gm_get L' (meta_key x) =
        Some (c + int (length xs) + int (length us) + 1,
          c + int (length xs) + int (length us) + int (length (subtree ns x)))"
      using assms(2) unfolding placed_def by blast
    then show ?thesis by (intro exI [of _ "xs @ us"] exI [of _ vs]) simp
  qed
qed

lemma unchanged_trans:
  "\<lbrakk>unchanged_off L L' xs; unchanged_off L' L'' ys\<rbrakk> \<Longrightarrow> unchanged_off L L'' (xs @ ys)"
  by (auto simp: unchanged_off_def image_Un)

text \<open>A visit of several trees in turn, given what one visit does.\<close>

lemma fold_visit:
  assumes one: "\<And>k c L. k \<in> set ks \<Longrightarrow> \<exists>L'. visit f ns k (c, L) = (c + int (length (subtree ns k)), L')
      \<and> placed ns c L' (subtree ns k) \<and> unchanged_off L L' (subtree ns k)"
    and dis: "distinct (map meta_key (concat (map (subtree ns) ks)))"
  shows "\<exists>L'. fold (visit f ns) ks (c, L) = (c + int (length (concat (map (subtree ns) ks))), L')
    \<and> placed ns c L' (concat (map (subtree ns) ks))
    \<and> unchanged_off L L' (concat (map (subtree ns) ks))"
  using assms
proof (induction ks arbitrary: c L)
  case Nil
  then show ?case by (simp add: placed_def unchanged_off_def)
next
  case (Cons k ks)
  obtain L1 where L1: "visit f ns k (c, L) = (c + int (length (subtree ns k)), L1)"
      "placed ns c L1 (subtree ns k)" "unchanged_off L L1 (subtree ns k)"
    using Cons.prems(1) [of k c L] by auto
  obtain L2 where L2: "fold (visit f ns) ks (c + int (length (subtree ns k)), L1)
        = (c + int (length (subtree ns k)) + int (length (concat (map (subtree ns) ks))), L2)"
      "placed ns (c + int (length (subtree ns k))) L2 (concat (map (subtree ns) ks))"
      "unchanged_off L1 L2 (concat (map (subtree ns) ks))"
    using Cons.IH [of "c + int (length (subtree ns k))" L1] Cons.prems by auto
  have "meta_key ` set (subtree ns k) \<inter> meta_key ` set (concat (map (subtree ns) ks)) = {}"
    using Cons.prems(2) by auto
  then have "placed ns c L2 (subtree ns k @ concat (map (subtree ns) ks))"
    by (rule placed_append [OF L1(2) L2(2,3)])
  then show ?case
    using L1 L2 unchanged_trans [OF L1(3) L2(3)] by (simp add: algebra_simps)
qed

lemma distinct_keys:
  assumes ns: "node_list ns" and xs: "distinct xs" "set xs \<subseteq> set ns"
  shows "distinct (map meta_key xs)"
  using xs meta_key_inj [OF ns] by (auto simp: distinct_map inj_on_def subset_iff)

lemma kids_concat:
  assumes ns: "node_list ns" and t: "t \<in> set ns"
  defines "K \<equiv> concat (map (subtree ns) (label_kids ns t))"
  shows "set K \<subseteq> set ns" "distinct K" "t \<notin> set K" "subtree ns t = t # K"
proof -
  show e: "subtree ns t = t # K" unfolding K_def by (rule subtree_unfold [OF ns t])
  show "set K \<subseteq> set ns" "distinct K" "t \<notin> set K"
    using subtree_below [OF ns t] e by auto
qed

lemma has_meta: "\<lbrakk>node_list ns; t \<in> set ns\<rbrakk> \<Longrightarrow> tmeta (deref t) \<noteq> None"
  using identified_node [OF node_list_identified] by fastforce

lemma visit_places:
  assumes ns: "node_list ns"
  shows "\<lbrakk>t \<in> set ns; fuel_ok ns f t\<rbrakk> \<Longrightarrow>
    \<exists>L'. visit f ns t (c, L) = (c + int (length (subtree ns t)), L')
      \<and> placed ns c L' (subtree ns t) \<and> unchanged_off L L' (subtree ns t)"
proof (induction f arbitrary: t c L)
  case 0
  then show ?case using fuel_ok_pos [OF ns] by blast
next
  case (Suc f)
  note t = Suc.prems(1) and K = kids_concat [OF ns Suc.prems(1)]
  let ?ks = "label_kids ns t"
  let ?K = "concat (map (subtree ns) ?ks)"
  let ?L0 = "set_In t (c + 1) L"
  have "distinct (map meta_key ?K)" by (rule distinct_keys [OF ns K(2,1)])
  then obtain L1 where L1: "fold (visit f ns) ?ks (c + 1, ?L0) = (c + 1 + int (length ?K), L1)"
      "placed ns (c + 1) L1 ?K" "unchanged_off ?L0 L1 ?K"
    using fold_visit [of ?ks f ns "c + 1" ?L0] Suc.IH kid_chain_length(3) [OF ns t]
      fuel_ok_kid [OF ns t _ Suc.prems(2)] by blast
  let ?L2 = "set_Out t (c + 1 + int (length ?K)) L1"
  have v: "visit (Suc f) ns t (c, L) = (c + int (length (subtree ns t)), ?L2)"
    using L1(1) K(4) by (simp add: Let_def)
  note m = has_meta [OF ns t]
  have key: "meta_key t \<notin> meta_key ` set ?K"
    using meta_key_inj [OF ns t] K(1,3) by blast
  then have "gm_get L1 (meta_key t) = gm_get ?L0 (meta_key t)"
    using L1(3) by (simp add: unchanged_off_def)
  then have "gm_get ?L2 (meta_key t) = Some (c + 1, c + 1 + int (length ?K))"
    by (simp add: set_Out_get [OF m] set_In_get [OF m])
  moreover have "gm_get ?L2 (meta_key x) = gm_get L1 (meta_key x)" if "x \<in> set ?K" for x
  proof -
    have "meta_key x \<noteq> meta_key t" using that key by (metis imageI)
    then show ?thesis by (simp add: set_Out_get [OF m])
  qed
  ultimately have p: "placed ns c ?L2 (subtree ns t)"
    unfolding placed_def
  proof (intro ballI, goal_cases)
    case (1 x)
    show ?case
    proof (cases "x = t")
      case True
      then show ?thesis using 1(1) K(4) by (intro exI [of _ "[]"]) simp
    next
      case False
      then have x: "x \<in> set ?K" using 1(3) K(4) by simp
      then obtain us vs where "?K = us @ subtree ns x @ vs" "gm_get L1 (meta_key x) =
          Some (c + 1 + int (length us) + 1, c + 1 + int (length us) + int (length (subtree ns x)))"
        using L1(2) unfolding placed_def by blast
      then show ?thesis
        using 1(2) [OF x] K(4) by (intro exI [of _ "t # us"] exI [of _ vs]) simp
    qed
  qed
  have "unchanged_off L ?L2 (subtree ns t)"
    using L1(3) K(4) by (auto simp: unchanged_off_def set_Out_get [OF m] set_In_get [OF m])
  with v p show ?case by blast
qed

definition forest :: "'p ptr list \<Rightarrow> 'p ptr list" where
  "forest ns = concat (map (subtree ns) (label_roots ns))"

lemma set_label_roots: "set (label_roots ns) = {t \<in> set ns. parent_of t = None}"
  by (auto simp: label_roots_def nilp_def)

lemma chain_has_root: "\<exists>r \<in> set (chain x). parent_of r = None"
proof (induction x rule: ptr_induct)
  case (step x)
  then show ?case by (cases "parent_of x") (auto simp: chain_root chain_step)
qed

lemma root_chain: "parent_of r = None \<Longrightarrow> length (chain r) = 1"
  by (simp add: chain_root)

lemma root_unique:
  "\<lbrakk>r \<in> set (chain x); s \<in> set (chain x); parent_of r = None; parent_of s = None\<rbrakk> \<Longrightarrow> r = s"
  by (rule chain_same_length) (simp_all add: root_chain)

lemma forest_all:
  assumes ns: "node_list ns"
  shows "set (forest ns) = set ns" "distinct (forest ns)"
proof -
  have r: "set (subtree ns r) = below ns r" "distinct (subtree ns r)" if "r \<in> set (label_roots ns)" for r
    using that subtree_below [OF ns] by (auto simp: set_label_roots)
  have "x \<in> set (forest ns)" if x: "x \<in> set ns" for x
  proof -
    obtain r where "r \<in> set (chain x)" "parent_of r = None" using chain_has_root by blast
    moreover then have "r \<in> set (label_roots ns)"
      using chain_in_nodes [OF ns x] by (simp add: set_label_roots)
    ultimately show ?thesis
      using r x by (auto simp: forest_def idchain_def)
  qed
  then show "set (forest ns) = set ns" using r by (auto simp: forest_def)
  have "distinct (concat (map (subtree ns) rs))"
    if "set rs \<subseteq> set (label_roots ns)" "distinct rs" for rs
    using that
  proof (induction rs)
    case (Cons q rs)
    have "q = s" if "s \<in> set rs" "x \<in> below ns q" "x \<in> below ns s" for s x
    proof -
      have "q \<in> set (chain x)" "s \<in> set (chain x)"
        using that Cons.prems(1) id_on_chain [OF ns] by (auto simp: set_label_roots)
      moreover have "parent_of q = None" "parent_of s = None"
        using that(1) Cons.prems(1) by (auto simp: set_label_roots)
      ultimately show ?thesis by (rule root_unique)
    qed
    then have "set (subtree ns q) \<inter> set (concat (map (subtree ns) rs)) = {}"
      using Cons.prems r(1) by fastforce
    then show ?case using Cons r(2) by auto
  qed simp
  moreover have "distinct (label_roots ns)"
    using node_list_distinct [OF ns] by (simp add: label_roots_def distinct_sort)
  ultimately show "distinct (forest ns)" unfolding forest_def by blast
qed

lemma labels_placed:
  assumes ns: "node_list ns"
  shows "placed ns 0 (interval_labels ns) (forest ns)"
proof -
  let ?f = "Suc (length ns)"
  have d: "distinct (map meta_key (concat (map (subtree ns) (label_roots ns))))"
    using distinct_keys [OF ns, of "forest ns"] forest_all [OF ns] by (simp add: forest_def)
  have "\<exists>L'. visit ?f ns k (c, L) = (c + int (length (subtree ns k)), L')
      \<and> placed ns c L' (subtree ns k) \<and> unchanged_off L L' (subtree ns k)"
    if "k \<in> set (label_roots ns)" for k c L
    using that visit_places [OF ns, of k ?f c L] by (auto simp: set_label_roots fuel_ok_def)
  from fold_visit [OF this d, of 0 gm_empty] show ?thesis
    unfolding interval_labels_def forest_def by auto
qed

section \<open>Intervals are subtrees\<close>

definition label_of :: "'p ptr list \<Rightarrow> 'p ptr \<Rightarrow> int \<times> int" where
  "label_of ns x = the (gm_get (interval_labels ns) (meta_key x))"

lemma label_place:
  assumes ns: "node_list ns" and x: "x \<in> set ns"
  shows "\<exists>us vs. forest ns = us @ subtree ns x @ vs \<and>
    gm_get (interval_labels ns) (meta_key x) = Some (label_of ns x) \<and>
    label_of ns x = (int (length us) + 1, int (length us) + int (length (subtree ns x)))"
  using labels_placed [OF ns] x forest_all(1) [OF ns] unfolding placed_def label_of_def by fastforce

lemma sublist_positions:
  assumes d: "distinct R" and R: "R = us @ S @ vs" and x: "k < length R"
  shows "R ! k \<in> set S \<longleftrightarrow> length us \<le> k \<and> k < length us + length S"
proof
  assume "R ! k \<in> set S"
  then obtain j where j: "j < length S" "S ! j = R ! k" by (auto simp: in_set_conv_nth)
  then have "R ! (length us + j) = R ! k" by (simp add: R nth_append)
  then have "length us + j = k"
    using d x j R nth_eq_iff_index_eq [OF d, of "length us + j" k] by simp
  with j show "length us \<le> k \<and> k < length us + length S" by simp
next
  assume "length us \<le> k \<and> k < length us + length S"
  then show "R ! k \<in> set S" by (auto simp: R nth_append)
qed

lemma labels_nested:
  assumes ns: "node_list ns" and x: "x \<in> set ns" and y: "y \<in> set ns"
  shows "fst (label_of ns x) > 0"
    and "fst (label_of ns x) = fst (label_of ns y) \<longleftrightarrow> x = y"
    and "fst (label_of ns y) \<le> fst (label_of ns x) \<and> fst (label_of ns x) \<le> snd (label_of ns y)
      \<longleftrightarrow> ID (deref y) \<in> set (idchain x)"
proof -
  let ?R = "forest ns"
  obtain us vs where u: "?R = us @ subtree ns x @ vs"
    "label_of ns x = (int (length us) + 1, int (length us) + int (length (subtree ns x)))"
    using label_place [OF ns x] by blast
  obtain ts ws where w: "?R = ts @ subtree ns y @ ws"
    "label_of ns y = (int (length ts) + 1, int (length ts) + int (length (subtree ns y)))"
    using label_place [OF ns y] by blast
  note d = forest_all(2) [OF ns]
  have hx: "?R ! length us = x" "length us < length ?R"
    using u(1) kids_concat(4) [OF ns x] by (simp_all add: nth_append)
  have hy: "?R ! length ts = y" "length ts < length ?R"
    using w(1) kids_concat(4) [OF ns y] by (simp_all add: nth_append)
  show "fst (label_of ns x) > 0" by (simp add: u(2))
  show "fst (label_of ns x) = fst (label_of ns y) \<longleftrightarrow> x = y"
    using nth_eq_iff_index_eq [OF d hx(2) hy(2)] hx(1) hy(1) by (simp add: u(2) w(2))
  have "x \<in> set (subtree ns y) \<longleftrightarrow>
      length ts \<le> length us \<and> length us < length ts + length (subtree ns y)"
    using sublist_positions [OF d w(1) hx(2)] hx(1) by simp
  moreover have "x \<in> set (subtree ns y) \<longleftrightarrow> ID (deref y) \<in> set (idchain x)"
    using subtree_below(1) [OF ns y] x by simp
  moreover have "int (length ts) + 1 \<le> int (length us) + 1 \<longleftrightarrow> length ts \<le> length us"
    "int (length us) + 1 \<le> int (length ts) + int (length (subtree ns y))
      \<longleftrightarrow> length us < length ts + length (subtree ns y)" by linarith+
  ultimately show "fst (label_of ns y) \<le> fst (label_of ns x) \<and>
      fst (label_of ns x) \<le> snd (label_of ns y) \<longleftrightarrow> ID (deref y) \<in> set (idchain x)"
    by (simp add: u(2) w(2))
qed

section \<open>Writing through the pointers\<close>

lemma remeta_deref:
  "ID (deref (remeta f p)) = ID (deref p)" "addr (remeta f p) = addr p"
  "parent_of (remeta f p) = map_option (remeta f) (parent_of p)"
  "tmeta (deref (remeta f p)) = map_option f (tmeta (deref p))"
  by (cases p; cases "deref p"; auto split: option.splits)+

lemma remeta_deref_cong: "deref p = deref q \<Longrightarrow> deref (remeta f p) = deref (remeta f q)"
  by (cases p; cases q; cases "deref p") auto

lemma chain_remeta: "chain (remeta f p) = map (remeta f) (chain p)"
proof (induction p rule: ptr_induct)
  case (step p)
  then show ?case
    by (cases "parent_of p") (simp_all add: chain_root chain_step remeta_deref)
qed

lemma idchain_remeta [simp]: "idchain (remeta f p) = idchain p"
  by (simp add: idchain_def chain_remeta comp_def remeta_deref)

lemma closed_remeta: "closed_nodes N \<Longrightarrow> closed_nodes (remeta f ` N)"
  by (fastforce simp: closed_nodes_def remeta_deref)

lemma identified_remeta:
  assumes N: "identified N" and f: "\<And>m. maddr (f m) = maddr m"
  shows "identified (remeta f ` N)"
proof -
  show ?thesis
    unfolding identified_def
  proof (intro conjI ballI impI)
    fix a assume "a \<in> remeta f ` N"
    then show "ID (deref a) \<noteq> []" "tmeta (deref a) \<noteq> None"
      using identified_node [OF N] by (fastforce simp: remeta_deref)+
  next
    fix a b assume "a \<in> remeta f ` N" "b \<in> remeta f ` N"
    then obtain p q where pq: "p \<in> N" "q \<in> N" "a = remeta f p" "b = remeta f q" by blast
    show "deref a = deref b" if "ID (deref a) = ID (deref b)"
      using that pq identified_deref [OF N pq(1,2)]
      by (simp add: remeta_deref(1)) (rule remeta_deref_cong)
    show "ID (deref a) = ID (deref b)" if "addr a = addr b"
      using that pq identified_addr [OF N pq(1,2)] by (simp add: remeta_deref)
    show "ID (deref a) = ID (deref b)"
      if "maddr (the (tmeta (deref a))) = maddr (the (tmeta (deref b)))"
    proof -
      obtain tm om where t: "tmeta (deref p) = Some tm" "tmeta (deref q) = Some om"
        using identified_node [OF N pq(1)] identified_node [OF N pq(2)] by blast
      then have "maddr tm = maddr om" using that by (simp add: pq(3,4) remeta_deref f)
      from identified_maddr [OF N pq(1,2) t this] show ?thesis by (simp add: pq remeta_deref)
    qed
  qed
qed

lemma depths_remeta:
  assumes "depths_ok N" and "\<And>m. meta_Depth (f m) = meta_Depth m"
  shows "depths_ok (remeta f ` N)"
proof -
  have "Depth (deref (remeta f p)) = Depth (deref p)" for p
    using assms(2) by (simp add: Depth_def remeta_deref split: option.splits)
  then show ?thesis using assms(1) by (auto simp: depths_ok_def chain_remeta)
qed

lemma relabel_meta_simps [simp]:
  "maddr (relabel_meta L m) = maddr m" "meta_Depth (relabel_meta L m) = meta_Depth m"
  "meta_Name (relabel_meta L m) = meta_Name m" "meta_FixedID (relabel_meta L m) = meta_FixedID m"
  by (auto simp: relabel_meta_def split: option.splits type_meta.splits)

lemma rebehave_meta_simps [simp]:
  "maddr (rebehave_meta x b m) = maddr m" "meta_Depth (rebehave_meta x b m) = meta_Depth m"
  "meta_In (rebehave_meta x b m) = meta_In m" "meta_Out (rebehave_meta x b m) = meta_Out m"
  "meta_Name (rebehave_meta x b m) = meta_Name m" "meta_FixedID (rebehave_meta x b m) = meta_FixedID m"
  by (auto simp: rebehave_meta_def split: type_meta.splits)

lemma relabelled_node:
  assumes ns: "node_list ns" and x: "x \<in> set ns"
  defines "x' \<equiv> remeta (relabel_meta (interval_labels ns)) x"
  shows "In_lbl (deref x') = fst (label_of ns x)" "Out_lbl (deref x') = snd (label_of ns x)"
proof -
  obtain m where m: "tmeta (deref x) = Some m"
    using has_meta [OF ns x] by blast
  have "gm_get (interval_labels ns) (maddr m) = Some (label_of ns x)"
    using label_place [OF ns x] m by (auto simp: meta_key_def)
  then show "In_lbl (deref x') = fst (label_of ns x)" "Out_lbl (deref x') = snd (label_of ns x)"
    using m by (auto simp: x'_def remeta_deref In_lbl_def Out_lbl_def relabel_meta_def
        split: type_meta.splits prod.splits)
qed

lemma relabelled_coherent:
  assumes ns: "node_list ns"
  shows "coherent (remeta (relabel_meta (interval_labels ns)) ` set ns)"
proof -
  let ?f = "remeta (relabel_meta (interval_labels ns))"
  have "well_labelled (?f ` set ns)"
    unfolding well_labelled_def
  proof (intro ballI impI conjI)
    fix a b assume "a \<in> ?f ` set ns" "b \<in> ?f ` set ns"
    then obtain x y where xy: "x \<in> set ns" "y \<in> set ns" "a = ?f x" "b = ?f y" by blast
    note l = relabelled_node [OF ns xy(1)] relabelled_node [OF ns xy(2)]
    show "ID (deref a) = ID (deref b)" if "In_lbl (deref a) = In_lbl (deref b)"
      using that l labels_nested(2) [OF ns xy(1,2)] xy by simp
    show "In_lbl (deref b) \<le> In_lbl (deref a) \<and> In_lbl (deref a) \<le> Out_lbl (deref b)
        \<longleftrightarrow> ID (deref b) \<in> set (idchain a)"
      using l labels_nested(3) [OF ns xy(1,2)] xy by (simp add: remeta_deref)
  qed
  then show ?thesis
    using closed_remeta [OF node_list_closed [OF ns]] identified_remeta [OF node_list_identified [OF ns]]
    by (simp add: coherent_def)
qed

lemma rebehaved_coherent:
  assumes N: "coherent N"
  shows "coherent (remeta (rebehave_meta x b) ` N)"
proof -
  have l: "In_lbl (deref (remeta (rebehave_meta x b) p)) = In_lbl (deref p)"
    "Out_lbl (deref (remeta (rebehave_meta x b) p)) = Out_lbl (deref p)" for p :: "'a ptr"
    by (simp_all add: In_lbl_def Out_lbl_def remeta_deref split: option.splits)
  have "well_labelled (remeta (rebehave_meta x b) ` N)"
    unfolding well_labelled_def
  proof (intro ballI impI, elim imageE)
    fix a b' p q assume "0 < In_lbl (deref a) \<and> 0 < In_lbl (deref b')"
      and pq: "a = remeta (rebehave_meta x b) p" "p \<in> N" "b' = remeta (rebehave_meta x b) q" "q \<in> N"
    then have "In_lbl (deref p) > 0" "In_lbl (deref q) > 0" by (simp_all add: l)
    then show "(In_lbl (deref a) = In_lbl (deref b') \<longrightarrow> ID (deref a) = ID (deref b')) \<and>
        (In_lbl (deref b') \<le> In_lbl (deref a) \<and> In_lbl (deref a) \<le> Out_lbl (deref b')) =
        (ID (deref b') \<in> set (idchain a))"
      using labelled_In [OF coherent_labelled [OF N] pq(2,4)]
        labelled_interval [OF coherent_labelled [OF N] pq(2,4)]
      by (simp add: pq(1,3) l remeta_deref(1))
  qed
  then show ?thesis
    using closed_remeta [OF coherent_closed [OF N]] identified_remeta [OF coherent_identified [OF N]]
    by (simp add: coherent_def)
qed

end
