(* ===== verification/Type_Names.thy ===== *)
theory Type_Names
  imports Intervals
begin

text \<open>
  The well-known types and the resolution of type names and paths
  (core/go/types.go, core/go/typetable.go), and the relations defined from them:
  ConformsTo and the marker tests on values (core/go/value.go).
\<close>

section \<open>The package-level table\<close>

definition Builtin :: "'p TypeTable" where
  "Builtin = snd newBuiltinTypeTable"

definition mustBuiltinType :: "'p globals \<Rightarrow> 'p TypeTable \<Rightarrow> string \<Rightarrow> 'p globals \<times> 'p ptr" where
  "mustBuiltinType g tt path =
    (case nm_get (bypath tt) path of
       Some def \<Rightarrow> (g, def)
     | None \<Rightarrow>
         new_node (recordBuiltinInitErr (BuiltinMissing path) g) [] None
           (\<lambda>m. Meta m path DefaultBehavior 0 0 0 0 0 OwnerKernel None) (builtin_flags False))"

definition BuiltinIDForPath :: "'p TypeTable \<Rightarrow> string \<Rightarrow> string" where
  "BuiltinIDForPath tt path =
    (case nm_get (bypath tt) path of Some def \<Rightarrow> ID (deref def) | None \<Rightarrow> [])"

text \<open>The constants \<open>T...\<close> with the path each is resolved from.\<close>

definition well_known :: "(string \<times> string) list" where
  "well_known =
   [(''TAny'', ''Any''),
    (''TNone'', ''None''),
    (''TNever'', ''Never''),
    (''TAbsent'', ''Absent''),
    (''TScalar'', ''Scalar''),
    (''TString'', ''Scalar/String''),
    (''TStringProper'', ''Scalar/String/ProperString''),
    (''TStringEmpty'', ''Scalar/String/EmptyString''),
    (''TNumber'', ''Scalar/Number''),
    (''TInteger'', ''Scalar/Number/Integer''),
    (''TFloat'', ''Scalar/Number/Float''),
    (''TBigInteger'', ''Scalar/Number/BigInteger''),
    (''TBigDecimal'', ''Scalar/Number/BigDecimal''),
    (''TBoolean'', ''Scalar/Boolean''),
    (''TMicron'', ''Scalar/Micron''),
    (''TPathon'', ''Scalar/Micron/Pathon''),
    (''TEmailon'', ''Scalar/Micron/Emailon''),
    (''TUrlon'', ''Scalar/Micron/Urlon''),
    (''TIpon'', ''Scalar/Micron/Ipon''),
    (''THoston'', ''Scalar/Micron/Hoston''),
    (''TSemveron'', ''Scalar/Micron/Semveron''),
    (''TCidron'', ''Scalar/Micron/Cidron''),
    (''TMacon'', ''Scalar/Micron/Macon''),
    (''TColoron'', ''Scalar/Micron/Coloron''),
    (''TMimon'', ''Scalar/Micron/Mimon''),
    (''TQion'', ''Scalar/Micron/Qion''),
    (''TPhonon'', ''Scalar/Micron/Phonon''),
    (''TNode'', ''Node''),
    (''TIdeal'', ''Ideal''),
    (''TList'', ''Node/List''),
    (''TListArgs'', ''Node/List/Args''),
    (''TFlexList'', ''Node/List/FlexList''),
    (''TWeakFlexList'', ''Node/List/FlexList/WeakFlexList''),
    (''TMap'', ''Node/Map''),
    (''TFlexMap'', ''Node/Map/FlexMap''),
    (''TWeakFlexMap'', ''Node/Map/FlexMap/WeakFlexMap''),
    (''TXml'', ''Node/Xml''),
    (''TFlexXml'', ''Node/Xml/FlexXml''),
    (''TWeakFlexXml'', ''Node/Xml/FlexXml/WeakFlexXml''),
    (''TOptions'', ''Ideal/Options''),
    (''TTable'', ''Ideal/Table''),
    (''TRecord'', ''Ideal/Record''),
    (''TAtom'', ''Scalar/Atom''),
    (''TWord'', ''Word''),
    (''TFunction'', ''Type/Function''),
    (''TForward'', ''Word/__FW''),
    (''TOpenParen'', ''Word/__OP''),
    (''TCloseParen'', ''Word/__CP''),
    (''TEnd'', ''Word/__ED''),
    (''TParenExpr'', ''Word/__PE''),
    (''TInterpString'', ''Word/__IS''),
    (''TXmlInterp'', ''Word/__XI''),
    (''TFnUndef'', ''Type/FunctionSignature''),
    (''TReturnCheck'', ''Word/__RC''),
    (''TDefCleanup'', ''Word/__IN/__DC''),
    (''TDisjunct'', ''Type/Disjunct''),
    (''TEnum'', ''Type/Disjunct/Enum''),
    (''TNegation'', ''Type/Negation''),
    (''TMark'', ''Word/__MK''),
    (''TMove'', ''Word/__MV''),
    (''TSplice'', ''Word/__SP''),
    (''TDispatchMod'', ''Word/__DM''),
    (''TSugar'', ''Word/__SG''),
    (''TInternal'', ''Word/__IN''),
    (''TInspect'', ''Node/Map/Inspect''),
    (''TClass'', ''Ideal/Class''),
    (''TSurface'', ''Ideal/Surface''),
    (''TSelf'', ''Type/Self''),
    (''TTypeParam'', ''Type/TypeParam''),
    (''TGenSpec'', ''Type/GenSpec''),
    (''TGenParam'', ''Type/GenParam''),
    (''TStore'', ''Ideal/Store''),
    (''TStoreSystem'', ''Ideal/Store/System''),
    (''TReach'', ''Ideal/Reach''),
    (''TResource'', ''Ideal/Resource''),
    (''TResourceEntity'', ''Ideal/Resource/Entity''),
    (''TError'', ''Ideal/Error''),
    (''TType'', ''Type'')]"

text \<open>Package initialisation: the constants are resolved in turn, errors accumulate.\<close>

definition resolve_well_known ::
  "'p globals \<Rightarrow> 'p TypeTable \<Rightarrow> (string \<times> string) list \<Rightarrow> 'p globals \<times> (string \<times> 'p ptr) list" where
  "resolve_well_known g tt cs =
    fold (\<lambda>(c, path) (g, ts). let (g, p) = mustBuiltinType g tt path in (g, ts @ [(c, p)]))
      cs (g, [])"

definition package_init :: "'p globals \<times> (string \<times> 'p ptr) list" where
  "package_init =
    (let (g, tt) = newBuiltinTypeTable; (g, ts) = resolve_well_known g tt well_known
     in (g\<lparr>TypeNames := buildTypeNames (byName tt)\<rparr>, ts))"

definition mustType :: "string \<Rightarrow> 'p ptr" where
  "mustType path = snd (mustBuiltinType (fst newBuiltinTypeTable) Builtin path)"

definition TAny :: "'p ptr" where "TAny = mustType ''Any''"

definition TNone :: "'p ptr" where "TNone = mustType ''None''"

definition TNever :: "'p ptr" where "TNever = mustType ''Never''"

definition TWord :: "'p ptr" where "TWord = mustType ''Word''"

definition TForward :: "'p ptr" where "TForward = mustType ''Word/__FW''"

definition TOpenParen :: "'p ptr" where "TOpenParen = mustType ''Word/__OP''"

definition TCloseParen :: "'p ptr" where "TCloseParen = mustType ''Word/__CP''"

definition TEnd :: "'p ptr" where "TEnd = mustType ''Word/__ED''"

definition TBoolean :: "'p ptr" where "TBoolean = mustType ''Scalar/Boolean''"

section \<open>Names and paths\<close>

definition TypeNameByID :: "'p TypeTable \<Rightarrow> string \<Rightarrow> string" where
  "TypeNameByID tt i =
    (case LookupByID (Some tt) i of
       None \<Rightarrow> []
     | Some def \<Rightarrow>
         if IsInternal (deref def) then []
         else if \<not> gm_has (byName tt) (Name (deref def)) then []
         else Name (deref def))"

text \<open>
  \<open>unicode.IsLetter\<close> and \<open>unicode.IsUpper\<close> of the first rune of a part, on the
  ASCII range: a part that starts with another rune is outside the model.
\<close>

definition ascii_lower_start :: "string \<Rightarrow> bool" where
  "ascii_lower_start p =
    (case p of [] \<Rightarrow> False | c # _ \<Rightarrow> CHR ''a'' \<le> c \<and> c \<le> CHR ''z'')"

definition expand_parts :: "'p TypeTable \<Rightarrow> string list \<Rightarrow> string list" where
  "expand_parts tt ps =
    (if nilp (nm_get (bypath tt) (hd ps)) then
       (case ExpandShortName (Some tt) (hd ps) of
          None \<Rightarrow> ps
        | Some fullPrefix \<Rightarrow>
            let expanded = (if length ps > 1
              then fullPrefix @ ''/'' @ go_join (CHR ''/'') (tl ps) else fullPrefix)
            in go_split (CHR ''/'') expanded)
     else ps)"

definition NewType :: "'p TypeTable \<Rightarrow> string \<Rightarrow> tt_error + 'p ptr" where
  "NewType tt path =
    (let ps = go_split (CHR ''/'') path in
     case find ascii_lower_start ps of
       Some p \<Rightarrow> Inl (PartNotUpper p path)
     | None \<Rightarrow>
         let fullPath = go_join (CHR ''/'') (expand_parts tt ps) in
         (case nm_get (bypath tt) fullPath of
            Some def \<Rightarrow> Inr def
          | None \<Rightarrow> Inl (UnknownType fullPath)))"

definition ResolveTypePath :: "'p TypeTable \<Rightarrow> string \<Rightarrow> 'p ptr option" where
  "ResolveTypePath tt name =
    (if \<not> go_contains_byte (CHR ''/'') name then None
     else case NewType tt name of
       Inl _ \<Rightarrow> None
     | Inr t \<Rightarrow>
         (case nm_get (bypath tt) (Path (Some t)) of
            Some u \<Rightarrow> if addr u = addr t then Some t else None
          | None \<Rightarrow> None))"

section \<open>Conformance and marker tests\<close>

definition ConformsTo :: "'p ptr option \<Rightarrow> 'p ptr option \<Rightarrow> bool" where
  "ConformsTo t pattern =
    (case pattern of
       None \<Rightarrow> True
     | Some q \<Rightarrow>
         if Equal pattern (Some TAny) then True
         else (case t of None \<Rightarrow> False | Some p \<Rightarrow> IsAncestor p q))"

definition IsWord :: "'p val \<Rightarrow> bool" where
  "IsWord v = Equal (Parent v) (Some TWord)"

definition IsForward :: "'p val \<Rightarrow> bool" where
  "IsForward v = Equal (Parent v) (Some TForward)"

definition IsBoolean :: "'p val \<Rightarrow> bool" where
  "IsBoolean v = ConformsTo (Parent v) (Some TBoolean)"

definition IsOpenParen :: "'p val \<Rightarrow> bool" where
  "IsOpenParen v = Equal (Parent v) (Some TOpenParen)"

definition IsCloseParen :: "'p val \<Rightarrow> bool" where
  "IsCloseParen v = Equal (Parent v) (Some TCloseParen)"

definition IsEnd :: "'p val \<Rightarrow> bool" where
  "IsEnd v = Equal (Parent v) (Some TEnd)"

end
