(* ===== verification/Type_Laws.thy ===== *)
theory Type_Laws
  imports Type_Table
begin

text \<open>
  What the operations of a type table guarantee: minting yields fresh identities
  and keeps the lattice coherent, copies share or copy the counter as their
  purpose needs, retirement and re-admission, registration.
\<close>

section \<open>Counters\<close>

lemma cell_set_cell: "cell (set_cell a n g) b = (if b = a then n else cell g b)"
  by (auto simp: cell_def set_cell_def split: option.splits)

lemma cell_alloc [simp]: "cell (snd (alloc g)) a = cell g a"
  by (simp add: cell_def alloc_def)

lemma next_alloc [simp]: "next_addr (snd (alloc g)) = Suc (next_addr g)" "fst (alloc g) = next_addr g"
  by (simp_all add: alloc_def)

lemma next_set_cell [simp]: "next_addr (set_cell a n g) = next_addr g"
  by (simp add: set_cell_def)

lemma ensure_seq_Some: "seq tt = Some c \<Longrightarrow> ensure_seq g tt = (g, tt, c)"
  by (simp add: ensure_seq_def)

lemma ensure_seq_seq: "ensure_seq g tt = (g', tt', c) \<Longrightarrow> seq tt' = Some c"
  by (auto simp: ensure_seq_def split: option.splits prod.splits)

lemma ensure_seq_byID: "ensure_seq g tt = (g', tt', c) \<Longrightarrow> byID tt' = byID tt"
  by (auto simp: ensure_seq_def split: option.splits prod.splits)

lemma mintID_Some:
  assumes "seq tt = Some c"
  shows "mintID g tt p = (set_cell c (cell g c + 1) g, tt,
    mint_prefix p @ hex_pad_int 12 (sint (dynamicIDBase + (cell g c + 1))))"
  using assms by (simp add: mintID_def ensure_seq_Some Let_def)

lemma mint_prefix_length [simp]: "length (mint_prefix p) = 2"
  by (simp add: mint_prefix_def id_prefix_def split: option.splits)

lemma id_prefix_length [simp]: "length (id_prefix r) = 2"
  by (simp add: id_prefix_def)

lemma sint_eq_iff [simp]: "sint (a :: 'w::len word) = sint b \<longleftrightarrow> a = b"
  by (metis signed_word_eqI)

lemma minted_number_inj:
  "mint_prefix p @ hex_pad_int 12 (sint (dynamicIDBase + m))
    = mint_prefix q @ hex_pad_int 12 (sint (dynamicIDBase + n)) \<longleftrightarrow>
   mint_prefix p = mint_prefix q \<and> m = (n :: 64 word)"
  by (auto simp: append_eq_append_conv)

text \<open>A run of mints by tables that share one counter.\<close>

fun mint_run :: "'p globals \<Rightarrow> ('p TypeTable \<times> 'p ptr option) list \<Rightarrow> string list \<times> 'p globals" where
  "mint_run g [] = ([], g)"
| "mint_run g ((tt, p) # rs) =
    (let (g, _, i) = mintID g tt p; (is, g) = mint_run g rs in (i # is, g))"

lemma mint_run_ids:
  assumes "\<forall>(tt, p) \<in> set rs. seq tt = Some c"
  shows "fst (mint_run g rs) = map2 (\<lambda>(tt, p) k. mint_prefix p @
      hex_pad_int 12 (sint (dynamicIDBase + (cell g c + of_nat k)))) rs [1..<Suc (length rs)]
    \<and> cell (snd (mint_run g rs)) c = cell g c + of_nat (length rs)"
  using assms
proof (induction rs arbitrary: g)
  case Nil
  then show ?case by simp
next
  case (Cons r rs)
  obtain tt p where r: "r = (tt, p)" by (cases r)
  have s: "seq tt = Some c" using Cons.prems r by auto
  let ?g = "set_cell c (cell g c + 1) g"
  have IH: "fst (mint_run ?g rs) = map2 (\<lambda>(tt, p) k. mint_prefix p @
      hex_pad_int 12 (sint (dynamicIDBase + (cell ?g c + of_nat k)))) rs [1..<Suc (length rs)]"
    "cell (snd (mint_run ?g rs)) c = cell ?g c + of_nat (length rs)"
    using Cons.IH [of ?g] Cons.prems by auto
  have up: "[1..<Suc (length (r # rs))] = 1 # map Suc [1..<Suc (length rs)]"
    by (simp add: upt_conv_Cons map_Suc_upt del: upt_Suc)
  show ?case
    unfolding up using s r IH
    by (simp add: mintID_Some cell_set_cell split_beta zip_map2 comp_def algebra_simps
        del: upt_Suc)
qed

lemma mint_run_distinct:
  assumes "\<forall>(tt, p) \<in> set rs. seq tt = Some c" and "length rs < 2 ^ 64"
  shows "distinct (fst (mint_run g rs))"
proof -
  have "fst (mint_run g rs) ! i \<noteq> fst (mint_run g rs) ! j"
    if ij: "i < j" "j < length rs" for i j
  proof -
    have w: "(1 + of_nat i :: 64 word) \<noteq> 1 + of_nat j"
      using ij assms(2) by (simp add: of_nat_inverse word_of_nat_eq_iff take_bit_nat_eq_self)
    show ?thesis
      using ij w mint_run_ids [OF assms(1), of g]
      by (auto simp: minted_number_inj algebra_simps split: prod.splits simp del: upt_Suc)
  qed
  then show ?thesis
    using mint_run_ids [OF assms(1), of g]
    by (auto simp: distinct_conv_nth neq_iff simp del: upt_Suc)
qed

section \<open>Adding a node\<close>

text \<open>A new unlabelled node whose identity and addresses are fresh keeps a set coherent.\<close>

definition fresh_for :: "'p ptr set \<Rightarrow> 'p ptr \<Rightarrow> bool" where
  "fresh_for N p \<longleftrightarrow>
    ID (deref p) \<noteq> [] \<and>
    (\<exists>m. tmeta (deref p) = Some m \<and> meta_In m = 0 \<and>
      (\<forall>q \<in> N. \<forall>m'. tmeta (deref q) = Some m' \<longrightarrow> maddr m' \<noteq> maddr m)) \<and>
    (\<forall>q \<in> N. ID (deref q) \<noteq> ID (deref p) \<and> addr q \<noteq> addr p) \<and>
    (\<forall>q. parent_of p = Some q \<longrightarrow> q \<in> N)"

lemma identified_insert:
  assumes N: "identified N" and f: "fresh_for N p"
  shows "identified (insert p N)"
proof -
  obtain m where m: "tmeta (deref p) = Some m"
    "\<And>q m'. \<lbrakk>q \<in> N; tmeta (deref q) = Some m'\<rbrakk> \<Longrightarrow> maddr m' \<noteq> maddr m"
    using f unfolding fresh_for_def by blast
  have n: "ID (deref p) \<noteq> []" "\<And>q. q \<in> N \<Longrightarrow> ID (deref q) \<noteq> ID (deref p)"
    "\<And>q. q \<in> N \<Longrightarrow> addr q \<noteq> addr p"
    using f unfolding fresh_for_def by blast+
  have t: "\<And>q. q \<in> N \<Longrightarrow> maddr (the (tmeta (deref q))) \<noteq> maddr m"
    using m(2) identified_node [OF N] by fastforce
  show ?thesis
    unfolding identified_def
  proof (intro conjI ballI impI)
    fix a assume "a \<in> insert p N"
    then show "ID (deref a) \<noteq> []" "tmeta (deref a) \<noteq> None"
      using n m identified_node [OF N] by auto
  next
    fix a b assume a: "a \<in> insert p N" and b: "b \<in> insert p N"
    show "deref a = deref b" if "ID (deref a) = ID (deref b)"
      using a b that n(2) identified_deref [OF N] by (metis insertE)
    show "ID (deref a) = ID (deref b)" if "addr a = addr b"
      using a b that n(3) identified_addr [OF N] by (metis insertE)
    show "ID (deref a) = ID (deref b)"
      if "maddr (the (tmeta (deref a))) = maddr (the (tmeta (deref b)))"
    proof (cases "a = p \<or> b = p")
      case True
      then show ?thesis using a b that t m(1) by (metis insertE option.sel)
    next
      case False
      then have "a \<in> N" "b \<in> N" using a b by auto
      then show ?thesis using that N unfolding identified_def by blast
    qed
  qed
qed

lemma fresh_unlabelled: "fresh_for N p \<Longrightarrow> In_lbl (deref p) = 0"
  by (auto simp: fresh_for_def In_lbl_def)

lemma coherent_insert:
  assumes N: "coherent N" and f: "fresh_for N p"
  shows "coherent (insert p N)"
proof -
  have "closed_nodes (insert p N)"
    using coherent_closed [OF N] f by (auto simp: closed_nodes_def fresh_for_def)
  moreover have "well_labelled (insert p N)"
    using coherent_labelled [OF N] fresh_unlabelled [OF f]
    unfolding well_labelled_def by (metis insertE less_irrefl)
  ultimately show ?thesis
    using identified_insert [OF coherent_identified [OF N] f] by (simp add: coherent_def)
qed

lemma depths_insert:
  assumes "depths_except A N" and "\<forall>q. parent_of p = Some q \<longrightarrow> q \<in> N"
    and "Depth (deref p) = depthOf (parent_of p)"
  shows "depths_except A (insert p N)"
proof -
  have "depthOf (parent_of p) = int (length (chain p))" if "set (idchain p) \<inter> A = {}"
  proof (cases "parent_of p")
    case None
    then show ?thesis by (simp add: depthOf_def chain_root)
  next
    case (Some q)
    then show ?thesis using assms(2) depthOf_chain [OF assms(1), of q] that by (simp add: chain_step idchain_step)
  qed
  then show ?thesis using assms by (simp add: depths_except_def)
qed

section \<open>The world of a registry tree\<close>

text \<open>Identities carry a number; every number in use is at most the last one drawn.\<close>

definition numbered :: "int \<Rightarrow> string \<Rightarrow> bool" where
  "numbered n i \<longleftrightarrow> (\<exists>pre k. length pre = 2 \<and> i = pre @ hex_pad_int 12 k \<and> k \<le> n)"

definition addresses_below :: "nat \<Rightarrow> 'p ptr set \<Rightarrow> bool" where
  "addresses_below n N \<longleftrightarrow>
    (\<forall>p \<in> N. addr p < n \<and> (\<forall>m. tmeta (deref p) = Some m \<longrightarrow> maddr m < n))"

definition world :: "'p globals \<Rightarrow> nat \<Rightarrow> string set \<Rightarrow> 'p ptr set \<Rightarrow> bool" where
  "world g c A N \<longleftrightarrow>
    coherent N \<and> depths_except A N \<and> addresses_below (next_addr g) N \<and>
    (\<forall>p \<in> N. numbered (sint (dynamicIDBase + cell g c)) (ID (deref p)))"

lemma sint_plus:
  assumes "- (2 ^ 63) \<le> sint a + sint b" "sint a + sint b < 2 ^ 63"
  shows "sint (a + b :: 64 word) = sint a + sint b"
proof -
  have "sint (a + b) = signed_take_bit 63 (sint a + sint b)"
    using sint_word_ariths(1) [of a b] by simp
  also have "\<dots> = sint a + sint b"
    using assms by (intro signed_take_bit_int_eq_self) auto
  finally show ?thesis .
qed

lemma next_number:
  assumes "0 \<le> sint n" "sint (n :: 64 word) < 2 ^ 62"
  shows "sint (dynamicIDBase + (n + 1)) = sint (dynamicIDBase + n) + 1"
proof -
  have b: "sint dynamicIDBase = 0x10000000" by (simp add: dynamicIDBase_def)
  have "sint (dynamicIDBase + n) = sint dynamicIDBase + sint n"
    using assms b by (intro sint_plus) auto
  moreover have "sint (n + 1) = sint n + 1"
    using assms sint_plus [of n 1] by simp
  moreover have "sint (dynamicIDBase + (n + 1)) = sint dynamicIDBase + sint (n + 1)"
    using assms b calculation(2) by (intro sint_plus) auto
  ultimately show ?thesis by simp
qed

lemma numbered_fresh:
  assumes "numbered n i" and "n < k"
  shows "i \<noteq> mint_prefix p @ hex_pad_int 12 k"
  using assms by (auto simp: numbered_def append_eq_append_conv)

lemma numbered_mono: "\<lbrakk>numbered m i; m \<le> n\<rbrakk> \<Longrightarrow> numbered n i"
  unfolding numbered_def using order_trans by blast

lemma numbered_minted: "numbered k (mint_prefix p @ hex_pad_int 12 k)"
  unfolding numbered_def using mint_prefix_length [of p] by blast

lemma MintType_Some:
  assumes "seq tt = Some c"
  shows "MintType g tt name parent =
    (let n = cell g c + 1;
         g1 = set_cell c n g;
         i = mint_prefix parent @ hex_pad_int 12 (sint (dynamicIDBase + n));
         a = next_addr g;
         def = Ptr a (Val i None parent (Some (Meta (Suc a) name DefaultBehavior 0
           (if nilp parent then 0 else externalBandFor parent) (depthOf parent) 0 0
           (MintOwner tt) None)) None None None None None userdef_flags)
     in (g1\<lparr>next_addr := Suc (Suc a)\<rparr>, tt\<lparr>byID := gm_put i def (byID tt)\<rparr>, def))"
  using assms
  by (simp add: MintType_def mintID_Some new_node_def alloc_def Let_def split_beta)

lemma cell_next_addr [simp]: "cell (g\<lparr>next_addr := n\<rparr>) c = cell g c"
  by (simp add: cell_def)

text \<open>Minting a type keeps the world: the new node is fresh in every respect.\<close>

lemma mint_world:
  assumes W: "world g c A N" and s: "seq tt = Some c"
    and par: "\<forall>q. parent = Some q \<longrightarrow> q \<in> N"
    and n: "0 \<le> sint (cell g c)" "sint (cell g c) < 2 ^ 62"
    and mt: "MintType g tt name parent = (g', tt', def)"
  shows "world g' c A (insert def N) \<and> fresh_for N def"
proof -
  let ?n = "sint (dynamicIDBase + cell g c)"
  note num = next_number [OF n]
  have i: "ID (deref def) = mint_prefix parent @ hex_pad_int 12 (?n + 1)"
    and c': "cell g' c = cell g c + 1"
    and nx: "next_addr g' = Suc (Suc (next_addr g))" "addr def = next_addr g"
    and p: "parent_of def = parent"
    and m: "tmeta (deref def) = Some (Meta (Suc (next_addr g)) name DefaultBehavior 0
       (if nilp parent then 0 else externalBandFor parent) (depthOf parent) 0 0 (MintOwner tt) None)"
    using mt num by (auto simp: MintType_Some [OF s] Let_def cell_set_cell)
  have below: "\<And>q. q \<in> N \<Longrightarrow> addr q < next_addr g"
    "\<And>q m. \<lbrakk>q \<in> N; tmeta (deref q) = Some m\<rbrakk> \<Longrightarrow> maddr m < next_addr g"
    using W by (auto simp: world_def addresses_below_def)
  have ids: "\<And>q. q \<in> N \<Longrightarrow> numbered ?n (ID (deref q))"
    using W by (simp add: world_def)
  have "length (ID (deref def)) \<ge> 2" by (simp add: i)
  then have ne: "ID (deref def) \<noteq> []" by auto
  have f: "fresh_for N def"
    unfolding fresh_for_def
  proof (intro conjI exI ballI allI impI)
    show "tmeta (deref def) = Some (the (tmeta (deref def)))" "meta_In (the (tmeta (deref def))) = 0"
      by (simp_all add: m)
    fix q assume q: "q \<in> N"
    show "maddr m' \<noteq> maddr (the (tmeta (deref def)))" if "tmeta (deref q) = Some m'" for m'
      using below(2) [OF q that] by (simp add: m)
    show "ID (deref q) \<noteq> ID (deref def)"
      unfolding i by (rule numbered_fresh [OF ids [OF q]]) simp
    show "addr q \<noteq> addr def" using below(1) [OF q] nx by simp
  qed (use ne par p in auto)
  have "Depth (deref def) = depthOf (parent_of def)"
    by (simp add: Depth_def m p)
  then have "depths_except A (insert def N)"
    using W par p by (intro depths_insert) (auto simp: world_def)
  moreover have "coherent (insert def N)"
    using W f by (intro coherent_insert) (auto simp: world_def)
  moreover have "addresses_below (next_addr g') (insert def N)"
    using W nx m by (auto simp: world_def addresses_below_def intro: less_SucI dest: less_SucI)
  moreover have "\<forall>q \<in> insert def N. numbered (sint (dynamicIDBase + cell g' c)) (ID (deref q))"
    using ids numbered_mono [OF ids, of _ "?n + 1"] by (auto simp: c' i num numbered_minted)
  ultimately show ?thesis using f by (simp add: world_def)
qed

section \<open>Rollback clones and forks\<close>

lemma mint_run_other_cell:
  assumes "\<forall>(tt, p) \<in> set rs. seq tt = Some d" and "c \<noteq> d"
  shows "cell (snd (mint_run g rs)) c = cell g c"
  using assms
  by (induction rs arbitrary: g) (auto simp: mintID_Some cell_set_cell split_beta)

lemma Clone_seq:
  assumes "Clone g (Some tt) = (g', Some cl)"
  shows "seq cl = Some (Suc (next_addr g))"
    and "cell g' (Suc (next_addr g)) = (case seq tt of None \<Rightarrow> 0 | Some c \<Rightarrow>
      if c = Suc (next_addr g) then 0 else cell g c)"
    and "c \<noteq> Suc (next_addr g) \<Longrightarrow> cell g' c = cell g c"
  using assms
  by (auto simp: Clone_def new_counter_def alloc_def cell_set_cell cell_next_addr Let_def
      split: option.splits if_splits)

lemma Clone_byID: "\<lbrakk>Clone g (Some tt) = (g', Some cl); gm_ok (byID tt)\<rbrakk> \<Longrightarrow>
    gm_get (byID cl) i = gm_get (byID tt) i"
  by (auto simp: Clone_def split_beta Let_def)

section \<open>Retirement and re-admission\<close>

text \<open>The identities of a snapshot that are no longer live.\<close>

definition missing :: "(string, 'p ptr) gomap \<Rightarrow> (string, 'p ptr) gomap \<Rightarrow> string set" where
  "missing m snap = {i \<in> set (gm_keys snap). gm_get m i = None}"

lemma missing_put:
  assumes "k \<notin> set (gm_keys snap)" "gm_get m k = None"
  shows "card (missing m ((k, d) # snap)) = Suc (card (missing (gm_put k d m) snap))"
proof -
  have "missing m ((k, d) # snap) = insert k (missing (gm_put k d m) snap)"
    using assms by (auto simp: missing_def gm_keys_def)
  moreover have "k \<notin> missing (gm_put k d m) snap" "finite (missing (gm_put k d m) snap)"
    by (simp_all add: missing_def)
  ultimately show ?thesis by simp
qed

lemma missing_live: "gm_get m k = Some e \<Longrightarrow> missing m ((k, d) # snap) = missing m snap"
  by (auto simp: missing_def gm_keys_def)

lemma readmit_fold:
  assumes "distinct (gm_keys snap)"
  shows "gm_get (fst (fold readmit_step snap (m, n))) i =
      (case gm_get m i of Some d \<Rightarrow> Some d | None \<Rightarrow> map_of snap i)
    \<and> snd (fold readmit_step snap (m, n)) = n + int (card (missing m snap))"
  using assms
proof (induction snap arbitrary: m n)
  case Nil
  then show ?case by (simp add: missing_def gm_keys_def split: option.splits)
next
  case (Cons x snap)
  obtain k d where x: "x = (k, d)" by (cases x)
  have k: "k \<notin> set (gm_keys snap)" "distinct (gm_keys snap)"
    using Cons.prems x by (simp_all add: gm_keys_def)
  have km: "map_of snap k = None"
    using k by (simp add: map_of_eq_None_iff gm_keys_def)
  show ?case
  proof (cases "gm_get m k")
    case None
    then have st: "readmit_step x (m, n) = (gm_put k d m, n + 1)"
      by (simp add: x readmit_step_def gm_has_def del: gm_has_iff)
    show ?thesis
      using Cons.IH [OF k(2), of "gm_put k d m" "n + 1"] None km missing_put [OF k(1) None]
      by (simp only: fold_simps comp_apply st) (auto simp: x split: option.splits)
  next
    case (Some e)
    then have st: "readmit_step x (m, n) = (m, n)"
      by (simp add: x readmit_step_def gm_has_def del: gm_has_iff)
    show ?thesis
      using Cons.IH [OF k(2), of m n] Some missing_live [OF Some]
      by (simp only: fold_simps comp_apply st) (auto simp: x split: option.splits)
  qed
qed

lemma idSnapshot_Some:
  "gm_ok (byID tt) \<Longrightarrow>
    \<exists>s. idSnapshot (Some tt) = Some s \<and> gm_ok s \<and> (\<forall>i. gm_get s i = gm_get (byID tt) i)"
  by (auto simp: idSnapshot_def)

section \<open>Registration of a global type\<close>

lemma check_parts_None:
  "check_parts path ps = None \<longleftrightarrow> (\<forall>p \<in> set ps. p \<noteq> [] \<and> part_ok p)"
  by (induction ps) auto

lemma index_parts_get:
  "gm_get (index_parts ps m) p = (if p \<in> set ps then Some True else gm_get m p)"
  unfolding index_parts_def by (induction ps arbitrary: m) auto

definition registrable :: "'p TypeTable \<Rightarrow> string \<Rightarrow> int \<Rightarrow> string \<Rightarrow> bool" where
  "registrable tt path fid owner \<longleftrightarrow>
    owner \<noteq> [] \<and> path \<noteq> [] \<and>
    (\<forall>p \<in> set (go_split (CHR ''/'') path). p \<noteq> [] \<and> part_ok p) \<and>
    (length (go_split (CHR ''/'') path) > 1 \<longrightarrow>
      nm_get (bypath tt) (go_join (CHR ''/'') (butlast (go_split (CHR ''/'') path))) \<noteq> None) \<and>
    nm_get (bypath tt) path = None \<and>
    gm_get (byID tt) (formatFixedID path fid) = None"

definition path_parent :: "'p TypeTable \<Rightarrow> string \<Rightarrow> 'p ptr option" where
  "path_parent tt path =
    (if length (go_split (CHR ''/'') path) > 1
     then nm_get (bypath tt) (go_join (CHR ''/'') (butlast (go_split (CHR ''/'') path))) else None)"

definition registered_node ::
  "'p globals \<Rightarrow> 'p ptr option \<Rightarrow> string \<Rightarrow> int \<Rightarrow> string \<Rightarrow> TypeBehavior \<Rightarrow> 'p ptr" where
  "registered_node g parent path fid owner b =
    Ptr (next_addr g) (Val (formatFixedID path fid) None parent
      (Some (Meta (Suc (next_addr g)) (last (go_split (CHR ''/'') path)) b fid
        (if nilp parent then 0 else externalBandFor parent) (depthOf parent) 0 0 owner None))
      None None None None None (builtin_flags False))"

lemma RegisterType_ok:
  fixes g :: "'p globals" and b :: "TypeBehavior option"
  assumes r: "registrable tt path fid owner"
  defines "def \<equiv> registered_node g (path_parent tt path) path fid owner
    (case b of None \<Rightarrow> DefaultBehavior | Some b \<Rightarrow> b)"
  shows "\<exists>g' tt'. RegisterType g tt path fid owner b = Inr (g', tt', def) \<and>
    byID tt' = gm_put (formatFixedID path fid) def (byID tt) \<and>
    bypath tt' = Some (gm_put path def (made (bypath tt))) \<and>
    byName tt' = gm_put (Name (deref def)) def (byName tt) \<and>
    seq tt' = seq tt \<and> next_addr g' = Suc (Suc (next_addr g)) \<and> cells g' = cells g"
proof -
  let ?ps = "go_split (CHR ''/'') path"
  have c: "owner \<noteq> []" "path \<noteq> []" "check_parts path ?ps = None"
    "nilp (nm_get (bypath tt) path)" "gm_get (byID tt) (formatFixedID path fid) = None"
    "length ?ps > 1 \<Longrightarrow>
      \<not> nilp (nm_get (bypath tt) (go_join (CHR ''/'') (butlast ?ps)))"
    using r by (auto simp: registrable_def check_parts_None nilp_def)
  show ?thesis
  proof (cases "length ?ps > 1")
    case True
    then show ?thesis
      using c by (simp add: RegisterType_def Let_def new_node_def alloc_def def_def
          registered_node_def path_parent_def Name_def)
  next
    case False
    then show ?thesis
      using c by (simp add: RegisterType_def Let_def new_node_def alloc_def def_def
          registered_node_def path_parent_def Name_def)
  qed
qed

text \<open>Every refusal, in the order the checks are made.\<close>

lemma RegisterType_refused:
  assumes "\<not> registrable tt path fid owner"
  shows "\<exists>e. RegisterType g tt path fid owner b = Inl e"
proof -
  let ?ps = "go_split (CHR ''/'') path"
  consider "owner = []" | "owner \<noteq> []" "path = []"
    | e where "owner \<noteq> []" "path \<noteq> []" "check_parts path ?ps = Some e"
    | "owner \<noteq> []" "path \<noteq> []" "check_parts path ?ps = None" "length ?ps > 1"
      "nm_get (bypath tt) (go_join (CHR ''/'') (butlast ?ps)) = None"
    | "owner \<noteq> []" "path \<noteq> []" "check_parts path ?ps = None"
      "length ?ps > 1 \<Longrightarrow> nm_get (bypath tt) (go_join (CHR ''/'') (butlast ?ps)) \<noteq> None"
      "nm_get (bypath tt) path \<noteq> None \<or> gm_get (byID tt) (formatFixedID path fid) \<noteq> None"
    using assms check_parts_None [of path ?ps]
    by (cases "check_parts path ?ps") (auto simp: registrable_def)
  then show ?thesis
  proof cases
    case 5
    then show ?thesis
      by (auto simp: RegisterType_def Let_def nilp_def)
  qed (simp_all add: RegisterType_def Let_def)
qed

end
