(* ===== verification/Builtin_Laws.thy ===== *)
theory Builtin_Laws
  imports Type_Names Type_Laws
begin

text \<open>
  The builtin table is built without an error, its lattice is coherent (so the
  interval fast path of IsAncestor is right on it), every declaration is found
  under its path, and the well-known constants all resolve.
\<close>

section \<open>A check of declarations that only reads paths and numbers\<close>

definition decl_parent_path :: "builtinDecl \<Rightarrow> string option" where
  "decl_parent_path d =
    (if d_ParentPath d \<noteq> [] then Some (d_ParentPath d)
     else let ps = go_split (CHR ''/'') (d_Path d) in
       if length ps > 1 then Some (go_join (CHR ''/'') (butlast ps)) else None)"

fun decls_ok :: "string list \<Rightarrow> int list \<Rightarrow> builtinDecl list \<Rightarrow> bool" where
  "decls_ok ps is [] \<longleftrightarrow> True"
| "decls_ok ps is (d # ds) \<longleftrightarrow>
    (case decl_parent_path d of None \<Rightarrow> True | Some q \<Rightarrow> q \<in> set ps) \<and>
    d_FixedID d \<notin> set is \<and> d_Path d \<notin> set ps \<and>
    decls_ok (d_Path d # ps) (d_FixedID d # is) ds"

lemma builtinDecls_ok: "decls_ok [] [] builtinDecls"
  by code_simp

section \<open>The invariant of registration\<close>

definition nodes_of :: "'p TypeTable \<Rightarrow> 'p ptr list" where
  "nodes_of tt = map snd (byID tt)"

definition table_ok :: "'p globals \<Rightarrow> 'p TypeTable \<Rightarrow> bool" where
  "table_ok g tt \<longleftrightarrow>
    gm_ok (byID tt) \<and> (\<forall>(i, p) \<in> set (byID tt). i = ID (deref p)) \<and>
    coherent (set (nodes_of tt)) \<and> (\<forall>p \<in> set (nodes_of tt). In_lbl (deref p) = 0) \<and>
    depths_ok (set (nodes_of tt)) \<and> addresses_below (next_addr g) (set (nodes_of tt)) \<and>
    (\<forall>q p. nm_get (bypath tt) q = Some p \<longrightarrow> p \<in> set (nodes_of tt))"

lemma gm_put_fresh: "gm_get m k = None \<Longrightarrow> set (gm_put k v m) = insert (k, v) (set m)"
proof -
  assume "gm_get m k = None"
  then have "k \<notin> fst ` set m" by (simp add: gm_get_def map_of_eq_None_iff)
  then show ?thesis
    unfolding gm_put_def by (induction m) (auto)
qed

lemma gm_get_mem: "gm_get m k = Some v \<Longrightarrow> (k, v) \<in> set m"
  by (simp add: gm_get_def map_of_SomeD)

lemma gm_ok_get: "\<lbrakk>gm_ok m; (k, v) \<in> set m\<rbrakk> \<Longrightarrow> gm_get m k = Some v"
  by (simp add: gm_get_def gm_ok_def)

definition decl_node :: "'p globals \<Rightarrow> builtinDecl \<Rightarrow> 'p ptr option \<Rightarrow> 'p ptr" where
  "decl_node g d parent =
    Ptr (next_addr g) (Val (formatFixedID (d_Path d) (d_FixedID d)) None parent
      (Some (Meta (Suc (next_addr g)) (last (go_split (CHR ''/'') (d_Path d))) DefaultBehavior
        (d_FixedID d) (d_Rank d) (depthOf parent) 0 0 OwnerKernel None))
      None None None None None (builtin_flags (d_IsInternal d)))"

lemma registerBuiltin_new:
  assumes "decl_parent tt d = Inr parent"
    and "gm_get (byID tt) (formatFixedID (d_Path d) (d_FixedID d)) = None"
  shows "registerBuiltin d (g, tt) = (g\<lparr>next_addr := Suc (Suc (next_addr g))\<rparr>,
    builtin_indexes d (formatFixedID (d_Path d) (d_FixedID d)) parent (decl_node g d parent) tt)"
  using assms by (simp add: registerBuiltin_def new_node_def alloc_def decl_node_def Let_def)

lemma registerBuiltin_err:
  "decl_parent tt d = Inl e \<Longrightarrow> registerBuiltin d (g, tt) = (recordBuiltinInitErr e g, tt)"
  by (simp add: registerBuiltin_def)

lemma registerBuiltin_dup:
  "\<lbrakk>decl_parent tt d = Inr parent; gm_get (byID tt) (formatFixedID (d_Path d) (d_FixedID d)) = Some q\<rbrakk>
    \<Longrightarrow> registerBuiltin d (g, tt) =
      (recordBuiltinInitErr (DuplicateFixedID (d_FixedID d) (d_Path d) (Path (Some q))) g, tt)"
  by (simp add: registerBuiltin_def)

lemma decl_parent_node:
  "\<lbrakk>decl_parent tt d = Inr parent; parent = Some q\<rbrakk> \<Longrightarrow> \<exists>path. nm_get (bypath tt) path = Some q"
  by (auto simp: decl_parent_def Let_def split: if_splits option.splits)

lemma formatFixedID_ne [simp]: "formatFixedID path n \<noteq> []"
  by (metis append_is_Nil_conv formatFixedID_def id_prefix_length length_0_conv zero_neq_numeral)

lemma table_ok_lookup:
  assumes "table_ok g tt" "q \<in> set (nodes_of tt)"
  shows "gm_get (byID tt) (ID (deref q)) = Some q"
proof -
  obtain i where "(i, q) \<in> set (byID tt)" using assms(2) by (auto simp: nodes_of_def)
  then show ?thesis using assms(1) gm_ok_get by (fastforce simp: table_ok_def)
qed

lemma formatFixedID_number: "formatFixedID p m = formatFixedID q n \<Longrightarrow> m = n"
  by (simp add: formatFixedID_def append_eq_append_conv)

lemma table_ok_globals:
  "\<lbrakk>table_ok g tt; next_addr g' = next_addr g\<rbrakk> \<Longrightarrow> table_ok g' tt"
  by (simp add: table_ok_def)

lemma recordBuiltinInitErr_next [simp]: "next_addr (recordBuiltinInitErr e g) = next_addr g"
  by (simp add: recordBuiltinInitErr_def)

text \<open>Registration adds a fresh node below a registered one, or changes nothing.\<close>

lemma registerBuiltin_ok:
  assumes ok: "table_ok g tt" and r: "registerBuiltin d (g, tt) = (g', tt')"
  shows "table_ok g' tt'"
proof (cases "decl_parent tt d")
  case (Inl e)
  then show ?thesis
    using r ok by (auto simp: registerBuiltin_err intro: table_ok_globals)
next
  case (Inr parent)
  let ?i = "formatFixedID (d_Path d) (d_FixedID d)"
  let ?N = "set (nodes_of tt)"
  show ?thesis
  proof (cases "gm_get (byID tt) ?i")
    case (Some q)
    then show ?thesis
      using r ok by (auto simp: registerBuiltin_dup [OF Inr] intro: table_ok_globals)
  next
    case None
    let ?def = "decl_node g d parent"
    have g': "g' = g\<lparr>next_addr := Suc (Suc (next_addr g))\<rparr>"
      and tt': "tt' = builtin_indexes d ?i parent ?def tt"
      using r registerBuiltin_new [OF Inr None] by auto
    have N': "set (nodes_of tt') = insert ?def ?N"
      using gm_put_fresh [OF None] by (simp add: nodes_of_def tt' builtin_indexes_def Let_def)
    have par: "q \<in> ?N" if "parent = Some q" for q
      using decl_parent_node [OF Inr that] ok by (auto simp: table_ok_def)
    have below: "addr q < next_addr g" "tmeta (deref q) = Some m \<Longrightarrow> maddr m < next_addr g"
      if "q \<in> ?N" for q m
      using that ok by (auto simp: table_ok_def addresses_below_def)
    have ids: "ID (deref q) \<noteq> ?i" if "q \<in> ?N" for q
      using table_ok_lookup [OF ok that] None by auto
    have f: "fresh_for ?N ?def"
      using par below(1) below(2) ids by (fastforce simp: fresh_for_def decl_node_def)
    have "coherent (insert ?def ?N)"
      using ok coherent_insert [OF _ f] by (simp add: table_ok_def)
    moreover have "depths_ok (insert ?def ?N)"
      unfolding depths_except_none [symmetric]
      using ok par by (intro depths_insert) (auto simp: table_ok_def decl_node_def Depth_def depths_except_none)
    moreover have "addresses_below (next_addr g') (insert ?def ?N)"
      using below(1) below(2) by (fastforce simp: addresses_below_def g' decl_node_def less_Suc_eq)
    moreover have "\<forall>p \<in> insert ?def ?N. In_lbl (deref p) = 0"
      using ok fresh_unlabelled [OF f] by (simp add: table_ok_def)
    moreover have "gm_ok (byID tt')"
      using ok by (auto simp: table_ok_def tt' builtin_indexes_def Let_def)
    moreover have "\<forall>(i, p) \<in> set (byID tt'). i = ID (deref p)"
      using ok gm_put_fresh [OF None]
      by (auto simp: table_ok_def tt' builtin_indexes_def Let_def decl_node_def)
    moreover have "\<forall>q p. nm_get (bypath tt') q = Some p \<longrightarrow> p \<in> insert ?def ?N"
      using ok by (auto simp: table_ok_def tt' builtin_indexes_def Let_def)
    ultimately show ?thesis by (simp add: table_ok_def N')
  qed
qed

lemma table_ok_initial: "table_ok initial_globals empty_builtin_table"
  by (auto simp: table_ok_def empty_builtin_table_def nodes_of_def gm_empty_def gm_ok_def gm_get_def
      coherent_def closed_nodes_def identified_def well_labelled_def depths_ok_def
      addresses_below_def)

lemma fold_registerBuiltin_ok:
  "table_ok g tt \<Longrightarrow> fold registerBuiltin ds (g, tt) = (g', tt') \<Longrightarrow> table_ok g' tt'"
proof (induction ds arbitrary: g tt)
  case (Cons d ds)
  obtain g1 t1 where 1: "registerBuiltin d (g, tt) = (g1, t1)" by fastforce
  then have "table_ok g1 t1" by (rule registerBuiltin_ok [OF Cons.prems(1)])
  then show ?case using Cons 1 by simp
qed simp

lemma build_table_ok: "build_table ds = (g, tt) \<Longrightarrow> table_ok g tt"
  unfolding build_table_def by (rule fold_registerBuiltin_ok [OF table_ok_initial])

lemma table_ok_node_list:
  assumes "table_ok g tt"
  shows "node_list (nodes_of tt)"
proof -
  have "map (\<lambda>t. ID (deref t)) (nodes_of tt) = map fst (byID tt)"
    using assms by (auto simp: table_ok_def nodes_of_def)
  then show ?thesis
    using assms by (simp add: node_list_def table_ok_def coherent_def gm_ok_def)
qed

section \<open>Nothing goes wrong and every declaration is found\<close>

definition decl_found :: "'p TypeTable \<Rightarrow> builtinDecl \<Rightarrow> bool" where
  "decl_found tt d \<longleftrightarrow>
    (\<exists>g par. nm_get (bypath tt) (d_Path d) = Some (decl_node g d par) \<and>
      par = (case decl_parent_path d of None \<Rightarrow> None | Some q \<Rightarrow> nm_get (bypath tt) q))"

definition progress ::
  "string list \<Rightarrow> int list \<Rightarrow> builtinDecl list \<Rightarrow> 'p globals \<Rightarrow> 'p TypeTable \<Rightarrow> bool" where
  "progress ps is ds g tt \<longleftrightarrow>
    builtinInitErrs g = [] \<and> is = map d_FixedID ds \<and>
    (\<forall>q. nm_get (bypath tt) q \<noteq> None \<longleftrightarrow> q \<in> set ps) \<and>
    (\<forall>i. gm_get (byID tt) i \<noteq> None \<longrightarrow> (\<exists>path. \<exists>n \<in> set is. i = formatFixedID path n)) \<and>
    (\<forall>d \<in> set ds. decl_found tt d \<and> d_Path d \<in> set ps \<and>
      (\<forall>q. decl_parent_path d = Some q \<longrightarrow> q \<in> set ps))"

lemma decl_parent_eq:
  "decl_parent tt d =
    (case decl_parent_path d of
       None \<Rightarrow> Inr None
     | Some q \<Rightarrow> (case nm_get (bypath tt) q of
         Some p \<Rightarrow> Inr (Some p)
       | None \<Rightarrow> Inl ((if d_ParentPath d \<noteq> [] then ParentPathNotRegistered else BuiltinParentMissing)
           q (d_Path d))))"
  by (auto simp: decl_parent_def decl_parent_path_def Let_def split: option.splits)

lemma decl_parent_ok:
  assumes pr: "progress ps is ds g tt"
    and par: "case decl_parent_path d of None \<Rightarrow> True | Some q \<Rightarrow> q \<in> set ps"
  shows "decl_parent tt d =
    Inr (case decl_parent_path d of None \<Rightarrow> None | Some q \<Rightarrow> nm_get (bypath tt) q)"
proof (cases "decl_parent_path d")
  case (Some q)
  then have "nm_get (bypath tt) q \<noteq> None" using assms by (simp add: progress_def)
  with Some show ?thesis by (auto simp: decl_parent_eq)
qed (simp add: decl_parent_eq)

lemma registerBuiltin_progress:
  assumes pr: "progress ps is ds g tt"
    and par: "case decl_parent_path d of None \<Rightarrow> True | Some q \<Rightarrow> q \<in> set ps"
    and new: "d_FixedID d \<notin> set is" "d_Path d \<notin> set ps"
    and r: "registerBuiltin d (g, tt) = (g', tt')"
  shows "progress (d_Path d # ps) (d_FixedID d # is) (d # ds) g' tt'"
proof -
  let ?i = "formatFixedID (d_Path d) (d_FixedID d)"
  let ?p = "case decl_parent_path d of None \<Rightarrow> None | Some q \<Rightarrow> nm_get (bypath tt) q"
  have "gm_get (byID tt) ?i = None"
  proof (rule ccontr)
    assume "gm_get (byID tt) ?i \<noteq> None"
    then obtain path n where "n \<in> set is" "?i = formatFixedID path n"
      using pr unfolding progress_def by blast
    then show False using new formatFixedID_number by blast
  qed
  note e = registerBuiltin_new [OF decl_parent_ok [OF pr par] this]
  have g': "builtinInitErrs g' = builtinInitErrs g"
    and id': "byID tt' = gm_put ?i (decl_node g d ?p) (byID tt)"
    and path': "\<And>q. nm_get (bypath tt') q =
      (if q = d_Path d then Some (decl_node g d ?p) else nm_get (bypath tt) q)"
    using r e [of g] by (auto simp: builtin_indexes_def Let_def)
  have old: "decl_found tt' e'" if "e' \<in> set ds" for e'
  proof -
    have "d_Path e' \<noteq> d_Path d" "\<forall>q. decl_parent_path e' = Some q \<longrightarrow> q \<noteq> d_Path d"
      using that pr new by (auto simp: progress_def)
    then show ?thesis
      using that pr by (auto simp: progress_def decl_found_def path' split: option.splits)
  qed
  have "decl_found tt' d"
    using par new(2) unfolding decl_found_def path'
    by (intro exI [of _ g] exI [of _ ?p]) (auto split: option.splits)
  moreover have "\<exists>path. \<exists>n \<in> set (d_FixedID d # is). i = formatFixedID path n"
    if "gm_get (byID tt') i \<noteq> None" for i
  proof (cases "i = ?i")
    case False
    then have "gm_get (byID tt) i \<noteq> None" using that by (simp add: id')
    then show ?thesis using pr unfolding progress_def by (meson list.set_intros(2))
  next
    case True
    then show ?thesis by (intro exI [of _ "d_Path d"] bexI [of _ "d_FixedID d"]) simp_all
  qed
  ultimately show ?thesis
    using pr old par g' unfolding progress_def by (auto simp: path' split: option.splits)
qed

lemma fold_registerBuiltin_progress:
  "\<lbrakk>progress ps is done g tt; decls_ok ps is ds; fold registerBuiltin ds (g, tt) = (g', tt')\<rbrakk>
    \<Longrightarrow> \<exists>ps' is'. progress ps' is' (rev ds @ done) g' tt'"
proof (induction ds arbitrary: ps "is" "done" g tt)
  case (Cons d ds)
  obtain g1 t1 where 1: "registerBuiltin d (g, tt) = (g1, t1)" by fastforce
  have "progress (d_Path d # ps) (d_FixedID d # is) (d # done) g1 t1"
    using Cons.prems registerBuiltin_progress [OF Cons.prems(1) _ _ _ 1]
    by (simp split: option.splits)
  then show ?case using Cons.IH [of _ _ "d # done" g1 t1] Cons.prems 1 by auto
qed auto

lemma build_table_progress:
  assumes "decls_ok [] [] ds" and "build_table ds = (g, tt)"
  shows "builtinInitErrs g = []" and "\<forall>d \<in> set ds. decl_found tt d"
    and "\<forall>i. gm_get (byID tt) i \<noteq> None \<longrightarrow>
      (\<exists>path. \<exists>d \<in> set ds. i = formatFixedID path (d_FixedID d))"
proof -
  have "progress [] [] [] initial_globals empty_builtin_table"
    by (auto simp: progress_def initial_globals_def empty_builtin_table_def)
  then obtain ps' is' where "progress ps' is' (rev ds @ []) g tt"
    using fold_registerBuiltin_progress assms unfolding build_table_def by blast
  then show "builtinInitErrs g = []" "\<forall>d \<in> set ds. decl_found tt d"
    "\<forall>i. gm_get (byID tt) i \<noteq> None \<longrightarrow>
      (\<exists>path. \<exists>d \<in> set ds. i = formatFixedID path (d_FixedID d))"
    unfolding progress_def by fastforce+
qed

section \<open>The finished table\<close>

lemma remeta_remeta: "remeta f (remeta h p) = remeta (\<lambda>m. f (h m)) p"
proof (induction p rule: ptr_induct)
  case (step p)
  then show ?case
    by (cases p; cases "deref p") (auto simp: comp_def option.map_comp split: option.splits)
qed

lemma gm_get_map_snd: "gm_get (map (\<lambda>(k, p). (k, f p)) m) q = map_option f (gm_get m q)"
  by (induction m) (auto simp: gm_get_def)

lemma map_pointers_simps:
  "nodes_of (map_pointers f tt) = map f (nodes_of tt)"
  "nm_get (bypath (map_pointers f tt)) q = map_option f (nm_get (bypath tt) q)"
  "gm_get (byID (map_pointers f tt)) i = map_option f (gm_get (byID tt) i)"
  "gm_get (byName (map_pointers f tt)) i = map_option f (gm_get (byName tt) i)"
  "gm_ok (byID (map_pointers f tt)) = gm_ok (byID tt)"
  by (auto simp: map_pointers_def nodes_of_def nm_get_def gm_get_map_snd comp_def split_beta
      gm_ok_def Let_def split: option.splits)

text \<open>What the writes to typeMetas leave alone.\<close>

definition only_labels :: "('p type_meta \<Rightarrow> 'p type_meta) \<Rightarrow> bool" where
  "only_labels f \<longleftrightarrow>
    (\<forall>m. maddr (f m) = maddr m \<and> meta_Depth (f m) = meta_Depth m \<and> meta_Name (f m) = meta_Name m
      \<and> meta_FixedID (f m) = meta_FixedID m)"

definition built_globals :: "'p globals" where
  "built_globals = fst (build_table builtinDecls)"

definition built :: "'p TypeTable" where
  "built = snd (build_table builtinDecls)"

lemma built_ok: "table_ok built_globals built"
  by (rule build_table_ok) (simp add: built_globals_def built_def)

lemma newBuiltin_globals [simp]: "fst newBuiltinTypeTable = built_globals"
  by (simp add: newBuiltinTypeTable_def built_globals_def split_beta)

lemma built_progress:
  shows built_no_errors: "builtinInitErrs (built_globals :: 'p globals) = []"
    and built_found: "\<forall>d \<in> set builtinDecls. decl_found (built :: 'p TypeTable) d"
    and built_numbers: "\<forall>i. gm_get (byID (built :: 'p TypeTable)) i \<noteq> None \<longrightarrow>
      (\<exists>path. \<exists>d \<in> set builtinDecls. i = formatFixedID path (d_FixedID d))"
  using build_table_progress [OF builtinDecls_ok, of "built_globals :: 'p globals" built]
  by (simp_all add: built_globals_def built_def)

lemma install_cases:
  "install_type_behavior tt = tt \<or>
    (\<exists>x. install_type_behavior tt = map_pointers (remeta (rebehave_meta x TypeMembershipBehavior)) tt)"
  unfolding install_type_behavior_def by (auto split: option.splits)

lemma Builtin_shape:
  "\<exists>h. only_labels h \<and> (Builtin :: 'p TypeTable) = map_pointers (remeta h) built \<and>
    coherent (remeta h ` set (nodes_of (built :: 'p TypeTable)))"
proof -
  let ?l = "relabel_meta (interval_labels (nodes_of (built :: 'p TypeTable)))"
  have l: "only_labels ?l" by (simp add: only_labels_def)
  have B: "Builtin = install_type_behavior (map_pointers (remeta ?l) (built :: 'p TypeTable))"
    by (simp add: Builtin_def newBuiltinTypeTable_def labelIntervals_def nodes_of_def built_def split_beta)
  have c: "coherent (remeta ?l ` set (nodes_of (built :: 'p TypeTable)))"
    by (rule relabelled_coherent [OF table_ok_node_list [OF built_ok]])
  consider "Builtin = map_pointers (remeta ?l) (built :: 'p TypeTable)"
    | x where "Builtin = map_pointers (remeta (rebehave_meta x TypeMembershipBehavior))
        (map_pointers (remeta ?l) (built :: 'p TypeTable))"
    unfolding B using install_cases by metis
  then show ?thesis
  proof cases
    case 1
    then show ?thesis using l c by blast
  next
    case 2
    let ?h = "\<lambda>m. rebehave_meta x TypeMembershipBehavior (?l m)"
    have "map_pointers f (map_pointers g tt) = map_pointers (\<lambda>p. f (g p)) tt"
      for f g and tt :: "'p TypeTable"
      by (simp add: map_pointers_def Let_def comp_def case_prod_beta' option.map_comp)
    then have "Builtin = map_pointers (remeta ?h) (built :: 'p TypeTable)"
      using 2 by (simp add: remeta_remeta)
    moreover have "only_labels ?h" using l by (simp add: only_labels_def)
    moreover have "coherent (remeta ?h ` set (nodes_of (built :: 'p TypeTable)))"
      using rebehaved_coherent [OF c, of x TypeMembershipBehavior] by (simp add: image_image remeta_remeta)
    ultimately show ?thesis by blast
  qed
qed

text \<open>What a registered table guarantees, once labelled.\<close>

definition table_inv :: "'p TypeTable \<Rightarrow> bool" where
  "table_inv tt \<longleftrightarrow>
    gm_ok (byID tt) \<and> (\<forall>(i, p) \<in> set (byID tt). i = ID (deref p)) \<and>
    (\<forall>q p. nm_get (bypath tt) q = Some p \<longrightarrow> p \<in> set (nodes_of tt))"

lemma table_inv_lookup:
  assumes "table_inv tt" "q \<in> set (nodes_of tt)"
  shows "gm_get (byID tt) (ID (deref q)) = Some q"
proof -
  obtain i where i: "(i, q) \<in> set (byID tt)" using assms(2) by (auto simp: nodes_of_def)
  moreover from i have "i = ID (deref q)" using assms(1) by (auto simp: table_inv_def)
  ultimately show ?thesis
    using assms(1) gm_ok_get [of "byID tt" "ID (deref q)" q] i by (simp add: table_inv_def)
qed

lemma table_inv_get:
  assumes "table_inv tt" "gm_get (byID tt) i = Some q"
  shows "q \<in> set (nodes_of tt) \<and> ID (deref q) = i"
proof -
  have i: "(i, q) \<in> set (byID tt)" using assms(2) by (rule gm_get_mem)
  moreover from i have "i = ID (deref q)" using assms(1) by (auto simp: table_inv_def)
  ultimately show ?thesis by (force simp: nodes_of_def)
qed

lemma Builtin_inv: "table_inv (Builtin :: 'p TypeTable)"
proof -
  obtain h where h: "(Builtin :: 'p TypeTable) = map_pointers (remeta h) built"
    using Builtin_shape by blast
  have "\<forall>(i, p) \<in> set (byID (Builtin :: 'p TypeTable)). i = ID (deref p)"
    using built_ok [where 'a = 'p] unfolding h
    by (auto simp: table_ok_def map_pointers_def Let_def remeta_deref)
  then show ?thesis
    using built_ok [where 'a = 'p] unfolding table_inv_def h
    by (auto simp: table_ok_def map_pointers_simps)
qed

lemma Builtin_lattice:
  fixes N :: "'p ptr set"
  defines "N \<equiv> set (nodes_of Builtin)"
  shows "coherent N" and "depths_ok N"
    and "addresses_below (next_addr (built_globals :: 'p globals)) N"
proof -
  obtain h where h: "only_labels h" "(Builtin :: 'p TypeTable) = map_pointers (remeta h) built"
    "coherent (remeta h ` set (nodes_of (built :: 'p TypeTable)))" using Builtin_shape by blast
  then have N: "N = remeta h ` set (nodes_of built)"
    by (simp only: N_def h(2) map_pointers_simps(1) set_map)
  with h show "coherent N" by simp
  show "depths_ok N"
    using built_ok [where 'a = 'p] h depths_remeta [of "set (nodes_of built)" h]
    by (simp add: N table_ok_def only_labels_def)
  have "addresses_below (next_addr (built_globals :: 'p globals)) (set (nodes_of (built :: 'p TypeTable)))"
    using built_ok [where 'a = 'p] by (simp add: table_ok_def)
  then show "addresses_below (next_addr (built_globals :: 'p globals)) N"
    using h(1) unfolding addresses_below_def N by (auto simp: remeta_deref only_labels_def)
qed

text \<open>Each declaration is found under its path, with its identity, name and parent.\<close>

lemma Builtin_found:
  assumes "d \<in> set builtinDecls"
  shows "\<exists>p. nm_get (bypath Builtin) (d_Path d) = Some p \<and> p \<in> set (nodes_of Builtin)
    \<and> ID (deref p) = formatFixedID (d_Path d) (d_FixedID d) \<and> FixedID (deref p) = d_FixedID d
    \<and> Name (deref p) = last (go_split (CHR ''/'') (d_Path d))
    \<and> parent_of p = (case decl_parent_path d of None \<Rightarrow> None | Some q \<Rightarrow> nm_get (bypath Builtin) q)"
proof -
  obtain h where h: "only_labels h" "(Builtin :: 'a TypeTable) = map_pointers (remeta h) built"
    using Builtin_shape by blast
  obtain g par where d: "nm_get (bypath (built :: 'a TypeTable)) (d_Path d) = Some (decl_node g d par)"
      "par = (case decl_parent_path d of None \<Rightarrow> None | Some q \<Rightarrow> nm_get (bypath built) q)"
    using built_found assms unfolding decl_found_def by blast
  let ?p = "remeta h (decl_node g d par)"
  have "nm_get (bypath Builtin) (d_Path d) = Some ?p"
    by (simp add: h(2) map_pointers_simps d(1))
  moreover then have "?p \<in> set (nodes_of Builtin)" using Builtin_inv unfolding table_inv_def by blast
  moreover have "ID (deref ?p) = formatFixedID (d_Path d) (d_FixedID d)"
    "FixedID (deref ?p) = d_FixedID d" "Name (deref ?p) = last (go_split (CHR ''/'') (d_Path d))"
    using h(1) by (simp_all add: remeta_deref(1,4) FixedID_def Name_def)
      (simp_all add: decl_node_def only_labels_def)
  moreover have "parent_of ?p =
      (case decl_parent_path d of None \<Rightarrow> None | Some q \<Rightarrow> nm_get (bypath Builtin) q)"
  proof -
    have "parent_of (decl_node g d par) = par" by (simp add: decl_node_def)
    then show ?thesis
      unfolding remeta_deref(3) using d(2) by (simp add: h(2) map_pointers_simps split: option.splits)
  qed
  ultimately show ?thesis by blast
qed

section \<open>The states of a lattice that grows\<close>

definition fixed_ID :: "string \<Rightarrow> bool" where
  "fixed_ID i \<longleftrightarrow> numbered (sint dynamicIDBase) i"

definition minted_ID :: "string \<Rightarrow> bool" where
  "minted_ID i \<longleftrightarrow> (\<exists>pre k. length pre = 2 \<and> i = pre @ hex_pad_int 12 k \<and> k > sint dynamicIDBase)"

text \<open>
  The reachable states of one registry tree with counter cell \<open>c\<close>: the builtin
  table \<open>tb\<close> and the set \<open>M\<close> of types minted so far, by any table of the tree that
  draws from the counter.  Types may also be registered into the builtin table
  at run time, under the numbers the allocation policy reserves.  The placeholder
  of a type parameter gets its bound as its parent while nothing stands on it yet
  (AttachGenBound is documented as safe before publication only), and the bound
  is another node: a placeholder bounded by itself, which gen does not refuse,
  would make the chain a circle.  The set \<open>A\<close> collects the identities of the
  placeholders that were moved.
\<close>

inductive lattice_state ::
  "nat \<Rightarrow> 'p globals \<Rightarrow> 'p TypeTable \<Rightarrow> 'p ptr set \<Rightarrow> string set \<Rightarrow> bool" for c :: nat where
  init: "new_counter (fst newBuiltinTypeTable) = (c, g) \<Longrightarrow> lattice_state c g Builtin {} {}"
| mint: "\<lbrakk>lattice_state c g tb M A; seq tt = Some c; sint (cell g c) < 2 ^ 62;
    \<forall>q. parent = Some q \<longrightarrow> q \<in> set (nodes_of tb) \<union> M;
    MintType g tt name parent = (g', tt', def)\<rbrakk> \<Longrightarrow> lattice_state c g' tb (insert def M) A"
| register: "\<lbrakk>lattice_state c g tb M A; fid \<le> sint dynamicIDBase;
    RegisterType g tb path fid owner b = Inr (g', tb', def)\<rbrakk> \<Longrightarrow> lattice_state c g' tb' M A"
| attach: "\<lbrakk>lattice_state c g tb M A; node \<in> M;
    \<forall>p \<in> set (nodes_of tb) \<union> (M - {node}). ID (deref node) \<notin> set (idchain p);
    CanonicalType r (Some b) \<in> Some ` (set (nodes_of tb) \<union> (M - {node}));
    node' = AttachGenBound r node (Some b)\<rbrakk> \<Longrightarrow>
    lattice_state c g tb (insert node' (M - {node})) (insert (ID (deref node)) A)"

definition state_inv :: "nat \<Rightarrow> 'p globals \<Rightarrow> 'p TypeTable \<Rightarrow> 'p ptr set \<Rightarrow> string set \<Rightarrow> bool" where
  "state_inv c g tb M A \<longleftrightarrow>
    world g c A (set (nodes_of tb) \<union> M) \<and> table_inv tb \<and> 0 \<le> sint (cell g c) \<and>
    sint (cell g c) \<le> 2 ^ 62 \<and> set (nodes_of Builtin) \<subseteq> set (nodes_of tb) \<and>
    (\<forall>p \<in> M. minted_ID (ID (deref p)) \<and> In_lbl (deref p) = 0)"

lemma decl_fids: "\<forall>d \<in> set builtinDecls. d_FixedID d \<le> sint dynamicIDBase"
  by code_simp

lemma Builtin_fixed:
  assumes "p \<in> set (nodes_of (Builtin :: 'p TypeTable))"
  shows "fixed_ID (ID (deref p))"
proof -
  obtain h where h: "(Builtin :: 'p TypeTable) = map_pointers (remeta h) built"
    using Builtin_shape by blast
  have "p \<in> remeta h ` set (nodes_of (built :: 'p TypeTable))"
    using assms unfolding h map_pointers_simps(1) set_map .
  then obtain q where q: "q \<in> set (nodes_of (built :: 'p TypeTable))" "p = remeta h q"
    by blast
  have "gm_get (byID (built :: 'p TypeTable)) (ID (deref q)) \<noteq> None"
    using table_ok_lookup [OF built_ok q(1)] by simp
  note num = built_numbers [rule_format, OF this]
  then obtain path d where "d \<in> set builtinDecls" "ID (deref q) = formatFixedID path (d_FixedID d)"
    using num by blast
  moreover then have "d_FixedID d \<le> sint dynamicIDBase" using decl_fids by blast
  ultimately show ?thesis
    unfolding q(2) remeta_deref(1) fixed_ID_def numbered_def formatFixedID_def
    using id_prefix_length by blast
qed

lemma numbered_formatFixedID: "n \<le> k \<Longrightarrow> numbered k (formatFixedID path n)"
  unfolding numbered_def formatFixedID_def using id_prefix_length by blast

lemma minted_not_fixed: "minted_ID i \<Longrightarrow> fid \<le> sint dynamicIDBase \<Longrightarrow> i \<noteq> formatFixedID path fid"
  by (auto simp: minted_ID_def formatFixedID_def append_eq_append_conv)

lemma sint_base: "sint dynamicIDBase = 0x10000000"
  by (simp add: dynamicIDBase_def)

lemma base_number:
  assumes "0 \<le> sint n" "sint (n :: 64 word) \<le> 2 ^ 62"
  shows "sint (dynamicIDBase + n) = sint dynamicIDBase + sint n"
  using assms by (intro sint_plus) (auto simp: sint_base)

lemma state_inv_init:
  assumes "new_counter (fst newBuiltinTypeTable) = (c, g)"
  shows "state_inv c g Builtin {} {}"
proof -
  have g: "next_addr g = Suc (next_addr (built_globals :: 'a globals))" "cell g c = 0"
    using assms by (auto simp: new_counter_def alloc_def cell_set_cell Let_def)
  have "numbered (sint (dynamicIDBase + cell g c)) (ID (deref p))"
    if "p \<in> set (nodes_of Builtin)" for p :: "'a ptr"
    using Builtin_fixed [OF that] by (simp add: fixed_ID_def g)
  moreover have "addresses_below (next_addr g) (set (nodes_of (Builtin :: 'a TypeTable)))"
    using Builtin_lattice(3) unfolding addresses_below_def g(1) by (meson less_SucI)
  ultimately show ?thesis
    using Builtin_lattice(1,2) Builtin_inv by (simp add: state_inv_def world_def g(2) depths_except_none)
qed

lemma state_inv_mint:
  assumes I: "state_inv c g tb M A" and s: "seq tt = Some c" and n: "sint (cell g c) < 2 ^ 62"
    and par: "\<forall>q. parent = Some q \<longrightarrow> q \<in> set (nodes_of tb) \<union> M"
    and mt: "MintType g tt name parent = (g', tt', def)"
  shows "state_inv c g' tb (insert def M) A"
proof -
  have W: "world g c A (set (nodes_of tb) \<union> M)" and n0: "0 \<le> sint (cell g c)"
    using I by (auto simp: state_inv_def)
  have w: "world g' c A (insert def (set (nodes_of tb) \<union> M))" "fresh_for (set (nodes_of tb) \<union> M) def"
    using mint_world [OF W s par n0 n mt] by blast+
  then have W': "world g' c A (set (nodes_of tb) \<union> insert def M)" by simp
  note l = fresh_unlabelled [OF w(2)]
  have c': "cell g' c = cell g c + 1"
    and i: "ID (deref def) = mint_prefix parent @ hex_pad_int 12 (sint (dynamicIDBase + (cell g c + 1)))"
    using mt by (auto simp: MintType_Some [OF s] Let_def cell_set_cell)
  have c'': "sint (cell g' c) = sint (cell g c) + 1"
    using n n0 sint_plus [of "cell g c" 1] by (simp add: c')
  then have "sint (dynamicIDBase + (cell g c + 1)) = sint dynamicIDBase + (sint (cell g c) + 1)"
    using n n0 base_number [of "cell g c + 1"] by (simp add: c')
  then have "minted_ID (ID (deref def))"
    unfolding minted_ID_def i using n0 mint_prefix_length [of parent]
    by (metis add.commute add_strict_increasing2 less_add_same_cancel1 zle_add1_eq_le zless_add1_eq)
  with I W' c'' n l show ?thesis by (simp add: state_inv_def)
qed

lemma register_step:
  assumes "RegisterType g tb path fid owner b = Inr (g', tb', def)"
  shows "registrable tb path fid owner"
    and "\<exists>bh. def = registered_node g (path_parent tb path) path fid owner bh"
    and "byID tb' = gm_put (formatFixedID path fid) def (byID tb)"
    and "bypath tb' = Some (gm_put path def (made (bypath tb)))"
    and "next_addr g' = Suc (Suc (next_addr g))" "cells g' = cells g"
proof -
  show r: "registrable tb path fid owner"
    using assms RegisterType_refused by (metis Inr_not_Inl)
  show "\<exists>bh. def = registered_node g (path_parent tb path) path fid owner bh"
    "byID tb' = gm_put (formatFixedID path fid) def (byID tb)"
    "bypath tb' = Some (gm_put path def (made (bypath tb)))"
    "next_addr g' = Suc (Suc (next_addr g))" "cells g' = cells g"
    using RegisterType_ok [OF r, of g b] assms by auto
qed

lemma path_parent_node:
  assumes "table_inv tb" "path_parent tb path = Some q"
  shows "q \<in> set (nodes_of tb)"
  using assms by (auto simp: path_parent_def table_inv_def split: if_splits)

lemma state_inv_register:
  assumes I: "state_inv c g tb M A" and fid: "fid \<le> sint dynamicIDBase"
    and r: "RegisterType g tb path fid owner b = Inr (g', tb', def)"
  shows "state_inv c g' tb' M A"
proof -
  let ?N = "set (nodes_of tb) \<union> M"
  note st = register_step [OF r]
  have W: "world g c A ?N" and inv: "table_inv tb" and n0: "0 \<le> sint (cell g c)"
    and n1: "sint (cell g c) \<le> 2 ^ 62" and M: "\<And>p. p \<in> M \<Longrightarrow> minted_ID (ID (deref p))"
    using I by (auto simp: state_inv_def)
  obtain bh where def: "def = registered_node g (path_parent tb path) path fid owner bh"
    using st(2) by blast
  have none: "gm_get (byID tb) (formatFixedID path fid) = None"
    using st(1) by (simp add: registrable_def)
  have c': "cell g' c = cell g c" by (simp add: cell_def st(6))
  have nodes': "set (nodes_of tb') = insert def (set (nodes_of tb))"
    using gm_put_fresh [OF none] by (simp add: nodes_of_def st(3))
  have i: "ID (deref def) = formatFixedID path fid" by (simp add: def registered_node_def)
  have below: "addr q < next_addr g" "tmeta (deref q) = Some m \<Longrightarrow> maddr m < next_addr g"
    if "q \<in> ?N" for q m
    using that W by (auto simp: world_def addresses_below_def)
  have ids: "ID (deref q) \<noteq> formatFixedID path fid" if "q \<in> ?N" for q
    using that table_inv_lookup [OF inv, of q] none minted_not_fixed [OF M fid] by auto
  have par: "q \<in> ?N" if "parent_of def = Some q" for q
    using that path_parent_node [OF inv] by (simp add: def registered_node_def)
  have f: "fresh_for ?N def"
    unfolding fresh_for_def i
    using below(1) below(2) ids par by (fastforce simp: def registered_node_def)
  have "coherent (insert def ?N)" using W coherent_insert [OF _ f] by (simp add: world_def)
  moreover have "depths_except A (insert def ?N)"
    using W par by (intro depths_insert) (auto simp: world_def Depth_def def registered_node_def)
  moreover have "addresses_below (next_addr g') (insert def ?N)"
    using below(1) below(2)
    by (fastforce simp: addresses_below_def st(5) def registered_node_def less_Suc_eq)
  moreover have "numbered (sint (dynamicIDBase + cell g' c)) (ID (deref q))" if "q \<in> insert def ?N" for q
  proof (cases "q = def")
    case True
    have "fid \<le> sint (dynamicIDBase + cell g c)" using base_number [OF n0 n1] n0 fid by simp
    then show ?thesis unfolding True i c' by (rule numbered_formatFixedID)
  next
    case False
    then show ?thesis using that W by (simp add: world_def c')
  qed
  ultimately have "world g' c A (insert def ?N)" by (simp add: world_def)
  moreover have "table_inv tb'"
    unfolding table_inv_def nodes'
    using inv gm_put_fresh [OF none] by (auto simp: table_inv_def st(3,4) i)
  ultimately show ?thesis
    using I M by (auto simp: state_inv_def nodes' c')
qed

lemma set_parent_sel [simp]:
  "ID (set_parent q v) = ID v" "Parent (set_parent q v) = q" "tmeta (set_parent q v) = tmeta v"
  by (cases v; simp)+

lemma AttachGenBound_sel [simp]:
  "addr (AttachGenBound r t (Some b)) = addr t" "ID (deref (AttachGenBound r t (Some b))) = ID (deref t)"
  "tmeta (deref (AttachGenBound r t (Some b))) = tmeta (deref t)"
  "parent_of (AttachGenBound r t (Some b)) = CanonicalType r (Some b)"
  by (simp_all add: AttachGenBound_def)

lemma coherent_subset: "\<lbrakk>coherent N; N' \<subseteq> N; closed_nodes N'\<rbrakk> \<Longrightarrow> coherent N'"
  unfolding coherent_def identified_def well_labelled_def by (meson subsetD)

text \<open>Moving a placeholder nothing stands on: taken out, it can be put back anew.\<close>

lemma world_attach:
  assumes W: "world g c A N" and t: "t \<in> N" "In_lbl (deref t) = 0"
    and alone: "\<And>p. p \<in> N0 \<Longrightarrow> ID (deref t) \<notin> set (idchain p)"
    and N0: "N0 \<subseteq> N" "N \<subseteq> insert t N0" and b: "CanonicalType r (Some b) \<in> Some ` N0"
  shows "world g c (insert (ID (deref t)) A) (insert (AttachGenBound r t (Some b)) N0)"
proof -
  let ?t = "AttachGenBound r t (Some b)"
  have C: "coherent N" using W by (simp add: world_def)
  note I = coherent_identified [OF C]
  have "closed_nodes N0"
    unfolding closed_nodes_def
  proof (intro ballI allI impI)
    fix p q assume p: "p \<in> N0" "parent_of p = Some q"
    then have "q \<in> N" using closedD [OF coherent_closed [OF C]] N0(1) by blast
    moreover have "q \<noteq> t" using alone [OF p(1)] idchain_step [OF p(2)] by auto
    ultimately show "q \<in> N0" using N0(2) by blast
  qed
  then have C0: "coherent N0" by (rule coherent_subset [OF C N0(1)])
  have ids: "ID (deref p) \<noteq> ID (deref t)" if "p \<in> N0" for p
    using alone [OF that] idchain_self [of p] by metis
  obtain m where m: "tmeta (deref t) = Some m" "ID (deref t) \<noteq> []"
    using identified_node [OF I t(1)] by blast
  have "fresh_for N0 ?t"
    unfolding fresh_for_def
  proof (intro conjI exI ballI allI impI)
    show "tmeta (deref ?t) = Some m" "meta_In m = 0" using m t(2) by (simp_all add: In_lbl_def)
    fix p assume p: "p \<in> N0"
    show "maddr m' \<noteq> maddr m" if "tmeta (deref p) = Some m'" for m'
      using identified_maddr [OF I _ t(1) that m(1)] p N0(1) ids [OF p] by blast
    show "ID (deref p) \<noteq> ID (deref ?t)" using ids [OF p] by simp
    show "addr p \<noteq> addr ?t" using identified_addr [OF I _ t(1)] p N0(1) ids [OF p] by auto
  qed (use m b in auto)
  then have "coherent (insert ?t N0)" by (rule coherent_insert [OF C0])
  moreover have "depths_except (insert (ID (deref t)) A) (insert ?t N0)"
    using W N0(1) idchain_self [of ?t] unfolding world_def depths_except_def by auto
  moreover have "addresses_below (next_addr g) (insert ?t N0)"
    using W N0(1) t(1) by (auto simp: world_def addresses_below_def)
  moreover have "\<forall>p \<in> insert ?t N0. numbered (sint (dynamicIDBase + cell g c)) (ID (deref p))"
    using W N0(1) t(1) by (auto simp: world_def)
  ultimately show ?thesis by (simp add: world_def)
qed

lemma state_inv_attach:
  assumes I: "state_inv c g tb M A" and t: "t \<in> M"
    and alone: "\<forall>p \<in> set (nodes_of tb) \<union> (M - {t}). ID (deref t) \<notin> set (idchain p)"
    and b: "CanonicalType r (Some b) \<in> Some ` (set (nodes_of tb) \<union> (M - {t}))"
  shows "state_inv c g tb (insert (AttachGenBound r t (Some b)) (M - {t})) (insert (ID (deref t)) A)"
proof -
  let ?N0 = "set (nodes_of tb) \<union> (M - {t})"
  have "world g c (insert (ID (deref t)) A) (insert (AttachGenBound r t (Some b)) ?N0)"
    by (rule world_attach [of g c A "set (nodes_of tb) \<union> M"])
      (use I t alone b in \<open>auto simp: state_inv_def\<close>)
  then show ?thesis using I t by (simp add: state_inv_def In_lbl_def)
qed

lemma lattice_state_inv: "lattice_state c g tb M A \<Longrightarrow> state_inv c g tb M A"
proof (induction rule: lattice_state.induct)
  case (init g)
  then show ?case by (rule state_inv_init)
next
  case (mint g tb M A tt parent name g' tt' def)
  show ?case by (rule state_inv_mint [OF mint.IH mint.hyps(2-5)])
next
  case (register g tb M A fid path owner b g' tb' def)
  show ?case by (rule state_inv_register [OF register.IH register.hyps(2,3)])
next
  case (attach g tb M A t r b t')
  show ?case unfolding attach.hyps(5) by (rule state_inv_attach [OF attach.IH attach.hyps(2-4)])
qed

end
