(* ===== verification/Type_Props.thy ===== *)
theory Type_Props
  imports Builtin_Laws
begin

text \<open>
  The properties of the type lattice: the order on the types of a running
  program, the type order, the lowest common ancestor, identities across
  clones and forks, the builtin table and its paths.
\<close>

section \<open>Looking up declarations\<close>

lemma bypath_d_Any: "decl ''Any'' '''' 1 False '''' 11000000000 \<in> set builtinDecls"
  by (simp add: builtinDecls_def root_decls_def)

lemma decls_ok_parent:
  "\<lbrakk>decls_ok ps is ds; d \<in> set ds; decl_parent_path d = Some q\<rbrakk> \<Longrightarrow> q \<in> set ps \<union> d_Path ` set ds"
  by (induction ds arbitrary: ps "is") (fastforce split: option.splits)+

lemma decl_parent_declared:
  assumes "d \<in> set builtinDecls" "decl_parent_path d = Some q"
  shows "\<exists>e \<in> set builtinDecls. d_Path e = q"
  using decls_ok_parent [OF builtinDecls_ok assms] by auto

lemma mustType_lookup: "nm_get (bypath (Builtin :: 'p TypeTable)) q = Some x \<Longrightarrow> mustType q = x"
  by (simp add: mustType_def mustBuiltinType_def)

lemma mustType_found:
  assumes "d \<in> set builtinDecls"
  defines "p \<equiv> mustType (d_Path d) :: 'p ptr"
  shows "nm_get (bypath Builtin) (d_Path d) = Some p" and "p \<in> set (nodes_of Builtin)"
    and "ID (deref p) = formatFixedID (d_Path d) (d_FixedID d)"
    and "Name (deref p) = last (go_split (CHR ''/'') (d_Path d))"
    and "FixedID (deref p) = d_FixedID d"
    and "parent_of p = map_option mustType (decl_parent_path d)"
proof -
  obtain x :: "'p ptr" where x: "nm_get (bypath Builtin) (d_Path d) = Some x" "x \<in> set (nodes_of Builtin)"
     "ID (deref x) = formatFixedID (d_Path d) (d_FixedID d)" "FixedID (deref x) = d_FixedID d"
     "Name (deref x) = last (go_split (CHR ''/'') (d_Path d))"
     "parent_of x = (case decl_parent_path d of None \<Rightarrow> None | Some q \<Rightarrow> nm_get (bypath Builtin) q)"
    using Builtin_found [OF assms(1)] by blast
  have p: "p = x" unfolding p_def by (rule mustType_lookup [OF x(1)])
  show "nm_get (bypath Builtin) (d_Path d) = Some p" "p \<in> set (nodes_of Builtin)"
    "ID (deref p) = formatFixedID (d_Path d) (d_FixedID d)"
    "Name (deref p) = last (go_split (CHR ''/'') (d_Path d))" "FixedID (deref p) = d_FixedID d"
    using x by (simp_all add: p)
  show "parent_of p = map_option mustType (decl_parent_path d)"
  proof (cases "decl_parent_path d")
    case (Some q)
    then obtain e where "e \<in> set builtinDecls" "d_Path e = q"
      using decl_parent_declared [OF assms(1)] by blast
    then obtain y :: "'p ptr" where "nm_get (bypath Builtin) q = Some y" using Builtin_found by blast
    then show ?thesis using x(6) Some mustType_lookup [of q y] by (simp add: p)
  qed (use x(6) p in simp)
qed

text \<open>The types the properties name, at their declarations.\<close>

lemma known_decls:
  "decl ''Scalar'' ''Any'' 3 False '''' 20000000000 \<in> set builtinDecls"
  "decl ''Scalar/Number'' '''' 7 False '''' 20300000000 \<in> set builtinDecls"
  "decl ''Scalar/Number/Integer'' '''' 8 False '''' 20310000000 \<in> set builtinDecls"
  "decl ''Scalar/Boolean'' '''' 10 False '''' 20200000000 \<in> set builtinDecls"
  "decl ''Word'' ''Any'' 17 False '''' 50000000000 \<in> set builtinDecls"
  "decl ''Word/__FW'' '''' 21 True ''Forward'' 50100000000 \<in> set builtinDecls"
  "decl ''Word/__OP'' '''' 22 True ''Paren'' 50100001000 \<in> set builtinDecls"
  "decl ''Word/__CP'' '''' 72 True ''CloseParen'' 50100002000 \<in> set builtinDecls"
  "decl ''Word/__ED'' '''' 73 True ''End'' 50100003000 \<in> set builtinDecls"
  by (simp_all add: builtinDecls_def root_decls_def scalar_decls_def word_decls_def)

lemmas known_types = bypath_d_Any [THEN mustType_found(2)] known_decls [THEN mustType_found(2)]
lemmas known_ids = bypath_d_Any [THEN mustType_found(3)] known_decls [THEN mustType_found(3)]
lemmas known_parents = bypath_d_Any [THEN mustType_found(6)] known_decls [THEN mustType_found(6)]

lemma decl_sel [simp]:
  "d_Path (decl p pp f i a r) = p" "d_ParentPath (decl p pp f i a r) = pp"
  "d_FixedID (decl p pp f i a r) = f"
  by (simp_all add: decl_def)

lemmas known_types' = known_types [unfolded decl_sel]
lemmas known_ids' = known_ids [unfolded decl_sel]

lemma TAny_node: "TAny \<in> set (nodes_of Builtin)"
  unfolding TAny_def by (rule known_types')

lemma TAny_root: "parent_of TAny = None"
  unfolding TAny_def using known_parents(1) by (simp add: decl_parent_path_def)

section \<open>The order on types\<close>

text \<open>What every node of a reachable lattice satisfies.\<close>

lemma lattice_state_facts:
  assumes "lattice_state c g tb M A"
  shows "coherent (set (nodes_of tb) \<union> M)" and "depths_except A (set (nodes_of tb) \<union> M)"
    and "set (nodes_of Builtin) \<subseteq> set (nodes_of tb)"
  using lattice_state_inv [OF assms] by (simp_all add: state_inv_def world_def)

lemma ConformsTo_iff:
  assumes N: "coherent N" "TAny \<in> N" and t: "t \<in> N" "q \<in> N"
  shows "ConformsTo (Some t) (Some q) \<longleftrightarrow> same_type q TAny \<or> ID (deref q) \<in> set (idchain t)"
  using IsAncestor_iff_chain [OF N(1) t] by (simp add: ConformsTo_def)

text \<open>A witness state: the package as initialised, with a counter for the program.\<close>

definition start_state :: "nat \<times> 'p globals" where
  "start_state = new_counter (fst newBuiltinTypeTable)"

lemma start_lattice:
  "lattice_state (fst (start_state :: nat \<times> 'p globals)) (snd start_state) (Builtin :: 'p TypeTable) {} {}"
  by (rule lattice_state.init) (simp add: start_state_def del: newBuiltin_globals)

text \<open>C5: On every type of a running program (builtins, types registered at run time, types
  minted by any table of the registry tree, type parameters moved under their bounds) the
  constant-time interval test of IsAncestor gives the answer of the walk up the parent chain, and
  IsAncestor is a partial order up to type identity.  A parameter is moved as AttachGenBound
  requires, before anything stands on it, and never under itself.\<close>

theorem ancestor_order:
  assumes "lattice_state c g tb M A"
    and "x \<in> set (nodes_of tb) \<union> M" "y \<in> set (nodes_of tb) \<union> M" "z \<in> set (nodes_of tb) \<union> M"
  shows "(IsAncestor x y \<longleftrightarrow> IsAncestor_walk x y) \<and> IsAncestor x x \<and>
    (IsAncestor x y \<and> IsAncestor y z \<longrightarrow> IsAncestor x z) \<and>
    (IsAncestor x y \<and> IsAncestor y x \<longrightarrow> same_type x y)"
proof -
  note N = lattice_state_facts(1) [OF assms(1)]
  show ?thesis
    using IsAncestor_refl [OF N assms(2)] IsAncestor_trans [OF N assms(2,3,4)]
      IsAncestor_antisym [OF N assms(2,3)] Equal_iff_ID [OF N assms(2,3)]
      IsAncestor_iff_chain [OF N assms(2,3)] walk_iff_chain [OF N assms(2,3)] by blast
qed

lemma ancestor_order_witness:
  "IsAncestor (mustType ''Scalar/Number/Integer'' :: nat ptr) (mustType ''Scalar'') \<longleftrightarrow>
   IsAncestor_walk (mustType ''Scalar/Number/Integer'' :: nat ptr) (mustType ''Scalar'')"
  using ancestor_order [OF start_lattice, of "mustType ''Scalar/Number/Integer''"
      "mustType ''Scalar''" "mustType ''Scalar''"] known_types' by blast

text \<open>Conformance is a partial order on the types of a running program, with Any on
  top: every type conforms to Any and to itself, conformance is transitive, and two types
  that conform to each other are the same type; a nil pattern is a vacuous match.\<close>

theorem conforms_order:
  assumes "lattice_state c g tb M A"
    and "x \<in> set (nodes_of tb) \<union> M" "y \<in> set (nodes_of tb) \<union> M" "z \<in> set (nodes_of tb) \<union> M"
  shows "ConformsTo (Some x) (Some x) \<and> ConformsTo (Some x) (Some TAny) \<and> ConformsTo (Some x) None \<and>
    (ConformsTo (Some x) (Some y) \<and> ConformsTo (Some y) (Some z) \<longrightarrow> ConformsTo (Some x) (Some z)) \<and>
    (ConformsTo (Some x) (Some y) \<and> ConformsTo (Some y) (Some x) \<longrightarrow> same_type x y)"
proof -
  let ?N = "set (nodes_of tb) \<union> M"
  note N = lattice_state_facts(1) [OF assms(1)]
  have T: "TAny \<in> ?N" using lattice_state_facts(3) [OF assms(1)] TAny_node by blast
  note c = ConformsTo_iff [OF N T] and e = Equal_iff_ID [OF N]
  have any: "ID (deref u) \<in> set (idchain (TAny :: 'a ptr)) \<longleftrightarrow> same_type u TAny" if "u \<in> ?N" for u
    using e [OF that T] by (simp add: idchain_root [OF TAny_root])
  have "ConformsTo (Some x) (Some z)"
    if "ConformsTo (Some x) (Some y)" "ConformsTo (Some y) (Some z)"
  proof (cases "same_type y TAny")
    case True
    then have "deref y = deref TAny" using Equal_deref [OF N assms(3) T] by simp
    then have "same_type z TAny"
      using that(2) c [OF assms(3,4)] any [OF assms(4)] idchain_deref [of y TAny] by auto
    then show ?thesis using c [OF assms(2,4)] by simp
  next
    case False
    then show ?thesis
      using that c [OF assms(2,3)] c [OF assms(3,4)] c [OF assms(2,4)]
        idchain_subset [OF N assms(2,3)] by auto
  qed
  moreover have "same_type x y" if "ConformsTo (Some x) (Some y)" "ConformsTo (Some y) (Some x)"
  proof -
    have u: "same_type v TAny" if "same_type w TAny" "ID (deref v) \<in> set (idchain w)"
      "v \<in> ?N" "w \<in> ?N" for v w
      using that any Equal_deref [OF N that(4) T] idchain_deref [of w TAny] by auto
    have "ID (deref y) \<in> set (idchain x) \<and> ID (deref x) \<in> set (idchain y) \<or>
        same_type x TAny \<and> same_type y TAny"
      using that c [OF assms(2,3)] c [OF assms(3,2)] u assms(2,3) by blast
    then show ?thesis
      using IsAncestor_antisym [OF N assms(2,3)] IsAncestor_iff_chain [OF N assms(2,3)]
        IsAncestor_iff_chain [OF N assms(3,2)] e [OF assms(2,3)] e [OF assms(2) T]
        e [OF assms(3) T] by auto
  qed
  moreover have "ConformsTo (Some x) (Some x)" "ConformsTo (Some x) (Some TAny)" "ConformsTo (Some x) None"
    using c [OF assms(2,2)] by (simp_all add: ConformsTo_def)
  ultimately show ?thesis by blast
qed

lemma conforms_order_witness:
  "ConformsTo (Some (mustType ''Scalar/Number/Integer'' :: nat ptr)) (Some TAny)"
  using conforms_order [OF start_lattice, of "mustType ''Scalar/Number/Integer''"
      "mustType ''Scalar''" "mustType ''Scalar''"] known_types' by blast

text \<open>compareTypes is a total order on the types of a running program: swapping the
  arguments negates the result, the result is 0 exactly for the same type, and the order
  is transitive.\<close>

theorem compareTypes_total:
  assumes "lattice_state c g tb M A"
    and "x \<in> set (nodes_of tb) \<union> M" "y \<in> set (nodes_of tb) \<union> M" "z \<in> set (nodes_of tb) \<union> M"
  shows "compareTypes y x = - compareTypes x y \<and>
    (compareTypes x y = 0 \<longleftrightarrow> same_type x y) \<and>
    (compareTypes x y \<le> 0 \<and> compareTypes y z \<le> 0 \<longrightarrow> compareTypes x z \<le> 0)"
proof -
  note N = lattice_state_facts(1) [OF assms(1)]
  have k: "compareTypes u v =
      (if type_key u = type_key v then 0 else if type_key u < type_key v then -1 else 1)"
    if "u \<in> set (nodes_of tb) \<union> M" "v \<in> set (nodes_of tb) \<union> M" for u v
    using compareTypes_key addr_deref [OF N that] by blast
  have e: "type_key x = type_key y \<longleftrightarrow> same_type x y"
    using Equal_iff_ID [OF N assms(2,3)] Equal_deref [OF N assms(2,3)] type_key_deref [of x y]
    by (auto simp: type_key_def)
  show ?thesis
    unfolding k [OF assms(2,3)] k [OF assms(3,2)] k [OF assms(3,4)] k [OF assms(2,4)] e [symmetric]
    by (auto split: if_splits)
qed

lemma compareTypes_total_witness:
  "compareTypes (mustType ''Scalar'') (mustType ''Word'' :: nat ptr)
    = - compareTypes (mustType ''Word'') (mustType ''Scalar'' :: nat ptr)"
  using compareTypes_total [OF start_lattice, of "mustType ''Word''" "mustType ''Scalar''"
      "mustType ''Scalar''"] known_types' by blast

text \<open>C27: lowestCommonAncestor never dereferences nil on the types of a running program that
  are not, and do not stand on, a type parameter moved under its bound, and its result is the lowest
  common ancestor: nil exactly when the two chains share no type, otherwise a type that lies on both
  chains and below which every other common ancestor is found.  (AttachGenBound moves a
  parameter without correcting its cached depth, from which the walk starts.)\<close>

theorem LCA_correct:
  assumes "lattice_state c g tb M A" and "x \<in> set (nodes_of tb) \<union> M" "y \<in> set (nodes_of tb) \<union> M"
    and "set (idchain x) \<inter> A = {}" "set (idchain y) \<inter> A = {}"
  shows "\<exists>r. lowestCommonAncestor (Some x) (Some y) = go_ok r \<and> lowest_common x y r"
  by (rule LCA_lowest [OF lattice_state_facts(1,2) [OF assms(1)] assms(2-5)])

lemma LCA_correct_witness:
  "\<exists>r. lowestCommonAncestor (Some (mustType ''Scalar/Boolean'' :: nat ptr))
      (Some (mustType ''Scalar/Number/Integer'')) = go_ok r \<and>
    lowest_common (mustType ''Scalar/Boolean'') (mustType ''Scalar/Number/Integer'') r"
  using LCA_correct [OF start_lattice, of "mustType ''Scalar/Boolean''"
      "mustType ''Scalar/Number/Integer''"] known_types' by blast

text \<open>A parameter moved under a bound as deep as its old place has no common ancestor with its bound, and
  one moved under a root makes the walk run off the chain.\<close>

definition depth_node :: "string \<Rightarrow> nat \<Rightarrow> int \<Rightarrow> nat ptr option \<Rightarrow> nat ptr" where
  "depth_node i a d q = Ptr a (Val i None q (Some (Meta (Suc a) i DefaultBehavior 0 0 d 0 0 [] None))
     None None None None None no_flags)"

lemma moved_parameter_loses_its_bound:
  "let top = depth_node ''a'' 1 1 None; bound = depth_node ''b'' 3 2 (Some top);
       param = AttachGenBound None (depth_node ''t'' 5 2 (Some top)) (Some bound)
   in IsAncestor param bound \<and> lowestCommonAncestor (Some param) (Some bound) = go_ok None"
  by code_simp

lemma moved_parameter_walks_off:
  "let top = depth_node ''a'' 1 1 None; old = depth_node ''b'' 3 3 (Some (depth_node ''c'' 5 2 (Some top)));
       param = AttachGenBound None (depth_node ''t'' 7 4 (Some old)) (Some top)
   in lowestCommonAncestor (Some param) (Some top) = go_panics NilDereference"
  by code_simp

section \<open>Identities\<close>

text \<open>Any run of mints by tables that draw from one shared counter (a program, its
  module registries and its concurrent forks, in any order) yields pairwise distinct
  identities, up to the 2^64 values of the counter.\<close>

theorem mints_distinct:
  assumes "\<forall>(tt, p) \<in> set rs. seq tt = Some c" and "length rs < 2 ^ 64"
  shows "distinct (fst (mint_run g rs))"
  by (rule mint_run_distinct [OF assms])

lemma mints_distinct_witness:
  "distinct (fst (mint_run initial_globals
     [(empty_builtin_table\<lparr>seq := Some 3\<rparr> :: nat TypeTable, None),
      (empty_builtin_table\<lparr>seq := Some 3, tt_addr := 9\<rparr>, None)]))"
  using mints_distinct [of "[(empty_builtin_table\<lparr>seq := Some 3\<rparr> :: nat TypeTable, None),
      (empty_builtin_table\<lparr>seq := Some 3, tt_addr := 9\<rparr>, None)]" 3 initial_globals] by simp

text \<open>A rollback clone copies the counter: whatever is minted in the clone (and by any
  table sharing the clone's counter), the original's next identity is the one it would have
  minted had the sandbox never run.\<close>

theorem clone_replays:
  assumes "Clone g (Some tt) = (g', Some cl)" and "seq tt = Some c" "c < next_addr g"
    and "\<forall>(u, p) \<in> set rs. seq u = seq cl"
  shows "snd (snd (mintID (snd (mint_run g' rs)) tt parent)) = snd (snd (mintID g tt parent)) \<and>
    snd (snd (mintID g' cl parent)) = snd (snd (mintID g tt parent))"
proof -
  note cl = Clone_seq [OF assms(1)]
  have ne: "c \<noteq> Suc (next_addr g)" using assms(3) by simp
  have "cell (snd (mint_run g' rs)) c = cell g' c"
    using assms(4) ne by (intro mint_run_other_cell) (auto simp: cl(1))
  also have "\<dots> = cell g c" using cl(3) [OF ne] .
  finally have "snd (snd (mintID (snd (mint_run g' rs)) tt parent)) = snd (snd (mintID g tt parent))"
    by (simp add: mintID_Some [OF assms(2)])
  moreover have "snd (snd (mintID g' cl parent)) = snd (snd (mintID g tt parent))"
    using cl(2) ne by (simp add: mintID_Some [OF assms(2)] mintID_Some [OF cl(1)] assms(2))
  ultimately show ?thesis by blast
qed

lemma clone_replays_witness:
  "let g = initial_globals\<lparr>next_addr := 5\<rparr>; tt = (empty_builtin_table :: nat TypeTable)\<lparr>seq := Some 3\<rparr>;
       (g', cl) = Clone g (Some tt)
   in snd (snd (mintID (snd (mint_run g' [(the cl, None), (the cl, None)])) tt None))
        = snd (snd (mintID g tt None))"
proof -
  let ?g = "initial_globals\<lparr>next_addr := 5\<rparr>"
  let ?tt = "(empty_builtin_table :: nat TypeTable)\<lparr>seq := Some 3\<rparr>"
  obtain g' cl where c: "Clone ?g (Some ?tt) = (g', Some cl)"
    by (simp add: Clone_def split_beta Let_def)
  show ?thesis
    using clone_replays [OF c, of 3 "[(cl, None), (cl, None)]" None] by (simp add: c)
qed

text \<open>ReadmitRetired undoes retirements and keeps mints: afterwards an identity resolves
  to its live type if it has one and to the snapshot's type otherwise, and the count it
  returns is the number of snapshot identities that had been retired.\<close>

theorem readmit_union:
  assumes "gm_ok snap" and "readmitRetired (Some tt) (Some snap) = (Some tt', n)"
  shows "(\<forall>i. gm_get (byID tt') i =
      (case gm_get (byID tt) i of Some d \<Rightarrow> Some d | None \<Rightarrow> gm_get snap i)) \<and>
    n = int (card (missing (byID tt) snap))"
proof -
  have d: "distinct (gm_keys snap)" using assms(1) by (simp add: gm_ok_def gm_keys_def)
  have e: "byID tt' = fst (fold readmit_step snap (byID tt, 0))"
    "n = snd (fold readmit_step snap (byID tt, 0))"
    using assms(2) by (auto simp: readmitRetired_def made_def split_beta Let_def)
  show ?thesis
    using readmit_fold [OF d, of "byID tt" 0] by (simp_all add: e gm_get_def [of snap] split: option.splits)
qed

definition sample_node :: "string \<Rightarrow> nat ptr" where
  "sample_node i = Ptr 7 (Val i None None None None None None None None no_flags)"

lemma readmit_union_witness:
  "let tt = empty_builtin_table\<lparr>byID := [(''b'', sample_node ''b'')]\<rparr>;
       snap = [(''a'', sample_node ''a''), (''b'', sample_node ''c'')];
       tt' = the (fst (readmitRetired (Some tt) (Some snap)))
   in gm_get (byID tt') ''a'' = Some (sample_node ''a'') \<and>
      gm_get (byID tt') ''b'' = Some (sample_node ''b'')"
proof -
  let ?tt = "empty_builtin_table\<lparr>byID := [(''b'', sample_node ''b'')]\<rparr>"
  let ?snap = "[(''a'', sample_node ''a''), (''b'', sample_node ''c'')]"
  obtain tt' n where r: "readmitRetired (Some ?tt) (Some ?snap) = (Some tt', n)"
    by (simp add: readmitRetired_def split_beta Let_def)
  have "gm_ok ?snap" by (simp add: gm_ok_def)
  from readmit_union [OF this r] show ?thesis
    by (simp add: r gm_get_def)
qed

text \<open>RegisterType succeeds exactly on a registrable path: a non-empty owner, a
  well-formed path whose parent is registered, a path and a number not in use.  Then the
  new type carries the given number, owner and parent, is found under its identity, its path
  and its name, and no other identity or path changes.\<close>

theorem register_type:
  "(case RegisterType g tt path fid owner b of
      Inl e \<Rightarrow> \<not> registrable tt path fid owner
    | Inr (g', tt', def) \<Rightarrow>
        registrable tt path fid owner \<and>
        ID (deref def) = formatFixedID path fid \<and> FixedID (deref def) = fid \<and>
        OwnerID (deref def) = owner \<and> parent_of def = path_parent tt path \<and>
        Name (deref def) = last (go_split (CHR ''/'') path) \<and>
        Rank (deref def) = externalBandFor (path_parent tt path) \<and>
        (\<forall>i. gm_get (byID tt') i =
          (if i = formatFixedID path fid then Some def else gm_get (byID tt) i)) \<and>
        (\<forall>q. nm_get (bypath tt') q = (if q = path then Some def else nm_get (bypath tt) q)) \<and>
        (\<forall>n. gm_get (byName tt') n = (if n = Name (deref def) then Some def else gm_get (byName tt) n)))"
proof (cases "registrable tt path fid owner")
  case True
  then show ?thesis
    using RegisterType_ok [OF True, of g b]
    by (auto simp: registered_node_def meta_access_defs externalBandFor_def nilp_def split: option.splits)
next
  case False
  then show ?thesis using RegisterType_refused [OF False, of g b] by auto
qed

section \<open>The builtin table and its paths\<close>

lemma well_known_declared:
  "list_all (\<lambda>(c, path). path \<in> set (map d_Path builtinDecls)) well_known"
  by code_simp

lemma must_ok: "path \<in> d_Path ` set builtinDecls \<Longrightarrow>
    mustBuiltinType g (Builtin :: 'p TypeTable) path = (g, mustType path)"
  using mustType_found(1) [where 'p = 'p] by (auto simp: mustBuiltinType_def)

lemma resolve_known:
  assumes "list_all (\<lambda>(c, path). path \<in> set (map d_Path builtinDecls)) cs"
  shows "resolve_well_known g (Builtin :: 'p TypeTable) cs = (g, map (\<lambda>(c, path). (c, mustType path)) cs)"
proof -
  have "fold (\<lambda>(c, path) (g, ts). let (g, p) = mustBuiltinType g (Builtin :: 'p TypeTable) path
        in (g, ts @ [(c, p)])) cs (g, ts)
      = (g, ts @ map (\<lambda>(c, path). (c, mustType path)) cs)" for ts
    using assms by (induction cs arbitrary: ts) (auto simp: must_ok)
  then show ?thesis by (simp add: resolve_well_known_def)
qed

text \<open>The package initialises without an error: no declaration of builtinDecls names a
  missing parent or reuses a number, and every well-known T constant resolves to the
  registered type of its path.\<close>

theorem package_init_ok:
  "BuiltinInitError (fst (package_init :: 'p globals \<times> _)) = None \<and>
   snd (package_init :: 'p globals \<times> _) = map (\<lambda>(c, path). (c, mustType path)) well_known"
proof -
  have e: "newBuiltinTypeTable = (built_globals :: 'p globals, Builtin)"
    by (simp add: Builtin_def prod_eq_iff)
  show ?thesis
    using resolve_known [OF well_known_declared, of "built_globals :: 'p globals"]
    by (simp add: package_init_def e BuiltinInitError_def built_no_errors)
qed

text \<open>The shape of the declarations the path of a type depends on.\<close>

definition decl_shape :: "builtinDecl \<Rightarrow> bool" where
  "decl_shape d \<longleftrightarrow>
    (d_FixedID d = 1 \<longleftrightarrow> d_Path d = ''Any'') \<and>
    (if d_ParentPath d \<noteq> [] then d_ParentPath d = ''Any'' \<and> CHR ''/'' \<notin> set (d_Path d)
     else decl_parent_path d \<noteq> Some ''Any'')"

lemma decl_shapes: "\<forall>d \<in> set builtinDecls. decl_shape d"
  by code_simp

lemma last_join_split:
  "length (go_split c s) > 1 \<Longrightarrow> go_join c (butlast (go_split c s)) @ [c] @ last (go_split c s) = s"
proof -
  have "\<lbrakk>ps \<noteq> []; length ps > 1\<rbrakk> \<Longrightarrow> go_join c (butlast ps) @ [c] @ last ps = go_join c ps" for ps
  proof (induction ps rule: induct_list012)
    case (3 x y zs)
    then show ?case by (cases zs) (auto simp: go_join_Cons)
  qed auto
  from this [of "go_split c s"] show "length (go_split c s) > 1 \<Longrightarrow> ?thesis" by simp
qed

lemma single_part: "\<not> length (go_split c s) > 1 \<Longrightarrow> last (go_split c s) = s"
proof -
  assume "\<not> length (go_split c s) > 1"
  then have "length (go_split c s) = 1" using go_split_not_Nil [of c s] by (cases "go_split c s") auto
  then obtain p where p: "go_split c s = [p]" by (auto simp: length_Suc_conv)
  then have "s = p" using go_join_split [of c s] by simp
  with p show ?thesis by simp
qed

lemma Path_declared:
  fixes p :: "'p ptr"
  shows "\<lbrakk>d \<in> set builtinDecls; p = mustType (d_Path d)\<rbrakk> \<Longrightarrow> Path_ptr p = d_Path d"
proof (induction p arbitrary: d rule: ptr_induct)
  case (step p)
  note f = mustType_found [OF step.prems(1), where 'p = 'p, folded step.prems(2)]
  note sh = decl_shapes [rule_format, OF step.prems(1)]
  show ?case
  proof (cases "decl_parent_path d")
    case None
    then have "\<not> length (go_split (CHR ''/'') (d_Path d)) > 1"
      by (auto simp: decl_parent_path_def Let_def split: if_splits)
    then show ?thesis using None f(4,6) single_part by (subst Path_ptr.simps) simp
  next
    case (Some q)
    then obtain e where e: "e \<in> set builtinDecls" "d_Path e = q"
      using decl_parent_declared [OF step.prems(1)] by blast
    have par: "parent_of p = Some (mustType q)" using Some f(6) by simp
    have any: "FixedID (deref (mustType q :: 'p ptr)) = anyFixedID \<longleftrightarrow> q = ''Any''"
      using mustType_found(5) [OF e(1), where 'p = 'p] decl_shapes e
      by (auto simp: decl_shape_def anyFixedID_def)
    have IH: "Path_ptr (mustType q :: 'p ptr) = q"
      using step.IH [OF par e(1)] e(2) by simp
    show ?thesis
    proof (cases "d_ParentPath d = []")
      case True
      then have q: "length (go_split (CHR ''/'') (d_Path d)) > 1"
          "q = go_join (CHR ''/'') (butlast (go_split (CHR ''/'') (d_Path d)))"
        using Some by (auto simp: decl_parent_path_def Let_def split: if_splits)
      have "q \<noteq> ''Any''" using sh True Some by (auto simp: decl_shape_def)
      then show ?thesis
        using par any IH f(4) last_join_split [OF q(1)] q(2) by (subst Path_ptr.simps) simp
    next
      case False
      then have "q = ''Any''" "CHR ''/'' \<notin> set (d_Path d)"
        using sh Some by (auto simp: decl_shape_def decl_parent_path_def)
      then show ?thesis
        using par any f(4) by (subst Path_ptr.simps) (simp add: go_split_part)
    qed
  qed
qed

text \<open>Paths round trip: every declared path is registered, the type registered under it
  has that path again (the walk up the parents stops below Any), carries the declared
  number, and is the type its identity resolves to.\<close>

theorem path_roundtrip:
  "list_all (\<lambda>d. \<exists>t. Lookup (Some (Builtin :: 'p TypeTable)) (d_Path d) = Some t \<and>
     Path (Some t) = d_Path d \<and> FixedID (deref t) = d_FixedID d \<and>
     LookupByID (Some Builtin) (formatFixedID (d_Path d) (d_FixedID d)) = Some t \<and>
     BuiltinIDForPath (Builtin :: 'p TypeTable) (d_Path d) = formatFixedID (d_Path d) (d_FixedID d))
   builtinDecls"
proof -
  have "Lookup (Some (Builtin :: 'p TypeTable)) (d_Path d) = Some (mustType (d_Path d)) \<and>
     Path (Some (mustType (d_Path d) :: 'p ptr)) = d_Path d \<and>
     FixedID (deref (mustType (d_Path d) :: 'p ptr)) = d_FixedID d \<and>
     LookupByID (Some (Builtin :: 'p TypeTable)) (formatFixedID (d_Path d) (d_FixedID d))
       = Some (mustType (d_Path d)) \<and>
     BuiltinIDForPath (Builtin :: 'p TypeTable) (d_Path d) = formatFixedID (d_Path d) (d_FixedID d)"
    if "d \<in> set builtinDecls" for d
    using mustType_found [OF that, where 'p = 'p] Path_declared [OF that, where 'p = 'p]
      table_inv_lookup [OF Builtin_inv [where 'p = 'p] mustType_found(2) [OF that]]
    by (simp add: Lookup_def LookupByID_def Path_def BuiltinIDForPath_def)
  then show ?thesis unfolding list_all_iff by blast
qed

end
