(* ===== verification/Floats.thy ===== *)
theory Floats
  imports Boru_Prelude Complex_Main
begin

text \<open>
  The float64 arithmetic of the capacity computations, on finite positive
  values: a value is a rational, and every operation rounds its exact result to
  53 significant bits, ties to even.  Overflow to infinity, subnormals and NaN do
  not occur on the paths modelled (a product that is too large is only compared,
  and compares as a large rational does).  Conversion to a 64-bit integer
  truncates; out of range it yields the most negative integer, as amd64 does
  (the language leaves the value to the implementation).
\<close>

function bitlen :: "int \<Rightarrow> int" where
  "bitlen n = (if n \<le> 0 then 0 else 1 + bitlen (n div 2))"
  by auto
termination by (relation "measure nat") auto

declare bitlen.simps [simp del]

definition pow2 :: "int \<Rightarrow> rat" where
  "pow2 k = (if k \<ge> 0 then 2 ^ nat k else 1 / 2 ^ nat (- k))"

definition ilog2 :: "rat \<Rightarrow> int" where
  "ilog2 x = (case quotient_of x of (p, q) \<Rightarrow>
    let k = bitlen p - bitlen q
    in if x \<ge> pow2 k then k else k - 1)"

definition round_half_even :: "rat \<Rightarrow> int" where
  "round_half_even x =
    (let n = \<lfloor>x\<rfloor>; r = x - of_int n
     in if r < 1 / 2 then n else if r > 1 / 2 then n + 1 else if even n then n else n + 1)"

definition fl_pos :: "rat \<Rightarrow> rat" where
  "fl_pos x = (let e = ilog2 x - 52 in of_int (round_half_even (x / pow2 e)) * pow2 e)"

definition fl :: "rat \<Rightarrow> rat" where
  "fl x = (if x = 0 then 0 else if x < 0 then - fl_pos (- x) else fl_pos x)"

definition fmul :: "rat \<Rightarrow> rat \<Rightarrow> rat" where
  "fmul x y = fl (x * y)"

definition fdiv :: "rat \<Rightarrow> rat \<Rightarrow> rat" where
  "fdiv x y = fl (x / y)"

definition trunc :: "rat \<Rightarrow> int" where
  "trunc x = (if x < 0 then - \<lfloor>- x\<rfloor> else \<lfloor>x\<rfloor>)"

definition float_to_int :: "rat \<Rightarrow> int" where
  "float_to_int x =
    (if - (2 ^ 63) \<le> trunc x \<and> trunc x < 2 ^ 63 then trunc x else - (2 ^ 63))"

text \<open>Addition of 64-bit integers.\<close>

definition add64 :: "int \<Rightarrow> int \<Rightarrow> int" where
  "add64 a b = sint (word_of_int (a + b) :: 64 word)"

lemma add64_in_range:
  assumes "- (2 ^ 63) \<le> a + b" "a + b < 2 ^ 63"
  shows "add64 a b = a + b"
proof -
  have "sint (word_of_int k :: 64 word) = signed_take_bit 63 k" for k
    using sint_sbintrunc' [where 'a = 64, of k] by simp
  then show ?thesis
    unfolding add64_def using assms signed_take_bit_int_eq_self [of 63 "a + b"] by (simp only:)
qed

end
