(* ===== verification/Slices.thy ===== *)
theory Slices
  imports Boru_Prelude
begin

text \<open>Go slices as lists: sub-slices, \<open>copy\<close>, and cutting a list at given points.\<close>

text \<open>
  \<open>copy(dst[k:], src)\<close>: as much of \<open>src\<close> as fits.  \<open>slice a b\<close> is \<open>s[a:b]\<close>.
\<close>

definition go_copy :: "nat \<Rightarrow> 'a list \<Rightarrow> 'a list \<Rightarrow> 'a list" where
  "go_copy k src dst =
    take k dst @ take (length dst - k) src @ drop (k + length src) dst"

definition slice :: "nat \<Rightarrow> nat \<Rightarrow> 'a list \<Rightarrow> 'a list" where
  "slice a b s = drop a (take b s)"

lemma length_go_copy [simp]: "k \<le> length dst \<Longrightarrow> length (go_copy k src dst) = length dst"
  by (simp add: go_copy_def)

lemma length_slice [simp]: "length (slice a b s) = min (length s) b - a"
  by (simp add: slice_def)

lemma slice_append3: "length a = i \<Longrightarrow> length b = j - i \<Longrightarrow> i \<le> j \<Longrightarrow> slice i j (a @ b @ c) = b"
  by (simp add: slice_def)

lemma go_copy_at:
  "\<lbrakk>length a = k; length b = length src\<rbrakk> \<Longrightarrow> go_copy k src (a @ b @ c) = a @ src @ c"
  by (simp add: go_copy_def)

text \<open>Cutting a list at two or three points.\<close>

lemma cut3:
  assumes "i \<le> j" "j \<le> length s"
  shows "\<exists>a b c. s = a @ b @ c \<and> length a = i \<and> length b = j - i \<and> length c = length s - j"
proof -
  have "s = take i s @ take (j - i) (drop i s) @ drop (j - i) (drop i s)"
    by (simp only: append_take_drop_id)
  moreover have "length (drop (j - i) (drop i s)) = length s - j" using assms by simp
  moreover have "length (take i s) = i" "length (take (j - i) (drop i s)) = j - i"
    using assms by auto
  ultimately show ?thesis by blast
qed

end
