(* ===== verification/Tape.thy ===== *)
theory Tape
  imports Type_Names Floats Slices
begin

text \<open>
  The engine's gap-buffer tape (core/go/tape.go): bounded growth, the gap, every
  edit and read.  A slice is a list, so the capacity of the buffer is the length
  of the list; index arguments are integers (they may be negative or past the
  end), the gap bounds are naturals.
\<close>

section \<open>State\<close>

text \<open>A capacity warning as passed to the sink: percentage, ceiling, capacity.\<close>

datatype TapeWarning = TapeWarning nat int int

record 'p Tape =
  buf :: "'p val list"
  gapStart :: nat
  gapEnd :: nat
  forwards :: int
  maxCap :: int
  maxGrows :: int
  grows0 :: int
  factor :: rat
  exhausted :: bool
  warned :: "bool list"
  warn :: "TapeWarning list option"

text \<open>The sink \<open>warn\<close> is nil or the list of the warnings it has received.\<close>

definition DefaultTapeMaxGrows :: int where "DefaultTapeMaxGrows = 6"

definition DefaultTapeGrowthFactor :: rat where "DefaultTapeGrowthFactor = fl (27 / 10)"

definition DefaultTapeInitialFloor :: int where "DefaultTapeInitialFloor = 1024"

definition maxIntCap :: int where "maxIntCap = 2 ^ 28"

definition StackHeadroom :: int where "StackHeadroom = 8"

record TapeConfig =
  InitialSize :: int
  MaxGrows :: int
  GrowthFactor :: rat

section \<open>Construction\<close>

definition Resolve :: "TapeConfig \<Rightarrow> int \<Rightarrow> int \<times> int \<times> rat" where
  "Resolve c progLen =
    (let mg = (if MaxGrows c \<le> 0 then DefaultTapeMaxGrows else MaxGrows c);
         fac = (if GrowthFactor c \<le> 1 then DefaultTapeGrowthFactor else GrowthFactor c);
         initial = InitialSize c;
         initial = (if initial \<le> 0 then
             (let initial = progLen + StackHeadroom
              in if initial < DefaultTapeInitialFloor then DefaultTapeInitialFloor else initial)
           else initial);
         initial = (if initial < progLen then progLen else initial)
     in (initial, mg, fac))"

fun ceil_loop :: "nat \<Rightarrow> rat \<Rightarrow> rat \<Rightarrow> rat" where
  "ceil_loop 0 fac ceil = ceil"
| "ceil_loop (Suc n) fac ceil = ceil_loop n fac (fmul ceil fac)"

definition GrowthCeiling :: "int \<Rightarrow> int \<Rightarrow> rat \<Rightarrow> int" where
  "GrowthCeiling initial mg fac =
    (let ceil = ceil_loop (nat mg) fac (fl (of_int initial));
         capped = (if ceil < of_int maxIntCap then float_to_int ceil else maxIntCap)
     in if capped < initial then initial else capped)"

definition countForwards :: "'p val list \<Rightarrow> int" where
  "countForwards vals = fold (\<lambda>v n. if IsForward v then n + 1 else n) vals 0"

definition NewTapeWith :: "'p val list \<Rightarrow> TapeConfig \<Rightarrow> TapeWarning list option \<Rightarrow> 'p Tape" where
  "NewTapeWith vals cfg w =
    (case Resolve cfg (int (length vals)) of (initial, mg, fac) \<Rightarrow>
      \<lparr> buf = go_copy 0 vals (replicate (nat initial) zero_Value),
        gapStart = length vals, gapEnd = nat initial, forwards = countForwards vals,
        maxCap = GrowthCeiling initial mg fac, maxGrows = mg, grows0 = mg, factor = fac,
        exhausted = False, warned = [False, False, False], warn = w \<rparr>)"

definition NewTape :: "'p val list \<Rightarrow> int \<Rightarrow> 'p Tape" where
  "NewTape vals headroom =
    (let headroom = (if headroom < 0 then 0 else headroom)
     in NewTapeWith vals \<lparr> InitialSize = int (length vals) + headroom, MaxGrows = 0,
          GrowthFactor = 0 \<rparr> None)"

definition Reload :: "'p Tape \<Rightarrow> 'p val list \<Rightarrow> bool \<times> 'p Tape" where
  "Reload t vals =
    (if length (buf t) < length vals then (False, t)
     else let n = length (buf t) in
       (True, t\<lparr> buf := vals @ replicate (n - length vals) zero_Value,
          gapStart := length vals, gapEnd := n, forwards := countForwards vals,
          maxGrows := grows0 t, exhausted := False, warned := [False, False, False] \<rparr>))"

section \<open>Reads\<close>

definition Cap :: "'p Tape \<Rightarrow> int" where "Cap t = int (length (buf t))"

definition Len :: "'p Tape \<Rightarrow> int" where
  "Len t = int (length (buf t)) - (int (gapEnd t) - int (gapStart t))"

definition hasForward :: "'p Tape option \<Rightarrow> bool" where
  "hasForward t = (case t of None \<Rightarrow> False | Some t \<Rightarrow> forwards t > 0)"

definition phys :: "'p Tape \<Rightarrow> int \<Rightarrow> int" where
  "phys t i = (if i < int (gapStart t) then i else i + (int (gapEnd t) - int (gapStart t)))"

definition At :: "'p Tape \<Rightarrow> int \<Rightarrow> 'p val" where
  "At t i = (if i < 0 \<or> i \<ge> Len t then zero_Value else buf t ! nat (phys t i))"

section \<open>Edits\<close>

definition Set :: "'p Tape \<Rightarrow> int \<Rightarrow> 'p val \<Rightarrow> 'p Tape" where
  "Set t i v =
    (if i < 0 \<or> i \<ge> Len t then t
     else let p = nat (phys t i);
              f = forwards t;
              f = (if IsForward (buf t ! p) then f - 1 else f);
              f = (if IsForward v then f + 1 else f)
          in t\<lparr> forwards := f, buf := (buf t)[p := v] \<rparr>)"

text \<open>\<open>zero(buf[a:b])\<close>.\<close>

definition zero_range :: "nat \<Rightarrow> nat \<Rightarrow> 'p val list \<Rightarrow> 'p val list" where
  "zero_range a b s = take a s @ replicate (b - a) zero_Value @ drop b s"

definition clamp :: "'p Tape \<Rightarrow> int \<Rightarrow> int" where
  "clamp t i = (let i = (if i < 0 then 0 else i) in if i > Len t then Len t else i)"

definition MoveGap :: "'p Tape \<Rightarrow> int \<Rightarrow> 'p Tape" where
  "MoveGap t i0 =
    (let i = nat (clamp t i0); gs = gapStart t; ge = gapEnd t in
     if i < gs then
       let n = gs - i;
           b = go_copy (ge - n) (slice i gs (buf t)) (buf t);
           b = zero_range i (i + min n (ge - gs)) b
       in t\<lparr> buf := b, gapStart := i, gapEnd := ge - n \<rparr>
     else if i > gs then
       let n = i - gs;
           b = go_copy gs (slice ge (ge + n) (buf t)) (buf t);
           b = zero_range (max ge (gs + n)) (ge + n) b
       in t\<lparr> buf := b, gapStart := i, gapEnd := ge + n \<rparr>
     else t)"

definition thresholds :: "(nat \<times> rat) list" where
  "thresholds = [(90, fl (9 / 10)), (95, fl (95 / 100)), (99, fl (99 / 100))]"

text \<open>One pass of the loop over the thresholds: (index, (percent, threshold)).\<close>

definition warn_step :: "rat \<Rightarrow> nat \<times> nat \<times> rat \<Rightarrow> 'p Tape \<Rightarrow> 'p Tape" where
  "warn_step ratio = (\<lambda>(i, pct, th) t.
    if \<not> warned t ! i \<and> ratio \<ge> th then
      t\<lparr> warned := (warned t)[i := True],
         warn := map_option (\<lambda>l. l @ [TapeWarning pct (maxCap t) (int (length (buf t)))]) (warn t) \<rparr>
    else t)"

definition maybeWarn :: "'p Tape \<Rightarrow> 'p Tape" where
  "maybeWarn t =
    (if nilp (warn t) \<or> maxCap t \<le> 0 then t
     else let ratio = fdiv (of_int (int (length (buf t)))) (of_int (maxCap t))
          in fold (warn_step ratio) (enumerate 0 thresholds) t)"

definition grow :: "'p Tape \<Rightarrow> nat \<Rightarrow> bool \<times> 'p Tape" where
  "grow t need =
    (let cap = int (length (buf t)); gap = int (gapEnd t) - int (gapStart t) in
     if gap \<ge> int need then (True, t)
     else if maxGrows t \<le> 0 \<or> cap \<ge> maxCap t then (False, t\<lparr>exhausted := True\<rparr>)
     else let newCap = add64 (float_to_int (fmul (of_int cap) (factor t))) (int need);
              newCap = (if newCap > maxCap t then maxCap t else newCap)
          in if newCap - (cap - gap) < int need then (False, t\<lparr>exhausted := True\<rparr>)
          else let nb = replicate (nat newCap) zero_Value;
                   nb = go_copy 0 (take (gapStart t) (buf t)) nb;
                   tail = length (buf t) - gapEnd t;
                   nb = go_copy (nat newCap - tail) (drop (gapEnd t) (buf t)) nb
               in (True, maybeWarn (t\<lparr> buf := nb, gapEnd := nat newCap - tail,
                     maxGrows := maxGrows t - 1 \<rparr>)))"

definition Insert :: "'p Tape \<Rightarrow> int \<Rightarrow> 'p val \<Rightarrow> 'p Tape" where
  "Insert t i v =
    (let t = MoveGap t (clamp t i) in
     case grow t 1 of
       (False, t) \<Rightarrow> t
     | (True, t) \<Rightarrow>
         t\<lparr> buf := (buf t)[gapStart t := v], gapStart := gapStart t + 1,
            forwards := (if IsForward v then forwards t + 1 else forwards t) \<rparr>)"

definition Remove :: "'p Tape \<Rightarrow> int \<Rightarrow> 'p Tape" where
  "Remove t i =
    (if i < 0 \<or> i \<ge> Len t then t
     else let t = MoveGap t i in
       t\<lparr> forwards := (if IsForward (buf t ! gapEnd t) then forwards t - 1 else forwards t),
          buf := (buf t)[gapEnd t := zero_Value], gapEnd := gapEnd t + 1 \<rparr>)"

text \<open>The loop that consumes \<open>count\<close> cells after the gap.\<close>

definition consume :: "nat \<Rightarrow> 'p Tape \<Rightarrow> 'p Tape" where
  "consume count t =
    (let t = fold (\<lambda>k t. t\<lparr>
         forwards := (if IsForward (buf t ! (gapEnd t + k)) then forwards t - 1 else forwards t),
         buf := (buf t)[gapEnd t + k := zero_Value] \<rparr>) [0..<count] t
     in t\<lparr> gapEnd := gapEnd t + count \<rparr>)"

definition Splice :: "'p Tape \<Rightarrow> int \<Rightarrow> int \<Rightarrow> 'p val list \<Rightarrow> 'p Tape" where
  "Splice t i0 count0 repl =
    (let i = clamp t i0;
         count = (if count0 < 0 then 0 else count0);
         count = (if count > Len t - i then Len t - i else count);
         t = consume (nat count) (MoveGap t i)
     in case grow t (length repl) of
       (False, t) \<Rightarrow> t
     | (True, t) \<Rightarrow>
         t\<lparr> buf := go_copy (gapStart t) repl (buf t), gapStart := gapStart t + length repl,
            forwards := forwards t + countForwards repl \<rparr>)"

section \<open>Views\<close>

definition CopyRange :: "'p Tape \<Rightarrow> int \<Rightarrow> int \<Rightarrow> 'p val list" where
  "CopyRange t i j =
    (let i = (if i < 0 then 0 else i); j = (if j > Len t then Len t else j)
     in if i \<ge> j then []
        else map (\<lambda>k. buf t ! nat (phys t (i + int k))) [0..<nat (j - i)])"

definition Prefix :: "'p Tape \<Rightarrow> int \<Rightarrow> 'p val list" where
  "Prefix t end' =
    (let e = (if end' < 0 then 0 else end'); e = (if e > Len t then Len t else e)
     in if e \<le> int (gapStart t) then take (nat e) (buf t) else CopyRange t 0 e)"

definition Snapshot :: "'p Tape \<Rightarrow> 'p val list" where
  "Snapshot t = CopyRange t 0 (Len t)"

definition TakeAll :: "'p Tape \<Rightarrow> 'p val list \<times> 'p Tape" where
  "TakeAll t = (let t = MoveGap t (Len t) in (take (gapStart t) (buf t), t))"

end
