(* ===== verification/Tape_Laws.thy ===== *)
theory Tape_Laws
  imports Tape
begin

text \<open>
  The tape implements a list of cells: its invariant, its content, and each
  operation as the list operation it stands for, on every branch, growth that
  fails included.
\<close>

section \<open>Content and invariant\<close>

definition content :: "'p Tape \<Rightarrow> 'p val list" where
  "content t = take (gapStart t) (buf t) @ drop (gapEnd t) (buf t)"

definition tape_ok :: "'p Tape \<Rightarrow> bool" where
  "tape_ok t \<longleftrightarrow>
    gapStart t \<le> gapEnd t \<and> gapEnd t \<le> length (buf t) \<and>
    forwards t = countForwards (content t) \<and>
    list_all (\<lambda>c. c = zero_Value) (slice (gapStart t) (gapEnd t) (buf t)) \<and>
    length (warned t) = 3"

text \<open>The three regions of the buffer.\<close>

definition regions :: "'p Tape \<Rightarrow> 'p val list \<Rightarrow> 'p val list \<Rightarrow> 'p val list \<Rightarrow> bool" where
  "regions t a g b \<longleftrightarrow>
    buf t = a @ g @ b \<and> gapStart t = length a \<and> gapEnd t = length a + length g"

lemma regions_exist:
  "\<lbrakk>gapStart t \<le> gapEnd t; gapEnd t \<le> length (buf t)\<rbrakk> \<Longrightarrow> \<exists>a g b. regions t a g b"
proof -
  assume g: "gapStart t \<le> gapEnd t" "gapEnd t \<le> length (buf t)"
  then obtain a m b where "buf t = a @ m @ b" "length a = gapStart t" "length m = gapEnd t - gapStart t"
    using cut3 by blast
  with g have "regions t a m b" by (simp add: regions_def)
  then show ?thesis by blast
qed

lemma regions_content: "regions t a g b \<Longrightarrow> content t = a @ b"
  by (simp add: regions_def content_def)

lemma regions_gap: "regions t a g b \<Longrightarrow> slice (gapStart t) (gapEnd t) (buf t) = g"
  by (simp add: regions_def slice_def)

lemma regions_Len: "regions t a g b \<Longrightarrow> Len t = int (length a + length b)"
  by (simp add: regions_def Len_def)

lemma tape_ok_regions:
  "regions t a g b \<Longrightarrow> tape_ok t \<longleftrightarrow>
    forwards t = countForwards (a @ b) \<and> list_all (\<lambda>c. c = zero_Value) g \<and> length (warned t) = 3"
  using regions_content [of t a g b] regions_gap [of t a g b]
  by (auto simp: tape_ok_def regions_def)

lemma tape_ok_cases:
  assumes "tape_ok t"
  obtains a g b where "regions t a g b" "forwards t = countForwards (a @ b)"
    "list_all (\<lambda>c. c = zero_Value) g" "length (warned t) = 3"
  using assms regions_exist [of t] tape_ok_regions unfolding tape_ok_def by blast

lemma Len_content: "\<lbrakk>gapStart t \<le> gapEnd t; gapEnd t \<le> length (buf t)\<rbrakk> \<Longrightarrow> Len t = int (length (content t))"
  by (simp add: Len_def content_def)

lemma tape_Len: "tape_ok t \<Longrightarrow> Len t = int (length (content t))"
  by (simp add: tape_ok_def Len_content)

section \<open>Counting forwards\<close>

lemma countForwards_length: "countForwards vs = int (length (filter IsForward vs))"
proof -
  have "fold (\<lambda>v n. if IsForward v then n + 1 else n) vs k = k + int (length (filter IsForward vs))" for k
    by (induction vs arbitrary: k) auto
  then show ?thesis by (simp add: countForwards_def)
qed

lemma countForwards_append [simp]: "countForwards (a @ b) = countForwards a + countForwards b"
  by (simp add: countForwards_length)

lemma countForwards_Nil [simp]: "countForwards [] = 0"
  by (simp add: countForwards_def)

lemma countForwards_Cons [simp]:
  "countForwards (v # b) = (if IsForward v then 1 else 0) + countForwards b"
  by (simp add: countForwards_length)

lemma not_forward_zero [simp]: "\<not> IsForward zero_Value"
  by (simp add: IsForward_def zero_Value_def)

section \<open>Reads\<close>

lemma At_content:
  assumes "tape_ok t" "0 \<le> i" "i < Len t"
  shows "At t i = content t ! nat i"
proof -
  obtain a g b where r: "regions t a g b" using assms(1) by (rule tape_ok_cases)
  then have l: "i < int (length a + length b)" using assms(3) by (simp add: regions_Len)
  show ?thesis
  proof (cases "i < int (length a)")
    case True
    then show ?thesis
      using assms(2,3) r
      by (simp add: At_def phys_def regions_def regions_content [OF r] nth_append nat_less_iff)
  next
    case False
    then obtain k where k: "i = int (length a + k)" using assms(2)
      by (metis nonneg_int_cases not_less of_nat_le_iff le_add_diff_inverse)
    have "buf t ! nat (phys t i) = (a @ g @ b) ! (length a + length g + k)"
      using r False by (simp add: k phys_def regions_def nat_add_distrib add.commute add.left_commute)
    also have "\<dots> = b ! k" by (simp add: nth_append)
    finally show ?thesis
      using assms(2,3) by (simp add: At_def k regions_content [OF r] nth_append nat_add_distrib)
  qed
qed

lemma At_outside: "i < 0 \<or> i \<ge> Len t \<Longrightarrow> At t i = zero_Value"
  by (auto simp: At_def)

lemma CopyRange_content:
  assumes "tape_ok t"
  shows "CopyRange t i j = slice (nat i) (nat j) (content t)"
proof -
  have at: "buf t ! nat (phys t k) = content t ! nat k" if "0 \<le> k" "k < Len t" for k
    using At_content [OF assms that] that by (simp add: At_def)
  let ?i = "if i < 0 then 0 else i" and ?j = "if j > Len t then Len t else j"
  show ?thesis
  proof (cases "?i \<ge> ?j")
    case True
    then have "min (length (content t)) (nat j) \<le> nat i"
      using tape_Len [OF assms] by (auto split: if_splits)
    then have "slice (nat i) (nat j) (content t) = []" by (simp add: slice_def)
    then show ?thesis using True by (simp add: CopyRange_def Let_def)
  next
    case False
    have "CopyRange t i j = map (\<lambda>k. content t ! nat (?i + int k)) [0..<nat (?j - ?i)]"
      using False at tape_Len [OF assms] by (auto simp: CopyRange_def Let_def)
    also have "\<dots> = slice (nat i) (nat j) (content t)"
      using False tape_Len [OF assms]
      by (intro nth_equalityI) (auto simp: slice_def nat_add_distrib split: if_splits)
    finally show ?thesis .
  qed
qed

lemma Snapshot_content: "tape_ok t \<Longrightarrow> Snapshot t = content t"
  by (simp add: Snapshot_def CopyRange_content tape_Len slice_def)

lemma Prefix_content:
  assumes ok: "tape_ok t"
  shows "Prefix t e = take (nat e) (content t)"
proof -
  let ?e = "if (if e < 0 then 0 else e) > Len t then Len t else (if e < 0 then 0 else e)"
  have e: "take (nat ?e) (content t) = take (nat e) (content t)"
    using tape_Len [OF ok] by auto
  show ?thesis
  proof (cases "?e \<le> int (gapStart t)")
    case True
    then have "take (nat ?e) (buf t) = take (nat ?e) (content t)"
      using ok by (auto simp: content_def tape_ok_def min_def)
    with True e show ?thesis by (simp add: Prefix_def Let_def)
  next
    case False
    then have "Prefix t e = CopyRange t 0 ?e" by (simp add: Prefix_def Let_def)
    also have "\<dots> = take (nat ?e) (content t)" by (simp add: CopyRange_content [OF ok] slice_def)
    finally show ?thesis using e by simp
  qed
qed

section \<open>Moving the gap\<close>

lemma clamp_range:
  assumes "tape_ok t"
  shows "0 \<le> clamp t i" "clamp t i \<le> Len t" "nat (clamp t i) \<le> length (content t)"
  using tape_Len [OF assms] by (auto simp: clamp_def Let_def)

lemma clamp_id: "\<lbrakk>0 \<le> i; i \<le> Len t\<rbrakk> \<Longrightarrow> clamp t i = i"
  by (simp add: clamp_def)

lemma clamp_clamp [simp]: "tape_ok t \<Longrightarrow> clamp t (clamp t i) = clamp t i"
  by (simp add: clamp_id clamp_range)

lemma zero_take: "list_all (\<lambda>c. c = zero_Value) g \<Longrightarrow> list_all (\<lambda>c. c = zero_Value) (take n g)"
  "list_all (\<lambda>c. c = zero_Value) g \<Longrightarrow> list_all (\<lambda>c. c = zero_Value) (drop n g)"
  by (auto simp: list_all_iff dest: in_set_takeD in_set_dropD)

lemma zero_range_at:
  "length a = k \<Longrightarrow> l = k + length m \<Longrightarrow>
    zero_range k l (a @ m @ b) = a @ replicate (length m) zero_Value @ b"
  by (simp add: zero_range_def)

lemma MoveGap_left:
  assumes r: "regions t (a @ m) g b" and i: "nat (clamp t i) = length a" and m: "m \<noteq> []"
    and z: "list_all (\<lambda>c. c = zero_Value) g"
  shows "\<exists>g'. regions (MoveGap t i) a g' (m @ b) \<and> list_all (\<lambda>c. c = zero_Value) g' \<and>
    length g' = length g \<and> (\<exists>bf. MoveGap t i = t\<lparr>buf := bf, gapStart := length a,
      gapEnd := length a + length g\<rparr>)"
proof -
  let ?n = "length m"
  define h q where "h = take (length g) (m @ g)" and "q = drop (length g) (m @ g)"
  then have hq: "m @ g = h @ q" "length h = length g" "length q = ?n"
    by (simp_all only: append_take_drop_id) simp_all
  let ?g' = "replicate (min ?n (length g)) zero_Value @ drop (min ?n (length g)) h"
  have t: "buf t = a @ m @ g @ b" "gapStart t = length a + ?n" "gapEnd t = length a + ?n + length g"
    using r by (simp_all add: regions_def)
  have sl: "slice (length a) (length a + ?n) (a @ m @ g @ b) = m" by (simp add: slice_def)
  have e: "a @ m @ g @ b = (a @ h) @ q @ b" using hq(1) by (metis append_assoc)
  have "go_copy (length a + length g) m (a @ m @ g @ b) = (a @ h) @ m @ b"
    unfolding e by (rule go_copy_at) (simp_all add: hq)
  also have "\<dots> = a @ take (min ?n (length g)) h @ drop (min ?n (length g)) h @ m @ b" by simp
  finally have cp: "go_copy (length a + length g) m (a @ m @ g @ b) =
      a @ take (min ?n (length g)) h @ drop (min ?n (length g)) h @ m @ b" .
  have "MoveGap t i = t\<lparr>buf := a @ ?g' @ m @ b, gapStart := length a, gapEnd := length a + length g\<rparr>"
    using m hq(2) by (simp add: MoveGap_def i t sl Let_def cp zero_range_at)
  moreover have "list_all (\<lambda>c. c = zero_Value) ?g'"
    using z by (cases "?n \<le> length g") (auto simp: min_def list_all_iff h_def dest: in_set_takeD)
  ultimately show ?thesis
    using hq(2) by (intro exI [of _ ?g']) (auto simp: regions_def)
qed

lemma MoveGap_right:
  assumes r: "regions t a g (m @ b)" and i: "nat (clamp t i) = length a + length m" and m: "m \<noteq> []"
    and z: "list_all (\<lambda>c. c = zero_Value) g"
  shows "\<exists>g'. regions (MoveGap t i) (a @ m) g' b \<and> list_all (\<lambda>c. c = zero_Value) g' \<and>
    length g' = length g \<and> (\<exists>bf. MoveGap t i = t\<lparr>buf := bf, gapStart := length a + length m,
      gapEnd := length a + length m + length g\<rparr>)"
proof -
  let ?n = "length m"
  define q h where "q = take (length m) (g @ m)" and "h = drop (length m) (g @ m)"
  then have qh: "g @ m = q @ h" "length q = ?n" "length h = length g"
    by (simp_all only: append_take_drop_id) simp_all
  let ?k = "max (length g) ?n - ?n"
  let ?g' = "take ?k h @ replicate (length (drop ?k h)) zero_Value"
  have t: "buf t = a @ g @ m @ b" "gapStart t = length a" "gapEnd t = length a + length g"
    using r by (simp_all add: regions_def)
  have sl: "slice (length a + length g) (length a + length g + ?n) (a @ g @ m @ b) = m"
    by (simp add: slice_def)
  have e: "a @ g @ m @ b = a @ q @ h @ b" using qh(1) by (metis append_assoc)
  have "go_copy (length a) m (a @ g @ m @ b) = a @ m @ h @ b"
    unfolding e by (rule go_copy_at) (simp_all add: qh)
  also have "\<dots> = (a @ m @ take ?k h) @ drop ?k h @ b" by simp
  finally have cp: "go_copy (length a) m (a @ g @ m @ b) = (a @ m @ take ?k h) @ drop ?k h @ b" .
  have "zero_range (max (length a + length g) (length a + ?n)) (length a + length g + ?n)
      ((a @ m @ take ?k h) @ drop ?k h @ b)
    = (a @ m @ take ?k h) @ replicate (length (drop ?k h)) zero_Value @ b"
    by (rule zero_range_at) (use qh in auto)
  then have "MoveGap t i = t\<lparr>buf := a @ m @ ?g' @ b, gapStart := length a + ?n,
      gapEnd := length a + ?n + length g\<rparr>"
    using m by (simp add: MoveGap_def i t sl Let_def cp)
  moreover have "list_all (\<lambda>c. c = zero_Value) ?g'"
    using z by (cases "?n \<le> length g")
      (auto simp: list_all_iff max_def h_def dest: in_set_takeD in_set_dropD)
  moreover have "length ?g' = length g" using qh(3) by simp
  ultimately show ?thesis
    by (intro exI [of _ ?g']) (auto simp: regions_def)
qed

text \<open>Moving the gap leaves the content and everything but the gap position alone.\<close>

lemma MoveGap_ok:
  assumes ok: "tape_ok t"
  shows "tape_ok (MoveGap t i)" and "content (MoveGap t i) = content t"
    and "gapStart (MoveGap t i) = nat (clamp t i)"
    and "\<exists>bf ge. MoveGap t i = t\<lparr>buf := bf, gapStart := nat (clamp t i), gapEnd := ge\<rparr> \<and>
      length bf = length (buf t) \<and> ge - nat (clamp t i) = gapEnd t - gapStart t"
proof -
  obtain a g b where r: "regions t a g b" and f: "forwards t = countForwards (a @ b)"
    and z: "list_all (\<lambda>c. c = zero_Value) g" and w: "length (warned t) = 3"
    using ok by (rule tape_ok_cases)
  let ?i = "nat (clamp t i)"
  have c: "content t = a @ b" by (rule regions_content [OF r])
  have le: "?i \<le> length a + length b" using clamp_range(3) [OF ok, of i] c by simp
  have "tape_ok (MoveGap t i) \<and> content (MoveGap t i) = content t \<and> gapStart (MoveGap t i) = ?i \<and>
    (\<exists>bf ge. MoveGap t i = t\<lparr>buf := bf, gapStart := ?i, gapEnd := ge\<rparr> \<and>
      length bf = length (buf t) \<and> ge - ?i = gapEnd t - gapStart t)"
  proof (cases ?i "length a" rule: linorder_cases)
    case less
    let ?a = "take ?i a" and ?m = "drop ?i a"
    have 1: "regions t (?a @ ?m) g b" "?i = length ?a" "?m \<noteq> []" using r less by simp_all
    obtain g' bf where g': "regions (MoveGap t i) ?a g' (?m @ b)" "list_all (\<lambda>c. c = zero_Value) g'"
        "length g' = length g"
        "MoveGap t i = t\<lparr>buf := bf, gapStart := length ?a, gapEnd := length ?a + length g\<rparr>"
      using MoveGap_left [OF 1 z] by blast
    have "forwards (MoveGap t i) = forwards t" "warned (MoveGap t i) = warned t"
      unfolding g'(4) by simp_all
    moreover have "length bf = length (buf t)"
      using g'(1,3) r unfolding regions_def g'(4) by simp
    moreover have "countForwards (?a @ ?m @ b) = countForwards (a @ b)"
      by (metis append_assoc append_take_drop_id)
    moreover have "tape_ok (MoveGap t i)"
      using tape_ok_regions [OF g'(1)] calculation f w g'(2) by simp
    moreover have "content (MoveGap t i) = content t" using regions_content [OF g'(1)] c by simp
    ultimately show ?thesis
      using g'(4) 1(2) r
      by (intro conjI exI [of _ bf] exI [of _ "length ?a + length g"]) (simp_all add: regions_def)
  next
    case equal
    have "MoveGap t i = t" using r equal by (simp add: MoveGap_def regions_def Let_def)
    then show ?thesis using ok equal r by (intro conjI exI [of _ "buf t"] exI [of _ "gapEnd t"])
      (simp_all add: regions_def)
  next
    case greater
    let ?m = "take (?i - length a) b" and ?b = "drop (?i - length a) b"
    have 1: "regions t a g (?m @ ?b)" "?i = length a + length ?m" "?m \<noteq> []"
      using r greater le by auto
    obtain g' bf where g': "regions (MoveGap t i) (a @ ?m) g' ?b" "list_all (\<lambda>c. c = zero_Value) g'"
        "length g' = length g"
        "MoveGap t i = t\<lparr>buf := bf, gapStart := length a + length ?m,
          gapEnd := length a + length ?m + length g\<rparr>"
      using MoveGap_right [OF 1 z] by blast
    have "forwards (MoveGap t i) = forwards t" "warned (MoveGap t i) = warned t"
      unfolding g'(4) by simp_all
    moreover have "length bf = length (buf t)"
      using g'(1,3) 1(1) unfolding regions_def g'(4) by simp
    moreover have "countForwards ((a @ ?m) @ ?b) = countForwards (a @ b)"
      by (metis append_assoc append_take_drop_id)
    moreover have "tape_ok (MoveGap t i)"
      using tape_ok_regions [OF g'(1)] calculation f w g'(2) by simp
    moreover have "content (MoveGap t i) = content t" using regions_content [OF g'(1)] c by simp
    ultimately show ?thesis
      using g'(4) 1(2) r
      by (intro conjI exI [of _ bf] exI [of _ "length a + length ?m + length g"])
        (simp_all add: regions_def)
  qed
  then show "tape_ok (MoveGap t i)" "content (MoveGap t i) = content t"
    "gapStart (MoveGap t i) = nat (clamp t i)"
    "\<exists>bf ge. MoveGap t i = t\<lparr>buf := bf, gapStart := nat (clamp t i), gapEnd := ge\<rparr> \<and>
      length bf = length (buf t) \<and> ge - nat (clamp t i) = gapEnd t - gapStart t"
    by blast+
qed

section \<open>Growth\<close>

lemma fold_warn_step:
  "length (warned t) = 3 \<Longrightarrow>
    \<exists>w x. fold (warn_step ratio) ths t = t\<lparr>warned := w, warn := x\<rparr> \<and> length w = 3 \<and> (x = None \<longleftrightarrow> warn t = None)"
proof (induction ths arbitrary: t)
  case Nil
  show ?case by (intro exI [of _ "warned t"] exI [of _ "warn t"]) (simp add: Nil)
next
  case (Cons th ths)
  obtain w x where 1: "warn_step ratio th t = t\<lparr>warned := w, warn := x\<rparr>" "length w = 3"
      "x = None \<longleftrightarrow> warn t = None"
  proof (cases "warn_step ratio th t = t")
    case True
    then show ?thesis using Cons.prems that [of "warn t" "warned t"] by simp
  next
    case False
    then show ?thesis using Cons.prems that by (cases th) (auto simp: warn_step_def split: if_splits)
  qed
  obtain w' x' where "fold (warn_step ratio) ths (t\<lparr>warned := w, warn := x\<rparr>)
      = t\<lparr>warned := w, warn := x\<rparr>\<lparr>warned := w', warn := x'\<rparr>" "length w' = 3" "x' = None \<longleftrightarrow> x = None"
    using Cons.IH [of "t\<lparr>warned := w, warn := x\<rparr>"] 1(2) by auto
  then show ?case using 1 by (intro exI [of _ w'] exI [of _ x']) simp
qed

lemma maybeWarn_only:
  assumes "length (warned t) = 3"
  shows "\<exists>w x. maybeWarn t = t\<lparr>warned := w, warn := x\<rparr> \<and> length w = 3 \<and> (x = None \<longleftrightarrow> warn t = None)"
proof (cases "nilp (warn t) \<or> maxCap t \<le> 0")
  case True
  then show ?thesis
    using assms by (intro exI [of _ "warned t"] exI [of _ "warn t"]) (simp add: maybeWarn_def)
next
  case False
  then show ?thesis using fold_warn_step [OF assms] by (simp add: maybeWarn_def Let_def)
qed

text \<open>The capacity a successful reallocation gives the buffer.\<close>

definition grown_cap :: "'p Tape \<Rightarrow> nat \<Rightarrow> int" where
  "grown_cap t need =
    min (add64 (float_to_int (fmul (of_int (Cap t)) (factor t))) (int need)) (maxCap t)"

definition can_grow :: "'p Tape \<Rightarrow> nat \<Rightarrow> bool" where
  "can_grow t need \<longleftrightarrow>
    maxGrows t > 0 \<and> Cap t < maxCap t \<and> grown_cap t need - Len t \<ge> int need"

abbreviation gap_size :: "'p Tape \<Rightarrow> nat" where "gap_size t \<equiv> gapEnd t - gapStart t"

lemma grow_enough: "\<lbrakk>gapStart t \<le> gapEnd t; need \<le> gap_size t\<rbrakk> \<Longrightarrow> grow t need = (True, t)"
proof -
  assume "gapStart t \<le> gapEnd t" "need \<le> gap_size t"
  then have "int need \<le> int (gapEnd t) - int (gapStart t)" by linarith
  then show ?thesis by (simp add: grow_def)
qed

lemma grow_fails:
  "\<lbrakk>gapStart t \<le> gapEnd t; gap_size t < need; \<not> can_grow t need\<rbrakk> \<Longrightarrow> grow t need = (False, t\<lparr>exhausted := True\<rparr>)"
  by (auto simp: grow_def can_grow_def grown_cap_def Cap_def Len_def Let_def min_def not_less)

lemma grow_reallocates:
  assumes r: "regions t a g b" and n: "length g < need" and c: "can_grow t need"
    and w: "length (warned t) = 3"
  shows "\<exists>w x. grow t need = (True, t\<lparr>buf := a @ replicate (nat (grown_cap t need) - length a - length b) zero_Value @ b,
      gapEnd := nat (grown_cap t need) - length b, maxGrows := maxGrows t - 1, warned := w, warn := x\<rparr>)
    \<and> length w = 3"
proof -
  let ?N = "nat (grown_cap t need)"
  let ?nb = "a @ replicate (?N - length a - length b) zero_Value @ b"
  have len: "length a + length b + need \<le> ?N"
    using c regions_Len [OF r] by (simp add: can_grow_def) linarith
  have t: "buf t = a @ g @ b" "gapStart t = length a" "gapEnd t = length a + length g"
    using r by (simp_all add: regions_def)
  have cp: "go_copy (?N - length b) b (go_copy 0 a (replicate ?N zero_Value)) = ?nb"
    using len by (simp add: go_copy_def)
  have "grow t need = (True, maybeWarn (t\<lparr>buf := ?nb, gapEnd := ?N - length b, maxGrows := maxGrows t - 1\<rparr>))"
  proof -
    have cond: "maxGrows t > 0" "Cap t < maxCap t" "grown_cap t need - Len t \<ge> int need"
      using c by (auto simp: can_grow_def)
    have L: "Len t = int (length (buf t)) - (int (gapEnd t) - int (gapStart t))" by (simp add: Len_def)
    have gc: "(if add64 (float_to_int (fmul (of_int (int (length (buf t)))) (factor t))) (int need) > maxCap t
        then maxCap t else add64 (float_to_int (fmul (of_int (int (length (buf t)))) (factor t))) (int need))
      = grown_cap t need" by (auto simp: grown_cap_def Cap_def min_def)
    show ?thesis
      unfolding grow_def Let_def gc L [symmetric]
      using cond n cp by (simp add: t Cap_def)
  qed
  moreover obtain w x where "maybeWarn (t\<lparr>buf := ?nb, gapEnd := ?N - length b, maxGrows := maxGrows t - 1\<rparr>)
      = t\<lparr>buf := ?nb, gapEnd := ?N - length b, maxGrows := maxGrows t - 1\<rparr>\<lparr>warned := w, warn := x\<rparr>" "length w = 3"
    using maybeWarn_only [of "t\<lparr>buf := ?nb, gapEnd := ?N - length b, maxGrows := maxGrows t - 1\<rparr>"] w by auto
  ultimately show ?thesis by auto
qed

text \<open>Growth never changes the content; it latches exhaustion or makes the room asked for.\<close>

definition fits :: "'p Tape \<Rightarrow> nat \<Rightarrow> bool" where
  "fits t need \<longleftrightarrow> need \<le> gap_size t \<or> can_grow t need"

lemma grow_ok:
  assumes ok: "tape_ok t" and gr: "grow t need = (b, t')"
  shows "tape_ok t' \<and> content t' = content t \<and> gapStart t' = gapStart t \<and> maxCap t' = maxCap t \<and>
    (b \<longleftrightarrow> fits t need) \<and> (b \<longrightarrow> need \<le> gap_size t' \<and> exhausted t' = exhausted t) \<and>
    (\<not> b \<longrightarrow> t' = t\<lparr>exhausted := True\<rparr>) \<and> Cap t' \<le> max (Cap t) (maxCap t) \<and>
    maxGrows t' = (if Cap t' = Cap t \<and> gap_size t' = gap_size t then maxGrows t else maxGrows t - 1)"
proof -
  have le: "gapStart t \<le> gapEnd t" using ok by (simp add: tape_ok_def)
  obtain a g r where R: "regions t a g r" and f: "forwards t = countForwards (a @ r)"
    and w: "length (warned t) = 3"
    using ok by (rule tape_ok_cases)
  consider "need \<le> gap_size t" | "gap_size t < need" "\<not> can_grow t need" | "gap_size t < need" "can_grow t need"
    by linarith
  then show ?thesis
  proof cases
    case 1
    then show ?thesis using gr ok grow_enough [OF le 1] by (auto simp: fits_def)
  next
    case 2
    then have "t' = t\<lparr>exhausted := True\<rparr>" "\<not> b" using gr grow_fails [OF le 2] by auto
    then show ?thesis using ok 2 by (auto simp: tape_ok_def content_def fits_def Cap_def)
  next
    case 3
    let ?N = "nat (grown_cap t need)"
    let ?g = "replicate (?N - length a - length r) zero_Value"
    have gl: "length g = gap_size t" using R by (simp add: regions_def)
    obtain w' x where e: "b" "t' = t\<lparr>buf := a @ ?g @ r, gapEnd := ?N - length r, maxGrows := maxGrows t - 1,
        warned := w', warn := x\<rparr>" "length w' = 3"
      using grow_reallocates [OF R _ 3(2) w] 3(1) gl gr by auto
    have len: "length a + length r + need \<le> ?N"
      using 3(2) regions_Len [OF R] by (simp add: can_grow_def) linarith
    have "gapStart t = length a" using R by (simp add: regions_def)
    then have R': "regions t' a ?g r" using len by (simp add: regions_def e(2))
    have "int ?N \<le> maxCap t" using len 3(1) by (auto simp: grown_cap_def)
    moreover have "Cap t' = int ?N" using len by (simp add: Cap_def e(2))
    moreover have "gap_size t' \<noteq> gap_size t"
      using 3(1) len R' by (simp add: regions_def)
    moreover have "tape_ok t'"
      unfolding tape_ok_regions [OF R'] using f e(3) by (simp add: e(2) list_all_iff)
    moreover have "content t' = content t"
      using regions_content [OF R'] regions_content [OF R] by simp
    moreover have "gapStart t' = gapStart t" "maxCap t' = maxCap t" "exhausted t' = exhausted t"
      "maxGrows t' = maxGrows t - 1" by (simp_all add: e(2))
    moreover have "need \<le> gap_size t'" using R' len by (simp add: regions_def)
    ultimately show ?thesis using e(1) 3(2) by (simp add: fits_def)
  qed
qed

section \<open>Edits\<close>

lemma filter_update:
  "i < length c \<Longrightarrow> int (length (filter P (c[i := v]))) =
    int (length (filter P c)) - (if P (c ! i) then 1 else 0) + (if P v then 1 else 0)"
proof -
  assume i: "i < length c"
  have "filter P (c[i := v]) = filter P (take i c) @ filter P [v] @ filter P (drop (Suc i) c)"
    using i by (simp add: upd_conv_take_nth_drop)
  moreover have "filter P c = filter P (take i c) @ filter P [c ! i] @ filter P (drop (Suc i) c)"
    using i by (metis append_Cons append_Nil filter_append id_take_nth_drop)
  ultimately show ?thesis by simp
qed

lemma countForwards_update:
  "i < length c \<Longrightarrow> countForwards (c[i := v]) =
    countForwards c - (if IsForward (c ! i) then 1 else 0) + (if IsForward v then 1 else 0)"
  by (simp add: countForwards_length filter_update)

lemma Set_ok:
  assumes ok: "tape_ok t"
  shows "tape_ok (Set t i v) \<and>
    content (Set t i v) = (if 0 \<le> i \<and> i < Len t then (content t)[nat i := v] else content t)"
proof (cases "0 \<le> i \<and> i < Len t")
  case False
  then show ?thesis using ok by (auto simp: Set_def)
next
  case True
  obtain a g b where r: "regions t a g b" and f: "forwards t = countForwards (a @ b)"
    and z: "list_all (\<lambda>c. c = zero_Value) g" and w: "length (warned t) = 3"
    using ok by (rule tape_ok_cases)
  have l: "nat i < length a + length b" using True regions_Len [OF r] by linarith
  let ?f = "forwards t - (if IsForward (content t ! nat i) then 1 else 0) + (if IsForward v then 1 else 0)"
  have at: "buf t ! nat (phys t i) = content t ! nat i"
    using At_content [OF ok, of i] True by (simp add: At_def)
  have e: "Set t i v = t\<lparr>forwards := ?f, buf := (buf t)[nat (phys t i) := v]\<rparr>"
    using True by (simp add: Set_def Let_def at)
  have cf: "?f = countForwards ((content t)[nat i := v])"
    using f regions_content [OF r] l by (simp add: countForwards_update)
  show ?thesis
  proof (cases "nat i < length a")
    case i: True
    then have "nat (phys t i) = nat i" using r True by (simp add: phys_def regions_def)
    then have R: "regions (Set t i v) (a[nat i := v]) g b"
      using i r by (simp add: regions_def e list_update_append)
    have c: "a[nat i := v] @ b = (content t)[nat i := v]"
      using i by (simp add: regions_content [OF r] list_update_append)
    have "tape_ok (Set t i v)"
      unfolding tape_ok_regions [OF R] c using cf z w by (simp add: e)
    then show ?thesis using True regions_content [OF R] c by simp
  next
    case False
    then obtain k where k: "nat i = length a + k" by (metis le_add_diff_inverse not_less)
    then have "\<not> i < int (length a)" using True by linarith
    then have p: "nat (phys t i) = length a + length g + k"
      using r True k by (simp add: phys_def regions_def nat_add_distrib)
    have R: "regions (Set t i v) a g (b[k := v])"
      using r by (simp add: regions_def e p list_update_append)
    have c: "a @ b[k := v] = (content t)[nat i := v]"
      by (simp add: k regions_content [OF r] list_update_append)
    have "tape_ok (Set t i v)"
      unfolding tape_ok_regions [OF R] c using cf z w by (simp add: e)
    then show ?thesis using True regions_content [OF R] c by simp
  qed
qed

text \<open>Insertion at a clamped index, or, when the tape cannot grow, nothing but the latch.\<close>

lemma Insert_ok:
  assumes ok: "tape_ok t"
  shows "tape_ok (Insert t i v) \<and>
    (if fits (MoveGap t i) 1
     then content (Insert t i v) =
         take (nat (clamp t i)) (content t) @ v # drop (nat (clamp t i)) (content t)
     else content (Insert t i v) = content t \<and> exhausted (Insert t i v))"
proof -
  let ?m = "MoveGap t (clamp t i)"
  have mm: "MoveGap t i = ?m" using ok by (simp add: MoveGap_def)
  note M = MoveGap_ok [OF ok, of i, unfolded mm]
  obtain b t' where g: "grow ?m 1 = (b, t')" by fastforce
  note G = grow_ok [OF M(1) g]
  show ?thesis
  proof (cases b)
    case False
    then have "Insert t i v = t'" using g by (simp add: Insert_def)
    then show ?thesis using G False M(2) mm by auto
  next
    case True
    obtain a gp r where R: "regions t' a gp r" and f: "forwards t' = countForwards (a @ r)"
      and z: "list_all (\<lambda>c. c = zero_Value) gp" and w: "length (warned t') = 3"
      using G by (elim conjE) (rule tape_ok_cases)
    have "gap_size t' = length gp" using R by (simp add: regions_def)
    moreover have "1 \<le> gap_size t'" using G True by blast
    ultimately have "length gp \<ge> 1" by (simp only:)
    then obtain x gp' where gp: "gp = x # gp'" by (cases gp) auto
    have la: "length a = nat (clamp t i)" using R G M(3) by (simp add: regions_def)
    have ct: "content t = a @ r" using regions_content [OF R] G M(2) by simp
    have e: "Insert t i v = t'\<lparr>buf := (buf t')[gapStart t' := v], gapStart := gapStart t' + 1,
        forwards := (if IsForward v then forwards t' + 1 else forwards t')\<rparr>"
      using g True by (simp add: Insert_def)
    have R': "regions (Insert t i v) (a @ [v]) gp' r"
      using R by (simp add: regions_def e gp list_update_append)
    have "tape_ok (Insert t i v)"
      unfolding tape_ok_regions [OF R'] using f z w by (simp add: e gp)
    moreover have "content (Insert t i v) = a @ v # r" using regions_content [OF R'] by simp
    ultimately show ?thesis using True G ct la mm by simp
  qed
qed

lemma Remove_ok:
  assumes ok: "tape_ok t"
  shows "tape_ok (Remove t i) \<and> content (Remove t i) =
    (if 0 \<le> i \<and> i < Len t then take (nat i) (content t) @ drop (Suc (nat i)) (content t) else content t)"
proof (cases "0 \<le> i \<and> i < Len t")
  case False
  then show ?thesis using ok by (auto simp: Remove_def)
next
  case True
  let ?t = "MoveGap t i"
  note M = MoveGap_ok [OF ok, of i]
  have ci: "clamp t i = i" using True by (simp add: clamp_id)
  obtain a g b where R: "regions ?t a g b" and f: "forwards ?t = countForwards (a @ b)"
    and z: "list_all (\<lambda>c. c = zero_Value) g" and w: "length (warned ?t) = 3"
    using M(1) by (rule tape_ok_cases)
  have la: "length a = nat i" using R M(3) ci by (simp add: regions_def)
  have ct: "content t = a @ b" using regions_content [OF R] M(2) by simp
  have "nat i < length (content t)" using True tape_Len [OF ok] by linarith
  then obtain x b' where b: "b = x # b'" using ct la by (cases b) auto
  have at: "buf ?t ! gapEnd ?t = x" using R by (simp add: regions_def b nth_append)
  have e: "Remove t i = ?t\<lparr>forwards := (if IsForward x then forwards ?t - 1 else forwards ?t),
      buf := (buf ?t)[gapEnd ?t := zero_Value], gapEnd := gapEnd ?t + 1\<rparr>"
    using True at by (simp add: Remove_def Let_def)
  have R': "regions (Remove t i) a (g @ [zero_Value]) b'"
    using R by (simp add: regions_def e b list_update_append)
  have "tape_ok (Remove t i)"
    unfolding tape_ok_regions [OF R'] using f z w by (simp add: e b)
  moreover have "content (Remove t i) = a @ b'" by (rule regions_content [OF R'])
  ultimately show ?thesis using True ct la b by simp
qed

lemma consume_steps:
  assumes r: "regions t a g (m @ b)" and "k \<le> length m"
  shows "fold (\<lambda>k t. t\<lparr>
      forwards := (if IsForward (buf t ! (gapEnd t + k)) then forwards t - 1 else forwards t),
      buf := (buf t)[gapEnd t + k := zero_Value] \<rparr>) [0..<k] t
    = t\<lparr>forwards := forwards t - countForwards (take k m),
        buf := a @ g @ replicate k zero_Value @ drop k m @ b\<rparr>"
  using assms(2)
proof (induction k)
  case 0
  then show ?case using r by (simp add: regions_def)
next
  case (Suc k)
  have ge: "gapEnd t = length a + length g" using r by (simp add: regions_def)
  have d: "drop k m = m ! k # drop (Suc k) m" using Suc.prems by (simp add: Cons_nth_drop_Suc)
  have tk: "take (Suc k) m = take k m @ [m ! k]" using Suc.prems by (simp add: take_Suc_conv_app_nth)
  have up: "(a @ g @ replicate k zero_Value @ m ! k # drop (Suc k) m @ b)[length a + length g + k := zero_Value]
      = a @ g @ replicate (Suc k) zero_Value @ drop (Suc k) m @ b"
    by (simp add: list_update_append replicate_append_same [symmetric])
  have at: "(a @ g @ replicate k zero_Value @ m ! k # drop (Suc k) m @ b) ! (length a + length g + k) = m ! k"
    by (simp add: nth_append)
  show ?case
    using Suc by (simp add: d ge up at tk)
qed

lemma consume_ok:
  assumes ok: "tape_ok t" and n: "gapStart t + n \<le> length (content t)"
  shows "tape_ok (consume n t) \<and> content (consume n t) =
      take (gapStart t) (content t) @ drop (gapStart t + n) (content t) \<and>
    gapStart (consume n t) = gapStart t \<and> gap_size (consume n t) = gap_size t + n"
proof -
  obtain a g b where R: "regions t a g b" and f: "forwards t = countForwards (a @ b)"
    and z: "list_all (\<lambda>c. c = zero_Value) g" and w: "length (warned t) = 3"
    using ok by (rule tape_ok_cases)
  have c: "content t = a @ b" by (rule regions_content [OF R])
  have gs: "gapStart t = length a" using R by (simp add: regions_def)
  have nb: "n \<le> length b" using n c gs by simp
  let ?m = "take n b" and ?b = "drop n b"
  have R1: "regions t a g (?m @ ?b)" and lm: "length ?m = n" using R nb by simp_all
  have e: "consume n t = t\<lparr>forwards := forwards t - countForwards ?m,
      buf := a @ g @ replicate n zero_Value @ ?b, gapEnd := gapEnd t + n\<rparr>"
    using consume_steps [OF R1, of n] lm by (simp add: consume_def)
  have R2: "regions (consume n t) a (g @ replicate n zero_Value) ?b"
    using R by (simp add: regions_def e)
  have "countForwards b = countForwards ?m + countForwards ?b"
    by (metis append_take_drop_id countForwards_append)
  then have "tape_ok (consume n t)"
    unfolding tape_ok_regions [OF R2] using f z w by (auto simp: e list_all_iff)
  moreover have "gap_size t = length g" "gap_size (consume n t) = length g + n"
    "gapStart (consume n t) = gapStart t"
    using R R2 by (simp_all add: regions_def)
  ultimately show ?thesis using regions_content [OF R2] c gs by simp
qed

text \<open>The number of cells a splice really removes.\<close>

definition splice_count :: "'p Tape \<Rightarrow> int \<Rightarrow> int \<Rightarrow> nat" where
  "splice_count t i count = nat (min (max count 0) (Len t - clamp t i))"

abbreviation spliced_gap :: "'p Tape \<Rightarrow> int \<Rightarrow> int \<Rightarrow> 'p Tape" where
  "spliced_gap t i count \<equiv> consume (splice_count t i count) (MoveGap t (clamp t i))"

lemma Splice_unfold:
  "Splice t i count repl =
    (case grow (spliced_gap t i count) (length repl) of
       (False, t) \<Rightarrow> t
     | (True, t) \<Rightarrow>
         t\<lparr> buf := go_copy (gapStart t) repl (buf t), gapStart := gapStart t + length repl,
            forwards := forwards t + countForwards repl \<rparr>)"
  by (simp add: Splice_def splice_count_def Let_def min_def max_def)

text \<open>
  A splice replaces the cells; when the tape cannot grow the removal still
  happens, the replacement does not, and exhaustion is latched.
\<close>

lemma Splice_ok:
  fixes i count :: int
  assumes ok: "tape_ok t"
  defines "i' \<equiv> nat (clamp t i)" and "n \<equiv> splice_count t i count"
  shows "tape_ok (Splice t i count repl) \<and>
    (if fits (spliced_gap t i count) (length repl)
     then content (Splice t i count repl) = take i' (content t) @ repl @ drop (i' + n) (content t)
     else content (Splice t i count repl) = take i' (content t) @ drop (i' + n) (content t) \<and>
       exhausted (Splice t i count repl))"
proof -
  let ?m = "MoveGap t (clamp t i)"
  note M = MoveGap_ok [OF ok, of "clamp t i", unfolded clamp_clamp [OF ok]]
  have "i' + n \<le> length (content t)"
    using clamp_range [OF ok, of i] tape_Len [OF ok] by (auto simp: i'_def n_def splice_count_def)
  then have C: "tape_ok (consume n ?m)" "content (consume n ?m) = take i' (content t) @ drop (i' + n) (content t)"
      "gapStart (consume n ?m) = i'"
    using consume_ok [OF M(1), of n] M(2,3) by (simp_all add: i'_def)
  obtain b t' where g: "grow (consume n ?m) (length repl) = (b, t')" by fastforce
  note G = grow_ok [OF C(1) g]
  show ?thesis
  proof (cases b)
    case False
    then have "Splice t i count repl = t'" using g by (simp add: Splice_unfold n_def)
    moreover have "\<not> fits (consume n ?m) (length repl)" using G False by blast
    ultimately show ?thesis using G False C(2) by (auto simp: n_def)
  next
    case True
    obtain a gp r where R: "regions t' a gp r" and f: "forwards t' = countForwards (a @ r)"
      and z: "list_all (\<lambda>c. c = zero_Value) gp" and w: "length (warned t') = 3"
      using G by (elim conjE) (rule tape_ok_cases)
    have gl: "gap_size t' = length gp" using R by (simp add: regions_def)
    have len: "length repl \<le> length gp" using G True gl by metis
    have la: "length a = i'" using R G C(3) by (simp add: regions_def)
    have "a @ r = take i' (content t) @ drop (i' + n) (content t)"
      using regions_content [OF R] G C(2) by simp
    then have ar: "a = take i' (content t)" "r = drop (i' + n) (content t)"
      using la \<open>i' + n \<le> length (content t)\<close> by (auto simp: append_eq_append_conv)
    have e: "Splice t i count repl = t'\<lparr> buf := go_copy (gapStart t') repl (buf t'),
        gapStart := gapStart t' + length repl, forwards := forwards t' + countForwards repl \<rparr>"
      using g True by (simp add: Splice_unfold n_def)
    have "go_copy (length a) repl (a @ take (length repl) gp @ drop (length repl) gp @ r)
        = a @ repl @ drop (length repl) gp @ r"
      by (rule go_copy_at) (use len in simp_all)
    then have "go_copy (length a) repl (a @ gp @ r) = a @ repl @ drop (length repl) gp @ r"
      by (metis append_assoc append_take_drop_id)
    then have R': "regions (Splice t i count repl) (a @ repl) (drop (length repl) gp) r"
      using R len by (simp add: regions_def e)
    have "tape_ok (Splice t i count repl)"
      unfolding tape_ok_regions [OF R'] using f z w by (simp add: e zero_take)
    moreover have "fits (consume n ?m) (length repl)" using G True by blast
    ultimately show ?thesis using regions_content [OF R'] ar by (simp add: n_def)
  qed
qed

section \<open>Construction and hand-off\<close>

lemma Resolve_initial:
  "Resolve cfg n = (initial, mg, fac) \<Longrightarrow> n \<le> initial \<and> 0 < mg"
  by (auto simp: Resolve_def Let_def DefaultTapeMaxGrows_def split: if_splits)

lemma NewTapeWith_ok:
  "tape_ok (NewTapeWith vals cfg w) \<and> content (NewTapeWith vals cfg w) = vals \<and>
   Cap (NewTapeWith vals cfg w) \<le> maxCap (NewTapeWith vals cfg w) \<and>
   0 < maxGrows (NewTapeWith vals cfg w) \<and> \<not> exhausted (NewTapeWith vals cfg w)"
proof -
  obtain initial mg fac where r: "Resolve cfg (int (length vals)) = (initial, mg, fac)"
    by (metis prod_cases3)
  have i: "int (length vals) \<le> initial" "0 < mg" using Resolve_initial [OF r] by auto
  let ?t = "NewTapeWith vals cfg w"
  have cp: "go_copy 0 vals (replicate (nat initial) zero_Value)
      = [] @ vals @ replicate (nat initial - length vals) zero_Value"
    using i by (simp add: go_copy_def)
  have R: "regions ?t vals (replicate (nat initial - length vals) zero_Value) []"
    using i by (simp add: regions_def NewTapeWith_def r cp)
  have "initial \<le> GrowthCeiling initial mg fac" by (simp add: GrowthCeiling_def Let_def)
  moreover have "Cap ?t = initial" using i by (simp add: Cap_def NewTapeWith_def r cp)
  moreover have "tape_ok ?t"
    unfolding tape_ok_regions [OF R] by (simp add: NewTapeWith_def r list_all_iff)
  ultimately show ?thesis
    using regions_content [OF R] i by (simp add: NewTapeWith_def r)
qed

lemma Reload_ok:
  assumes "Reload t vals = (b, t')"
  shows "(b \<longleftrightarrow> int (length vals) \<le> Cap t) \<and> (\<not> b \<longrightarrow> t' = t) \<and>
    (b \<longrightarrow> tape_ok t' \<and> content t' = vals \<and> Cap t' = Cap t \<and> maxGrows t' = grows0 t \<and> \<not> exhausted t')"
proof (cases "length (buf t) < length vals")
  case True
  then show ?thesis using assms by (auto simp: Reload_def Cap_def)
next
  case False
  then have e: "b" "t' = snd (Reload t vals)" using assms by (auto simp: Reload_def Let_def)
  have R: "regions t' vals (replicate (length (buf t) - length vals) zero_Value) []"
    using False by (simp add: regions_def e Reload_def Let_def)
  have "tape_ok t'"
    unfolding tape_ok_regions [OF R] using False by (simp add: e Reload_def Let_def list_all_iff)
  then show ?thesis
    using regions_content [OF R] False e(1) by (simp add: e(2) Reload_def Let_def Cap_def)
qed

lemma TakeAll_content:
  assumes ok: "tape_ok t"
  shows "fst (TakeAll t) = content t"
proof -
  note M = MoveGap_ok [OF ok, of "Len t"]
  obtain a g b where R: "regions (MoveGap t (Len t)) a g b"
    using M(1) by (rule tape_ok_cases)
  have "clamp t (Len t) = Len t" using clamp_id [of "Len t" t] tape_Len [OF ok] by simp
  then have "length a = length (content t)"
    using M(3) tape_Len [OF ok] R by (simp add: regions_def)
  moreover have "content t = a @ b" using regions_content [OF R] M(2) by simp
  ultimately show ?thesis using R by (simp add: TakeAll_def Let_def regions_def)
qed

end
