(* ===== verification/Collect_Window.thy ===== *)
theory Collect_Window
  imports Tape_Laws
begin

text \<open>
  The token window of the collection kernel (interface CollectWindow of
  core/go/collect_kernel.go) as a locale, and the region walks written against
  it (core/go/region_extent.go).  The tape is the window's one implementation;
  its interpretation discharges the laws from the tape's refinement lemmas.
\<close>

section \<open>The walk to the end of a region\<close>

text \<open>The loop of RegionEnd: \<open>n - i\<close> tokens left, \<open>depth\<close> open groups.\<close>

fun region_scan :: "(int \<Rightarrow> 'p val) \<Rightarrow> nat \<Rightarrow> int \<Rightarrow> int \<Rightarrow> int" where
  "region_scan rd 0 i depth = i"
| "region_scan rd (Suc k) i depth =
    (let v = rd i in
     if IsOpenParen v then region_scan rd k (i + 1) (depth + 1)
     else if IsCloseParen v then
       (if depth = 0 then i else region_scan rd k (i + 1) (depth - 1))
     else if IsEnd v then
       (if depth = 0 then i else region_scan rd k (i + 1) depth)
     else region_scan rd k (i + 1) depth)"

text \<open>An interface value that is nil, or holds a nil pointer, or holds a tape.\<close>

type_synonym 'p window_ref = "'p Tape option option"

definition windowPresent :: "'p window_ref \<Rightarrow> bool" where
  "windowPresent w = (case w of None \<Rightarrow> False | Some t \<Rightarrow> \<not> nilp t)"

definition RegionEnd :: "'p window_ref \<Rightarrow> int \<Rightarrow> int" where
  "RegionEnd w from =
    (case w of
       Some (Some t) \<Rightarrow>
         let n = Len t; from = (if from < 0 then 0 else from) in
         if from > n then n else region_scan (At t) (nat (n - from)) from 0
     | _ \<Rightarrow> 0)"

definition RegionSlotCount :: "'p window_ref \<Rightarrow> int \<Rightarrow> int" where
  "RegionSlotCount w from =
    (if \<not> windowPresent w then 0
     else let from = (if from < 0 then 0 else from); e = RegionEnd w from
          in if e < from then 0 else e - from)"

section \<open>The contract of a window\<close>

locale collect_window =
  fixes win_ok :: "'w \<Rightarrow> bool"
    and cells :: "'w \<Rightarrow> 'p val list"
    and wlen :: "'w \<Rightarrow> int"
    and wat :: "'w \<Rightarrow> int \<Rightarrow> 'p val"
    and wset :: "'w \<Rightarrow> int \<Rightarrow> 'p val \<Rightarrow> 'w"
    and wremove :: "'w \<Rightarrow> int \<Rightarrow> 'w"
    and wsplice :: "'w \<Rightarrow> int \<Rightarrow> int \<Rightarrow> 'p val list \<Rightarrow> 'w"
    and room :: "'w \<Rightarrow> int \<Rightarrow> int \<Rightarrow> nat \<Rightarrow> bool"
  assumes len: "win_ok w \<Longrightarrow> wlen w = int (length (cells w))"
    and at: "\<lbrakk>win_ok w; 0 \<le> i; i < wlen w\<rbrakk> \<Longrightarrow> wat w i = cells w ! nat i"
    and set: "\<lbrakk>win_ok w; 0 \<le> i; i < wlen w\<rbrakk> \<Longrightarrow>
      win_ok (wset w i v) \<and> cells (wset w i v) = (cells w)[nat i := v]"
    and remove: "\<lbrakk>win_ok w; 0 \<le> i; i < wlen w\<rbrakk> \<Longrightarrow>
      win_ok (wremove w i) \<and> cells (wremove w i) = take (nat i) (cells w) @ drop (Suc (nat i)) (cells w)"
    and splice: "\<lbrakk>win_ok w; 0 \<le> i; 0 \<le> n; i + n \<le> wlen w; room w i n (length repl)\<rbrakk> \<Longrightarrow>
      win_ok (wsplice w i n repl) \<and>
      cells (wsplice w i n repl) = take (nat i) (cells w) @ repl @ drop (nat (i + n)) (cells w)"
begin

text \<open>Removing a cell is splicing it away.\<close>

lemma remove_is_splice:
  "\<lbrakk>win_ok w; 0 \<le> i; i < wlen w; room w i 1 0\<rbrakk> \<Longrightarrow> cells (wremove w i) = cells (wsplice w i 1 [])"
  using remove [of w i] splice [of w i 1 "[]"] by (simp add: nat_add_distrib)

text \<open>Setting a cell is splicing one cell over it.\<close>

lemma set_is_splice:
  "\<lbrakk>win_ok w; 0 \<le> i; i < wlen w; room w i 1 1\<rbrakk> \<Longrightarrow> cells (wset w i v) = cells (wsplice w i 1 [v])"
  using set [of w i v] splice [of w i 1 "[v]"] len [of w]
  by (simp add: nat_add_distrib upd_conv_take_nth_drop)

text \<open>Expanding a token and collapsing the expansion again gives the token's window back.\<close>

lemma splice_back:
  assumes ok: "win_ok w" and i: "0 \<le> i" "i < wlen w" and r1: "room w i 1 (length repl)"
    and r2: "room (wsplice w i 1 repl) i (int (length repl)) 1"
  shows "cells (wsplice (wsplice w i 1 repl) i (int (length repl)) [cells w ! nat i]) = cells w"
proof -
  have s: "win_ok (wsplice w i 1 repl)"
    "cells (wsplice w i 1 repl) = take (nat i) (cells w) @ repl @ drop (Suc (nat i)) (cells w)"
    using splice [OF ok i(1) _ _ r1] i by (simp_all add: nat_add_distrib)
  have n: "nat i < length (cells w)" using i len [OF ok] by linarith
  have l: "i + int (length repl) \<le> wlen (wsplice w i 1 repl)"
    using len [OF s(1)] s(2) n i by simp
  have "cells (wsplice (wsplice w i 1 repl) i (int (length repl)) [cells w ! nat i])
      = take (nat i) (cells w) @ [cells w ! nat i] @ drop (Suc (nat i)) (cells w)"
    using splice [OF s(1) i(1) _ l, of "[cells w ! nat i]"] r2 s(2) n i
    by (simp add: nat_add_distrib)
  also have "\<dots> = cells w" using n by (simp add: id_take_nth_drop [symmetric])
  finally show ?thesis .
qed

lemma region_scan_cells:
  "\<lbrakk>win_ok w; 0 \<le> i; i + int k \<le> wlen w\<rbrakk> \<Longrightarrow>
    region_scan (wat w) k i d = region_scan (\<lambda>i. cells w ! nat i) k i d"
  by (induction k arbitrary: i d) (simp_all add: at Let_def)

end

section \<open>The tape is a window\<close>

definition tape_room :: "'p Tape \<Rightarrow> int \<Rightarrow> int \<Rightarrow> nat \<Rightarrow> bool" where
  "tape_room t i n k = fits (spliced_gap t i n) k"

interpretation tape_window: collect_window tape_ok content Len At Set Remove Splice tape_room
proof
  fix t :: "'p Tape" and i n :: int and v :: "'p val" and repl :: "'p val list"
  assume ok: "tape_ok t"
  show "Len t = int (length (content t))" by (rule tape_Len [OF ok])
  assume i: "0 \<le> i"
  { assume "0 \<le> n" "i + n \<le> Len t" "tape_room t i n (length repl)"
    moreover then have "clamp t i = i" "splice_count t i n = nat n"
      using i by (simp_all add: clamp_id splice_count_def)
    ultimately show "tape_ok (Splice t i n repl) \<and>
        content (Splice t i n repl) = take (nat i) (content t) @ repl @ drop (nat (i + n)) (content t)"
      using Splice_ok [OF ok, of i n repl] i by (simp add: tape_room_def nat_add_distrib) }
  assume l: "i < Len t"
  show "At t i = content t ! nat i" by (rule At_content [OF ok i l])
  show "tape_ok (Set t i v) \<and> content (Set t i v) = (content t)[nat i := v]"
    using Set_ok [OF ok] i l by simp
  show "tape_ok (Remove t i) \<and> content (Remove t i) =
      take (nat i) (content t) @ drop (Suc (nat i)) (content t)"
    using Remove_ok [OF ok] i l by simp
qed

section \<open>What the walk finds\<close>

text \<open>The number of groups open at \<open>j\<close> that were opened from \<open>from\<close> on.\<close>

definition open_groups :: "'p val list \<Rightarrow> nat \<Rightarrow> nat \<Rightarrow> int" where
  "open_groups xs from j =
    int (length (filter IsOpenParen (slice from j xs)))
    - int (length (filter (\<lambda>v. \<not> IsOpenParen v \<and> IsCloseParen v) (slice from j xs)))"

definition hard_stop :: "'p val list \<Rightarrow> nat \<Rightarrow> nat \<Rightarrow> bool" where
  "hard_stop xs from j \<longleftrightarrow>
    \<not> IsOpenParen (xs ! j) \<and> (IsCloseParen (xs ! j) \<or> IsEnd (xs ! j)) \<and> open_groups xs from j = 0"

definition region_end_of :: "'p val list \<Rightarrow> nat \<Rightarrow> nat \<Rightarrow> bool" where
  "region_end_of xs from e \<longleftrightarrow>
    from \<le> e \<and> e \<le> length xs \<and> list_all (\<lambda>j. \<not> hard_stop xs from j) [from..<e] \<and>
    (e = length xs \<or> hard_stop xs from e)"

lemma slice_Suc: "\<lbrakk>a \<le> j; j < length xs\<rbrakk> \<Longrightarrow> slice a (Suc j) xs = slice a j xs @ [xs ! j]"
  by (simp add: slice_def take_Suc_conv_app_nth)

lemma region_scan_end:
  "\<lbrakk>from \<le> i; i + k = length xs; open_groups xs from i = d;
    list_all (\<lambda>j. \<not> hard_stop xs from j) [from..<i]\<rbrakk> \<Longrightarrow>
   \<exists>e. region_scan (\<lambda>i. xs ! nat i) k (int i) d = int e \<and> region_end_of xs from e"
proof (induction k arbitrary: i d)
  case 0
  then show ?case by (intro exI [of _ i]) (simp add: region_end_of_def)
next
  case (Suc k)
  let ?v = "xs ! i"
  have i: "i < length xs" using Suc.prems by simp
  note sl = slice_Suc [OF Suc.prems(1) i]
  have onward: "?case" if "\<not> hard_stop xs from i" "open_groups xs from (Suc i) = d'"
    "region_scan (\<lambda>i. xs ! nat i) (Suc k) (int i) d = region_scan (\<lambda>i. xs ! nat i) k (int (Suc i)) d'" for d'
  proof -
    have "list_all (\<lambda>j. \<not> hard_stop xs from j) [from..<Suc i]"
      using that(1) Suc.prems(1,4) by simp
    then show ?thesis
      using Suc.IH [of "Suc i" d'] Suc.prems(1,2) that(2,3) by simp
  qed
  have halt: "?case" if "hard_stop xs from i"
    "region_scan (\<lambda>i. xs ! nat i) (Suc k) (int i) d = int i"
    using that Suc.prems i by (intro exI [of _ i]) (simp add: region_end_of_def)
  consider "IsOpenParen ?v" | "\<not> IsOpenParen ?v" "IsCloseParen ?v"
    | "\<not> IsOpenParen ?v" "\<not> IsCloseParen ?v" by blast
  then show ?case
  proof cases
    case 1
    then show ?thesis
      by (intro onward [of "d + 1"]) (use Suc.prems(3) in \<open>simp_all add: hard_stop_def open_groups_def sl add.commute\<close>)
  next
    case 2
    show ?thesis
    proof (cases "d = 0")
      case True
      then show ?thesis using 2 Suc.prems(3) by (intro halt) (simp_all add: hard_stop_def)
    next
      case False
      then show ?thesis using 2 Suc.prems(3)
        by (intro onward [of "d - 1"]) (simp_all add: hard_stop_def open_groups_def sl add.commute)
    qed
  next
    case 3
    show ?thesis
    proof (cases "IsEnd ?v \<and> d = 0")
      case True
      then show ?thesis using 3 Suc.prems(3) by (intro halt) (simp_all add: hard_stop_def)
    next
      case False
      then show ?thesis using 3 Suc.prems(3)
        by (intro onward [of d]) (auto simp: hard_stop_def open_groups_def sl add.commute)
    qed
  qed
qed

lemma RegionEnd_tape:
  assumes ok: "tape_ok t" and f: "from \<le> Len t"
  shows "\<exists>e. RegionEnd (Some (Some t)) from = int e \<and> region_end_of (content t) (nat from) e"
proof -
  let ?f = "nat from"
  have n: "Len t = int (length (content t))" by (rule tape_Len [OF ok])
  have le: "?f \<le> length (content t)" using f n by linarith
  have r: "RegionEnd (Some (Some t)) from = region_scan (At t) (length (content t) - ?f) (int ?f) 0"
    using f n by (auto simp: RegionEnd_def Let_def nat_diff_distrib split: if_splits)
  also have "\<dots> = region_scan (\<lambda>i. content t ! nat i) (length (content t) - ?f) (int ?f) 0"
    using le n by (intro tape_window.region_scan_cells [OF ok]) simp_all
  finally show ?thesis
    using region_scan_end [of ?f ?f "length (content t) - ?f" "content t" 0] le
    by (simp add: open_groups_def slice_def)
qed

end
