(* ===== verification/Tape_Props.thy ===== *)
theory Tape_Props
  imports Collect_Window
begin

text \<open>The properties of the tape and of the region walk over it.\<close>

section \<open>Programs of tape edits\<close>

datatype 'p tape_op =
    DoSet int "'p val"
  | DoInsert int "'p val"
  | DoRemove int
  | DoSplice int int "'p val list"
  | DoMoveGap int
  | DoReload "'p val list"

fun tape_exec :: "'p tape_op \<Rightarrow> 'p Tape \<Rightarrow> 'p Tape" where
  "tape_exec (DoSet i v) t = Set t i v"
| "tape_exec (DoInsert i v) t = Insert t i v"
| "tape_exec (DoRemove i) t = Remove t i"
| "tape_exec (DoSplice i n vs) t = Splice t i n vs"
| "tape_exec (DoMoveGap i) t = MoveGap t i"
| "tape_exec (DoReload vs) t = snd (Reload t vs)"

text \<open>Whether the tape has, or can make, the room the edit needs.\<close>

fun has_room :: "'p tape_op \<Rightarrow> 'p Tape \<Rightarrow> bool" where
  "has_room (DoInsert i v) t \<longleftrightarrow> fits (MoveGap t i) 1"
| "has_room (DoSplice i n vs) t \<longleftrightarrow> tape_room t i n (length vs)"
| "has_room (DoReload vs) t \<longleftrightarrow> int (length vs) \<le> Cap t"
| "has_room _ t \<longleftrightarrow> True"

text \<open>The edit on a list: indices are clamped, out-of-range ones ignored.\<close>

definition clamp_in :: "'v list \<Rightarrow> int \<Rightarrow> nat" where
  "clamp_in xs i = min (nat i) (length xs)"

fun list_exec :: "'p tape_op \<Rightarrow> 'p val list \<Rightarrow> 'p val list" where
  "list_exec (DoSet i v) xs = (if 0 \<le> i \<and> nat i < length xs then xs[nat i := v] else xs)"
| "list_exec (DoInsert i v) xs = take (clamp_in xs i) xs @ v # drop (clamp_in xs i) xs"
| "list_exec (DoRemove i) xs =
    (if 0 \<le> i \<and> nat i < length xs then take (nat i) xs @ drop (Suc (nat i)) xs else xs)"
| "list_exec (DoSplice i n vs) xs =
    (let j = clamp_in xs i; k = min (nat n) (length xs - j) in take j xs @ vs @ drop (j + k) xs)"
| "list_exec (DoMoveGap i) xs = xs"
| "list_exec (DoReload vs) xs = vs"

text \<open>What a refused edit leaves of the list.\<close>

fun refused_exec :: "'p tape_op \<Rightarrow> 'p val list \<Rightarrow> 'p val list" where
  "refused_exec (DoSplice i n vs) xs = list_exec (DoSplice i n []) xs"
| "refused_exec _ xs = xs"

lemma clamp_nat: "tape_ok t \<Longrightarrow> nat (clamp t i) = clamp_in (content t) i"
  by (auto simp: clamp_def clamp_in_def tape_Len Let_def min_def)

lemma splice_count_nat:
  "tape_ok t \<Longrightarrow> splice_count t i n = min (nat n) (length (content t) - clamp_in (content t) i)"
  using clamp_range [of t i] clamp_nat [of t i]
  by (auto simp: splice_count_def tape_Len min_def max_def nat_diff_distrib)

lemma in_range: "tape_ok t \<Longrightarrow> 0 \<le> i \<and> i < Len t \<longleftrightarrow> 0 \<le> i \<and> nat i < length (content t)"
  by (auto simp: tape_Len)

lemma tape_exec_ok:
  assumes ok: "tape_ok t"
  shows "tape_ok (tape_exec op t) \<and>
    content (tape_exec op t) = (if has_room op t then list_exec op (content t) else refused_exec op (content t)) \<and>
    (has_room op t \<or> exhausted (tape_exec op t) \<or> tape_exec op t = t)"
proof (cases op)
  case (DoSet i v)
  then show ?thesis using Set_ok [OF ok, of i v] in_range [OF ok, of i] by simp
next
  case (DoInsert i v)
  then show ?thesis using Insert_ok [OF ok, of i v] clamp_nat [OF ok, of i] by (auto split: if_splits)
next
  case (DoRemove i)
  then show ?thesis using Remove_ok [OF ok, of i] in_range [OF ok, of i] by simp
next
  case (DoSplice i n vs)
  then show ?thesis
    using Splice_ok [OF ok, of i n vs] clamp_nat [OF ok, of i] splice_count_nat [OF ok, of i n]
    by (auto simp: tape_room_def Let_def split: if_splits)
next
  case (DoMoveGap i)
  then show ?thesis using MoveGap_ok [OF ok, of i] by simp
next
  case (DoReload vs)
  obtain b t' where r: "Reload t vs = (b, t')" by fastforce
  show ?thesis using Reload_ok [OF r] ok r DoReload by (cases b) auto
qed

section \<open>Bounds\<close>

definition bounded :: "'p Tape \<Rightarrow> bool" where
  "bounded t \<longleftrightarrow> Cap t \<le> maxCap t \<and> 0 \<le> maxGrows t \<and> maxGrows t \<le> grows0 t"

text \<open>What an edit that does not reallocate leaves alone.\<close>

definition same_bounds :: "'p Tape \<Rightarrow> 'p Tape \<Rightarrow> bool" where
  "same_bounds t u \<longleftrightarrow> Cap u = Cap t \<and> maxCap u = maxCap t \<and> maxGrows u = maxGrows t \<and> grows0 u = grows0 t"

lemma same_bounded: "\<lbrakk>same_bounds t u; bounded t\<rbrakk> \<Longrightarrow> bounded u"
  by (simp add: same_bounds_def bounded_def)

lemma same_bounds_trans: "\<lbrakk>same_bounds t u; same_bounds u v\<rbrakk> \<Longrightarrow> same_bounds t v"
  by (simp add: same_bounds_def)

lemma MoveGap_same: "tape_ok t \<Longrightarrow> same_bounds t (MoveGap t i)"
  using MoveGap_ok(4) [of t i] by (auto simp: same_bounds_def Cap_def)

lemma consume_same: "same_bounds t (consume n t)"
proof -
  have "same_bounds u (fold (\<lambda>k t. t\<lparr>
      forwards := (if IsForward (buf t ! (gapEnd t + k)) then forwards t - 1 else forwards t),
      buf := (buf t)[gapEnd t + k := zero_Value] \<rparr>) ks u)" for ks u
    by (induction ks arbitrary: u) (auto simp: same_bounds_def Cap_def)
  then show ?thesis by (simp add: consume_def same_bounds_def Cap_def Let_def)
qed

lemma grow_bounded:
  assumes ok: "tape_ok t" and b: "bounded t" and g: "grow t need = (r, u)"
  shows "bounded u"
proof -
  obtain a gp x where R: "regions t a gp x" and w: "length (warned t) = 3"
    using ok by (rule tape_ok_cases)
  have le: "gapStart t \<le> gapEnd t" using ok by (simp add: tape_ok_def)
  have gl: "gap_size t = length gp" using R by (simp add: regions_def)
  consider "need \<le> gap_size t" | "gap_size t < need" "\<not> can_grow t need"
    | "gap_size t < need" "can_grow t need" by linarith
  then show ?thesis
  proof cases
    case 1
    then show ?thesis using grow_enough [OF le 1] g b by simp
  next
    case 2
    then show ?thesis using grow_fails [OF le 2] g b by (auto simp: bounded_def Cap_def)
  next
    case 3
    then have "grows0 u = grows0 t" "maxGrows u = maxGrows t - 1"
      using grow_reallocates [OF R _ 3(2) w] gl g by auto
    moreover have "Cap u \<le> max (Cap t) (maxCap t)" "maxCap u = maxCap t"
      using grow_ok [OF ok g] by blast+
    ultimately show ?thesis using b 3(2) by (auto simp: bounded_def can_grow_def)
  qed
qed

lemma tape_exec_bounded:
  assumes ok: "tape_ok t" and b: "bounded t"
  shows "bounded (tape_exec op t)"
proof (cases op)
  case (DoSet i v)
  have "same_bounds t (Set t i v)" by (simp add: Set_def same_bounds_def Cap_def Let_def)
  then show ?thesis using b DoSet by (simp add: same_bounded)
next
  case (DoInsert i v)
  have M: "tape_ok (MoveGap t (clamp t i))" "bounded (MoveGap t (clamp t i))"
    using MoveGap_ok(1) [OF ok] same_bounded [OF MoveGap_same [OF ok] b] by blast+
  obtain r u where g: "grow (MoveGap t (clamp t i)) 1 = (r, u)" by fastforce
  note grow_bounded [OF M g]
  then show ?thesis using g DoInsert by (cases r) (auto simp: Insert_def bounded_def Cap_def)
next
  case (DoRemove i)
  have "same_bounds (MoveGap t i) (Remove t i) \<or> Remove t i = t"
    by (auto simp: Remove_def same_bounds_def Cap_def Let_def)
  then show ?thesis
    using same_bounded [OF MoveGap_same [OF ok] b, of i] same_bounded b DoRemove by auto
next
  case (DoSplice i n vs)
  let ?u = "spliced_gap t i n"
  have "gapStart (MoveGap t (clamp t i)) + splice_count t i n \<le> length (content (MoveGap t (clamp t i)))"
    using MoveGap_ok(2,3) [OF ok] clamp_range [OF ok, of i] tape_Len [OF ok]
    by (auto simp: splice_count_def clamp_clamp [OF ok])
  then have U: "tape_ok ?u" using consume_ok [OF MoveGap_ok(1) [OF ok]] by blast
  have "bounded ?u"
    using same_bounded [OF consume_same] same_bounded [OF MoveGap_same [OF ok] b] by blast
  moreover obtain r u where g: "grow ?u (length vs) = (r, u)" by fastforce
  ultimately have "bounded u" using grow_bounded [OF U] by blast
  moreover have "gapStart u \<le> length (buf u)"
    using grow_ok [OF U g] by (auto simp: tape_ok_def)
  ultimately show ?thesis
    using g DoSplice by (cases r) (auto simp: Splice_unfold bounded_def Cap_def)
next
  case (DoMoveGap i)
  then show ?thesis using same_bounded [OF MoveGap_same [OF ok] b] by simp
next
  case (DoReload vs)
  then show ?thesis using b by (auto simp: Reload_def bounded_def Cap_def Let_def)
qed

lemma tape_run_ok:
  "\<lbrakk>tape_ok t; bounded t\<rbrakk> \<Longrightarrow> tape_ok (fold tape_exec ops t) \<and> bounded (fold tape_exec ops t)"
proof (induction ops arbitrary: t)
  case (Cons op ops)
  then show ?case using tape_exec_ok [of t op] tape_exec_bounded [of t op] by simp
qed simp

lemma tape_exec_const: "maxCap (tape_exec op t) = maxCap t \<or> \<not> tape_ok t"
proof (cases "tape_ok t")
  case ok: True
  show ?thesis
  proof (cases op)
    case (DoInsert i v)
    obtain r u where g: "grow (MoveGap t (clamp t i)) 1 = (r, u)" by fastforce
    then have "maxCap u = maxCap t"
      using grow_ok [OF MoveGap_ok(1) [OF ok] g] MoveGap_same [OF ok] by (simp add: same_bounds_def)
    then show ?thesis using g DoInsert by (cases r) (auto simp: Insert_def)
  next
    case (DoSplice i n vs)
    let ?u = "spliced_gap t i n"
    have "gapStart (MoveGap t (clamp t i)) + splice_count t i n \<le> length (content (MoveGap t (clamp t i)))"
      using MoveGap_ok(2,3) [OF ok] clamp_range [OF ok, of i] tape_Len [OF ok]
      by (auto simp: splice_count_def clamp_clamp [OF ok])
    then have U: "tape_ok ?u" using consume_ok [OF MoveGap_ok(1) [OF ok]] by blast
    obtain r u where g: "grow ?u (length vs) = (r, u)" by fastforce
    then have "maxCap u = maxCap t"
      using grow_ok [OF U g] consume_same MoveGap_same [OF ok] by (metis same_bounds_def)
    then show ?thesis using g DoSplice by (cases r) (auto simp: Splice_unfold)
  next
    case (DoRemove i)
    then show ?thesis using MoveGap_same [OF ok, of i] by (simp add: Remove_def Let_def same_bounds_def)
  next
    case (DoMoveGap i)
    then show ?thesis using MoveGap_same [OF ok, of i] by (simp add: same_bounds_def)
  qed (simp_all add: Set_def Reload_def Let_def)
qed simp

lemma tape_run_maxCap:
  "tape_ok t \<Longrightarrow> maxCap (fold tape_exec ops t) = maxCap t"
proof (induction ops arbitrary: t)
  case (Cons op ops)
  then show ?case using tape_exec_ok [of t op] tape_exec_const [of op t] by auto
qed simp

section \<open>Properties\<close>

text \<open>Every tape a program of edits reaches, from any construction, satisfies the tape
  invariant (the gap lies inside the buffer and holds only zero cells, and the running count
  of Forward cells equals a recount), its capacity never exceeds the growth ceiling fixed at
  construction, and its remaining reallocations never go below zero.\<close>

theorem tape_invariant:
  fixes vals :: "'p val list" and cfg :: TapeConfig and w :: "TapeWarning list option"
  defines "t0 \<equiv> NewTapeWith vals cfg w"
  shows "tape_ok (fold tape_exec ops t0) \<and>
    forwards (fold tape_exec ops t0) = countForwards (content (fold tape_exec ops t0)) \<and>
    Cap (fold tape_exec ops t0) \<le> maxCap t0 \<and> 0 \<le> maxGrows (fold tape_exec ops t0)"
proof -
  have 0: "tape_ok t0" "bounded t0"
    using NewTapeWith_ok [of vals cfg w]
    by (auto simp: t0_def bounded_def) (simp add: NewTapeWith_def split: prod.splits)
  from tape_run_ok [OF 0, of ops] tape_run_maxCap [OF 0(1), of ops]
  show ?thesis by (auto simp: tape_ok_def bounded_def)
qed

text \<open>C3: The tape refines a list of cells: every edit for which there is room does to the content
  what the edit does to the list (indices clamped or out-of-range edits ignored, as in the
  code).  An edit without room sets the exhausted latch, or, for Reload, leaves the tape as it
  was; unless it is a splice, it changes no cell.  A refused splice is left open beyond the latch: the
  comment of grow calls it a no-op, while the code has already removed the cells it covers.\<close>

theorem tape_refines_list:
  assumes "tape_ok t"
  shows "tape_ok (tape_exec op t) \<and>
    (has_room op t \<longrightarrow> content (tape_exec op t) = list_exec op (content t)) \<and>
    (\<not> has_room op t \<longrightarrow> (exhausted (tape_exec op t) \<or> tape_exec op t = t) \<and>
      ((\<forall>i n vs. op \<noteq> DoSplice i n vs) \<longrightarrow> content (tape_exec op t) = content t)) \<and>
    content (NewTapeWith vals cfg w) = vals"
  using tape_exec_ok [OF assms, of op] NewTapeWith_ok [of vals cfg w] by (cases op) auto

definition absurd_config :: TapeConfig where
  "absurd_config = \<lparr> InitialSize = 1024, MaxGrows = 6, GrowthFactor = 2 ^ 60 \<rparr>"

definition sample_tape :: "nat Tape" where
  "sample_tape = NewTape [zero_Value, zero_Value] 3"

lemma sample_tape_ok: "tape_ok sample_tape"
  by (simp add: sample_tape_def NewTape_def NewTapeWith_ok)

lemma tape_refines_list_witness:
  "content (tape_exec (DoRemove 0) sample_tape) = [zero_Value]"
proof -
  have "content sample_tape = [zero_Value, zero_Value]"
    by (simp add: sample_tape_def NewTape_def NewTapeWith_ok)
  then show ?thesis
    using tape_refines_list [OF sample_tape_ok, of "DoRemove 0" "[]" absurd_config None] by auto
qed

text \<open>A splice that is refused has removed the cells it covers.\<close>

lemma refused_splice_removes:
  assumes "tape_ok t" "\<not> has_room (DoSplice i n vs) t"
  shows "content (Splice t i n vs) = list_exec (DoSplice i n []) (content t)"
  using tape_exec_ok [OF assms(1), of "DoSplice i n vs"] assms(2) by simp

text \<open>All reads of the tape agree with the content: Len, At in and out of range, the
  ranges CopyRange, Prefix and Snapshot, the end-of-run handoff TakeAll, and hasForward,
  which holds exactly when some cell is a Forward.\<close>

theorem tape_reads:
  assumes "tape_ok t"
  shows "Len t = int (length (content t)) \<and>
    At t i = (if 0 \<le> i \<and> i < Len t then content t ! nat i else zero_Value) \<and>
    CopyRange t i j = slice (nat i) (nat j) (content t) \<and>
    Prefix t j = take (nat j) (content t) \<and> Snapshot t = content t \<and>
    fst (TakeAll t) = content t \<and>
    (hasForward (Some t) \<longleftrightarrow> list_ex IsForward (content t))"
proof -
  have "forwards t = countForwards (content t)" using assms by (simp add: tape_ok_def)
  moreover have "filter IsForward xs \<noteq> [] \<longleftrightarrow> list_ex IsForward xs" for xs :: "'a val list"
    by (auto simp: filter_empty_conv list_ex_iff)
  ultimately have "hasForward (Some t) \<longleftrightarrow> list_ex IsForward (content t)"
    by (simp add: hasForward_def countForwards_length)
  then show ?thesis
    using tape_Len [OF assms] At_content [OF assms, of i] At_outside [of i t]
      CopyRange_content [OF assms] Prefix_content [OF assms] Snapshot_content [OF assms]
      TakeAll_content [OF assms] by (auto simp: not_le)
qed

lemma tape_reads_witness:
  "Prefix sample_tape 1 = take 1 (content sample_tape)"
  using tape_reads [OF sample_tape_ok, of 0 1] by simp

text \<open>The growth ceiling is at least the starting capacity and at most the larger of it
  and the hard stop of 2^28 entries, for every number of grows and every growth factor.\<close>

theorem ceiling_bounds:
  "initial \<le> GrowthCeiling initial mg fac \<and> GrowthCeiling initial mg fac \<le> max initial maxIntCap"
proof -
  have "float_to_int x < maxIntCap" if "x < of_int maxIntCap" for x
  proof (cases "x < 0")
    case True
    then have "trunc x \<le> 0" by (simp add: trunc_def)
    then show ?thesis by (simp add: float_to_int_def maxIntCap_def)
  next
    case False
    then have "trunc x < maxIntCap" using that by (simp add: trunc_def floor_less_iff)
    then show ?thesis by (simp add: float_to_int_def maxIntCap_def)
  qed
  from this [of "ceil_loop (nat mg) fac (fl (of_int initial))"] show ?thesis
    by (auto simp: GrowthCeiling_def Let_def less_imp_le max_def)
qed

text \<open>RegionEnd on a tape finds the end of the region: the first position from the start
  on that holds a close paren or an end marker outside every group opened in the region, or
  the end of the window; RegionSlotCount is the distance to it.\<close>

theorem region_end:
  assumes "tape_ok t" and "from \<le> Len t"
  shows "\<exists>e. RegionEnd (Some (Some t)) from = int e \<and> region_end_of (content t) (nat from) e \<and>
    RegionSlotCount (Some (Some t)) from = int e - int (nat from)"
proof -
  obtain e where e: "RegionEnd (Some (Some t)) from = int e" "region_end_of (content t) (nat from) e"
    using RegionEnd_tape [OF assms] by blast
  have "RegionEnd (Some (Some t)) (if from < 0 then 0 else from) = RegionEnd (Some (Some t)) from"
    by (simp add: RegionEnd_def Let_def)
  then have "RegionSlotCount (Some (Some t)) from = int e - int (nat from)"
    using e by (auto simp: RegionSlotCount_def windowPresent_def Let_def region_end_of_def)
  with e show ?thesis by blast
qed

lemma region_end_witness:
  "\<exists>e. RegionEnd (Some (Some sample_tape)) 1 = int e \<and> region_end_of (content sample_tape) (nat 1) e \<and>
    RegionSlotCount (Some (Some sample_tape)) 1 = int e - int (nat 1)"
proof (rule region_end [OF sample_tape_ok])
  have "content sample_tape = [zero_Value, zero_Value]"
    by (simp add: sample_tape_def NewTape_def NewTapeWith_ok)
  then show "1 \<le> Len sample_tape" by (simp add: tape_Len [OF sample_tape_ok])
qed

text \<open>A start past the end: the walk answers the length, which is below the start.\<close>

lemma region_end_past:
  "from > Len t \<Longrightarrow> 0 \<le> Len t \<Longrightarrow> RegionEnd (Some (Some t)) from = Len t \<and> Len t < from"
  by (simp add: RegionEnd_def Let_def)

section \<open>An absurd growth factor\<close>

text \<open>
  With a factor of 2^60 the ceiling is clamped to 2^28 entries, but the product
  capacity times factor does not fit a 64-bit integer: the conversion yields the
  most negative integer and the first reallocation latches exhaustion.
\<close>

definition absurd_tape :: "nat Tape" where
  "absurd_tape = NewTapeWith [] absurd_config None"

lemma absurd_numbers:
  "GrowthCeiling 1024 6 (2 ^ 60) = 2 ^ 28 \<and>
   add64 (float_to_int (fmul (of_int 1024) (2 ^ 60))) 1025 = - (2 ^ 63) + 1025"
  by code_simp

lemma absurd_factor_exhausts:
  "maxCap absurd_tape = 2 ^ 28 \<and> Cap absurd_tape = 1024 \<and> fst (grow absurd_tape 1025) = False"
proof -
  have r: "Resolve absurd_config 0 = (1024, 6, 2 ^ 60)"
    by (simp add: Resolve_def absurd_config_def)
  have f: "maxCap absurd_tape = 2 ^ 28" "Cap absurd_tape = 1024" "factor absurd_tape = 2 ^ 60"
    "gapStart absurd_tape = 0" "gapEnd absurd_tape = 1024" "Len absurd_tape = 0"
    using absurd_numbers
    by (simp_all add: absurd_tape_def NewTapeWith_def r Cap_def Len_def go_copy_def)
  then have "\<not> can_grow absurd_tape 1025"
    using absurd_numbers by (simp add: can_grow_def grown_cap_def)
  then show ?thesis using f grow_fails [of absurd_tape 1025] by simp
qed

end
