(* ===== verification/Def_Table.thy ===== *)
theory Def_Table
  imports Type_Table
begin

text \<open>
  The table of stacked bindings (core/go/deftable.go): one stack of entries per
  name, a count of pushes and pops, and a generation counter per name that every
  change of the name's stack advances.  A receiver may be nil, as in the code;
  every write through a nil receiver is a no-op.  The two counters are counted
  in integers: they stay below the bounds of int64 for any run of fewer than
  2^63 operations.
\<close>

section \<open>State\<close>

record 'p DefEntry =
  Body :: "'p val"
  TypeDef :: "'p ptr option"
  Minted :: bool

definition zero_DefEntry :: "'p DefEntry" where
  "zero_DefEntry = \<lparr> Body = zero_Value, TypeDef = None, Minted = False \<rparr>"

record 'p DefTable =
  stacks :: "(string, 'p DefEntry list) gomap"
  mutations :: int
  gen :: "(string, int) gomap"

definition NewDefTable :: "'p DefTable" where
  "NewDefTable = \<lparr> stacks = gm_empty, mutations = 0, gen = gm_empty \<rparr>"

text \<open>Indexing the two maps: an absent name reads as nil, or as zero.\<close>

definition stack_of :: "'p DefTable \<Rightarrow> string \<Rightarrow> 'p DefEntry list" where
  "stack_of dt name = (case gm_get (stacks dt) name of None \<Rightarrow> [] | Some ds \<Rightarrow> ds)"

definition gen_of :: "'p DefTable \<Rightarrow> string \<Rightarrow> int" where
  "gen_of dt name = (case gm_get (gen dt) name of None \<Rightarrow> 0 | Some n \<Rightarrow> n)"

definition touch :: "string \<Rightarrow> 'p DefTable \<Rightarrow> 'p DefTable" where
  "touch name dt = dt\<lparr> gen := gm_put name (gen_of dt name + 1) (gen dt) \<rparr>"

section \<open>Reads\<close>

definition Gen :: "'p DefTable option \<Rightarrow> string \<Rightarrow> int" where
  "Gen dt name = (case dt of None \<Rightarrow> 0 | Some dt \<Rightarrow> gen_of dt name)"

definition DefTable_Top :: "'p DefTable option \<Rightarrow> string \<Rightarrow> 'p val \<times> bool" where
  "DefTable_Top dt name =
    (case dt of None \<Rightarrow> (zero_Value, False)
     | Some dt \<Rightarrow>
         let ds = stack_of dt name in
         if length ds = 0 then (zero_Value, False)
         else let e = ds ! (length ds - 1) in
           (case TypeDef e of
              Some d \<Rightarrow> (NewTypeLiteral (Some d), True)
            | None \<Rightarrow> (Body e, True)))"

definition TopEntry :: "'p DefTable option \<Rightarrow> string \<Rightarrow> 'p DefEntry \<times> bool" where
  "TopEntry dt name =
    (case dt of None \<Rightarrow> (zero_DefEntry, False)
     | Some dt \<Rightarrow>
         let ds = stack_of dt name in
         if length ds = 0 then (zero_DefEntry, False) else (ds ! (length ds - 1), True))"

definition Mutations :: "'p DefTable option \<Rightarrow> int" where
  "Mutations dt = (case dt of None \<Rightarrow> 0 | Some dt \<Rightarrow> mutations dt)"

text \<open>A Go map of integers read at an absent key is zero.\<close>

definition depth_in :: "(string, int) gomap \<Rightarrow> string \<Rightarrow> int" where
  "depth_in snap name = (case gm_get snap name of None \<Rightarrow> 0 | Some d \<Rightarrow> d)"

definition TruncationCoveredBy ::
  "'p DefTable option \<Rightarrow> (string, int) gomap \<Rightarrow> (string \<Rightarrow> bool) \<Rightarrow> bool" where
  "TruncationCoveredBy dt snapshot allowed =
    (case dt of None \<Rightarrow> True
     | Some dt \<Rightarrow>
         list_all (\<lambda>(name, ds). \<not> (int (length ds) > depth_in snapshot name \<and> \<not> allowed name))
           (stacks dt))"

definition Has :: "'p DefTable option \<Rightarrow> string \<Rightarrow> bool" where
  "Has dt name = (case dt of None \<Rightarrow> False | Some dt \<Rightarrow> length (stack_of dt name) > 0)"

definition IsType :: "'p DefTable option \<Rightarrow> string \<Rightarrow> bool" where
  "IsType dt name =
    (case dt of None \<Rightarrow> False
     | Some dt \<Rightarrow> let ds = stack_of dt name in
         length ds > 0 \<and> \<not> nilp (TypeDef (ds ! (length ds - 1))))"

definition DefTable_Depth :: "'p DefTable option \<Rightarrow> string \<Rightarrow> int" where
  "DefTable_Depth dt name = (case dt of None \<Rightarrow> 0 | Some dt \<Rightarrow> int (length (stack_of dt name)))"

definition Entries :: "'p DefTable option \<Rightarrow> string \<Rightarrow> 'p DefEntry list" where
  "Entries dt name = (case dt of None \<Rightarrow> [] | Some dt \<Rightarrow> stack_of dt name)"

definition Stack :: "'p DefTable option \<Rightarrow> string \<Rightarrow> 'p val list" where
  "Stack dt name = (case dt of None \<Rightarrow> [] | Some dt \<Rightarrow> map Body (stack_of dt name))"

definition Names :: "'p DefTable option \<Rightarrow> string list" where
  "Names dt = (case dt of None \<Rightarrow> [] | Some dt \<Rightarrow> gm_keys (stacks dt))"

section \<open>Writes\<close>

definition push_entry :: "string \<Rightarrow> 'p DefEntry \<Rightarrow> 'p DefTable \<Rightarrow> 'p DefTable" where
  "push_entry name e dt =
    (let dt = touch name (dt\<lparr> mutations := mutations dt + 1 \<rparr>)
     in dt\<lparr> stacks := gm_put name (stack_of dt name @ [e]) (stacks dt) \<rparr>)"

definition DefTable_Push :: "string \<Rightarrow> 'p val \<Rightarrow> 'p DefTable option \<Rightarrow> 'p DefTable option" where
  "DefTable_Push name v =
    map_option (push_entry name \<lparr> Body = v, TypeDef = None, Minted = False \<rparr>)"

definition PushType ::
  "string \<Rightarrow> 'p ptr option \<Rightarrow> 'p val \<Rightarrow> 'p DefTable option \<Rightarrow> 'p DefTable option" where
  "PushType name def body =
    map_option (push_entry name \<lparr> Body = body, TypeDef = def, Minted = True \<rparr>)"

definition PushTypeAdopted ::
  "string \<Rightarrow> 'p ptr option \<Rightarrow> 'p val \<Rightarrow> 'p DefTable option \<Rightarrow> 'p DefTable option" where
  "PushTypeAdopted name def body =
    map_option (push_entry name \<lparr> Body = body, TypeDef = def, Minted = False \<rparr>)"

definition PopEntry ::
  "string \<Rightarrow> 'p DefTable option \<Rightarrow> ('p DefEntry \<times> bool) \<times> 'p DefTable option" where
  "PopEntry name dt =
    (case dt of None \<Rightarrow> ((zero_DefEntry, False), None)
     | Some dt \<Rightarrow>
         let ds = stack_of dt name in
         if length ds = 0 then ((zero_DefEntry, False), Some dt)
         else let dt = touch name (dt\<lparr> mutations := mutations dt + 1 \<rparr>);
                  top = ds ! (length ds - 1)
              in if length ds = 1 then ((top, True), Some (dt\<lparr> stacks := gm_del name (stacks dt) \<rparr>))
                 else ((top, True),
                   Some (dt\<lparr> stacks := gm_put name (take (length ds - 1) ds) (stacks dt) \<rparr>)))"

definition DefTable_Pop :: "string \<Rightarrow> 'p DefTable option \<Rightarrow> bool \<times> 'p DefTable option" where
  "DefTable_Pop name dt = (case PopEntry name dt of ((_, ok), dt) \<Rightarrow> (ok, dt))"

definition Replace :: "string \<Rightarrow> 'p val \<Rightarrow> 'p DefTable option \<Rightarrow> bool \<times> 'p DefTable option" where
  "Replace name v dt =
    (case dt of None \<Rightarrow> (False, None)
     | Some dt \<Rightarrow>
         let ds = stack_of dt name in
         if length ds = 0 then (False, Some dt)
         else let dt = touch name dt; k = length ds - 1
              in (True, Some (dt\<lparr> stacks := gm_put name (ds[k := (ds ! k)\<lparr> Body := v \<rparr>]) (stacks dt) \<rparr>)))"

definition truncate_stack :: "string \<Rightarrow> int \<Rightarrow> 'p DefTable \<Rightarrow> 'p DefTable" where
  "truncate_stack name want dt =
    (let ds = stack_of dt name; want = (if want < 0 then 0 else want) in
     if want \<ge> int (length ds) then dt
     else let dt = touch name dt in
       if want = 0 then dt\<lparr> stacks := gm_del name (stacks dt) \<rparr>
       else dt\<lparr> stacks := gm_put name (take (nat want) ds) (stacks dt) \<rparr>)"

definition Truncate :: "string \<Rightarrow> int \<Rightarrow> 'p DefTable option \<Rightarrow> 'p DefTable option" where
  "Truncate name want = map_option (truncate_stack name want)"

definition DefTable_Delete :: "string \<Rightarrow> 'p DefTable option \<Rightarrow> 'p DefTable option" where
  "DefTable_Delete name =
    map_option (\<lambda>dt.
      let dt = (if length (stack_of dt name) > 0 then touch name dt else dt)
      in dt\<lparr> stacks := gm_del name (stacks dt) \<rparr>)"

definition DefTable_Set :: "string \<Rightarrow> 'p val list \<Rightarrow> 'p DefTable option \<Rightarrow> 'p DefTable option" where
  "DefTable_Set name bodies =
    map_option (\<lambda>dt.
      let dt = touch name dt in
      if length bodies = 0 then dt\<lparr> stacks := gm_del name (stacks dt) \<rparr>
      else dt\<lparr> stacks := gm_put name
             (map (\<lambda>b. \<lparr> Body = b, TypeDef = None, Minted = False \<rparr>) bodies) (stacks dt) \<rparr>)"

section \<open>Snapshots by depth\<close>

definition DefTable_Snapshot :: "'p DefTable option \<Rightarrow> (string, int) gomap option" where
  "DefTable_Snapshot dt =
    (case dt of None \<Rightarrow> None
     | Some dt \<Rightarrow> Some (fold (\<lambda>(k, v). gm_put k (int (length v))) (stacks dt) gm_empty))"

text \<open>One name of Restore: \<open>snap\<close> may be nil, which reads as empty.\<close>

definition restore_step :: "(string, int) gomap option \<Rightarrow> string \<Rightarrow> 'p DefTable \<Rightarrow> 'p DefTable" where
  "restore_step snap name dt =
    (case nm_get snap name of
       None \<Rightarrow> let dt = touch name dt in dt\<lparr> stacks := gm_del name (stacks dt) \<rparr>
     | Some want \<Rightarrow> truncate_stack name want dt)"

definition DefTable_Restore ::
  "(string, int) gomap option \<Rightarrow> 'p DefTable option \<Rightarrow> 'p DefTable option" where
  "DefTable_Restore snap =
    map_option (\<lambda>dt. fold (restore_step snap) (gm_keys (stacks dt)) dt)"

section \<open>Snapshots by content\<close>

record 'p EntriesSnapshot =
  snap_stacks :: "(string, 'p DefEntry list) gomap"
  snap_gens :: "(string, int) gomap"
  snap_valid :: bool

definition zero_EntriesSnapshot :: "'p EntriesSnapshot" where
  "zero_EntriesSnapshot = \<lparr> snap_stacks = gm_empty, snap_gens = gm_empty, snap_valid = False \<rparr>"

definition SnapshotEntries :: "'p DefTable option \<Rightarrow> 'p EntriesSnapshot" where
  "SnapshotEntries dt =
    (case dt of None \<Rightarrow> zero_EntriesSnapshot
     | Some dt \<Rightarrow>
         fold (\<lambda>(name, ds) s. s\<lparr> snap_stacks := gm_put name ds (snap_stacks s),
             snap_gens := gm_put name (gen_of dt name) (snap_gens s) \<rparr>)
           (stacks dt) \<lparr> snap_stacks = gm_empty, snap_gens = gm_empty, snap_valid = True \<rparr>)"

definition drop_new :: "'p EntriesSnapshot \<Rightarrow> string \<Rightarrow> 'p DefTable \<Rightarrow> 'p DefTable" where
  "drop_new s name dt =
    (if gm_has (snap_stacks s) name then dt
     else let dt = touch name (dt\<lparr> mutations := mutations dt + 1 \<rparr>)
          in dt\<lparr> stacks := gm_del name (stacks dt) \<rparr>)"

definition put_back ::
  "'p EntriesSnapshot \<Rightarrow> string \<times> 'p DefEntry list \<Rightarrow> 'p DefTable \<Rightarrow> 'p DefTable" where
  "put_back s = (\<lambda>(name, want) dt.
    if gen_of dt name = depth_in (snap_gens s) name then dt
    else let dt = touch name (dt\<lparr> mutations := mutations dt + 1 \<rparr>)
         in dt\<lparr> stacks := gm_put name want (stacks dt) \<rparr>)"

definition RestoreEntriesSnapshot ::
  "'p EntriesSnapshot \<Rightarrow> 'p DefTable option \<Rightarrow> 'p DefTable option" where
  "RestoreEntriesSnapshot s dt =
    (case dt of None \<Rightarrow> None
     | Some t \<Rightarrow>
         if \<not> snap_valid s then dt
         else Some (fold (put_back s) (snap_stacks s)
                (fold (drop_new s) (gm_keys (stacks t)) t)))"

section \<open>Copies\<close>

definition DefTable_Clone :: "'p DefTable option \<Rightarrow> 'p DefTable" where
  "DefTable_Clone dt =
    (case dt of None \<Rightarrow> NewDefTable
     | Some dt \<Rightarrow>
         \<lparr> stacks = gm_copy (stacks dt), mutations = 0, gen = gm_copy (gen dt) \<rparr>)"

end
