(* ===== verification/Def_Laws.thy ===== *)
theory Def_Laws
  imports Def_Table
begin

text \<open>
  What the operations of the binding table do to the stack and the generation of
  every name, the well-formedness of a table, and the two facts about folds over
  a map that the snapshots need.
\<close>

named_theorems def_view \<open>stack and generation of a name after an operation\<close>

section \<open>Stacks and generations after an update\<close>

lemma stack_of_stacks [def_view]:
  "stack_of (dt\<lparr>stacks := s\<rparr>) m = (case gm_get s m of None \<Rightarrow> [] | Some ds \<Rightarrow> ds)"
  by (simp add: stack_of_def)

lemma stack_of_fold [def_view]:
  "(case gm_get (stacks dt) m of None \<Rightarrow> [] | Some ds \<Rightarrow> ds) = stack_of dt m"
  by (simp add: stack_of_def)

lemma stack_of_touch [def_view]: "stack_of (touch n dt) m = stack_of dt m"
  by (simp add: stack_of_def touch_def)

lemma stack_of_mutations [def_view]: "stack_of (dt\<lparr>mutations := k\<rparr>) m = stack_of dt m"
  by (simp add: stack_of_def)

lemma gen_of_stacks [def_view]: "gen_of (dt\<lparr>stacks := s\<rparr>) m = gen_of dt m"
  by (simp add: gen_of_def)

lemma gen_of_mutations [def_view]: "gen_of (dt\<lparr>mutations := k\<rparr>) m = gen_of dt m"
  by (simp add: gen_of_def)

lemma gen_of_touch [def_view]: "gen_of (touch n dt) m = gen_of dt m + (if m = n then 1 else 0)"
  by (simp add: gen_of_def touch_def)

lemma stacks_touch [simp]: "stacks (touch n dt) = stacks dt"
  by (simp add: touch_def)

lemma mutations_touch [simp]: "mutations (touch n dt) = mutations dt"
  by (simp add: touch_def)

definition deftab_ok :: "'p DefTable \<Rightarrow> bool" where
  "deftab_ok dt \<longleftrightarrow>
    gm_ok (stacks dt) \<and> gm_ok (gen dt) \<and> [] \<notin> snd ` set (stacks dt)"

lemma gm_put_snd: "snd ` set (gm_put k v m) \<subseteq> insert v (snd ` set m)"
  unfolding gm_put_def by (induction m) auto

lemma gm_del_snd: "snd ` set (gm_del k m) \<subseteq> snd ` set m"
  unfolding gm_del_def by (auto simp: AList.delete_eq)

lemma NewDefTable_ok [simp]: "deftab_ok NewDefTable"
  by (simp add: deftab_ok_def NewDefTable_def gm_empty_def gm_ok_def)

lemma deftab_ok_put:
  "\<lbrakk>deftab_ok dt; stacks dt = s; ds \<noteq> []\<rbrakk> \<Longrightarrow> deftab_ok (dt\<lparr>stacks := gm_put n ds s\<rparr>)"
  using gm_put_snd [of n ds s] by (auto simp: deftab_ok_def)

lemma deftab_ok_del: "\<lbrakk>deftab_ok dt; stacks dt = s\<rbrakk> \<Longrightarrow> deftab_ok (dt\<lparr>stacks := gm_del n s\<rparr>)"
  using gm_del_snd [of n s] by (auto simp: deftab_ok_def)

lemma deftab_ok_touch: "deftab_ok dt \<Longrightarrow> deftab_ok (touch n dt)"
  by (auto simp: deftab_ok_def touch_def)

lemma deftab_ok_mutations [simp]: "deftab_ok (dt\<lparr>mutations := k\<rparr>) = deftab_ok dt"
  by (simp add: deftab_ok_def)

lemmas deftab_oks = deftab_ok_put deftab_ok_del deftab_ok_touch

text \<open>A name is in the map exactly when its stack is not empty.\<close>

lemma in_keys_iff: "deftab_ok dt \<Longrightarrow> n \<in> set (gm_keys (stacks dt)) \<longleftrightarrow> stack_of dt n \<noteq> []"
proof
  assume ok: "deftab_ok dt" and "n \<in> set (gm_keys (stacks dt))"
  then obtain ds where "gm_get (stacks dt) n = Some ds"
    by (metis gm_has_def gm_has_iff not_None_eq)
  moreover from this have "ds \<noteq> []"
    using ok by (force simp: deftab_ok_def gm_get_def dest: map_of_SomeD)
  ultimately show "stack_of dt n \<noteq> []" by (simp add: stack_of_def)
next
  assume "stack_of dt n \<noteq> []"
  then have "gm_get (stacks dt) n \<noteq> None" by (auto simp: stack_of_def split: option.splits)
  then show "n \<in> set (gm_keys (stacks dt))" by (metis gm_has_def gm_has_iff)
qed

section \<open>Folds over the keys of a map\<close>

text \<open>A pass over distinct names whose every step changes the view of its own name only.\<close>

lemma fold_view:
  assumes step: "\<And>k s m. view (step k s) m = (if m = k then h k (view s k) else view s m)"
    and "distinct ks"
  shows "view (fold step ks s) m = (if m \<in> set ks then h m (view s m) else view s m)"
  using assms(2)
proof (induction ks arbitrary: s)
  case (Cons k ks)
  then show ?case by (auto simp: step)
qed simp

lemma fold_inv: "\<lbrakk>P s; \<And>k s. \<lbrakk>k \<in> set ks; P s\<rbrakk> \<Longrightarrow> P (step k s)\<rbrakk> \<Longrightarrow> P (fold step ks s)"
  by (induction ks arbitrary: s) auto

definition view :: "'p DefTable \<Rightarrow> string \<Rightarrow> 'p DefEntry list \<times> int" where
  "view dt n = (stack_of dt n, gen_of dt n)"

section \<open>Depth snapshots\<close>

lemma truncate_stack_view:
  "view (truncate_stack n w dt) m =
    (if m = n \<and> nat w < length (stack_of dt n) then (take (nat w) (stack_of dt n), gen_of dt n + 1)
     else view dt m)"
  by (auto simp: truncate_stack_def Let_def def_view view_def nat_less_iff not_le)

lemma truncate_stack_ok: "deftab_ok dt \<Longrightarrow> deftab_ok (truncate_stack n w dt)"
  by (auto simp: truncate_stack_def Let_def def_view intro!: deftab_oks)

definition snap_depth :: "(string, int) gomap option \<Rightarrow> string \<Rightarrow> nat" where
  "snap_depth snap n = (case nm_get snap n of None \<Rightarrow> 0 | Some d \<Rightarrow> nat d)"

definition restore_view ::
  "(string, int) gomap option \<Rightarrow> string \<Rightarrow> 'p DefEntry list \<times> int \<Rightarrow> 'p DefEntry list \<times> int" where
  "restore_view snap n = (\<lambda>(ds, g).
    if nilp (nm_get snap n) \<or> snap_depth snap n < length ds then (take (snap_depth snap n) ds, g + 1)
    else (ds, g))"

lemma restore_step_view:
  "view (restore_step snap n dt) m = (if m = n then restore_view snap n (view dt n) else view dt m)"
  by (auto simp: restore_step_def restore_view_def snap_depth_def truncate_stack_view Let_def
      split: option.splits) (auto simp: view_def def_view snap_depth_def)

lemma restore_step_ok: "deftab_ok dt \<Longrightarrow> deftab_ok (restore_step snap n dt)"
  by (auto simp: restore_step_def Let_def truncate_stack_ok split: option.splits intro!: deftab_oks)

lemma DefTable_Restore_view:
  assumes "deftab_ok dt"
  shows "\<exists>dt'. DefTable_Restore snap (Some dt) = Some dt' \<and> deftab_ok dt' \<and>
    (\<forall>n. view dt' n = (if stack_of dt n = [] then view dt n else restore_view snap n (view dt n)))"
proof -
  let ?r = "fold (restore_step snap) (gm_keys (stacks dt)) dt"
  have d: "distinct (gm_keys (stacks dt))"
    using assms by (simp add: deftab_ok_def gm_ok_def gm_keys_def)
  have "view ?r n = (if n \<in> set (gm_keys (stacks dt)) then restore_view snap n (view dt n) else view dt n)" for n
    by (rule fold_view [OF restore_step_view d])
  moreover have "deftab_ok ?r"
    by (rule fold_inv) (simp_all add: assms restore_step_ok)
  ultimately show ?thesis
    by (simp add: DefTable_Restore_def in_keys_iff [OF assms])
qed

lemma fold_put_view:
  assumes "distinct (map fst xs)"
  shows "gm_get (fold (\<lambda>(k, v). gm_put k (f k v)) xs m) n =
    (case map_of xs n of Some v \<Rightarrow> Some (f n v) | None \<Rightarrow> gm_get m n)"
  using assms
proof (induction xs arbitrary: m)
  case (Cons x xs)
  obtain k v where x: "x = (k, v)" by (cases x)
  with Cons.prems have "k \<notin> fst ` set xs" by simp
  then have "map_of xs k = None" by (simp add: map_of_eq_None_iff)
  with Cons x show ?case by (auto split: option.splits)
qed simp

lemma DefTable_Snapshot_get:
  assumes "deftab_ok dt"
  shows "\<exists>s. DefTable_Snapshot (Some dt) = Some s \<and>
    (\<forall>n. gm_get s n = (if stack_of dt n = [] then None else Some (int (length (stack_of dt n)))))"
proof -
  have d: "distinct (map fst (stacks dt))" using assms by (simp add: deftab_ok_def gm_ok_def)
  have "gm_get (fold (\<lambda>(k, v). gm_put k (int (length v))) (stacks dt) gm_empty) n =
      map_option (\<lambda>v. int (length v)) (gm_get (stacks dt) n)" for n
    using fold_put_view [OF d, of "\<lambda>k v. int (length v)" gm_empty n]
    by (auto simp: gm_get_def [of "stacks dt"] split: option.splits)
  moreover have "gm_get (stacks dt) n = None" if "stack_of dt n = []" for n
    using that in_keys_iff [OF assms, of n] by (metis gm_has_def gm_has_iff)
  moreover have "gm_get (stacks dt) n = Some (stack_of dt n)" if "stack_of dt n \<noteq> []" for n
    using that by (auto simp: stack_of_def split: option.splits)
  ultimately show ?thesis
    by (fastforce simp: DefTable_Snapshot_def)
qed

lemma snap_depth_Snapshot:
  "deftab_ok dt \<Longrightarrow> snap_depth (DefTable_Snapshot (Some dt)) n = length (stack_of dt n)"
  using DefTable_Snapshot_get [of dt] by (auto simp: snap_depth_def nm_get_def)

section \<open>Content snapshots\<close>

definition snapshot_ok :: "'p EntriesSnapshot \<Rightarrow> bool" where
  "snapshot_ok s \<longleftrightarrow> gm_ok (snap_stacks s) \<and> [] \<notin> snd ` set (snap_stacks s)"

lemma SnapshotEntries_props:
  assumes "deftab_ok dt"
  shows "snap_valid (SnapshotEntries (Some dt))" "snapshot_ok (SnapshotEntries (Some dt))"
    "gm_get (snap_stacks (SnapshotEntries (Some dt))) n = gm_get (stacks dt) n"
    "stack_of dt n \<noteq> [] \<Longrightarrow> depth_in (snap_gens (SnapshotEntries (Some dt))) n = gen_of dt n"
proof -
  define F where "F = (\<lambda>(name, ds) (s :: 'a EntriesSnapshot).
    s\<lparr> snap_stacks := gm_put name ds (snap_stacks s),
       snap_gens := gm_put name (gen_of dt name) (snap_gens s) \<rparr>)"
  define z :: "'a EntriesSnapshot" where
    "z = \<lparr> snap_stacks = gm_empty, snap_gens = gm_empty, snap_valid = True \<rparr>"
  have e: "SnapshotEntries (Some dt) = fold F (stacks dt) z"
    by (simp add: SnapshotEntries_def F_def z_def)
  have st: "snap_stacks (fold F xs s) = fold (\<lambda>(k, v). gm_put k v) xs (snap_stacks s)"
    and gn: "snap_gens (fold F xs s) = fold (\<lambda>(k, v). gm_put k (gen_of dt k)) xs (snap_gens s)"
    and vl: "snap_valid (fold F xs s) = snap_valid s" for xs s
    by (induction xs arbitrary: s) (auto simp: F_def)
  have d: "distinct (map fst (stacks dt))" using assms by (simp add: deftab_ok_def gm_ok_def)
  show "snap_valid (SnapshotEntries (Some dt))" by (simp add: e vl z_def)
  have c: "snap_stacks (SnapshotEntries (Some dt)) = gm_copy (stacks dt)"
    by (simp add: e st z_def gm_copy_def gm_copy_into_def)
  show g: "gm_get (snap_stacks (SnapshotEntries (Some dt))) n = gm_get (stacks dt) n" for n
    using assms by (simp add: c deftab_ok_def)
  have "snd ` set (fold (\<lambda>(k, v). gm_put k v) xs m) \<subseteq> snd ` set xs \<union> snd ` set m"
    for xs and m :: "(string, 'a DefEntry list) gomap"
  proof (induction xs arbitrary: m)
    case (Cons x xs)
    obtain a b where x: "x = (a, b)" by (cases x)
    have "snd ` set (fold (\<lambda>(k, v). gm_put k v) xs (gm_put a b m))
        \<subseteq> insert b (snd ` set xs \<union> snd ` set m)"
      by (rule order.trans [OF Cons.IH]) (use gm_put_snd [of a b m] in blast)
    then show ?case by (simp add: x)
  qed simp
  from this [of "stacks dt" gm_empty] have "[] \<notin> snd ` set (gm_copy (stacks dt))"
    using assms by (auto simp: gm_copy_def gm_copy_into_def deftab_ok_def gm_empty_def)
  then show "snapshot_ok (SnapshotEntries (Some dt))" by (simp add: snapshot_ok_def c gm_copy_ok)
  assume "stack_of dt n \<noteq> []"
  then obtain ds where "map_of (stacks dt) n = Some ds"
    by (auto simp: stack_of_def gm_get_def split: option.splits)
  then show "depth_in (snap_gens (SnapshotEntries (Some dt))) n = gen_of dt n"
    using fold_put_view [OF d, of "\<lambda>k v. gen_of dt k" gm_empty n]
    by (simp add: e gn z_def depth_in_def)
qed

definition drop_view ::
  "'p EntriesSnapshot \<Rightarrow> string \<Rightarrow> 'p DefEntry list \<times> int \<Rightarrow> 'p DefEntry list \<times> int" where
  "drop_view s n = (\<lambda>(ds, g). if gm_has (snap_stacks s) n then (ds, g) else ([], g + 1))"

lemma drop_new_view:
  "view (drop_new s n dt) m = (if m = n then drop_view s n (view dt n) else view dt m)"
  by (auto simp: drop_new_def drop_view_def view_def Let_def def_view)

lemma put_back_view:
  "view (put_back s (n, want) dt) m =
    (if m = n then (if gen_of dt n = depth_in (snap_gens s) n then view dt n else (want, gen_of dt n + 1))
     else view dt m)"
  by (auto simp: put_back_def view_def Let_def def_view)

lemma drop_new_ok: "deftab_ok dt \<Longrightarrow> deftab_ok (drop_new s n dt)"
  by (auto simp: drop_new_def Let_def intro!: deftab_oks)

lemma put_back_ok: "\<lbrakk>deftab_ok dt; want \<noteq> []\<rbrakk> \<Longrightarrow> deftab_ok (put_back s (n, want) dt)"
  by (auto simp: put_back_def Let_def intro!: deftab_oks)

lemma fold_put_back_view:
  assumes "distinct (map fst xs)"
  shows "view (fold (put_back s) xs dt) m =
    (case map_of xs m of None \<Rightarrow> view dt m
     | Some want \<Rightarrow> if gen_of dt m = depth_in (snap_gens s) m then view dt m
                    else (want, gen_of dt m + 1))"
  using assms
proof (induction xs arbitrary: dt)
  case (Cons x xs)
  obtain k v where x: "x = (k, v)" by (cases x)
  have gen: "gen_of (put_back s (k, v) dt) m = gen_of dt m" if "m \<noteq> k" for m
    using that put_back_view [of s k v dt m] by (simp add: view_def)
  have "map_of xs k = None" using Cons.prems x by (simp add: map_of_eq_None_iff)
  with Cons x show ?case
    by (auto simp: put_back_view gen split: option.splits)
qed simp

text \<open>What the restore of a content snapshot leaves at every name.\<close>

definition entries_view ::
  "'p EntriesSnapshot \<Rightarrow> string \<Rightarrow> 'p DefEntry list \<times> int \<Rightarrow> 'p DefEntry list \<times> int" where
  "entries_view s n = (\<lambda>(ds, g).
    case gm_get (snap_stacks s) n of
      None \<Rightarrow> if ds = [] then (ds, g) else ([], g + 1)
    | Some want \<Rightarrow> if g = depth_in (snap_gens s) n then (ds, g) else (want, g + 1))"

lemma RestoreEntriesSnapshot_view:
  assumes ok: "deftab_ok dt" and s: "snap_valid s" "snapshot_ok s"
  shows "\<exists>dt'. RestoreEntriesSnapshot s (Some dt) = Some dt' \<and> deftab_ok dt' \<and>
    (\<forall>n. view dt' n = entries_view s n (view dt n))"
proof -
  let ?d = "fold (drop_new s) (gm_keys (stacks dt)) dt"
  let ?r = "fold (put_back s) (snap_stacks s) ?d"
  have d: "distinct (gm_keys (stacks dt))" "distinct (map fst (snap_stacks s))"
    using ok s by (simp_all add: deftab_ok_def snapshot_ok_def gm_ok_def gm_keys_def)
  have v: "view ?d n = (if stack_of dt n \<noteq> [] then drop_view s n (view dt n) else view dt n)" for n
    using fold_view [where step = "drop_new s" and view = view, OF drop_new_view d(1), of dt n] in_keys_iff [OF ok, of n] by simp
  have okd: "deftab_ok ?d" by (rule fold_inv) (simp_all add: ok drop_new_ok)
  have "deftab_ok ?r"
  proof (rule fold_inv [where P = deftab_ok, OF okd])
    fix k :: "string \<times> 'a DefEntry list" and t :: "'a DefTable"
    assume "k \<in> set (snap_stacks s)" "deftab_ok t"
    then show "deftab_ok (put_back s k t)"
      using s(2) put_back_ok [of t "snd k" s "fst k"] by (force simp: snapshot_ok_def)
  qed
  moreover have "view ?r n = entries_view s n (view dt n)" for n
  proof -
    have h: "gm_has (snap_stacks s) n \<longleftrightarrow> gm_get (snap_stacks s) n \<noteq> None" by (simp add: gm_has_def del: gm_has_iff)
    have g: "gen_of ?d n = snd (view ?d n)" by (simp add: view_def)
    show ?thesis
      unfolding fold_put_back_view [OF d(2)] g v
      by (auto simp: entries_view_def drop_view_def h gm_get_def [symmetric] view_def
          simp del: gm_has_iff split: option.splits)
  qed
  ultimately show ?thesis using s(1) by (simp add: RestoreEntriesSnapshot_def)
qed

section \<open>Clones\<close>

lemma DefTable_Clone_props:
  assumes "deftab_ok dt"
  shows "deftab_ok (DefTable_Clone (Some dt))" "view (DefTable_Clone (Some dt)) n = view dt n"
proof -
  have k: "gm_ok (stacks dt)" "gm_ok (gen dt)" using assms by (simp_all add: deftab_ok_def)
  show "view (DefTable_Clone (Some dt)) n = view dt n"
    using k by (simp add: DefTable_Clone_def view_def stack_of_def gen_of_def)
  have "[] \<notin> snd ` set (gm_copy (stacks dt))"
  proof
    assume "[] \<in> snd ` set (gm_copy (stacks dt))"
    then obtain n where "(n, []) \<in> set (gm_copy (stacks dt))" by auto
    then have "gm_get (gm_copy (stacks dt)) n = Some []"
      using gm_copy_ok [of "stacks dt"] by (simp add: gm_ok_def gm_get_def)
    then have "gm_get (stacks dt) n = Some []" using k by simp
    then show False using assms by (force simp: deftab_ok_def gm_get_def dest: map_of_SomeD)
  qed
  then show "deftab_ok (DefTable_Clone (Some dt))"
    by (simp add: deftab_ok_def DefTable_Clone_def gm_copy_ok)
qed

end
