(* ===== verification/Def_Props.thy ===== *)
theory Def_Props
  imports Def_Laws
begin

text \<open>
  Runs of operations on a binding table: the family of stacks they implement,
  what a generation that did not move proves, and the three ways back to an
  earlier state.
\<close>

section \<open>Runs\<close>

datatype 'p def_op =
    OpPush string "'p val"
  | OpPushType string "'p ptr option" "'p val"
  | OpPushTypeAdopted string "'p ptr option" "'p val"
  | OpPop string
  | OpReplace string "'p val"
  | OpTruncate string int
  | OpDelete string
  | OpSet string "'p val list"
  | OpRestore "(string, int) gomap option"
  | OpRestoreEntries "'p EntriesSnapshot"

fun def_exec :: "'p def_op \<Rightarrow> 'p DefTable option \<Rightarrow> 'p DefTable option" where
  "def_exec (OpPush n v) dt = DefTable_Push n v dt"
| "def_exec (OpPushType n d v) dt = PushType n d v dt"
| "def_exec (OpPushTypeAdopted n d v) dt = PushTypeAdopted n d v dt"
| "def_exec (OpPop n) dt = snd (PopEntry n dt)"
| "def_exec (OpReplace n v) dt = snd (Replace n v dt)"
| "def_exec (OpTruncate n k) dt = Truncate n k dt"
| "def_exec (OpDelete n) dt = DefTable_Delete n dt"
| "def_exec (OpSet n vs) dt = DefTable_Set n vs dt"
| "def_exec (OpRestore s) dt = DefTable_Restore s dt"
| "def_exec (OpRestoreEntries s) dt = RestoreEntriesSnapshot s dt"

text \<open>The snapshots a run may restore: those that SnapshotEntries returns.\<close>

fun def_op_ok :: "'p def_op \<Rightarrow> bool" where
  "def_op_ok (OpRestoreEntries s) \<longleftrightarrow> \<not> snap_valid s \<or> snapshot_ok s"
| "def_op_ok _ \<longleftrightarrow> True"

abbreviation value_entry :: "'p val \<Rightarrow> 'p DefEntry" where
  "value_entry v \<equiv> \<lparr> Body = v, TypeDef = None, Minted = False \<rparr>"

text \<open>The same operation on a family of stacks, the top last; \<open>g\<close> are the generations.\<close>

fun stack_spec :: "'p def_op \<Rightarrow> (string \<Rightarrow> int) \<Rightarrow> (string \<Rightarrow> 'p DefEntry list) \<Rightarrow>
    string \<Rightarrow> 'p DefEntry list" where
  "stack_spec (OpPush n v) g f = f(n := f n @ [value_entry v])"
| "stack_spec (OpPushType n d v) g f = f(n := f n @ [\<lparr> Body = v, TypeDef = d, Minted = True \<rparr>])"
| "stack_spec (OpPushTypeAdopted n d v) g f = f(n := f n @ [\<lparr> Body = v, TypeDef = d, Minted = False \<rparr>])"
| "stack_spec (OpPop n) g f = f(n := butlast (f n))"
| "stack_spec (OpReplace n v) g f =
    f(n := if f n = [] then [] else butlast (f n) @ [(last (f n))\<lparr>Body := v\<rparr>])"
| "stack_spec (OpTruncate n k) g f = f(n := take (nat k) (f n))"
| "stack_spec (OpDelete n) g f = f(n := [])"
| "stack_spec (OpSet n vs) g f = f(n := map value_entry vs)"
| "stack_spec (OpRestore s) g f = (\<lambda>n. take (snap_depth s n) (f n))"
| "stack_spec (OpRestoreEntries s) g f =
    (if \<not> snap_valid s then f
     else (\<lambda>n. case gm_get (snap_stacks s) n of
         None \<Rightarrow> []
       | Some want \<Rightarrow> if g n = depth_in (snap_gens s) n then f n else want))"

section \<open>One operation\<close>

text \<open>What every operation does: stacks as specified, generations forward, and a generation
  that did not move means a stack that did not change.\<close>

definition follows :: "'p def_op \<Rightarrow> 'p DefTable \<Rightarrow> 'p DefTable \<Rightarrow> bool" where
  "follows op dt dt' \<longleftrightarrow> deftab_ok dt' \<and>
    (\<forall>n. stack_of dt' n = stack_spec op (gen_of dt) (stack_of dt) n) \<and>
    (\<forall>n. gen_of dt n \<le> gen_of dt' n) \<and>
    (\<forall>n. gen_of dt' n = gen_of dt n \<longrightarrow> stack_of dt' n = stack_of dt n)"

lemma push_entry_follows:
  assumes "deftab_ok dt" "\<And>f g. stack_spec op g f = f(n := f n @ [e])"
  shows "follows op dt (push_entry n e dt)"
  using assms by (auto simp: follows_def push_entry_def Let_def def_view intro!: deftab_oks)

lemma PopEntry_follows:
  assumes "deftab_ok dt"
  shows "\<exists>dt'. snd (PopEntry n (Some dt)) = Some dt' \<and> follows (OpPop n) dt dt'"
proof (cases "stack_of dt n = []")
  case True
  then show ?thesis using assms by (simp add: PopEntry_def follows_def Let_def)
next
  case False
  then have "length (stack_of dt n) \<noteq> 1 \<Longrightarrow> take (length (stack_of dt n) - 1) (stack_of dt n) \<noteq> []"
    by (cases "stack_of dt n") auto
  with False assms show ?thesis
    by (auto simp: PopEntry_def follows_def Let_def def_view butlast_conv_take length_Suc_conv
        intro!: deftab_oks)
qed

lemma Replace_follows:
  assumes "deftab_ok dt"
  shows "\<exists>dt'. snd (Replace n v (Some dt)) = Some dt' \<and> follows (OpReplace n v) dt dt'"
proof -
  have "ds[length ds - 1 := (ds ! (length ds - 1))\<lparr>Body := v\<rparr>] =
      butlast ds @ [(last ds)\<lparr>Body := v\<rparr>]" if "ds \<noteq> []" for ds :: "'a DefEntry list"
    using that by (cases ds rule: rev_cases) (auto simp: list_update_append)
  with assms show ?thesis
    by (auto simp: Replace_def follows_def Let_def def_view intro!: deftab_oks)
qed

lemma view_fst_snd: "view dt n = (a, b) \<longleftrightarrow> stack_of dt n = a \<and> gen_of dt n = b"
  by (auto simp: view_def)

lemma Truncate_follows: "deftab_ok dt \<Longrightarrow> follows (OpTruncate n k) dt (truncate_stack n k dt)"
proof -
  assume ok: "deftab_ok dt"
  have "stack_of (truncate_stack n k dt) m = (if m = n then take (nat k) (stack_of dt n) else stack_of dt m)"
    "gen_of (truncate_stack n k dt) m =
      (if m = n \<and> nat k < length (stack_of dt n) then gen_of dt n + 1 else gen_of dt m)" for m
    using truncate_stack_view [of n k dt m] by (auto simp: view_def split: if_splits)
  then show ?thesis by (auto simp: follows_def truncate_stack_ok ok)
qed

lemma Delete_follows:
  "deftab_ok dt \<Longrightarrow> \<exists>dt'. DefTable_Delete n (Some dt) = Some dt' \<and> follows (OpDelete n) dt dt'"
  by (auto simp: DefTable_Delete_def follows_def Let_def def_view intro!: deftab_oks)

lemma Set_follows:
  "deftab_ok dt \<Longrightarrow> \<exists>dt'. DefTable_Set n vs (Some dt) = Some dt' \<and> follows (OpSet n vs) dt dt'"
  by (auto simp: DefTable_Set_def follows_def Let_def def_view intro!: deftab_oks)

lemma Restore_follows:
  assumes "deftab_ok dt"
  shows "\<exists>dt'. DefTable_Restore s (Some dt) = Some dt' \<and> follows (OpRestore s) dt dt'"
proof -
  obtain dt' where d: "DefTable_Restore s (Some dt) = Some dt'" "deftab_ok dt'"
    and v: "\<And>n. view dt' n = (if stack_of dt n = [] then view dt n else restore_view s n (view dt n))"
    using DefTable_Restore_view [OF assms] by blast
  have "stack_of dt' n = stack_spec (OpRestore s) (gen_of dt) (stack_of dt) n \<and> gen_of dt n \<le> gen_of dt' n \<and>
      (gen_of dt' n = gen_of dt n \<longrightarrow> stack_of dt' n = stack_of dt n)" for n
    using v [of n] by (auto simp: view_def restore_view_def split: if_splits)
  then show ?thesis using d unfolding follows_def by blast
qed

lemma RestoreEntries_follows:
  assumes "deftab_ok dt" "\<not> snap_valid s \<or> snapshot_ok s"
  shows "\<exists>dt'. RestoreEntriesSnapshot s (Some dt) = Some dt' \<and> follows (OpRestoreEntries s) dt dt'"
proof (cases "snap_valid s")
  case False
  then show ?thesis using assms by (simp add: RestoreEntriesSnapshot_def follows_def)
next
  case True
  then obtain dt' where d: "RestoreEntriesSnapshot s (Some dt) = Some dt'" "deftab_ok dt'"
    and v: "\<And>n. view dt' n = entries_view s n (view dt n)"
    using RestoreEntriesSnapshot_view [OF assms(1)] assms(2) by blast
  have "stack_of dt' n = stack_spec (OpRestoreEntries s) (gen_of dt) (stack_of dt) n \<and>
      gen_of dt n \<le> gen_of dt' n \<and> (gen_of dt' n = gen_of dt n \<longrightarrow> stack_of dt' n = stack_of dt n)" for n
    using v [of n] True by (auto simp: view_def entries_view_def split: if_splits option.splits)
  then show ?thesis using d unfolding follows_def by blast
qed

lemma def_exec_follows:
  assumes "deftab_ok dt" "def_op_ok op"
  shows "\<exists>dt'. def_exec op (Some dt) = Some dt' \<and> follows op dt dt'"
  using assms
  by (cases op)
    (auto simp: DefTable_Push_def PushType_def PushTypeAdopted_def Truncate_def
      PopEntry_follows Replace_follows Truncate_follows Delete_follows Set_follows
      Restore_follows RestoreEntries_follows intro!: push_entry_follows)

section \<open>Runs of operations\<close>

abbreviation def_run :: "'p def_op list \<Rightarrow> 'p DefTable option \<Rightarrow> 'p DefTable option" where
  "def_run ops dt \<equiv> fold def_exec ops dt"

lemma def_run_follows:
  assumes "deftab_ok dt" "list_all def_op_ok ops"
  shows "\<exists>dt'. def_run ops (Some dt) = Some dt' \<and> deftab_ok dt' \<and>
    (\<forall>n. gen_of dt n \<le> gen_of dt' n) \<and>
    (\<forall>n. gen_of dt' n = gen_of dt n \<longrightarrow> stack_of dt' n = stack_of dt n)"
  using assms
proof (induction ops arbitrary: dt)
  case (Cons op ops)
  then obtain d where d: "def_exec op (Some dt) = Some d" "follows op dt d"
    using def_exec_follows [of dt op] by auto
  then have "deftab_ok d" "list_all def_op_ok ops" using Cons.prems by (auto simp: follows_def)
  then obtain dt' where r: "def_run ops (Some d) = Some dt'" "deftab_ok dt'"
    and g: "\<And>n. gen_of d n \<le> gen_of dt' n"
    and s: "\<And>n. gen_of dt' n = gen_of d n \<Longrightarrow> stack_of dt' n = stack_of d n"
    using Cons.IH [of d] by blast
  have g0: "gen_of dt n \<le> gen_of d n" and
    s0: "gen_of d n = gen_of dt n \<Longrightarrow> stack_of d n = stack_of dt n" for n
    using d(2) unfolding follows_def by blast+
  have "gen_of dt n \<le> gen_of dt' n" for n using g0 [of n] g [of n] by linarith
  moreover have "stack_of dt' n = stack_of dt n" if "gen_of dt' n = gen_of dt n" for n
    using that g0 [of n] g [of n] s0 [of n] s [of n] by simp
  ultimately show ?case using r d(1) by simp
qed simp

text \<open>A run of pushes only adds entries on top.\<close>

fun pushes :: "'p def_op \<Rightarrow> bool" where
  "pushes (OpPush n v) \<longleftrightarrow> True"
| "pushes (OpPushType n d v) \<longleftrightarrow> True"
| "pushes (OpPushTypeAdopted n d v) \<longleftrightarrow> True"
| "pushes _ \<longleftrightarrow> False"

lemma pushes_prefix:
  assumes "deftab_ok dt" "list_all pushes ops" "def_run ops (Some dt) = Some dt'"
  shows "take (length (stack_of dt n)) (stack_of dt' n) = stack_of dt n"
  using assms
proof (induction ops arbitrary: dt)
  case (Cons op ops)
  have "def_op_ok op" using Cons.prems(2) by (cases op) auto
  with Cons.prems(1) obtain d where d: "def_exec op (Some dt) = Some d" "follows op dt d"
    using def_exec_follows by blast
  have ok: "deftab_ok d" using d(2) by (simp add: follows_def)
  have r: "def_run ops (Some d) = Some dt'" using Cons.prems(3) d(1) by simp
  have "take (length (stack_of d n)) (stack_of dt' n) = stack_of d n"
    using Cons.IH [OF ok _ r] Cons.prems(2) by simp
  moreover have "\<exists>x. stack_of d n = stack_of dt n @ x"
    using Cons.prems(2) d(2) by (cases op) (auto simp: follows_def)
  ultimately show ?case by (metis append_eq_conv_conj append_take_drop_id append.assoc)
qed simp

section \<open>Properties\<close>

definition sample_defs :: "nat DefTable" where
  "sample_defs = the (DefTable_Push ''x'' zero_Value (Some NewDefTable))"

lemma sample_defs_ok: "deftab_ok sample_defs"
  using def_exec_follows [OF NewDefTable_ok, of "OpPush ''x'' (zero_Value :: nat val)"]
  by (auto simp: sample_defs_def follows_def)

lemma sample_defs_stack [simp]: "stack_of sample_defs ''x'' = [value_entry zero_Value]"
  by (simp add: sample_defs_def DefTable_Push_def push_entry_def Let_def def_view)
    (simp add: stack_of_def NewDefTable_def)

text \<open>C34: The binding table implements a family of stacks: every push, pop, replacement,
  truncation, deletion, overwrite and restore keeps the table well formed (no name is stored
  with an empty stack) and does to every name's stack what the operation does to the family.\<close>

theorem deftable_refines_stacks:
  assumes "deftab_ok dt" and "def_op_ok op"
  shows "\<exists>dt'. def_exec op (Some dt) = Some dt' \<and> deftab_ok dt' \<and>
    (\<forall>n. stack_of dt' n = stack_spec op (gen_of dt) (stack_of dt) n)"
  using def_exec_follows [OF assms] unfolding follows_def by blast

lemma deftable_refines_stacks_witness:
  "\<exists>dt'. def_exec (OpPop ''x'') (Some sample_defs) = Some dt' \<and> deftab_ok dt' \<and>
    (\<forall>n. stack_of dt' n = stack_spec (OpPop ''x'') (gen_of sample_defs) (stack_of sample_defs) n)"
  by (rule deftable_refines_stacks [OF sample_defs_ok]) simp

text \<open>C32: A name's generation only moves forward, and two equal readings of it prove that its
  stack did not change in between, whatever operations ran on the table. This is what makes the
  generation a sound key for the dispatch cache.\<close>

theorem generation_sound:
  assumes "deftab_ok dt" and "list_all def_op_ok ops"
  shows "Gen (Some dt) n \<le> Gen (def_run ops (Some dt)) n \<and>
    (Gen (def_run ops (Some dt)) n = Gen (Some dt) n \<longrightarrow>
      Entries (def_run ops (Some dt)) n = Entries (Some dt) n)"
  using def_run_follows [OF assms] by (auto simp: Gen_def Entries_def)

lemma generation_sound_witness:
  "Gen (Some sample_defs) ''x'' \<le> Gen (def_run [OpPop ''x'', OpPush ''y'' zero_Value] (Some sample_defs)) ''x''"
  using generation_sound [OF sample_defs_ok, of "[OpPop ''x'', OpPush ''y'' zero_Value]" "''x''"] by simp

text \<open>A content snapshot restored in place after any run of operations brings every name
  back to the stack it had, pops and replacements at equal depth included, and moves no
  generation backward.\<close>

theorem entries_snapshot_roundtrip:
  assumes "deftab_ok dt" and "list_all def_op_ok ops"
  shows "Entries (RestoreEntriesSnapshot (SnapshotEntries (Some dt)) (def_run ops (Some dt))) n =
      Entries (Some dt) n \<and>
    Gen (def_run ops (Some dt)) n \<le>
      Gen (RestoreEntriesSnapshot (SnapshotEntries (Some dt)) (def_run ops (Some dt))) n"
proof -
  let ?s = "SnapshotEntries (Some dt)"
  obtain d where d: "def_run ops (Some dt) = Some d" "deftab_ok d"
    and g: "\<And>n. gen_of d n = gen_of dt n \<Longrightarrow> stack_of d n = stack_of dt n"
    using def_run_follows [OF assms] by blast
  note S = SnapshotEntries_props [OF assms(1)]
  obtain e where e: "RestoreEntriesSnapshot ?s (Some d) = Some e" "follows (OpRestoreEntries ?s) d e"
    using RestoreEntries_follows [OF d(2), of ?s] S(2) by blast
  have "stack_of e n = stack_of dt n"
  proof (cases "gm_get (stacks dt) n")
    case None
    then show ?thesis using e(2) S(1) S(3) [of n] by (simp add: follows_def stack_of_def [of dt])
  next
    case (Some ds)
    then have "stack_of dt n = ds" "ds \<noteq> []"
      using in_keys_iff [OF assms(1), of n] by (auto simp: stack_of_def gm_has_iff [symmetric] gm_has_def simp del: gm_has_iff)
    with Some show ?thesis using e(2) S(1) S(3) [of n] S(4) [of n] g [of n] by (simp add: follows_def)
  qed
  with e d show ?thesis by (auto simp: Entries_def Gen_def follows_def)
qed

lemma entries_snapshot_roundtrip_witness:
  "Entries (RestoreEntriesSnapshot (SnapshotEntries (Some sample_defs))
     (def_run [OpDelete ''x'', OpPush ''y'' zero_Value] (Some sample_defs))) ''x'' = [value_entry zero_Value]"
  using entries_snapshot_roundtrip [OF sample_defs_ok, of "[OpDelete ''x'', OpPush ''y'' zero_Value]" "''x''"]
  by (simp add: Entries_def)

text \<open>A depth snapshot restored later truncates every stack to the depth it had: after a
  region that only pushed, every name is back at its stack; a name bound in the region is
  deleted.\<close>

theorem depth_snapshot_unwinds:
  assumes "deftab_ok dt" and "list_all pushes ops"
  shows "Entries (DefTable_Restore (DefTable_Snapshot (Some dt)) (def_run ops (Some dt))) n =
    Entries (Some dt) n"
proof -
  have "def_op_ok op" if "pushes op" for op :: "'a def_op" using that by (cases op) auto
  then have "list_all def_op_ok ops" using assms(2) by (auto simp: list_all_iff)
  then obtain d where d: "def_run ops (Some dt) = Some d" "deftab_ok d"
    using def_run_follows [OF assms(1)] by blast
  obtain e where "DefTable_Restore (DefTable_Snapshot (Some dt)) (Some d) = Some e"
    "follows (OpRestore (DefTable_Snapshot (Some dt))) d e"
    using Restore_follows [OF d(2)] by blast
  with d(1) show ?thesis
    using pushes_prefix [OF assms d(1), of n] snap_depth_Snapshot [OF assms(1), of n]
    by (simp add: Entries_def follows_def)
qed

lemma depth_snapshot_unwinds_witness:
  "Entries (DefTable_Restore (DefTable_Snapshot (Some sample_defs))
     (def_run [OpPush ''x'' zero_Value, OpPush ''y'' zero_Value] (Some sample_defs))) ''y'' =
   Entries (Some sample_defs) ''y''"
  by (rule depth_snapshot_unwinds [OF sample_defs_ok]) simp

text \<open>TruncationCoveredBy answers whether truncating every stack to the snapshot's depths
  removes bindings of allowed names only.\<close>

theorem truncation_covered:
  assumes "deftab_ok dt"
  shows "TruncationCoveredBy (Some dt) snap allowed \<longleftrightarrow>
    (\<forall>n. Entries (DefTable_Restore (Some snap) (Some dt)) n \<noteq> Entries (Some dt) n \<longrightarrow> allowed n)"
proof -
  obtain e where e: "DefTable_Restore (Some snap) (Some dt) = Some e" "follows (OpRestore (Some snap)) dt e"
    using Restore_follows [OF assms] by blast
  have r: "Entries (DefTable_Restore (Some snap) (Some dt)) n =
      take (nat (depth_in snap n)) (stack_of dt n)" for n
    using e by (auto simp: Entries_def follows_def snap_depth_def nm_get_def depth_in_def split: option.splits)
  have m: "(n, ds) \<in> set (stacks dt) \<longleftrightarrow> stack_of dt n = ds \<and> ds \<noteq> []" for n ds
  proof -
    have "(n, ds) \<in> set (stacks dt) \<longleftrightarrow> map_of (stacks dt) n = Some ds"
      using assms by (simp add: deftab_ok_def gm_ok_def)
    moreover have "map_of (stacks dt) n \<noteq> Some []"
      using assms by (force simp: deftab_ok_def dest: map_of_SomeD)
    ultimately show ?thesis by (auto simp: stack_of_def gm_get_def split: option.splits)
  qed
  have "TruncationCoveredBy (Some dt) snap allowed \<longleftrightarrow>
      (\<forall>n. stack_of dt n \<noteq> [] \<and> int (length (stack_of dt n)) > depth_in snap n \<longrightarrow> allowed n)"
    by (auto simp: TruncationCoveredBy_def list_all_iff m)
  also have "\<dots> \<longleftrightarrow> (\<forall>n. take (nat (depth_in snap n)) (stack_of dt n) \<noteq> stack_of dt n \<longrightarrow> allowed n)"
  proof -
    have "stack_of dt n \<noteq> [] \<and> int (length (stack_of dt n)) > depth_in snap n \<longleftrightarrow>
        take (nat (depth_in snap n)) (stack_of dt n) \<noteq> stack_of dt n" for n
      by (cases "0 \<le> depth_in snap n") (auto simp: not_le nat_less_iff le_nat_iff)
    then show ?thesis by simp
  qed
  finally show ?thesis unfolding r by (simp add: Entries_def)
qed

lemma truncation_covered_witness:
  "TruncationCoveredBy (Some sample_defs) [] (\<lambda>n. n = ''x'') \<longleftrightarrow>
    (\<forall>n. Entries (DefTable_Restore (Some []) (Some sample_defs)) n \<noteq> Entries (Some sample_defs) n \<longrightarrow>
      n = ''x'')"
  by (rule truncation_covered [OF sample_defs_ok])

text \<open>Popping a pushed binding returns it and restores every stack; while it is on top,
  the name denotes its body, or its lattice node when it is a type binding. The bound names are
  exactly those Has answers for.\<close>

theorem push_pop_roundtrip:
  assumes "deftab_ok dt"
  shows "\<exists>t. PushType n d v (Some dt) = Some t \<and>
    DefTable_Top (Some t) n = (case d of None \<Rightarrow> (v, True) | Some d \<Rightarrow> (NewTypeLiteral (Some d), True)) \<and>
    fst (PopEntry n (Some t)) = (\<lparr> Body = v, TypeDef = d, Minted = True \<rparr>, True) \<and>
    (\<forall>m. Entries (snd (PopEntry n (Some t))) m = Entries (Some dt) m) \<and>
    set (Names (Some t)) = {m. Has (Some t) m} \<and> n \<in> set (Names (Some t))"
proof -
  obtain t where t: "PushType n d v (Some dt) = Some t" "follows (OpPushType n d v) dt t"
    using def_exec_follows [OF assms, of "OpPushType n d v"] by auto
  then have s: "stack_of t n = stack_of dt n @ [\<lparr> Body = v, TypeDef = d, Minted = True \<rparr>]"
    "deftab_ok t" "\<And>m. m \<noteq> n \<Longrightarrow> stack_of t m = stack_of dt m" by (auto simp: follows_def)
  obtain u where u: "snd (PopEntry n (Some t)) = Some u" "follows (OpPop n) t u"
    using PopEntry_follows [OF s(2)] by blast
  have "fst (PopEntry n (Some t)) = (\<lparr> Body = v, TypeDef = d, Minted = True \<rparr>, True)"
    using s(1) by (simp add: PopEntry_def Let_def nth_append)
  moreover have "Entries (snd (PopEntry n (Some t))) m = Entries (Some dt) m" for m
    using u s by (cases "m = n") (auto simp: Entries_def follows_def)
  moreover have "set (Names (Some t)) = {m. Has (Some t) m}"
    using in_keys_iff [OF s(2)] by (auto simp: Names_def Has_def)
  moreover have "Has (Some t) n" using s(1) by (simp add: Has_def)
  moreover have "DefTable_Top (Some t) n = (case d of None \<Rightarrow> (v, True) | Some d \<Rightarrow> (NewTypeLiteral (Some d), True))"
    using s(1) by (simp add: DefTable_Top_def Let_def nth_append split: option.splits)
  ultimately show ?thesis using t(1) by auto
qed

lemma push_pop_roundtrip_witness:
  "\<exists>t. PushType ''T'' None zero_Value (Some sample_defs) = Some t \<and>
    DefTable_Top (Some t) ''T'' = (zero_Value, True)"
  using push_pop_roundtrip [OF sample_defs_ok, of "''T''" None zero_Value] by auto

section \<open>What the mutation count does not see\<close>

text \<open>Two equal readings of Mutations do not prove that no binding changed: Delete, Set,
  Replace, Truncate and Restore change bindings without counting.\<close>

lemma mutations_miss_changes:
  "Mutations (DefTable_Delete ''x'' (Some sample_defs)) = Mutations (Some sample_defs) \<and>
   Has (Some sample_defs) ''x'' \<and> \<not> Has (DefTable_Delete ''x'' (Some sample_defs)) ''x''"
proof -
  have "stack_of (sample_defs\<lparr>stacks := gm_del ''x'' (stacks sample_defs)\<rparr>) ''x'' = []"
    by (simp add: def_view)
  then show ?thesis
    by (simp add: DefTable_Delete_def Mutations_def Has_def Let_def def_view)
qed

end
