(* ===== verification/Binding_Sandbox.thy ===== *)
theory Binding_Sandbox
  imports Def_Props
begin

text \<open>
  The part of a registry that a compile pass can roll back: the binding table
  behind its pointer, the dispatch cache keyed by generations
  (core/go/registry.go), the module ledger (core/go/modules.go), and the narrow
  binding sandbox (core/go/binding_sandbox.go).

  Binding tables and ledger maps are shared through pointers, so they live in
  heaps and the registry holds their addresses; address \<open>i\<close> is the i-th object
  allocated.  A function definition, a module descriptor and the aggregate of a
  dispatch are type parameters; how a bound value is read as a function and how
  functions are aggregated are arguments of Lookup.
\<close>

section \<open>State\<close>

text \<open>The two callbacks of a module registry are told apart by a number.\<close>

record ModuleRegistry =
  Loaded :: "nat option"
  mod_seq :: int
  InitFunc :: "nat option"
  Resolver :: "nat option"

record ('p, 'f, 'd) Registry =
  def_heap :: "'p DefTable list"
  ledger_heap :: "(string, 'd) gomap list"
  Defs :: "nat option"
  Types :: "'p TypeTable option"
  Modules :: "ModuleRegistry option"
  dispatchCache :: "(string, int \<times> 'f option) gomap option"
  analysisActive :: bool

text \<open>The table a pointer refers to.\<close>

definition table_at :: "('p, 'f, 'd) Registry \<Rightarrow> nat option \<Rightarrow> 'p DefTable option" where
  "table_at r a = map_option (\<lambda>a. def_heap r ! a) a"

definition live :: "('p, 'f, 'd) Registry \<Rightarrow> 'p DefTable option" where
  "live r = table_at r (Defs r)"

definition new_table :: "'p DefTable \<Rightarrow> ('p, 'f, 'd) Registry \<Rightarrow> nat \<times> ('p, 'f, 'd) Registry" where
  "new_table t r = (length (def_heap r), r\<lparr>def_heap := def_heap r @ [t]\<rparr>)"

definition new_ledger :: "(string, 'd) gomap \<Rightarrow> ('p, 'f, 'd) Registry \<Rightarrow> nat \<times> ('p, 'f, 'd) Registry" where
  "new_ledger m r = (length (ledger_heap r), r\<lparr>ledger_heap := ledger_heap r @ [m]\<rparr>)"

text \<open>An operation of the binding table at an address, and through the registry's pointer.\<close>

definition write_table :: "nat \<Rightarrow> 'p def_op \<Rightarrow> ('p, 'f, 'd) Registry \<Rightarrow> ('p, 'f, 'd) Registry" where
  "write_table a op r =
    r\<lparr>def_heap := (def_heap r)[a := the (def_exec op (Some (def_heap r ! a)))]\<rparr>"

definition on_defs :: "'p def_op \<Rightarrow> ('p, 'f, 'd) Registry \<Rightarrow> ('p, 'f, 'd) Registry" where
  "on_defs op r = (case Defs r of None \<Rightarrow> r | Some a \<Rightarrow> write_table a op r)"

section \<open>Dispatch cache\<close>

definition cache_get :: "(string, int \<times> 'f option) gomap option \<Rightarrow> string \<Rightarrow> int \<Rightarrow> 'f option \<times> bool" where
  "cache_get c name g =
    (case c of None \<Rightarrow> (None, False)
     | Some m \<Rightarrow>
         (case gm_get m name of None \<Rightarrow> (None, False)
          | Some (eg, fn) \<Rightarrow> if eg \<noteq> g then (None, False) else (fn, True)))"

definition cache_put :: "string \<Rightarrow> int \<Rightarrow> 'f option \<Rightarrow> (string, int \<times> 'f option) gomap option \<Rightarrow>
    (string, int \<times> 'f option) gomap option" where
  "cache_put name g fn = map_option (gm_put name (g, fn))"

definition cache_reset :: "(string, int \<times> 'f option) gomap option \<Rightarrow> (string, int \<times> 'f option) gomap option" where
  "cache_reset c = map_option (\<lambda>_. gm_empty) c"

text \<open>
  The functions bound to a name, newest first, up to the first word extension.
  \<open>as_fn\<close> reads a bound value as a function, \<open>Extends\<close> is its field.
\<close>

fun collect_fns :: "('p val \<Rightarrow> 'e option) \<Rightarrow> ('e \<Rightarrow> string) \<Rightarrow> 'p val list \<Rightarrow> 'e list" where
  "collect_fns as_fn Extends [] = []"
| "collect_fns as_fn Extends (v # vs) =
    (case as_fn v of
       None \<Rightarrow> collect_fns as_fn Extends vs
     | Some f \<Rightarrow> f # (if Extends f \<noteq> [] then [] else collect_fns as_fn Extends vs))"

definition lookupUncached ::
  "('p val \<Rightarrow> 'e option) \<Rightarrow> ('e \<Rightarrow> string) \<Rightarrow> (string \<Rightarrow> 'e list \<Rightarrow> 'f option) \<Rightarrow>
    string \<Rightarrow> ('p, 'f, 'd) Registry \<Rightarrow> 'f option" where
  "lookupUncached as_fn Extends aggregateDispatch name r =
    (let entries = collect_fns as_fn Extends (rev (Stack (live r) name))
     in if length entries = 0 then None else aggregateDispatch name entries)"

definition registry_Lookup ::
  "('p val \<Rightarrow> 'e option) \<Rightarrow> ('e \<Rightarrow> string) \<Rightarrow> (string \<Rightarrow> 'e list \<Rightarrow> 'f option) \<Rightarrow>
    string \<Rightarrow> ('p, 'f, 'd) Registry \<Rightarrow> 'f option \<times> ('p, 'f, 'd) Registry" where
  "registry_Lookup as_fn Extends aggregateDispatch name r =
    (if analysisActive r then (lookupUncached as_fn Extends aggregateDispatch name r, r)
     else let g = Gen (live r) name in
       case cache_get (dispatchCache r) name g of
         (fn, True) \<Rightarrow> (fn, r)
       | (_, False) \<Rightarrow>
           let fn = lookupUncached as_fn Extends aggregateDispatch name r
           in (fn, r\<lparr>dispatchCache := cache_put name g fn (dispatchCache r)\<rparr>))"

section \<open>Module registry\<close>

definition NewModuleRegistry :: "('p, 'f, 'd) Registry \<Rightarrow> ModuleRegistry \<times> ('p, 'f, 'd) Registry" where
  "NewModuleRegistry r =
    (let (a, r) = new_ledger gm_empty r
     in (\<lparr> Loaded = Some a, mod_seq = 0, InitFunc = None, Resolver = None \<rparr>, r))"

definition InheritConfig :: "ModuleRegistry option \<Rightarrow> ModuleRegistry option \<Rightarrow> ModuleRegistry option" where
  "InheritConfig m parent =
    (case (m, parent) of
       (Some m', Some p) \<Rightarrow> Some (m'\<lparr> InitFunc := InitFunc p, Resolver := Resolver p \<rparr>)
     | _ \<Rightarrow> m)"

definition LoadedDesc :: "ModuleRegistry option \<Rightarrow> string \<Rightarrow> ('p, 'f, 'd) Registry \<Rightarrow> 'd option" where
  "LoadedDesc m name r =
    (case m of None \<Rightarrow> None
     | Some m \<Rightarrow> (case Loaded m of None \<Rightarrow> None | Some a \<Rightarrow> gm_get (ledger_heap r ! a) name))"

definition IsLoaded :: "ModuleRegistry option \<Rightarrow> string \<Rightarrow> ('p, 'f, 'd) Registry \<Rightarrow> bool" where
  "IsLoaded m name r =
    (case m of None \<Rightarrow> False
     | Some m \<Rightarrow> (case Loaded m of None \<Rightarrow> False | Some a \<Rightarrow> gm_has (ledger_heap r ! a) name))"

definition MarkLoaded :: "string \<Rightarrow> 'd \<Rightarrow> ('p, 'f, 'd) Registry \<Rightarrow> ('p, 'f, 'd) Registry" where
  "MarkLoaded name desc r =
    (case Modules r of None \<Rightarrow> r
     | Some m \<Rightarrow>
         let (a, r) = (case Loaded m of Some a \<Rightarrow> (a, r) | None \<Rightarrow> new_ledger gm_empty r)
         in r\<lparr> Modules := Some (m\<lparr>Loaded := Some a\<rparr>),
               ledger_heap := (ledger_heap r)[a := gm_put name desc (ledger_heap r ! a)] \<rparr>)"

text \<open>\<open>fmt.Sprintf("mod_%d", n)\<close>.\<close>

fun dec_rev :: "nat \<Rightarrow> string" where
  "dec_rev n = (if n < 10 then [char_of (48 + n)] else char_of (48 + n mod 10) # dec_rev (n div 10))"

declare dec_rev.simps [simp del]

definition go_itoa :: "int \<Rightarrow> string" where
  "go_itoa i = (if i < 0 then CHR ''-'' # rev (dec_rev (nat (- i))) else rev (dec_rev (nat i)))"

definition NextID :: "ModuleRegistry option \<Rightarrow> string \<times> ModuleRegistry option" where
  "NextID m =
    (case m of None \<Rightarrow> (''mod_0'', None)
     | Some m \<Rightarrow> let m = m\<lparr>mod_seq := mod_seq m + 1\<rparr> in (''mod_'' @ go_itoa (mod_seq m), Some m))"

section \<open>The sandbox\<close>

record 'p BindingSandbox =
  sb_defs :: "nat option"
  sb_typeIDs :: "(string, 'p ptr) gomap option"
  sb_modLoaded :: "nat option"
  sb_modSeq :: int
  sb_valid :: bool

definition zero_BindingSandbox :: "'p BindingSandbox" where
  "zero_BindingSandbox = \<lparr> sb_defs = None, sb_typeIDs = None, sb_modLoaded = None, sb_modSeq = 0,
     sb_valid = False \<rparr>"

text \<open>Reading a ledger through a possibly nil map.\<close>

definition ledger_at :: "('p, 'f, 'd) Registry \<Rightarrow> nat option \<Rightarrow> (string, 'd) gomap" where
  "ledger_at r a = (case a of None \<Rightarrow> gm_empty | Some a \<Rightarrow> ledger_heap r ! a)"

definition SnapshotBindings ::
  "('p, 'f, 'd) Registry option \<Rightarrow> 'p BindingSandbox \<times> ('p, 'f, 'd) Registry option" where
  "SnapshotBindings r =
    (case r of None \<Rightarrow> (zero_BindingSandbox, None)
     | Some r \<Rightarrow>
         let (a, r) = new_table (DefTable_Clone (live r)) r;
             s = \<lparr> sb_defs = Some a, sb_typeIDs = idSnapshot (Types r), sb_modLoaded = None,
                   sb_modSeq = 0, sb_valid = True \<rparr>
         in (case Modules r of
               None \<Rightarrow> (s, Some r)
             | Some m \<Rightarrow>
                 let (l, r) = new_ledger (gm_copy (ledger_at r (Loaded m))) r
                 in (s\<lparr> sb_modSeq := mod_seq m, sb_modLoaded := Some l \<rparr>, Some r)))"

definition RestoreBindings ::
  "'p BindingSandbox \<Rightarrow> ('p, 'f, 'd) Registry option \<Rightarrow> ('p, 'f, 'd) Registry option" where
  "RestoreBindings s r =
    (case r of None \<Rightarrow> None
     | Some r0 \<Rightarrow>
         if \<not> sb_valid s then r
         else let r1 = r0\<lparr> Defs := sb_defs s, dispatchCache := cache_reset (dispatchCache r0),
                           Types := fst (readmitRetired (Types r0) (sb_typeIDs s)) \<rparr>
              in Some (case Modules r1 of
                   None \<Rightarrow> r1
                 | Some m \<Rightarrow> r1\<lparr> Modules := Some (m\<lparr> mod_seq := sb_modSeq s, Loaded := sb_modLoaded s \<rparr>) \<rparr>))"

definition RestoreBindingsForReplay ::
  "'p BindingSandbox \<Rightarrow> ('p, 'f, 'd) Registry option \<Rightarrow> ('p, 'f, 'd) Registry option" where
  "RestoreBindingsForReplay s r =
    (case r of None \<Rightarrow> None
     | Some r0 \<Rightarrow>
         if \<not> sb_valid s then r
         else let (a, r1) = new_table (DefTable_Clone (table_at r0 (sb_defs s))) r0
              in Some (r1\<lparr> Defs := Some a, dispatchCache := cache_reset (dispatchCache r1),
                           Types := fst (readmitRetired (Types r1) (sb_typeIDs s)) \<rparr>))"

definition SwapDefs ::
  "nat option \<Rightarrow> ('p, 'f, 'd) Registry option \<Rightarrow> nat option \<times> ('p, 'f, 'd) Registry option" where
  "SwapDefs dt r =
    (case (r, dt) of
       (Some r0, Some a) \<Rightarrow>
         (Defs r0, Some (r0\<lparr> Defs := dt, dispatchCache := cache_reset (dispatchCache r0) \<rparr>))
     | _ \<Rightarrow> (None, r))"

end
