(* ===== verification/Sandbox_Props.thy ===== *)
theory Sandbox_Props
  imports Binding_Sandbox Type_Laws Builtins
begin

text \<open>
  The registry as a state machine: operations of any binding table, lookups, type
  changes, module loads, snapshots, both restores and the table swap.  The
  dispatch cache never serves a stale aggregate, and a restore brings back the
  bindings of the snapshot whatever ran in between.
\<close>

section \<open>Invariant\<close>

definition registry_ok :: "('p, 'f, 'd) Registry \<Rightarrow> bool" where
  "registry_ok r \<longleftrightarrow>
    (\<forall>t \<in> set (def_heap r). deftab_ok t) \<and>
    (\<forall>a. Defs r = Some a \<longrightarrow> a < length (def_heap r)) \<and>
    (\<forall>m a. Modules r = Some m \<longrightarrow> Loaded m = Some a \<longrightarrow> a < length (ledger_heap r)) \<and>
    (\<forall>m \<in> set (ledger_heap r). gm_ok m)"

lemma registry_ok_defs: "\<lbrakk>registry_ok r; Defs r = Some a\<rbrakk> \<Longrightarrow> a < length (def_heap r)"
  by (simp add: registry_ok_def)

lemma registry_ok_table: "\<lbrakk>registry_ok r; a < length (def_heap r)\<rbrakk> \<Longrightarrow> deftab_ok (def_heap r ! a)"
  by (simp add: registry_ok_def)

lemma registry_ok_fields:
  "registry_ok r \<Longrightarrow> registry_ok (r\<lparr>dispatchCache := c\<rparr>)"
  "registry_ok r \<Longrightarrow> registry_ok (r\<lparr>Types := tt\<rparr>)"
  "registry_ok r \<Longrightarrow> registry_ok (r\<lparr>analysisActive := b\<rparr>)"
  by (simp_all add: registry_ok_def)

lemma registry_ok_Defs: "\<lbrakk>registry_ok r; a < length (def_heap r)\<rbrakk> \<Longrightarrow> registry_ok (r\<lparr>Defs := Some a\<rparr>)"
  by (simp add: registry_ok_def)

lemma registry_ok_write:
  assumes "registry_ok r" "a < length (def_heap r)" "def_op_ok op"
  shows "registry_ok (write_table a op r)"
proof -
  have "deftab_ok (the (def_exec op (Some (def_heap r ! a))))"
    using def_exec_follows [OF registry_ok_table [OF assms(1,2)] assms(3)] by (auto simp: follows_def)
  with assms show ?thesis
    by (auto simp: registry_ok_def write_table_def dest: set_update_subset_insert [THEN subsetD])
qed

lemma deftab_ok_clone: "registry_ok r \<Longrightarrow> (\<And>b. a = Some b \<Longrightarrow> b < length (def_heap r)) \<Longrightarrow>
    deftab_ok (DefTable_Clone (table_at r a))"
  by (cases a)
    (simp_all add: table_at_def DefTable_Clone_def [of None] DefTable_Clone_props registry_ok_table)

lemma registry_ok_new_table:
  "\<lbrakk>registry_ok r; deftab_ok t\<rbrakk> \<Longrightarrow> registry_ok (snd (new_table t r))"
  by (fastforce simp: registry_ok_def new_table_def)

lemma registry_ok_new_ledger:
  "\<lbrakk>registry_ok r; gm_ok l\<rbrakk> \<Longrightarrow> registry_ok (snd (new_ledger l r))"
  by (fastforce simp: registry_ok_def new_ledger_def)

lemma ledger_at_ok: "\<lbrakk>registry_ok r; Modules r = Some m\<rbrakk> \<Longrightarrow> gm_ok (ledger_at r (Loaded m))"
  by (auto simp: registry_ok_def ledger_at_def split: option.splits)

lemma MarkLoaded_ok:
  assumes "registry_ok r" shows "registry_ok (MarkLoaded name d r)"
proof (cases "Modules r")
  case None
  then show ?thesis using assms by (simp add: MarkLoaded_def)
next
  case (Some m)
  show ?thesis
  proof (cases "Loaded m")
    case None
    then show ?thesis using assms Some
      by (auto simp: MarkLoaded_def registry_ok_def new_ledger_def intro: gm.ok_put
          dest!: set_update_subset_insert [THEN subsetD])
  next
    case (Some a)
    then have "a < length (ledger_heap r)" using assms \<open>Modules r = Some m\<close> by (auto simp: registry_ok_def)
    then have "gm_ok (ledger_heap r ! a)" using assms by (simp add: registry_ok_def)
    then show ?thesis using assms Some \<open>Modules r = Some m\<close>
      by (auto simp: MarkLoaded_def registry_ok_def intro: gm.ok_put
          dest!: set_update_subset_insert [THEN subsetD])
  qed
qed

section \<open>Steps\<close>

text \<open>
  \<open>kd\<close> and \<open>kl\<close> are addresses no step may write or make live: the table and the
  ledger of a sandbox that is still to be restored (or none).
\<close>

inductive reg_step ::
  "('p val \<Rightarrow> 'e option) \<Rightarrow> ('e \<Rightarrow> string) \<Rightarrow> (string \<Rightarrow> 'e list \<Rightarrow> 'f option) \<Rightarrow>
    nat option \<Rightarrow> nat option \<Rightarrow> ('p, 'f, 'd) Registry \<Rightarrow> ('p, 'f, 'd) Registry \<Rightarrow> bool"
  for as_fn Extends agg kd kl where
  table: "\<lbrakk>a < length (def_heap r); Some a \<noteq> kd; def_op_ok op\<rbrakk> \<Longrightarrow>
    reg_step as_fn Extends agg kd kl r (write_table a op r)"
| lookup: "reg_step as_fn Extends agg kd kl r (snd (registry_Lookup as_fn Extends agg name r))"
| analysis: "reg_step as_fn Extends agg kd kl r (r\<lparr>analysisActive := b\<rparr>)"
| types: "reg_step as_fn Extends agg kd kl r (r\<lparr>Types := tt\<rparr>)"
| load: "reg_step as_fn Extends agg kd kl r (MarkLoaded name d r)"
| snapshot: "SnapshotBindings (Some r) = (s, Some r') \<Longrightarrow> reg_step as_fn Extends agg kd kl r r'"
| restore: "\<lbrakk>sb_defs s = Some a; a < length (def_heap r); Some a \<noteq> kd;
    \<And>l. sb_modLoaded s = Some l \<Longrightarrow> l < length (ledger_heap r) \<and> Some l \<noteq> kl;
    RestoreBindings s (Some r) = Some r'\<rbrakk> \<Longrightarrow> reg_step as_fn Extends agg kd kl r r'"
| replay: "\<lbrakk>sb_defs s = Some a; a < length (def_heap r);
    RestoreBindingsForReplay s (Some r) = Some r'\<rbrakk> \<Longrightarrow> reg_step as_fn Extends agg kd kl r r'"
| swap: "\<lbrakk>a < length (def_heap r); Some a \<noteq> kd; SwapDefs (Some a) (Some r) = (old, Some r')\<rbrakk> \<Longrightarrow>
    reg_step as_fn Extends agg kd kl r r'"

text \<open>What every step keeps, and what it does to the protected cells.\<close>

definition protected :: "nat option \<Rightarrow> nat option \<Rightarrow> ('p, 'f, 'd) Registry \<Rightarrow> bool" where
  "protected kd kl r \<longleftrightarrow>
    (\<forall>k. kd = Some k \<longrightarrow> k < length (def_heap r) \<and> Defs r \<noteq> kd) \<and>
    (\<forall>k. kl = Some k \<longrightarrow> k < length (ledger_heap r) \<and> (\<forall>m. Modules r = Some m \<longrightarrow> Loaded m \<noteq> kl))"

definition same_cells :: "nat option \<Rightarrow> nat option \<Rightarrow> ('p, 'f, 'd) Registry \<Rightarrow> ('p, 'f, 'd) Registry \<Rightarrow> bool" where
  "same_cells kd kl r r' \<longleftrightarrow>
    (\<forall>k. kd = Some k \<longrightarrow> def_heap r' ! k = def_heap r ! k) \<and>
    (\<forall>k. kl = Some k \<longrightarrow> ledger_heap r' ! k = ledger_heap r ! k)"

definition keeps :: "nat option \<Rightarrow> nat option \<Rightarrow> ('p, 'f, 'd) Registry \<Rightarrow> ('p, 'f, 'd) Registry \<Rightarrow> bool" where
  "keeps kd kl r r' \<longleftrightarrow> registry_ok r' \<and> protected kd kl r' \<and> same_cells kd kl r r' \<and>
    (Modules r' = None \<longleftrightarrow> Modules r = None)"

lemma keepsI:
  "\<lbrakk>registry_ok r'; protected kd kl r'; same_cells kd kl r r'; Modules r' = None \<longleftrightarrow> Modules r = None\<rbrakk>
    \<Longrightarrow> keeps kd kl r r'"
  by (simp add: keeps_def)

lemmas keep_defs = protected_def same_cells_def

lemma Lookup_frame:
  "\<exists>c. snd (registry_Lookup as_fn Ext agg name r) = r\<lparr>dispatchCache := c\<rparr>"
proof -
  have "\<exists>c. r = r\<lparr>dispatchCache := c\<rparr>" by (rule exI [of _ "dispatchCache r"]) simp
  then show ?thesis
    unfolding registry_Lookup_def Let_def by (auto split: prod.splits bool.splits)
qed

lemma SnapshotBindings_shape:
  assumes "SnapshotBindings (Some r) = (s, Some r')"
  shows "sb_valid s" "sb_defs s = Some (length (def_heap r))" "sb_typeIDs s = idSnapshot (Types r)"
    "def_heap r' = def_heap r @ [DefTable_Clone (live r)]"
    "Defs r' = Defs r" "Modules r' = Modules r" "Types r' = Types r" "dispatchCache r' = dispatchCache r"
    "case Modules r of
       None \<Rightarrow> ledger_heap r' = ledger_heap r \<and> sb_modLoaded s = None
     | Some m \<Rightarrow> ledger_heap r' = ledger_heap r @ [gm_copy (ledger_at r (Loaded m))] \<and>
         sb_modLoaded s = Some (length (ledger_heap r)) \<and> sb_modSeq s = mod_seq m"
  using assms
  by (auto simp: SnapshotBindings_def new_table_def new_ledger_def ledger_at_def Let_def split: option.splits)

lemma step_keeps:
  assumes "reg_step as_fn Ext agg kd kl r r'" "registry_ok r" "protected kd kl r"
  shows "keeps kd kl r r'"
  using assms
proof cases
  case (table a op)
  then show ?thesis using assms(2,3)
    by (intro keepsI)
      (auto simp: keep_defs write_table_def intro: registry_ok_write [unfolded write_table_def])
next
  case (lookup name)
  obtain c where "snd (registry_Lookup as_fn Ext agg name r) = r\<lparr>dispatchCache := c\<rparr>"
    using Lookup_frame by blast
  with lookup assms(2,3) show ?thesis by (intro keepsI) (auto simp: registry_ok_fields keep_defs)
next
  case (analysis b)
  with assms(2,3) show ?thesis by (intro keepsI) (auto simp: registry_ok_fields keep_defs)
next
  case (types tt)
  with assms(2,3) show ?thesis by (intro keepsI) (auto simp: registry_ok_fields keep_defs)
next
  case (load name d)
  have "protected kd kl r'" "same_cells kd kl r r'" "Modules r' = None \<longleftrightarrow> Modules r = None"
    using load assms(3)
    by (auto simp: keep_defs MarkLoaded_def new_ledger_def nth_append nth_list_update Let_def
        split: option.splits)
  with load assms(2) show ?thesis by (intro keepsI) (auto simp: MarkLoaded_ok)
next
  case (snapshot s)
  note S = SnapshotBindings_shape [OF snapshot]
  have c: "deftab_ok (DefTable_Clone (live r))"
    unfolding live_def using assms(2) by (rule deftab_ok_clone) (rule registry_ok_defs [OF assms(2)])
  have "registry_ok r'"
  proof (cases "Modules r")
    case None
    then show ?thesis using S assms(2) c by (fastforce simp: registry_ok_def)
  next
    case (Some m)
    have "gm_ok (gm_copy (ledger_at r (Loaded m)))" by (rule gm_copy_ok)
    with Some S assms(2) c show ?thesis by (fastforce simp: registry_ok_def)
  qed
  moreover have "protected kd kl r'" "same_cells kd kl r r'"
    using S assms(3) by (auto simp: keep_defs nth_append split: option.splits)
  ultimately show ?thesis using S by (intro keepsI) auto
next
  case (restore s a)
  have "sb_valid s \<Longrightarrow> registry_ok r'" "\<not> sb_valid s \<Longrightarrow> r' = r"
    using restore assms(2) by (auto simp: RestoreBindings_def registry_ok_def Let_def split: option.splits)
  moreover have "protected kd kl r'" "same_cells kd kl r r'" "Modules r' = None \<longleftrightarrow> Modules r = None"
    using restore assms(3)
    by (auto simp: RestoreBindings_def keep_defs Let_def split: option.splits if_splits)
  ultimately show ?thesis using assms(2) by (cases "sb_valid s") (auto intro: keepsI)
next
  case (replay s a)
  let ?t = "DefTable_Clone (table_at r (sb_defs s))"
  have "deftab_ok ?t" using deftab_ok_clone [OF assms(2), of "sb_defs s"] replay by simp
  then have "sb_valid s \<Longrightarrow> registry_ok r'" "\<not> sb_valid s \<Longrightarrow> r' = r"
    using replay assms(2)
    by (fastforce simp: RestoreBindingsForReplay_def registry_ok_def new_table_def Let_def)+
  moreover have "protected kd kl r'" "same_cells kd kl r r'" "Modules r' = None \<longleftrightarrow> Modules r = None"
    using replay assms(3)
    by (auto simp: RestoreBindingsForReplay_def keep_defs new_table_def nth_append Let_def split: if_splits)
  ultimately show ?thesis using assms(2) by (cases "sb_valid s") (auto intro: keepsI)
next
  case (swap a old)
  with assms(2,3) show ?thesis
    by (intro keepsI) (auto simp: SwapDefs_def registry_ok_def keep_defs)
qed

section \<open>The cache\<close>

definition cache_ok ::
  "(string \<Rightarrow> ('p, 'f, 'd) Registry \<Rightarrow> 'f option) \<Rightarrow> ('p, 'f, 'd) Registry \<Rightarrow> bool" where
  "cache_ok L r \<longleftrightarrow>
    (\<forall>c name g fn. dispatchCache r = Some c \<longrightarrow> gm_get c name = Some (g, fn) \<longrightarrow>
      g \<le> Gen (live r) name \<and> (g = Gen (live r) name \<longrightarrow> fn = L name r))"

lemma cache_okD:
  "\<lbrakk>cache_ok L r; dispatchCache r = Some c; gm_get c name = Some (g, fn)\<rbrakk> \<Longrightarrow>
    g \<le> Gen (live r) name \<and> (g = Gen (live r) name \<longrightarrow> fn = L name r)"
  unfolding cache_ok_def by blast

lemma lookupUncached_cong:
  "Entries (live r') name = Entries (live r) name \<Longrightarrow>
    lookupUncached as_fn Ext agg name r' = lookupUncached as_fn Ext agg name r"
proof -
  have "Stack t name = map Body (Entries t name)" for t :: "'a DefTable option"
    by (simp add: Stack_def Entries_def split: option.splits)
  then show "Entries (live r') name = Entries (live r) name \<Longrightarrow> ?thesis"
    by (simp add: lookupUncached_def)
qed

text \<open>A change that only advances generations, and keeps a stack whose generation stays.\<close>

lemma cache_ok_advance:
  assumes "cache_ok (lookupUncached as_fn Ext agg) r" "dispatchCache r' = dispatchCache r"
    and "\<And>n. Gen (live r) n \<le> Gen (live r') n"
    and "\<And>n. Gen (live r') n = Gen (live r) n \<Longrightarrow> Entries (live r') n = Entries (live r) n"
  shows "cache_ok (lookupUncached as_fn Ext agg) r'"
  unfolding cache_ok_def
proof (intro allI impI conjI)
  fix c name g fn assume c: "dispatchCache r' = Some c" "gm_get c name = Some (g, fn)"
  have o: "g \<le> Gen (live r) name \<and> (g = Gen (live r) name \<longrightarrow> fn = lookupUncached as_fn Ext agg name r)"
    by (rule cache_okD [OF assms(1) c(1) [unfolded assms(2)] c(2)])
  show "g \<le> Gen (live r') name" using o assms(3) [of name] by linarith
  assume e: "g = Gen (live r') name"
  then have g: "Gen (live r') name = Gen (live r) name" using o assms(3) [of name] by linarith
  have "lookupUncached as_fn Ext agg name r' = lookupUncached as_fn Ext agg name r"
    by (rule lookupUncached_cong) (rule assms(4) [OF g])
  then show "fn = lookupUncached as_fn Ext agg name r'" using o e g by simp
qed

lemma cache_ok_reset: "dispatchCache r' = cache_reset c \<Longrightarrow> cache_ok L r'"
  by (auto simp: cache_ok_def cache_reset_def)

lemma cache_ok_same:
  "\<lbrakk>cache_ok (lookupUncached as_fn Ext agg) r; dispatchCache r' = dispatchCache r; live r' = live r\<rbrakk> \<Longrightarrow>
    cache_ok (lookupUncached as_fn Ext agg) r'"
  by (rule cache_ok_advance) simp_all

lemma Lookup_ok:
  assumes "cache_ok (lookupUncached as_fn Ext agg) r"
  shows "fst (registry_Lookup as_fn Ext agg name r) = lookupUncached as_fn Ext agg name r"
    "cache_ok (lookupUncached as_fn Ext agg) (snd (registry_Lookup as_fn Ext agg name r))"
proof -
  let ?L = "lookupUncached as_fn Ext agg"
  show "fst (registry_Lookup as_fn Ext agg name r) = ?L name r"
    using assms
    by (auto simp: registry_Lookup_def cache_get_def cache_ok_def Let_def split: option.splits prod.splits if_splits)
  have l: "live (r\<lparr>dispatchCache := c\<rparr>) = live r" for c by (simp add: live_def table_at_def)
  have "?L n (r\<lparr>dispatchCache := c\<rparr>) = ?L n r" for n c
    by (rule lookupUncached_cong) (simp add: l)
  then have "cache_ok ?L (r\<lparr>dispatchCache := cache_put name (Gen (live r) name) (?L name r) (dispatchCache r)\<rparr>)"
    using assms by (auto simp: cache_ok_def cache_put_def l split: if_splits)
  then show "cache_ok ?L (snd (registry_Lookup as_fn Ext agg name r))"
    using assms by (auto simp: registry_Lookup_def Let_def split: prod.splits bool.splits)
qed

lemma step_cache_ok:
  assumes "reg_step as_fn Ext agg kd kl r r'" "registry_ok r" "cache_ok (lookupUncached as_fn Ext agg) r"
  shows "cache_ok (lookupUncached as_fn Ext agg) r'"
  using assms
proof cases
  case (table a op)
  obtain t where t: "def_exec op (Some (def_heap r ! a)) = Some t" "follows op (def_heap r ! a) t"
    using def_exec_follows [OF registry_ok_table [OF assms(2) table(2)] table(4)] by blast
  show ?thesis
  proof (cases "Defs r = Some a")
    case False
    then have "live r' = live r"
      using table by (cases "Defs r") (auto simp: live_def table_at_def write_table_def)
    then show ?thesis using table by (intro cache_ok_same [OF assms(3)]) (simp_all add: write_table_def)
  next
    case True
    then have "live r = Some (def_heap r ! a)" "live r' = Some t"
      using table t by (simp_all add: live_def table_at_def write_table_def)
    then show ?thesis using table t(2)
      by (intro cache_ok_advance [OF assms(3)])
        (auto simp: write_table_def follows_def Gen_def Entries_def)
  qed
next
  case (lookup name)
  then show ?thesis using Lookup_ok(2) [OF assms(3)] by simp
next
  case (analysis b)
  then show ?thesis by (intro cache_ok_same [OF assms(3)]) (simp_all add: live_def table_at_def)
next
  case (types tt)
  then show ?thesis by (intro cache_ok_same [OF assms(3)]) (simp_all add: live_def table_at_def)
next
  case (load name d)
  have "dispatchCache r' = dispatchCache r \<and> live r' = live r"
    using load by (auto simp: MarkLoaded_def new_ledger_def live_def table_at_def Let_def split: option.splits)
  then show ?thesis by (intro cache_ok_same [OF assms(3)]) simp_all
next
  case (snapshot s)
  note S = SnapshotBindings_shape [OF snapshot]
  have "live r' = live r"
    using S(4,5) registry_ok_defs [OF assms(2)]
    by (cases "Defs r") (auto simp: live_def table_at_def nth_append)
  then show ?thesis using S by (intro cache_ok_same [OF assms(3)]) simp_all
next
  case (restore s a)
  show ?thesis
  proof (cases "sb_valid s")
    case True
    then have "dispatchCache r' = cache_reset (dispatchCache r)"
      using restore by (auto simp: RestoreBindings_def Let_def split: option.splits)
    then show ?thesis by (rule cache_ok_reset)
  next
    case False
    then show ?thesis using restore assms(3) by (simp add: RestoreBindings_def)
  qed
next
  case (replay s a)
  show ?thesis
  proof (cases "sb_valid s")
    case True
    then have "dispatchCache r' = cache_reset (dispatchCache r)"
      using replay by (auto simp: RestoreBindingsForReplay_def new_table_def Let_def)
    then show ?thesis by (rule cache_ok_reset)
  next
    case False
    then show ?thesis using replay assms(3) by (simp add: RestoreBindingsForReplay_def)
  qed
next
  case (swap a old)
  then have "dispatchCache r' = cache_reset (dispatchCache r)" by (auto simp: SwapDefs_def)
  then show ?thesis by (rule cache_ok_reset)
qed

section \<open>Runs\<close>

abbreviation reg_run ::
  "('p val \<Rightarrow> 'e option) \<Rightarrow> ('e \<Rightarrow> string) \<Rightarrow> (string \<Rightarrow> 'e list \<Rightarrow> 'f option) \<Rightarrow>
    nat option \<Rightarrow> nat option \<Rightarrow> ('p, 'f, 'd) Registry \<Rightarrow> ('p, 'f, 'd) Registry \<Rightarrow> bool" where
  "reg_run as_fn Ext agg kd kl \<equiv> (reg_step as_fn Ext agg kd kl)\<^sup>*\<^sup>*"

lemma run_keeps:
  assumes "reg_run as_fn Ext agg kd kl r r'" "registry_ok r" "protected kd kl r"
  shows "keeps kd kl r r'"
  using assms
proof (induction rule: rtranclp_induct)
  case base
  then show ?case by (intro keepsI) (auto simp: same_cells_def)
next
  case (step x y)
  then have x: "keeps kd kl r x" by blast
  then have "keeps kd kl x y" using step_keeps [OF step(2)] by (simp add: keeps_def)
  with x show ?case by (auto simp: keeps_def same_cells_def)
qed

lemma run_cache_ok:
  assumes "reg_run as_fn Ext agg None None r r'" "registry_ok r" "cache_ok (lookupUncached as_fn Ext agg) r"
  shows "cache_ok (lookupUncached as_fn Ext agg) r'"
  using assms
proof (induction rule: rtranclp_induct)
  case (step x y)
  have "keeps None None r x" by (rule run_keeps [OF step(1)]) (simp_all add: step protected_def)
  then show ?case using step_cache_ok [OF step(2)] step by (simp add: keeps_def)
qed simp

section \<open>Restores\<close>

lemma Clone_Entries:
  "deftab_ok t \<Longrightarrow> Entries (Some (DefTable_Clone (Some t))) n = Entries (Some t) n"
  using DefTable_Clone_props(2) [of t n] by (simp add: Entries_def view_def)

lemma Clone_Entries_opt:
  "(\<And>t. a = Some t \<Longrightarrow> deftab_ok t) \<Longrightarrow> Entries (Some (DefTable_Clone a)) n = Entries a n"
proof (cases a)
  case None
  then show ?thesis by (simp add: DefTable_Clone_def Entries_def NewDefTable_def stack_of_def)
next
  case (Some t)
  then show "(\<And>t. a = Some t \<Longrightarrow> deftab_ok t) \<Longrightarrow> ?thesis" by (simp add: Clone_Entries)
qed

lemma live_ok: "\<lbrakk>registry_ok r; live r = Some t\<rbrakk> \<Longrightarrow> deftab_ok t"
  by (auto simp: live_def table_at_def registry_ok_def)

text \<open>The identities a type table holds after a restore: the live ones and the snapshot's.\<close>

lemma readmit_get:
  assumes "gm_ok (byID tt)"
  shows "\<exists>tt'. fst (readmitRetired (Some tt1) (idSnapshot (Some tt))) = Some tt' \<and>
    (\<forall>i. gm_get (byID tt') i =
      (case gm_get (byID tt1) i of Some d \<Rightarrow> Some d | None \<Rightarrow> gm_get (byID tt) i))"
proof -
  let ?s = "gm_copy (byID tt)"
  have d: "distinct (gm_keys ?s)" using gm_copy_ok [of "byID tt"] by (simp add: gm_ok_def gm_keys_def)
  have g: "gm_get ?s i = gm_get (byID tt) i" for i using assms by simp
  show ?thesis
    using readmit_fold [OF d, of "byID tt1" 0] g
    by (auto simp: readmitRetired_def made_def idSnapshot_def split_beta Let_def gm_get_def [of ?s, symmetric]
        split: option.splits)
qed

text \<open>A region between a snapshot and its restore: the sandbox's own cells are not touched.\<close>

lemma snapshot_protects:
  assumes "registry_ok r" "SnapshotBindings (Some r) = (s, Some r0)"
  shows "protected (sb_defs s) (sb_modLoaded s) r0" "registry_ok r0"
    "Entries (table_at r0 (sb_defs s)) n = Entries (live r) n"
proof -
  note S = SnapshotBindings_shape [OF assms(2)]
  have "reg_step (\<lambda>_. None :: unit option) (\<lambda>_. []) (\<lambda>_ _. None) None None r r0"
    by (rule reg_step.snapshot [OF assms(2)])
  then show "registry_ok r0"
    using step_keeps assms(1) by (fastforce simp: keeps_def protected_def)
  show "protected (sb_defs s) (sb_modLoaded s) r0"
    using S assms(1) by (auto simp: protected_def registry_ok_def split: option.splits)
  have "table_at r0 (sb_defs s) = Some (DefTable_Clone (live r))"
    using S by (simp add: table_at_def nth_append)
  then show "Entries (table_at r0 (sb_defs s)) n = Entries (live r) n"
    using Clone_Entries_opt [of "live r" n] live_ok [OF assms(1)] by simp
qed

text \<open>The protected cells at the end of a region, as the snapshot left them.\<close>

lemma region_end_cells:
  assumes "registry_ok r" "SnapshotBindings (Some r) = (s, Some r0)"
    and "reg_run as_fn Ext agg (sb_defs s) (sb_modLoaded s) r0 r1"
  shows "keeps (sb_defs s) (sb_modLoaded s) r0 r1" "table_at r1 (sb_defs s) = table_at r0 (sb_defs s)"
proof -
  show k: "keeps (sb_defs s) (sb_modLoaded s) r0 r1"
    by (rule run_keeps [OF assms(3)]) (use snapshot_protects [OF assms(1,2)] in auto)
  then show "table_at r1 (sb_defs s) = table_at r0 (sb_defs s)"
    using SnapshotBindings_shape(2) [OF assms(2)] by (simp add: keeps_def same_cells_def table_at_def)
qed

section \<open>Module identifiers\<close>

fun dec_val :: "string \<Rightarrow> nat" where
  "dec_val [] = 0"
| "dec_val (c # cs) = (of_char c - 48) + 10 * dec_val cs"

lemma dec_val_rev [simp]: "dec_val (dec_rev n) = n"
  by (induction n rule: dec_rev.induct) (subst dec_rev.simps, auto)

lemma dec_rev_ne: "dec_rev n \<noteq> [] \<and> CHR ''-'' \<notin> set (dec_rev n)"
proof (induction n rule: dec_rev.induct)
  case (1 n)
  have "char_of (48 + d) \<noteq> CHR ''-''" if "d < 10" for d :: nat
  proof
    assume "char_of (48 + d) = CHR ''-''"
    then have "(of_char (char_of (48 + d) :: char) :: nat) = of_char CHR ''-''" by simp
    with that show False by simp
  qed
  note c = this this [THEN not_sym]
  show ?case using 1 c by (subst (1 2) dec_rev.simps) auto
qed

lemma go_itoa_inj [simp]: "go_itoa i = go_itoa j \<longleftrightarrow> i = j"
proof -
  have v: "dec_rev m = dec_rev n \<longleftrightarrow> m = n" for m n
    by (metis dec_val_rev)
  have ne: "CHR ''-'' # s \<noteq> rev (dec_rev n)" "rev (dec_rev n) \<noteq> CHR ''-'' # s" for s n
    using dec_rev_ne [of n] by (metis list.set_intros(1) set_rev)+
  show ?thesis unfolding go_itoa_def by (simp del: rev_is_Nil_conv rev_eq_Cons_iff add: ne v) auto
qed

fun next_ids :: "nat \<Rightarrow> ModuleRegistry option \<Rightarrow> string list" where
  "next_ids 0 m = []"
| "next_ids (Suc k) m = (case NextID m of (s, m) \<Rightarrow> s # next_ids k m)"

lemma next_ids_from:
  "s \<in> set (next_ids k (Some m)) \<Longrightarrow> \<exists>i. mod_seq m < i \<and> s = ''mod_'' @ go_itoa i"
proof (induction k arbitrary: m)
  case (Suc k)
  let ?m = "m\<lparr>mod_seq := mod_seq m + 1\<rparr>"
  have "s = ''mod_'' @ go_itoa (mod_seq m + 1) \<or> s \<in> set (next_ids k (Some ?m))"
    using Suc.prems by (auto simp: NextID_def Let_def)
  then show ?case
  proof
    assume "s \<in> set (next_ids k (Some ?m))"
    then obtain i where "mod_seq ?m < i" "s = ''mod_'' @ go_itoa i" using Suc.IH by blast
    then show ?thesis by (intro exI [of _ i]) auto
  qed (auto intro: exI [of _ "mod_seq m + 1"])
qed simp

section \<open>Properties\<close>

definition sample_registry :: "(nat, nat, nat) Registry" where
  "sample_registry = \<lparr> def_heap = [sample_defs], ledger_heap = [gm_empty], Defs = Some 0,
     Types = Some empty_builtin_table,
     Modules = Some \<lparr> Loaded = Some 0, mod_seq = 4, InitFunc = None, Resolver = None \<rparr>,
     dispatchCache = Some gm_empty, analysisActive = False \<rparr>"

lemma sample_registry_ok: "registry_ok sample_registry"
  by (simp add: registry_ok_def sample_registry_def sample_defs_ok)

text \<open>Every value reads as the function 5, which extends nothing; the aggregate is the first.\<close>

abbreviation (input) "sample_step \<equiv>
  reg_step (\<lambda>_ :: nat val. Some (5 :: nat)) (\<lambda>_. []) (\<lambda>_ fs. Some (hd fs))"

definition sample_snapshot :: "nat BindingSandbox" where
  "sample_snapshot = fst (SnapshotBindings (Some sample_registry))"

definition sample_r0 :: "(nat, nat, nat) Registry" where
  "sample_r0 = the (snd (SnapshotBindings (Some sample_registry)))"

lemma sample_snapshot_eq: "SnapshotBindings (Some sample_registry) = (sample_snapshot, Some sample_r0)"
  by (simp add: sample_snapshot_def sample_r0_def SnapshotBindings_def Let_def new_table_def
      new_ledger_def split: option.splits)

definition sample_r1 :: "(nat, nat, nat) Registry" where
  "sample_r1 = on_defs (OpDelete ''x'') sample_r0"

lemma sample_run: "sample_step (sb_defs sample_snapshot) (sb_modLoaded sample_snapshot) sample_r0 sample_r1"
proof -
  note S = SnapshotBindings_shape [OF sample_snapshot_eq]
  have "Defs sample_r0 = Some 0" using S(5) by (simp add: sample_registry_def)
  moreover have "Some 0 \<noteq> sb_defs sample_snapshot" "0 < length (def_heap sample_r0)"
    using S(2,4) by (simp_all add: sample_registry_def)
  ultimately show ?thesis
    using reg_step.table [of 0 sample_r0 "sb_defs sample_snapshot" "OpDelete ''x''"]
    by (simp add: sample_r1_def on_defs_def)
qed

lemma sample_region:
  "reg_run (\<lambda>_ :: nat val. Some (5 :: nat)) (\<lambda>_. []) (\<lambda>_ fs. Some (hd fs))
     (sb_defs sample_snapshot) (sb_modLoaded sample_snapshot) sample_r0 sample_r1"
  by (rule r_into_rtranclp) (rule sample_run)

text \<open>C7: The dispatch cache is transparent: after any run of table operations, lookups,
  snapshots, restores and table swaps that started with an empty cache, Lookup returns what an
  uncached aggregation of the name's current bindings returns.\<close>

theorem dispatch_cache_transparent:
  assumes "registry_ok r" and "dispatchCache r = Some gm_empty"
    and "reg_run as_fn Ext agg None None r r'"
  shows "fst (registry_Lookup as_fn Ext agg name r') = lookupUncached as_fn Ext agg name r'"
proof -
  have "cache_ok (lookupUncached as_fn Ext agg) r" using assms(2) by (simp add: cache_ok_def)
  then show ?thesis by (rule Lookup_ok(1) [OF run_cache_ok [OF assms(3,1)]])
qed

lemma dispatch_cache_transparent_witness:
  "fst (registry_Lookup (\<lambda>_ :: nat val. Some (5 :: nat)) (\<lambda>_. []) (\<lambda>_ fs. Some (hd fs)) ''x''
     (snd (registry_Lookup (\<lambda>_. Some 5) (\<lambda>_. []) (\<lambda>_ fs. Some (hd fs)) ''x'' sample_registry))) = Some 5"
proof -
  let ?r = "snd (registry_Lookup (\<lambda>_. Some (5 :: nat)) (\<lambda>_. []) (\<lambda>_ fs. Some (hd fs)) ''x'' sample_registry)"
  obtain c where c: "?r = sample_registry\<lparr>dispatchCache := c\<rparr>" using Lookup_frame by blast
  have "sample_step None None sample_registry ?r" by (rule reg_step.lookup)
  then have "fst (registry_Lookup (\<lambda>_. Some 5) (\<lambda>_. []) (\<lambda>_ fs. Some (hd fs)) ''x'' ?r) =
      lookupUncached (\<lambda>_. Some (5 :: nat)) (\<lambda>_. []) (\<lambda>_ fs. Some (hd fs)) ''x'' ?r"
    by (intro dispatch_cache_transparent [OF sample_registry_ok]) (simp_all add: sample_registry_def)
  then show ?thesis
    by (simp add: c lookupUncached_def live_def table_at_def Stack_def) (simp add: sample_registry_def)
qed

text \<open>C28: RestoreBindingsForReplay brings every binding back to the snapshot after any region
  that left the sandbox alone; it keeps the module ledger of the pass, re-admits the retired
  identities beside the live ones, and leaves the snapshot as it was, so that it can be
  restored again.\<close>

theorem replay_restores_bindings:
  assumes "registry_ok r" and "SnapshotBindings (Some r) = (s, Some r0)"
    and "reg_run as_fn Ext agg (sb_defs s) (sb_modLoaded s) r0 r1"
    and "RestoreBindingsForReplay s (Some r1) = Some r2"
    and "Types r = Some tt" and "gm_ok (byID tt)" and "Types r1 = Some tt1"
  shows "(\<forall>n. Entries (live r2) n = Entries (live r) n) \<and>
    Modules r2 = Modules r1 \<and> ledger_heap r2 = ledger_heap r1 \<and>
    (\<exists>tt2. Types r2 = Some tt2 \<and> (\<forall>i. gm_get (byID tt2) i =
      (case gm_get (byID tt1) i of Some d \<Rightarrow> Some d | None \<Rightarrow> gm_get (byID tt) i))) \<and>
    reg_run as_fn Ext agg (sb_defs s) (sb_modLoaded s) r0 r2 \<and>
    table_at r2 (sb_defs s) = table_at r0 (sb_defs s)"
proof -
  note S = SnapshotBindings_shape [OF assms(2)]
  note P = snapshot_protects [OF assms(1,2)]
  note E = region_end_cells [OF assms(1-3)]
  let ?t = "DefTable_Clone (table_at r1 (sb_defs s))"
  have r2: "def_heap r2 = def_heap r1 @ [?t]" "Defs r2 = Some (length (def_heap r1))"
    "Modules r2 = Modules r1" "ledger_heap r2 = ledger_heap r1"
    "Types r2 = fst (readmitRetired (Types r1) (sb_typeIDs s))"
    using assms(4) S(1) by (auto simp: RestoreBindingsForReplay_def new_table_def Let_def)
  have k: "length (def_heap r) < length (def_heap r1)"
    using E(1) S(2) by (auto simp: keeps_def protected_def)
  have "live r2 = Some ?t" using r2 by (simp add: live_def table_at_def)
  moreover have "deftab_ok t" if "table_at r1 (sb_defs s) = Some t" for t
    using that k S(2) E(1) registry_ok_table by (auto simp: table_at_def keeps_def)
  ultimately have "Entries (live r2) n = Entries (live r) n" for n
    using Clone_Entries_opt [of "table_at r1 (sb_defs s)" n] E(2) P(3) [of n] by simp
  moreover have step: "reg_step as_fn Ext agg (sb_defs s) (sb_modLoaded s) r1 r2"
    by (rule reg_step.replay [OF S(2) k assms(4)])
  then have run: "reg_run as_fn Ext agg (sb_defs s) (sb_modLoaded s) r0 r2" using assms(3) by simp
  moreover have "table_at r2 (sb_defs s) = table_at r0 (sb_defs s)"
    by (rule region_end_cells(2) [OF assms(1,2) run])
  ultimately show ?thesis using r2 S(3) assms(5,7) readmit_get [OF assms(6), of tt1] by simp
qed

lemma replay_restores_bindings_witness:
  "Entries (live sample_r1) ''x'' = [] \<and>
   Entries (live (the (RestoreBindingsForReplay sample_snapshot (Some sample_r1)))) ''x'' = [value_entry zero_Value]"
proof -
  note S = SnapshotBindings_shape [OF sample_snapshot_eq]
  have h: "Defs sample_r0 = Some 0" "def_heap sample_r0 ! 0 = sample_defs" "def_heap sample_r0 \<noteq> []"
    using S(4,5) by (simp_all add: sample_registry_def)
  then have r1: "live sample_r1 = def_exec (OpDelete ''x'') (Some sample_defs)" "Types sample_r1 = Types sample_r0"
    by (simp_all add: sample_r1_def on_defs_def write_table_def live_def table_at_def DefTable_Delete_def)
  obtain r2 where r2: "RestoreBindingsForReplay sample_snapshot (Some sample_r1) = Some r2"
    using S(1) by (simp add: RestoreBindingsForReplay_def Let_def new_table_def)
  have t: "Types sample_registry = Some empty_builtin_table" "gm_ok (byID (empty_builtin_table :: nat TypeTable))"
    by (simp_all add: sample_registry_def empty_builtin_table_def)
  have "Entries (live r2) ''x'' = Entries (live sample_registry) ''x''"
    using replay_restores_bindings [OF sample_registry_ok sample_snapshot_eq
        sample_region r2 t] r1(2) S(7) t(1) by simp
  moreover have "live sample_registry = Some sample_defs"
    by (simp add: live_def table_at_def sample_registry_def)
  ultimately show ?thesis
    using Delete_follows [OF sample_defs_ok, of "''x''"] r1 r2 by (auto simp: Entries_def follows_def)
qed

text \<open>RestoreBindings brings every binding back, and with them the module ledger and the
  sequence its identifiers come from.\<close>

theorem full_restore:
  assumes "registry_ok r" and "SnapshotBindings (Some r) = (s, Some r0)"
    and "reg_run as_fn Ext agg (sb_defs s) (sb_modLoaded s) r0 r1"
    and "RestoreBindings s (Some r1) = Some r2"
    and "Modules r = Some m"
  shows "(\<forall>n. Entries (live r2) n = Entries (live r) n) \<and>
    (\<forall>n. LoadedDesc (Modules r2) n r2 = LoadedDesc (Modules r) n r) \<and>
    (\<exists>m2. Modules r2 = Some m2 \<and> mod_seq m2 = mod_seq m)"
proof -
  note S = SnapshotBindings_shape [OF assms(2)]
  note P = snapshot_protects [OF assms(1,2)]
  note E = region_end_cells [OF assms(1-3)]
  have L: "sb_modLoaded s = Some (length (ledger_heap r))" "sb_modSeq s = mod_seq m"
    "ledger_heap r0 = ledger_heap r @ [gm_copy (ledger_at r (Loaded m))]"
    using S(9) assms(5) by auto
  have "Modules r1 \<noteq> None" using E(1) S(6) assms(5) by (auto simp: keeps_def)
  then obtain m1 where m1: "Modules r1 = Some m1" by blast
  have r2: "def_heap r2 = def_heap r1" "Defs r2 = sb_defs s" "ledger_heap r2 = ledger_heap r1"
    "Modules r2 = Some (m1\<lparr>mod_seq := mod_seq m, Loaded := sb_modLoaded s\<rparr>)"
    using assms(4) S(1) m1 L by (auto simp: RestoreBindings_def Let_def)
  have "live r2 = table_at r1 (sb_defs s)" using r2 by (simp add: live_def table_at_def)
  then have "Entries (live r2) n = Entries (live r) n" for n using E(2) P(3) [of n] by simp
  moreover have "ledger_heap r1 ! length (ledger_heap r) = gm_copy (ledger_at r (Loaded m))"
    using E(1) L by (auto simp: keeps_def same_cells_def)
  then have "LoadedDesc (Modules r2) n r2 = LoadedDesc (Modules r) n r" for n
    using r2 L assms(5) ledger_at_ok [OF assms(1,5)]
    by (auto simp: LoadedDesc_def ledger_at_def split: option.splits)
  ultimately show ?thesis using r2 by simp
qed

lemma full_restore_witness:
  "Entries (live (the (RestoreBindings sample_snapshot (Some sample_r1)))) ''x'' = [value_entry zero_Value]"
proof -
  note S = SnapshotBindings_shape [OF sample_snapshot_eq]
  obtain r2 where r2: "RestoreBindings sample_snapshot (Some sample_r1) = Some r2"
    using S(1) by (simp add: RestoreBindings_def Let_def)
  have m: "Modules sample_registry = Some \<lparr> Loaded = Some 0, mod_seq = 4, InitFunc = None, Resolver = None \<rparr>"
    by (simp add: sample_registry_def)
  have "live sample_registry = Some sample_defs"
    by (simp add: live_def table_at_def sample_registry_def)
  then show ?thesis
    using full_restore [OF sample_registry_ok sample_snapshot_eq sample_region r2 m] r2
    by (simp add: Entries_def)
qed

text \<open>The module identifiers one ledger hands out are pairwise distinct.\<close>

theorem module_ids_distinct: "distinct (next_ids k (Some m))"
proof (induction k arbitrary: m)
  case (Suc k)
  let ?m = "m\<lparr>mod_seq := mod_seq m + 1\<rparr>"
  have "''mod_'' @ go_itoa (mod_seq m + 1) \<notin> set (next_ids k (Some ?m))"
    using next_ids_from [of _ k ?m] by fastforce
  then show ?case using Suc.IH [of ?m] by (simp add: NextID_def Let_def)
qed simp

end
