(* ===== verification/Context_Stores.thy ===== *)
theory Context_Stores
  imports Boru_Prelude
begin

text \<open>
  Copy-on-write stores and the stack of contexts: StoreInstanceInfo (core/go/value.go),
  ContextStack (core/go/contextstack.go), CowSet and CowDel (core/go/core_helpers.go).
  Stores are shared through pointers and edited in place (prototype links, parent
  links), so they live in a heap: a list of stores, a pointer being an index.  A walk
  along the links of the heap may run forever; it is None then.
\<close>

section \<open>Stores\<close>

type_synonym saddr = nat

text \<open>A value is a pointer to a store or anything else.\<close>

datatype 'v sval = StoreVal saddr | PlainVal 'v

text \<open>A layer pushed by the context stack has no data map at all (None).\<close>

record 'v store =
  si_TypeName :: string
  si_Data :: "(string, 'v sval) gomap option"
  si_Deleted :: "(string, bool) gomap"
  si_Prototype :: "saddr option"
  si_Parent :: "saddr option"
  si_ParentKey :: string

type_synonym 'v sheap = "'v store list"

text \<open>Reading a nil map answers like reading an empty one.\<close>

definition own_data :: "'v store \<Rightarrow> (string, 'v sval) gomap" where
  "own_data si = (case si_Data si of None \<Rightarrow> gm_empty | Some m \<Rightarrow> m)"

definition tombstone :: "'v store \<Rightarrow> string \<Rightarrow> bool" where
  "tombstone si k = (gm_get (si_Deleted si) k = Some True)"

partial_function (option) Store_Get :: "'v sheap \<Rightarrow> string \<Rightarrow> saddr \<Rightarrow> 'v sval option option" where
  "Store_Get h key si =
    (case gm_get (own_data (h ! si)) key of
       Some v \<Rightarrow> Some (Some v)
     | None \<Rightarrow>
         if tombstone (h ! si) key then Some None
         else (case si_Prototype (h ! si) of
             Some p \<Rightarrow> Store_Get h key p
           | None \<Rightarrow> Some None))"

text \<open>The loops over the data and over the tombstones of one layer.\<close>

definition see_data :: "(string, 'v sval) gomap \<Rightarrow> (string, bool) gomap \<Rightarrow> (string \<times> 'v sval) list \<Rightarrow>
    (string, bool) gomap \<times> (string \<times> 'v sval) list" where
  "see_data data seen out =
    fold (\<lambda>(k, v) (seen, out).
        if gm_get seen k = Some True then (seen, out) else (gm_put k True seen, out @ [(k, v)]))
      data (seen, out)"

definition see_deleted :: "(string, bool) gomap \<Rightarrow> (string, bool) gomap \<Rightarrow> (string, bool) gomap" where
  "see_deleted deleted seen =
    fold (\<lambda>(k, dead) seen. if dead then gm_put k True seen else seen) deleted seen"

partial_function (option) visible_walk :: "'v sheap \<Rightarrow> saddr option \<Rightarrow> (string, bool) gomap \<Rightarrow>
    (string \<times> 'v sval) list \<Rightarrow> (string \<times> 'v sval) list option" where
  "visible_walk h layer seen out =
    (case layer of
       None \<Rightarrow> Some out
     | Some a \<Rightarrow>
         (case see_data (own_data (h ! a)) seen out of (seen, out) \<Rightarrow>
            visible_walk h (si_Prototype (h ! a)) (see_deleted (si_Deleted (h ! a)) seen) out))"

text \<open>The keys collected are distinct, which determines the result of \<open>sort.Slice\<close>.\<close>

definition VisibleEntries :: "'v sheap \<Rightarrow> saddr \<Rightarrow> (string \<times> 'v sval) list option" where
  "VisibleEntries h si = map_option (sort_key fst) (visible_walk h (Some si) gm_empty [])"

definition VisibleKeys :: "'v sheap \<Rightarrow> saddr \<Rightarrow> string list option" where
  "VisibleKeys h si = map_option (map fst) (VisibleEntries h si)"

text \<open>A store written into another is given its parent.\<close>

definition adopt :: "'v sheap \<Rightarrow> 'v sval \<Rightarrow> saddr \<Rightarrow> string \<Rightarrow> 'v sheap" where
  "adopt h val si key =
    (case val of
       StoreVal c \<Rightarrow> h[c := (h ! c)\<lparr> si_Parent := Some si, si_ParentKey := key \<rparr>]
     | PlainVal _ \<Rightarrow> h)"

definition Store_Set :: "'v sheap \<Rightarrow> saddr \<Rightarrow> string \<Rightarrow> 'v sval \<Rightarrow> 'v sheap" where
  "Store_Set h si key val =
    adopt (h[si := (h ! si)\<lparr> si_Data := Some (gm_put key val (own_data (h ! si))) \<rparr>]) val si key"

section \<open>The stack of contexts\<close>

text \<open>A nil-able pointer to a stack; the top is the last entry.\<close>

type_synonym contexts = "saddr list option"

definition NewContextStack :: contexts where
  "NewContextStack = Some []"

definition Context_Push :: "'v sheap \<Rightarrow> contexts \<Rightarrow> saddr option \<Rightarrow> 'v sheap \<times> contexts" where
  "Context_Push h cs parent =
    (case cs of
       None \<Rightarrow> (h, None)
     | Some stack \<Rightarrow>
         (h @ [\<lparr> si_TypeName = ''Ideal/Store'', si_Data = None, si_Deleted = gm_empty,
             si_Prototype = parent, si_Parent = None, si_ParentKey = [] \<rparr>],
          Some (stack @ [length h])))"

definition PushExisting :: "contexts \<Rightarrow> saddr option \<Rightarrow> contexts" where
  "PushExisting cs ctx =
    (case cs of
       None \<Rightarrow> None
     | Some stack \<Rightarrow> (case ctx of None \<Rightarrow> Some stack | Some c \<Rightarrow> Some (stack @ [c])))"

definition Context_Pop :: "contexts \<Rightarrow> contexts" where
  "Context_Pop cs =
    (case cs of None \<Rightarrow> None | Some stack \<Rightarrow> Some (if length stack = 0 then stack else take (length stack - 1) stack))"

definition Context_Depth :: "contexts \<Rightarrow> int" where
  "Context_Depth cs = (case cs of None \<Rightarrow> 0 | Some stack \<Rightarrow> int (length stack))"

definition Context_Top :: "contexts \<Rightarrow> saddr option" where
  "Context_Top cs =
    (case cs of None \<Rightarrow> None
     | Some stack \<Rightarrow> if length stack = 0 then None else Some (stack ! (length stack - 1)))"

definition TopData :: "'v sheap \<Rightarrow> contexts \<Rightarrow> (string, 'v sval) gomap option" where
  "TopData h cs = (case Context_Top cs of None \<Rightarrow> None | Some si \<Rightarrow> si_Data (h ! si))"

text \<open>The walk from one entry: it relinks the first store whose prototype is the original root.\<close>

partial_function (option) relink_walk :: "'v sheap \<Rightarrow> saddr option \<Rightarrow> saddr \<Rightarrow> saddr option \<Rightarrow> 'v sheap option" where
  "relink_walk h origRoot newRoot p =
    (case p of
       None \<Rightarrow> Some h
     | Some a \<Rightarrow>
         if a = newRoot then Some h
         else if si_Prototype (h ! a) = origRoot then
           Some (h[a := (h ! a)\<lparr> si_Prototype := Some newRoot \<rparr>])
         else relink_walk h origRoot newRoot (si_Prototype (h ! a)))"

text \<open>The loop over the entries \<open>i - 1\<close> down to 0.\<close>

fun update_entries :: "'v sheap \<Rightarrow> saddr list \<Rightarrow> saddr option \<Rightarrow> saddr \<Rightarrow> nat \<Rightarrow> ('v sheap \<times> saddr list) option" where
  "update_entries h stack origRoot newRoot 0 = Some (h, stack)"
| "update_entries h stack origRoot newRoot (Suc i) =
    (if Some (stack ! i) = origRoot then update_entries h (stack[i := newRoot]) origRoot newRoot i
     else (case relink_walk h origRoot newRoot (Some (stack ! i)) of
         None \<Rightarrow> None
       | Some h \<Rightarrow> update_entries h stack origRoot newRoot i))"

definition UpdateChain :: "'v sheap \<Rightarrow> contexts \<Rightarrow> saddr option \<Rightarrow> saddr \<Rightarrow> ('v sheap \<times> contexts) option" where
  "UpdateChain h cs origRoot newRoot =
    (case cs of
       None \<Rightarrow> Some (h, None)
     | Some stack \<Rightarrow>
         map_option (\<lambda>(h, stack). (h, Some stack)) (update_entries h stack origRoot newRoot (length stack)))"

definition Context_Snapshot :: "contexts \<Rightarrow> saddr list" where
  "Context_Snapshot cs = (case cs of None \<Rightarrow> [] | Some stack \<Rightarrow> stack)"

definition Context_Restore :: "contexts \<Rightarrow> saddr list \<Rightarrow> contexts" where
  "Context_Restore cs snap = (case cs of None \<Rightarrow> None | Some _ \<Rightarrow> Some snap)"

section \<open>Copy-on-write\<close>

text \<open>The loop up the parent links: each parent gets a layer that refers to the layer below.\<close>

partial_function (option) cow_parents :: "'v sheap \<Rightarrow> saddr \<Rightarrow> saddr option \<Rightarrow> string \<Rightarrow> ('v sheap \<times> saddr) option" where
  "cow_parents h current parent parentKey =
    (case parent of
       None \<Rightarrow> Some (h, current)
     | Some p \<Rightarrow>
         (let newParent = length h;
              h = h @ [\<lparr> si_TypeName = si_TypeName (h ! p),
                  si_Data = Some (gm_put parentKey (StoreVal current) gm_empty), si_Deleted = gm_empty,
                  si_Prototype = Some p, si_Parent = si_Parent (h ! p), si_ParentKey = si_ParentKey (h ! p) \<rparr>];
              h = h[current := (h ! current)\<lparr> si_Parent := Some newParent, si_ParentKey := parentKey \<rparr>]
          in cow_parents h newParent (si_Parent (h ! p)) (si_ParentKey (h ! p))))"

definition cow_layer :: "'v store \<Rightarrow> saddr \<Rightarrow> (string, 'v sval) gomap option \<Rightarrow> (string, bool) gomap \<Rightarrow> 'v store" where
  "cow_layer si store data deleted =
    \<lparr> si_TypeName = si_TypeName si, si_Data = data, si_Deleted = deleted,
      si_Prototype = Some store, si_Parent = si_Parent si, si_ParentKey = si_ParentKey si \<rparr>"

definition CowSet :: "'v sheap \<Rightarrow> contexts \<Rightarrow> saddr \<Rightarrow> string \<Rightarrow> 'v sval \<Rightarrow> ('v sheap \<times> contexts) option" where
  "CowSet h cs store key val =
    (let newStore = length h;
         h = h @ [cow_layer (h ! store) store (Some (gm_put key val gm_empty)) gm_empty];
         h = adopt h val newStore key
     in case cow_parents h newStore (si_Parent (h ! store)) (si_ParentKey (h ! store)) of
          None \<Rightarrow> None
        | Some (h, current) \<Rightarrow> UpdateChain h cs (si_Prototype (h ! current)) current)"

definition CowDel :: "'v sheap \<Rightarrow> contexts \<Rightarrow> saddr \<Rightarrow> string \<Rightarrow> ('v sheap \<times> contexts) option" where
  "CowDel h cs store key =
    (let newStore = length h;
         h = h @ [cow_layer (h ! store) store None (gm_put key True gm_empty)]
     in case cow_parents h newStore (si_Parent (h ! store)) (si_ParentKey (h ! store)) of
          None \<Rightarrow> None
        | Some (h, current) \<Rightarrow> UpdateChain h cs (si_Prototype (h ! current)) current)"

text \<open>The context stack of a concurrent fork: a private layer over the top of the parent's.\<close>

definition Fork_Contexts :: "'v sheap \<Rightarrow> contexts \<Rightarrow> 'v sheap \<times> contexts" where
  "Fork_Contexts h cs = Context_Push h NewContextStack (Context_Top cs)"

end
