(* ===== verification/Context_Laws.thy ===== *)
theory Context_Laws
  imports Context_Stores
begin

text \<open>
  Laws of copy-on-write stores: chains of links in the heap, lookup and enumeration
  along a chain, what UpdateChain does to every chain of the heap, and the layers CowSet
  and CowDel add.
\<close>

section \<open>Chains of links\<close>

text \<open>The list of the addresses a link chain passes; all of them below \<open>n\<close>.\<close>

primrec path :: "(saddr \<Rightarrow> saddr option) \<Rightarrow> nat \<Rightarrow> saddr option \<Rightarrow> saddr list \<Rightarrow> bool" where
  "path f n p [] \<longleftrightarrow> p = None"
| "path f n p (a # as) \<longleftrightarrow> p = Some a \<and> a < n \<and> path f n (f a) as"

abbreviation protos :: "'v sheap \<Rightarrow> saddr option \<Rightarrow> saddr list \<Rightarrow> bool" where
  "protos h \<equiv> path (\<lambda>a. si_Prototype (h ! a)) (length h)"

abbreviation parents :: "'v sheap \<Rightarrow> saddr option \<Rightarrow> saddr list \<Rightarrow> bool" where
  "parents h \<equiv> path (\<lambda>a. si_Parent (h ! a)) (length h)"

lemma path_None [simp]: "path f n None as \<longleftrightarrow> as = []"
  by (cases as) auto

lemma path_Some: "path f n (Some a) as \<longleftrightarrow> (\<exists>bs. as = a # bs \<and> a < n \<and> path f n (f a) bs)"
  by (cases as) auto

lemma path_det: "path f n p as \<Longrightarrow> path f n p bs \<Longrightarrow> as = bs"
proof (induction as arbitrary: p bs)
  case (Cons a as)
  then show ?case by (cases bs) auto
qed simp

lemma path_suffix: "path f n p (xs @ a # ys) \<Longrightarrow> path f n (f a) ys"
  by (induction xs arbitrary: p) auto

lemma path_bounded: "path f n p as \<Longrightarrow> a \<in> set as \<Longrightarrow> a < n"
  by (induction as arbitrary: p) auto

lemma path_cong: "path f n p as \<Longrightarrow> (\<And>a. a \<in> set as \<Longrightarrow> g a = f a) \<Longrightarrow> n \<le> m \<Longrightarrow> path g m p as"
  by (induction as arbitrary: p) auto

text \<open>A chain has no cycle.\<close>

lemma path_no_return:
  assumes "path f n (Some b) as" "x \<in> set as"
  shows "f x \<noteq> Some b"
proof
  assume "f x = Some b"
  obtain xs ys where as: "as = xs @ x # ys" using assms(2) by (meson split_list)
  then have "path f n (Some b) ys" using path_suffix assms(1) \<open>f x = Some b\<close> by metis
  then have "ys = as" using path_det assms(1) by blast
  then show False using as by simp
qed

lemma path_distinct: "path f n p as \<Longrightarrow> distinct as"
proof (induction as arbitrary: p)
  case (Cons a as)
  have "a \<notin> set as"
  proof
    assume "a \<in> set as"
    then obtain xs ys where as: "as = xs @ a # ys" by (meson split_list)
    have "path f n (f a) as" using Cons.prems by simp
    moreover have "path f n (f a) ys" using Cons.prems as path_suffix [of f n p "a # xs" a ys] by simp
    ultimately have "ys = as" by (metis path_det)
    then show False using as by simp
  qed
  then show ?case using Cons by auto
qed simp

section \<open>Lookup\<close>

text \<open>The reading of a list of layers, nearest first.\<close>

fun layers_get :: "'v store list \<Rightarrow> string \<Rightarrow> 'v sval option" where
  "layers_get [] k = None"
| "layers_get (si # ls) k =
    (case gm_get (own_data si) k of Some v \<Rightarrow> Some v
     | None \<Rightarrow> if tombstone si k then None else layers_get ls k)"

definition speaks :: "'v store \<Rightarrow> string \<Rightarrow> bool" where
  "speaks si k \<longleftrightarrow> gm_get (own_data si) k \<noteq> None \<or> tombstone si k"

lemma layers_get_skip: "\<forall>si \<in> set ls. \<not> speaks si k \<Longrightarrow> layers_get (ls @ ms) k = layers_get ms k"
  by (induction ls) (auto simp: speaks_def)

lemma layers_get_stop: "si \<in> set ls \<Longrightarrow> speaks si k \<Longrightarrow> layers_get (ls @ ms) k = layers_get ls k"
  by (induction ls) (auto simp: speaks_def split: option.split)

lemma Store_Get_chain: "protos h (Some a) as \<Longrightarrow> Store_Get h k a = Some (layers_get (map ((!) h) as) k)"
proof (induction as arbitrary: a)
  case (Cons b as)
  then show ?case
    by (subst Store_Get.simps) (cases as; auto split: option.split)
qed simp

section \<open>Enumeration\<close>

text \<open>The maps of a store have one entry per key.\<close>

definition keyed :: "'v store \<Rightarrow> bool" where
  "keyed si \<longleftrightarrow> gm_ok (own_data si) \<and> gm_ok (si_Deleted si)"

abbreviation seen_keys :: "(string, bool) gomap \<Rightarrow> string set" where
  "seen_keys m \<equiv> {k. gm_get m k = Some True}"

lemma seen_put: "seen_keys (gm_put k True m) = insert k (seen_keys m)"
  by auto

lemma see_deleted_keys:
  "gm_ok d \<Longrightarrow> seen_keys (see_deleted d seen) = seen_keys seen \<union> {k. gm_get d k = Some True}"
proof (induction d arbitrary: seen)
  case Nil
  then show ?case by (simp add: see_deleted_def gm_get_def)
next
  case (Cons e d)
  obtain k dead where e: "e = (k, dead)" by (cases e)
  have ok: "gm_ok d" "map_of d k = None" using Cons.prems e by (auto simp: gm_ok_def map_of_eq_None_iff)
  have "seen_keys (see_deleted d (if dead then gm_put k True seen else seen))
      = seen_keys (if dead then gm_put k True seen else seen) \<union> {k. gm_get d k = Some True}"
    by (rule Cons.IH [OF ok(1)])
  then show ?case using e ok(2) by (auto simp: see_deleted_def gm_get_def seen_put [simplified gm_get_def] split: if_splits)
qed

lemma gm_get_Cons: "gm_get ((k, v) # m) x = (if x = k then Some v else gm_get m x)"
  by (simp add: gm_get_def)

text \<open>What one layer adds to the entries collected.\<close>

definition collected :: "string set \<Rightarrow> (string \<times> 'v sval) list \<Rightarrow> bool" where
  "collected seen out \<longleftrightarrow> distinct (map fst out) \<and> fst ` set out \<subseteq> seen"

lemma collected_None: "collected seen out \<Longrightarrow> k \<notin> seen \<Longrightarrow> map_of out k = None"
  by (force simp: collected_def map_of_eq_None_iff)

lemma see_data_step:
  assumes "gm_ok d" "collected (seen_keys seen) out" "see_data d seen out = (seen', out')"
  shows "collected (seen_keys seen') out' \<and> seen_keys seen' = seen_keys seen \<union> fst ` set d \<and>
    map_of out' = (\<lambda>k. if k \<in> seen_keys seen then map_of out k else gm_get d k)"
  using assms
proof (induction d arbitrary: seen out)
  case Nil
  then show ?case using collected_None [OF Nil.prems(2)]
    by (auto simp: see_data_def fun_eq_iff gm_get_def)
next
  case (Cons e d)
  obtain k v where e: "e = (k, v)" by (cases e)
  have ok: "gm_ok d" "map_of d k = None" using Cons.prems e by (auto simp: gm_ok_def map_of_eq_None_iff)
  show ?case
  proof (cases "k \<in> seen_keys seen")
    case True
    then have "see_data d seen out = (seen', out')" using Cons.prems(3) e by (simp add: see_data_def)
    from Cons.IH [OF ok(1) Cons.prems(2) this] True e show ?thesis
      by (auto simp: gm_get_Cons fun_eq_iff)
  next
    case False
    have c: "collected (seen_keys (gm_put k True seen)) (out @ [(k, v)])"
      using Cons.prems(2) False by (auto simp: collected_def)
    have o: "map_of out k = None"
      using Cons.prems(2) False by (auto simp: collected_def map_of_eq_None_iff)
    have "see_data d (gm_put k True seen) (out @ [(k, v)]) = (seen', out')"
      using Cons.prems(3) e False by (simp add: see_data_def)
    note IH = Cons.IH [OF ok(1) c this, unfolded seen_put]
    have "map_of out' x = (if x \<in> seen_keys seen then map_of out x else gm_get (e # d) x)" for x
      using conjunct2 [OF conjunct2 [OF IH]] e o False
      by (simp add: gm_get_Cons map_add_def split: option.split)
    then show ?thesis using IH e by auto
  qed
qed

lemma visible_walk_chain:
  assumes "protos h p as" "\<forall>a \<in> set as. keyed (h ! a)" "collected (seen_keys seen) out"
  shows "\<exists>es. visible_walk h p seen out = Some es \<and> distinct (map fst es) \<and>
    map_of es = (\<lambda>k. if k \<in> seen_keys seen then map_of out k else layers_get (map ((!) h) as) k)"
  using assms
proof (induction as arbitrary: p seen out)
  case Nil
  then show ?case using collected_None [OF Nil.prems(3)]
    by (subst visible_walk.simps) (auto simp: collected_def fun_eq_iff)
next
  case (Cons a as)
  obtain seen1 out1 where s: "see_data (own_data (h ! a)) seen out = (seen1, out1)" by fastforce
  have k: "gm_ok (own_data (h ! a))" "gm_ok (si_Deleted (h ! a))" using Cons.prems by (auto simp: keyed_def)
  note step = see_data_step [OF k(1) Cons.prems(3) s]
  let ?seen2 = "see_deleted (si_Deleted (h ! a)) seen1"
  have seen2: "seen_keys ?seen2 = seen_keys seen \<union> fst ` set (own_data (h ! a)) \<union> {k. tombstone (h ! a) k}"
    using step see_deleted_keys [OF k(2)] by (auto simp: tombstone_def)
  have "collected (seen_keys ?seen2) out1" using step seen2 by (auto simp: collected_def)
  from Cons.IH [OF _ _ this, of "si_Prototype (h ! a)"] Cons.prems obtain es where
    es: "visible_walk h (si_Prototype (h ! a)) ?seen2 out1 = Some es" "distinct (map fst es)"
    "map_of es = (\<lambda>k. if k \<in> seen_keys ?seen2 then map_of out1 k else layers_get (map ((!) h) as) k)" by auto
  have own: "k \<in> fst ` set (own_data (h ! a)) \<longleftrightarrow> gm_get (own_data (h ! a)) k \<noteq> None" for k
    by (simp add: gm_get_def map_of_eq_None_iff)
  have "map_of es k = (if k \<in> seen_keys seen then map_of out k else layers_get (map ((!) h) (a # as)) k)" for k
    unfolding es(3) seen2 using step own [of k] by (auto split: option.splits)
  then show ?case using Cons.prems(1) s es(1,2)
    by (subst visible_walk.simps) (auto simp: fun_eq_iff)
qed

section \<open>Relinking\<close>

text \<open>\<open>h'\<close> is \<open>h\<close> with the prototypes of the stores in \<open>P\<close> set to \<open>n\<close>.\<close>

definition relinked :: "'v sheap \<Rightarrow> saddr \<Rightarrow> saddr set \<Rightarrow> 'v sheap \<Rightarrow> bool" where
  "relinked h n P h' \<longleftrightarrow> length h' = length h \<and>
    (\<forall>a < length h. h' ! a = (if a \<in> P then (h ! a)\<lparr> si_Prototype := Some n \<rparr> else h ! a))"

text \<open>The stores whose prototype is \<open>r\<close>, the new one apart.\<close>

definition preds :: "'v sheap \<Rightarrow> saddr \<Rightarrow> saddr \<Rightarrow> saddr set" where
  "preds h n r = {a. a < length h \<and> a \<noteq> n \<and> si_Prototype (h ! a) = Some r}"

text \<open>The new root \<open>n\<close> stands right above the root \<open>r\<close>, and nothing refers to it yet.\<close>

definition fresh_root :: "'v sheap \<Rightarrow> saddr \<Rightarrow> saddr \<Rightarrow> bool" where
  "fresh_root h n r \<longleftrightarrow> n < length h \<and> n \<noteq> r \<and> si_Prototype (h ! n) = Some r \<and>
    (\<forall>a < length h. si_Prototype (h ! a) \<noteq> Some n)"

lemma relinked_refl: "relinked h n {} h"
  by (simp add: relinked_def)

lemma relinked_step:
  assumes "relinked h n P h'" "a < length h" "a \<notin> P"
  shows "relinked h n (insert a P) (h'[a := (h' ! a)\<lparr> si_Prototype := Some n \<rparr>])"
  using assms by (auto simp: relinked_def nth_list_update)

lemma fresh_not_in_chain: "fresh_root h n r \<Longrightarrow> protos h p as \<Longrightarrow> p \<noteq> Some n \<Longrightarrow> n \<notin> set as"
  by (induction as arbitrary: p) (auto simp: fresh_root_def)

text \<open>The walk from one entry relinks the predecessor of the root on its chain, once.\<close>

lemma relink_walk_chain:
  assumes "fresh_root h n r" "relinked h n P h'" "P \<subseteq> preds h n r" "protos h p as" "n \<notin> set as"
  shows "\<exists>P' h''. relink_walk h' (Some r) n p = Some h'' \<and> relinked h n P' h'' \<and>
    P \<subseteq> P' \<and> P' \<subseteq> preds h n r \<and> set as \<inter> preds h n r \<subseteq> P'"
  using assms(4,5)
proof (induction as arbitrary: p)
  case Nil
  then show ?case using assms by (subst relink_walk.simps) auto
next
  case (Cons a as)
  have a: "p = Some a" "a < length h" "a \<noteq> n" "protos h (si_Prototype (h ! a)) as"
    using Cons.prems by auto
  have last: "set as \<inter> preds h n r = {}" if "si_Prototype (h ! a) = Some r"
    using path_no_return [of _ "length h" r as] a(4) that by (fastforce simp: preds_def)
  show ?case
  proof (cases "a \<in> P")
    case True
    then have r: "si_Prototype (h ! a) = Some r" using assms(3) by (auto simp: preds_def)
    have "si_Prototype (h' ! a) = Some n" using True assms(2) a(2) by (simp add: relinked_def)
    moreover have "n \<noteq> r" using assms(1) by (simp add: fresh_root_def)
    moreover have "relink_walk h' (Some r) n (Some n) = Some h'" by (subst relink_walk.simps) simp
    ultimately have "relink_walk h' (Some r) n p = Some h'"
      using a by (subst relink_walk.simps) auto
    then show ?thesis using assms(2,3) last [OF r] True by (intro exI [of _ P] exI [of _ h']) auto
  next
    case False
    then have same: "si_Prototype (h' ! a) = si_Prototype (h ! a)" using assms(2) a(2) by (simp add: relinked_def)
    show ?thesis
    proof (cases "si_Prototype (h ! a) = Some r")
      case True
      let ?h = "h'[a := (h' ! a)\<lparr> si_Prototype := Some n \<rparr>]"
      have "relink_walk h' (Some r) n p = Some ?h"
        using a True same by (subst relink_walk.simps) simp
      moreover have "a \<in> preds h n r" using a True by (simp add: preds_def)
      ultimately show ?thesis
        using relinked_step [OF assms(2) a(2) False] last [OF True] assms(3)
        by (intro exI [of _ "insert a P"] exI [of _ ?h]) auto
    next
      case other: False
      then have "relink_walk h' (Some r) n p = relink_walk h' (Some r) n (si_Prototype (h ! a))"
        using a same by (subst relink_walk.simps) simp
      moreover have "a \<notin> preds h n r" using other by (simp add: preds_def)
      ultimately show ?thesis using Cons.IH [OF a(4)] Cons.prems by auto
    qed
  qed
qed

lemma update_entries_correct:
  assumes "fresh_root h n r" "relinked h n P h'" "P \<subseteq> preds h n r"
    and "\<forall>e \<in> set stack. e \<noteq> n \<and> (\<exists>as. protos h (Some e) as)" "i \<le> length stack"
    and "st = take i stack @ map (\<lambda>e. if e = r then n else e) (drop i stack)"
    and "\<forall>e \<in> set (drop i stack). e \<noteq> r \<longrightarrow> (\<forall>as. protos h (Some e) as \<longrightarrow> set as \<inter> preds h n r \<subseteq> P)"
  shows "\<exists>P' h''. update_entries h' st (Some r) n i
      = Some (h'', map (\<lambda>e. if e = r then n else e) stack) \<and> relinked h n P' h'' \<and> P' \<subseteq> preds h n r \<and>
    (\<forall>e \<in> set stack. e \<noteq> r \<longrightarrow> (\<forall>as. protos h (Some e) as \<longrightarrow> set as \<inter> preds h n r \<subseteq> P'))"
  using assms(2,3,5-)
proof (induction i arbitrary: P h' st)
  case 0
  then show ?case by auto
next
  case (Suc i)
  let ?e = "stack ! i"
  have i: "i < length stack" using Suc.prems by simp
  then have e: "?e \<in> set stack" and ei: "st ! i = ?e" using Suc.prems(4) by (simp_all add: nth_append)
  have drop: "drop i stack = ?e # drop (Suc i) stack" using i by (simp add: Cons_nth_drop_Suc)
  have take: "take (Suc i) stack = take i stack @ [?e]" using i by (simp add: take_Suc_conv_app_nth)
  show ?case
  proof (cases "?e = r")
    case True
    have "st[i := n] = take i stack @ map (\<lambda>e. if e = r then n else e) (drop i stack)"
      using Suc.prems(4) i True by (simp add: take drop list_update_append)
    from Suc.IH [OF Suc.prems(1,2) _ this] Suc.prems(5) True i ei show ?thesis by (auto simp: drop)
  next
    case False
    obtain as where as: "protos h (Some ?e) as" and ne: "?e \<noteq> n" using assms(4) e by blast
    have "n \<notin> set as" using fresh_not_in_chain [OF assms(1) as] ne by simp
    from relink_walk_chain [OF assms(1) Suc.prems(1,2) as this] obtain P' h'' where
      w: "relink_walk h' (Some r) n (Some ?e) = Some h''" "relinked h n P' h''" "P \<subseteq> P'"
      "P' \<subseteq> preds h n r" "set as \<inter> preds h n r \<subseteq> P'" by blast
    have "st = take i stack @ map (\<lambda>e. if e = r then n else e) (drop i stack)"
      using Suc.prems(4) False by (simp add: take drop)
    moreover have "\<forall>e \<in> set (drop i stack). e \<noteq> r \<longrightarrow>
        (\<forall>as. protos h (Some e) as \<longrightarrow> set as \<inter> preds h n r \<subseteq> P')"
      using Suc.prems(5) w(3,5) path_det [OF as] by (auto simp: drop)
    ultimately show ?thesis using Suc.IH [OF w(2,4)] w(1) i ei False by simp
  qed
qed

section \<open>Chains after relinking\<close>

definition expand :: "saddr \<Rightarrow> saddr set \<Rightarrow> saddr list \<Rightarrow> saddr list" where
  "expand n P as = concat (map (\<lambda>a. if a \<in> P then [a, n] else [a]) as)"

definition insert_before :: "saddr \<Rightarrow> saddr \<Rightarrow> saddr list \<Rightarrow> saddr list" where
  "insert_before r n as = concat (map (\<lambda>a. if a = r then [n, r] else [a]) as)"

lemma expand_simps [simp]: "expand n P [] = []"
  "expand n P (a # as) = (if a \<in> P then a # n # expand n P as else a # expand n P as)"
  by (simp_all add: expand_def)

lemma insert_before_simps [simp]: "insert_before r n [] = []"
  "insert_before r n (a # as) = (if a = r then n # r # insert_before r n as else a # insert_before r n as)"
  by (simp_all add: insert_before_def)

lemma expand_disjoint: "set as \<inter> P = {} \<Longrightarrow> expand n P as = as"
  by (induction as) auto

lemma insert_before_absent: "r \<notin> set as \<Longrightarrow> insert_before r n as = as"
  by (induction as) auto

lemma relinked_chain:
  assumes "fresh_root h n r" "relinked h n P h'" "P \<subseteq> preds h n r" "protos h p as" "n \<notin> set as"
  shows "protos h' p (expand n P as)"
  using assms(4,5)
proof (induction as arbitrary: p)
  case (Cons a as)
  have a: "p = Some a" "a < length h'" "protos h' (si_Prototype (h ! a)) (expand n P as)"
    using Cons assms(2) by (auto simp: relinked_def)
  show ?case
  proof (cases "a \<in> P")
    case True
    then have "si_Prototype (h ! a) = Some r" using assms(3) by (auto simp: preds_def)
    moreover have "si_Prototype (h' ! a) = Some n" using True assms(2) a(2) by (simp add: relinked_def)
    moreover have "n \<notin> P" "n < length h" using assms(1,3) by (auto simp: preds_def fresh_root_def)
    moreover have "si_Prototype (h' ! n) = Some r" "length h' = length h"
      using assms(1,2) \<open>n \<notin> P\<close> by (auto simp: relinked_def fresh_root_def)
    ultimately show ?thesis using True a by simp
  next
    case False
    then show ?thesis using a assms(2) by (simp add: relinked_def)
  qed
qed simp

lemma expand_insert_before:
  assumes "protos h p as" "set as \<inter> preds h n r \<subseteq> P" "P \<subseteq> preds h n r" "n \<notin> set as"
  shows "(if p = Some r then [n] else []) @ expand n P as = insert_before r n as"
  using assms(1,2,4)
proof (induction as arbitrary: p)
  case (Cons a as)
  have IH: "(if si_Prototype (h ! a) = Some r then [n] else []) @ expand n P as = insert_before r n as"
    by (rule Cons.IH) (use Cons.prems in auto)
  have "a \<in> P \<longleftrightarrow> si_Prototype (h ! a) = Some r"
    using Cons.prems assms(3) by (auto simp: preds_def)
  then show ?case using IH Cons.prems(1) by auto
qed simp

text \<open>Every chain of the heap ends.\<close>

definition heap_linked :: "'v sheap \<Rightarrow> bool" where
  "heap_linked h \<longleftrightarrow> (\<forall>a < length h. \<exists>as. protos h (Some a) as)"

abbreviation replaced :: "saddr \<Rightarrow> saddr \<Rightarrow> saddr list \<Rightarrow> saddr list" where
  "replaced r n stack \<equiv> map (\<lambda>e. if e = r then n else e) stack"

lemma relinked_linked:
  assumes "fresh_root h n r" "relinked h n P h'" "P \<subseteq> preds h n r" "heap_linked h"
  shows "heap_linked h'"
  unfolding heap_linked_def
proof (intro allI impI)
  fix a assume "a < length h'"
  then have a: "a < length h" using assms(2) by (simp add: relinked_def)
  then obtain as where as: "protos h (Some a) as" using assms(4) by (auto simp: heap_linked_def)
  show "\<exists>as. protos h' (Some a) as"
  proof (cases "a = n")
    case False
    then show ?thesis using relinked_chain [OF assms(1-3) as] fresh_not_in_chain [OF assms(1) as] by auto
  next
    case True
    then obtain bs where bs: "as = n # bs" "protos h (Some r) bs"
      using as assms(1) by (cases as) (auto simp: fresh_root_def)
    have "protos h' (Some r) (expand n P bs)"
      using relinked_chain [OF assms(1-3) bs(2)] fresh_not_in_chain [OF assms(1) bs(2)] assms(1)
      by (auto simp: fresh_root_def)
    moreover have "si_Prototype (h' ! n) = Some r" "n < length h'"
      using assms(1-3) by (auto simp: relinked_def fresh_root_def preds_def)
    ultimately have "protos h' (Some n) (n # expand n P bs)" by simp
    then show ?thesis using True by blast
  qed
qed

lemma UpdateChain_correct:
  assumes "heap_linked h" "fresh_root h n r" "\<forall>e \<in> set stack. e < length h \<and> e \<noteq> n"
  shows "\<exists>P h'. UpdateChain h (Some stack) (Some r) n = Some (h', Some (replaced r n stack)) \<and>
    relinked h n P h' \<and> P \<subseteq> preds h n r \<and> heap_linked h' \<and>
    (\<forall>e \<in> set stack. \<forall>as. protos h (Some e) as \<longrightarrow>
      protos h' (Some (if e = r then n else e)) (insert_before r n as))"
proof -
  have st: "\<forall>e \<in> set stack. e \<noteq> n \<and> (\<exists>as. protos h (Some e) as)"
    using assms(1,3) by (auto simp: heap_linked_def)
  obtain P h' where u: "update_entries h stack (Some r) n (length stack) = Some (h', replaced r n stack)"
    "relinked h n P h'" "P \<subseteq> preds h n r"
    "\<forall>e \<in> set stack. e \<noteq> r \<longrightarrow> (\<forall>as. protos h (Some e) as \<longrightarrow> set as \<inter> preds h n r \<subseteq> P)"
    using update_entries_correct [OF assms(2) relinked_refl _ st order_refl, of stack] by auto
  have "protos h' (Some (if e = r then n else e)) (insert_before r n as)"
    if e: "e \<in> set stack" and as: "protos h (Some e) as" for e as
  proof -
    have n: "n \<notin> set as" using fresh_not_in_chain [OF assms(2) as] st e by auto
    have ch: "protos h' (Some e) (expand n P as)" by (rule relinked_chain [OF assms(2) u(2,3) as n])
    show ?thesis
    proof (cases "e = r")
      case False
      then have "expand n P as = insert_before r n as"
        using expand_insert_before [OF as _ u(3) n] u(4) e as by simp
      then show ?thesis using ch False by simp
    next
      case True
      have "set as \<inter> preds h n r = {}"
        using path_no_return [of _ "length h" r as] as True by (fastforce simp: preds_def)
      then have "set as \<inter> P = {}" using u(3) by blast
      then have x1: "expand n P as = as" by (rule expand_disjoint)
      then have x: "expand n P as = as" "n # as = insert_before r n as"
        using expand_insert_before [OF as _ u(3) n] \<open>set as \<inter> preds h n r = {}\<close> True by simp_all
      have "protos h' (Some n) (n # as)"
        using assms(2) u(2,3) ch x(1) True by (auto simp: relinked_def fresh_root_def preds_def)
      then show ?thesis using x(2) True by simp
    qed
  qed
  then have "\<forall>e \<in> set stack. \<forall>as. protos h (Some e) as \<longrightarrow>
      protos h' (Some (if e = r then n else e)) (insert_before r n as)" by blast
  moreover have "UpdateChain h (Some stack) (Some r) n = Some (h', Some (replaced r n stack))"
    using u(1) by (simp add: UpdateChain_def)
  ultimately show ?thesis using u(2,3) relinked_linked [OF assms(2) u(2,3) assms(1)] by blast
qed

section \<open>The layers of a copy-on-write\<close>

text \<open>What a store answers with, apart from its links to a parent.\<close>

definition content :: "'v store \<Rightarrow> string \<times> (string, 'v sval) gomap option \<times> (string, bool) gomap \<times> saddr option" where
  "content si = (si_TypeName si, si_Data si, si_Deleted si, si_Prototype si)"

definition body :: "'v store \<Rightarrow> string \<times> (string, 'v sval) gomap option \<times> (string, bool) gomap" where
  "body si = (si_TypeName si, si_Data si, si_Deleted si)"

lemma content_body: "content si = content si' \<Longrightarrow> body si = body si' \<and> si_Prototype si = si_Prototype si'"
  by (simp add: content_def body_def)

text \<open>The layers over the parents \<open>ps\<close>, the first at address \<open>n\<close>.\<close>

fun parent_layers :: "'v sheap \<Rightarrow> saddr \<Rightarrow> string \<Rightarrow> nat \<Rightarrow> saddr list \<Rightarrow>
    (string \<times> (string, 'v sval) gomap option \<times> (string, bool) gomap \<times> saddr option) list" where
  "parent_layers h cur pk n [] = []"
| "parent_layers h cur pk n (p # ps) =
    (si_TypeName (h ! p), Some (gm_put pk (StoreVal cur) gm_empty), gm_empty, Some p)
      # parent_layers h n (si_ParentKey (h ! p)) (Suc n) ps"

lemma length_parent_layers [simp]: "length (parent_layers h cur pk n ps) = length ps"
  by (induction h cur pk n ps rule: parent_layers.induct) auto

lemma parent_layers_cong:
  "\<forall>p \<in> set ps. si_TypeName (h' ! p) = si_TypeName (h ! p) \<and> si_ParentKey (h' ! p) = si_ParentKey (h ! p) \<Longrightarrow>
    parent_layers h' cur pk n ps = parent_layers h cur pk n ps"
  by (induction ps arbitrary: cur pk n) auto

lemma parent_layers_nth:
  "j < length ps \<Longrightarrow> parent_layers h cur pk n ps ! j =
    (si_TypeName (h ! (ps ! j)),
     Some (gm_put (case j of 0 \<Rightarrow> pk | Suc i \<Rightarrow> si_ParentKey (h ! (ps ! i)))
       (StoreVal (case j of 0 \<Rightarrow> cur | Suc i \<Rightarrow> n + i)) gm_empty), gm_empty, Some (ps ! j))"
  by (induction ps arbitrary: cur pk n j) (auto simp: nth_Cons split: nat.split)

lemma cow_parents_layers:
  fixes h :: "'v sheap"
  assumes "path (\<lambda>a. si_Parent (h ! a)) (length h) parent ps" "cur < length h" "cur \<notin> set ps"
  shows "\<exists>h'. cow_parents h cur parent pk
      = Some (h', case length ps of 0 \<Rightarrow> cur | Suc m \<Rightarrow> length h + m) \<and>
    map content h' = map content h @ parent_layers h cur pk (length h) ps"
  using assms
proof (induction ps arbitrary: h cur parent pk)
  case Nil
  then show ?case by (subst cow_parents.simps) simp
next
  case (Cons p ps)
  let ?n = "length h"
  define L :: "'v store" where "L = \<lparr> si_TypeName = si_TypeName (h ! p),
      si_Data = Some (gm_put pk (StoreVal cur) gm_empty), si_Deleted = gm_empty,
      si_Prototype = Some p, si_Parent = si_Parent (h ! p), si_ParentKey = si_ParentKey (h ! p) \<rparr>"
  define h2 where "h2 = (h @ [L])[cur := ((h @ [L]) ! cur)\<lparr> si_Parent := Some ?n, si_ParentKey := pk \<rparr>]"
  have p: "parent = Some p" "p < ?n" "p \<noteq> cur" using Cons.prems by auto
  have same: "h2 ! a = h ! a" if "a < ?n" "a \<noteq> cur" for a
    using that by (simp add: h2_def nth_append)
  have "map content h2 = (map content (h @ [L]))[cur := content (h ! cur)]"
    using Cons.prems(2) by (simp add: h2_def map_update nth_append content_def)
  also have "\<dots> = map content (h @ [L])"
    using Cons.prems(2) list_update_id [of "map content (h @ [L])" cur] by (simp add: nth_append)
  finally have c2: "map content h2 = map content h @ [content L]" by simp
  have len: "length h2 = Suc ?n" by (simp add: h2_def)
  have ps: "\<forall>a \<in> set ps. a < ?n \<and> a \<noteq> cur" using Cons.prems path_bounded by fastforce
  have "path (\<lambda>a. si_Parent (h2 ! a)) (length h2) (si_Parent (h ! p)) ps"
    by (rule path_cong [of "\<lambda>a. si_Parent (h ! a)" ?n]) (use Cons.prems(1) p(1) ps same len in auto)
  moreover have "?n \<notin> set ps" using ps by auto
  ultimately obtain h' where h': "cow_parents h2 ?n (si_Parent (h ! p)) (si_ParentKey (h ! p))
      = Some (h', case length ps of 0 \<Rightarrow> ?n | Suc m \<Rightarrow> length h2 + m)"
    "map content h' = map content h2 @ parent_layers h2 ?n (si_ParentKey (h ! p)) (length h2) ps"
    using Cons.IH [of h2 "si_Parent (h ! p)" ?n "si_ParentKey (h ! p)"] len by auto
  have "cow_parents h cur parent pk = cow_parents h2 ?n (si_Parent (h2 ! p)) (si_ParentKey (h2 ! p))"
    using p by (subst cow_parents.simps) (simp add: h2_def L_def Let_def)
  also have "\<dots> = Some (h', case length (p # ps) of 0 \<Rightarrow> cur | Suc m \<Rightarrow> ?n + m)"
    using h'(1) same [OF p(2,3)] len by (simp split: nat.split)
  finally have r: "cow_parents h cur parent pk = Some (h', case length (p # ps) of 0 \<Rightarrow> cur | Suc m \<Rightarrow> ?n + m)" .
  have "map content h' = map content h @ parent_layers h cur pk ?n (p # ps)"
    using h'(2) c2 parent_layers_cong [of ps h2 h] same ps len by (simp add: content_def L_def)
  then show ?case using r by blast
qed

section \<open>The outcome of a copy-on-write\<close>

text \<open>The key the newest layer, the one over the root, speaks for.\<close>

definition root_key :: "'v sheap \<Rightarrow> string \<Rightarrow> saddr \<Rightarrow> saddr list \<Rightarrow> string" where
  "root_key h key store ps = (if ps = [] then key else si_ParentKey (h ! ((store # ps) ! (length ps - 1))))"

text \<open>The heap \<open>h3\<close> and stack after a copy-on-write of \<open>store\<close> with parents \<open>ps\<close>, whose own new
  layer has data \<open>D\<close> and tombstones \<open>X\<close>.\<close>

definition cow_outcome :: "'v sheap \<Rightarrow> saddr list \<Rightarrow> saddr \<Rightarrow> saddr list \<Rightarrow> (string, 'v sval) gomap option \<Rightarrow>
    (string, bool) gomap \<Rightarrow> 'v sheap \<Rightarrow> saddr list \<Rightarrow> bool" where
  "cow_outcome h stack store ps D X h3 stack3 \<longleftrightarrow>
    (let b = length h; m = length ps; r = last (store # ps); n = b + m in
      heap_linked h3 \<and> length h3 = b + m + 1 \<and> stack3 = replaced r n stack \<and>
      (\<forall>a < b. body (h3 ! a) = body (h ! a)) \<and>
      body (h3 ! b) = (si_TypeName (h ! store), D, X) \<and>
      (\<forall>j < m. body (h3 ! (b + Suc j)) = (si_TypeName (h ! (ps ! j)),
        Some (gm_put (si_ParentKey (h ! ((store # ps) ! j))) (StoreVal (b + j)) gm_empty), gm_empty)) \<and>
      (\<forall>e \<in> set stack. \<forall>as. protos h (Some e) as \<longrightarrow>
        protos h3 (Some (if e = r then n else e)) (insert_before r n as)) \<and>
      (\<forall>a < b. \<forall>as. protos h (Some a) as \<longrightarrow>
        (\<exists>P. protos h3 (Some a) (expand n P as) \<and> (r \<notin> set (tl as) \<longrightarrow> set as \<inter> P = {}))))"

lemma map_content_nth: "map content h' = map content h @ ls \<Longrightarrow> a < length h \<Longrightarrow> content (h' ! a) = content (h ! a)"
  by (metis length_append length_map nth_append nth_map trans_less_add1)

lemma content_chain:
  assumes "map content h' = map content h @ ls" "protos h p as"
  shows "protos h' p as"
proof (rule path_cong [OF assms(2)])
  show "length h \<le> length h'" using arg_cong [OF assms(1), of length] by simp
next
  fix a assume "a \<in> set as"
  then have "a < length h" using assms(2) path_bounded by blast
  then show "si_Prototype (h' ! a) = si_Prototype (h ! a)"
    using map_content_nth [OF assms(1)] content_body by blast
qed

text \<open>Stores added on top of a linked heap, with prototypes in it, keep it linked and are referred to
  by no prototype.\<close>

lemma layered_fresh:
  assumes "map content h2 = map content h @ ls" "heap_linked h"
    and new: "\<And>j. j < length ls \<Longrightarrow> \<exists>p. si_Prototype (h2 ! (length h + j)) = Some p \<and> p < length h"
  shows "heap_linked h2 \<and> (\<forall>a < length h2. \<forall>x. si_Prototype (h2 ! a) = Some x \<longrightarrow> x < length h)"
proof -
  have len: "length h2 = length h + length ls" using arg_cong [OF assms(1), of length] by simp
  have cases: "a < length h \<or> (\<exists>j < length ls. a = length h + j)" if "a < length h2" for a
    using that len by (metis add_less_cancel_left le_Suc_ex not_le)
  have link: "\<exists>as. protos h2 (Some a) as" if "a < length h" for a
    using assms(2) that content_chain [OF assms(1)] unfolding heap_linked_def by blast
  have "\<exists>as. protos h2 (Some a) as" if a: "a < length h2" for a
  proof (cases "a < length h")
    case False
    then obtain j p where "j < length ls" "a = length h + j" "si_Prototype (h2 ! a) = Some p" "p < length h"
      using cases [OF a] new by blast
    moreover obtain as where "protos h2 (Some p) as" using link [OF \<open>p < length h\<close>] by blast
    ultimately have "protos h2 (Some a) (a # as)" using a by simp
    then show ?thesis by blast
  qed (rule link)
  moreover have "x < length h" if a: "a < length h2" and p: "si_Prototype (h2 ! a) = Some x" for a x
  proof (cases "a < length h")
    case True
    then obtain as where "protos h2 (Some a) as" "protos h (Some a) as"
      using assms(2) content_chain [OF assms(1)] unfolding heap_linked_def by blast
    moreover have "si_Prototype (h ! a) = Some x"
      using p map_content_nth [OF assms(1) True] by (simp add: content_def)
    ultimately show ?thesis by (auto simp: path_Some)
  next
    case False
    then show ?thesis using cases [OF a] new p by fastforce
  qed
  ultimately show ?thesis unfolding heap_linked_def by blast
qed

text \<open>A chain that does not go below its head through the root keeps its shape.\<close>

lemma relinked_tail:
  assumes "P \<subseteq> preds h n r" "protos h (Some a) as" "r \<notin> set (tl as)"
  shows "set as \<inter> P = {}"
proof (rule ccontr)
  assume "set as \<inter> P \<noteq> {}"
  then obtain x where x: "x \<in> set as" "si_Prototype (h ! x) = Some r" using assms(1) by (auto simp: preds_def)
  then obtain xs ys where as: "as = xs @ x # ys" by (meson split_list)
  then have "protos h (Some r) ys" using assms(2) x(2) path_suffix by metis
  then show False using assms(3) as by (cases xs; cases ys) auto
qed

lemma cow_layers:
  fixes h :: "'v sheap"
  assumes h1: "map content h1 = map content h @ [(si_TypeName (h ! store), D, X, Some store)]"
    and ps: "parents h (Some store) (store # ps)"
    and same: "\<forall>a \<in> set (store # ps). si_Parent (h1 ! a) = si_Parent (h ! a) \<and> si_ParentKey (h1 ! a) = si_ParentKey (h ! a)"
  obtains h2 ls where "cow_parents h1 (length h) (si_Parent (h1 ! store)) (si_ParentKey (h1 ! store))
      = Some (h2, length h + length ps)"
    "map content h2 = map content h @ ls" "length ls = Suc (length ps)"
    "ls ! 0 = (si_TypeName (h ! store), D, X, Some store)"
    "\<And>j. j < length ps \<Longrightarrow> ls ! Suc j = (si_TypeName (h ! (ps ! j)),
      Some (gm_put (si_ParentKey (h ! ((store # ps) ! j))) (StoreVal (length h + j)) gm_empty), gm_empty, Some (ps ! j))"
proof -
  let ?b = "length h" and ?pk = "si_ParentKey (h ! store)"
  define ls where "ls = (si_TypeName (h ! store), D, X, Some store) # parent_layers h ?b ?pk (Suc ?b) ps"
  have len1: "length h1 = Suc ?b" using arg_cong [OF h1, of length] by simp
  have bound: "\<forall>a \<in> set (store # ps). a < ?b" using ps path_bounded by blast
  have "path (\<lambda>a. si_Parent (h1 ! a)) (length h1) (si_Parent (h1 ! store)) ps"
    by (rule path_cong [of "\<lambda>a. si_Parent (h ! a)" ?b]) (use ps same len1 in auto)
  then obtain h2 where
    c: "cow_parents h1 ?b (si_Parent (h1 ! store)) ?pk = Some (h2, case length ps of 0 \<Rightarrow> ?b | Suc m \<Rightarrow> length h1 + m)"
    "map content h2 = map content h1 @ parent_layers h1 ?b ?pk (length h1) ps"
    using cow_parents_layers [of h1 "si_Parent (h1 ! store)" ps ?b ?pk] len1 bound by auto
  have "\<forall>p \<in> set ps. si_TypeName (h1 ! p) = si_TypeName (h ! p) \<and> si_ParentKey (h1 ! p) = si_ParentKey (h ! p)"
    using same bound map_content_nth [OF h1] by (auto simp: content_def)
  then have "map content h2 = map content h @ ls"
    using c(2) h1 len1 by (simp add: ls_def parent_layers_cong)
  moreover have "(case length ps of 0 \<Rightarrow> ?b | Suc m \<Rightarrow> length h1 + m) = ?b + length ps"
    using len1 by (simp split: nat.split)
  moreover have "ls ! Suc j = (si_TypeName (h ! (ps ! j)),
      Some (gm_put (si_ParentKey (h ! ((store # ps) ! j))) (StoreVal (?b + j)) gm_empty), gm_empty, Some (ps ! j))"
    if "j < length ps" for j using that by (cases j) (simp_all add: ls_def parent_layers_nth)
  ultimately show ?thesis using that [of h2 ls] c(1) same by (simp add: ls_def)
qed

lemma cow_core:
  fixes h :: "'v sheap"
  assumes linked: "heap_linked h" and stack: "\<forall>e \<in> set stack. e < length h"
    and h1: "map content h1 = map content h @ [(si_TypeName (h ! store), D, X, Some store)]"
    and ps: "parents h (Some store) (store # ps)"
    and same: "\<forall>a \<in> set (store # ps). si_Parent (h1 ! a) = si_Parent (h ! a) \<and> si_ParentKey (h1 ! a) = si_ParentKey (h ! a)"
  shows "\<exists>h3 stack3. (case cow_parents h1 (length h) (si_Parent (h1 ! store)) (si_ParentKey (h1 ! store)) of
        None \<Rightarrow> None
      | Some (h, current) \<Rightarrow> UpdateChain h (Some stack) (si_Prototype (h ! current)) current) = Some (h3, Some stack3) \<and>
    cow_outcome h stack store ps D X h3 stack3"
proof -
  let ?b = "length h" and ?m = "length ps" and ?r = "last (store # ps)"
  let ?n = "?b + ?m"
  obtain h2 ls where c: "cow_parents h1 ?b (si_Parent (h1 ! store)) (si_ParentKey (h1 ! store)) = Some (h2, ?n)"
    and h2: "map content h2 = map content h @ ls" and ls: "length ls = Suc ?m"
    "ls ! 0 = (si_TypeName (h ! store), D, X, Some store)"
    "\<And>j. j < ?m \<Longrightarrow> ls ! Suc j = (si_TypeName (h ! (ps ! j)),
      Some (gm_put (si_ParentKey (h ! ((store # ps) ! j))) (StoreVal (?b + j)) gm_empty), gm_empty, Some (ps ! j))"
    using cow_layers [OF h1 ps same] by metis
  have bound: "(store # ps) ! j < ?b" if "j \<le> ?m" for j
    using ps path_bounded that by (metis le_imp_less_Suc length_Cons nth_mem)
  have len2: "length h2 = Suc ?n" using arg_cong [OF h2, of length] ls(1) by simp
  have new2: "content (h2 ! (?b + j)) = ls ! j" if "j \<le> ?m" for j
    using arg_cong [OF h2, of "\<lambda>l. l ! (?b + j)"] that len2 by (simp add: nth_append)
  have proto2: "si_Prototype (h2 ! (?b + j)) = Some ((store # ps) ! j)" if "j \<le> ?m" for j
    using that new2 [OF that] ls(2) ls(3) [of "j - 1"] by (cases j) (auto simp: content_def)
  have r: "(store # ps) ! ?m = ?r" by (simp add: last_conv_nth)
  have "heap_linked h2 \<and> (\<forall>a < length h2. \<forall>x. si_Prototype (h2 ! a) = Some x \<longrightarrow> x < ?b)"
    by (rule layered_fresh [OF h2 linked]) (use ls(1) proto2 bound in auto)
  then have linked2: "heap_linked h2" and fresh: "fresh_root h2 ?n ?r"
    using len2 proto2 [of ?m] r bound [of ?m] by (auto simp: fresh_root_def)
  have "\<forall>e \<in> set stack. e < length h2 \<and> e \<noteq> ?n" using stack len2 by fastforce
  from UpdateChain_correct [OF linked2 fresh this] obtain P h3 where
    u: "UpdateChain h2 (Some stack) (Some ?r) ?n = Some (h3, Some (replaced ?r ?n stack))"
    "relinked h2 ?n P h3" "P \<subseteq> preds h2 ?n ?r" "heap_linked h3"
    "\<forall>e \<in> set stack. \<forall>as. protos h2 (Some e) as \<longrightarrow>
      protos h3 (Some (if e = ?r then ?n else e)) (insert_before ?r ?n as)" by blast
  have body3: "body (h3 ! a) = body (h2 ! a)" if "a < length h2" for a
    using u(2) that by (auto simp: relinked_def body_def)
  have len3: "length h3 = ?b + ?m + 1" using u(2) len2 by (simp add: relinked_def)
  have old: "\<forall>a < ?b. body (h3 ! a) = body (h ! a)"
    using body3 content_body [OF map_content_nth [OF h2]] len2 by auto
  have first: "body (h3 ! ?b) = (si_TypeName (h ! store), D, X)"
    using body3 [of ?b] len2 new2 [of 0] ls(2) by (simp add: content_def body_def)
  have later: "\<forall>j < ?m. body (h3 ! (?b + Suc j)) = (si_TypeName (h ! (ps ! j)),
        Some (gm_put (si_ParentKey (h ! ((store # ps) ! j))) (StoreVal (?b + j)) gm_empty), gm_empty)"
  proof (intro allI impI)
    fix j assume "j < ?m"
    then show "body (h3 ! (?b + Suc j)) = (si_TypeName (h ! (ps ! j)),
        Some (gm_put (si_ParentKey (h ! ((store # ps) ! j))) (StoreVal (?b + j)) gm_empty), gm_empty)"
      using body3 [of "?b + Suc j"] len2 new2 [of "Suc j"] ls(3) by (simp add: content_def body_def)
  qed
  have entries: "\<forall>e \<in> set stack. \<forall>as. protos h (Some e) as \<longrightarrow>
      protos h3 (Some (if e = ?r then ?n else e)) (insert_before ?r ?n as)"
    using u(5) content_chain [OF h2] by blast
  have olds: "\<exists>P. protos h3 (Some a) (expand ?n P as) \<and> (?r \<notin> set (tl as) \<longrightarrow> set as \<inter> P = {})"
    if "a < ?b" "protos h (Some a) as" for a as
  proof (intro exI conjI impI)
    note c2 = content_chain [OF h2 that(2)]
    have "?n \<notin> set as" using path_bounded [OF that(2)] by fastforce
    then show "protos h3 (Some a) (expand ?n P as)" by (rule relinked_chain [OF fresh u(2,3) c2])
    show "set as \<inter> P = {}" if "?r \<notin> set (tl as)" by (rule relinked_tail [OF u(3) c2 that])
  qed
  have "cow_outcome h stack store ps D X h3 (replaced ?r ?n stack)"
    unfolding cow_outcome_def Let_def using u(4) len3 old first later entries olds by blast
  moreover have "si_Prototype (h2 ! ?n) = Some ?r" using proto2 [of ?m] r by simp
  ultimately show ?thesis using c u(1) by simp
qed

section \<open>CowSet and CowDel\<close>

text \<open>A value that is no store among \<open>as\<close>.\<close>

definition apart :: "'v sheap \<Rightarrow> 'v sval \<Rightarrow> saddr list \<Rightarrow> bool" where
  "apart h val as \<longleftrightarrow> (case val of StoreVal c \<Rightarrow> c < length h \<and> c \<notin> set as | PlainVal _ \<Rightarrow> True)"

lemma adopt_content: "map content (adopt h val si key) = map content h"
proof (cases val)
  case (StoreVal c)
  have "content ((h ! c)\<lparr> si_Parent := Some si, si_ParentKey := key \<rparr>) = content (h ! c)" by (simp add: content_def)
  then show ?thesis using StoreVal
    by (cases "c < length h") (simp_all add: adopt_def map_update list_update_same_conv list_update_beyond)
qed (simp add: adopt_def)

lemma CowSet_outcome:
  assumes "heap_linked h" "\<forall>e \<in> set stack. e < length h" "parents h (Some store) (store # ps)"
    and "apart h val (store # ps)"
  shows "\<exists>h3 stack3. CowSet h (Some stack) store key val = Some (h3, Some stack3) \<and>
    cow_outcome h stack store ps (Some (gm_put key val gm_empty)) gm_empty h3 stack3"
proof -
  let ?h0 = "h @ [cow_layer (h ! store) store (Some (gm_put key val gm_empty)) gm_empty]"
  have c: "map content (adopt ?h0 val (length h) key)
      = map content h @ [(si_TypeName (h ! store), Some (gm_put key val gm_empty), gm_empty, Some store)]"
    by (simp add: adopt_content) (simp add: content_def cow_layer_def)
  have "adopt ?h0 val (length h) key ! a = h ! a" if "a \<in> set (store # ps)" for a
  proof -
    have "a < length h" using path_bounded [OF assms(3) that] .
    then show ?thesis using assms(4) that by (cases val) (auto simp: adopt_def apart_def nth_append nth_list_update)
  qed
  then have "\<forall>a \<in> set (store # ps). si_Parent (adopt ?h0 val (length h) key ! a) = si_Parent (h ! a) \<and>
      si_ParentKey (adopt ?h0 val (length h) key ! a) = si_ParentKey (h ! a)" by simp
  from cow_core [OF assms(1,2) c assms(3) this] show ?thesis by (simp only: CowSet_def Let_def)
qed

lemma CowDel_outcome:
  assumes "heap_linked h" "\<forall>e \<in> set stack. e < length h" "parents h (Some store) (store # ps)"
  shows "\<exists>h3 stack3. CowDel h (Some stack) store key = Some (h3, Some stack3) \<and>
    cow_outcome h stack store ps None (gm_put key True gm_empty) h3 stack3"
proof -
  let ?h0 = "h @ [cow_layer (h ! store) store None (gm_put key True gm_empty)]"
  have c: "map content ?h0 = map content h @ [(si_TypeName (h ! store), None, gm_put key True gm_empty, Some store)]"
    by (simp add: content_def cow_layer_def)
  have "\<forall>a \<in> set (store # ps). si_Parent (?h0 ! a) = si_Parent (h ! a) \<and> si_ParentKey (?h0 ! a) = si_ParentKey (h ! a)"
    using path_bounded [OF assms(3)] by (auto simp: nth_append)
  from cow_core [OF assms(1,2) c assms(3) this] show ?thesis by (simp only: CowDel_def Let_def)
qed

section \<open>Reading after a copy-on-write\<close>

text \<open>A lookup of \<open>k\<close> from \<open>e\<close> gets as far as \<open>r\<close>.\<close>

definition reaches :: "'v sheap \<Rightarrow> saddr \<Rightarrow> saddr \<Rightarrow> string \<Rightarrow> bool" where
  "reaches h e r k \<longleftrightarrow> (\<exists>xs ys. protos h (Some e) (xs @ r # ys) \<and> (\<forall>a \<in> set xs. \<not> speaks (h ! a) k))"

lemma body_reads: "body si = body si' \<Longrightarrow> own_data si = own_data si' \<and> tombstone si = tombstone si'"
  by (simp add: body_def own_data_def tombstone_def fun_eq_iff)

lemma layers_get_body:
  "(\<And>a. a \<in> set as \<Longrightarrow> body (h' ! a) = body (h ! a)) \<Longrightarrow>
    layers_get (map ((!) h') as) k = layers_get (map ((!) h) as) k"
proof (induction as)
  case (Cons a as)
  then show ?case using body_reads [of "h' ! a" "h ! a"] by (simp split: option.split)
qed simp

lemma speaks_body: "body si = body si' \<Longrightarrow> speaks si k = speaks si' k"
  by (drule body_reads) (simp add: speaks_def)

lemma Store_Get_speaks: "speaks (h ! a) k \<Longrightarrow> Store_Get h k a = Some (layers_get [h ! a] k)"
  by (subst Store_Get.simps) (auto simp: speaks_def split: option.split)

lemma insert_before_split:
  "distinct (xs @ r # ys) \<Longrightarrow> insert_before r n (xs @ r # ys) = xs @ n # r # ys"
proof (induction xs)
  case Nil
  then show ?case by (simp add: insert_before_absent)
qed auto

lemma insert_before_reads:
  assumes "protos h (Some e) as" "\<And>a. a \<in> set as \<Longrightarrow> body (h' ! a) = body (h ! a)"
  shows "layers_get (map ((!) h') (insert_before r n as)) k =
    (if reaches h e r k \<and> speaks (h' ! n) k then layers_get [h' ! n] k else layers_get (map ((!) h) as) k)"
proof (cases "r \<in> set as")
  case False
  have "\<not> reaches h e r k" using False path_det [OF assms(1)] by (auto simp: reaches_def)
  then show ?thesis using False layers_get_body [OF assms(2)] by (simp add: insert_before_absent)
next
  case True
  then obtain xs ys where as: "as = xs @ r # ys" by (meson split_list)
  have ins: "insert_before r n as = xs @ n # r # ys"
    using insert_before_split path_distinct [OF assms(1)] as by simp
  have same: "layers_get (map ((!) h') as) k = layers_get (map ((!) h) as) k" by (rule layers_get_body [OF assms(2)])
  have sp: "speaks (h' ! a) k = speaks (h ! a) k" if "a \<in> set as" for a using speaks_body [OF assms(2) [OF that]] .
  show ?thesis
  proof (cases "\<exists>a \<in> set xs. speaks (h ! a) k")
    case True
    then obtain a where a: "a \<in> set xs" "speaks (h' ! a) k" using sp as by auto
    have nr: "\<not> reaches h e r k"
    proof
      assume "reaches h e r k"
      then obtain xs' ys' where r: "protos h (Some e) (xs' @ r # ys')" "\<forall>a \<in> set xs'. \<not> speaks (h ! a) k"
        by (auto simp: reaches_def)
      have "xs' @ r # ys' = xs @ r # ys" using path_det [OF assms(1) r(1)] as by simp
      moreover have "distinct (xs @ r # ys)" using path_distinct [OF assms(1)] as by simp
      ultimately have "xs' = xs" by (metis append_Cons_eq_iff distinct_append not_distinct_conv_prefix distinct.simps(2) disjoint_iff list.set_intros(1))
      then show False using r(2) True by blast
    qed
    have "layers_get (map ((!) h') (xs @ zs)) k = layers_get (map ((!) h') xs) k" for zs
      using layers_get_stop [of "h' ! a" "map ((!) h') xs" k] a by simp
    then show ?thesis using nr ins same as by metis
  next
    case False
    then have r: "reaches h e r k" using assms(1) as by (auto simp: reaches_def)
    have skip: "layers_get (map ((!) h') xs @ ms) k = layers_get ms k" for ms
      using layers_get_skip [of "map ((!) h') xs" k] False sp as by auto
    have "layers_get (map ((!) h') (insert_before r n as)) k = layers_get (h' ! n # map ((!) h') (r # ys)) k"
      using skip ins by simp
    moreover have "layers_get (map ((!) h') as) k = layers_get (map ((!) h') (r # ys)) k"
      using skip as by simp
    ultimately show ?thesis using r same by (auto simp: speaks_def split: option.split)
  qed
qed

lemma expand_reads:
  assumes "\<And>a. a \<in> set as \<Longrightarrow> body (h' ! a) = body (h ! a)" "\<not> speaks (h' ! n) k \<or> set as \<inter> P = {}"
  shows "layers_get (map ((!) h') (expand n P as)) k = layers_get (map ((!) h) as) k"
  using assms
proof (induction as)
  case (Cons a as)
  have b: "body (h' ! a) = body (h ! a)" using Cons.prems(1) by simp
  have IH: "layers_get (map ((!) h') (expand n P as)) k = layers_get (map ((!) h) as) k"
    by (rule Cons.IH) (use Cons.prems in auto)
  show ?case
  proof (cases "a \<in> P")
    case True
    then have "\<not> speaks (h' ! n) k" using Cons.prems(2) by auto
    then show ?thesis using True IH body_reads [OF b] by (simp add: speaks_def split: option.split)
  next
    case False
    then show ?thesis using IH body_reads [OF b] by (simp split: option.split)
  qed
qed simp

lemma outcome_read:
  assumes "cow_outcome h stack store ps D X h3 stack3" "heap_linked h" "\<forall>e \<in> set stack. e < length h" "i < length stack"
  shows "Store_Get h3 k (stack3 ! i) =
    (if reaches h (stack ! i) (last (store # ps)) k \<and> speaks (h3 ! (length h + length ps)) k
     then Some (layers_get [h3 ! (length h + length ps)] k) else Store_Get h k (stack ! i))"
proof -
  let ?e = "stack ! i" and ?r = "last (store # ps)" and ?n = "length h + length ps"
  have e: "?e \<in> set stack" "?e < length h" using assms(3,4) by auto
  then obtain as where as: "protos h (Some ?e) as" using assms(2) unfolding heap_linked_def by blast
  have ch: "protos h3 (Some (if ?e = ?r then ?n else ?e)) (insert_before ?r ?n as)"
    using assms(1) e(1) as unfolding cow_outcome_def Let_def by blast
  have st: "stack3 ! i = (if ?e = ?r then ?n else ?e)" using assms(1,4) by (simp add: cow_outcome_def Let_def)
  have b: "body (h3 ! a) = body (h ! a)" if "a \<in> set as" for a
    using assms(1) path_bounded [OF as that] by (simp add: cow_outcome_def Let_def)
  show ?thesis
    using Store_Get_chain [OF ch] Store_Get_chain [OF as] insert_before_reads [OF as b] unfolding st by simp
qed

lemma outcome_frame:
  assumes "cow_outcome h stack store ps D X h3 stack3" "protos h (Some a) as"
    and "\<not> speaks (h3 ! (length h + length ps)) k \<or> last (store # ps) \<notin> set (tl as)"
  shows "Store_Get h3 k a = Store_Get h k a"
proof -
  have a: "a < length h" using path_bounded [OF assms(2)] assms(2) by (auto simp: path_Some)
  obtain P where P: "protos h3 (Some a) (expand (length h + length ps) P as)"
    "last (store # ps) \<notin> set (tl as) \<longrightarrow> set as \<inter> P = {}"
    using assms(1) a assms(2) unfolding cow_outcome_def Let_def by blast
  have b: "body (h3 ! x) = body (h ! x)" if "x \<in> set as" for x
    using assms(1) path_bounded [OF assms(2) that] by (simp add: cow_outcome_def Let_def)
  have "layers_get (map ((!) h3) (expand (length h + length ps) P as)) k = layers_get (map ((!) h) as) k"
    by (rule expand_reads [OF b]) (use P(2) assms(3) in auto)
  then show ?thesis using Store_Get_chain [OF P(1)] Store_Get_chain [OF assms(2)] by simp
qed

text \<open>Following keys from store to store.\<close>

primrec read_path :: "'v sheap \<Rightarrow> 'v sval \<Rightarrow> string list \<Rightarrow> 'v sval option" where
  "read_path h v [] = Some v"
| "read_path h v (k # ks) =
    (case v of
       StoreVal a \<Rightarrow> (case Store_Get h k a of Some (Some w) \<Rightarrow> read_path h w ks | _ \<Rightarrow> None)
     | PlainVal _ \<Rightarrow> None)"

text \<open>The keys under which the stores from the root down to \<open>store\<close> are held.\<close>

definition keys_to :: "'v sheap \<Rightarrow> saddr \<Rightarrow> saddr list \<Rightarrow> string list" where
  "keys_to h store ps = rev (map (\<lambda>a. si_ParentKey (h ! a)) (take (length ps) (store # ps)))"

lemma Store_Get_own: "gm_get (own_data (h ! a)) k = Some v \<Longrightarrow> Store_Get h k a = Some (Some v)"
  by (subst Store_Get.simps) simp

lemma outcome_layer:
  assumes "cow_outcome h stack store ps D X h3 stack3" "j < length ps"
  shows "body (h3 ! (length h + Suc j)) = (si_TypeName (h ! (ps ! j)),
    Some (gm_put (si_ParentKey (h ! ((store # ps) ! j))) (StoreVal (length h + j)) gm_empty), gm_empty)"
  using assms unfolding cow_outcome_def Let_def by blast

text \<open>The new layers lead from the topmost down to the first.\<close>

lemma outcome_down:
  assumes "cow_outcome h stack store ps D X h3 stack3" "j \<le> length ps"
  shows "read_path h3 (StoreVal (length h + j))
      (rev (map (\<lambda>a. si_ParentKey (h ! a)) (take j (store # ps))) @ ks) = read_path h3 (StoreVal (length h)) ks"
  using assms(2)
proof (induction j)
  case (Suc j)
  then have j: "j < length ps" by simp
  have "Store_Get h3 (si_ParentKey (h ! ((store # ps) ! j))) (length h + Suc j) = Some (Some (StoreVal (length h + j)))"
    using outcome_layer [OF assms(1) j] by (intro Store_Get_own) (simp add: body_def own_data_def)
  moreover have "take (Suc j) (store # ps) = take j (store # ps) @ [(store # ps) ! j]"
    using j by (intro take_Suc_conv_app_nth) simp
  ultimately have "read_path h3 (StoreVal (length h + Suc j))
      (rev (map (\<lambda>a. si_ParentKey (h ! a)) (take (Suc j) (store # ps))) @ ks)
    = read_path h3 (StoreVal (length h + j)) (rev (map (\<lambda>a. si_ParentKey (h ! a)) (take j (store # ps))) @ ks)"
    by (simp only: map_append list.map rev_append rev.simps append_Nil append.simps read_path.simps sval.case option.case)
  then show ?case using Suc.IH j by simp
qed simp

text \<open>The topmost new layer answers for one key only.\<close>

lemma outcome_top:
  assumes "cow_outcome h stack store ps D X h3 stack3"
    and "\<And>k T. speaks \<lparr> si_TypeName = T, si_Data = D, si_Deleted = X, si_Prototype = None, si_Parent = None,
      si_ParentKey = [] \<rparr> k \<longleftrightarrow> k = key"
  shows "speaks (h3 ! (length h + length ps)) k \<longleftrightarrow> k = root_key h key store ps"
proof (cases "length ps")
  case 0
  have "body (h3 ! length h) = body \<lparr> si_TypeName = si_TypeName (h ! store), si_Data = D, si_Deleted = X,
      si_Prototype = None, si_Parent = None, si_ParentKey = [] \<rparr>"
    using assms(1) by (simp add: cow_outcome_def Let_def body_def)
  from speaks_body [OF this] have "speaks (h3 ! length h) k \<longleftrightarrow> k = key" by (simp only: assms(2))
  then show ?thesis using 0 by (simp add: root_key_def)
next
  case (Suc j)
  define pk where "pk = si_ParentKey (h ! ((store # ps) ! j))"
  have "body (h3 ! (length h + Suc j)) = (si_TypeName (h ! (ps ! j)),
      Some (gm_put pk (StoreVal (length h + j)) gm_empty), gm_empty)"
    unfolding pk_def by (rule outcome_layer [OF assms(1)]) (use Suc in simp)
  then have "own_data (h3 ! (length h + Suc j)) = gm_put pk (StoreVal (length h + j)) gm_empty"
    "tombstone (h3 ! (length h + Suc j)) k = False"
    by (simp_all add: body_def own_data_def tombstone_def)
  then have "speaks (h3 ! (length h + Suc j)) k \<longleftrightarrow> k = pk" by (simp add: speaks_def)
  moreover have "root_key h key store ps = pk" using Suc by (auto simp: root_key_def pk_def)
  ultimately show ?thesis by (simp only: Suc)
qed

text \<open>An entry that reaches the root leads to the new layer of the store.\<close>

lemma outcome_path_at:
  assumes o: "cow_outcome h stack store ps D X h3 stack3"
    and top: "speaks (h3 ! (length h + length ps)) (root_key h key store ps)"
    and e: "Store_Get h3 (root_key h key store ps) e
      = Some (layers_get [h3 ! (length h + length ps)] (root_key h key store ps))"
  shows "read_path h3 (StoreVal e) (keys_to h store ps @ [key]) = read_path h3 (StoreVal (length h)) [key]"
proof -
  let ?n = "length h + length ps"
  have "Store_Get h3 (root_key h key store ps) e = Store_Get h3 (root_key h key store ps) ?n"
    using e Store_Get_speaks [OF top] by simp
  moreover have "\<exists>ks. keys_to h store ps @ [key] = root_key h key store ps # ks"
  proof (cases "length ps")
    case (Suc j)
    have "take (Suc j) (store # ps) = take j (store # ps) @ [(store # ps) ! j]"
      by (rule take_Suc_conv_app_nth) (use Suc in simp)
    then have "take (length ps) (store # ps) = take j (store # ps) @ [(store # ps) ! j]" by (simp only: Suc)
    then show ?thesis using Suc by (auto simp: keys_to_def root_key_def)
  qed (simp add: keys_to_def root_key_def)
  ultimately have "read_path h3 (StoreVal e) (keys_to h store ps @ [key])
      = read_path h3 (StoreVal ?n) (keys_to h store ps @ [key])" by fastforce
  then show ?thesis using outcome_down [OF o order_refl] by (simp add: keys_to_def)
qed

lemma outcome_path:
  assumes o: "cow_outcome h stack store ps D X h3 stack3" "heap_linked h" "\<forall>e \<in> set stack. e < length h" "i < length stack"
    and top: "speaks (h3 ! (length h + length ps)) (root_key h key store ps)"
    and r: "reaches h (stack ! i) (last (store # ps)) (root_key h key store ps)"
  shows "read_path h3 (StoreVal (stack3 ! i)) (keys_to h store ps @ [key]) = read_path h3 (StoreVal (length h)) [key]"
  by (rule outcome_path_at [OF o(1) top]) (use outcome_read [OF o] r top in simp)

text \<open>So does every store above the root on the chain of an entry.\<close>

lemma outcome_path_below:
  assumes o: "cow_outcome h stack store ps D X h3 stack3"
    and top: "speaks (h3 ! (length h + length ps)) (root_key h key store ps)"
    and e: "e \<in> set stack" "protos h (Some e) (xs @ a # ys)" "a \<noteq> last (store # ps)"
    and r: "reaches h a (last (store # ps)) (root_key h key store ps)"
  shows "read_path h3 (StoreVal a) (keys_to h store ps @ [key]) = read_path h3 (StoreVal (length h)) [key]"
proof (rule outcome_path_at [OF o top])
  let ?r = "last (store # ps)" and ?n = "length h + length ps"
  have "\<exists>e'. protos h3 (Some e') (insert_before ?r ?n (xs @ a # ys))"
    using o e(1,2) unfolding cow_outcome_def Let_def by blast
  then obtain e' where "protos h3 (Some e') (insert_before ?r ?n xs @ a # insert_before ?r ?n ys)"
    using e(3) by (auto simp: insert_before_def)
  then have ch: "protos h3 (Some a) (insert_before ?r ?n (a # ys))"
    using path_suffix path_bounded e(3) by fastforce
  have as: "protos h (Some a) (a # ys)" using e(2) path_suffix path_bounded by fastforce
  have b: "body (h3 ! x) = body (h ! x)" if "x \<in> set (a # ys)" for x
    using o path_bounded [OF as that] by (simp add: cow_outcome_def Let_def)
  show "Store_Get h3 (root_key h key store ps) a = Some (layers_get [h3 ! ?n] (root_key h key store ps))"
    using Store_Get_chain [OF ch] insert_before_reads [OF as b] r top by simp
qed

section \<open>Divergence\<close>

text \<open>The parent links.\<close>

definition parent_rel :: "'v sheap \<Rightarrow> (saddr \<times> saddr) set" where
  "parent_rel h = {(a, b). a < length h \<and> si_Parent (h ! a) = Some b}"

text \<open>One round of the loop keeps the newest layer ahead of the parent still to copy.\<close>

lemma parent_rel_step:
  assumes "(p, cur) \<in> (parent_rel h)\<^sup>*" "cur < length h" "p < length h"
    and "h2 = (h @ [L])[cur := si\<lparr> si_Parent := Some (length h), si_ParentKey := pk \<rparr>]"
  shows "\<exists>q. si_Parent (h2 ! p) = Some q \<and> q < length h2 \<and> (q, length h) \<in> (parent_rel h2)\<^sup>*"
proof -
  let ?n = "length h"
  have len: "length h2 = Suc ?n" using assms(4) by simp
  have last: "(cur, ?n) \<in> parent_rel h2" using assms(2,4) by (simp add: parent_rel_def)
  have "(p, ?n) \<in> (parent_rel h2)\<^sup>*"
    using assms(1)
  proof (induction rule: converse_rtrancl_induct)
    case base
    then show ?case using last by blast
  next
    case (step x y)
    show ?case
    proof (cases "x = cur")
      case False
      then have "(x, y) \<in> parent_rel h2" using step(1) assms(4) by (simp add: parent_rel_def nth_append)
      then show ?thesis using step(3) by (rule converse_rtrancl_into_rtrancl)
    qed (use last in blast)
  qed
  then obtain q where q: "(p, q) \<in> parent_rel h2" "(q, ?n) \<in> (parent_rel h2)\<^sup>*"
    using assms(3) by (metis converse_rtranclE less_irrefl)
  from q(2) have "q < length h2" using len by (cases rule: converse_rtranclE) (auto simp: parent_rel_def)
  then show ?thesis using q by (auto simp: parent_rel_def)
qed

lemma cow_parents_diverges:
  fixes h :: "'v sheap"
  assumes "cow_parents h cur parent pk = Some y" "parent = Some p" "p < length h" "cur < length h"
    "(p, cur) \<in> (parent_rel h)\<^sup>*"
  shows False
proof -
  let ?P = "\<lambda>h cur parent (_ :: string) (_ :: 'v sheap \<times> saddr).
    \<forall>p. parent = Some p \<longrightarrow> p < length h \<longrightarrow> cur < length h \<longrightarrow> (p, cur) \<notin> (parent_rel (h :: 'v sheap))\<^sup>*"
  have "?P h cur parent pk y"
  proof (rule cow_parents.raw_induct [where P = ?P, OF _ assms(1)], intro allI impI notI)
    fix f and h :: "'v sheap" and cur parent pk and y :: "'v sheap \<times> saddr" and p
    assume IH: "\<And>h cur parent pk y. f h cur parent pk = Some y \<Longrightarrow> ?P h cur parent pk y"
      and eq: "(case parent of None \<Rightarrow> Some (h, cur)
        | Some p \<Rightarrow>
            let newParent = length h;
                h = h @ [\<lparr> si_TypeName = si_TypeName (h ! p), si_Data = Some (gm_put pk (StoreVal cur) gm_empty),
                  si_Deleted = gm_empty, si_Prototype = Some p, si_Parent = si_Parent (h ! p), si_ParentKey = si_ParentKey (h ! p) \<rparr>];
                h = h[cur := (h ! cur)\<lparr> si_Parent := Some newParent, si_ParentKey := pk \<rparr>]
            in f h newParent (si_Parent (h ! p)) (si_ParentKey (h ! p))) = Some y"
      and p: "parent = Some p" "p < length h" "cur < length h" "(p, cur) \<in> (parent_rel h)\<^sup>*"
    define L :: "'v store" where "L = \<lparr> si_TypeName = si_TypeName (h ! p), si_Data = Some (gm_put pk (StoreVal cur) gm_empty),
      si_Deleted = gm_empty, si_Prototype = Some p, si_Parent = si_Parent (h ! p), si_ParentKey = si_ParentKey (h ! p) \<rparr>"
    define h2 where "h2 = (h @ [L])[cur := ((h @ [L]) ! cur)\<lparr> si_Parent := Some (length h), si_ParentKey := pk \<rparr>]"
    obtain q where q: "si_Parent (h2 ! p) = Some q" "q < length h2" "(q, length h) \<in> (parent_rel h2)\<^sup>*"
      using parent_rel_step [OF p(4,3,2) h2_def] by blast
    have "f h2 (length h) (si_Parent (h2 ! p)) (si_ParentKey (h2 ! p)) = Some y"
      using eq p(1) by (simp add: h2_def L_def Let_def)
    moreover have "length h < length h2" by (simp add: h2_def)
    ultimately show False using IH q by blast
  qed
  then show ?thesis using assms(2-) by blast
qed

lemma parents_reach:
  assumes "parents h (Some a) as" "c \<in> set as" "length h \<le> length h1"
    and "\<forall>x < length h. x \<noteq> c \<longrightarrow> si_Parent (h1 ! x) = si_Parent (h ! x)"
  shows "(a, c) \<in> (parent_rel h1)\<^sup>*"
  using assms(1,2)
proof (induction as arbitrary: a)
  case (Cons b as)
  show ?case
  proof (cases "a = c")
    case False
    then have as: "c \<in> set as" "b = a" using Cons.prems by auto
    then obtain d where d: "si_Parent (h ! a) = Some d" "parents h (Some d) as" using Cons.prems by (cases as) auto
    have "(a, d) \<in> parent_rel h1" using d(1) Cons.prems(1) as(2) assms(3,4) False by (simp add: parent_rel_def)
    then show ?thesis using Cons.IH [OF d(2) as(1)] by (rule converse_rtrancl_into_rtrancl)
  qed simp
qed simp

lemma CowSet_diverges:
  assumes "parents h (Some store) (store # ps)" "c \<in> set (store # ps)"
  shows "CowSet h cs store key (StoreVal c) = None"
proof -
  let ?n = "length h"
  let ?h0 = "h @ [cow_layer (h ! store) store (Some (gm_put key (StoreVal c) gm_empty)) gm_empty]"
  let ?h1 = "adopt ?h0 (StoreVal c) ?n key"
  have c: "c < ?n" "store < ?n" using path_bounded assms by fastforce+
  have "(store, c) \<in> (parent_rel ?h1)\<^sup>*"
    by (rule parents_reach [OF assms]) (auto simp: adopt_def nth_append)
  moreover have "(c, ?n) \<in> parent_rel ?h1" using c by (simp add: parent_rel_def adopt_def)
  ultimately have "(store, ?n) \<in> (parent_rel ?h1)\<^sup>*" by (rule rtrancl_into_rtrancl)
  then obtain p where p: "(store, p) \<in> parent_rel ?h1" "(p, ?n) \<in> (parent_rel ?h1)\<^sup>*"
    using c(2) by (metis converse_rtranclE less_irrefl)
  have len: "length ?h1 = Suc ?n" by (simp add: adopt_def)
  have "p < length ?h1" using p(2) len by (cases rule: converse_rtranclE) (auto simp: parent_rel_def)
  moreover have "si_Parent (?h1 ! store) = Some p" using p(1) by (simp add: parent_rel_def)
  ultimately have "cow_parents ?h1 ?n (si_Parent (?h1 ! store)) (si_ParentKey (?h1 ! store)) = None"
    using cow_parents_diverges [OF _ \<open>si_Parent (?h1 ! store) = Some p\<close> \<open>p < length ?h1\<close> _ p(2)] len
    by (metis lessI option.exhaust)
  then show ?thesis by (simp add: CowSet_def Let_def)
qed

end
