(* ===== verification/Context_Props.thy ===== *)
theory Context_Props
  imports Context_Laws
begin

text \<open>
  Properties of copy-on-write stores and of the stack of contexts.
\<close>

text \<open>The heap and stack between two operations: every prototype chain ends and the entries exist.\<close>

definition contexts_ok :: "'v sheap \<Rightarrow> saddr list \<Rightarrow> bool" where
  "contexts_ok h stack \<longleftrightarrow> heap_linked h \<and> (\<forall>e \<in> set stack. e < length h)"

lemma contexts_okD: "contexts_ok h stack \<Longrightarrow> heap_linked h" "contexts_ok h stack \<Longrightarrow> \<forall>e \<in> set stack. e < length h"
  by (simp_all add: contexts_ok_def)


lemma set_speaks:
  "speaks \<lparr> si_TypeName = T, si_Data = Some (gm_put key val gm_empty), si_Deleted = gm_empty, si_Prototype = None,
     si_Parent = None, si_ParentKey = [] \<rparr> k \<longleftrightarrow> k = key"
  by (simp add: speaks_def own_data_def tombstone_def)


lemma outcome_first:
  assumes "cow_outcome h stack store ps D X h3 stack3"
  shows "own_data (h3 ! length h) = (case D of None \<Rightarrow> gm_empty | Some m \<Rightarrow> m)" "si_Deleted (h3 ! length h) = X"
  using assms by (simp_all add: cow_outcome_def Let_def body_def own_data_def)


text \<open>The store that a write reaches from an entry: the frame and the way down to its new layer.\<close>

lemma cow_set_facts:
  assumes "contexts_ok h stack" "parents h (Some store) (store # ps)" "apart h val (store # ps)"
  shows "\<exists>h3 stack3. CowSet h (Some stack) store key val = Some (h3, Some stack3) \<and>
    cow_outcome h stack store ps (Some (gm_put key val gm_empty)) gm_empty h3 stack3 \<and>
    (\<forall>k. speaks (h3 ! (length h + length ps)) k \<longleftrightarrow> k = root_key h key store ps)"
  using CowSet_outcome [OF contexts_okD [OF assms(1)] assms(2,3), of key] outcome_top [OF _ set_speaks] by blast



section \<open>A concrete heap\<close>

text \<open>A base context holding a nested store \<open>sys\<close>, and a context pushed over it.\<close>

definition demo_heap :: "nat sheap" where
  "demo_heap =
    [\<lparr> si_TypeName = ''Ideal/Store'', si_Data = Some [(''sys'', StoreVal 1), (''a'', PlainVal 5)],
       si_Deleted = [], si_Prototype = None, si_Parent = None, si_ParentKey = [] \<rparr>,
     \<lparr> si_TypeName = ''Ideal/Store'', si_Data = Some [(''fs'', PlainVal 0)],
       si_Deleted = [], si_Prototype = None, si_Parent = Some 0, si_ParentKey = ''sys'' \<rparr>,
     \<lparr> si_TypeName = ''Ideal/Store'', si_Data = None, si_Deleted = [(''a'', True)],
       si_Prototype = Some 0, si_Parent = None, si_ParentKey = [] \<rparr>]"

lemma demo_ok: "contexts_ok demo_heap [2]"
proof -
  have "protos demo_heap (Some 0) [0]" "protos demo_heap (Some 1) [1]" "protos demo_heap (Some 2) [2, 0]"
    by (simp_all add: demo_heap_def)
  then have "\<exists>as. protos demo_heap (Some a) as" if "a = 0 \<or> a = 1 \<or> a = 2" for a using that by blast
  moreover have "a = 0 \<or> a = 1 \<or> a = 2" if "a < length demo_heap" for a
    using that by (simp add: demo_heap_def) linarith
  ultimately have "heap_linked demo_heap" unfolding heap_linked_def by blast
  then show ?thesis by (simp add: contexts_ok_def) (simp add: demo_heap_def)
qed

lemma demo_parents: "parents demo_heap (Some 1) [1, 0]"
  by (simp add: demo_heap_def)


section \<open>The properties\<close>

text \<open>C30: UpdateChain returns, and afterwards the prototype chain of every entry is the chain it
  had with the new root inserted right before the original root, wherever that stands on the chain
  (at the entry itself or below it) and however many entries share stores; no chain of the heap
  becomes a cycle.\<close>

theorem update_chain_inserts:
  assumes "contexts_ok h stack" "fresh_root h n r" "n \<notin> set stack"
  shows "\<exists>h' stack'. UpdateChain h (Some stack) (Some r) n = Some (h', Some stack') \<and> contexts_ok h' stack' \<and>
    length stack' = length stack \<and>
    (\<forall>i < length stack. \<forall>as. protos h (Some (stack ! i)) as \<longrightarrow>
      protos h' (Some (stack' ! i)) (insert_before r n as))"
proof -
  have "\<forall>e \<in> set stack. e < length h \<and> e \<noteq> n" using assms(1,3) by (auto simp: contexts_ok_def)
  from UpdateChain_correct [OF contexts_okD(1) [OF assms(1)] assms(2) this] obtain P h' where
    u: "UpdateChain h (Some stack) (Some r) n = Some (h', Some (replaced r n stack))" "relinked h n P h'"
    "heap_linked h'" "\<forall>e \<in> set stack. \<forall>as. protos h (Some e) as \<longrightarrow>
      protos h' (Some (if e = r then n else e)) (insert_before r n as)" by blast
  have "contexts_ok h' (replaced r n stack)"
    using assms(1,2) u(2,3) by (auto simp: contexts_ok_def relinked_def fresh_root_def)
  then show ?thesis using u(1,4) by (intro exI [of _ h'] exI [of _ "replaced r n stack"]) simp
qed

theorem update_chain_inserts_witness:
  "\<exists>h' stack'. UpdateChain (demo_heap @ [cow_layer (demo_heap ! 0) 0 None []]) (Some [2, 0]) (Some 0) 3
    = Some (h', Some stack') \<and> protos h' (Some (stack' ! 0)) [2, 3, 0] \<and> protos h' (Some (stack' ! 1)) [3, 0]"
proof -
  let ?h = "demo_heap @ [cow_layer (demo_heap ! 0) 0 None []]"
  have ch: "protos ?h (Some 0) [0]" "protos ?h (Some 1) [1]" "protos ?h (Some 2) [2, 0]" "protos ?h (Some 3) [3, 0]"
    by (simp_all add: demo_heap_def cow_layer_def)
  have all: "a = 0 \<or> a = 1 \<or> a = 2 \<or> a = 3" if "a < length ?h" for a
    using that by (simp add: demo_heap_def) linarith
  have "heap_linked ?h" unfolding heap_linked_def using ch all by blast
  then have ok: "contexts_ok ?h [2, 0]" by (simp add: contexts_ok_def) (simp add: demo_heap_def)
  have "si_Prototype (?h ! a) \<noteq> Some 3" if "a < length ?h" for a
    using all [OF that] by (auto simp: demo_heap_def cow_layer_def)
  then have "fresh_root ?h 3 0" by (simp add: fresh_root_def) (simp add: demo_heap_def cow_layer_def)
  from update_chain_inserts [OF ok this] obtain h' stack' where
    u: "UpdateChain ?h (Some [2, 0]) (Some 0) 3 = Some (h', Some stack')"
    "\<forall>i < length [2, 0 :: nat]. \<forall>as. protos ?h (Some ([2, 0] ! i)) as \<longrightarrow>
      protos h' (Some (stack' ! i)) (insert_before 0 3 as)" by auto
  have "protos h' (Some (stack' ! 0)) (insert_before 0 3 [2, 0])" "protos h' (Some (stack' ! 1)) (insert_before 0 3 [0])"
    using u(2) [rule_format, of 0 "[2, 0]"] u(2) [rule_format, of 1 "[0]"] ch by simp_all
  then show ?thesis using u(1) by (intro exI [of _ h'] exI [of _ stack']) simp
qed





text \<open>Enumeration and lookup of a store describe one set of keys: the visible entries are in
  strictly increasing order of the keys, so each key occurs once, and hold for every key exactly
  what a lookup of the key answers, through masking, tombstones and revived keys.\<close>

theorem visible_entries_agree:
  assumes "protos h (Some a) as" "\<forall>b \<in> set as. keyed (h ! b)"
  shows "\<exists>es. VisibleEntries h a = Some es \<and> sorted_wrt (<) (map fst es) \<and> (\<forall>k. Store_Get h k a = Some (map_of es k))"
proof -
  have "collected (seen_keys gm_empty) []" by (simp add: collected_def)
  from visible_walk_chain [OF assms this] obtain es where
    es: "visible_walk h (Some a) gm_empty [] = Some es" "distinct (map fst es)"
    "map_of es = (\<lambda>k. if k \<in> seen_keys gm_empty then map_of [] k else layers_get (map ((!) h) as) k)" by blast
  have d: "distinct (map fst (sort_key fst es))" using es(2) by (simp add: distinct_map)
  have "map_of (sort_key fst es) = map_of es"
    using d es(2) by (simp add: map_of_inject_set)
  then have "Store_Get h k a = Some (map_of (sort_key fst es) k)" for k
    using Store_Get_chain [OF assms(1)] es(3) by simp
  moreover have "sorted_wrt (<) (map fst (sort_key fst es))"
    using d by (simp add: strict_sorted_iff)
  ultimately show ?thesis using es(1) by (simp add: VisibleEntries_def)
qed

theorem visible_entries_agree_witness:
  "\<exists>es. VisibleEntries demo_heap 2 = Some es \<and> sorted_wrt (<) (map fst es) \<and> (\<forall>k. Store_Get demo_heap k 2 = Some (map_of es k))"
  by (rule visible_entries_agree [of _ _ "[2, 0]"]) (simp_all add: demo_heap_def keyed_def own_data_def gm_ok_def gm_empty_def)

text \<open>CowSet returns unless the value written is the store itself or one of the stores that hold
  it; then the loop up the parents never ends: adopting the value redirects the parent links into
  the layers the loop is adding.\<close>

theorem cow_set_diverges:
  assumes "contexts_ok h stack" "parents h (Some store) (store # ps)" "\<forall>c. val = StoreVal c \<longrightarrow> c < length h"
  shows "CowSet h (Some stack) store key val = None \<longleftrightarrow> (\<exists>c \<in> set (store # ps). val = StoreVal c)"
proof
  assume none: "CowSet h (Some stack) store key val = None"
  show "\<exists>c \<in> set (store # ps). val = StoreVal c"
  proof (rule ccontr)
    assume "\<not> ?thesis"
    then have "apart h val (store # ps)" using assms(3) by (auto simp: apart_def split: sval.split)
    then show False using CowSet_outcome [OF contexts_okD [OF assms(1)] assms(2), of val key] none by auto
  qed
next
  assume "\<exists>c \<in> set (store # ps). val = StoreVal c"
  then obtain c where c: "c \<in> set (store # ps)" "val = StoreVal c" by blast
  show "CowSet h (Some stack) store key val = None" unfolding c(2) by (rule CowSet_diverges [OF assms(2) c(1)])
qed

theorem cow_set_diverges_witness:
  "CowSet demo_heap (Some [2]) 1 ''self'' (StoreVal 1) = None \<and> CowSet demo_heap (Some [2]) 1 ''self'' (StoreVal 2) \<noteq> None"
  using cow_set_diverges [OF demo_ok demo_parents, of "StoreVal 1" "''self''"]
    cow_set_diverges [OF demo_ok demo_parents, of "StoreVal 2" "''self''"]
  by (simp add: demo_heap_def)

text \<open>CowSet edits stores in place: a store that lies above the root on the chain of an entry
  leads to the written value from then on for whoever holds it.  So a write survives the
  restore of a snapshot of the stack that holds such a store, and a write of a
  concurrent fork, whose only entry is a layer over the top of its parent's stack, is seen by the parent.\<close>

theorem relink_is_shared:
  assumes "contexts_ok h stack" "parents h (Some store) (store # ps)" "apart h val (store # ps)"
    and "e \<in> set stack" "protos h (Some e) (xs @ a # ys)" "a \<noteq> last (store # ps)"
    and "reaches h a (last (store # ps)) (root_key h key store ps)"
  shows "case CowSet h (Some stack) store key val of
      Some (h', cs') \<Rightarrow> read_path h' (StoreVal a) (keys_to h store ps @ [key]) = Some val
    | None \<Rightarrow> False"
proof -
  obtain h3 stack3 where s: "CowSet h (Some stack) store key val = Some (h3, Some stack3)"
    and o: "cow_outcome h stack store ps (Some (gm_put key val gm_empty)) gm_empty h3 stack3"
    and sp: "\<forall>k. speaks (h3 ! (length h + length ps)) k \<longleftrightarrow> k = root_key h key store ps"
    using cow_set_facts [OF assms(1-3)] by blast
  have "gm_get (own_data (h3 ! length h)) key = Some val" using outcome_first [OF o] by simp
  then have "read_path h3 (StoreVal (length h)) [key] = Some val" by (simp add: Store_Get_own [of h3])
  then show ?thesis using outcome_path_below [OF o _ assms(4-7)] sp unfolding s by simp
qed

theorem relink_is_shared_witness:
  "case Fork_Contexts demo_heap (Some [2]) of
      (h, cs) \<Rightarrow> (case CowSet h cs 1 ''mem'' (PlainVal 9) of
          Some (h', cs') \<Rightarrow> read_path h' (StoreVal 2) [''sys'', ''mem''] = Some (PlainVal 9)
        | None \<Rightarrow> False)"
proof -
  let ?L = "\<lparr> si_TypeName = ''Ideal/Store'', si_Data = None, si_Deleted = gm_empty,
             si_Prototype = Some 2, si_Parent = None, si_ParentKey = [] \<rparr> :: nat store"
  let ?h = "demo_heap @ [?L]"
  have f: "Fork_Contexts demo_heap (Some [2]) = (?h, Some [3])"
    by (simp add: Fork_Contexts_def Context_Push_def NewContextStack_def Context_Top_def) (simp add: demo_heap_def)
  have ch: "protos ?h (Some 0) [0]" "protos ?h (Some 1) [1]" "protos ?h (Some 2) [2, 0]" "protos ?h (Some 3) ([3] @ 2 # [0])"
    by (simp_all add: demo_heap_def)
  have all: "a = 0 \<or> a = 1 \<or> a = 2 \<or> a = 3" if "a < length ?h" for a
    using that by (simp add: demo_heap_def) linarith
  have "heap_linked ?h" unfolding heap_linked_def using ch all by blast
  then have ok: "contexts_ok ?h [3]" by (simp add: contexts_ok_def) (simp add: demo_heap_def)
  have ps: "parents ?h (Some 1) [1, 0]" by (simp add: demo_heap_def)
  have k: "keys_to ?h 1 [0] = [''sys'']" "root_key ?h ''mem'' 1 [0] = ''sys''"
    by (simp_all add: keys_to_def root_key_def demo_heap_def)
  have a: "apart ?h (PlainVal 9) [1, 0]" by (simp add: apart_def)
  have r: "reaches ?h 2 (last [1, 0]) (root_key ?h ''mem'' 1 [0])"
    unfolding k reaches_def
    by (rule exI [of _ "[2]"], rule exI [of _ "[]"])
      (simp add: demo_heap_def speaks_def own_data_def tombstone_def gm_get_def gm_empty_def)
  show ?thesis
    unfolding f using relink_is_shared [OF ok ps a _ ch(4) _ r, unfolded k append.simps] by simp
qed

end
