(* ===== verification/Glob.thy ===== *)
theory Glob
  imports Boru_Prelude
begin

text \<open>
  The pattern matcher of the policy package (lang/go/policy/glob.go) and the
  language it decides: a pattern is a sequence of tokens, each with the set of
  strings it stands for, and a string matches when it can be cut into pieces of
  those sets.
\<close>

section \<open>The matcher\<close>

abbreviation slash :: char where "slash \<equiv> CHR ''/''"

text \<open>The three loops over the suffixes of \<open>s\<close>: all of them, those that start with a
  separator, and those before the first separator.\<close>

primrec any_suffix :: "(string \<Rightarrow> bool) \<Rightarrow> string \<Rightarrow> bool" where
  "any_suffix f [] = f []"
| "any_suffix f (c # cs) = (f (c # cs) \<or> any_suffix f cs)"

primrec sep_suffix :: "(string \<Rightarrow> bool) \<Rightarrow> string \<Rightarrow> bool" where
  "sep_suffix f [] = False"
| "sep_suffix f (c # cs) = ((c = slash \<and> f (c # cs)) \<or> sep_suffix f cs)"

primrec star_suffix :: "(string \<Rightarrow> bool) \<Rightarrow> string \<Rightarrow> bool" where
  "star_suffix f [] = f []"
| "star_suffix f (c # cs) = (f (c # cs) \<or> (c \<noteq> slash \<and> star_suffix f cs))"

lemma suffix_congs [fundef_cong]:
  "\<lbrakk>s = t; \<And>x. f x = g x\<rbrakk> \<Longrightarrow> any_suffix f s = any_suffix g t"
  "\<lbrakk>s = t; \<And>x. f x = g x\<rbrakk> \<Longrightarrow> sep_suffix f s = sep_suffix g t"
  "\<lbrakk>s = t; \<And>x. f x = g x\<rbrakk> \<Longrightarrow> star_suffix f s = star_suffix g t"
  by presburger+

function (sequential) globMatch :: "string \<Rightarrow> string \<Rightarrow> bool" where
  "globMatch [] s = (length s = 0)"
| "globMatch (c # pat) s =
    (if c = CHR ''*'' then
       (if pat \<noteq> [] \<and> hd pat = CHR ''*'' then
          (let rest = tl pat in
           if go_has_prefix rest [slash] then
             (if globMatch (tl rest) s then True
              else if sep_suffix (\<lambda>t. globMatch rest t) s then True
              else globMatch rest s)
           else if rest = [] then True
           else any_suffix (\<lambda>t. globMatch rest t) s)
        else if pat = [] then \<not> go_contains_byte slash s
        else star_suffix (\<lambda>t. globMatch pat t) s)
     else if c = CHR ''?'' then
       (if length s = 0 \<or> hd s = slash then False else globMatch pat (tl s))
     else if length s = 0 \<or> hd s \<noteq> c then False
     else globMatch pat (tl s))"
  by pat_completeness auto
termination
  by (relation "measure (\<lambda>(pat, s). length pat)") auto

definition Glob :: "string \<Rightarrow> string \<Rightarrow> bool" where
  "Glob pat s = globMatch pat s"

definition GlobAny :: "string list \<Rightarrow> string \<Rightarrow> bool" where
  "GlobAny pats s = list_ex (\<lambda>p. Glob p s) pats"

section \<open>The language of a pattern\<close>

text \<open>A literal byte, a byte that is no separator, a run without separators, any run, and
  any number of leading path components.\<close>

datatype glob_token = Lit char | OneChar | Star | DoubleStar | Dirs

function (sequential) glob_tokens :: "string \<Rightarrow> glob_token list" where
  "glob_tokens [] = []"
| "glob_tokens (c # p) =
    (if c = CHR ''*'' then
       (if p \<noteq> [] \<and> hd p = CHR ''*'' then
          (if tl p \<noteq> [] \<and> hd (tl p) = slash then Dirs # glob_tokens (tl (tl p))
           else DoubleStar # glob_tokens (tl p))
        else Star # glob_tokens p)
     else (if c = CHR ''?'' then OneChar else Lit c) # glob_tokens p)"
  by pat_completeness auto
termination
  by (relation "measure length") auto

fun token_lang :: "glob_token \<Rightarrow> string set" where
  "token_lang (Lit c) = {[c]}"
| "token_lang OneChar = {[c] | c. c \<noteq> slash}"
| "token_lang Star = {s. slash \<notin> set s}"
| "token_lang DoubleStar = UNIV"
| "token_lang Dirs = {[]} \<union> {s @ [slash] | s. True}"

fun glob_lang :: "glob_token list \<Rightarrow> string set" where
  "glob_lang [] = {[]}"
| "glob_lang (t # ts) = {u @ v | u v. u \<in> token_lang t \<and> v \<in> glob_lang ts}"

section \<open>The matcher decides the language\<close>

lemma any_suffix_iff: "any_suffix f s \<longleftrightarrow> (\<exists>u v. s = u @ v \<and> f v)"
proof (induction s)
  case (Cons c cs)
  have "(\<exists>u v. c # cs = u @ v \<and> f v) \<longleftrightarrow> f (c # cs) \<or> (\<exists>u v. cs = u @ v \<and> f v)"
    by (auto simp: Cons_eq_append_conv)
  with Cons show ?case by simp
qed auto

lemma sep_suffix_iff: "sep_suffix f s \<longleftrightarrow> (\<exists>u v. s = u @ slash # v \<and> f (slash # v))"
proof (induction s)
  case (Cons c cs)
  have "(\<exists>u v. c # cs = u @ slash # v \<and> f (slash # v)) \<longleftrightarrow>
      (c = slash \<and> f (c # cs)) \<or> (\<exists>u v. cs = u @ slash # v \<and> f (slash # v))"
    by (auto simp: Cons_eq_append_conv)
  with Cons show ?case by simp
qed auto

lemma star_suffix_iff: "star_suffix f s \<longleftrightarrow> (\<exists>u v. s = u @ v \<and> slash \<notin> set u \<and> f v)"
proof (induction s)
  case (Cons c cs)
  have "(\<exists>u v. c # cs = u @ v \<and> slash \<notin> set u \<and> f v) \<longleftrightarrow>
      f (c # cs) \<or> (c \<noteq> slash \<and> (\<exists>u v. cs = u @ v \<and> slash \<notin> set u \<and> f v))"
    (is "?l \<longleftrightarrow> ?a \<or> ?b")
  proof
    assume ?l
    then obtain u v where "c # cs = u @ v" "slash \<notin> set u" "f v" by blast
    then show "?a \<or> ?b" by (cases u) auto
  next
    have "?a \<Longrightarrow> ?l" by (rule exI [of _ "[]"]) auto
    moreover have "?b \<Longrightarrow> ?l"
    proof -
      assume ?b
      then obtain u v where "c \<noteq> slash" "cs = u @ v" "slash \<notin> set u" "f v" by blast
      then have "c # cs = (c # u) @ v \<and> slash \<notin> set (c # u) \<and> f v" by simp
      then show ?l by blast
    qed
    ultimately show "?a \<or> ?b \<Longrightarrow> ?l" by blast
  qed
  with Cons show ?case by simp
qed auto

lemma globMatch_slash: "globMatch (slash # p) (slash # s) = globMatch p s"
  by simp

lemma globMatch_slash_iff: "globMatch (slash # p) s \<longleftrightarrow> (\<exists>v. s = slash # v \<and> globMatch p v)"
  by (cases s) auto

lemma glob_lang_Dirs:
  "s \<in> glob_lang (Dirs # ts) \<longleftrightarrow> s \<in> glob_lang ts \<or> (\<exists>u v. s = u @ slash # v \<and> v \<in> glob_lang ts)"
  by auto (metis append.assoc append_Cons append_Nil)+

lemma glob_lang_one:
  "s \<in> glob_lang (OneChar # ts) \<longleftrightarrow> (\<exists>c v. s = c # v \<and> c \<noteq> slash \<and> v \<in> glob_lang ts)"
  by auto (metis append_Cons append_Nil)

lemma globMatch_dirs:
  "globMatch (CHR ''*'' # CHR ''*'' # slash # p) s \<longleftrightarrow>
    globMatch p s \<or> (\<exists>u v. s = u @ slash # v \<and> globMatch p v)"
proof -
  have "globMatch (CHR ''*'' # CHR ''*'' # slash # p) s \<longleftrightarrow>
      globMatch p s \<or> sep_suffix (globMatch (slash # p)) s \<or> globMatch (slash # p) s"
    by (subst globMatch.simps) (simp add: go_has_prefix_def Let_def del: globMatch.simps)
  also have "\<dots> \<longleftrightarrow> globMatch p s \<or> (\<exists>u v. s = u @ slash # v \<and> globMatch p v)"
    unfolding sep_suffix_iff globMatch_slash globMatch_slash_iff by (metis append_Nil)
  finally show ?thesis .
qed

lemma globMatch_double:
  "\<not> go_has_prefix p [slash] \<Longrightarrow>
    globMatch (CHR ''*'' # CHR ''*'' # p) s \<longleftrightarrow> (\<exists>u v. s = u @ v \<and> globMatch p v)"
  by (subst globMatch.simps) (auto simp: Let_def any_suffix_iff simp del: globMatch.simps(2))

lemma globMatch_star:
  "\<not> go_has_prefix p ''*'' \<Longrightarrow>
    globMatch (CHR ''*'' # p) s \<longleftrightarrow> (\<exists>u v. s = u @ v \<and> slash \<notin> set u \<and> globMatch p v)"
  by (subst globMatch.simps)
    (auto simp: Let_def star_suffix_iff go_has_prefix_def go_contains_byte_def neq_Nil_conv
      simp del: globMatch.simps(2))

lemma globMatch_one:
  "globMatch (CHR ''?'' # p) s \<longleftrightarrow> (\<exists>c v. s = c # v \<and> c \<noteq> slash \<and> globMatch p v)"
  by (cases s) auto

lemma globMatch_lit:
  "\<lbrakk>c \<noteq> CHR ''*''; c \<noteq> CHR ''?''\<rbrakk> \<Longrightarrow> globMatch (c # p) s \<longleftrightarrow> (\<exists>v. s = c # v \<and> globMatch p v)"
  by (cases s) auto

lemma globMatch_language: "globMatch p s \<longleftrightarrow> s \<in> glob_lang (glob_tokens p)"
proof (induction p arbitrary: s rule: glob_tokens.induct)
  case (2 c p)
  show ?case
  proof (cases "c = CHR ''*''")
    case star: True
    show ?thesis
    proof (cases "p \<noteq> [] \<and> hd p = CHR ''*''")
      case two: True
      then obtain q where p: "p = CHR ''*'' # q" by (cases p) auto
      show ?thesis
      proof (cases "q \<noteq> [] \<and> hd q = slash")
        case True
        then obtain r where q: "q = slash # r" by (cases q) auto
        have "globMatch r t \<longleftrightarrow> t \<in> glob_lang (glob_tokens r)" for t using 2(1) star p q by simp
        then show ?thesis using star p q globMatch_dirs [of r s] by (simp add: glob_lang_Dirs del: glob_lang.simps globMatch.simps)
      next
        case False
        then have "\<not> go_has_prefix q [slash]" by (cases q) (auto simp: go_has_prefix_def)
        moreover have "globMatch q t \<longleftrightarrow> t \<in> glob_lang (glob_tokens q)" for t
          using 2(2) star p False by auto
        ultimately show ?thesis using star p False by (auto simp: globMatch_double simp del: globMatch.simps)
      qed
    next
      case False
      then have "\<not> go_has_prefix p ''*''" by (cases p) (auto simp: go_has_prefix_def)
      moreover have "globMatch p t \<longleftrightarrow> t \<in> glob_lang (glob_tokens p)" for t
        using 2(3) star False by auto
      ultimately show ?thesis using star False by (auto simp: globMatch_star simp del: globMatch.simps)
    qed
  next
    case False
    have p: "globMatch p t \<longleftrightarrow> t \<in> glob_lang (glob_tokens p)" for t using 2(4) False by auto
    show ?thesis
    proof (cases "c = CHR ''?''")
      case True
      then show ?thesis using p by (simp add: globMatch_one glob_lang_one del: globMatch.simps glob_lang.simps)
    next
      case lit: False
      then show ?thesis using p False by (auto simp: globMatch_lit simp del: globMatch.simps)
    qed
  qed
qed simp

end
