(* ===== verification/Policy_Eval.thy ===== *)
theory Policy_Eval
  imports Glob Floats
begin

text \<open>
  The evaluation of a compiled permission profile (lang/go/policy: profile.go,
  policy.go, error.go, evaluate.go): rules, scopes, the global caps an operation
  touches, and the checks.  A check returns nil (None) or the denial.
\<close>

section \<open>Data\<close>

type_synonym Effect = string

definition EffectAllow :: Effect where "EffectAllow = ''allow''"

definition EffectDeny :: Effect where "EffectDeny = ''deny''"

text \<open>
  The dynamic values of predicates and arguments: Go's nil, string, bool, int,
  int64 and float64 (finite, as a rational); every other dynamic type is told
  apart by a number only.
\<close>

datatype go_any = ANil | AString string | ABool bool | AInt int | AInt64 int | AFloat rat | AOther nat

record Rule =
  Allow :: "string list"
  Deny :: "string list"
  Where :: "(string, go_any list) gomap"

record WordsBlock =
  Default :: Effect
  Rules :: "Rule list"

text \<open>A scope; the pointers of its subscopes may be nil, and so may the map.\<close>

datatype Scope =
  Scope (Install: "bool option") (Words: WordsBlock) (Scopes: "(string \<times> Scope option) list option")

definition zero_WordsBlock :: WordsBlock where
  "zero_WordsBlock = \<lparr> Default = [], Rules = [] \<rparr>"

definition zero_Scope :: Scope where
  "zero_Scope = Scope None zero_WordsBlock None"

record Limits =
  TimeoutMs :: int
  MaxStepBudget :: int
  MaxStackDepth :: int
  MaxMemoryBytes :: int
  MaxOutputBytes :: int
  MaxSubEngineDepth :: int

definition zero_Limits :: Limits where
  "zero_Limits = \<lparr> TimeoutMs = 0, MaxStepBudget = 0, MaxStackDepth = 0, MaxMemoryBytes = 0,
     MaxOutputBytes = 0, MaxSubEngineDepth = 0 \<rparr>"

definition DefaultMaxSubEngineDepth :: int where "DefaultMaxSubEngineDepth = 8"

record Compiled =
  comp_name :: string
  comp_scopes :: "(string, Scope option) gomap"
  comp_limits :: Limits
  hasPerExportRules :: bool

type_synonym Args = "(string, go_any) gomap"

definition CodePermissionDenied :: string where
  "CodePermissionDenied = ''boru/permission_denied''"

definition CodeCapabilityNotInstalled :: string where
  "CodeCapabilityNotInstalled = ''boru/capability_not_installed''"

definition CodePolicyAttenuation :: string where
  "CodePolicyAttenuation = ''boru/policy_attenuation''"

record Denied =
  Code :: string
  den_Scope :: string
  Op :: string
  den_Profile :: string
  Blame :: string
  den_Args :: Args

section \<open>Rules\<close>

definition Rule_Effect :: "Rule \<Rightarrow> Effect" where
  "Rule_Effect r = (if length (Allow r) > 0 then EffectAllow else EffectDeny)"

definition Rule_Names :: "Rule \<Rightarrow> string list" where
  "Rule_Names r = (if length (Allow r) > 0 then Allow r else Deny r)"

definition numEq :: "int \<Rightarrow> go_any \<Rightarrow> bool" where
  "numEq want got =
    (case got of
       AInt g \<Rightarrow> g = want
     | AInt64 g \<Rightarrow> g = want
     | AFloat g \<Rightarrow> float_to_int g = want
     | _ \<Rightarrow> False)"

definition matchOne :: "go_any \<Rightarrow> go_any \<Rightarrow> bool" where
  "matchOne want got =
    (case want of
       AString w \<Rightarrow> (case got of AString gs \<Rightarrow> Glob w gs | _ \<Rightarrow> False)
     | ABool w \<Rightarrow> (case got of ABool gb \<Rightarrow> w = gb | _ \<Rightarrow> False)
     | AInt w \<Rightarrow> numEq w got
     | AInt64 w \<Rightarrow> numEq w got
     | AFloat w \<Rightarrow> numEq (float_to_int w) got
     | _ \<Rightarrow> False)"

definition whereKeyMatches :: "go_any list \<Rightarrow> go_any \<Rightarrow> bool" where
  "whereKeyMatches values actual =
    (if actual = ANil then True else list_ex (\<lambda>v. matchOne v actual) values)"

definition arg_of :: "Args \<Rightarrow> string \<Rightarrow> go_any" where
  "arg_of args key = (case gm_get args key of None \<Rightarrow> ANil | Some v \<Rightarrow> v)"

definition whereMatches :: "(string, go_any list) gomap \<Rightarrow> Args \<Rightarrow> bool" where
  "whereMatches wh args =
    (if length wh = 0 then True
     else list_all (\<lambda>(key, values). whereKeyMatches values (arg_of args key)) wh)"

definition rule_applies :: "Rule \<Rightarrow> string \<Rightarrow> Args \<Rightarrow> bool" where
  "rule_applies rule op args =
    (if \<not> GlobAny (Rule_Names rule) op then False
     else if \<not> whereMatches (Where rule) args then False
     else True)"

text \<open>The last-match-wins loop over the rules with their indexes.\<close>

definition evalWords :: "WordsBlock \<Rightarrow> string \<Rightarrow> Args \<Rightarrow> Effect \<times> int" where
  "evalWords w op args =
    (let decision = (if Default w = [] then EffectAllow else Default w)
     in fold (\<lambda>(i, rule) (decision, matchedIdx).
          if rule_applies rule op args then (Rule_Effect rule, int i) else (decision, matchedIdx))
        (enumerate 0 (Rules w)) (decision, -1))"

section \<open>Scopes and caps\<close>

definition Scope_Installed :: "Scope option \<Rightarrow> bool" where
  "Scope_Installed s =
    (case s of None \<Rightarrow> True
     | Some s \<Rightarrow> (case Install s of None \<Rightarrow> True | Some b \<Rightarrow> b))"

definition GlobalOps :: "string list" where
  "GlobalOps = [''disk.read'', ''disk.write'', ''network'', ''process'', ''env'', ''clock'',
     ''system-info'', ''mutate'']"

definition IsGlobalOp :: "string \<Rightarrow> bool" where
  "IsGlobalOp name = list_ex (\<lambda>g. g = name) GlobalOps"

definition KnownScopes :: "string list" where
  "KnownScopes = [''global'', ''engine'', ''modules'', ''fileops'', ''network'', ''sqlite'',
     ''formats'', ''env'', ''process'', ''clock'', ''log'', ''terminal'', ''vault'']"

definition GlobalsFor :: "string \<Rightarrow> string \<Rightarrow> string list" where
  "GlobalsFor scope op =
    (if scope = ''fileops'' then
       (if op = ''read'' then [''disk.read'']
        else if op = ''write'' \<or> op = ''mkdir'' then [''disk.write'']
        else [])
     else if scope = ''sqlite'' then
       (if op = ''open-ro'' \<or> op = ''query'' then [''disk.read'']
        else if op = ''open-rw'' then [''disk.read'', ''disk.write'']
        else if op = ''exec'' then [''disk.write'']
        else [])
     else if scope = ''network'' then [''network'']
     else if scope = ''process'' then [''process'']
     else if scope = ''env'' then [''env'']
     else if scope = ''clock'' then [''clock'']
     else if scope = ''vault'' then
       (if op = ''read'' \<or> op = ''reveal'' then [''disk.read'']
        else if op = ''mutate'' \<or> op = ''admin'' then [''disk.write'']
        else if op = ''clipboard'' then [''process'']
        else [])
     else [])"

section \<open>Checks\<close>

fun itoa_digits :: "nat \<Rightarrow> string \<Rightarrow> string" where
  "itoa_digits n b = (if n > 0 then itoa_digits (n div 10) (char_of (48 + n mod 10) # b) else b)"

declare itoa_digits.simps [simp del]

definition policy_itoa :: "int \<Rightarrow> string" where
  "policy_itoa n = (if n < 0 then ''?'' else if n = 0 then ''0'' else itoa_digits (nat n) [])"

definition blameForRule :: "string \<Rightarrow> int \<Rightarrow> string" where
  "blameForRule scope idx = scope @ ''.words rule #'' @ policy_itoa idx"

definition Compiled_Limits :: "Compiled \<Rightarrow> Limits" where
  "Compiled_Limits c =
    (let l = comp_limits c
     in if MaxSubEngineDepth l = 0 then l\<lparr>MaxSubEngineDepth := DefaultMaxSubEngineDepth\<rparr> else l)"

definition Compiled_Installed :: "Compiled \<Rightarrow> string \<Rightarrow> bool" where
  "Compiled_Installed c scope =
    (case gm_get (comp_scopes c) scope of None \<Rightarrow> True | Some s \<Rightarrow> Scope_Installed s)"

text \<open>\<open>c.scope(name)\<close>: nil when absent or when a nil pointer is stored.\<close>

definition scope_of :: "Compiled \<Rightarrow> string \<Rightarrow> Scope option" where
  "scope_of c name = (case gm_get (comp_scopes c) name of None \<Rightarrow> None | Some s \<Rightarrow> s)"

definition Compiled_Scope :: "Compiled \<Rightarrow> string \<Rightarrow> Scope" where
  "Compiled_Scope c name = (case scope_of c name of None \<Rightarrow> zero_Scope | Some s \<Rightarrow> s)"

definition Compiled_CheckGlobal :: "Compiled \<Rightarrow> string \<Rightarrow> Denied option" where
  "Compiled_CheckGlobal c name =
    (case scope_of c ''global'' of None \<Rightarrow> None
     | Some scope \<Rightarrow>
         (case evalWords (Words scope) name gm_empty of (decision, ruleIdx) \<Rightarrow>
            if decision \<noteq> EffectAllow then
              Some \<lparr> Code = CodePermissionDenied, den_Scope = ''global'', Op = name,
                den_Profile = comp_name c,
                Blame = ''global.'' @ name @
                  (if ruleIdx \<ge> 0 then '' (rule #'' @ policy_itoa ruleIdx @ '')'' else '' (default=deny)''),
                den_Args = gm_empty \<rparr>
            else None))"

definition string_arg :: "Args \<Rightarrow> string \<Rightarrow> string" where
  "string_arg args key = (case arg_of args key of AString s \<Rightarrow> s | _ \<Rightarrow> [])"

text \<open>Indexing the possibly nil map of subscopes: nil when absent.\<close>

definition subscope_of :: "Scope \<Rightarrow> string \<Rightarrow> Scope option" where
  "subscope_of s name =
    (case Scopes s of None \<Rightarrow> None
     | Some m \<Rightarrow> (case gm_get m name of None \<Rightarrow> None | Some sub \<Rightarrow> sub))"

definition checkModuleCall :: "Compiled \<Rightarrow> Scope option \<Rightarrow> Args \<Rightarrow> Denied option" where
  "checkModuleCall c scope args =
    (case scope of None \<Rightarrow> None
     | Some scope \<Rightarrow>
         let modName = string_arg args ''module''; exportName = string_arg args ''export'' in
         (case subscope_of scope modName of None \<Rightarrow> None
          | Some sub \<Rightarrow>
              if \<not> Scope_Installed (Some sub) then
                Some \<lparr> Code = CodeCapabilityNotInstalled, den_Scope = ''modules'', Op = ''call'',
                  den_Profile = comp_name c,
                  Blame = ''modules.scopes.'' @ modName @ ''.install=false'', den_Args = args \<rparr>
              else (case evalWords (Words sub) exportName args of (decision, ruleIdx) \<Rightarrow>
                if decision \<noteq> EffectAllow then
                  Some \<lparr> Code = CodePermissionDenied, den_Scope = ''modules'', Op = ''call'',
                    den_Profile = comp_name c,
                    Blame = (if ruleIdx \<ge> 0
                      then ''modules.scopes.'' @ modName @ ''.words rule #'' @ policy_itoa ruleIdx
                      else ''modules.scopes.'' @ modName @ ''.words default=deny''),
                    den_Args = args \<rparr>
                else None)))"

text \<open>The loop over the caps: the first denial, with the site's scope, operation and arguments.\<close>

fun check_caps :: "Compiled \<Rightarrow> string \<Rightarrow> string \<Rightarrow> Args \<Rightarrow> string list \<Rightarrow> Denied option" where
  "check_caps c scopeName op args [] = None"
| "check_caps c scopeName op args (g # gs) =
    (case Compiled_CheckGlobal c g of
       Some d \<Rightarrow> Some (d\<lparr> den_Scope := scopeName, Op := op, den_Args := args \<rparr>)
     | None \<Rightarrow> check_caps c scopeName op args gs)"

definition Compiled_Check :: "Compiled \<Rightarrow> string \<Rightarrow> string \<Rightarrow> Args \<Rightarrow> Denied option" where
  "Compiled_Check c scopeName op args =
    (let scope = scope_of c scopeName in
     if \<not> nilp scope \<and> \<not> Scope_Installed scope then
       Some \<lparr> Code = CodeCapabilityNotInstalled, den_Scope = scopeName, Op = op,
         den_Profile = comp_name c, Blame = scopeName @ ''.install=false'', den_Args = args \<rparr>
     else if scopeName = ''modules'' \<and> op = ''call'' then checkModuleCall c scope args
     else (case check_caps c scopeName op args (GlobalsFor scopeName op) of
         Some d \<Rightarrow> Some d
       | None \<Rightarrow>
           (case scope of None \<Rightarrow> None
            | Some scope \<Rightarrow>
                (case evalWords (Words scope) op args of (decision, ruleIdx) \<Rightarrow>
                   if decision \<noteq> EffectAllow then
                     Some \<lparr> Code = CodePermissionDenied, den_Scope = scopeName, Op = op,
                       den_Profile = comp_name c,
                       Blame = (if ruleIdx \<ge> 0 then blameForRule scopeName ruleIdx
                                else scopeName @ ''.words default=deny''),
                       den_Args = args \<rparr>
                   else None))))"

definition Compiled_CheckWord :: "Compiled \<Rightarrow> string \<Rightarrow> Denied option" where
  "Compiled_CheckWord c name = Compiled_Check c ''engine'' name gm_empty"

definition Compiled_CheckModuleCall :: "Compiled \<Rightarrow> string \<Rightarrow> string \<Rightarrow> Denied option" where
  "Compiled_CheckModuleCall c modname export =
    (if \<not> hasPerExportRules c then None
     else Compiled_Check c ''modules'' ''call''
       [(''module'', AString modname), (''export'', AString export)])"

end
