(* ===== verification/Policy_Compile.thy ===== *)
theory Policy_Compile
  imports Policy_Eval
begin

text \<open>
  From a raw profile to an evaluable one (lang/go/policy: profile.go,
  resolve.go): validation, the chain of parents, the merge of a child over its
  parent, and the bit that lets module calls skip the walk.  Loops over a map
  take its list order, which stands for one iteration order of the runtime.
\<close>

section \<open>Data\<close>

record Profile =
  Version :: int
  prof_Name :: string
  Extends :: string
  prof_Limits :: Limits
  prof_Scopes :: "(string, Scope option) gomap option"

definition zero_Profile :: Profile where
  "zero_Profile = \<lparr> Version = 0, prof_Name = [], Extends = [], prof_Limits = zero_Limits,
     prof_Scopes = None \<rparr>"

datatype policy_error =
    UnknownScope string
  | NoInstall string bool
  | NoSubscopes string
  | BadDefault string string
  | BothAllowAndDeny string nat
  | NeitherAllowNorDeny string nat
  | UnknownGlobalOp nat string
  | ExtendsCycle string
  | ExtendsError string string

text \<open>The entries of a possibly nil map.\<close>

definition entries_of :: "('k, 'v) gomap option \<Rightarrow> ('k \<times> 'v) list" where
  "entries_of m = (case m of None \<Rightarrow> [] | Some m \<Rightarrow> m)"

section \<open>Validation\<close>

definition isKnownScope :: "string \<Rightarrow> bool" where
  "isKnownScope name = list_ex (\<lambda>k. k = name) KnownScopes"

definition canInstall :: "string \<Rightarrow> bool" where
  "canInstall scope = (if scope = ''global'' \<or> scope = ''engine'' then False else True)"

fun validate_rules :: "string \<Rightarrow> nat \<Rightarrow> Rule list \<Rightarrow> policy_error option" where
  "validate_rules scopeName ri [] = None"
| "validate_rules scopeName ri (rule # rules) =
    (if length (Allow rule) > 0 \<and> length (Deny rule) > 0 then Some (BothAllowAndDeny scopeName ri)
     else if length (Allow rule) = 0 \<and> length (Deny rule) = 0 then Some (NeitherAllowNorDeny scopeName ri)
     else validate_rules scopeName (ri + 1) rules)"

definition validateWordsBlock :: "string \<Rightarrow> WordsBlock \<Rightarrow> policy_error option" where
  "validateWordsBlock scopeName w =
    (if Default w = [] \<or> Default w = EffectAllow \<or> Default w = EffectDeny
     then validate_rules scopeName 0 (Rules w)
     else Some (BadDefault scopeName (Default w)))"

text \<open>The subscopes of a scope: a nil one is dereferenced.\<close>

fun validate_subs :: "string \<Rightarrow> (string \<times> Scope option) list \<Rightarrow> policy_error option go" where
  "validate_subs name [] = go_ok None"
| "validate_subs name ((subName, sub) # subs) =
    (if name = ''modules'' then
       (case sub of
          None \<Rightarrow> go_panics NilDereference
        | Some s \<Rightarrow>
            (case validateWordsBlock (name @ ''.'' @ subName) (Words s) of
               Some e \<Rightarrow> go_ok (Some e)
             | None \<Rightarrow> validate_subs name subs))
     else go_ok (Some (NoSubscopes name)))"

definition validate_scope :: "string \<Rightarrow> Scope option \<Rightarrow> policy_error option go" where
  "validate_scope name scope =
    (if \<not> isKnownScope name then go_ok (Some (UnknownScope name))
     else case scope of
       None \<Rightarrow> go_ok None
     | Some s \<Rightarrow>
         (case (Install s, canInstall name) of
            (Some b, False) \<Rightarrow> go_ok (Some (NoInstall name b))
          | _ \<Rightarrow>
              (case validateWordsBlock name (Words s) of
                 Some e \<Rightarrow> go_ok (Some e)
               | None \<Rightarrow> validate_subs name (entries_of (Scopes s)))))"

fun validate_scopes :: "(string \<times> Scope option) list \<Rightarrow> policy_error option go" where
  "validate_scopes [] = go_ok None"
| "validate_scopes ((name, scope) # scopes) =
    (case validate_scope name scope of
       Inr None \<Rightarrow> validate_scopes scopes
     | r \<Rightarrow> r)"

fun validate_names :: "nat \<Rightarrow> string list \<Rightarrow> policy_error option" where
  "validate_names ri [] = None"
| "validate_names ri (n # ns) =
    (if \<not> IsGlobalOp n then Some (UnknownGlobalOp ri n) else validate_names ri ns)"

fun validate_global :: "nat \<Rightarrow> Rule list \<Rightarrow> policy_error option" where
  "validate_global ri [] = None"
| "validate_global ri (rule # rules) =
    (case validate_names ri (Rule_Names rule) of
       Some e \<Rightarrow> Some e
     | None \<Rightarrow> validate_global (ri + 1) rules)"

definition Validate :: "Profile option \<Rightarrow> policy_error option go" where
  "Validate p =
    (case p of None \<Rightarrow> go_ok None
     | Some p \<Rightarrow>
         (case validate_scopes (entries_of (prof_Scopes p)) of
            Inr None \<Rightarrow>
              (case gm_get (entries_of (prof_Scopes p)) ''global'' of
                 Some (Some g) \<Rightarrow> go_ok (validate_global 0 (Rules (Words g)))
               | _ \<Rightarrow> go_ok None)
          | r \<Rightarrow> r))"

section \<open>Merging\<close>

function cloneScope :: "Scope option \<Rightarrow> Scope option" where
  "cloneScope s =
    (case s of None \<Rightarrow> None
     | Some s \<Rightarrow>
         Some (Scope (Install s) (Words s)
           (map_option (\<lambda>m. fold (\<lambda>x out. gm_put (fst x) (cloneScope (snd x)) out) m gm_empty)
             (Scopes s))))"
  by auto

lemma subscope_size:
  assumes "(n, sub) \<in> set m" "Scopes s = Some m"
  shows "size_option size sub < Suc (size s)"
proof -
  have "size_option size sub < size_list (size_prod (\<lambda>_. 0) (size_option size)) m"
    by (rule size_list_estimation [OF assms(1)]) (simp add: size_prod_simp)
  with assms(2) show ?thesis by (cases s) auto
qed

lemmas subscope_size' = subscope_size [OF _ sym]

termination cloneScope
proof (relation "measure (size_option size)")
qed (auto intro: subscope_size)

declare cloneScope.simps [simp del]

definition mergeLimits :: "Limits \<Rightarrow> Limits \<Rightarrow> Limits" where
  "mergeLimits parent child =
    (let out = parent;
         out = (if TimeoutMs child \<noteq> 0 then out\<lparr>TimeoutMs := TimeoutMs child\<rparr> else out);
         out = (if MaxStepBudget child \<noteq> 0 then out\<lparr>MaxStepBudget := MaxStepBudget child\<rparr> else out);
         out = (if MaxStackDepth child \<noteq> 0 then out\<lparr>MaxStackDepth := MaxStackDepth child\<rparr> else out);
         out = (if MaxMemoryBytes child \<noteq> 0 then out\<lparr>MaxMemoryBytes := MaxMemoryBytes child\<rparr> else out);
         out = (if MaxOutputBytes child \<noteq> 0 then out\<lparr>MaxOutputBytes := MaxOutputBytes child\<rparr> else out);
         out = (if MaxSubEngineDepth child \<noteq> 0 then out\<lparr>MaxSubEngineDepth := MaxSubEngineDepth child\<rparr> else out)
     in out)"

definition merge_words :: "WordsBlock \<Rightarrow> WordsBlock \<Rightarrow> WordsBlock" where
  "merge_words parent child =
    \<lparr> Default = (if Default child \<noteq> [] then Default child else Default parent),
      Rules = Rules parent @ Rules child \<rparr>"

function mergeScope :: "Scope option \<Rightarrow> Scope option \<Rightarrow> Scope option" where
  "mergeScope parent child =
    (case parent of None \<Rightarrow> cloneScope child
     | Some p \<Rightarrow>
        (case child of None \<Rightarrow> cloneScope parent
         | Some c \<Rightarrow>
           Some (Scope (if Install c \<noteq> None then Install c else Install p)
             (merge_words (Words p) (Words c))
             (if nilp (Scopes p) \<and> nilp (Scopes c) then None
              else Some (fold (\<lambda>x out. gm_put (fst x)
                  (case gm_get out (fst x) of
                     Some existing \<Rightarrow> mergeScope existing (snd x)
                   | None \<Rightarrow> cloneScope (snd x)) out)
                (case Scopes c of None \<Rightarrow> [] | Some m \<Rightarrow> m)
                (fold (\<lambda>x out. gm_put (fst x) (cloneScope (snd x)) out)
                  (entries_of (Scopes p)) gm_empty))))))"
  by auto
termination
proof (relation "measure (\<lambda>(p, c). size_option size c)")
qed (auto intro: subscope_size subscope_size' split: option.splits)

declare mergeScope.simps [simp del]

definition mergeProfile :: "Profile \<Rightarrow> Profile \<Rightarrow> Profile" where
  "mergeProfile parent child =
    \<lparr> Version = (if Version child = 0 then Version parent else Version child),
      prof_Name = (if prof_Name child = [] then prof_Name parent else prof_Name child),
      Extends = [], prof_Limits = mergeLimits (prof_Limits parent) (prof_Limits child),
      prof_Scopes = Some
        (fold (\<lambda>x out. gm_put (fst x)
             (case gm_get out (fst x) of
                Some existing \<Rightarrow> mergeScope existing (snd x)
              | None \<Rightarrow> cloneScope (snd x)) out)
           (entries_of (prof_Scopes child))
           (fold (\<lambda>x out. gm_put (fst x) (cloneScope (snd x)) out)
              (entries_of (prof_Scopes parent)) gm_empty)) \<rparr>"

section \<open>The chain of parents\<close>

text \<open>
  A resolver is nil or a function from a name to an error or a possibly nil
  profile.  The recursion is cut off after \<open>fuel\<close> parents (None).
\<close>

type_synonym resolver = "(string \<Rightarrow> string + Profile option) option"

fun resolveChain ::
  "nat \<Rightarrow> Profile option \<Rightarrow> resolver \<Rightarrow> (string, bool) gomap \<Rightarrow> (policy_error + Profile) option" where
  "resolveChain fuel p resolver visited =
    (case p of
       None \<Rightarrow> Some (Inr zero_Profile)
     | Some p \<Rightarrow>
        (case resolver of
           None \<Rightarrow> Some (Inr p)
         | Some f \<Rightarrow>
           if Extends p = [] then Some (Inr p)
           else if gm_get visited (Extends p) = Some True then Some (Inl (ExtendsCycle (Extends p)))
           else (case f (Extends p) of
               Inl err \<Rightarrow> Some (Inl (ExtendsError (Extends p) err))
             | Inr parent \<Rightarrow>
                (case fuel of
                   0 \<Rightarrow> None
                 | Suc n \<Rightarrow>
                    (case resolveChain n parent resolver (gm_put (Extends p) True visited) of
                       None \<Rightarrow> None
                     | Some (Inl err) \<Rightarrow> Some (Inl err)
                     | Some (Inr parentResolved) \<Rightarrow> Some (Inr (mergeProfile parentResolved p)))))))"

declare resolveChain.simps [simp del]

definition moduleCallCouldDeny :: "Scope option \<Rightarrow> bool" where
  "moduleCallCouldDeny s =
    (case s of None \<Rightarrow> False
     | Some s \<Rightarrow>
         if \<not> Scope_Installed (Some s) then True
         else list_ex (\<lambda>(n, sub).
             case sub of None \<Rightarrow> False
             | Some sub \<Rightarrow> \<not> Scope_Installed (Some sub) \<or> length (Rules (Words sub)) > 0 \<or>
                 (Default (Words sub) \<noteq> [] \<and> Default (Words sub) \<noteq> EffectAllow))
           (entries_of (Scopes s)))"

text \<open>Profile.Compile: an error, a panic of the validation, or the compiled profile.\<close>

definition Compile :: "nat \<Rightarrow> Profile option \<Rightarrow> resolver \<Rightarrow> (policy_error + Compiled) go option" where
  "Compile fuel p resolver =
    (case resolveChain fuel p resolver gm_empty of
       None \<Rightarrow> None
     | Some (Inl err) \<Rightarrow> Some (go_ok (Inl err))
     | Some (Inr merged) \<Rightarrow>
         Some (case Validate (Some merged) of
             Inl panic \<Rightarrow> go_panics panic
           | Inr (Some err) \<Rightarrow> go_ok (Inl err)
           | Inr None \<Rightarrow>
               let scopes = entries_of (prof_Scopes merged)
               in go_ok (Inr \<lparr> comp_name = prof_Name merged, comp_scopes = scopes,
                    comp_limits = prof_Limits merged,
                    hasPerExportRules = moduleCallCouldDeny
                      (case gm_get scopes ''modules'' of None \<Rightarrow> None | Some s \<Rightarrow> s) \<rparr>)))"

end
