(* ===== verification/Policy_Compose.thy ===== *)
theory Policy_Compose
  imports Policy_Compile
begin

text \<open>
  The two implementations of the interface Policy (lang/go/policy: compose.go,
  subset.go): a compiled profile, and the conjunction of a parent and a child;
  and the older subset test.
\<close>

section \<open>Policies\<close>

datatype Policy = PCompiled Compiled | PComposed (policy_parent: Policy) (policy_child: Policy)

definition Compose :: "Policy option \<Rightarrow> Policy option \<Rightarrow> Policy option" where
  "Compose parent child =
    (case parent of None \<Rightarrow> child
     | Some p \<Rightarrow> (case child of None \<Rightarrow> parent | Some c \<Rightarrow> Some (PComposed p c)))"

text \<open>Both layers in turn: the parent's denial, else the child's.\<close>

definition both :: "Denied option \<Rightarrow> Denied option \<Rightarrow> Denied option" where
  "both p c = (case p of Some err \<Rightarrow> Some err | None \<Rightarrow> c)"

fun Check :: "Policy \<Rightarrow> string \<Rightarrow> string \<Rightarrow> Args \<Rightarrow> Denied option" where
  "Check (PCompiled c) scope op args = Compiled_Check c scope op args"
| "Check (PComposed p c) scope op args = both (Check p scope op args) (Check c scope op args)"

fun CheckGlobal :: "Policy \<Rightarrow> string \<Rightarrow> Denied option" where
  "CheckGlobal (PCompiled c) name = Compiled_CheckGlobal c name"
| "CheckGlobal (PComposed p c) name = both (CheckGlobal p name) (CheckGlobal c name)"

fun CheckWord :: "Policy \<Rightarrow> string \<Rightarrow> Denied option" where
  "CheckWord (PCompiled c) name = Compiled_CheckWord c name"
| "CheckWord (PComposed p c) name = both (CheckWord p name) (CheckWord c name)"

fun CheckModuleCall :: "Policy \<Rightarrow> string \<Rightarrow> string \<Rightarrow> Denied option" where
  "CheckModuleCall (PCompiled c) m e = Compiled_CheckModuleCall c m e"
| "CheckModuleCall (PComposed p c) m e = both (CheckModuleCall p m e) (CheckModuleCall c m e)"

fun Installed :: "Policy \<Rightarrow> string \<Rightarrow> bool" where
  "Installed (PCompiled c) scope = Compiled_Installed c scope"
| "Installed (PComposed p c) scope = (Installed p scope \<and> Installed c scope)"

fun set_install :: "bool \<Rightarrow> Scope \<Rightarrow> Scope" where
  "set_install b (Scope i w s) = Scope (Some b) w s"

fun policy_Scope :: "Policy \<Rightarrow> string \<Rightarrow> Scope" where
  "policy_Scope (PCompiled c) name = Compiled_Scope c name"
| "policy_Scope (PComposed p c) name =
    (let cs = policy_Scope c name in if \<not> Installed p name then set_install False cs else cs)"

definition minNonZero :: "int \<Rightarrow> int \<Rightarrow> int" where
  "minNonZero a b = (if a = 0 then b else if b = 0 then a else if a < b then a else b)"

fun policy_Limits :: "Policy \<Rightarrow> Limits" where
  "policy_Limits (PCompiled c) = Compiled_Limits c"
| "policy_Limits (PComposed parent child) =
    (let p = policy_Limits parent; ch = policy_Limits child
     in \<lparr> TimeoutMs = minNonZero (TimeoutMs p) (TimeoutMs ch),
          MaxStepBudget = minNonZero (MaxStepBudget p) (MaxStepBudget ch),
          MaxStackDepth = minNonZero (MaxStackDepth p) (MaxStackDepth ch),
          MaxMemoryBytes = minNonZero (MaxMemoryBytes p) (MaxMemoryBytes ch),
          MaxOutputBytes = minNonZero (MaxOutputBytes p) (MaxOutputBytes ch),
          MaxSubEngineDepth = minNonZero (MaxSubEngineDepth p) (MaxSubEngineDepth ch) \<rparr>)"

fun policy_Name :: "Policy \<Rightarrow> string" where
  "policy_Name (PCompiled c) = comp_name c"
| "policy_Name (PComposed p c) = policy_Name c @ '' in '' @ policy_Name p"

section \<open>The subset test\<close>

datatype subset_error = ParentNotCompiled | ChildNotCompiled | Attenuation Denied

definition attenuation :: "Compiled \<Rightarrow> string \<Rightarrow> subset_error" where
  "attenuation c blame =
    Attenuation \<lparr> Code = CodePolicyAttenuation, den_Scope = [], Op = [], den_Profile = comp_name c,
      Blame = blame, den_Args = gm_empty \<rparr>"

fun subset_globals :: "Compiled \<Rightarrow> Compiled \<Rightarrow> string list \<Rightarrow> subset_error option" where
  "subset_globals p c [] = None"
| "subset_globals p c (g # gs) =
    (if Compiled_CheckGlobal p g \<noteq> None \<and> nilp (Compiled_CheckGlobal c g)
     then Some (attenuation c (''child grants global.'' @ g @ '' but parent denies it''))
     else subset_globals p c gs)"

fun subset_installs :: "Compiled \<Rightarrow> Compiled \<Rightarrow> string list \<Rightarrow> subset_error option" where
  "subset_installs p c [] = None"
| "subset_installs p c (s # ss) =
    (if \<not> Compiled_Installed p s \<and> Compiled_Installed c s
     then Some (attenuation c (''child installs scope '' @ s @ '' but parent has install=false''))
     else subset_installs p c ss)"

fun subset_defaults :: "Compiled \<Rightarrow> Compiled \<Rightarrow> string list \<Rightarrow> subset_error option" where
  "subset_defaults p c [] = None"
| "subset_defaults p c (s # ss) =
    (let broader = Some (attenuation c (''child default-allows scope '' @ s @ '' but parent default-denies'')) in
     case scope_of p s of None \<Rightarrow> subset_defaults p c ss
     | Some pScope \<Rightarrow>
         let pDefault = (if Default (Words pScope) = [] then EffectAllow else Default (Words pScope)) in
         if pDefault = EffectDeny then
           (case scope_of c s of None \<Rightarrow> broader
            | Some cScope \<Rightarrow>
                if \<not> Scope_Installed (Some cScope) then subset_defaults p c ss
                else let cDefault = (if Default (Words cScope) = [] then EffectAllow else Default (Words cScope))
                  in if cDefault = EffectAllow then broader else subset_defaults p c ss)
         else subset_defaults p c ss)"

text \<open>The set of known scopes is iterated in list order.\<close>

definition RequireSubset :: "Policy \<Rightarrow> Policy option \<Rightarrow> subset_error option" where
  "RequireSubset child parent =
    (case parent of None \<Rightarrow> None
     | Some (PCompiled p) \<Rightarrow>
         (case child of PCompiled c \<Rightarrow>
            (case subset_globals p c GlobalOps of Some e \<Rightarrow> Some e
             | None \<Rightarrow>
                 (case subset_installs p c KnownScopes of Some e \<Rightarrow> Some e
                  | None \<Rightarrow> subset_defaults p c KnownScopes))
          | _ \<Rightarrow> Some ChildNotCompiled)
     | _ \<Rightarrow> Some ParentNotCompiled)"

end
