(* ===== verification/File_Calls.thy ===== *)
theory File_Calls
  imports Boru_Prelude
begin

text \<open>
  The interface FileOps of lang/go/capabilities/capabilities.go: the calls with
  their arguments, the errors, and the data the results carry.
\<close>

section \<open>Calls\<close>

type_synonym FileMode = "32 word"

text \<open>A time.Time as the nanoseconds since the zero time.\<close>

type_synonym gotime = int

record WatchOpts =
  wo_Recursive :: bool

record OpenOpts =
  oo_Read :: bool
  oo_Write :: bool
  oo_Append :: bool
  oo_Create :: bool
  oo_Exclusive :: bool
  oo_Truncate :: bool
  oo_Perm :: FileMode

text \<open>The methods of FileOps with their arguments.\<close>

datatype file_call =
    ReadFile string
  | WriteFile string "8 word list" FileMode
  | MkdirAll string FileMode
  | Stat string bool
  | ReadDir string
  | Remove_file string bool
  | Rename string string
  | Symlink string string
  | Link string string
  | Chmod string FileMode
  | Chtimes string gotime gotime
  | Truncate_file string int
  | Chown string int int bool
  | XattrGet string string
  | XattrSet string string "8 word list"
  | XattrList string
  | XattrRemove string string
  | TempFile string string
  | TempDir string string
  | Statfs string
  | ResolvePath string
  | Watch string WatchOpts
  | Open string OpenOpts
  | Lock string bool bool
  | Mmap string int int bool

section \<open>Results\<close>

record FileInfo =
  fi_Name :: string
  fi_Size :: int
  fi_Mode :: FileMode
  fi_ModTime :: gotime
  fi_IsDir :: bool
  fi_Symlink :: bool
  fi_Target :: string
  fi_UID :: int
  fi_GID :: int

definition zero_FileInfo :: FileInfo where
  "zero_FileInfo = \<lparr> fi_Name = [], fi_Size = 0, fi_Mode = 0, fi_ModTime = 0, fi_IsDir = False,
     fi_Symlink = False, fi_Target = [], fi_UID = 0, fi_GID = 0 \<rparr>"

record FsInfo =
  fs_TotalBytes :: "64 word"
  fs_FreeBytes :: "64 word"
  fs_AvailBytes :: "64 word"
  fs_BlockSize :: int
  fs_Type :: string

text \<open>The values an os.PathError wraps.\<close>

datatype errno =
    ErrNotExist | ErrExist | ErrPermission | ErrInvalid | ErrClosed
  | errMemNotDir | errMemIsDir | errMemNotEmpty | errMemTooManyLinks | errXattrAbsent
  | errHandleRead | errHandleWrite | errAppendWriteAt

text \<open>\<open>NoReturn\<close> and \<open>Panics\<close> are no errors of the code: they are the outcomes of a call that does
  not return, or not normally.\<close>

datatype fs_error = PathError string string errno | ErrLockBusy | EOF | NoReturn | Panics go_panic

type_synonym 'a fs_result = "fs_error + 'a"

end
