(* ===== verification/Permissioned_File_Ops.thy ===== *)
theory Permissioned_File_Ops
  imports Policy_Compose File_Calls
begin

text \<open>
  The permission wrapper of the file capability
  (lang/go/native/permissioned_fileops.go): every method of the interface
  FileOps (lang/go/capabilities/capabilities.go) asks the policy before it
  delegates to the wrapped implementation, which is a parameter: a function of
  the call and of its own state.
\<close>

section \<open>The gate\<close>

abbreviation path_arg :: "string \<Rightarrow> Args" where
  "path_arg path \<equiv> [(''path'', AString path)]"

text \<open>The operation name and the arguments each method passes to the policy; ResolvePath asks
  nothing.\<close>

fun gate_of :: "file_call \<Rightarrow> (string \<times> Args) option" where
  "gate_of (ReadFile path) = Some (''read'', path_arg path)"
| "gate_of (WriteFile path data _) =
    Some (''write'', [(''path'', AString path), (''bytes'', AInt64 (int (length data)))])"
| "gate_of (MkdirAll path _) = Some (''mkdir'', path_arg path)"
| "gate_of (Stat path _) = Some (''stat'', path_arg path)"
| "gate_of (ReadDir path) = Some (''list'', path_arg path)"
| "gate_of (Remove_file path _) = Some (''remove'', path_arg path)"
| "gate_of (Rename oldPath newPath) =
    Some (''rename'', [(''path'', AString oldPath), (''to'', AString newPath)])"
| "gate_of (Symlink target linkPath) =
    Some (''link'', [(''path'', AString linkPath), (''to'', AString target)])"
| "gate_of (Link target linkPath) =
    Some (''link'', [(''path'', AString linkPath), (''to'', AString target)])"
| "gate_of (Chmod path _) = Some (''chmod'', path_arg path)"
| "gate_of (Chtimes path _ _) = Some (''chmod'', path_arg path)"
| "gate_of (Truncate_file path _) = Some (''write'', path_arg path)"
| "gate_of (Chown path _ _ _) = Some (''chmod'', path_arg path)"
| "gate_of (XattrGet path _) = Some (''stat'', path_arg path)"
| "gate_of (XattrSet path _ _) = Some (''chmod'', path_arg path)"
| "gate_of (XattrList path) = Some (''stat'', path_arg path)"
| "gate_of (XattrRemove path _) = Some (''chmod'', path_arg path)"
| "gate_of (TempFile dir _) = Some (''write'', path_arg dir)"
| "gate_of (TempDir dir _) = Some (''write'', path_arg dir)"
| "gate_of (Statfs path) = Some (''stat'', path_arg path)"
| "gate_of (ResolvePath path) = None"
| "gate_of (Watch path _) = Some (''watch'', path_arg path)"
| "gate_of (Open path opts) =
    Some (if oo_Write opts \<or> oo_Append opts \<or> oo_Create opts \<or> oo_Truncate opts
          then ''write'' else ''read'', path_arg path)"
| "gate_of (Lock path _ _) = Some (''write'', path_arg path)"
| "gate_of (Mmap path _ _ writable) =
    Some (if writable then ''write'' else ''read'', path_arg path)"

text \<open>A method of the wrapper: the denial verbatim, or what the wrapped method does.\<close>

definition permissioned ::
  "(file_call \<Rightarrow> 's \<Rightarrow> ('e + 'r) \<times> 's) \<Rightarrow> Policy \<Rightarrow> file_call \<Rightarrow> 's \<Rightarrow> ((Denied + 'e) + 'r) \<times> 's" where
  "permissioned inner pol call s =
    (let run = (case inner call s of (Inl e, s') \<Rightarrow> (Inl (Inr e), s') | (Inr r, s') \<Rightarrow> (Inr r, s'))
     in case gate_of call of
          None \<Rightarrow> run
        | Some (op, args) \<Rightarrow>
            (case Check pol ''fileops'' op args of Some d \<Rightarrow> (Inl (Inl d), s) | None \<Rightarrow> run))"

text \<open>NewPermissionedFileOps: without a policy the calls go through unchanged.\<close>

definition fileops_call ::
  "(file_call \<Rightarrow> 's \<Rightarrow> ('e + 'r) \<times> 's) \<Rightarrow> Policy option \<Rightarrow> file_call \<Rightarrow> 's \<Rightarrow> ((Denied + 'e) + 'r) \<times> 's" where
  "fileops_call inner pol call s =
    (case pol of
       None \<Rightarrow> (case inner call s of (Inl e, s') \<Rightarrow> (Inl (Inr e), s') | (Inr r, s') \<Rightarrow> (Inr r, s'))
     | Some pol \<Rightarrow> permissioned inner pol call s)"

end
