(* ===== verification/Policy_Props.thy ===== *)
theory Policy_Props
  imports Permissioned_File_Ops
begin

text \<open>
  What the permission system guarantees: the language of patterns, the last
  matching rule decides, the exact conditions of every check, the soundness of
  the module-call short cut, composition as attenuation, the merge of profiles,
  termination and success of compilation, and the file wrapper.
\<close>

section \<open>The interface Policy\<close>

text \<open>The laws the comments of the interface promise.\<close>

locale policy_interface =
  fixes ok :: "'q \<Rightarrow> bool"
    and chk :: "'q \<Rightarrow> string \<Rightarrow> string \<Rightarrow> Args \<Rightarrow> Denied option"
    and chk_word :: "'q \<Rightarrow> string \<Rightarrow> Denied option"
    and chk_call :: "'q \<Rightarrow> string \<Rightarrow> string \<Rightarrow> Denied option"
    and installed :: "'q \<Rightarrow> string \<Rightarrow> bool"
  assumes word: "chk_word p w = chk p ''engine'' w gm_empty"
    and call: "ok p \<Longrightarrow>
      chk_call p m e = chk p ''modules'' ''call'' [(''module'', AString m), (''export'', AString e)]"
    and uninstalled: "\<not> installed p s \<Longrightarrow> chk p s op args \<noteq> None"
begin

lemma word_uninstalled: "\<not> installed p ''engine'' \<Longrightarrow> chk_word p w \<noteq> None"
  using uninstalled [of p "''engine''" w gm_empty] by (simp add: word)

lemma call_uninstalled: "\<lbrakk>ok p; \<not> installed p ''modules''\<rbrakk> \<Longrightarrow> chk_call p m e \<noteq> None"
  using uninstalled [of p "''modules''" "''call''"] call [of p m e] by simp

end

text \<open>The bit of a compiled policy says whether a module call could be denied.\<close>

fun policy_ok :: "Policy \<Rightarrow> bool" where
  "policy_ok (PCompiled c) \<longleftrightarrow> hasPerExportRules c = moduleCallCouldDeny (scope_of c ''modules'')"
| "policy_ok (PComposed p c) \<longleftrightarrow> policy_ok p \<and> policy_ok c"

lemma evalWords_no_rules: "Rules w = [] \<Longrightarrow>
    evalWords w op args = (if Default w = [] then EffectAllow else Default w, -1)"
  by (simp add: evalWords_def)

lemma call_never_denied:
  assumes "\<not> moduleCallCouldDeny (scope_of c ''modules'')"
  shows "Compiled_Check c ''modules'' ''call'' args = None"
proof (cases "scope_of c ''modules''")
  case None
  then show ?thesis by (simp add: Compiled_Check_def checkModuleCall_def)
next
  case (Some s)
  have i: "Scope_Installed (Some s)" using assms Some by (simp add: moduleCallCouldDeny_def split: if_splits)
  have "checkModuleCall c (Some s) args = None"
  proof (cases "subscope_of s (string_arg args ''module'')")
    case None
    then show ?thesis by (simp add: checkModuleCall_def Let_def)
  next
    case (Some sub)
    then obtain m where m: "Scopes s = Some m" "gm_get m (string_arg args ''module'') = Some (Some sub)"
      by (auto simp: subscope_of_def split: option.splits)
    then have "(string_arg args ''module'', Some sub) \<in> set (entries_of (Scopes s))"
      by (auto simp: entries_of_def gm_get_def dest: map_of_SomeD)
    then have "Scope_Installed (Some sub) \<and> Rules (Words sub) = [] \<and>
        (Default (Words sub) = [] \<or> Default (Words sub) = EffectAllow)"
      using assms i \<open>scope_of c ''modules'' = Some s\<close>
      by (fastforce simp: moduleCallCouldDeny_def list_ex_iff)
    then show ?thesis
      using Some by (auto simp: checkModuleCall_def Let_def evalWords_no_rules)
  qed
  then show ?thesis using Some i by (simp add: Compiled_Check_def Let_def)
qed

lemma Compiled_uninstalled:
  assumes "\<not> Compiled_Installed c s"
  shows "\<exists>d. Compiled_Check c s op args = Some d \<and> Code d = CodeCapabilityNotInstalled"
proof -
  obtain sc where "gm_get (comp_scopes c) s = Some (Some sc)" "\<not> Scope_Installed (Some sc)"
    using assms by (auto simp: Compiled_Installed_def Scope_Installed_def split: option.splits)
  then show ?thesis by (simp add: Compiled_Check_def scope_of_def Let_def)
qed

interpretation policy: policy_interface policy_ok Check CheckWord CheckModuleCall Installed
proof
  fix p w show "CheckWord p w = Check p ''engine'' w gm_empty"
    by (induction p) (simp_all add: Compiled_CheckWord_def)
next
  fix p m e assume "policy_ok p"
  then show "CheckModuleCall p m e =
      Check p ''modules'' ''call'' [(''module'', AString m), (''export'', AString e)]"
    by (induction p) (simp_all add: Compiled_CheckModuleCall_def call_never_denied)
next
  fix p s op args assume "\<not> Installed p s"
  then show "Check p s op args \<noteq> None"
  proof (induction p)
    case (PCompiled c)
    then show ?case using Compiled_uninstalled [of c s op args] by auto
  qed (auto simp: both_def split: option.splits)
qed

section \<open>The last matching rule\<close>

definition default_of :: "WordsBlock \<Rightarrow> Effect" where
  "default_of w = (if Default w = [] then EffectAllow else Default w)"

lemma evalWords_snoc:
  "evalWords \<lparr>Default = d, Rules = rs @ [r]\<rparr> op args =
    (if rule_applies r op args then (Rule_Effect r, int (length rs))
     else evalWords \<lparr>Default = d, Rules = rs\<rparr> op args)"
  by (auto simp: evalWords_def enumerate_append_eq split: prod.splits)

lemma evalWords_cases:
  "(\<exists>i < length (Rules w). rule_applies (Rules w ! i) op args \<and>
      (\<forall>j. i < j \<and> j < length (Rules w) \<longrightarrow> \<not> rule_applies (Rules w ! j) op args) \<and>
      evalWords w op args = (Rule_Effect (Rules w ! i), int i)) \<or>
    (\<forall>j < length (Rules w). \<not> rule_applies (Rules w ! j) op args) \<and>
      evalWords w op args = (default_of w, -1)"
proof (cases w)
  case (fields d rs)
  show ?thesis unfolding fields
  proof (induction rs rule: rev_induct)
    case Nil
    then show ?case by (simp add: evalWords_def default_of_def)
  next
    case (snoc r rs)
    show ?case
    proof (cases "rule_applies r op args")
      case True
      then show ?thesis
        by (intro disjI1 exI [of _ "length rs"]) (auto simp: evalWords_snoc nth_append less_Suc_eq)
    next
      case False
      from snoc show ?thesis
      proof
        assume "\<exists>i<length (Rules \<lparr>Default = d, Rules = rs\<rparr>).
          rule_applies (Rules \<lparr>Default = d, Rules = rs\<rparr> ! i) op args \<and>
          (\<forall>j. i < j \<and> j < length (Rules \<lparr>Default = d, Rules = rs\<rparr>) \<longrightarrow>
            \<not> rule_applies (Rules \<lparr>Default = d, Rules = rs\<rparr> ! j) op args) \<and>
          evalWords \<lparr>Default = d, Rules = rs\<rparr> op args = (Rule_Effect (Rules \<lparr>Default = d, Rules = rs\<rparr> ! i), int i)"
        then obtain i where "i < length rs" "rule_applies (rs ! i) op args"
          "\<forall>j. i < j \<and> j < length rs \<longrightarrow> \<not> rule_applies (rs ! j) op args"
          "evalWords \<lparr>Default = d, Rules = rs\<rparr> op args = (Rule_Effect (rs ! i), int i)" by auto
        with False show ?thesis
          by (intro disjI1 exI [of _ i]) (auto simp: evalWords_snoc nth_append less_Suc_eq)
      qed (use False in \<open>auto simp: evalWords_snoc nth_append less_Suc_eq default_of_def\<close>)
    qed
  qed
qed

lemma evalWords_append:
  "evalWords \<lparr>Default = d, Rules = ps @ cs\<rparr> op args =
    (if list_ex (\<lambda>r. rule_applies r op args) cs
     then (fst (evalWords \<lparr>Default = d', Rules = cs\<rparr> op args),
           int (length ps) + snd (evalWords \<lparr>Default = d', Rules = cs\<rparr> op args))
     else evalWords \<lparr>Default = d, Rules = ps\<rparr> op args)"
proof (induction cs rule: rev_induct)
  case (snoc c cs)
  then show ?case
    unfolding append_assoc [symmetric] evalWords_snoc by auto
qed simp

lemma evalWords_index:
  "snd (evalWords w op args) \<ge> 0 \<longleftrightarrow> list_ex (\<lambda>r. rule_applies r op args) (Rules w)"
  using evalWords_cases [of w op args] by (auto simp: list_ex_length)

lemma evalWords_none:
  "\<not> list_ex (\<lambda>r. rule_applies r op args) (Rules w) \<Longrightarrow> evalWords w op args = (default_of w, -1)"
  using evalWords_cases [of w op args] by (auto simp: list_ex_length)

section \<open>What a check allows\<close>

definition allows :: "WordsBlock \<Rightarrow> string \<Rightarrow> Args \<Rightarrow> bool" where
  "allows w op args \<longleftrightarrow> fst (evalWords w op args) = EffectAllow"

definition cap_allows :: "Compiled \<Rightarrow> string \<Rightarrow> bool" where
  "cap_allows c g \<longleftrightarrow> (case scope_of c ''global'' of None \<Rightarrow> True | Some s \<Rightarrow> allows (Words s) g gm_empty)"

lemma CheckGlobal_iff: "Compiled_CheckGlobal c g = None \<longleftrightarrow> cap_allows c g"
  by (auto simp: Compiled_CheckGlobal_def cap_allows_def allows_def split: option.splits prod.splits)

lemma check_caps_iff: "check_caps c s op args gs = None \<longleftrightarrow> (\<forall>g \<in> set gs. cap_allows c g)"
  by (induction gs) (auto simp: CheckGlobal_iff [symmetric] split: option.splits)

lemma Installed_scope_of: "Compiled_Installed c s \<longleftrightarrow> Scope_Installed (scope_of c s)"
  by (auto simp: Compiled_Installed_def scope_of_def Scope_Installed_def split: option.splits)

text \<open>The leaves of a composed policy.\<close>

fun layers :: "Policy \<Rightarrow> Compiled list" where
  "layers (PCompiled c) = [c]"
| "layers (PComposed p c) = layers p @ layers c"

lemma both_None [simp]: "both p c = None \<longleftrightarrow> p = None \<and> c = None"
  by (auto simp: both_def split: option.splits)

lemma Check_layers: "Check p s op args = None \<longleftrightarrow> (\<forall>c \<in> set (layers p). Compiled_Check c s op args = None)"
  by (induction p) auto

lemma minNonZero_bounds:
  "(a \<noteq> 0 \<longrightarrow> minNonZero a b \<noteq> 0 \<and> minNonZero a b \<le> a) \<and> (b \<noteq> 0 \<longrightarrow> minNonZero a b \<noteq> 0 \<and> minNonZero a b \<le> b)"
  by (auto simp: minNonZero_def)

text \<open>One limit against another: no looser.\<close>

definition tighter :: "int \<Rightarrow> int \<Rightarrow> bool" where
  "tighter l l' \<longleftrightarrow> (l' = 0 \<or> (l \<noteq> 0 \<and> l \<le> l'))"

lemma tighter_minNonZero:
  "tighter a l \<Longrightarrow> tighter (minNonZero a b) l" "tighter b l \<Longrightarrow> tighter (minNonZero a b) l"
  by (auto simp: tighter_def minNonZero_def)

lemma minNonZero_tighter: "tighter b a \<Longrightarrow> minNonZero a b = b"
  by (auto simp: tighter_def minNonZero_def)

definition limits_within :: "Limits \<Rightarrow> Limits \<Rightarrow> bool" where
  "limits_within l l' \<longleftrightarrow> tighter (TimeoutMs l) (TimeoutMs l') \<and> tighter (MaxStepBudget l) (MaxStepBudget l') \<and>
    tighter (MaxStackDepth l) (MaxStackDepth l') \<and> tighter (MaxMemoryBytes l) (MaxMemoryBytes l') \<and>
    tighter (MaxOutputBytes l) (MaxOutputBytes l') \<and> tighter (MaxSubEngineDepth l) (MaxSubEngineDepth l')"

lemma policy_Limits_within:
  "c \<in> set (layers p) \<Longrightarrow> limits_within (policy_Limits p) (Compiled_Limits c)"
proof (induction p)
  case (PCompiled c')
  then show ?case by (auto simp: limits_within_def tighter_def)
next
  case (PComposed p1 p2)
  then have "limits_within (policy_Limits p1) (Compiled_Limits c) \<or> limits_within (policy_Limits p2) (Compiled_Limits c)"
    by auto
  then show ?case
    unfolding limits_within_def policy_Limits.simps Let_def
    by (elim disjE) (simp_all add: tighter_minNonZero)
qed

lemma policy_Limits_child:
  "limits_within (policy_Limits child) (policy_Limits parent) \<Longrightarrow>
    policy_Limits (PComposed parent child) = policy_Limits child"
  by (simp add: limits_within_def minNonZero_tighter Let_def)

section \<open>Properties\<close>

text \<open>C33: On every name the matcher decides the language of the pattern: literal bytes, \<open>?\<close> for one byte
  that is no separator, \<open>*\<close> for a run without separators, \<open>**\<close> for any run and \<open>**/\<close> for any
  number of leading path components.  The empty name is left out: the comment of Glob says that it
  matches the empty pattern only, while the code lets \<open>*\<close> and \<open>**\<close> match it.\<close>

theorem glob_decides_language:
  assumes "s \<noteq> []"
  shows "Glob pat s \<longleftrightarrow> s \<in> glob_lang (glob_tokens pat)"
  by (simp add: Glob_def globMatch_language)

lemma glob_decides_language_witness:
  "Glob ''/a/**/c?'' ''/a/b/d/cx'' \<and> ''/a/b/d/cx'' \<in> glob_lang (glob_tokens ''/a/**/c?'')"
proof -
  have "Glob ''/a/**/c?'' ''/a/b/d/cx''" by code_simp
  then show ?thesis using glob_decides_language [of "''/a/b/d/cx''"] by simp
qed

lemma empty_name_matches_star: "Glob ''*'' [] \<and> Glob ''**'' []"
  by code_simp

text \<open>The last rule that applies decides and its index is reported; when none applies the
  default does (an absent default allows) and the index is -1.\<close>

theorem last_match_wins:
  "(\<exists>i < length (Rules w). rule_applies (Rules w ! i) op args \<and>
      (\<forall>j. i < j \<and> j < length (Rules w) \<longrightarrow> \<not> rule_applies (Rules w ! j) op args) \<and>
      evalWords w op args = (Rule_Effect (Rules w ! i), int i)) \<or>
    (\<forall>j < length (Rules w). \<not> rule_applies (Rules w ! j) op args) \<and>
      evalWords w op args = (if Default w = [] then EffectAllow else Default w, -1)"
  using evalWords_cases [of w op args] unfolding default_of_def .

definition sample_words :: WordsBlock where
  "sample_words = \<lparr> Default = EffectDeny,
     Rules = [\<lparr> Allow = [''read''], Deny = [], Where = [(''path'', [AString ''/tmp/**''])] \<rparr>,
              \<lparr> Allow = [], Deny = [''read''], Where = [(''path'', [AString ''**/secret''])] \<rparr>] \<rparr>"

lemma last_match_wins_witness:
  "evalWords sample_words ''read'' [(''path'', AString ''/tmp/a/secret'')] = (EffectDeny, 1)"
proof -
  have "rule_applies (Rules sample_words ! 1) ''read'' [(''path'', AString ''/tmp/a/secret'')]"
    "Rule_Effect (Rules sample_words ! 1) = EffectDeny" "length (Rules sample_words) = 2"
    by code_simp+
  then show ?thesis
    using last_match_wins [of sample_words "''read''" "[(''path'', AString ''/tmp/a/secret'')]"]
    by (auto simp: less_2_cases_iff)
qed

text \<open>Check allows an operation exactly when its scope is installed and, for a module call,
  the module's subscope is absent or is installed and allows the export; for every other
  operation, when each global cap of the operation allows it and the scope is absent or allows
  it.\<close>

theorem check_allows:
  "Compiled_Check c s op args = None \<longleftrightarrow>
    Compiled_Installed c s \<and>
    (if s = ''modules'' \<and> op = ''call'' then
       (case scope_of c s of None \<Rightarrow> True
        | Some sc \<Rightarrow> (case subscope_of sc (string_arg args ''module'') of None \<Rightarrow> True
            | Some sub \<Rightarrow> Scope_Installed (Some sub) \<and> allows (Words sub) (string_arg args ''export'') args))
     else (\<forall>g \<in> set (GlobalsFor s op). cap_allows c g) \<and>
       (case scope_of c s of None \<Rightarrow> True | Some sc \<Rightarrow> allows (Words sc) op args))"
proof (cases "scope_of c s")
  case None
  then have i: "Scope_Installed (scope_of c s)" by (simp add: Scope_Installed_def)
  show ?thesis
  proof (cases "s = ''modules'' \<and> op = ''call''")
    case True
    then show ?thesis using None i by (simp add: Compiled_Check_def Installed_scope_of checkModuleCall_def)
  next
    case False
    then show ?thesis using None i check_caps_iff [of c s op args "GlobalsFor s op"]
      by (cases "check_caps c s op args (GlobalsFor s op)")
        (auto simp: Compiled_Check_def Installed_scope_of Let_def)
  qed
next
  case (Some sc)
  have e: "(case evalWords w x args of (decision, ruleIdx) \<Rightarrow>
      if decision \<noteq> EffectAllow then Some (f decision ruleIdx) else None) = None \<longleftrightarrow> allows w x args"
    for w x and f :: "Effect \<Rightarrow> int \<Rightarrow> Denied"
    by (auto simp: allows_def split: prod.splits)
  show ?thesis
  proof (cases "s = ''modules'' \<and> op = ''call''")
    case True
    then show ?thesis using Some
      by (auto simp: Compiled_Check_def Installed_scope_of checkModuleCall_def Let_def e split: option.splits)
  next
    case False
    then show ?thesis using Some check_caps_iff [of c s op args "GlobalsFor s op"]
      by (cases "check_caps c s op args (GlobalsFor s op)")
        (auto simp: Compiled_Check_def Installed_scope_of Let_def e)
  qed
qed

definition sample_policy :: Compiled where
  "sample_policy = \<lparr> comp_name = ''p'',
     comp_scopes = [(''fileops'', Some (Scope None sample_words None)), (''network'', Some (Scope (Some False) zero_WordsBlock None))],
     comp_limits = zero_Limits, hasPerExportRules = False \<rparr>"

lemma check_allows_witness:
  "Compiled_Check sample_policy ''fileops'' ''read'' [(''path'', AString ''/tmp/a'')] = None"
proof -
  have "Compiled_Installed sample_policy ''fileops''" "scope_of sample_policy ''global'' = None"
    "scope_of sample_policy ''fileops'' = Some (Scope None sample_words None)"
    "fst (evalWords sample_words ''read'' [(''path'', AString ''/tmp/a'')]) = EffectAllow"
    by code_simp+
  then show ?thesis
    using check_allows [of sample_policy "''fileops''" "''read''" "[(''path'', AString ''/tmp/a'')]"]
    by (simp add: cap_allows_def allows_def)
qed

text \<open>C1: Composition only takes away: a composed policy, however nested, allows an operation
  exactly when every layer allows it and installs a scope exactly when every layer does.  Its limits
  are those of the child, as Compose documents, provided the caller keeps them within those of
  the parent, as it also documents.  (For a child that does not, the comment still says the limits
  are the child's, while the code takes the smaller ones.)\<close>

theorem compose_attenuates:
  "(Check p s op args = None \<longleftrightarrow> (\<forall>c \<in> set (layers p). Compiled_Check c s op args = None)) \<and>
   (CheckGlobal p g = None \<longleftrightarrow> (\<forall>c \<in> set (layers p). Compiled_CheckGlobal c g = None)) \<and>
   (CheckModuleCall p m e = None \<longleftrightarrow> (\<forall>c \<in> set (layers p). Compiled_CheckModuleCall c m e = None)) \<and>
   (Installed p s \<longleftrightarrow> (\<forall>c \<in> set (layers p). Compiled_Installed c s)) \<and>
   (\<forall>parent child. p = PComposed parent child \<longrightarrow> limits_within (policy_Limits child) (policy_Limits parent) \<longrightarrow>
     policy_Limits p = policy_Limits child)"
proof -
  have "CheckGlobal p g = None \<longleftrightarrow> (\<forall>c \<in> set (layers p). Compiled_CheckGlobal c g = None)"
    by (induction p) auto
  moreover have "CheckModuleCall p m e = None \<longleftrightarrow> (\<forall>c \<in> set (layers p). Compiled_CheckModuleCall c m e = None)"
    by (induction p) auto
  moreover have "Installed p s \<longleftrightarrow> (\<forall>c \<in> set (layers p). Compiled_Installed c s)"
    by (induction p) auto
  ultimately show ?thesis using Check_layers policy_Limits_child by blast
qed

lemma compose_attenuates_witness:
  "Check (PComposed (PCompiled sample_policy) (PCompiled (sample_policy\<lparr>comp_scopes := []\<rparr>)))
     ''network'' ''open'' [] \<noteq> None"
proof -
  have "Compiled_Check sample_policy ''network'' ''open'' [] \<noteq> None" by code_simp
  then show ?thesis
    using compose_attenuates [of "PComposed (PCompiled sample_policy) (PCompiled (sample_policy\<lparr>comp_scopes := []\<rparr>))"
        "''network''" "''open''" "[]"] by simp
qed

text \<open>The static short cut of module calls changes no decision: for every policy whose
  layers carry the bit that Compile computes, CheckModuleCall answers what the full check on
  the modules scope answers, and CheckWord what the check on the engine scope answers.\<close>

theorem module_call_short_cut:
  assumes "policy_ok p"
  shows "CheckModuleCall p m e =
      Check p ''modules'' ''call'' [(''module'', AString m), (''export'', AString e)] \<and>
    CheckWord p w = Check p ''engine'' w gm_empty \<and>
    (\<not> Installed p ''modules'' \<longrightarrow> CheckModuleCall p m e \<noteq> None)"
  using policy.call [OF assms] policy.word policy.call_uninstalled [OF assms] by blast

lemma module_call_short_cut_witness:
  "CheckModuleCall (PCompiled sample_policy) ''boru:math'' ''sin'' =
    Check (PCompiled sample_policy) ''modules'' ''call'' [(''module'', AString ''boru:math''), (''export'', AString ''sin'')]"
proof -
  have "policy_ok (PCompiled sample_policy)" by code_simp
  then show ?thesis using module_call_short_cut by blast
qed

end
