(* ===== verification/Compile_Props.thy ===== *)
theory Compile_Props
  imports Policy_Props
begin

text \<open>
  Compilation of profiles: clones are copies, a child overrides its parent, the
  chain of parents is followed to its end or reported, validation accepts the
  profiles it should, and the file wrapper lets nothing through.
\<close>

section \<open>Clones\<close>

text \<open>Maps with distinct keys all the way down.\<close>

inductive scope_ok :: "Scope option \<Rightarrow> bool" where
  "scope_ok None"
| "Scopes s = None \<Longrightarrow> scope_ok (Some s)"
| "\<lbrakk>Scopes s = Some m; gm_ok m; \<And>x. x \<in> set m \<Longrightarrow> scope_ok (snd x)\<rbrakk> \<Longrightarrow> scope_ok (Some s)"

lemma update_new: "k \<notin> fst ` set m \<Longrightarrow> AList.update k v m = m @ [(k, v)]"
  by (induction m) auto

lemma fold_put_new:
  "distinct (map fst (out @ m)) \<Longrightarrow> fold (\<lambda>x out. gm_put (fst x) (snd x) out) m out = out @ m"
proof (induction m arbitrary: out)
  case (Cons x m)
  obtain k v where x: "x = (k, v)" by (cases x)
  have "gm_put k v out = out @ [x]" using Cons.prems by (auto simp: x gm_put_def update_new)
  then show ?case using Cons.IH [of "out @ [x]"] Cons.prems x by simp
qed simp

lemma cloneScope_id: "scope_ok s \<Longrightarrow> cloneScope s = s"
proof (induction rule: scope_ok.induct)
  case 1
  then show ?case by (simp add: cloneScope.simps)
next
  case (2 s)
  then show ?case by (cases s) (simp add: cloneScope.simps)
next
  case (3 s m)
  have "fold (\<lambda>x out. gm_put (fst x) (cloneScope (snd x)) out) m gm_empty =
      fold (\<lambda>x out. gm_put (fst x) (snd x) out) m gm_empty"
    using 3(4) by (intro fold_cong) auto
  also have "\<dots> = m" using fold_put_new [of gm_empty m] 3(2) by (simp add: gm_empty_def gm_ok_def)
  finally show ?case using 3(1) by (cases s) (simp add: cloneScope.simps)
qed

section \<open>Merges\<close>

definition scopes_ok :: "(string \<times> Scope option) list \<Rightarrow> bool" where
  "scopes_ok m \<longleftrightarrow> gm_ok m \<and> (\<forall>x \<in> set m. scope_ok (snd x))"

lemma scopes_okD: "\<lbrakk>scopes_ok m; gm_get m n = Some s\<rbrakk> \<Longrightarrow> scope_ok s"
  by (force simp: scopes_ok_def gm_get_def dest: map_of_SomeD)

lemma clone_entries:
  assumes "scopes_ok m"
  shows "fold (\<lambda>x out. gm_put (fst x) (cloneScope (snd x)) out) m gm_empty = m"
proof -
  have "fold (\<lambda>x out. gm_put (fst x) (cloneScope (snd x)) out) m gm_empty =
      fold (\<lambda>x out. gm_put (fst x) (snd x) out) m gm_empty"
    using assms by (intro fold_cong) (auto simp: scopes_ok_def cloneScope_id)
  also have "\<dots> = m" using fold_put_new [of gm_empty m] assms by (simp add: scopes_ok_def gm_empty_def gm_ok_def)
  finally show ?thesis .
qed

definition merge_entries ::
  "(string \<times> Scope option) list \<Rightarrow> (string \<times> Scope option) list \<Rightarrow> (string \<times> Scope option) list" where
  "merge_entries cs out = fold (\<lambda>x out. gm_put (fst x)
      (case gm_get out (fst x) of Some existing \<Rightarrow> mergeScope existing (snd x)
       | None \<Rightarrow> cloneScope (snd x)) out) cs out"

lemma merge_entries_get:
  assumes "distinct (map fst cs)"
  shows "gm_get (merge_entries cs out) n =
    (case map_of cs n of None \<Rightarrow> gm_get out n
     | Some c \<Rightarrow> Some (case gm_get out n of Some p \<Rightarrow> mergeScope p c | None \<Rightarrow> cloneScope c))"
  using assms
proof (induction cs arbitrary: out)
  case Nil
  then show ?case by (simp add: merge_entries_def)
next
  case (Cons x cs)
  obtain k c where x: "x = (k, c)" by (cases x)
  have "map_of cs k = None" using Cons.prems x by (simp add: map_of_eq_None_iff)
  moreover have "merge_entries (x # cs) out = merge_entries cs (gm_put k
      (case gm_get out k of Some existing \<Rightarrow> mergeScope existing c | None \<Rightarrow> cloneScope c) out)"
    by (cases "gm_get out k") (simp_all add: merge_entries_def x)
  ultimately show ?case using Cons x by (auto split: option.splits)
qed

lemma mergeProfile_scopes:
  assumes "scopes_ok (entries_of (prof_Scopes p))" "scopes_ok (entries_of (prof_Scopes c))"
  shows "gm_get (entries_of (prof_Scopes (mergeProfile p c))) n =
    (case gm_get (entries_of (prof_Scopes c)) n of
       None \<Rightarrow> gm_get (entries_of (prof_Scopes p)) n
     | Some cs \<Rightarrow> Some (case gm_get (entries_of (prof_Scopes p)) n of
           Some ps \<Rightarrow> mergeScope ps cs | None \<Rightarrow> cs))"
proof -
  have "entries_of (prof_Scopes (mergeProfile p c)) =
      merge_entries (entries_of (prof_Scopes c)) (entries_of (prof_Scopes p))"
    by (simp add: mergeProfile_def merge_entries_def clone_entries [OF assms(1)] entries_of_def [of "Some _"])
  moreover have "distinct (map fst (entries_of (prof_Scopes c)))"
    using assms(2) by (simp add: scopes_ok_def gm_ok_def)
  moreover have "cloneScope cs = cs" if "gm_get (entries_of (prof_Scopes c)) n = Some cs" for cs
    using that assms(2) scopes_okD cloneScope_id by blast
  ultimately show ?thesis
    by (auto simp: merge_entries_get gm_get_def [of "entries_of (prof_Scopes c)"] split: option.splits)
qed

lemma mergeScope_Some:
  "mergeScope (Some p) (Some c) = Some (Scope (if Install c \<noteq> None then Install c else Install p)
    (merge_words (Words p) (Words c))
    (if nilp (Scopes p) \<and> nilp (Scopes c) then None
     else Some (merge_entries (entries_of (Scopes c))
       (fold (\<lambda>x out. gm_put (fst x) (cloneScope (snd x)) out) (entries_of (Scopes p)) gm_empty))))"
  by (simp add: mergeScope.simps [of "Some p" "Some c"] merge_entries_def entries_of_def)

lemma merge_words_eval:
  "evalWords (merge_words p c) op args =
    (if snd (evalWords c op args) \<ge> 0
     then (fst (evalWords c op args), int (length (Rules p)) + snd (evalWords c op args))
     else if snd (evalWords p op args) \<ge> 0 then evalWords p op args
     else (if Default c \<noteq> [] then Default c else if Default p \<noteq> [] then Default p else EffectAllow, -1))"
proof -
  let ?d = "if Default c \<noteq> [] then Default c else Default p"
  have c: "evalWords \<lparr>Default = Default c, Rules = Rules c\<rparr> op args = evalWords c op args"
    by (simp add: evalWords_def)
  have p: "evalWords \<lparr>Default = ?d, Rules = Rules p\<rparr> op args =
      (if snd (evalWords p op args) \<ge> 0 then evalWords p op args else (default_of \<lparr>Default = ?d, Rules = Rules p\<rparr>, -1))"
  proof (cases "list_ex (\<lambda>r. rule_applies r op args) (Rules p)")
    case True
    obtain i where i: "i < length (Rules p)" "rule_applies (Rules p ! i) op args"
      "\<forall>j. i < j \<and> j < length (Rules p) \<longrightarrow> \<not> rule_applies (Rules p ! j) op args"
      "evalWords p op args = (Rule_Effect (Rules p ! i), int i)"
      using evalWords_cases [of p op args] True by (auto simp: list_ex_length)
    obtain k where k: "k < length (Rules p)" "rule_applies (Rules p ! k) op args"
      "\<forall>j. k < j \<and> j < length (Rules p) \<longrightarrow> \<not> rule_applies (Rules p ! j) op args"
      "evalWords \<lparr>Default = ?d, Rules = Rules p\<rparr> op args = (Rule_Effect (Rules p ! k), int k)"
      using evalWords_cases [of "\<lparr>Default = ?d, Rules = Rules p\<rparr>" op args] True
      by (auto simp: list_ex_length)
    have "i = k" using i k by (metis linorder_neqE_nat)
    then show ?thesis using i k by simp
  next
    case False
    then show ?thesis
      using evalWords_none [of op args "\<lparr>Default = ?d, Rules = Rules p\<rparr>"] evalWords_none [of op args p] by simp
  qed
  show ?thesis
    unfolding merge_words_def evalWords_append [where d' = "Default c"] c p evalWords_index
    by (auto simp: default_of_def evalWords_index [symmetric])
qed

section \<open>The chain of parents\<close>

definition chain_names :: "(string \<Rightarrow> string + Profile option) \<Rightarrow> string set \<Rightarrow> bool" where
  "chain_names f N \<longleftrightarrow> (\<forall>n \<in> N. \<forall>q. f n = Inr (Some q) \<longrightarrow> Extends q = [] \<or> Extends q \<in> N)"

lemma resolve_ends:
  assumes "finite N" "chain_names f N"
    and "\<And>q. p = Some q \<Longrightarrow> Extends q = [] \<or> Extends q \<in> N"
    and "card {n \<in> N. gm_get visited n \<noteq> Some True} \<le> fuel"
  shows "resolveChain fuel p (Some f) visited \<noteq> None"
  using assms(3,4)
proof (induction fuel arbitrary: p visited)
  case 0
  have "Extends q = [] \<or> gm_get visited (Extends q) = Some True" if "p = Some q" for q
    using 0 that assms(1) by auto
  then show ?case by (auto simp: resolveChain.simps [of 0] split: option.splits)
next
  case (Suc fuel)
  show ?case
  proof (cases p)
    case None
    then show ?thesis by (simp add: resolveChain.simps)
  next
    case (Some q)
    show ?thesis
    proof (cases "Extends q = [] \<or> gm_get visited (Extends q) = Some True")
      case True
      then show ?thesis using Some by (auto simp: resolveChain.simps)
    next
      case False
      let ?v = "gm_put (Extends q) True visited"
      have n: "Extends q \<in> {n \<in> N. gm_get visited n \<noteq> Some True}" using False Suc.prems(1) Some by auto
      have "{n \<in> N. gm_get ?v n \<noteq> Some True} = {n \<in> N. gm_get visited n \<noteq> Some True} - {Extends q}"
        by auto
      then have c: "card {n \<in> N. gm_get ?v n \<noteq> Some True} \<le> fuel"
        using Suc.prems(2) n assms(1) by (simp add: card_Diff_singleton)
      have "resolveChain fuel parent (Some f) ?v \<noteq> None" if "f (Extends q) = Inr parent" for parent
        using Suc.IH [OF _ c, of parent] assms(2) that n unfolding chain_names_def by blast
      then show ?thesis using Some False
        by (auto simp: resolveChain.simps [of "Suc fuel"] split: sum.splits option.splits)
    qed
  qed
qed

section \<open>Validation\<close>

definition words_valid :: "WordsBlock \<Rightarrow> bool" where
  "words_valid w \<longleftrightarrow> Default w \<in> {[], EffectAllow, EffectDeny} \<and>
    (\<forall>r \<in> set (Rules w). (Allow r \<noteq> []) \<noteq> (Deny r \<noteq> []))"

definition scope_valid :: "string \<times> Scope option \<Rightarrow> bool" where
  "scope_valid = (\<lambda>(name, s). name \<in> set KnownScopes \<and>
    (case s of None \<Rightarrow> True
     | Some s \<Rightarrow> (Install s = None \<or> name \<notin> {''global'', ''engine''}) \<and> words_valid (Words s) \<and>
        (entries_of (Scopes s) = [] \<or> name = ''modules'') \<and>
        (\<forall>x \<in> set (entries_of (Scopes s)). \<exists>t. snd x = Some t \<and> words_valid (Words t))))"

lemma validate_rules_None: "validate_rules n i rs = None \<longleftrightarrow> (\<forall>r \<in> set rs. (Allow r \<noteq> []) \<noteq> (Deny r \<noteq> []))"
  by (induction rs arbitrary: i) auto

lemma validateWordsBlock_None: "validateWordsBlock n w = None \<longleftrightarrow> words_valid w"
  by (auto simp: validateWordsBlock_def words_valid_def validate_rules_None)

lemma validateWordsBlock_Some: "validateWordsBlock n w = Some e \<Longrightarrow> \<not> words_valid w"
  using validateWordsBlock_None [of n w] by simp

lemma validate_subs_None: "validate_subs n subs = Inr None \<longleftrightarrow>
    (subs = [] \<or> n = ''modules'') \<and> (\<forall>x \<in> set subs. \<exists>t. snd x = Some t \<and> words_valid (Words t))"
  by (induction n subs rule: validate_subs.induct)
    (auto simp: validateWordsBlock_None dest: validateWordsBlock_Some split: option.splits)

lemma isKnownScope_iff: "isKnownScope n \<longleftrightarrow> n \<in> set KnownScopes"
  by (auto simp: isKnownScope_def list_ex_iff)

lemma validate_scope_None: "validate_scope n s = Inr None \<longleftrightarrow> scope_valid (n, s)"
proof (cases s)
  case None
  then show ?thesis by (simp add: validate_scope_def scope_valid_def isKnownScope_iff)
next
  case (Some t)
  have c: "canInstall n \<longleftrightarrow> n \<notin> {''global'', ''engine''}" by (simp add: canInstall_def)
  show ?thesis
  proof (cases "n \<in> set KnownScopes \<and> (Install t = None \<or> canInstall n)")
    case True
    then have "validate_scope n s = (case validateWordsBlock n (Words t) of
        Some e \<Rightarrow> go_ok (Some e) | None \<Rightarrow> validate_subs n (entries_of (Scopes t)))"
      using Some by (auto simp: validate_scope_def isKnownScope_iff split: option.splits bool.splits)
    then show ?thesis
      using True Some c validateWordsBlock_None [of n "Words t"] validate_subs_None [of n "entries_of (Scopes t)"]
      by (cases "validateWordsBlock n (Words t)") (simp_all add: scope_valid_def)
  next
    case False
    then show ?thesis using Some c
      by (cases "n \<in> set KnownScopes"; cases "Install t"; cases "canInstall n")
        (simp_all add: validate_scope_def scope_valid_def isKnownScope_iff)
  qed
qed

lemma validate_scopes_None: "validate_scopes m = Inr None \<longleftrightarrow> (\<forall>x \<in> set m. scope_valid x)"
proof (induction m rule: validate_scopes.induct)
  case (2 name scope scopes)
  show ?case
  proof (cases "validate_scope name scope = Inr None")
    case True
    then show ?thesis using 2 validate_scope_None [of name scope] by simp
  next
    case False
    then have "validate_scopes ((name, scope) # scopes) = validate_scope name scope"
      by (auto split: sum.splits option.splits)
    then show ?thesis using False validate_scope_None [of name scope] by simp
  qed
qed simp

lemma validate_names_None: "validate_names i ns = None \<longleftrightarrow> set ns \<subseteq> set GlobalOps"
  by (induction ns) (auto simp: IsGlobalOp_def list_ex_iff)

lemma validate_global_None: "validate_global i rs = None \<longleftrightarrow> (\<forall>r \<in> set rs. set (Rule_Names r) \<subseteq> set GlobalOps)"
proof (induction rs arbitrary: i)
  case (Cons r rs)
  then show ?case using validate_names_None [of i "Rule_Names r"]
    by (cases "validate_names i (Rule_Names r)") simp_all
qed simp

section \<open>The subset test\<close>

lemma subset_globals_None: "subset_globals p c gs = None \<longleftrightarrow>
    (\<forall>g \<in> set gs. Compiled_CheckGlobal p g \<noteq> None \<longrightarrow> Compiled_CheckGlobal c g \<noteq> None)"
  by (induction gs) (auto simp: nilp_def)

lemma subset_installs_None: "subset_installs p c ss = None \<longleftrightarrow>
    (\<forall>s \<in> set ss. Compiled_Installed c s \<longrightarrow> Compiled_Installed p s)"
  by (induction ss) auto

section \<open>Properties\<close>

text \<open>A child's rules override its parent's: in a scope both profiles have, the merged profile
  decides by the child's last matching rule, else by the parent's, else by the child's default,
  else by the parent's; scopes only one of them has are kept.\<close>

theorem extends_overrides:
  assumes "scopes_ok (entries_of (prof_Scopes p))" and "scopes_ok (entries_of (prof_Scopes c))"
    and "gm_get (entries_of (prof_Scopes p)) n = Some (Some ps)"
    and "gm_get (entries_of (prof_Scopes c)) n = Some (Some cs)"
  shows "\<exists>s. gm_get (entries_of (prof_Scopes (mergeProfile p c))) n = Some (Some s) \<and>
    fst (evalWords (Words s) op args) =
      (if snd (evalWords (Words cs) op args) \<ge> 0 then fst (evalWords (Words cs) op args)
       else if snd (evalWords (Words ps) op args) \<ge> 0 then fst (evalWords (Words ps) op args)
       else if Default (Words cs) \<noteq> [] then Default (Words cs)
       else if Default (Words ps) \<noteq> [] then Default (Words ps) else EffectAllow) \<and>
    (gm_get (entries_of (prof_Scopes p)) k = None \<longrightarrow>
      gm_get (entries_of (prof_Scopes (mergeProfile p c))) k = gm_get (entries_of (prof_Scopes c)) k) \<and>
    (gm_get (entries_of (prof_Scopes c)) k = None \<longrightarrow>
      gm_get (entries_of (prof_Scopes (mergeProfile p c))) k = gm_get (entries_of (prof_Scopes p)) k)"
  using mergeProfile_scopes [OF assms(1,2), of n] mergeProfile_scopes [OF assms(1,2), of k] assms(3,4)
  by (auto simp: mergeScope_Some merge_words_eval split: option.splits)

definition sample_parent :: Profile where
  "sample_parent = zero_Profile\<lparr>prof_Name := ''base'', prof_Scopes := Some [(''env'', Some (Scope None
     \<lparr>Default = EffectDeny, Rules = []\<rparr> None))]\<rparr>"

definition sample_child :: Profile where
  "sample_child = zero_Profile\<lparr>Extends := ''base'', prof_Scopes := Some [(''env'', Some (Scope None
     \<lparr>Default = [], Rules = [\<lparr>Allow = [''read''], Deny = [], Where = []\<rparr>]\<rparr> None))]\<rparr>"

lemma sample_scopes_ok: "scopes_ok (entries_of (prof_Scopes sample_parent))"
  "scopes_ok (entries_of (prof_Scopes sample_child))"
  by (auto simp: scopes_ok_def sample_parent_def sample_child_def entries_of_def gm_ok_def intro: scope_ok.intros)

lemma extends_overrides_witness:
  "\<exists>s. gm_get (entries_of (prof_Scopes (mergeProfile sample_parent sample_child))) ''env'' = Some (Some s) \<and>
    fst (evalWords (Words s) ''read'' []) = EffectAllow"
proof -
  let ?ps = "Scope None \<lparr>Default = EffectDeny, Rules = []\<rparr> None"
  let ?cs = "Scope None \<lparr>Default = [], Rules = [\<lparr>Allow = [''read''], Deny = [], Where = []\<rparr>]\<rparr> None"
  have g: "gm_get (entries_of (prof_Scopes sample_parent)) ''env'' = Some (Some ?ps)"
    "gm_get (entries_of (prof_Scopes sample_child)) ''env'' = Some (Some ?cs)"
    by (simp_all add: sample_parent_def sample_child_def entries_of_def gm_get_def)
  have "evalWords (Words ?cs) ''read'' [] = (EffectAllow, 0)" by code_simp
  then show ?thesis
    using extends_overrides [OF sample_scopes_ok g, of "''read''" "[]"] by auto
qed

text \<open>Resolution ends: when the names of parents stay in a finite set, as many steps as the
  set has names are enough, because a name that comes up a second time is reported as a
  cycle.\<close>

theorem resolve_terminates:
  assumes "finite N" and "chain_names f N"
    and "\<And>q. p = Some q \<Longrightarrow> Extends q = [] \<or> Extends q \<in> N"
  shows "\<exists>r. resolveChain (card N) p (Some f) gm_empty = Some r"
proof -
  have "{n \<in> N. gm_get (gm_empty :: (string, bool) gomap) n \<noteq> Some True} = N" by auto
  then show ?thesis using resolve_ends [OF assms(1,2), of p gm_empty "card N"] assms(3) by auto
qed

definition sample_resolver :: "string \<Rightarrow> string + Profile option" where
  "sample_resolver n = (if n = ''base'' then Inr (Some sample_parent) else Inl ''not found'')"

lemma resolve_terminates_witness:
  "\<exists>r. resolveChain 1 (Some sample_child) (Some sample_resolver) gm_empty = Some r"
proof -
  have "chain_names sample_resolver {''base''}"
    by (auto simp: chain_names_def sample_resolver_def sample_parent_def zero_Profile_def)
  then show ?thesis
    using resolve_terminates [of "{''base''}" sample_resolver "Some sample_child"]
    by (simp add: sample_child_def)
qed

text \<open>A profile whose chain comes back to a parent already visited is an error, never an
  endless recursion; a chain with a missing parent is an error that names it.\<close>

theorem resolve_errors:
  "(f n = Inr (Some q) \<and> Extends q = n \<and> n \<noteq> [] \<longrightarrow>
      resolveChain (Suc k) (Some q) (Some f) gm_empty = Some (Inl (ExtendsCycle n))) \<and>
   (Extends p \<noteq> [] \<and> f (Extends p) = Inl err \<longrightarrow>
      resolveChain k (Some p) (Some f) gm_empty = Some (Inl (ExtendsError (Extends p) err)))"
  by (auto simp: resolveChain.simps)

lemma resolve_errors_witness:
  "resolveChain 0 (Some (sample_child\<lparr>Extends := ''x''\<rparr>)) (Some sample_resolver) gm_empty =
    Some (Inl (ExtendsError ''x'' ''not found''))"
  using resolve_errors [of sample_resolver "''x''" zero_Profile 0 "sample_child\<lparr>Extends := ''x''\<rparr>" "''not found''"]
  by (simp add: sample_resolver_def)

text \<open>Validation accepts exactly the profiles whose scopes are known, whose install flags are
  on scopes that can be uninstalled, whose rules have one of allow and deny, whose defaults are
  absent, allow or deny, which have subscopes under modules only, and whose global rules name
  caps.\<close>

theorem validate_accepts:
  "Validate (Some p) = go_ok None \<longleftrightarrow>
    (\<forall>x \<in> set (entries_of (prof_Scopes p)). scope_valid x) \<and>
    (\<forall>g. gm_get (entries_of (prof_Scopes p)) ''global'' = Some (Some g) \<longrightarrow>
      (\<forall>r \<in> set (Rules (Words g)). set (Rule_Names r) \<subseteq> set GlobalOps))"
proof (cases "validate_scopes (entries_of (prof_Scopes p)) = Inr None")
  case True
  then show ?thesis
    using validate_scopes_None [of "entries_of (prof_Scopes p)"]
    by (simp add: Validate_def validate_global_None split: option.splits)
next
  case False
  then have "Validate (Some p) = validate_scopes (entries_of (prof_Scopes p))"
    by (auto simp: Validate_def split: sum.splits option.splits)
  then have "Validate (Some p) \<noteq> go_ok None" using False by simp
  moreover have "\<not> (\<forall>x \<in> set (entries_of (prof_Scopes p)). scope_valid x)"
    using False validate_scopes_None by blast
  ultimately show ?thesis by blast
qed

lemma validate_accepts_witness: "Validate (Some sample_parent) = go_ok None"
proof -
  have "scope_valid (''env'', Some (Scope None \<lparr>Default = EffectDeny, Rules = []\<rparr> None))"
    by (simp add: scope_valid_def words_valid_def KnownScopes_def entries_of_def)
  then show ?thesis using validate_accepts [of sample_parent]
    by (simp add: sample_parent_def entries_of_def gm_get_def)
qed

text \<open>When the subset test passes, the child denies every global cap the parent denies and
  has every known scope uninstalled that the parent has uninstalled.\<close>

theorem subset_test:
  assumes "RequireSubset (PCompiled c) (Some (PCompiled p)) = None"
  shows "(\<forall>g \<in> set GlobalOps. Compiled_CheckGlobal p g \<noteq> None \<longrightarrow> Compiled_CheckGlobal c g \<noteq> None) \<and>
    (\<forall>s \<in> set KnownScopes. Compiled_Installed c s \<longrightarrow> Compiled_Installed p s)"
  using assms unfolding subset_globals_None [symmetric] subset_installs_None [symmetric]
  by (auto simp: RequireSubset_def split: option.splits)

lemma subset_test_witness:
  "\<not> Compiled_Installed (sample_policy\<lparr>comp_name := ''child''\<rparr>) ''network''"
proof -
  have "RequireSubset (PCompiled (sample_policy\<lparr>comp_name := ''child''\<rparr>)) (Some (PCompiled sample_policy)) = None"
    "\<not> Compiled_Installed sample_policy ''network''" "''network'' \<in> set KnownScopes"
    by code_simp+
  then show ?thesis using subset_test by blast
qed

text \<open>It is no subset test for rules: a child without the parent's deny rule passes.\<close>

lemma subset_test_misses_rules:
  "let p = sample_policy\<lparr>comp_scopes := [(''fileops'', Some (Scope None
         \<lparr>Default = EffectAllow, Rules = [\<lparr>Allow = [], Deny = [''read''], Where = []\<rparr>]\<rparr> None))]\<rparr>;
       c = sample_policy\<lparr>comp_scopes := []\<rparr>
   in RequireSubset (PCompiled c) (Some (PCompiled p)) = None \<and>
      Compiled_Check c ''fileops'' ''read'' [] = None \<and> Compiled_Check p ''fileops'' ''read'' [] \<noteq> None"
  by code_simp

section \<open>The file wrapper\<close>

text \<open>What it means for a method to be gated as operation op with arguments a: a layer that denies
  the operation, or has the scope fileops uninstalled, makes the call return a layer's denial
  with the wrapped state untouched; a call that all layers allow is the wrapped call.\<close>

definition gated ::
  "(file_call \<Rightarrow> 's \<Rightarrow> ('e + 'r) \<times> 's) \<Rightarrow> Policy \<Rightarrow> 's \<Rightarrow> file_call \<Rightarrow> string \<Rightarrow> Args \<Rightarrow> bool" where
  "gated inner pol s call op a =
    ((if \<exists>c \<in> set (layers pol). Compiled_Check c ''fileops'' op a \<noteq> None
      then \<exists>d. permissioned inner pol call s = (Inl (Inl d), s) \<and>
             (\<exists>c \<in> set (layers pol). Compiled_Check c ''fileops'' op a = Some d)
      else permissioned inner pol call s = fileops_call inner None call s) \<and>
     ((\<exists>c \<in> set (layers pol). \<not> Compiled_Installed c ''fileops'') \<longrightarrow>
        (\<exists>d. permissioned inner pol call s = (Inl (Inl d), s))))"

lemma Check_some_layer:
  "Check pol sc op a = Some d \<Longrightarrow> \<exists>c \<in> set (layers pol). Compiled_Check c sc op a = Some d"
  by (induction pol) (auto simp: both_def split: option.splits)

lemma gated_gate_of:
  assumes g: "gate_of call = Some (op, a)"
  shows "gated inner pol s call op a"
proof -
  have "Check pol ''fileops'' op a \<noteq> None" if "c \<in> set (layers pol)" "\<not> Compiled_Installed c ''fileops''" for c
    using that Compiled_uninstalled [of c "''fileops''" op a] Check_layers [of pol "''fileops''" op a] by force
  moreover have "permissioned inner pol call s = (Inl (Inl d), s)" if "Check pol ''fileops'' op a = Some d" for d
    using that g by (simp add: permissioned_def Let_def)
  moreover have "Check pol ''fileops'' op a = None \<Longrightarrow> permissioned inner pol call s = fileops_call inner None call s"
    using g by (simp add: permissioned_def fileops_call_def Let_def)
  ultimately show ?thesis
    using Check_layers [of pol "''fileops''" op a] Check_some_layer [of pol "''fileops''" op a]
    unfolding gated_def by (cases "Check pol ''fileops'' op a") auto
qed

text \<open>C12: Every method of the file wrapper is gated, under the operation and the arguments
  listed here: a read of a file and a plain open ask for read; writes, truncations, temporary
  files, locks, an open that can change the file and a writable mapping ask for write; symbolic
  and hard links ask for link at the new name; changes of mode, times, owner or attributes ask
  for chmod; queries ask for stat.  Gated means that when any layer of the policy denies that
  operation, or has no fileops scope installed, the call returns a layer's denial and the wrapped
  state is untouched, and that a call all layers allow does exactly what the wrapped
  implementation does.  ResolvePath alone asks nothing.\<close>

theorem file_gate:
  fixes inner :: "file_call \<Rightarrow> 's \<Rightarrow> ('e + 'r) \<times> 's"
  shows
  "gated inner pol s (ReadFile path) ''read'' [(''path'', AString path)] \<and>
   gated inner pol s (WriteFile path data perm) ''write''
     [(''path'', AString path), (''bytes'', AInt64 (int (length data)))] \<and>
   gated inner pol s (MkdirAll path perm) ''mkdir'' [(''path'', AString path)] \<and>
   gated inner pol s (Stat path follow) ''stat'' [(''path'', AString path)] \<and>
   gated inner pol s (ReadDir path) ''list'' [(''path'', AString path)] \<and>
   gated inner pol s (Remove_file path recursive) ''remove'' [(''path'', AString path)] \<and>
   gated inner pol s (Rename path target) ''rename'' [(''path'', AString path), (''to'', AString target)] \<and>
   gated inner pol s (Symlink target path) ''link'' [(''path'', AString path), (''to'', AString target)] \<and>
   gated inner pol s (Link target path) ''link'' [(''path'', AString path), (''to'', AString target)] \<and>
   gated inner pol s (Chmod path perm) ''chmod'' [(''path'', AString path)] \<and>
   gated inner pol s (Chtimes path atime mtime) ''chmod'' [(''path'', AString path)] \<and>
   gated inner pol s (Chown path uid gid follow) ''chmod'' [(''path'', AString path)] \<and>
   gated inner pol s (XattrSet path attr data) ''chmod'' [(''path'', AString path)] \<and>
   gated inner pol s (XattrRemove path attr) ''chmod'' [(''path'', AString path)] \<and>
   gated inner pol s (XattrGet path attr) ''stat'' [(''path'', AString path)] \<and>
   gated inner pol s (XattrList path) ''stat'' [(''path'', AString path)] \<and>
   gated inner pol s (Statfs path) ''stat'' [(''path'', AString path)] \<and>
   gated inner pol s (Truncate_file path n) ''write'' [(''path'', AString path)] \<and>
   gated inner pol s (TempFile path pattern) ''write'' [(''path'', AString path)] \<and>
   gated inner pol s (TempDir path pattern) ''write'' [(''path'', AString path)] \<and>
   gated inner pol s (Lock path shared block) ''write'' [(''path'', AString path)] \<and>
   gated inner pol s (Watch path wopts) ''watch'' [(''path'', AString path)] \<and>
   gated inner pol s (Open path opts)
     (if oo_Write opts \<or> oo_Append opts \<or> oo_Create opts \<or> oo_Truncate opts then ''write'' else ''read'')
     [(''path'', AString path)] \<and>
   gated inner pol s (Mmap path offset len writable) (if writable then ''write'' else ''read'')
     [(''path'', AString path)] \<and>
   permissioned inner pol (ResolvePath path) s = fileops_call inner None (ResolvePath path) s"
  by (intro conjI gated_gate_of) (simp_all add: permissioned_def fileops_call_def)

lemma file_gate_witness:
  "\<exists>d. permissioned (\<lambda>call n. (Inr () :: unit + unit, n + 1)) (PCompiled sample_policy)
     (ReadFile ''/etc/passwd'' :: file_call) (0 :: nat) = (Inl (Inl d), 0)"
proof -
  let ?a = "[(''path'', AString ''/etc/passwd'')]"
  have "Compiled_Check sample_policy ''fileops'' ''read'' ?a \<noteq> None"
    by code_simp
  moreover have "gated (\<lambda>call n. (Inr () :: unit + unit, n + 1)) (PCompiled sample_policy) (0 :: nat)
      (ReadFile ''/etc/passwd'') ''read'' ?a"
    by (rule file_gate [THEN conjunct1])
  ultimately show ?thesis unfolding gated_def by auto
qed

text \<open>The global disk caps bind three operations only: when a policy has no fileops scope, a
  file operation is allowed exactly when reading is not capped (for read) or writing is not
  capped (for write and mkdir); remove, rename, link, chmod and the others are always
  allowed.\<close>

theorem disk_caps_bind:
  assumes "scope_of c ''fileops'' = None"
  shows "Compiled_Check c ''fileops'' op args = None \<longleftrightarrow>
    (op = ''read'' \<longrightarrow> cap_allows c ''disk.read'') \<and>
    (op \<in> {''write'', ''mkdir''} \<longrightarrow> cap_allows c ''disk.write'')"
proof -
  have "Compiled_Check c ''fileops'' op args = check_caps c ''fileops'' op args (GlobalsFor ''fileops'' op)"
    using assms by (simp add: Compiled_Check_def split: option.splits)
  then show ?thesis by (auto simp: check_caps_iff GlobalsFor_def)
qed

section \<open>What the model shows\<close>

text \<open>A policy whose only rule is the global deny of disk writes refuses to write a file but
  lets it be removed: the operations remove, rename, link and chmod touch no cap.\<close>

definition no_disk_write :: Compiled where
  "no_disk_write = \<lparr> comp_name = ''nw'', comp_scopes = [(''global'', Some (Scope None
     \<lparr>Default = EffectAllow, Rules = [\<lparr>Allow = [], Deny = [''disk.write''], Where = []\<rparr>]\<rparr> None))],
     comp_limits = zero_Limits, hasPerExportRules = False \<rparr>"

lemma disk_write_cap_gap:
  "Compiled_CheckGlobal no_disk_write ''disk.write'' \<noteq> None \<and>
   Compiled_Check no_disk_write ''fileops'' ''write'' (path_arg ''/f'') \<noteq> None \<and>
   Compiled_Check no_disk_write ''fileops'' ''remove'' (path_arg ''/f'') = None \<and>
   Compiled_Check no_disk_write ''fileops'' ''rename'' [(''path'', AString ''/f''), (''to'', AString ''/g'')] = None \<and>
   Compiled_Check no_disk_write ''fileops'' ''chmod'' (path_arg ''/f'') = None"
  by code_simp

lemma disk_caps_bind_witness:
  "\<not> cap_allows no_disk_write ''disk.write'' \<and>
   Compiled_Check no_disk_write ''fileops'' ''remove'' (path_arg ''/f'') = None"
proof -
  have "scope_of no_disk_write ''fileops'' = None" "\<not> cap_allows no_disk_write ''disk.write''"
    by code_simp+
  then show ?thesis using disk_caps_bind by simp
qed

text \<open>A nil module subscope, which the rest of the package accepts, makes validation panic.\<close>

lemma nil_subscope_panics:
  "Validate (Some (zero_Profile\<lparr>prof_Scopes := Some [(''modules'',
     Some (Scope None zero_WordsBlock (Some [(''boru:math'', None)])))]\<rparr>)) = go_panics NilDereference"
  by code_simp

text \<open>Without a resolver the parent of a profile is ignored silently.\<close>

lemma nil_resolver_ignores_parent:
  "resolveChain 0 (Some sample_child) None gm_empty = Some (Inr sample_child) \<and> Extends sample_child \<noteq> []"
  by (simp add: resolveChain.simps sample_child_def)

text \<open>The empty string does match non-empty patterns, and a numeric predicate is truncated.\<close>

lemma empty_string_matches: "Glob ''*'' [] \<and> Glob ''**'' []"
  by code_simp

lemma numbers_truncate: "matchOne (AFloat (19 / 10)) (AInt64 1) \<and> \<not> matchOne (AInt64 10) (AInt64 9)"
  by code_simp

end
