(* ===== verification/Scalar_Compare.thy ===== *)
theory Scalar_Compare
  imports Floats "HOL-Library.Product_Lexorder"
begin

text \<open>
  The comparers of the scalar families (core/go/compare_scalar_behaviors.go): the shared
  prologue, the order of numbers across their four leaves, strings, booleans and atoms.
  A number is an int64, a float64, a big integer or a big decimal.  A finite float is its
  rational value, with the negative zero apart; a big decimal is the rational its
  plain-decimal text denotes, None when the text denotes no finite number.
\<close>

section \<open>Numbers\<close>

datatype gofloat = FNaN | FInf bool | FNegZero | FFin rat

datatype num_val = IntegerV int | FloatV gofloat | BigIntegerV int | BigDecimalV "rat option"

text \<open>An operand of a comparer: a bare type literal, a constraint, or a concrete value.\<close>

datatype ('n, 'a) operand = TypeLit 'n | DepOperand | Conc 'a

definition litVsConcreteOrder :: "('n, 'a) operand \<Rightarrow> ('n, 'a) operand \<Rightarrow> int option" where
  "litVsConcreteOrder a b =
    (case (a, b) of
       (TypeLit _, TypeLit _) \<Rightarrow> None
     | (TypeLit _, _) \<Rightarrow> Some (-1)
     | (_, TypeLit _) \<Rightarrow> Some 1
     | _ \<Rightarrow> None)"

text \<open>None: the family comparer goes on; Some None: no comparer applies; Some (Some c): decided.
  \<open>litVsLit\<close> orders two bare literals by their lattice nodes.\<close>

definition scalarCmpPrologue :: "('n \<Rightarrow> 'n \<Rightarrow> int) \<Rightarrow> ('n, 'a) operand \<Rightarrow> ('n, 'a) operand \<Rightarrow> int option option" where
  "scalarCmpPrologue litVsLit a b =
    (if a = DepOperand \<or> b = DepOperand then Some None
     else (case litVsConcreteOrder a b of
         Some c \<Rightarrow> Some (Some c)
       | None \<Rightarrow> (case (a, b) of
             (TypeLit m, TypeLit n) \<Rightarrow> Some (Some (litVsLit m n))
           | _ \<Rightarrow> None)))"

definition numIsBig :: "num_val \<Rightarrow> bool" where
  "numIsBig v = (case v of BigIntegerV _ \<Rightarrow> True | BigDecimalV _ \<Rightarrow> True | _ \<Rightarrow> False)"

definition toRatExact :: "num_val \<Rightarrow> rat option" where
  "toRatExact v =
    (case v of
       BigDecimalV d \<Rightarrow> d
     | BigIntegerV n \<Rightarrow> Some (of_int n)
     | FloatV f \<Rightarrow> (case f of FFin r \<Rightarrow> Some r | FNegZero \<Rightarrow> Some 0 | FNaN \<Rightarrow> None | FInf _ \<Rightarrow> None)
     | IntegerV n \<Rightarrow> Some (of_int n))"

definition isNegZeroFloat :: "num_val \<Rightarrow> bool" where
  "isNegZeroFloat v = (v = FloatV FNegZero)"

definition signedZeroOrder :: "num_val \<Rightarrow> num_val \<Rightarrow> int" where
  "signedZeroOrder a b =
    (let aNeg = isNegZeroFloat a; bNeg = isNegZeroFloat b in
     if aNeg = bNeg then 0 else if aNeg then -1 else 1)"

definition nonFiniteRank :: "num_val \<Rightarrow> int option" where
  "nonFiniteRank v =
    (case v of
       FloatV f \<Rightarrow> (case f of FNaN \<Rightarrow> Some 1 | FInf neg \<Rightarrow> (if neg then Some (-1) else Some 1) | _ \<Rightarrow> None)
     | _ \<Rightarrow> None)"

definition compareNonFiniteFloat :: "num_val \<Rightarrow> num_val \<Rightarrow> int option" where
  "compareNonFiniteFloat a b =
    (case nonFiniteRank a of
       Some r \<Rightarrow> Some r
     | None \<Rightarrow> (case nonFiniteRank b of Some r \<Rightarrow> Some (- r) | None \<Rightarrow> None))"

text \<open>The projection to float64; an int64 is rounded.\<close>

definition AsNumber :: "num_val \<Rightarrow> gofloat" where
  "AsNumber v = (case v of FloatV f \<Rightarrow> f | IntegerV n \<Rightarrow> FFin (fl (of_int n)) | _ \<Rightarrow> FFin 0)"

text \<open>The relation \<open><\<close> of float64.\<close>

fun go_less :: "gofloat \<Rightarrow> gofloat \<Rightarrow> bool" where
  "go_less FNaN _ = False"
| "go_less _ FNaN = False"
| "go_less (FInf neg) (FInf neg') = (neg \<and> \<not> neg')"
| "go_less (FInf neg) _ = neg"
| "go_less _ (FInf neg') = (\<not> neg')"
| "go_less FNegZero FNegZero = False"
| "go_less FNegZero (FFin s) = (0 < s)"
| "go_less (FFin r) FNegZero = (r < 0)"
| "go_less (FFin r) (FFin s) = (r < s)"

text \<open>\<open>big.Rat.Cmp\<close>.\<close>

definition rat_cmp :: "rat \<Rightarrow> rat \<Rightarrow> int" where
  "rat_cmp r s = (if r < s then -1 else if s < r then 1 else 0)"

definition numberCompare_values :: "num_val \<Rightarrow> num_val \<Rightarrow> int option" where
  "numberCompare_values a b =
    (if numIsBig a \<or> numIsBig b then
       (case compareNonFiniteFloat a b of
          Some r \<Rightarrow> Some r
        | None \<Rightarrow>
            (case (toRatExact a, toRatExact b) of
               (Some ar, Some br) \<Rightarrow>
                 (let c = rat_cmp ar br in if c \<noteq> 0 then Some c else Some (signedZeroOrder a b))
             | _ \<Rightarrow> None))
     else (case (a, b) of
         (IntegerV ai, IntegerV bi) \<Rightarrow> Some (if ai < bi then -1 else if ai > bi then 1 else 0)
       | _ \<Rightarrow>
           (let af = AsNumber a; bf = AsNumber b; aNaN = (af = FNaN); bNaN = (bf = FNaN) in
            if aNaN \<or> bNaN then Some (if aNaN \<and> bNaN then 0 else if aNaN then 1 else -1)
            else if go_less af bf then Some (-1)
            else if go_less bf af then Some 1
            else Some (signedZeroOrder a b))))"

definition numberCompare :: "('n \<Rightarrow> 'n \<Rightarrow> int) \<Rightarrow> ('n, num_val) operand \<Rightarrow> ('n, num_val) operand \<Rightarrow> int option" where
  "numberCompare litVsLit a b =
    (case scalarCmpPrologue litVsLit a b of
       Some r \<Rightarrow> r
     | None \<Rightarrow> (case (a, b) of (Conc x, Conc y) \<Rightarrow> numberCompare_values x y | _ \<Rightarrow> None))"

section \<open>Strings, booleans and atoms\<close>

definition stringCompare :: "('n \<Rightarrow> 'n \<Rightarrow> int) \<Rightarrow> ('n, string) operand \<Rightarrow> ('n, string) operand \<Rightarrow> int option" where
  "stringCompare litVsLit a b =
    (case scalarCmpPrologue litVsLit a b of
       Some r \<Rightarrow> r
     | None \<Rightarrow> (case (a, b) of (Conc x, Conc y) \<Rightarrow> Some (strings_Compare x y) | _ \<Rightarrow> None))"

definition booleanCompare :: "('n \<Rightarrow> 'n \<Rightarrow> int) \<Rightarrow> ('n, bool) operand \<Rightarrow> ('n, bool) operand \<Rightarrow> int option" where
  "booleanCompare litVsLit a b =
    (case scalarCmpPrologue litVsLit a b of
       Some r \<Rightarrow> r
     | None \<Rightarrow> (case (a, b) of
           (Conc x, Conc y) \<Rightarrow> Some (if x = y then 0 else if \<not> x then -1 else 1)
         | _ \<Rightarrow> None))"

definition atomCompare :: "('n \<Rightarrow> 'n \<Rightarrow> int) \<Rightarrow> ('n, string) operand \<Rightarrow> ('n, string) operand \<Rightarrow> int option" where
  "atomCompare litVsLit a b =
    (case scalarCmpPrologue litVsLit a b of
       Some r \<Rightarrow> r
     | None \<Rightarrow> (case (a, b) of (Conc x, Conc y) \<Rightarrow> Some (strings_Compare x y) | _ \<Rightarrow> None))"

section \<open>The order of numbers\<close>

text \<open>The place of a number in the total order: negative infinity, the finite numbers by value
  with the negative zero first among the zeros, positive infinity, NaN.\<close>

definition num_key :: "num_val \<Rightarrow> int \<times> rat \<times> int" where
  "num_key v =
    (case v of
       FloatV FNaN \<Rightarrow> (2, 0, 0)
     | FloatV (FInf neg) \<Rightarrow> (if neg then -1 else 1, 0, 0)
     | FloatV FNegZero \<Rightarrow> (0, 0, 0)
     | _ \<Rightarrow> (0, (case toRatExact v of Some r \<Rightarrow> r | None \<Rightarrow> 0), 1))"

definition three_way :: "'a :: linorder \<Rightarrow> 'a \<Rightarrow> int" where
  "three_way x y = (if x < y then -1 else if y < x then 1 else 0)"

text \<open>Sets of numbers on which no int64 is rounded: no floats in it, or every int64 is a float64;
  and every big decimal is finite.\<close>

definition exact_nums :: "num_val set \<Rightarrow> bool" where
  "exact_nums S \<longleftrightarrow> BigDecimalV None \<notin> S \<and>
    ((\<forall>f. FloatV f \<notin> S) \<or> (\<forall>n. IntegerV n \<in> S \<longrightarrow> fl (of_int n) = of_int n))"

lemma go_less_FFin [simp]:
  "go_less (FFin r) (FFin s) = (r < s)" "go_less (FFin r) (FInf neg) = (\<not> neg)" "go_less (FInf neg) (FFin r) = neg"
  "go_less FNegZero (FInf neg) = (\<not> neg)" "go_less (FInf neg) FNegZero = neg"
  by simp_all

lemma numberCompare_key:
  assumes "exact_nums S" "a \<in> S" "b \<in> S"
  shows "numberCompare_values a b = Some (three_way (num_key a) (num_key b))"
proof -
  have ints: "fl (of_int m) = of_int m" if "IntegerV m \<in> S" "FloatV f \<in> S" for m f
    using assms(1) that by (auto simp: exact_nums_def)
  have dec: "d \<noteq> None" if "BigDecimalV d \<in> S" for d using assms(1) that unfolding exact_nums_def by metis
  note defs = numberCompare_values_def three_way_def num_key_def numIsBig_def toRatExact_def compareNonFiniteFloat_def
    nonFiniteRank_def rat_cmp_def signedZeroOrder_def isNegZeroFloat_def AsNumber_def Let_def less_prod_def
  show ?thesis
  proof (cases a)
    case (IntegerV m)
    then show ?thesis using ints dec assms(2,3) by (cases b) (auto simp: defs split: gofloat.splits option.splits)
  next
    case (FloatV f)
    then show ?thesis using ints dec assms(2,3) by (cases b; cases f) (auto simp: defs split: gofloat.splits option.splits)
  next
    case (BigIntegerV m)
    then show ?thesis using ints dec assms(2,3) by (cases b) (auto simp: defs split: gofloat.splits option.splits)
  next
    case (BigDecimalV d)
    then show ?thesis using ints dec assms(2,3) by (cases b) (auto simp: defs split: gofloat.splits option.splits)
  qed
qed

text \<open>An int64 of at most 53 bits is a float64.\<close>

lemma bitlen_le: "n < 2 ^ m \<Longrightarrow> bitlen n \<le> int m"
proof (induction m arbitrary: n)
  case 0
  then show ?case by (subst bitlen.simps) simp
next
  case (Suc m)
  have "bitlen (n div 2) \<le> int m" by (rule Suc.IH) (use Suc.prems in simp)
  then show ?case by (subst bitlen.simps) simp
qed

lemma fl_pos_small:
  assumes "0 < n" "n < 2 ^ 53"
  shows "fl_pos (of_int n) = of_int n"
proof -
  have "bitlen 1 = 1" by (simp add: bitlen.simps)
  then have "ilog2 (of_int n) \<le> 52"
    using bitlen_le [of n 53] assms(2) by (simp add: ilog2_def Let_def)
  then obtain k where k: "ilog2 (of_int n) - 52 = - int k" by (metis diff_le_0_iff_le nonpos_int_cases)
  have "(of_int n :: rat) / pow2 (- int k) = of_int (n * 2 ^ k)" by (simp add: pow2_def)
  moreover have "round_half_even (of_int m) = m" for m by (simp add: round_half_even_def)
  ultimately have "fl_pos (of_int n) = of_int (n * 2 ^ k) * pow2 (- int k)"
    unfolding fl_pos_def k Let_def by metis
  then show ?thesis by (simp add: pow2_def)
qed

lemma fl_int_small:
  assumes "\<bar>n\<bar> \<le> 2 ^ 53"
  shows "fl (of_int n) = of_int n"
proof -
  have big: "fl_pos (2 ^ 53) = 2 ^ 53" by code_simp
  have "fl_pos (of_int m) = of_int m" if "0 < m" "m \<le> 2 ^ 53" for m :: int
    using fl_pos_small [of m] big that by (cases "m = 2 ^ 53") auto
  from this [of n] this [of "- n"] show ?thesis using assms by (simp add: fl_def)
qed

section \<open>Scalars of different families\<close>

datatype scalar = NumberS num_val | StringS string | BooleanS bool | AtomS string

text \<open>The rank of the builtin leaf type of a value (the declarations of theory Builtins).\<close>

definition scalar_rank :: "scalar \<Rightarrow> int" where
  "scalar_rank v =
    (case v of
       AtomS _ \<Rightarrow> 20100000000
     | BooleanS _ \<Rightarrow> 20200000000
     | NumberS n \<Rightarrow>
         (case n of IntegerV _ \<Rightarrow> 20310000000 | FloatV _ \<Rightarrow> 20320000000
          | BigIntegerV _ \<Rightarrow> 20330000000 | BigDecimalV _ \<Rightarrow> 20340000000)
     | StringS _ \<Rightarrow> 20400000000)"

text \<open>CompareValues on two concrete values of the builtin scalar leaves: the comparer of the lowest
  common ancestor is that of the family, or the one of the root Scalar, which orders by rank.
  Where the comparer of numbers declines, the root Scalar is asked too; two big decimals it
  declines are ordered by their renderings, which are left open (None).\<close>

definition rank_order :: "scalar \<Rightarrow> scalar \<Rightarrow> int" where
  "rank_order a b = (if scalar_rank a < scalar_rank b then -1 else if scalar_rank b < scalar_rank a then 1 else 0)"

definition CompareScalars :: "scalar \<Rightarrow> scalar \<Rightarrow> int option" where
  "CompareScalars a b =
    (case (a, b) of
       (NumberS x, NumberS y) \<Rightarrow>
         (case numberCompare (\<lambda>(_ :: unit) _. 0) (Conc x) (Conc y) of
            Some c \<Rightarrow> Some c
          | None \<Rightarrow> if rank_order a b = 0 then None else Some (rank_order a b))
     | (StringS x, StringS y) \<Rightarrow> stringCompare (\<lambda>(_ :: unit) _. 0) (Conc x) (Conc y)
     | (BooleanS x, BooleanS y) \<Rightarrow> booleanCompare (\<lambda>(_ :: unit) _. 0) (Conc x) (Conc y)
     | (AtomS x, AtomS y) \<Rightarrow> atomCompare (\<lambda>(_ :: unit) _. 0) (Conc x) (Conc y)
     | _ \<Rightarrow> Some (rank_order a b))"

definition exact_scalars :: "scalar set \<Rightarrow> bool" where
  "exact_scalars S \<longleftrightarrow> exact_nums {n. NumberS n \<in> S}"

definition scalar_key :: "scalar \<Rightarrow> int \<times> (int \<times> rat \<times> int) \<times> string" where
  "scalar_key v =
    (case v of
       AtomS s \<Rightarrow> (1, (0, 0, 0), s)
     | BooleanS b \<Rightarrow> (2, (if b then 1 else 0, 0, 0), [])
     | NumberS n \<Rightarrow> (3, num_key n, [])
     | StringS s \<Rightarrow> (4, (0, 0, 0), s))"

lemma concrete_prologue [simp]: "scalarCmpPrologue l (Conc x) (Conc y) = None"
  by (simp add: scalarCmpPrologue_def litVsConcreteOrder_def)

lemma CompareScalars_key:
  assumes "exact_scalars S" "a \<in> S" "b \<in> S"
  shows "CompareScalars a b = Some (three_way (scalar_key a) (scalar_key b))"
proof -
  have nums: "numberCompare_values x y = Some (three_way (num_key x) (num_key y))"
    if "a = NumberS x" "b = NumberS y" for x y
    by (rule numberCompare_key) (use assms that in \<open>auto simp: exact_scalars_def\<close>)
  note defs = CompareScalars_def scalar_key_def rank_order_def scalar_rank_def three_way_def less_prod_def strings_Compare_def
    numberCompare_def stringCompare_def booleanCompare_def atomCompare_def
  show ?thesis
    by (cases a; cases b) (auto simp: defs nums split: num_val.splits)
qed

text \<open>In particular the scalars whose integers have at most 53 bits.\<close>

definition small_scalars :: "scalar set" where
  "small_scalars = {v. v \<noteq> NumberS (BigDecimalV None) \<and> (\<forall>n. v = NumberS (IntegerV n) \<longrightarrow> \<bar>n\<bar> \<le> 2 ^ 53)}"

lemma small_exact: "exact_scalars small_scalars"
  using fl_int_small by (auto simp: exact_scalars_def exact_nums_def small_scalars_def)

lemma exact_subset: "exact_scalars S \<Longrightarrow> T \<subseteq> S \<Longrightarrow> exact_scalars T"
  by (auto simp: exact_scalars_def exact_nums_def)

section \<open>Where the order of numbers is none\<close>

text \<open>An int64 of more than 53 bits is rounded when it meets a float, and only then: two different
  integers tie with one float.\<close>

lemma rounded_ties:
  "numberCompare_values (IntegerV (2 ^ 53)) (FloatV (FFin (2 ^ 53))) = Some 0 \<and>
   numberCompare_values (FloatV (FFin (2 ^ 53))) (IntegerV (2 ^ 53 + 1)) = Some 0 \<and>
   numberCompare_values (IntegerV (2 ^ 53)) (IntegerV (2 ^ 53 + 1)) = Some (-1)"
  by code_simp

end
