(* ===== verification/Dep_Scalars.thy ===== *)
theory Dep_Scalars
  imports Scalar_Compare
begin

text \<open>
  Dependent scalars (core/go/depscalar.go, and unifyDepScalar of core/go/unify_dep.go):
  a scalar base type with a lower and an upper bound.  Construction, the membership test,
  intersection, complement, the constructor words and unification.  Two values are
  compared by CompareScalars.
\<close>

section \<open>Bases\<close>

text \<open>The scalar types that can carry a constraint; \<open>canonicalBaseType\<close> of the type of a value.\<close>

datatype base = BInteger | BFloat | BNumber | BString | BBoolean | BAtom

definition canonicalBaseType :: "scalar \<Rightarrow> base" where
  "canonicalBaseType v =
    (case v of
       NumberS n \<Rightarrow> (case n of IntegerV _ \<Rightarrow> BInteger | FloatV _ \<Rightarrow> BFloat | _ \<Rightarrow> BNumber)
     | StringS _ \<Rightarrow> BString
     | BooleanS _ \<Rightarrow> BBoolean
     | AtomS _ \<Rightarrow> BAtom)"

text \<open>The type of the value conforms to the base.\<close>

definition conforms_base :: "scalar \<Rightarrow> base \<Rightarrow> bool" where
  "conforms_base v t =
    (case v of NumberS _ \<Rightarrow> t = canonicalBaseType v \<or> t = BNumber | _ \<Rightarrow> t = canonicalBaseType v)"

section \<open>Bounds\<close>

datatype DepKind = DepGT | DepGTE | DepLT | DepLTE | DepOther

record DepBound =
  Inclusive :: bool
  Bound_Value :: scalar

record DepScalarInfo =
  Lo :: "DepBound option"
  Hi :: "DepBound option"

definition kindToBound :: "DepKind \<Rightarrow> scalar \<Rightarrow> (DepBound \<times> bool) option" where
  "kindToBound kind v =
    (case kind of
       DepGT \<Rightarrow> Some (\<lparr> Inclusive = False, Bound_Value = v \<rparr>, True)
     | DepGTE \<Rightarrow> Some (\<lparr> Inclusive = True, Bound_Value = v \<rparr>, True)
     | DepLT \<Rightarrow> Some (\<lparr> Inclusive = False, Bound_Value = v \<rparr>, False)
     | DepLTE \<Rightarrow> Some (\<lparr> Inclusive = True, Bound_Value = v \<rparr>, False)
     | DepOther \<Rightarrow> None)"

definition BoundToKind :: "DepBound option \<Rightarrow> bool \<Rightarrow> DepKind" where
  "BoundToKind b lower =
    (case b of
       None \<Rightarrow> DepOther
     | Some b \<Rightarrow>
         if lower then (if Inclusive b then DepGTE else DepGT)
         else (if Inclusive b then DepLTE else DepLT))"

text \<open>A constraint over its base; None for a kind that is no single bound.\<close>

definition NewDepScalar :: "DepKind \<Rightarrow> scalar \<Rightarrow> (base \<times> DepScalarInfo) option" where
  "NewDepScalar kind bound =
    (case kindToBound kind bound of
       None \<Rightarrow> None
     | Some (db, lower) \<Rightarrow>
         Some (canonicalBaseType bound,
           if lower then \<lparr> Lo = Some db, Hi = None \<rparr> else \<lparr> Lo = None, Hi = Some db \<rparr>))"

definition depBoundCheck :: "DepBound \<Rightarrow> bool \<Rightarrow> scalar \<Rightarrow> bool" where
  "depBoundCheck b lower v =
    (case CompareScalars v (Bound_Value b) of
       None \<Rightarrow> False
     | Some cmp \<Rightarrow>
         if lower then (if Inclusive b then cmp \<ge> 0 else cmp > 0)
         else (if Inclusive b then cmp \<le> 0 else cmp < 0))"

definition depScalarCheck :: "DepScalarInfo \<Rightarrow> scalar \<Rightarrow> bool" where
  "depScalarCheck info v =
    (if Lo info = None \<and> Hi info = None then False
     else if (case Lo info of Some b \<Rightarrow> \<not> depBoundCheck b True v | None \<Rightarrow> False) then False
     else if (case Hi info of Some b \<Rightarrow> \<not> depBoundCheck b False v | None \<Rightarrow> False) then False
     else True)"

section \<open>Intersection\<close>

definition tightenSameSide :: "DepBound \<Rightarrow> DepBound \<Rightarrow> bool \<Rightarrow> DepBound option" where
  "tightenSameSide a b lower =
    (case CompareScalars (Bound_Value a) (Bound_Value b) of
       None \<Rightarrow> None
     | Some cmp \<Rightarrow>
         if cmp = 0 then
           (let strict = (\<not> Inclusive a \<or> \<not> Inclusive b)
            in Some \<lparr> Inclusive = \<not> strict, Bound_Value = Bound_Value a \<rparr>)
         else if lower \<and> cmp > 0 \<or> \<not> lower \<and> cmp < 0 then Some a
         else Some b)"

text \<open>The bound of one side of the intersection.\<close>

definition combine_side :: "DepBound option \<Rightarrow> DepBound option \<Rightarrow> bool \<Rightarrow> DepBound option option" where
  "combine_side a b lower =
    (case (a, b) of
       (None, _) \<Rightarrow> Some b
     | (_, None) \<Rightarrow> Some a
     | (Some x, Some y) \<Rightarrow> map_option Some (tightenSameSide x y lower))"

definition combineDepScalars :: "DepScalarInfo \<Rightarrow> DepScalarInfo \<Rightarrow> DepScalarInfo option" where
  "combineDepScalars a b =
    (case combine_side (Lo a) (Lo b) True of
       None \<Rightarrow> None
     | Some lo \<Rightarrow>
         (case combine_side (Hi a) (Hi b) False of
            None \<Rightarrow> None
          | Some hi \<Rightarrow>
              (case (lo, hi) of
                 (Some l, Some h) \<Rightarrow>
                   (case CompareScalars (Bound_Value l) (Bound_Value h) of
                      None \<Rightarrow> None
                    | Some cmp \<Rightarrow>
                        if cmp > 0 then None
                        else if cmp = 0 \<and> (\<not> Inclusive l \<or> \<not> Inclusive h) then None
                        else Some \<lparr> Lo = lo, Hi = hi \<rparr>)
               | _ \<Rightarrow> Some \<lparr> Lo = lo, Hi = hi \<rparr>)))"

section \<open>Complement\<close>

definition flipBound :: "DepBound \<Rightarrow> DepBound" where
  "flipBound b = \<lparr> Inclusive = \<not> Inclusive b, Bound_Value = Bound_Value b \<rparr>"

text \<open>The whole base, one constraint, or the union of two.\<close>

datatype complement = WholeBase | OneDep DepScalarInfo | Union DepScalarInfo DepScalarInfo

definition complementWithinBase :: "DepScalarInfo \<Rightarrow> complement" where
  "complementWithinBase info =
    (case (Lo info, Hi info) of
       (Some l, Some h) \<Rightarrow>
         Union \<lparr> Lo = None, Hi = Some (flipBound l) \<rparr> \<lparr> Lo = Some (flipBound h), Hi = None \<rparr>
     | (Some l, None) \<Rightarrow> OneDep \<lparr> Lo = None, Hi = Some (flipBound l) \<rparr>
     | (None, Some h) \<Rightarrow> OneDep \<lparr> Lo = Some (flipBound h), Hi = None \<rparr>
     | (None, None) \<Rightarrow> WholeBase)"

definition in_complement :: "complement \<Rightarrow> scalar \<Rightarrow> bool" where
  "in_complement c v =
    (case c of
       WholeBase \<Rightarrow> True
     | OneDep d \<Rightarrow> depScalarCheck d v
     | Union d e \<Rightarrow> depScalarCheck d v \<or> depScalarCheck e v)"

section \<open>The constructor words and unification\<close>

datatype dep_error = ConcreteType | UnsupportedBase | BoundMismatch | LowMismatch | HighMismatch | CompareFailed

datatype between_result = NeverType | BetweenDep base DepScalarInfo

text \<open>The type argument: a concrete value, or a type literal with the base it canonicalises to.\<close>

datatype type_arg = ConcreteArg | TypeArg "base option"

definition BetweenHandler :: "scalar \<Rightarrow> scalar \<Rightarrow> type_arg \<Rightarrow> dep_error + between_result" where
  "BetweenHandler lo hi typ =
    (case typ of
       ConcreteArg \<Rightarrow> Inl ConcreteType
     | TypeArg None \<Rightarrow> Inl UnsupportedBase
     | TypeArg (Some base) \<Rightarrow>
         if \<not> conforms_base lo base then Inl LowMismatch
         else if \<not> conforms_base hi base then Inl HighMismatch
         else (case CompareScalars lo hi of
             None \<Rightarrow> Inl CompareFailed
           | Some cmp \<Rightarrow>
               if cmp > 0 then Inr NeverType
               else Inr (BetweenDep base \<lparr> Lo = Some \<lparr> Inclusive = True, Bound_Value = lo \<rparr>,
                 Hi = Some \<lparr> Inclusive = True, Bound_Value = hi \<rparr> \<rparr>)))"

text \<open>The handler of gt, gte, lt and lte on a bound and a type; the base of the result is that of the
  bound, which narrows Number to the leaf.\<close>

definition dep_sig_handler :: "DepKind \<Rightarrow> scalar \<Rightarrow> type_arg \<Rightarrow> dep_error + (base \<times> DepScalarInfo) option" where
  "dep_sig_handler kind bound typ =
    (case typ of
       ConcreteArg \<Rightarrow> Inl ConcreteType
     | TypeArg None \<Rightarrow> Inl UnsupportedBase
     | TypeArg (Some base) \<Rightarrow>
         if \<not> conforms_base bound base then Inl BoundMismatch else Inr (NewDepScalar kind bound))"

datatype unify_error = BasesDiffer | EmptyIntersection | BaseMismatch | OutOfBounds

definition unify_deps :: "base \<times> DepScalarInfo \<Rightarrow> base \<times> DepScalarInfo \<Rightarrow> unify_error + (base \<times> DepScalarInfo)" where
  "unify_deps a b =
    (if fst a \<noteq> fst b then Inl BasesDiffer
     else (case combineDepScalars (snd a) (snd b) of
         None \<Rightarrow> Inl EmptyIntersection
       | Some c \<Rightarrow> Inr (fst a, c)))"

definition unify_dep_value :: "base \<times> DepScalarInfo \<Rightarrow> scalar \<Rightarrow> unify_error + scalar" where
  "unify_dep_value dep v =
    (if \<not> conforms_base v (fst dep) then Inl BaseMismatch
     else if depScalarCheck (snd dep) v then Inr v
     else Inl OutOfBounds)"

end
