(* ===== verification/Dep_Props.thy ===== *)
theory Dep_Props
  imports Dep_Scalars
begin

text \<open>
  Properties of scalar comparison and of dependent scalars.
\<close>

section \<open>Bounds as order relations on keys\<close>

definition bounds :: "DepScalarInfo \<Rightarrow> scalar set" where
  "bounds d = Bound_Value ` (set_option (Lo d) \<union> set_option (Hi d))"

definition above :: "DepBound option \<Rightarrow> scalar \<Rightarrow> bool" where
  "above b v \<longleftrightarrow> (case b of None \<Rightarrow> True
    | Some b \<Rightarrow> if Inclusive b then scalar_key (Bound_Value b) \<le> scalar_key v else scalar_key (Bound_Value b) < scalar_key v)"

definition below :: "DepBound option \<Rightarrow> scalar \<Rightarrow> bool" where
  "below b v \<longleftrightarrow> (case b of None \<Rightarrow> True
    | Some b \<Rightarrow> if Inclusive b then scalar_key v \<le> scalar_key (Bound_Value b) else scalar_key v < scalar_key (Bound_Value b))"

lemma depBoundCheck_key:
  assumes "exact_scalars S" "v \<in> S" "Bound_Value b \<in> S"
  shows "depBoundCheck b lower v = (if lower then above (Some b) v else below (Some b) v)"
  using CompareScalars_key [OF assms] by (auto simp: depBoundCheck_def above_def below_def three_way_def)

lemma depScalarCheck_key:
  assumes "exact_scalars S" "v \<in> S" "bounds d \<subseteq> S"
  shows "depScalarCheck d v \<longleftrightarrow> (Lo d \<noteq> None \<or> Hi d \<noteq> None) \<and> above (Lo d) v \<and> below (Hi d) v"
proof (cases "Lo d"; cases "Hi d")
  fix l h assume d: "Lo d = Some l" "Hi d = Some h"
  then have "Bound_Value l \<in> S" "Bound_Value h \<in> S" using assms(3) by (auto simp: bounds_def)
  then show ?thesis using d depBoundCheck_key [OF assms(1,2)] by (simp add: depScalarCheck_def)
next
  fix l assume d: "Lo d = Some l" "Hi d = None"
  then have "Bound_Value l \<in> S" using assms(3) by (auto simp: bounds_def)
  then show ?thesis using d depBoundCheck_key [OF assms(1,2)] by (simp add: depScalarCheck_def below_def)
next
  fix h assume d: "Lo d = None" "Hi d = Some h"
  then have "Bound_Value h \<in> S" using assms(3) by (auto simp: bounds_def)
  then show ?thesis using d depBoundCheck_key [OF assms(1,2)] by (simp add: depScalarCheck_def above_def)
qed (simp add: depScalarCheck_def)

text \<open>The tighter of two bounds is their conjunction.\<close>

lemma tighten_key:
  assumes "exact_scalars S" "Bound_Value a \<in> S" "Bound_Value b \<in> S"
  shows "\<exists>t. tightenSameSide a b lower = Some t \<and> Bound_Value t \<in> {Bound_Value a, Bound_Value b} \<and>
    (if lower then above (Some t) v \<longleftrightarrow> above (Some a) v \<and> above (Some b) v
     else below (Some t) v \<longleftrightarrow> below (Some a) v \<and> below (Some b) v)"
  using CompareScalars_key [OF assms]
  by (auto simp: tightenSameSide_def three_way_def above_def below_def Let_def not_less)

lemma combine_side_key:
  assumes "exact_scalars S" "Bound_Value ` (set_option a \<union> set_option b) \<subseteq> S"
  shows "\<exists>t. combine_side a b lower = Some t \<and> Bound_Value ` set_option t \<subseteq> S \<and> (t = None \<longleftrightarrow> a = None \<and> b = None) \<and>
    (if lower then above t v \<longleftrightarrow> above a v \<and> above b v else below t v \<longleftrightarrow> below a v \<and> below b v)"
proof (cases "a = None \<or> b = None")
  case True
  then show ?thesis using assms(2) by (cases a; cases b) (auto simp: combine_side_def above_def below_def)
next
  case False
  then obtain x y where xy: "a = Some x" "b = Some y" by auto
  then have "Bound_Value x \<in> S" "Bound_Value y \<in> S" using assms(2) by auto
  from tighten_key [OF assms(1) this, of lower v] show ?thesis using xy \<open>Bound_Value x \<in> S\<close> \<open>Bound_Value y \<in> S\<close>
    by (auto simp: combine_side_def)
qed

text \<open>No value lies between two bounds that exclude each other.\<close>

lemma exclusive_bounds:
  assumes "above (Some l) v" "below (Some h) v"
  shows "scalar_key (Bound_Value l) \<le> scalar_key (Bound_Value h) \<and>
    (scalar_key (Bound_Value l) = scalar_key (Bound_Value h) \<longrightarrow> Inclusive l \<and> Inclusive h)"
  using assms by (auto simp: above_def below_def split: if_splits)

definition populated :: "DepScalarInfo \<Rightarrow> bool" where
  "populated d \<longleftrightarrow> Lo d \<noteq> None \<or> Hi d \<noteq> None"

lemma combine_key:
  assumes S: "exact_scalars S" "v \<in> S" "bounds a \<subseteq> S" "bounds b \<subseteq> S" and p: "populated a" "populated b"
  shows "(case combineDepScalars a b of Some c \<Rightarrow> depScalarCheck c v | None \<Rightarrow> False)
    \<longleftrightarrow> depScalarCheck a v \<and> depScalarCheck b v"
proof -
  have sub: "Bound_Value ` (set_option (Lo a) \<union> set_option (Lo b)) \<subseteq> S"
    "Bound_Value ` (set_option (Hi a) \<union> set_option (Hi b)) \<subseteq> S"
    using S(3,4) by (auto simp: bounds_def)
  obtain lo where lo: "combine_side (Lo a) (Lo b) True = Some lo" "Bound_Value ` set_option lo \<subseteq> S"
    "lo = None \<longleftrightarrow> Lo a = None \<and> Lo b = None" "above lo v \<longleftrightarrow> above (Lo a) v \<and> above (Lo b) v"
    using combine_side_key [OF S(1) sub(1), of True v] unfolding if_True by blast
  obtain hi where hi: "combine_side (Hi a) (Hi b) False = Some hi" "Bound_Value ` set_option hi \<subseteq> S"
    "hi = None \<longleftrightarrow> Hi a = None \<and> Hi b = None" "below hi v \<longleftrightarrow> below (Hi a) v \<and> below (Hi b) v"
    using combine_side_key [OF S(1) sub(2), of False v] unfolding if_False by blast
  let ?c = "\<lparr> Lo = lo, Hi = hi \<rparr>"
  have "bounds ?c \<subseteq> S" using lo(2) hi(2) by (auto simp: bounds_def)
  then have c: "depScalarCheck ?c v \<longleftrightarrow> depScalarCheck a v \<and> depScalarCheck b v"
    using depScalarCheck_key [OF S(1,2)] S(3,4) p lo(3,4) hi(3,4) by (auto simp: populated_def)
  show ?thesis
  proof (cases lo; cases hi)
    fix l h assume lh: "lo = Some l" "hi = Some h"
    then have "Bound_Value l \<in> S" "Bound_Value h \<in> S" using lo(2) hi(2) by auto
    then have cmp: "CompareScalars (Bound_Value l) (Bound_Value h)
        = Some (three_way (scalar_key (Bound_Value l)) (scalar_key (Bound_Value h)))"
      by (rule CompareScalars_key [OF S(1)])
    have "\<not> depScalarCheck ?c v" if "scalar_key (Bound_Value l) > scalar_key (Bound_Value h)
        \<or> scalar_key (Bound_Value l) = scalar_key (Bound_Value h) \<and> (\<not> Inclusive l \<or> \<not> Inclusive h)"
      using that exclusive_bounds [of l v h] depScalarCheck_key [OF S(1,2) \<open>bounds ?c \<subseteq> S\<close>] lh by (auto simp: not_less)
    then show ?thesis using lh lo(1) hi(1) cmp c by (auto simp: combineDepScalars_def three_way_def split: if_splits)
  qed (use lo(1) hi(1) c in \<open>simp_all add: combineDepScalars_def\<close>)
qed

section \<open>The properties\<close>



text \<open>C36: Unifying two constraints over one base, each with at least one bound, is intersection: a value satisfies the result exactly
  when it satisfies both, and when unification fails no value does.  Same-side bounds tighten,
  the strict form winning a tie.  This holds where comparisons are exact: among the value and the
  bounds no big decimal is infinite or NaN, and where floats occur every integer among them is one
  a float64 represents (as all up to 2 ^ 53 are).  The result may be satisfied by no value
  although unification does not fail; see the divergences below.\<close>

theorem unify_deps_meets:
  assumes "exact_scalars (insert v (bounds (snd a) \<union> bounds (snd b)))" "populated (snd a)" "populated (snd b)" "fst a = fst b"
  shows "(case unify_deps a b of Inr c \<Rightarrow> unify_dep_value c v = Inr v | Inl _ \<Rightarrow> False)
    \<longleftrightarrow> unify_dep_value a v = Inr v \<and> unify_dep_value b v = Inr v"
proof -
  have "(case combineDepScalars (snd a) (snd b) of Some c \<Rightarrow> depScalarCheck c v | None \<Rightarrow> False)
    \<longleftrightarrow> depScalarCheck (snd a) v \<and> depScalarCheck (snd b) v"
    by (rule combine_key [OF assms(1) _ _ _ assms(2,3)]) auto
  then show ?thesis
    using assms(4) by (auto simp: unify_deps_def unify_dep_value_def split: option.splits)
qed

definition int_dep :: "DepKind \<Rightarrow> int \<Rightarrow> base \<times> DepScalarInfo" where
  "int_dep k n = the (NewDepScalar k (NumberS (IntegerV n)))"

lemma unify_deps_meets_witness:
  "(case unify_deps (int_dep DepGT 5) (int_dep DepLTE 10) of
      Inr c \<Rightarrow> unify_dep_value c (NumberS (IntegerV 10)) = Inr (NumberS (IntegerV 10)) | Inl _ \<Rightarrow> False)"
proof -
  have d: "int_dep DepGT 5 = (BInteger, \<lparr> Lo = Some \<lparr> Inclusive = False, Bound_Value = NumberS (IntegerV 5) \<rparr>, Hi = None \<rparr>)"
    "int_dep DepLTE 10 = (BInteger, \<lparr> Lo = None, Hi = Some \<lparr> Inclusive = True, Bound_Value = NumberS (IntegerV 10) \<rparr> \<rparr>)"
    by (simp_all add: int_dep_def NewDepScalar_def kindToBound_def canonicalBaseType_def)
  have e: "exact_scalars (insert (NumberS (IntegerV 10)) (bounds (snd (int_dep DepGT 5)) \<union> bounds (snd (int_dep DepLTE 10))))"
    by (rule exact_subset [OF small_exact]) (auto simp: d bounds_def small_scalars_def)
  have m: "unify_dep_value (int_dep DepGT 5) (NumberS (IntegerV 10)) = Inr (NumberS (IntegerV 10))"
    "unify_dep_value (int_dep DepLTE 10) (NumberS (IntegerV 10)) = Inr (NumberS (IntegerV 10))"
    by (simp_all add: d) (code_simp, code_simp)
  show ?thesis
    using unify_deps_meets [OF e] m by (simp add: populated_def d)
qed

text \<open>The complement of a constraint within its base is its set complement: a value of the base
  belongs to it exactly when it does not satisfy the constraint.\<close>

theorem complement_exact:
  assumes "exact_scalars (insert v (bounds d))"
  shows "in_complement (complementWithinBase d) v \<longleftrightarrow> \<not> depScalarCheck d v"
proof -
  let ?S = "insert v (bounds d)"
  have v: "v \<in> ?S" by simp
  have flip: "above (Some (flipBound b)) v \<longleftrightarrow> \<not> below (Some b) v" "below (Some (flipBound b)) v \<longleftrightarrow> \<not> above (Some b) v" for b
    by (auto simp: above_def below_def flipBound_def)
  have none: "above None v" "below None v" by (simp_all add: above_def below_def)
  have d: "depScalarCheck d v \<longleftrightarrow> (Lo d \<noteq> None \<or> Hi d \<noteq> None) \<and> above (Lo d) v \<and> below (Hi d) v"
    by (rule depScalarCheck_key [OF assms v]) auto
  have lo: "depScalarCheck \<lparr> Lo = None, Hi = Some (flipBound l) \<rparr> v \<longleftrightarrow> \<not> above (Some l) v" if "Lo d = Some l" for l
    using depScalarCheck_key [OF assms v, of "\<lparr> Lo = None, Hi = Some (flipBound l) \<rparr>"] that flip none
    by (auto simp: bounds_def flipBound_def)
  have hi: "depScalarCheck \<lparr> Lo = Some (flipBound h), Hi = None \<rparr> v \<longleftrightarrow> \<not> below (Some h) v" if "Hi d = Some h" for h
    using depScalarCheck_key [OF assms v, of "\<lparr> Lo = Some (flipBound h), Hi = None \<rparr>"] that flip none
    by (auto simp: bounds_def flipBound_def)
  show ?thesis
    using d lo hi none by (cases "Lo d"; cases "Hi d") (auto simp: complementWithinBase_def in_complement_def)
qed

lemma complement_exact_witness:
  "in_complement (complementWithinBase (snd (int_dep DepGT 5))) (NumberS (IntegerV 5))
    \<longleftrightarrow> \<not> depScalarCheck (snd (int_dep DepGT 5)) (NumberS (IntegerV 5))"
proof (rule complement_exact, rule exact_subset [OF small_exact])
  show "insert (NumberS (IntegerV 5)) (bounds (snd (int_dep DepGT 5))) \<subseteq> small_scalars"
    by (auto simp: int_dep_def NewDepScalar_def kindToBound_def bounds_def small_scalars_def)
qed

text \<open>The word between builds the closed interval: it fails on a type argument without a base and on
  a bound outside the base; otherwise the result is Never when the bounds cross and else admits
  exactly the values of the base from the low to the high bound.\<close>

theorem between_interval:
  assumes "exact_scalars {lo, hi, v}"
  shows "case BetweenHandler lo hi typ of
      Inl e \<Rightarrow> typ = ConcreteArg \<or> typ = TypeArg None \<or>
        (\<exists>t. typ = TypeArg (Some t) \<and> \<not> (conforms_base lo t \<and> conforms_base hi t))
    | Inr NeverType \<Rightarrow> scalar_key hi < scalar_key lo
    | Inr (BetweenDep t d) \<Rightarrow> typ = TypeArg (Some t) \<and> scalar_key lo \<le> scalar_key hi \<and>
        (unify_dep_value (t, d) v = Inr v \<longleftrightarrow>
          conforms_base v t \<and> scalar_key lo \<le> scalar_key v \<and> scalar_key v \<le> scalar_key hi)"
proof -
  let ?d = "\<lparr> Lo = Some \<lparr> Inclusive = True, Bound_Value = lo \<rparr>, Hi = Some \<lparr> Inclusive = True, Bound_Value = hi \<rparr> \<rparr>"
  have "depScalarCheck ?d v \<longleftrightarrow> scalar_key lo \<le> scalar_key v \<and> scalar_key v \<le> scalar_key hi"
    using depScalarCheck_key [OF assms, of v ?d] by (simp add: bounds_def above_def below_def)
  moreover have "CompareScalars lo hi = Some (three_way (scalar_key lo) (scalar_key hi))"
    by (rule CompareScalars_key [OF assms]) auto
  ultimately show ?thesis
    by (auto simp: BetweenHandler_def three_way_def unify_dep_value_def not_less split: type_arg.split option.split)
qed

lemma between_interval_witness:
  "case BetweenHandler (NumberS (IntegerV 1)) (NumberS (IntegerV 9)) (TypeArg (Some BInteger)) of
      Inr (BetweenDep t d) \<Rightarrow> unify_dep_value (t, d) (NumberS (IntegerV 9)) = Inr (NumberS (IntegerV 9))
    | _ \<Rightarrow> False"
proof -
  have "exact_scalars {NumberS (IntegerV 1), NumberS (IntegerV 9), NumberS (IntegerV 9)}"
    by (rule exact_subset [OF small_exact]) (auto simp: small_scalars_def)
  note interval = between_interval [OF this, of "TypeArg (Some BInteger)"]
  have b: "BetweenHandler (NumberS (IntegerV 1)) (NumberS (IntegerV 9)) (TypeArg (Some BInteger))
      = Inr (BetweenDep BInteger \<lparr> Lo = Some \<lparr> Inclusive = True, Bound_Value = NumberS (IntegerV 1) \<rparr>,
          Hi = Some \<lparr> Inclusive = True, Bound_Value = NumberS (IntegerV 9) \<rparr> \<rparr>)" by code_simp
  show ?thesis
    using interval unfolding b
    by (simp add: conforms_base_def canonicalBaseType_def scalar_key_def num_key_def toRatExact_def)
qed

section \<open>Divergences\<close>

text \<open>The intersection of the integers above 5 with those below 6 has no member but is not refused.\<close>

lemma empty_interval_kept:
  "\<exists>d. combineDepScalars (snd (int_dep DepGT 5)) (snd (int_dep DepLT 6)) = Some d \<and>
    \<not> (\<exists>n. \<bar>n\<bar> \<le> 2 ^ 53 \<and> depScalarCheck d (NumberS (IntegerV n)))"
proof -
  have c: "combineDepScalars (snd (int_dep DepGT 5)) (snd (int_dep DepLT 6))
      = Some \<lparr> Lo = Some \<lparr> Inclusive = False, Bound_Value = NumberS (IntegerV 5) \<rparr>,
               Hi = Some \<lparr> Inclusive = False, Bound_Value = NumberS (IntegerV 6) \<rparr> \<rparr>" by code_simp
  show ?thesis unfolding c
    by (auto simp: depScalarCheck_def depBoundCheck_def CompareScalars_def numberCompare_def numberCompare_values_def
        numIsBig_def split: if_splits)
qed

end
