(* ===== verification/Go_Runes.thy ===== *)
theory Go_Runes
  imports Floats "HOL-Library.Signed_Division"
begin

text \<open>
  What the terminal code uses of the Go language on text and machine integers:
  the code points of a byte string as \<open>range\<close> yields them (package unicode/utf8),
  the bytes of a code point, 64-bit products and quotients, and errors as the
  left side of a sum.
\<close>

section \<open>UTF-8\<close>

abbreviation byte_val :: "char \<Rightarrow> int" where "byte_val \<equiv> of_char"

definition byte_of :: "int \<Rightarrow> char" where "byte_of n = char_of n"

definition cont_byte :: "char \<Rightarrow> bool" where
  "cont_byte c = (0x80 \<le> byte_val c \<and> byte_val c \<le> 0xBF)"

definition RuneError :: int where "RuneError = 0xFFFD"

text \<open>The bytes a second byte may have after a first one.\<close>

definition second_ok :: "int \<Rightarrow> char \<Rightarrow> bool" where
  "second_ok a c =
    (if a = 0xE0 then 0xA0 \<le> byte_val c \<and> byte_val c \<le> 0xBF
     else if a = 0xED then 0x80 \<le> byte_val c \<and> byte_val c \<le> 0x9F
     else if a = 0xF0 then 0x90 \<le> byte_val c \<and> byte_val c \<le> 0xBF
     else if a = 0xF4 then 0x80 \<le> byte_val c \<and> byte_val c \<le> 0x8F
     else cont_byte c)"

text \<open>The first code point of a string and the number of its bytes.\<close>

definition DecodeRune :: "string \<Rightarrow> int \<times> nat" where
  "DecodeRune s =
    (case s of
       [] \<Rightarrow> (RuneError, 0)
     | c # cs \<Rightarrow>
         let a = byte_val c in
         if a < 0x80 then (a, 1)
         else if 0xC2 \<le> a \<and> a \<le> 0xDF then
           (case cs of
              c1 # _ \<Rightarrow> if second_ok a c1 then ((a - 0xC0) * 64 + (byte_val c1 - 0x80), 2) else (RuneError, 1)
            | [] \<Rightarrow> (RuneError, 1))
         else if 0xE0 \<le> a \<and> a \<le> 0xEF then
           (case cs of
              c1 # c2 # _ \<Rightarrow>
                if second_ok a c1 \<and> cont_byte c2
                then ((a - 0xE0) * 4096 + (byte_val c1 - 0x80) * 64 + (byte_val c2 - 0x80), 3) else (RuneError, 1)
            | _ \<Rightarrow> (RuneError, 1))
         else if 0xF0 \<le> a \<and> a \<le> 0xF4 then
           (case cs of
              c1 # c2 # c3 # _ \<Rightarrow>
                if second_ok a c1 \<and> cont_byte c2 \<and> cont_byte c3
                then ((a - 0xF0) * 262144 + (byte_val c1 - 0x80) * 4096 + (byte_val c2 - 0x80) * 64 + (byte_val c3 - 0x80), 4)
                else (RuneError, 1)
            | _ \<Rightarrow> (RuneError, 1))
         else (RuneError, 1))"

text \<open>The bytes of a code point, as the conversion \<open>string(r)\<close> makes them.\<close>

definition rune_string :: "int \<Rightarrow> string" where
  "rune_string r =
    (let r = (if r < 0 \<or> 0x10FFFF < r \<or> (0xD800 \<le> r \<and> r \<le> 0xDFFF) then RuneError else r) in
     if r < 0x80 then [byte_of r]
     else if r < 0x800 then [byte_of (0xC0 + r div 64), byte_of (0x80 + r mod 64)]
     else if r < 0x10000 then
       [byte_of (0xE0 + r div 4096), byte_of (0x80 + r div 64 mod 64), byte_of (0x80 + r mod 64)]
     else [byte_of (0xF0 + r div 262144), byte_of (0x80 + r div 4096 mod 64), byte_of (0x80 + r div 64 mod 64),
       byte_of (0x80 + r mod 64)])"

lemma DecodeRune_size: "s \<noteq> [] \<Longrightarrow> 1 \<le> snd (DecodeRune s) \<and> snd (DecodeRune s) \<le> length s"
  by (auto simp: DecodeRune_def Let_def split: list.splits)

text \<open>The loop \<open>for _, r := range s\<close>: each code point with the number of its bytes.\<close>

function runes :: "string \<Rightarrow> (int \<times> nat) list" where
  "runes s = (if s = [] then [] else DecodeRune s # runes (drop (snd (DecodeRune s)) s))"
  by auto
termination
  by (relation "measure length") (use DecodeRune_size in \<open>fastforce+\<close>)

declare runes.simps [simp del]

lemma runes_Nil [simp]: "runes [] = []"
  by (simp add: runes.simps)

lemma runes_empty [simp]: "runes s = [] \<longleftrightarrow> s = []"
  by (cases "s = []") (simp_all add: runes.simps [of s])

lemma runes_sizes: "sum_list (map snd (runes s)) = length s"
proof (induction s rule: runes.induct)
  case (1 s)
  then show ?case
    using DecodeRune_size [of s] by (cases "s = []") (simp_all add: runes.simps [of s])
qed

definition RuneCountInString :: "string \<Rightarrow> nat" where
  "RuneCountInString s = length (runes s)"

section \<open>Integers\<close>

definition wrap64 :: "int \<Rightarrow> int" where
  "wrap64 i = sint (word_of_int i :: 64 word)"

definition sub64 :: "int \<Rightarrow> int \<Rightarrow> int" where "sub64 a b = wrap64 (a - b)"

definition mul64 :: "int \<Rightarrow> int \<Rightarrow> int" where "mul64 a b = wrap64 (a * b)"

definition div64 :: "int \<Rightarrow> int \<Rightarrow> int" where "div64 a b = wrap64 (a sdiv b)"

definition mod64 :: "int \<Rightarrow> int \<Rightarrow> int" where "mod64 a b = a smod b"

text \<open>A bound far from the end of the range, under which sums of sizes and products of counts stay.\<close>

definition int64 :: "int \<Rightarrow> bool" where
  "int64 i = (- (2 ^ 63) \<le> i \<and> i < 2 ^ 63)"

lemma wrap64_id: "int64 i \<Longrightarrow> wrap64 i = i"
  using add64_in_range [of i 0] by (simp add: int64_def wrap64_def add64_def)

lemma wrap64_int64: "int64 (wrap64 i)"
  using sint_range_size [of "word_of_int i :: 64 word"] by (simp add: int64_def wrap64_def size_word_def)

lemma ops64:
  "int64 (a + b) \<Longrightarrow> add64 a b = a + b" "int64 (a - b) \<Longrightarrow> sub64 a b = a - b"
  "int64 (a * b) \<Longrightarrow> mul64 a b = a * b"
  by (simp_all add: sub64_def mul64_def wrap64_id add64_in_range int64_def)

lemma div64_nonneg: "\<lbrakk>0 \<le> a; int64 a; 0 < b\<rbrakk> \<Longrightarrow> div64 a b = a div b"
proof -
  assume a: "0 \<le> a" "int64 a" "0 < b"
  then have "int64 (a div b)"
    using zdiv_mono2 [of a 1 b] pos_imp_zdiv_nonneg_iff [of b a] by (auto simp: int64_def)
  with a show ?thesis using wrap64_id [of 0] by (simp add: int64_def div64_def signed_divide_int_def wrap64_id sgn_if)
qed

lemma mod64_nonneg: "\<lbrakk>0 \<le> a; 0 < b\<rbrakk> \<Longrightarrow> mod64 a b = a mod b"
  by (simp add: mod64_def signed_modulo_int_def sgn_if)

text \<open>\<open>strconv.Itoa\<close> and \<open>strconv.ParseInt\<close> in base ten with 64 bits.\<close>

fun dec_digits :: "nat \<Rightarrow> string" where
  "dec_digits n = (if n < 10 then [] else dec_digits (n div 10)) @ [byte_of (48 + int (n mod 10))]"

declare dec_digits.simps [simp del]

definition Itoa :: "int \<Rightarrow> string" where
  "Itoa i = (if i < 0 then CHR ''-'' # dec_digits (nat (- i)) else dec_digits (nat i))"

definition is_digit :: "char \<Rightarrow> bool" where
  "is_digit c = (48 \<le> byte_val c \<and> byte_val c \<le> 57)"

definition dec_value :: "string \<Rightarrow> int" where
  "dec_value s = foldl (\<lambda>v c. 10 * v + (byte_val c - 48)) 0 s"

definition ParseInt :: "string \<Rightarrow> int option" where
  "ParseInt s =
    (let neg = (s \<noteq> [] \<and> hd s = CHR ''-'');
         ds = (if s \<noteq> [] \<and> (hd s = CHR ''-'' \<or> hd s = CHR ''+'') then tl s else s)
     in if ds = [] \<or> \<not> list_all is_digit ds then None
        else if neg then (if dec_value ds \<le> 2 ^ 63 then Some (- dec_value ds) else None)
        else if dec_value ds < 2 ^ 63 then Some (dec_value ds) else None)"

section \<open>Errors\<close>

definition err_bind :: "'e + 'a \<Rightarrow> ('a \<Rightarrow> 'e + 'b) \<Rightarrow> 'e + 'b" where
  "err_bind m f = (case m of Inl e \<Rightarrow> Inl e | Inr a \<Rightarrow> f a)"

text \<open>Evaluation looks at the result first and at what follows only then.\<close>

declare err_bind_def [code_unfold]

lemma err_bind_simps [simp]: "err_bind (Inl e) f = Inl e" "err_bind (Inr a) f = f a"
  by (simp_all add: err_bind_def)

lemma err_bind_cong [fundef_cong]: "\<lbrakk>m = m'; \<And>a. m' = Inr a \<Longrightarrow> f a = f' a\<rbrakk> \<Longrightarrow> err_bind m f = err_bind m' f'"
  by (cases m') simp_all

lemma err_bind_Inr: "err_bind m f = Inr b \<longleftrightarrow> (\<exists>a. m = Inr a \<and> f a = Inr b)"
  by (cases m) simp_all

definition err_map :: "('e \<Rightarrow> 'f) \<Rightarrow> 'e + 'a \<Rightarrow> 'f + 'a" where
  "err_map g m = (case m of Inl e \<Rightarrow> Inl (g e) | Inr a \<Rightarrow> Inr a)"

lemma err_map_simps [simp]: "err_map g (Inl e) = Inl (g e)" "err_map g (Inr a) = Inr a"
  by (simp_all add: err_map_def)

lemma err_map_Inr [simp]: "err_map g m = Inr a \<longleftrightarrow> m = Inr a"
  by (cases m) simp_all

fun map_err :: "('a \<Rightarrow> 'e + 'b) \<Rightarrow> 'a list \<Rightarrow> 'e + 'b list" where
  "map_err f [] = Inr []"
| "map_err f (x # xs) = err_bind (f x) (\<lambda>y. err_bind (map_err f xs) (\<lambda>ys. Inr (y # ys)))"

fun fold_err :: "('a \<Rightarrow> 's \<Rightarrow> 'e + 's) \<Rightarrow> 'a list \<Rightarrow> 's \<Rightarrow> 'e + 's" where
  "fold_err f [] s = Inr s"
| "fold_err f (x # xs) s = err_bind (f x s) (fold_err f xs)"

lemma map_err_length: "map_err f xs = Inr ys \<Longrightarrow> length ys = length xs"
  by (induction xs arbitrary: ys) (auto simp: err_bind_Inr)

end
