(* ===== verification/Suggest.thy ===== *)
theory Suggest
  imports Go_Runes "HOL-Library.Product_Lexorder"
begin

text \<open>
  Near-miss suggestions (core/go/didyoumean.go): the banded dynamic programme for
  the edit distance with adjacent transpositions, the budget, and the ranking of
  the candidates; and the distance by recursion on prefixes, which the programme
  computes.  The table of the lower-case code points above ASCII (unicode.ToLower)
  is a parameter, called ul.
\<close>

section \<open>The distance by recursion\<close>

text \<open>Between the first \<open>i\<close> bytes of \<open>a\<close> and the first \<open>j\<close> of \<open>b\<close>.\<close>

fun osa :: "string \<Rightarrow> string \<Rightarrow> nat \<Rightarrow> nat \<Rightarrow> int" where
  "osa a b 0 j = int j"
| "osa a b (Suc i) 0 = int (Suc i)"
| "osa a b (Suc i) (Suc j) =
    (let d = min (min (osa a b i (Suc j) + 1) (osa a b (Suc i) j + 1))
           (osa a b i j + (if a ! i = b ! j then 0 else 1))
     in if i > 0 \<and> j > 0 \<and> a ! i = b ! (j - 1) \<and> a ! (i - 1) = b ! j
        then min d (osa a b (i - 1) (j - 1) + 1) else d)"

declare osa.simps(3) [simp del]

section \<open>The programme\<close>

text \<open>The cell of row \<open>i\<close> and column \<open>j\<close> (both from 1) from the two rows above and the cells
  of the row so far.\<close>

definition osa_cell :: "string \<Rightarrow> string \<Rightarrow> nat \<Rightarrow> nat \<Rightarrow> int list \<Rightarrow> int list \<Rightarrow> int list \<Rightarrow> int" where
  "osa_cell a b i j prev2 prev cur =
    (let cost = (if a ! (i - 1) = b ! (j - 1) then 0 else 1);
         d = prev ! j + 1;
         ins = cur ! (j - 1) + 1;
         d = (if ins < d then ins else d);
         sub = prev ! (j - 1) + cost;
         d = (if sub < d then sub else d)
     in if i > 1 \<and> j > 1 \<and> a ! (i - 1) = b ! (j - 2) \<and> a ! (i - 2) = b ! (j - 1) then
          (let tr = prev2 ! (j - 2) + 1 in if tr < d then tr else d)
        else d)"

text \<open>One row with its minimum.\<close>

definition osa_row :: "string \<Rightarrow> string \<Rightarrow> nat \<Rightarrow> int list \<Rightarrow> int list \<Rightarrow> int list \<times> int" where
  "osa_row a b i prev2 prev =
    fold (\<lambda>j (cur, rowMin).
        let d = osa_cell a b i j prev2 prev cur
        in (cur @ [d], if d < rowMin then d else rowMin))
      [1..<length b + 1] ([int i], int i)"

text \<open>The loop over the rows from \<open>i\<close> on, \<open>k\<close> of them.\<close>

fun osa_rows :: "string \<Rightarrow> string \<Rightarrow> int \<Rightarrow> nat \<Rightarrow> nat \<Rightarrow> int list \<Rightarrow> int list \<Rightarrow> int \<times> bool" where
  "osa_rows a b budget i 0 prev2 prev =
    (let d = prev ! length b in (d, d \<le> budget))"
| "osa_rows a b budget i (Suc k) prev2 prev =
    (case osa_row a b i prev2 prev of (cur, rowMin) \<Rightarrow>
       if rowMin > budget then (0, False) else osa_rows a b budget (i + 1) k prev cur)"

definition osaDistanceWithin :: "string \<Rightarrow> string \<Rightarrow> int \<Rightarrow> int \<times> bool" where
  "osaDistanceWithin a b budget =
    (let la = length a; lb = length b in
     if la = 0 then (int lb, int lb \<le> budget)
     else if lb = 0 then (int la, int la \<le> budget)
     else osa_rows a b budget 1 la (replicate (lb + 1) 0) (map int [0..<lb + 1]))"

section \<open>Suggestions\<close>

definition suggestMaxResults :: nat where "suggestMaxResults = 3"

definition suggestDistanceCap :: "string \<Rightarrow> int" where
  "suggestDistanceCap name =
    (let n = length name in if n \<le> 4 then 1 else if n \<le> 8 then 2 else 3)"

text \<open>\<open>strings.ToLower\<close>: code point by code point, bytes that are no UTF-8 becoming U+FFFD.\<close>

definition lower_rune :: "(int \<Rightarrow> int) \<Rightarrow> int \<Rightarrow> int" where
  "lower_rune ul r = (if r < 0x80 then (if 65 \<le> r \<and> r \<le> 90 then r + 32 else r) else ul r)"

definition ToLower :: "(int \<Rightarrow> int) \<Rightarrow> string \<Rightarrow> string" where
  "ToLower ul s = concat (map (\<lambda>(r, _). rune_string (lower_rune ul r)) (runes s))"

record scored =
  sc_name :: string
  sc_dist :: int
  caseOnly :: bool

definition score_candidate :: "(int \<Rightarrow> int) \<Rightarrow> string \<Rightarrow> string \<Rightarrow> scored option" where
  "score_candidate ul name c =
    (let budget = suggestDistanceCap name; lower = ToLower ul name in
     if c = name \<or> c = [] then None
     else let d = int (length c) - int (length name) in
       if d > budget \<or> d < - budget then None
       else if ToLower ul c = lower then Some \<lparr> sc_name = c, sc_dist = 0, caseOnly = True \<rparr>
       else (case osaDistanceWithin lower (ToLower ul c) budget of
           (d, ok) \<Rightarrow> if \<not> ok then None else Some \<lparr> sc_name = c, sc_dist = d, caseOnly = False \<rparr>))"

text \<open>The order of the ranking.\<close>

definition ranks_before :: "scored \<Rightarrow> scored \<Rightarrow> bool" where
  "ranks_before x y =
    (if caseOnly x \<noteq> caseOnly y then caseOnly x
     else if sc_dist x \<noteq> sc_dist y then sc_dist x < sc_dist y
     else sc_name x < sc_name y)"

text \<open>\<open>sort.Slice\<close>: its result is determined, since entries that compare equal are equal.\<close>

fun insert_ranked :: "scored \<Rightarrow> scored list \<Rightarrow> scored list" where
  "insert_ranked x [] = [x]"
| "insert_ranked x (y # ys) = (if ranks_before y x then y # insert_ranked x ys else x # y # ys)"

definition rank_hits :: "scored list \<Rightarrow> scored list" where
  "rank_hits hits = foldr insert_ranked hits []"

definition SuggestNames :: "(int \<Rightarrow> int) \<Rightarrow> string \<Rightarrow> string list \<Rightarrow> string list" where
  "SuggestNames ul name candidates =
    (if name = [] \<or> length candidates = 0 then []
     else let hits = rank_hits (List.map_filter (score_candidate ul name) candidates)
          in if length hits = 0 then []
             else map sc_name (if length hits > suggestMaxResults then take suggestMaxResults hits else hits))"

section \<open>The programme computes the distance\<close>

lemma osa_0 [simp]: "osa a b i 0 = int i"
  by (cases i) auto

lemma osa_nonneg: "0 \<le> osa a b i j"
  by (induction a b i j rule: osa.induct) (auto simp: osa.simps(3) Let_def)

lemma osa_sub_le: "osa a b (Suc i) (Suc j) \<le> osa a b i j + 1"
  by (auto simp: osa.simps(3) Let_def min_def)

text \<open>Row \<open>i\<close> of the matrix.\<close>

abbreviation osa_line :: "string \<Rightarrow> string \<Rightarrow> nat \<Rightarrow> int list" where
  "osa_line a b i \<equiv> map (osa a b i) [0..<length b + 1]"

lemma osa_cell_correct:
  assumes "0 < i" "0 < j" "j \<le> length b"
    and "prev = osa_line a b (i - 1)" "i > 1 \<Longrightarrow> prev2 = osa_line a b (i - 2)"
    and "cur = map (osa a b i) [0..<j]"
  shows "osa_cell a b i j prev2 prev cur = osa a b i j"
proof -
  obtain i' j' where ij: "i = Suc i'" "j = Suc j'" using assms(1,2) by (cases i; cases j) auto
  have p: "prev ! j = osa a b i' (Suc j')" "prev ! j' = osa a b i' j'" "cur ! j' = osa a b i j'"
    using assms ij by (simp_all del: upt_Suc)
  have q: "prev2 ! (j' - 1) = osa a b (i' - 1) (j' - 1)" if "i' > 0" "j' > 0"
    using that assms(3,5) ij by (simp del: upt_Suc)
  show ?thesis using p q ij
    by (auto simp: osa_cell_def osa.simps(3) Let_def min_def numeral_2_eq_2)
qed

lemma osa_row_correct:
  assumes "0 < i" "prev = osa_line a b (i - 1)" "i > 1 \<Longrightarrow> prev2 = osa_line a b (i - 2)"
  shows "fst (osa_row a b i prev2 prev) = osa_line a b i \<and>
    (\<forall>j \<le> length b. snd (osa_row a b i prev2 prev) \<le> osa a b i j) \<and>
    (\<exists>j \<le> length b. snd (osa_row a b i prev2 prev) = osa a b i j)"
proof -
  define step where "step = (\<lambda>j (cur, rowMin :: int).
        let d = osa_cell a b i j prev2 prev cur
        in (cur @ [d], if d < rowMin then d else rowMin))"
  have "k \<le> length b \<Longrightarrow> fst (fold step [1..<k + 1] ([int i], int i)) = map (osa a b i) [0..<k + 1] \<and>
      (\<forall>j \<le> k. snd (fold step [1..<k + 1] ([int i], int i)) \<le> osa a b i j) \<and>
      (\<exists>j \<le> k. snd (fold step [1..<k + 1] ([int i], int i)) = osa a b i j)" for k
  proof (induction k)
    case (Suc k)
    obtain cur m where c: "fold step [1..<k + 1] ([int i], int i) = (cur, m)" by fastforce
    have IH: "cur = map (osa a b i) [0..<k + 1]" "\<forall>j \<le> k. m \<le> osa a b i j" "\<exists>j \<le> k. m = osa a b i j"
      using Suc c by auto
    have d: "osa_cell a b i (k + 1) prev2 prev cur = osa a b i (k + 1)"
      using assms IH(1) Suc.prems by (intro osa_cell_correct) auto
    have "fold step [1..<Suc k + 1] ([int i], int i) = step (k + 1) (cur, m)" using c by simp
    also have "\<dots> = (cur @ [osa a b i (k + 1)], if osa a b i (k + 1) < m then osa a b i (k + 1) else m)"
      using d by (simp add: step_def Let_def)
    finally have f: "fold step [1..<Suc k + 1] ([int i], int i) =
        (cur @ [osa a b i (k + 1)], if osa a b i (k + 1) < m then osa a b i (k + 1) else m)" .
    show ?case unfolding f using IH by (auto simp: le_Suc_eq intro: exI [of _ "Suc k"])
  qed simp
  from this [of "length b"] show ?thesis by (simp add: osa_row_def step_def)
qed

text \<open>A row that is over budget throughout keeps every later row over budget: the cells two
  rows up that a transposition reads are no better than the substitution through this row.\<close>

lemma over_budget_row:
  assumes "\<forall>j \<le> length b. B < osa a b i j" "j \<le> length b"
  shows "B < osa a b (Suc i) j"
  using assms(2)
proof (induction j)
  case 0
  have "B < osa a b i 0" using assms(1) by blast
  then show ?case by simp
next
  case (Suc j)
  have b: "B < osa a b i (Suc j)" "B < osa a b i j" using assms(1) Suc.prems by auto
  have "B < osa a b (i - 1) (j - 1) + 1" if "i > 0" "j > 0"
  proof -
    have "osa a b i j \<le> osa a b (i - 1) (j - 1) + 1"
      using that osa_sub_le [of a b "i - 1" "j - 1"] by simp
    then show ?thesis using b(2) by linarith
  qed
  then show ?case using b Suc by (auto simp: osa.simps(3) Let_def)
qed

lemma over_budget_later:
  assumes "\<forall>j \<le> length b. B < osa a b i j"
  shows "\<forall>j \<le> length b. B < osa a b (i + k) j"
  using assms by (induction k) (auto intro: over_budget_row)

lemma osa_rows_correct:
  assumes "0 < i" "prev = osa_line a b (i - 1)" "i > 1 \<Longrightarrow> prev2 = osa_line a b (i - 2)"
  shows "snd (osa_rows a b budget i k prev2 prev) = (osa a b (i + k - 1) (length b) \<le> budget) \<and>
    (snd (osa_rows a b budget i k prev2 prev) \<longrightarrow>
      fst (osa_rows a b budget i k prev2 prev) = osa a b (i + k - 1) (length b))"
  using assms
proof (induction k arbitrary: i prev2 prev)
  case 0
  then show ?case by (simp add: Let_def del: upt_Suc)
next
  case (Suc k)
  obtain cur m where c: "osa_row a b i prev2 prev = (cur, m)" by fastforce
  have r: "cur = osa_line a b i" "\<forall>j \<le> length b. m \<le> osa a b i j"
    using osa_row_correct [OF Suc.prems] c by auto
  show ?case
  proof (cases "m > budget")
    case True
    then have "\<forall>j \<le> length b. budget < osa a b i j" using r(2) by auto
    then have "budget < osa a b (i + k) (length b)" using over_budget_later by blast
    then show ?thesis using True c by simp
  next
    case False
    have "snd (osa_rows a b budget (i + 1) k prev cur) = (osa a b (i + 1 + k - 1) (length b) \<le> budget) \<and>
      (snd (osa_rows a b budget (i + 1) k prev cur) \<longrightarrow>
        fst (osa_rows a b budget (i + 1) k prev cur) = osa a b (i + 1 + k - 1) (length b))"
      by (rule Suc.IH) (use r Suc.prems in auto)
    then show ?thesis using False c by simp
  qed
qed

lemma osaDistanceWithin_correct:
  "snd (osaDistanceWithin a b budget) = (osa a b (length a) (length b) \<le> budget) \<and>
    (snd (osaDistanceWithin a b budget) \<longrightarrow>
      fst (osaDistanceWithin a b budget) = osa a b (length a) (length b))"
proof -
  have "map int [0..<length b + 1] = osa_line a b 0" by simp
  then show ?thesis
    using osa_rows_correct [of 1 "map int [0..<length b + 1]" a b "replicate (length b + 1) 0" budget "length a"]
    by (auto simp: osaDistanceWithin_def Let_def simp del: upt_Suc)
qed

section \<open>The length band and the exact distance\<close>

text \<open>A difference of the lengths is a lower bound of the distance, as the comment on the band says.\<close>

lemma osa_band: "\<bar>int i - int j\<bar> \<le> osa a b i j"
proof (induction a b i j rule: osa.induct)
  case (3 a b i j)
  have t: "\<bar>int (Suc i) - int (Suc j)\<bar> \<le> osa a b (i - 1) (j - 1) + 1" 
    if "i > 0" "j > 0" "a ! i = b ! (j - 1)" "a ! (i - 1) = b ! j"
    using "3.IH"(4) [OF refl] that by (simp add: of_nat_diff)
  show ?case using "3.IH"(1-3) t by (auto simp: osa.simps(3) Let_def)
qed auto

lemma osa_same: "i \<le> length a \<Longrightarrow> osa a a i i = 0"
proof (induction i)
  case (Suc i)
  then have "osa a a (Suc i) (Suc i) \<le> 0" by (auto simp: osa.simps(3) Let_def min_def)
  then show ?case using osa_nonneg [of a a "Suc i" "Suc i"] by simp
qed simp

section \<open>The ranking\<close>

text \<open>The contract: a candidate is near when it is a name other than the one typed, within the
  budget once case is forgotten; near candidates are ordered by the key.\<close>

definition near :: "(int \<Rightarrow> int) \<Rightarrow> string \<Rightarrow> string \<Rightarrow> bool" where
  "near ul name c \<longleftrightarrow> c \<noteq> name \<and> c \<noteq> [] \<and>
    osa (ToLower ul name) (ToLower ul c) (length (ToLower ul name)) (length (ToLower ul c)) \<le> suggestDistanceCap name"

definition rank_key :: "(int \<Rightarrow> int) \<Rightarrow> string \<Rightarrow> string \<Rightarrow> bool \<times> int \<times> string" where
  "rank_key ul name c = (ToLower ul c \<noteq> ToLower ul name,
    osa (ToLower ul name) (ToLower ul c) (length (ToLower ul name)) (length (ToLower ul c)), c)"

abbreviation near_score :: "(int \<Rightarrow> int) \<Rightarrow> string \<Rightarrow> string \<Rightarrow> scored" where
  "near_score ul name c \<equiv> \<lparr> sc_name = c, sc_dist = fst (snd (rank_key ul name c)), caseOnly = (ToLower ul c = ToLower ul name) \<rparr>"

text \<open>Lower-casing keeps the length of ASCII names, but not of every name.\<close>

definition keeps_length :: "(int \<Rightarrow> int) \<Rightarrow> string \<Rightarrow> bool" where
  "keeps_length ul s = (length (ToLower ul s) = length s)"

lemma ToLower_ascii:
  assumes "byte_val c < 0x80"
  shows "ToLower ul (c # cs) = byte_of (if 65 \<le> byte_val c \<and> byte_val c \<le> 90 then byte_val c + 32 else byte_val c) # ToLower ul cs"
proof -
  have d: "DecodeRune (c # cs) = (byte_val c, 1)" using assms by (simp add: DecodeRune_def Let_def)
  have r: "runes (c # cs) = (byte_val c, 1) # runes cs" by (subst runes.simps) (simp add: d)
  have "0 \<le> byte_val c" by (metis of_char_mod_256 pos_mod_sign zero_less_numeral)
  then show ?thesis using assms by (simp add: ToLower_def r lower_rune_def rune_string_def Let_def)
qed

lemma ascii_keeps_length: "\<forall>c \<in> set s. byte_val c < 0x80 \<Longrightarrow> keeps_length ul s"
  by (induction s) (simp_all add: keeps_length_def ToLower_ascii, simp add: ToLower_def)

lemma suggestDistanceCap_pos: "0 < suggestDistanceCap name"
  by (simp add: suggestDistanceCap_def Let_def)

lemma score_candidate_near:
  assumes kl: "keeps_length ul name" "keeps_length ul c"
  shows "score_candidate ul name c = (if near ul name c then Some (near_score ul name c) else None)"
proof (cases "c = name \<or> c = []")
  case True
  then show ?thesis by (auto simp: score_candidate_def near_def Let_def)
next
  case False
  let ?d = "osa (ToLower ul name) (ToLower ul c) (length (ToLower ul name)) (length (ToLower ul c))"
  have band: "\<bar>int (length name) - int (length c)\<bar> \<le> ?d"
    using osa_band [of "length (ToLower ul name)" "length (ToLower ul c)"] kl by (simp add: keeps_length_def)
  show ?thesis
  proof (cases "int (length c) - int (length name) > suggestDistanceCap name
      \<or> int (length c) - int (length name) < - suggestDistanceCap name")
    case True
    then have "\<not> near ul name c" using band by (auto simp: near_def)
    then show ?thesis using True False by (auto simp: score_candidate_def Let_def)
  next
    case in_band: False
    show ?thesis
    proof (cases "ToLower ul c = ToLower ul name")
      case True
      then have "?d = 0" using osa_same [of "length (ToLower ul name)" "ToLower ul name"] by simp
      then show ?thesis using True False in_band suggestDistanceCap_pos [of name]
        by (simp add: score_candidate_def near_def rank_key_def Let_def)
    next
      case other: False
      obtain d ok where r: "osaDistanceWithin (ToLower ul name) (ToLower ul c) (suggestDistanceCap name) = (d, ok)"
        by fastforce
      have "ok = (?d \<le> suggestDistanceCap name)" "ok \<longrightarrow> d = ?d"
        using osaDistanceWithin_correct [of "ToLower ul name" "ToLower ul c" "suggestDistanceCap name"] r by simp_all
      then show ?thesis using other False in_band r
        by (simp add: score_candidate_def near_def rank_key_def Let_def)
    qed
  qed
qed

lemma ranks_before_key:
  "ranks_before (near_score ul name x) (near_score ul name y) \<longleftrightarrow> rank_key ul name x < rank_key ul name y"
  by (auto simp: ranks_before_def rank_key_def less_prod_def)

lemma insert_ranked_key:
  "insert_ranked (near_score ul name x) (map (near_score ul name) ys)
    = map (near_score ul name) (insort_key (rank_key ul name) x ys)"
  by (induction ys) (auto simp: ranks_before_key not_le simp flip: not_less)

lemma rank_hits_key:
  "rank_hits (map (near_score ul name) cs) = map (near_score ul name) (sort_key (rank_key ul name) cs)"
  by (induction cs) (simp_all add: rank_hits_def insert_ranked_key)

lemma hits_near:
  assumes "keeps_length ul name" "\<forall>c \<in> set cs. keeps_length ul c"
  shows "List.map_filter (score_candidate ul name) cs = map (near_score ul name) (filter (near ul name) cs)"
  using assms(2) by (induction cs) (simp_all add: score_candidate_near [OF assms(1)] map_filter_simps)

section \<open>The properties\<close>

text \<open>The budgeted programme for the edit distance agrees with the distance defined by
  recursion on prefixes: it answers yes exactly when the distance is within the budget, and then with
  the distance. In particular the early exit on a row that is over budget throughout
  loses nothing.\<close>

theorem osa_within:
  "(case osaDistanceWithin a b budget of (d, ok) \<Rightarrow> if ok then Some d else None)
    = (let d = osa a b (length a) (length b) in if d \<le> budget then Some d else None)"
  using osaDistanceWithin_correct [of a b budget]
  by (auto simp: Let_def split: prod.split)

text \<open>C35: Where lower-casing keeps the length in bytes of the name and of the candidates, as it does for
  ASCII names, the suggestions for a name are the first three of the near candidates in the order of
  the key (case-only misspellings, then distance, then the name itself): the length band that skips
  candidates loses none, the ranking is complete, and duplicates are kept.\<close>

theorem suggest_best:
  assumes "keeps_length ul name" "\<forall>c \<in> set candidates. keeps_length ul c"
  shows "SuggestNames ul name candidates = (if name = [] then []
    else take 3 (sort_key (rank_key ul name) (filter (near ul name) candidates)))"
proof -
  have id: "map sc_name (map (near_score ul name) cs) = cs" for cs by (induction cs) auto
  have names: "map sc_name (take k (map (near_score ul name) cs)) = take k cs"
    "map sc_name (map (near_score ul name) cs) = cs" for k cs
    by (metis take_map id) (rule id)
  show ?thesis
    by (auto simp: SuggestNames_def Let_def hits_near [OF assms] rank_hits_key suggestMaxResults_def names
        simp del: map_map take_map)
qed

lemma suggest_best_witness:
  "SuggestNames (\<lambda>r. r) ''uper'' [''upper'', ''Uper'', ''lower'', ''uepr'', ''uper'', ''super''] =
    [''Uper'', ''super'', ''uepr'']"
proof -
  let ?cs = "[''upper'', ''Uper'', ''lower'', ''uepr'', ''uper'', ''super'']"
  have "keeps_length (\<lambda>r. r) ''uper''" "\<forall>c \<in> set ?cs. keeps_length (\<lambda>r. r) c"
    by (simp_all add: ascii_keeps_length)
  moreover have "take 3 (sort_key (rank_key (\<lambda>r. r) ''uper'') (filter (near (\<lambda>r. r) ''uper'') ?cs)) =
      [''Uper'', ''super'', ''uepr'']"
    by code_simp
  ultimately show ?thesis using suggest_best [of "\<lambda>r. r" "''uper''" ?cs] by simp
qed

text \<open>The Kelvin sign has three bytes and is a k in lower case: the band drops a candidate that
  differs from the name in case only.\<close>

lemma band_drops_kelvin:
  "let ul = \<lambda>r. if r = 0x212A then 0x6B else r; kelvin = [CHR 0xE2, CHR 0x84, CHR 0xAA]
   in ToLower ul kelvin = ToLower ul ''K'' \<and> SuggestNames ul ''K'' [kelvin] = []"
  by code_simp

end
