(* ===== verification/Go_Paths.thy ===== *)
theory Go_Paths
  imports Boru_Prelude
begin

text \<open>
  Package path/filepath on a system whose separator is the slash: Clean, Join,
  Dir, Base and IsAbs, with the lists of components they work on.  A clean path
  is a root flag and a list of components; the laws relate parents, subtrees
  and prefixes of clean paths to prefixes of these lists.
\<close>

section \<open>Functions\<close>

abbreviation slash :: char where "slash \<equiv> CHR ''/''"

definition filepath_IsAbs :: "string \<Rightarrow> bool" where
  "filepath_IsAbs p = go_has_prefix p [slash]"

text \<open>The components kept so far are reversed; \<open>..\<close> drops the last one, is dropped at a root
  and kept at the start of a relative path.\<close>

fun clean_comps :: "bool \<Rightarrow> string list \<Rightarrow> string list \<Rightarrow> string list" where
  "clean_comps rooted out [] = rev out"
| "clean_comps rooted out (c # cs) =
    (if c = [] \<or> c = ''.'' then clean_comps rooted out cs
     else if c = ''..'' then
       (case out of
          [] \<Rightarrow> clean_comps rooted (if rooted then [] else [c]) cs
        | o' # os \<Rightarrow> clean_comps rooted (if o' = ''..'' then c # out else os) cs)
     else clean_comps rooted (c # out) cs)"

definition clean_str :: "bool \<Rightarrow> string list \<Rightarrow> string" where
  "clean_str rooted cs =
    (if rooted then slash # go_join slash cs
     else if cs = [] then ''.'' else go_join slash cs)"

definition filepath_Clean :: "string \<Rightarrow> string" where
  "filepath_Clean p =
    clean_str (filepath_IsAbs p) (clean_comps (filepath_IsAbs p) [] (go_split slash p))"

definition filepath_Join :: "string \<Rightarrow> string \<Rightarrow> string" where
  "filepath_Join a b =
    (if a \<noteq> [] then filepath_Clean (a @ slash # b)
     else if b \<noteq> [] then filepath_Clean b else [])"

definition upto_slash :: "string \<Rightarrow> string" where
  "upto_slash p = rev (dropWhile (\<lambda>c. c \<noteq> slash) (rev p))"

definition filepath_Dir :: "string \<Rightarrow> string" where
  "filepath_Dir p = filepath_Clean (upto_slash p)"

definition filepath_Base :: "string \<Rightarrow> string" where
  "filepath_Base p =
    (if p = [] then ''.''
     else let s = rev (dropWhile (\<lambda>c. c = slash) (rev p));
              b = rev (takeWhile (\<lambda>c. c \<noteq> slash) (rev s))
          in if b = [] then [slash] else b)"

definition isMemRoot :: "string \<Rightarrow> bool" where
  "isMemRoot p = (p = ''.'' \<or> p = [slash])"

definition isUnder :: "string \<Rightarrow> string \<Rightarrow> bool" where
  "isUnder path root = (path = root \<or> go_has_prefix path (root @ [slash]))"

section \<open>Components\<close>

definition comp_ok :: "string \<Rightarrow> bool" where
  "comp_ok c = (c \<noteq> [] \<and> c \<noteq> ''.'' \<and> slash \<notin> set c)"

text \<open>The components of a clean path: \<open>..\<close> occurs only at the start of a relative path.\<close>

definition comps_ok :: "bool \<Rightarrow> string list \<Rightarrow> bool" where
  "comps_ok rooted cs =
    (list_all comp_ok cs \<and> ''..'' \<notin> set (dropWhile (\<lambda>c. c = ''..'') cs)
     \<and> (rooted \<longrightarrow> ''..'' \<notin> set cs))"

lemma comps_ok_Nil [simp]: "comps_ok r []"
  by (simp add: comps_ok_def)

lemma comps_okD: "comps_ok r cs \<Longrightarrow> c \<in> set cs \<Longrightarrow> comp_ok c"
  by (auto simp: comps_ok_def list_all_iff)

lemma comps_ok_slash: "comps_ok r cs \<Longrightarrow> \<forall>c \<in> set cs. slash \<notin> set c"
  by (auto simp: comps_ok_def list_all_iff comp_ok_def)

lemma lead_snoc:
  "y \<notin> set (dropWhile (\<lambda>c. c = y) (xs @ [z])) \<longleftrightarrow>
    y \<notin> set (dropWhile (\<lambda>c. c = y) xs) \<and> (z = y \<longrightarrow> (\<forall>x \<in> set xs. x = y))"
  by (induction xs) auto

lemma comps_ok_snoc_iff:
  "comps_ok r (cs @ [c]) \<longleftrightarrow>
    comps_ok r cs \<and> comp_ok c \<and> (c = ''..'' \<longrightarrow> \<not> r \<and> (\<forall>d \<in> set cs. d = ''..''))"
  unfolding comps_ok_def lead_snoc by auto

lemma comps_ok_prefix: "comps_ok r (cs @ ds) \<Longrightarrow> comps_ok r cs"
  by (induction ds rule: rev_induct) (simp_all add: comps_ok_snoc_iff flip: append_assoc)

lemma comps_ok_snoc:
  "\<lbrakk>comps_ok r cs; comp_ok c; c \<noteq> ''..''\<rbrakk> \<Longrightarrow> comps_ok r (cs @ [c])"
  by (simp add: comps_ok_snoc_iff)

lemma comps_ok_append:
  "\<lbrakk>comps_ok r cs; list_all comp_ok ds; ''..'' \<notin> set ds\<rbrakk> \<Longrightarrow> comps_ok r (cs @ ds)"
proof (induction ds arbitrary: cs)
  case (Cons d ds)
  then show ?case
    using Cons.IH [of "cs @ [d]"] comps_ok_snoc [of r cs d] by auto
qed simp

lemma clean_comps_ok:
  assumes "comps_ok r (rev out)" "\<forall>c \<in> set cs. slash \<notin> set c"
  shows "comps_ok r (clean_comps r out cs)"
  using assms
proof (induction r out cs rule: clean_comps.induct)
  case (2 rooted out c cs)
  have ok: "comp_ok c" if "c \<noteq> []" "c \<noteq> ''.''"
    using that "2.prems" by (simp add: comp_ok_def)
  show ?case
  proof (cases "c = [] \<or> c = ''.''")
    case True
    with 2 show ?thesis by simp
  next
    case nn: False
    show ?thesis
    proof (cases "c = ''..''")
      case dd: True
      show ?thesis
      proof (cases out)
        case Nil
        have "comps_ok rooted (rev (if rooted then [] else [c]))"
          using dd by (simp add: comps_ok_def comp_ok_def)
        with "2.IH"(2) "2.prems"(2) nn dd Nil show ?thesis
          by (simp del: dd split del: if_split) (simp only: dd)
      next
        case (Cons o' os)
        have "comps_ok rooted (rev (if o' = ''..'' then c # out else os))"
          using "2.prems"(1) Cons dd comps_ok_snoc_iff [of rooted "rev os @ [o']" c]
          by (auto simp: comps_ok_snoc_iff comp_ok_def)
        with 2 nn dd Cons show ?thesis
          by (cases "o' = ''..''") simp_all
      qed
    next
      case False
      with 2 nn ok show ?thesis
        using comps_ok_snoc [of rooted "rev out" c] by simp
    qed
  qed
qed simp

lemma clean_comps_id: "comps_ok r (rev out @ cs) \<Longrightarrow> clean_comps r out cs = rev out @ cs"
proof (induction cs arbitrary: out)
  case (Cons c cs)
  have c: "c \<noteq> []" "c \<noteq> ''.''"
    using comps_okD [OF Cons.prems, of c] by (auto simp: comp_ok_def)
  show ?case
  proof (cases "c = ''..''")
    case True
    have "comps_ok r (rev out @ [c])"
      using Cons.prems comps_ok_prefix [of r "rev out @ [c]" cs] by simp
    then have nr': "\<not> r" and all: "\<forall>d \<in> set out. d = ''..''"
      using True unfolding comps_ok_snoc_iff by simp_all
    have h: "o' = ''..''" if "out = o' # os" for o' os
      using all that by simp
    show ?thesis
      using Cons.IH [of "c # out"] Cons.prems c True nr' h
      by (cases out) auto
  next
    case False
    with Cons.IH [of "c # out"] Cons.prems c show ?thesis by simp
  qed
qed simp

section \<open>Clean paths\<close>

definition is_clean :: "string \<Rightarrow> bool" where
  "is_clean p = (\<exists>r cs. comps_ok r cs \<and> p = clean_str r cs)"

lemma is_cleanI [intro]: "comps_ok r cs \<Longrightarrow> is_clean (clean_str r cs)"
  by (auto simp: is_clean_def)

lemma is_cleanE:
  assumes "is_clean p"
  obtains r cs where "comps_ok r cs" "p = clean_str r cs"
  using assms by (auto simp: is_clean_def)

lemma split_clean_str:
  assumes "comps_ok r cs"
  shows "go_split slash (clean_str r cs)
    = (if cs = [] then (if r then [[], []] else [''.'']) else if r then [] # cs else cs)"
proof -
  have "go_split slash (go_join slash cs) = cs" if "cs \<noteq> []"
    using that assms by (simp add: go_split_join comps_ok_slash)
  then show ?thesis
    by (auto simp: clean_str_def)
qed

lemma IsAbs_clean_str [simp]: "comps_ok r cs \<Longrightarrow> filepath_IsAbs (clean_str r cs) = r"
proof -
  assume a: "comps_ok r cs"
  show ?thesis
  proof (cases cs)
    case Nil
    then show ?thesis by (simp add: clean_str_def filepath_IsAbs_def go_has_prefix_def)
  next
    case (Cons c ds)
    then have "c \<noteq> []" "slash \<notin> set c"
      using comps_okD [OF a, of c] by (auto simp: comp_ok_def)
    then have "\<not> go_has_prefix (go_join slash cs) [slash]"
      using Cons by (cases c; cases ds) (auto simp: go_has_prefix_def)
    then show ?thesis using Cons
      by (auto simp: clean_str_def filepath_IsAbs_def go_has_prefix_def)
  qed
qed

lemma clean_comps_empty [simp]: "clean_comps r out ([] # cs) = clean_comps r out cs"
  by simp

lemma clean_comps_dot [simp]: "clean_comps r out (''.'' # cs) = clean_comps r out cs"
  by simp

declare clean_comps.simps(2) [simp del]

lemma Clean_clean_str [simp]: "comps_ok r cs \<Longrightarrow> filepath_Clean (clean_str r cs) = clean_str r cs"
  using clean_comps_id [of r "[]" cs]
  by (cases cs) (auto simp: filepath_Clean_def split_clean_str)

lemma Clean_clean [simp]: "is_clean p \<Longrightarrow> filepath_Clean p = p"
  by (auto elim: is_cleanE)

lemma is_clean_Clean [simp, intro]: "is_clean (filepath_Clean p)"
  unfolding filepath_Clean_def
  by (rule is_cleanI, rule clean_comps_ok) (auto dest: go_split_no_sep)

lemma is_clean_Dir [simp, intro]: "is_clean (filepath_Dir p)"
  by (simp add: filepath_Dir_def)

lemma is_clean_Join: "a \<noteq> [] \<or> b \<noteq> [] \<Longrightarrow> is_clean (filepath_Join a b)"
  by (auto simp: filepath_Join_def)

lemma clean_str_inj:
  assumes "comps_ok r cs" "comps_ok r' ds" "clean_str r cs = clean_str r' ds"
  shows "r = r' \<and> cs = ds"
proof -
  have r: "r = r'" using assms by (metis IsAbs_clean_str)
  have "go_split slash (clean_str r cs) = go_split slash (clean_str r' ds)" using assms by simp
  moreover have "[[], []] \<noteq> [] # cs" "[[], []] \<noteq> [] # ds" "[''.''] \<noteq> cs" "[''.''] \<noteq> ds"
    using comps_okD [OF assms(1)] comps_okD [OF assms(2)] by (auto simp: comp_ok_def)
  ultimately show ?thesis
    using assms(1,2) r
    by (cases r; cases "cs = []"; cases "ds = []") (simp_all add: split_clean_str)
qed

lemma clean_str_nonempty [simp]: "comps_ok r cs \<Longrightarrow> clean_str r cs \<noteq> []"
proof
  assume a: "comps_ok r cs" and e: "clean_str r cs = []"
  then have "\<not> r" "cs \<noteq> []" by (auto simp: clean_str_def split: if_splits)
  moreover have "go_split slash [] = [[]]" by simp
  ultimately have "cs = [[]]" using split_clean_str [OF a] e by simp
  with a show False by (simp add: comps_ok_def comp_ok_def)
qed

lemma is_clean_nonempty: "is_clean p \<Longrightarrow> p \<noteq> []"
  by (elim is_cleanE) simp

lemma root_clean_str: "comps_ok r cs \<Longrightarrow> isMemRoot (clean_str r cs) \<longleftrightarrow> cs = []"
proof -
  assume a: "comps_ok r cs"
  have "clean_str True [] = [slash]" "clean_str False [] = ''.''" by (simp_all add: clean_str_def)
  then have "isMemRoot (clean_str r cs) \<longleftrightarrow> (\<exists>r'. clean_str r cs = clean_str r' [])"
    unfolding isMemRoot_def by (metis (full_types))
  also have "\<dots> \<longleftrightarrow> cs = []" using a clean_str_inj by (metis comps_ok_Nil)
  finally show ?thesis .
qed

section \<open>Parents\<close>

lemma split_join_sep:
  "\<lbrakk>ps \<noteq> []; \<forall>p \<in> set ps. sep \<notin> set p\<rbrakk> \<Longrightarrow>
    go_split sep (go_join sep ps @ sep # s) = ps @ go_split sep s"
  by (induction sep ps rule: go_join.induct) (auto simp: go_split_append)

lemma clean_comps_snoc_empty: "clean_comps r out (cs @ [[]]) = clean_comps r out cs"
  by (induction r out cs rule: clean_comps.induct)
    (auto simp: clean_comps.simps(2) split: list.splits)

lemma upto_slash_simps:
  "slash \<notin> set c \<Longrightarrow> upto_slash (s @ slash # c) = s @ [slash]"
  "slash \<notin> set c \<Longrightarrow> upto_slash c = []"
  by (auto simp: upto_slash_def dropWhile_append dropWhile_eq_Nil_conv)

lemma go_join_snoc: "cs \<noteq> [] \<Longrightarrow> go_join sep (cs @ [c]) = go_join sep cs @ sep # c"
  by (induction sep cs rule: go_join.induct) auto

lemma Dir_clean_str:
  assumes "comps_ok r (cs @ [c])"
  shows "filepath_Dir (clean_str r (cs @ [c])) = clean_str r cs"
proof -
  have ok: "comps_ok r cs" using assms by (rule comps_ok_prefix)
  have c: "slash \<notin> set c" using comps_okD [OF assms, of c] by (simp add: comp_ok_def)
  have id: "clean_comps r [] cs = cs" using clean_comps_id [of r "[]" cs] ok by simp
  show ?thesis
  proof (cases "cs = []")
    case True
    show ?thesis
    proof (cases r)
      case True
      have "upto_slash (slash # c) = [slash]"
        using c upto_slash_simps(1) [of c "[]"] by simp
      then show ?thesis
        using \<open>cs = []\<close> True
        by (simp add: filepath_Dir_def clean_str_def filepath_Clean_def filepath_IsAbs_def go_has_prefix_def)
    next
      case False
      then show ?thesis
        using \<open>cs = []\<close> c
        by (simp add: filepath_Dir_def clean_str_def upto_slash_simps filepath_Clean_def
            filepath_IsAbs_def go_has_prefix_def)
    qed
  next
    case ne: False
    have spl: "go_split slash (go_join slash cs @ [slash]) = cs @ [[]]"
      using split_join_sep [OF ne comps_ok_slash [OF ok], of "[]"] by simp
    show ?thesis
    proof (cases r)
      case True
      have "upto_slash (clean_str r (cs @ [c])) = slash # go_join slash cs @ [slash]"
        using upto_slash_simps(1) [OF c, of "slash # go_join slash cs"] True ne
        by (simp add: clean_str_def go_join_snoc)
      then show ?thesis
        using True spl id ne
        by (simp add: filepath_Dir_def filepath_Clean_def filepath_IsAbs_def go_has_prefix_def
            clean_comps_snoc_empty)
    next
      case False
      have up: "upto_slash (clean_str r (cs @ [c])) = go_join slash cs @ [slash]"
        using upto_slash_simps(1) [OF c, of "go_join slash cs"] False ne
        by (simp add: clean_str_def go_join_snoc)
      have "\<not> filepath_IsAbs (clean_str r cs)" using ok False by simp
      then have "\<not> go_has_prefix (go_join slash cs @ [slash]) [slash]"
        using False ne ok clean_str_nonempty [OF ok]
        by (cases "go_join slash cs") (auto simp: clean_str_def filepath_IsAbs_def go_has_prefix_def)
      then show ?thesis
        using False spl id ne up
        by (simp add: filepath_Dir_def filepath_Clean_def filepath_IsAbs_def clean_comps_snoc_empty)
    qed
  qed
qed

lemma Dir_root [simp]: "filepath_Dir ''.'' = ''.''" "filepath_Dir [slash] = [slash]"
  by (simp_all add: filepath_Dir_def upto_slash_def filepath_Clean_def filepath_IsAbs_def
      go_has_prefix_def clean_str_def)

text \<open>A clean path that is not a root is its parent and one component.\<close>

lemma clean_cases:
  assumes "is_clean p"
  obtains "isMemRoot p" "filepath_Dir p = p"
  | r cs c where "comps_ok r (cs @ [c])" "p = clean_str r (cs @ [c])"
      "filepath_Dir p = clean_str r cs" "\<not> isMemRoot p"
proof -
  obtain r cs where c: "comps_ok r cs" "p = clean_str r cs" using assms by (rule is_cleanE)
  show ?thesis
  proof (cases cs rule: rev_cases)
    case Nil
    then have m: "isMemRoot p" using c root_clean_str by simp
    then have "filepath_Dir p = p" by (auto simp: isMemRoot_def)
    with m show ?thesis using that(1) by blast
  next
    case (snoc ds d)
    have "filepath_Dir p = clean_str r ds" using c snoc Dir_clean_str by metis
    moreover have "\<not> isMemRoot p" using c snoc by (simp add: root_clean_str)
    ultimately show ?thesis using that(2) c snoc by metis
  qed
qed

text \<open>The loops that walk to the parent end: the parent is shorter once the dot counts nothing.\<close>

definition dir_measure :: "string \<Rightarrow> nat" where
  "dir_measure p = (if p = ''.'' then 0 else length p)"

lemma length_join: "length (go_join sep cs) \<le> sum_list (map (\<lambda>c. length c + 1) cs) - 1"
  by (induction sep cs rule: go_join.induct) auto

lemma length_split: "sum_list (map (\<lambda>c. length c + 1) (go_split sep s)) = length s + 1"
proof (induction s)
  case (Cons c s)
  then show ?case by (cases "go_split sep s") auto
qed simp

lemma clean_comps_weight:
  "sum_list (map (\<lambda>c. length c + 1) (clean_comps r out cs))
    \<le> sum_list (map (\<lambda>c. length c + 1) out)
      + sum_list (map (\<lambda>c. length c + 1) (filter (\<lambda>c. c \<noteq> []) cs))"
proof (induction r out cs rule: clean_comps.induct)
  case (1 r out)
  then show ?case by (simp flip: rev_map)
next
  case (2 r out c cs)
  then show ?case
    by (cases "c = []"; cases "c = ''.''"; cases "c = ''..''"; cases out)
      (auto simp: clean_comps.simps(2) split: if_splits)
qed

lemma split_last: "s \<noteq> [] \<Longrightarrow> last s = sep \<Longrightarrow> \<exists>cs. cs \<noteq> [] \<and> go_split sep s = cs @ [[]]"
proof (induction s)
  case (Cons c s)
  show ?case
  proof (cases "s = []")
    case True
    then show ?thesis using Cons.prems by (intro exI [of _ "[[]]"]) simp
  next
    case False
    then obtain cs where cs: "cs \<noteq> []" "go_split sep s = cs @ [[]]" using Cons by auto
    then obtain d ds where "cs = d # ds" by (cases cs) auto
    with cs show ?thesis
      by (cases "c = sep") (auto intro: exI [of _ "[] # cs"] exI [of _ "(c # d) # ds"])
  qed
qed simp

lemma Clean_length:
  assumes "p \<noteq> []" "last p = slash" "p \<noteq> [slash]"
  shows "length (filepath_Clean p) < length p"
proof -
  obtain cs where cs: "cs \<noteq> []" "go_split slash p = cs @ [[]]"
    using split_last assms by blast
  let ?w = "\<lambda>cs :: string list. sum_list (map (\<lambda>c. length c + 1) cs)"
  have tot: "?w cs + 1 = length p + 1" using length_split [of slash p] cs by simp
  have len: "2 \<le> length p"
    using assms by (cases p; cases "tl p") auto
  have le: "?w (filter (\<lambda>c. c \<noteq> []) ds) \<le> ?w ds" for ds :: "string list"
    by (induction ds) auto
  show ?thesis
  proof (cases "filepath_IsAbs p")
    case True
    then obtain t where "p = slash # t" by (auto simp: filepath_IsAbs_def go_has_prefix_iff)
    then obtain ds where ds: "cs = [] # ds" using cs by (cases cs) auto
    have "?w (clean_comps True [] (go_split slash p)) \<le> ?w ds"
      using clean_comps_weight [of True "[]" "cs @ [[]]"] le [of ds] ds cs by simp
    moreover have "?w cs = ?w ds + 1" using ds by simp
    ultimately show ?thesis
      using tot len length_join [of slash "clean_comps True [] (go_split slash p)"] True
      by (cases "clean_comps True [] (go_split slash p)") (auto simp: filepath_Clean_def clean_str_def)
  next
    case False
    have "?w (clean_comps False [] (go_split slash p)) \<le> ?w cs"
      using clean_comps_weight [of False "[]" "cs @ [[]]"] le [of cs] cs by simp
    then show ?thesis
      using tot len length_join [of slash "clean_comps False [] (go_split slash p)"] False
      by (cases "clean_comps False [] (go_split slash p)") (auto simp: filepath_Clean_def clean_str_def)
  qed
qed

lemma Dir_measure [termination_simp]:
  assumes "p \<noteq> ''.''" "p \<noteq> [slash]" "p \<noteq> []"
  shows "dir_measure (filepath_Dir p) < dir_measure p"
proof (cases "slash \<in> set p")
  case False
  then show ?thesis
    using assms
    by (simp add: filepath_Dir_def upto_slash_simps filepath_Clean_def filepath_IsAbs_def
        go_has_prefix_def clean_str_def dir_measure_def)
next
  case True
  then obtain s c where p: "p = s @ slash # c" "slash \<notin> set c"
    by (metis split_list_last)
  have u: "upto_slash p = s @ [slash]" using p upto_slash_simps by simp
  show ?thesis
  proof (cases "s = []")
    case True
    then have "filepath_Dir p = [slash]"
      using u by (simp add: filepath_Dir_def filepath_Clean_def filepath_IsAbs_def
          go_has_prefix_def clean_str_def)
    moreover have "c \<noteq> []" using assms p True by auto
    ultimately show ?thesis using p assms by (simp add: dir_measure_def)
  next
    case False
    then have "length (filepath_Dir p) < length (s @ [slash])"
      unfolding filepath_Dir_def u by (intro Clean_length) auto
    with p assms show ?thesis by (simp add: dir_measure_def)
  qed
qed

section \<open>Subtrees\<close>

lemma isUnder_refl [simp]: "isUnder p p"
  by (simp add: isUnder_def)

lemma isUnder_clean_str:
  assumes "comps_ok r cs" "comps_ok r' ds" "ds \<noteq> []"
  shows "isUnder (clean_str r cs) (clean_str r' ds) \<longleftrightarrow> r = r' \<and> (\<exists>ts. cs = ds @ ts)"
proof
  assume u: "isUnder (clean_str r cs) (clean_str r' ds)"
  show "r = r' \<and> (\<exists>ts. cs = ds @ ts)"
  proof (cases "clean_str r cs = clean_str r' ds")
    case True
    then show ?thesis using clean_str_inj [OF assms(1,2) True] by simp
  next
    case False
    then obtain t where t: "clean_str r cs = clean_str r' ds @ slash # t"
      using u by (auto simp: isUnder_def go_has_prefix_iff)
    have "go_split slash (clean_str r cs) = (if r' then [] # ds else ds) @ go_split slash t"
    proof -
      have "go_split slash (go_join slash ds @ slash # t) = ds @ go_split slash t"
        using assms by (simp add: split_join_sep comps_ok_slash)
      then show ?thesis using t assms by (auto simp: clean_str_def)
    qed
    then have eq: "(if cs = [] then (if r then [[], []] else [''.'']) else if r then [] # cs else cs)
        = (if r' then [] # ds else ds) @ go_split slash t"
      using split_clean_str [OF assms(1)] by simp
    obtain d ds' where ds: "ds = d # ds'" using assms(3) by (cases ds) auto
    have d: "d \<noteq> []" "d \<noteq> ''.''" "[] \<noteq> d"
      using comps_okD [OF assms(2), of d] ds by (auto simp: comp_ok_def)
    show ?thesis
    proof (cases cs)
      case Nil
      then show ?thesis using eq ds d by (cases r; cases r') simp_all
    next
      case (Cons c cs')
      have "c \<noteq> []" "[] \<noteq> c"
        using comps_okD [OF assms(1), of c] Cons by (auto simp: comp_ok_def)
      then show ?thesis using eq ds d Cons by (cases r; cases r') simp_all
    qed
  qed
next
  assume "r = r' \<and> (\<exists>ts. cs = ds @ ts)"
  then obtain ts where ts: "r = r'" "cs = ds @ ts" by blast
  have "go_join slash (ds @ t # us) = go_join slash ds @ slash # go_join slash (t # us)" for t us
    using assms(3) by (induction slash ds rule: go_join.induct) (auto simp: go_join_Cons)
  then show "isUnder (clean_str r cs) (clean_str r' ds)"
    using ts assms by (cases ts) (auto simp: isUnder_def go_has_prefix_iff clean_str_def)
qed

lemma isUnder_Dir:
  assumes "is_clean p" "is_clean q" "\<not> isMemRoot q" "\<not> isMemRoot p"
  shows "isUnder p q \<longleftrightarrow> p = q \<or> isUnder (filepath_Dir p) q"
proof -
  obtain r cs c where p: "comps_ok r (cs @ [c])" "p = clean_str r (cs @ [c])" "filepath_Dir p = clean_str r cs"
    using assms(1,4) by (cases rule: clean_cases) auto
  obtain r' ds where q: "comps_ok r' ds" "q = clean_str r' ds" using assms(2) by (rule is_cleanE)
  have ne: "ds \<noteq> []" using assms(3) q root_clean_str by auto
  have "isUnder p q \<longleftrightarrow> r = r' \<and> (\<exists>ts. cs @ [c] = ds @ ts)"
    using p q ne by (simp add: isUnder_clean_str)
  also have "(\<exists>ts. cs @ [c] = ds @ ts) \<longleftrightarrow> cs @ [c] = ds \<or> (\<exists>ts. cs = ds @ ts)"
  proof
    assume "\<exists>ts. cs @ [c] = ds @ ts"
    then obtain ts where "cs @ [c] = ds @ ts" ..
    then show "cs @ [c] = ds \<or> (\<exists>ts. cs = ds @ ts)"
      by (cases ts rule: rev_cases) auto
  qed auto
  also have "r = r' \<and> (cs @ [c] = ds \<or> (\<exists>ts. cs = ds @ ts)) \<longleftrightarrow> p = q \<or> isUnder (filepath_Dir p) q"
    using p q isUnder_clean_str [OF comps_ok_prefix [OF p(1)] q(1) ne] clean_str_inj [OF p(1) q(1)]
    by auto
  finally show ?thesis .
qed

lemma isUnder_trans: "isUnder p q \<Longrightarrow> isUnder q s \<Longrightarrow> isUnder p s"
  by (auto simp: isUnder_def go_has_prefix_iff)

lemma isUnder_root: "\<lbrakk>is_clean p; is_clean q; \<not> isMemRoot q; isUnder p q\<rbrakk> \<Longrightarrow> \<not> isMemRoot p"
  by (auto elim!: is_cleanE simp: root_clean_str isUnder_clean_str)

lemma isUnder_antisym:
  "isUnder p q \<Longrightarrow> isUnder q p \<Longrightarrow> p = q"
  by (auto simp: isUnder_def go_has_prefix_iff)

lemma isUnder_linear:
  assumes "isUnder p q" "isUnder p s"
  shows "isUnder q s \<or> isUnder s q"
proof -
  have ext: "\<exists>a. p @ [slash] = (t @ [slash]) @ a" if "isUnder p t" for t
    using that by (auto simp: isUnder_def go_has_prefix_iff)
  obtain a b where "p @ [slash] = (q @ [slash]) @ a" "p @ [slash] = (s @ [slash]) @ b"
    using ext assms by metis
  then have "(q @ [slash]) @ a = (s @ [slash]) @ b" by simp
  then have "\<exists>u. q @ [slash] = (s @ [slash]) @ u \<or> (q @ [slash]) @ u = s @ [slash]"
    unfolding append_eq_append_conv2 by metis
  then obtain u where u: "q @ [slash] = (s @ [slash]) @ u \<or> (q @ [slash]) @ u = s @ [slash]" ..
  then show ?thesis
    by (cases u rule: rev_cases) (auto simp: isUnder_def go_has_prefix_iff)
qed

lemma isUnder_Dir_le: "\<lbrakk>is_clean p; \<not> isMemRoot (filepath_Dir p)\<rbrakk> \<Longrightarrow> isUnder p (filepath_Dir p)"
  by (metis clean_cases isUnder_Dir isUnder_refl is_clean_Dir)

lemma Dir_neq: "\<lbrakk>is_clean p; \<not> isMemRoot p\<rbrakk> \<Longrightarrow> filepath_Dir p \<noteq> p"
  using Dir_measure [of p] is_clean_nonempty [of p] by (auto simp: isMemRoot_def)

lemma Dir_not_under: "\<lbrakk>is_clean p; \<not> isMemRoot p\<rbrakk> \<Longrightarrow> \<not> isUnder (filepath_Dir p) p"
proof
  assume a: "is_clean p" "\<not> isMemRoot p" "isUnder (filepath_Dir p) p"
  have "\<not> isMemRoot (filepath_Dir p)" using isUnder_root [OF _ a(1,2,3)] by simp
  then have "isUnder p (filepath_Dir p)" using a isUnder_Dir_le by blast
  with a show False using isUnder_antisym Dir_neq by metis
qed

section \<open>Moving a subtree\<close>

definition move_path :: "string \<Rightarrow> string \<Rightarrow> string \<Rightarrow> string" where
  "move_path old new p = new @ drop (length old) p"

lemma move_path_self [simp]: "move_path old new old = new"
  by (simp add: move_path_def)

lemma move_clean_str:
  assumes "comps_ok r (os @ ts)" "os \<noteq> []" "ns \<noteq> []"
  shows "move_path (clean_str r os) (clean_str r' ns) (clean_str r (os @ ts)) = clean_str r' (ns @ ts)"
proof -
  have j: "go_join slash (ds @ t # us) = go_join slash ds @ slash # go_join slash (t # us)" if "ds \<noteq> []" for ds t us
    using that by (induction slash ds rule: go_join.induct) (auto simp: go_join_Cons)
  show ?thesis
    using assms j by (cases ts) (auto simp: move_path_def clean_str_def)
qed

end
