(* ===== verification/Mem_Files.thy ===== *)
theory Mem_Files
  imports Go_Paths File_Calls
begin

text \<open>
  The in-memory file system MemFileOps of lang/go/capabilities/capabilities.go:
  its maps, the resolution of symbolic links, and every stateless operation;
  the subscriptions of lang/go/capabilities/watch.go receive the changes.  The
  identity of the process and the clock are read through an environment, whose
  clock stands still during one operation.
\<close>

unbundle bit_operations_syntax

section \<open>Watch streams\<close>

record WatchEvent =
  we_Op :: string
  we_Path :: string

definition watchBufferSize :: nat where "watchBufferSize = 64"

definition watchOpOverflow :: string where "watchOpOverflow = ''overflow''"

text \<open>A send in a select with a default: None where the buffer of the channel is full.\<close>

definition try_send :: "WatchEvent list \<Rightarrow> WatchEvent \<Rightarrow> WatchEvent list option" where
  "try_send ch ev = (if length ch < watchBufferSize then Some (ch @ [ev]) else None)"

definition overflow_marker :: "string \<Rightarrow> WatchEvent" where
  "overflow_marker root = \<lparr> we_Op = watchOpOverflow, we_Path = root \<rparr>"

definition send_event :: "WatchEvent list \<Rightarrow> WatchEvent \<Rightarrow> bool \<Rightarrow> WatchEvent list \<times> bool" where
  "send_event ch ev overflow =
    (case try_send ch ev of Some ch' \<Rightarrow> (ch', overflow) | None \<Rightarrow> (ch, True))"

definition sendWatch :: "WatchEvent list \<Rightarrow> WatchEvent \<Rightarrow> string \<Rightarrow> bool \<Rightarrow> WatchEvent list \<times> bool" where
  "sendWatch ch ev root overflow =
    (if overflow then
       (case try_send ch (overflow_marker root) of
          Some ch' \<Rightarrow> send_event ch' ev False
        | None \<Rightarrow> (ch, True))
     else send_event ch ev False)"

definition flushOverflow :: "WatchEvent list \<Rightarrow> string \<Rightarrow> bool \<Rightarrow> WatchEvent list" where
  "flushOverflow ch root overflow =
    (if overflow then (case try_send ch (overflow_marker root) of Some ch' \<Rightarrow> ch' | None \<Rightarrow> ch) else ch)"

text \<open>A subscription; its address tells two of them apart.\<close>

record memWatcher =
  mw_addr :: nat
  mw_root :: string
  mw_ch :: "WatchEvent list"
  mw_recursive :: bool
  mw_overflow :: bool

definition covers :: "memWatcher \<Rightarrow> string \<Rightarrow> bool" where
  "covers w resolved =
    (if resolved = mw_root w then True
     else if mw_recursive w then isUnder resolved (mw_root w)
     else filepath_Dir resolved = mw_root w)"

definition deliver :: "WatchEvent \<Rightarrow> memWatcher \<Rightarrow> memWatcher" where
  "deliver ev w =
    (if covers w (we_Path ev) then
       (let (ch, ov) = sendWatch (mw_ch w) ev (mw_root w) (mw_overflow w)
        in w\<lparr>mw_ch := ch, mw_overflow := ov\<rparr>)
     else w)"

section \<open>State\<close>

record memMeta =
  mm_Mode :: FileMode
  mm_MTime :: gotime
  mm_ATime :: gotime
  mm_Target :: string
  mm_UID :: int
  mm_GID :: int
  mm_OwnerSet :: bool
  mm_Xattrs :: "(string, 8 word list) gomap option"

definition zero_memMeta :: memMeta where
  "zero_memMeta = \<lparr> mm_Mode = 0, mm_MTime = 0, mm_ATime = 0, mm_Target = [], mm_UID = 0, mm_GID = 0,
     mm_OwnerSet = False, mm_Xattrs = None \<rparr>"

record memLockState =
  ml_readers :: int
  ml_writer :: bool

record MemFileOps =
  Files :: "(string, 8 word list) gomap"
  Dirs :: "(string, bool) gomap"
  Metas :: "(string, memMeta) gomap"
  Links :: "(string, string) gomap"
  Cwd :: string
  watchers :: "memWatcher list"
  next_addr :: nat
  tempSeq :: int
  fileLocks :: "(string, memLockState) gomap"

definition NewMem :: MemFileOps where
  "NewMem = \<lparr> Files = gm_empty, Dirs = gm_empty, Metas = gm_empty, Links = gm_empty, Cwd = [],
     watchers = [], next_addr = 0, tempSeq = 0, fileLocks = gm_empty \<rparr>"

text \<open>What the seams euidFn, egidFn and nowFn give.\<close>

record mem_env =
  euid :: int
  egid :: int
  clock :: gotime

type_synonym 'a mem_op = "MemFileOps \<Rightarrow> 'a fs_result \<times> MemFileOps"

definition ModePerm :: FileMode where "ModePerm = 0x1FF"

definition ModeDir :: FileMode where "ModeDir = 0x80000000"

definition ModeSymlink :: FileMode where "ModeSymlink = 0x8000000"

text \<open>0400, 0200, 0755, 0644 and 0777.\<close>

definition perm_read :: FileMode where "perm_read = 0x100"

definition perm_write :: FileMode where "perm_write = 0x80"

definition perm_dir :: FileMode where "perm_dir = 0x1ED"

definition perm_file :: FileMode where "perm_file = 0x1A4"

lemmas mode_defs = ModePerm_def ModeDir_def ModeSymlink_def perm_read_def perm_write_def
  perm_dir_def perm_file_def

section \<open>Reading the maps\<close>

definition emit :: "string \<Rightarrow> string \<Rightarrow> MemFileOps \<Rightarrow> MemFileOps" where
  "emit op resolved m =
    m\<lparr>watchers := map (deliver \<lparr> we_Op = op, we_Path = resolved \<rparr>) (watchers m)\<rparr>"

definition stampOwner :: "mem_env \<Rightarrow> memMeta \<Rightarrow> memMeta" where
  "stampOwner e mm = mm\<lparr>mm_UID := euid e, mm_GID := egid e, mm_OwnerSet := True\<rparr>"

definition ownerOf :: "mem_env \<Rightarrow> memMeta option \<Rightarrow> int \<times> int" where
  "ownerOf e mm =
    (case mm of
       Some mm \<Rightarrow> if mm_OwnerSet mm then (mm_UID mm, mm_GID mm) else (euid e, egid e)
     | None \<Rightarrow> (euid e, egid e))"

definition canon :: "MemFileOps \<Rightarrow> string \<Rightarrow> string" where
  "canon m p = (case gm_get (Links m) p of Some c \<Rightarrow> c | None \<Rightarrow> p)"

definition isFileEntry :: "MemFileOps \<Rightarrow> string \<Rightarrow> bool" where
  "isFileEntry m p = (gm_has (Files m) p \<or> gm_has (Links m) p)"

definition is_dir :: "MemFileOps \<Rightarrow> string \<Rightarrow> bool" where
  "is_dir m p = (gm_get (Dirs m) p = Some True)"

definition file_data :: "MemFileOps \<Rightarrow> string \<Rightarrow> 8 word list" where
  "file_data m c = (case gm_get (Files m) c of Some b \<Rightarrow> b | None \<Rightarrow> [])"

text \<open>The target of the symbolic link at a path.\<close>

definition link_target :: "MemFileOps \<Rightarrow> string \<Rightarrow> string option" where
  "link_target m p =
    (case gm_get (Metas m) p of
       Some mm \<Rightarrow> if mm_Target mm \<noteq> [] then Some (mm_Target mm) else None
     | None \<Rightarrow> None)"

definition modeOf :: "memMeta option \<Rightarrow> FileMode \<Rightarrow> FileMode" where
  "modeOf mm def = (case mm of Some mm \<Rightarrow> mm_Mode mm | None \<Rightarrow> def)"

definition mtimeOf :: "memMeta option \<Rightarrow> gotime" where
  "mtimeOf mm = (case mm of Some mm \<Rightarrow> mm_MTime mm | None \<Rightarrow> 0)"

definition infoFor :: "mem_env \<Rightarrow> MemFileOps \<Rightarrow> string \<Rightarrow> FileInfo option" where
  "infoFor e m resolved =
    (let name = filepath_Base resolved; mm = gm_get (Metas m) resolved in
     case link_target m resolved of
       Some t \<Rightarrow>
         Some \<lparr> fi_Name = name, fi_Size = int (length t), fi_Mode = ModeSymlink OR ModePerm,
           fi_ModTime = mtimeOf mm, fi_IsDir = False, fi_Symlink = True, fi_Target = t,
           fi_UID = fst (ownerOf e mm), fi_GID = snd (ownerOf e mm) \<rparr>
     | None \<Rightarrow>
       if isFileEntry m resolved then
         (let c = canon m resolved; mm = gm_get (Metas m) c in
          Some \<lparr> fi_Name = name, fi_Size = int (length (file_data m c)), fi_Mode = modeOf mm perm_file,
            fi_ModTime = mtimeOf mm, fi_IsDir = False, fi_Symlink = False, fi_Target = [],
            fi_UID = fst (ownerOf e mm), fi_GID = snd (ownerOf e mm) \<rparr>)
       else if is_dir m resolved then
         Some \<lparr> fi_Name = name, fi_Size = 0, fi_Mode = ModeDir OR (modeOf mm perm_dir AND ModePerm),
           fi_ModTime = mtimeOf mm, fi_IsDir = True, fi_Symlink = False, fi_Target = [],
           fi_UID = fst (ownerOf e mm), fi_GID = snd (ownerOf e mm) \<rparr>
       else None)"

section \<open>Path resolution\<close>

definition ResolvePath_mem :: "MemFileOps \<Rightarrow> string \<Rightarrow> string" where
  "ResolvePath_mem m path =
    (if filepath_IsAbs path then filepath_Clean path
     else filepath_Clean (filepath_Join (if Cwd m = [] then ''.'' else Cwd m) path))"

text \<open>
  The walk over the components, which follows the links met on the way and
  shares one budget of forty.  \<open>comp_walk\<close> is the loop over the components,
  \<open>link_chase\<close> the loop at one component; the number returned is the links
  followed so far.
\<close>

function resolveSteps :: "MemFileOps \<Rightarrow> string \<Rightarrow> bool \<Rightarrow> nat \<Rightarrow> string \<Rightarrow> (nat \<times> string) fs_result"
  and comp_walk :: "MemFileOps \<Rightarrow> string \<Rightarrow> string list \<Rightarrow> bool \<Rightarrow> nat \<Rightarrow> string \<Rightarrow> (nat \<times> string) fs_result"
  and link_chase :: "MemFileOps \<Rightarrow> string \<Rightarrow> string list \<Rightarrow> bool \<Rightarrow> nat \<Rightarrow> string \<Rightarrow> (nat \<times> string) fs_result"
where
  "resolveSteps m resolved follow d orig =
    (if isMemRoot resolved \<or> resolved = [] then Inr (d, resolved)
     else if filepath_IsAbs resolved
     then comp_walk m [slash] (go_split slash (tl resolved)) follow d orig
     else comp_walk m [] (go_split slash resolved) follow d orig)"
| "comp_walk m acc [] follow d orig = Inr (d, acc)"
| "comp_walk m acc (c # cs) follow d orig = link_chase m (filepath_Join acc c) cs follow d orig"
| "link_chase m p cs follow d orig =
    (case (if cs = [] \<and> \<not> follow then None else link_target m p) of
       Some t \<Rightarrow>
         if 40 < Suc d then Inl (PathError ''open'' orig errMemTooManyLinks)
         else (case resolveSteps m
                 (filepath_Clean (if filepath_IsAbs t then t else filepath_Join (filepath_Dir p) t))
                 True (Suc d) orig of
                 Inl err \<Rightarrow> Inl err
               | Inr (d', rp) \<Rightarrow> link_chase m rp cs follow d' orig)
     | None \<Rightarrow>
         if cs \<noteq> [] \<and> isFileEntry m p then Inl (PathError ''open'' orig errMemNotDir)
         else comp_walk m p cs follow d orig)"
  by pat_completeness auto

text \<open>The budget never grows, so the nested call leaves less of it.\<close>

lemma resolve_depth_grows:
  shows "resolveSteps_comp_walk_link_chase_dom (Inl (m, resolved, follow, d, orig)) \<Longrightarrow>
      (\<forall>d' p. resolveSteps m resolved follow d orig = Inr (d', p) \<longrightarrow> d \<le> d')"
    and "resolveSteps_comp_walk_link_chase_dom (Inr (Inl (m, acc, cs, follow, d, orig))) \<Longrightarrow>
      (\<forall>d' p. comp_walk m acc cs follow d orig = Inr (d', p) \<longrightarrow> d \<le> d')"
    and "resolveSteps_comp_walk_link_chase_dom (Inr (Inr (m, q, cs, follow, d, orig))) \<Longrightarrow>
      (\<forall>d' p. link_chase m q cs follow d orig = Inr (d', p) \<longrightarrow> d \<le> d')"
proof (induction rule: resolveSteps_comp_walk_link_chase.pinduct)
  case (1 m resolved follow d orig)
  then show ?case by (simp add: resolveSteps.psimps)
next
  case (2 m acc follow d orig)
  then show ?case by (simp add: comp_walk.psimps)
next
  case (3 m acc c cs follow d orig)
  then show ?case by (simp add: comp_walk.psimps)
next
  case (4 m p cs follow d orig)
  note dom = 4(1) and IH = 4(2-4)
  show ?case
  proof (cases "if cs = [] \<and> \<not> follow then None else link_target m p")
    case None
    show ?thesis
    proof (cases "cs \<noteq> [] \<and> isFileEntry m p")
      case True
      then show ?thesis using None dom by (simp add: link_chase.psimps)
    next
      case False
      have "link_chase m p cs follow d orig = comp_walk m p cs follow d orig"
        unfolding link_chase.psimps [OF dom] None using False by auto
      then show ?thesis using IH(1) [OF None False] by simp
    qed
  next
    case (Some t)
    let ?r = "resolveSteps m
      (filepath_Clean (if filepath_IsAbs t then t else filepath_Join (filepath_Dir p) t)) True (Suc d) orig"
    show ?thesis
    proof (cases "40 < Suc d")
      case True
      then show ?thesis using Some dom by (simp add: link_chase.psimps)
    next
      case False
      show ?thesis
      proof (cases ?r)
        case (Inl err)
        then show ?thesis using Some False dom by (simp add: link_chase.psimps)
      next
        case (Inr q)
        obtain d' rp where q: "q = (d', rp)" by (cases q)
        have "Suc d \<le> d'" using IH(2) [OF Some False] Inr q by simp
        moreover have "\<forall>d'' p'. link_chase m rp cs follow d' orig = Inr (d'', p') \<longrightarrow> d' \<le> d''"
          using IH(3) [OF Some False Inr q [symmetric]] .
        moreover have "link_chase m p cs follow d orig = link_chase m rp cs follow d' orig"
          using Some False Inr q dom by (simp add: link_chase.psimps)
        ultimately show ?thesis by (metis Suc_leD order_trans)
      qed
    qed
  qed
qed

termination resolveSteps
  by (relation "measures
      [\<lambda>x. case x of Inl (m, r, f, d, og) \<Rightarrow> 41 - d | Inr (Inl (m, a, cs, f, d, og)) \<Rightarrow> 41 - d
        | Inr (Inr (m, p, cs, f, d, og)) \<Rightarrow> 41 - d,
       \<lambda>x. case x of Inl _ \<Rightarrow> 1 | _ \<Rightarrow> 0,
       \<lambda>x. case x of Inl _ \<Rightarrow> 0 | Inr (Inl (m, a, cs, f, d, og)) \<Rightarrow> 2 * length cs
        | Inr (Inr (m, p, cs, f, d, og)) \<Rightarrow> 2 * length cs + 1]")
    (auto dest!: resolve_depth_grows)

declare resolveSteps.simps [simp del] link_chase.simps [simp del]

definition resolve :: "MemFileOps \<Rightarrow> string \<Rightarrow> bool \<Rightarrow> string fs_result" where
  "resolve m path follow =
    (case resolveSteps m (ResolvePath_mem m path) follow 0 path of
       Inl err \<Rightarrow> Inl err
     | Inr (d, p) \<Rightarrow> Inr p)"

end
