(* ===== verification/Mem_Ops.thy ===== *)
theory Mem_Ops
  imports Mem_Files
begin

text \<open>
  The operations of MemFileOps (lang/go/capabilities/capabilities.go), each
  with its checks in the order of the code.  An operation returns its result
  and the new state; a refused one may leave metadata behind, as the code does.
\<close>

unbundle bit_operations_syntax

section \<open>Permissions\<close>

definition checkPerm ::
  "mem_env \<Rightarrow> MemFileOps \<Rightarrow> string \<Rightarrow> string \<Rightarrow> string \<Rightarrow> FileMode \<Rightarrow> fs_error option" where
  "checkPerm e m op path resolved bits =
    (if euid e = 0 then None
     else case infoFor e m resolved of
            None \<Rightarrow> None
          | Some info \<Rightarrow>
              if fi_Symlink info then None
              else if fi_Mode info AND bits = 0 then Some (PathError op path ErrPermission)
              else None)"

text \<open>The nearest recorded directory on the way up decides.\<close>

function ancestor_denies :: "MemFileOps \<Rightarrow> string \<Rightarrow> bool" where
  "ancestor_denies m dir =
    (if isMemRoot dir \<or> dir = [] then False
     else if is_dir m dir then modeOf (gm_get (Metas m) dir) perm_dir AND perm_write = 0
     else ancestor_denies m (filepath_Dir dir))"
  by pat_completeness auto
termination
  by (relation "measure (\<lambda>(m, dir). dir_measure dir)")
    (auto simp: isMemRoot_def intro: Dir_measure)

declare ancestor_denies.simps [simp del]

definition checkParentWrite ::
  "mem_env \<Rightarrow> MemFileOps \<Rightarrow> string \<Rightarrow> string \<Rightarrow> string \<Rightarrow> fs_error option" where
  "checkParentWrite e m op path resolved =
    (if euid e = 0 then None
     else if ancestor_denies m (filepath_Dir resolved) then Some (PathError op path ErrPermission)
     else None)"

section \<open>Reading and writing\<close>

definition ReadFile_mem :: "mem_env \<Rightarrow> string \<Rightarrow> MemFileOps \<Rightarrow> 8 word list fs_result" where
  "ReadFile_mem e path m =
    (case resolve m path True of
       Inl err \<Rightarrow> Inl err
     | Inr final \<Rightarrow>
       if is_dir m final then Inl (PathError ''read'' path errMemIsDir)
       else case gm_get (Files m) (canon m final) of
              None \<Rightarrow> Inl (PathError ''open'' path ErrNotExist)
            | Some data \<Rightarrow>
                (case checkPerm e m ''open'' path final perm_read of
                   Some err \<Rightarrow> Inl err
                 | None \<Rightarrow> Inr data))"

function recordDir :: "mem_env \<Rightarrow> string \<Rightarrow> MemFileOps \<Rightarrow> MemFileOps" where
  "recordDir e dir m =
    (if dir = ''.'' \<or> dir = [slash] \<or> dir = [] then m
     else recordDir e (filepath_Dir dir)
       (m\<lparr>Dirs := gm_put dir True (Dirs m),
          Metas := (if gm_get (Metas m) dir = None
                    then gm_put dir (stampOwner e (zero_memMeta\<lparr>mm_Mode := perm_dir, mm_MTime := clock e\<rparr>))
                           (Metas m)
                    else Metas m)\<rparr>))"
  by pat_completeness auto
termination
  by (relation "measure (\<lambda>(e, dir, m). dir_measure dir)") (auto intro: Dir_measure)

declare recordDir.simps [simp del]

definition fresh_meta :: "mem_env \<Rightarrow> FileMode \<Rightarrow> memMeta" where
  "fresh_meta e perm =
    stampOwner e (zero_memMeta\<lparr>mm_Mode := perm AND ModePerm, mm_MTime := clock e, mm_ATime := clock e\<rparr>)"

definition writeFileLocked :: "mem_env \<Rightarrow> string \<Rightarrow> 8 word list \<Rightarrow> FileMode \<Rightarrow> unit mem_op" where
  "writeFileLocked e path data perm m =
    (case resolve m path True of
       Inl err \<Rightarrow> (Inl err, m)
     | Inr final \<Rightarrow>
       if is_dir m final then (Inl (PathError ''open'' path errMemIsDir), m)
       else
         let c = canon m final; ex = gm_has (Files m) c in
         case (if ex then checkPerm e m ''open'' path final perm_write
               else checkParentWrite e m ''open'' path final) of
           Some err \<Rightarrow> (Inl err, m)
         | None \<Rightarrow>
           (let m = recordDir e (filepath_Dir final) m;
                m = m\<lparr>Files := gm_put c data (Files m)\<rparr>
            in if ex
               then (let mm = (case gm_get (Metas m) c of
                                 Some mm \<Rightarrow> mm
                               | None \<Rightarrow> stampOwner e (zero_memMeta\<lparr>mm_Mode := perm_file\<rparr>))
                     in (Inr (), emit ''write'' final
                           (m\<lparr>Metas := gm_put c (mm\<lparr>mm_MTime := clock e\<rparr>) (Metas m)\<rparr>)))
               else (Inr (), emit ''create'' final
                       (m\<lparr>Metas := gm_put c (fresh_meta e perm) (Metas m)\<rparr>))))"

definition mkdirAllLocked :: "mem_env \<Rightarrow> string \<Rightarrow> FileMode \<Rightarrow> unit mem_op" where
  "mkdirAllLocked e path perm m =
    (case resolve m path True of
       Inl err \<Rightarrow> (Inl err, m)
     | Inr final \<Rightarrow>
       if isFileEntry m final then (Inl (PathError ''mkdir'' path errMemNotDir), m)
       else if is_dir m final then (Inr (), m)
       else case checkParentWrite e m ''mkdir'' path final of
              Some err \<Rightarrow> (Inl err, m)
            | None \<Rightarrow>
                (let m = recordDir e final m
                 in (Inr (), emit ''create'' final
                       (m\<lparr>Metas := gm_put final (fresh_meta e perm) (Metas m)\<rparr>))))"

definition Stat_mem :: "mem_env \<Rightarrow> string \<Rightarrow> bool \<Rightarrow> MemFileOps \<Rightarrow> FileInfo fs_result" where
  "Stat_mem e path follow m =
    (case resolve m path follow of
       Inl err \<Rightarrow> Inl err
     | Inr final \<Rightarrow>
       (case infoFor e m final of
          None \<Rightarrow> Inl (PathError ''stat'' path ErrNotExist)
        | Some info \<Rightarrow> Inr info))"

section \<open>Listing\<close>

text \<open>The keys the loops of collectChildren visit.\<close>

definition all_keys :: "MemFileOps \<Rightarrow> string list" where
  "all_keys m = gm_keys (Files m) @ gm_keys (Dirs m) @ gm_keys (Links m)
    @ map fst (filter (\<lambda>(p, mm). mm_Target mm \<noteq> []) (Metas m))"

definition add_child ::
  "mem_env \<Rightarrow> MemFileOps \<Rightarrow> string \<Rightarrow> string \<Rightarrow> (string, FileInfo) gomap \<Rightarrow> (string, FileInfo) gomap" where
  "add_child e m dir p out =
    (if p = dir \<or> filepath_Dir p \<noteq> dir then out
     else let info = (case infoFor e m p of Some i \<Rightarrow> i | None \<Rightarrow> zero_FileInfo)
          in gm_put (fi_Name info) info out)"

definition collectChildren :: "mem_env \<Rightarrow> MemFileOps \<Rightarrow> string \<Rightarrow> (string, FileInfo) gomap" where
  "collectChildren e m dir = fold (add_child e m dir) (all_keys m) gm_empty"

definition ReadDir_mem :: "mem_env \<Rightarrow> string \<Rightarrow> MemFileOps \<Rightarrow> FileInfo list fs_result" where
  "ReadDir_mem e path m =
    (case resolve m path True of
       Inl err \<Rightarrow> Inl err
     | Inr final \<Rightarrow>
       if isFileEntry m final then Inl (PathError ''readdir'' path errMemNotDir)
       else
         let children = collectChildren e m final in
         if children = [] \<and> \<not> is_dir m final \<and> \<not> isMemRoot final
         then Inl (PathError ''readdir'' path ErrNotExist)
         else case checkPerm e m ''readdir'' path final perm_read of
                Some err \<Rightarrow> Inl err
              | None \<Rightarrow> Inr (map (\<lambda>n. the (gm_get children n)) (sort (gm_keys children))))"

section \<open>Removing\<close>

definition gm_drop :: "('k \<Rightarrow> bool) \<Rightarrow> ('k, 'v) gomap \<Rightarrow> ('k, 'v) gomap" where
  "gm_drop P mp = filter (\<lambda>(k, v). \<not> P k) mp"

definition aliases_of :: "MemFileOps \<Rightarrow> string \<Rightarrow> string list" where
  "aliases_of m p = sort (map fst (filter (\<lambda>(a, c). c = p) (Links m)))"

definition removeFileEntry :: "string \<Rightarrow> MemFileOps \<Rightarrow> MemFileOps" where
  "removeFileEntry p m =
    (if gm_has (Links m) p then m\<lparr>Links := gm_del p (Links m)\<rparr>
     else
       let m' = (case aliases_of m p of
                   [] \<Rightarrow> m
                 | a0 # as \<Rightarrow>
                     m\<lparr>Files := gm_put a0 (file_data m p) (Files m),
                       Metas := (case gm_get (Metas m) p of
                                   Some mm \<Rightarrow> gm_put a0 mm (Metas m)
                                 | None \<Rightarrow> Metas m),
                       Links := fold (\<lambda>a. gm_put a a0) as (gm_del a0 (Links m))\<rparr>)
       in m'\<lparr>Files := gm_del p (Files m'), Metas := gm_del p (Metas m')\<rparr>)"

definition removeTree :: "string \<Rightarrow> MemFileOps \<Rightarrow> MemFileOps" where
  "removeTree root m =
    (let m = m\<lparr>Links := gm_drop (\<lambda>p. isUnder p root) (Links m)\<rparr>;
         files = sort (filter (\<lambda>p. isUnder p root) (gm_keys (Files m)));
         m = fold removeFileEntry files m
     in m\<lparr>Dirs := gm_drop (\<lambda>p. isUnder p root) (Dirs m),
          Metas := gm_drop (\<lambda>p. isUnder p root) (Metas m)\<rparr>)"

definition Remove_mem :: "mem_env \<Rightarrow> string \<Rightarrow> bool \<Rightarrow> unit mem_op" where
  "Remove_mem e path recursive m =
    (case resolve m path False of
       Inl err \<Rightarrow> (Inl err, m)
     | Inr final \<Rightarrow>
       (case infoFor e m final of
          None \<Rightarrow> if recursive then (Inr (), m) else (Inl (PathError ''remove'' path ErrNotExist), m)
        | Some info \<Rightarrow>
          (case checkParentWrite e m ''remove'' path final of
             Some err \<Rightarrow> (Inl err, m)
           | None \<Rightarrow>
               if fi_IsDir info then
                 (if collectChildren e m final \<noteq> [] \<and> \<not> recursive
                  then (Inl (PathError ''remove'' path errMemNotEmpty), m)
                  else (Inr (), emit ''remove'' final (removeTree final m)))
               else if fi_Symlink info
               then (Inr (), emit ''remove'' final (m\<lparr>Metas := gm_del final (Metas m)\<rparr>))
               else (Inr (), emit ''remove'' final (removeFileEntry final m)))))"

section \<open>Renaming\<close>

definition remap :: "string \<Rightarrow> string \<Rightarrow> string \<Rightarrow> string option" where
  "remap old new p =
    (if p = old then Some new
     else if go_has_prefix p (old @ [slash])
     then Some ((new @ [slash]) @ drop (length (old @ [slash])) p)
     else None)"

text \<open>The move of the keys of one map, key by key.\<close>

definition remap_keys ::
  "(string \<Rightarrow> string option) \<Rightarrow> 'v \<Rightarrow> (string, 'v) gomap \<Rightarrow> (string, 'v) gomap" where
  "remap_keys f zero mp =
    fold (\<lambda>k mp'. case f k of
            Some n \<Rightarrow> gm_del k (gm_put n (case gm_get mp' k of Some v \<Rightarrow> v | None \<Rightarrow> zero) mp')
          | None \<Rightarrow> mp') (gm_keys mp) mp"

definition rename_tree :: "string \<Rightarrow> string \<Rightarrow> MemFileOps \<Rightarrow> MemFileOps" where
  "rename_tree old new m =
    (let f = remap old new;
         dirs = fold (\<lambda>k mp. case f k of Some n \<Rightarrow> gm_del k (gm_put n True mp) | None \<Rightarrow> mp)
                  (gm_keys (Dirs m)) (Dirs m);
         links = remap_keys f [] (Links m)
     in m\<lparr>Files := remap_keys f [] (Files m), Dirs := dirs,
          Metas := remap_keys f zero_memMeta (Metas m),
          Links := map (\<lambda>(a, c). (a, case f c of Some nc \<Rightarrow> nc | None \<Rightarrow> c)) links\<rparr>)"

definition Rename_mem :: "mem_env \<Rightarrow> string \<Rightarrow> string \<Rightarrow> unit mem_op" where
  "Rename_mem e oldPath newPath m =
    (case resolve m oldPath False of
       Inl err \<Rightarrow> (Inl err, m)
     | Inr oldFinal \<Rightarrow>
     case resolve m newPath False of
       Inl err \<Rightarrow> (Inl err, m)
     | Inr newFinal \<Rightarrow>
     case infoFor e m oldFinal of
       None \<Rightarrow> (Inl (PathError ''rename'' oldPath ErrNotExist), m)
     | Some srcInfo \<Rightarrow>
     case checkParentWrite e m ''rename'' oldPath oldFinal of
       Some err \<Rightarrow> (Inl err, m)
     | None \<Rightarrow>
     case checkParentWrite e m ''rename'' newPath newFinal of
       Some err \<Rightarrow> (Inl err, m)
     | None \<Rightarrow>
       let cleared =
         (case infoFor e m newFinal of
            None \<Rightarrow> Inr m
          | Some dstInfo \<Rightarrow>
              if fi_IsDir srcInfo \<and> \<not> fi_IsDir dstInfo
              then Inl (PathError ''rename'' newPath errMemNotDir)
              else if \<not> fi_IsDir srcInfo \<and> fi_IsDir dstInfo
              then Inl (PathError ''rename'' newPath errMemIsDir)
              else if fi_IsDir srcInfo \<and> fi_IsDir dstInfo
              then (if collectChildren e m newFinal \<noteq> []
                    then Inl (PathError ''rename'' newPath errMemNotEmpty)
                    else Inr (removeTree newFinal m))
              else Inr (removeFileEntry newFinal m))
       in case cleared of
            Inl err \<Rightarrow> (Inl err, m)
          | Inr m1 \<Rightarrow>
              (Inr (), emit ''create'' newFinal (emit ''rename'' oldFinal
                 (rename_tree oldFinal newFinal (recordDir e (filepath_Dir newFinal) m1)))))"

section \<open>Links\<close>

definition Symlink_mem :: "mem_env \<Rightarrow> string \<Rightarrow> string \<Rightarrow> unit mem_op" where
  "Symlink_mem e target linkPath m =
    (case resolve m linkPath False of
       Inl err \<Rightarrow> (Inl err, m)
     | Inr linkFinal \<Rightarrow>
       if infoFor e m linkFinal \<noteq> None then (Inl (PathError ''symlink'' linkPath ErrExist), m)
       else case checkParentWrite e m ''symlink'' linkPath linkFinal of
              Some err \<Rightarrow> (Inl err, m)
            | None \<Rightarrow>
                (let m = recordDir e (filepath_Dir linkFinal) m
                 in (Inr (), emit ''create'' linkFinal
                      (m\<lparr>Metas := gm_put linkFinal
                          (stampOwner e (zero_memMeta\<lparr>mm_Mode := ModeSymlink OR ModePerm,
                             mm_MTime := clock e, mm_Target := target\<rparr>)) (Metas m)\<rparr>))))"

definition Link_mem :: "mem_env \<Rightarrow> string \<Rightarrow> string \<Rightarrow> unit mem_op" where
  "Link_mem e target linkPath m =
    (case resolve m target False of
       Inl err \<Rightarrow> (Inl err, m)
     | Inr targetFinal \<Rightarrow>
     case resolve m linkPath False of
       Inl err \<Rightarrow> (Inl err, m)
     | Inr linkFinal \<Rightarrow>
     case infoFor e m targetFinal of
       None \<Rightarrow> (Inl (PathError ''link'' target ErrNotExist), m)
     | Some info \<Rightarrow>
       if infoFor e m linkFinal \<noteq> None then (Inl (PathError ''link'' linkPath ErrExist), m)
       else case checkParentWrite e m ''link'' linkPath linkFinal of
              Some err \<Rightarrow> (Inl err, m)
            | None \<Rightarrow>
                (let m = recordDir e (filepath_Dir linkFinal) m in
                 if fi_IsDir info then (Inl (PathError ''link'' target ErrPermission), m)
                 else if fi_Symlink info then
                   (let src = (case gm_get (Metas m) targetFinal of Some mm \<Rightarrow> mm | None \<Rightarrow> zero_memMeta)
                    in (Inr (), emit ''create'' linkFinal
                         (m\<lparr>Metas := gm_put linkFinal src (Metas m)\<rparr>)))
                 else (Inr (), emit ''create'' linkFinal
                         (m\<lparr>Links := gm_put linkFinal (canon m targetFinal) (Links m)\<rparr>))))"

section \<open>Metadata\<close>

definition metaForExisting :: "mem_env \<Rightarrow> string \<Rightarrow> MemFileOps \<Rightarrow> memMeta option \<times> MemFileOps" where
  "metaForExisting e resolved m =
    (if infoFor e m resolved = None then (None, m)
     else let c = canon m resolved in
       case gm_get (Metas m) c of
         Some mm \<Rightarrow> (Some mm, m)
       | None \<Rightarrow> (Some zero_memMeta, m\<lparr>Metas := gm_put c zero_memMeta (Metas m)\<rparr>))"

text \<open>A change through the pointer metaForExisting returned.\<close>

definition set_meta :: "string \<Rightarrow> memMeta \<Rightarrow> MemFileOps \<Rightarrow> MemFileOps" where
  "set_meta resolved mm m = m\<lparr>Metas := gm_put (canon m resolved) mm (Metas m)\<rparr>"

definition Chmod_mem :: "mem_env \<Rightarrow> string \<Rightarrow> FileMode \<Rightarrow> unit mem_op" where
  "Chmod_mem e path mode m =
    (case resolve m path True of
       Inl err \<Rightarrow> (Inl err, m)
     | Inr final \<Rightarrow>
       (case metaForExisting e final m of
          (None, m) \<Rightarrow> (Inl (PathError ''chmod'' path ErrNotExist), m)
        | (Some mm, m) \<Rightarrow>
            (Inr (), emit ''chmod'' final (set_meta final (mm\<lparr>mm_Mode := mode AND ModePerm\<rparr>) m))))"

definition Chtimes_mem :: "mem_env \<Rightarrow> string \<Rightarrow> gotime \<Rightarrow> gotime \<Rightarrow> unit mem_op" where
  "Chtimes_mem e path atime mtime m =
    (case resolve m path True of
       Inl err \<Rightarrow> (Inl err, m)
     | Inr final \<Rightarrow>
       (case metaForExisting e final m of
          (None, m) \<Rightarrow> (Inl (PathError ''chtimes'' path ErrNotExist), m)
        | (Some mm, m) \<Rightarrow>
            (Inr (), emit ''chmod'' final
               (set_meta final (mm\<lparr>mm_MTime := mtime, mm_ATime := atime\<rparr>) m))))"

text \<open>\<open>make([]byte, size)\<close> with a copy of the data in front, cut to size.\<close>

definition resize :: "8 word list \<Rightarrow> nat \<Rightarrow> 8 word list" where
  "resize data n = take n data @ replicate (n - length data) 0"

definition Truncate_mem :: "mem_env \<Rightarrow> string \<Rightarrow> int \<Rightarrow> unit mem_op" where
  "Truncate_mem e path size' m =
    (case resolve m path True of
       Inl err \<Rightarrow> (Inl err, m)
     | Inr final \<Rightarrow>
       if is_dir m final then (Inl (PathError ''truncate'' path errMemIsDir), m)
       else let c = canon m final in
         case gm_get (Files m) c of
           None \<Rightarrow> (Inl (PathError ''truncate'' path ErrNotExist), m)
         | Some data \<Rightarrow>
             if size' < 0 then (Inl (PathError ''truncate'' path ErrInvalid), m)
             else case checkPerm e m ''truncate'' path final perm_write of
                    Some err \<Rightarrow> (Inl err, m)
                  | None \<Rightarrow>
                    (let m = m\<lparr>Files := gm_put c
                            (if size' < int (length data) then take (nat size') data
                             else resize data (nat size')) (Files m)\<rparr>
                     in (Inr (), emit ''write'' final
                          (case metaForExisting e final m of
                             (Some mm, m) \<Rightarrow> set_meta final (mm\<lparr>mm_MTime := clock e\<rparr>) m
                           | (None, m) \<Rightarrow> m))))"

definition Chown_mem :: "mem_env \<Rightarrow> string \<Rightarrow> int \<Rightarrow> int \<Rightarrow> bool \<Rightarrow> unit mem_op" where
  "Chown_mem e path uid gid follow m =
    (case resolve m path follow of
       Inl err \<Rightarrow> (Inl err, m)
     | Inr final \<Rightarrow>
       (case metaForExisting e final m of
          (None, m) \<Rightarrow> (Inl (PathError ''chown'' path ErrNotExist), m)
        | (Some mm, m) \<Rightarrow>
            if uid = -1 \<and> gid = -1 then (Inr (), m)
            else if euid e \<noteq> 0 then (Inl (PathError ''chown'' path ErrPermission), m)
            else
              (let mm = (if mm_OwnerSet mm then mm else stampOwner e mm);
                   mm = (if uid \<noteq> -1 then mm\<lparr>mm_UID := uid\<rparr> else mm);
                   mm = (if gid \<noteq> -1 then mm\<lparr>mm_GID := gid\<rparr> else mm)
               in (Inr (), emit ''chmod'' final (set_meta final mm m)))))"

section \<open>Extended attributes\<close>

definition xattrsForWrite ::
  "mem_env \<Rightarrow> string \<Rightarrow> string \<Rightarrow> ((string, 8 word list) gomap \<times> memMeta \<times> string) mem_op" where
  "xattrsForWrite e op path m =
    (case resolve m path True of
       Inl err \<Rightarrow> (Inl err, m)
     | Inr final \<Rightarrow>
       (case metaForExisting e final m of
          (None, m) \<Rightarrow> (Inl (PathError op path ErrNotExist), m)
        | (Some mm, m) \<Rightarrow>
          (case checkPerm e m op path final perm_write of
             Some err \<Rightarrow> (Inl err, m)
           | None \<Rightarrow>
               (let xs = (case mm_Xattrs mm of Some xs \<Rightarrow> xs | None \<Rightarrow> gm_empty);
                    mm = mm\<lparr>mm_Xattrs := Some xs\<rparr>
                in (Inr (xs, mm, final), set_meta final mm m)))))"

definition xattrsForRead :: "mem_env \<Rightarrow> string \<Rightarrow> string \<Rightarrow> (string, 8 word list) gomap mem_op" where
  "xattrsForRead e op path m =
    (case resolve m path True of
       Inl err \<Rightarrow> (Inl err, m)
     | Inr final \<Rightarrow>
       (case metaForExisting e final m of
          (None, m) \<Rightarrow> (Inl (PathError op path ErrNotExist), m)
        | (Some mm, m) \<Rightarrow>
          (case checkPerm e m op path final perm_read of
             Some err \<Rightarrow> (Inl err, m)
           | None \<Rightarrow> (Inr (case mm_Xattrs mm of Some xs \<Rightarrow> xs | None \<Rightarrow> gm_empty), m))))"

definition XattrGet_mem :: "mem_env \<Rightarrow> string \<Rightarrow> string \<Rightarrow> 8 word list mem_op" where
  "XattrGet_mem e path name m =
    (case xattrsForRead e ''xattr-get'' path m of
       (Inl err, m) \<Rightarrow> (Inl err, m)
     | (Inr xs, m) \<Rightarrow>
       (case gm_get xs name of
          None \<Rightarrow> (Inl (PathError ''xattr-get'' path errXattrAbsent), m)
        | Some v \<Rightarrow> (Inr v, m)))"

definition XattrSet_mem :: "mem_env \<Rightarrow> string \<Rightarrow> string \<Rightarrow> 8 word list \<Rightarrow> unit mem_op" where
  "XattrSet_mem e path name val m =
    (case xattrsForWrite e ''xattr-set'' path m of
       (Inl err, m) \<Rightarrow> (Inl err, m)
     | (Inr (xs, mm, final), m) \<Rightarrow>
         (Inr (), emit ''chmod'' final
            (set_meta final (mm\<lparr>mm_Xattrs := Some (gm_put name val xs)\<rparr>) m)))"

definition XattrList_mem :: "mem_env \<Rightarrow> string \<Rightarrow> string list mem_op" where
  "XattrList_mem e path m =
    (case xattrsForRead e ''xattr-list'' path m of
       (Inl err, m) \<Rightarrow> (Inl err, m)
     | (Inr xs, m) \<Rightarrow> (Inr (sort (gm_keys xs)), m))"

definition XattrRemove_mem :: "mem_env \<Rightarrow> string \<Rightarrow> string \<Rightarrow> unit mem_op" where
  "XattrRemove_mem e path name m =
    (case xattrsForWrite e ''xattr-remove'' path m of
       (Inl err, m) \<Rightarrow> (Inl err, m)
     | (Inr (xs, mm, final), m) \<Rightarrow>
       (case gm_get xs name of
          None \<Rightarrow> (Inl (PathError ''xattr-remove'' path errXattrAbsent), m)
        | Some _ \<Rightarrow>
            (Inr (), emit ''chmod'' final
               (set_meta final (mm\<lparr>mm_Xattrs := Some (gm_del name xs)\<rparr>) m))))"

section \<open>Temporary names\<close>

definition memTempRoot :: string where "memTempRoot = ''/tmp''"

text \<open>The decimal digits of a number, as \<open>%d\<close> prints them.\<close>

fun dec_rev :: "nat \<Rightarrow> string" where
  "dec_rev n = (if n < 10 then [hex_digit n] else hex_digit (n mod 10) # dec_rev (n div 10))"

declare dec_rev.simps [simp del]

definition dec_str :: "int \<Rightarrow> string" where
  "dec_str i = (if i < 0 then CHR ''-'' # rev (dec_rev (nat (- i))) else rev (dec_rev (nat i)))"

definition temp_name_of :: "string \<Rightarrow> string \<Rightarrow> string" where
  "temp_name_of pattern token =
    (if CHR ''*'' \<in> set pattern
     then rev (tl (dropWhile (\<lambda>c. c \<noteq> CHR ''*'') (rev pattern))) @ token
       @ rev (takeWhile (\<lambda>c. c \<noteq> CHR ''*'') (rev pattern))
     else pattern @ token)"

text \<open>The loop that counts until a name is free; None where it never is.\<close>

partial_function (option) temp_loop ::
  "mem_env \<Rightarrow> string \<Rightarrow> string \<Rightarrow> MemFileOps \<Rightarrow> (string \<times> MemFileOps) option" where
  "temp_loop e resolved pattern m =
    (let m = m\<lparr>tempSeq := tempSeq m + 1\<rparr>;
         candidate = filepath_Join resolved (temp_name_of pattern (dec_str (tempSeq m)))
     in if infoFor e m candidate = None then Some (candidate, m)
        else temp_loop e resolved pattern m)"

definition tempName :: "mem_env \<Rightarrow> string \<Rightarrow> string \<Rightarrow> MemFileOps \<Rightarrow> (string fs_result \<times> MemFileOps) option" where
  "tempName e dir pattern m =
    (let dir = (if dir = [] then memTempRoot else dir);
         resolved = ResolvePath_mem m dir
     in case (if resolved \<noteq> filepath_Clean memTempRoot \<and> \<not> isMemRoot resolved then
                (case infoFor e m resolved of
                   None \<Rightarrow> Some (PathError ''createtemp'' dir ErrNotExist)
                 | Some fi \<Rightarrow>
                     if fi_IsDir fi then None else Some (PathError ''createtemp'' dir errMemNotDir))
              else None) of
          Some err \<Rightarrow> Some (Inl err, m)
        | None \<Rightarrow>
            (case temp_loop e resolved pattern m of
               None \<Rightarrow> None
             | Some (p, m) \<Rightarrow> Some (Inr p, m)))"

definition TempFile_mem :: "mem_env \<Rightarrow> string \<Rightarrow> string \<Rightarrow> MemFileOps \<Rightarrow> (string fs_result \<times> MemFileOps) option" where
  "TempFile_mem e dir pattern m =
    (case tempName e dir pattern m of
       None \<Rightarrow> None
     | Some (Inl err, m) \<Rightarrow> Some (Inl err, m)
     | Some (Inr path, m) \<Rightarrow>
       (case writeFileLocked e path [] 0x180 m of
          (Inl err, m) \<Rightarrow> Some (Inl err, m)
        | (Inr _, m) \<Rightarrow> Some (Inr path, m)))"

definition TempDir_mem :: "mem_env \<Rightarrow> string \<Rightarrow> string \<Rightarrow> MemFileOps \<Rightarrow> (string fs_result \<times> MemFileOps) option" where
  "TempDir_mem e dir pattern m =
    (case tempName e dir pattern m of
       None \<Rightarrow> None
     | Some (Inl err, m) \<Rightarrow> Some (Inl err, m)
     | Some (Inr path, m) \<Rightarrow>
       (case mkdirAllLocked e path 0x1C0 m of
          (Inl err, m) \<Rightarrow> Some (Inl err, m)
        | (Inr _, m) \<Rightarrow> Some (Inr path, m)))"

definition Statfs_mem :: "mem_env \<Rightarrow> string \<Rightarrow> MemFileOps \<Rightarrow> FsInfo fs_result" where
  "Statfs_mem e path m =
    (case resolve m path True of
       Inl err \<Rightarrow> Inl err
     | Inr final \<Rightarrow>
       if infoFor e m final = None \<and> \<not> isMemRoot final
       then Inl (PathError ''statfs'' path ErrNotExist)
       else let total = 0x40000000 :: 64 word;
                used = fold (\<lambda>(p, data) u. u + of_nat (length data)) (Files m) 0;
                free = total - min used total
            in Inr \<lparr> fs_TotalBytes = total, fs_FreeBytes = free, fs_AvailBytes = free,
                 fs_BlockSize = 4096, fs_Type = ''mem'' \<rparr>)"

section \<open>Subscriptions\<close>

definition Watch_mem :: "mem_env \<Rightarrow> string \<Rightarrow> WatchOpts \<Rightarrow> nat mem_op" where
  "Watch_mem e path opts m =
    (case resolve m path True of
       Inl err \<Rightarrow> (Inl err, m)
     | Inr final \<Rightarrow>
       if infoFor e m final = None then (Inl (PathError ''watch'' path ErrNotExist), m)
       else (Inr (next_addr m),
             m\<lparr>watchers := watchers m @ [\<lparr> mw_addr = next_addr m, mw_root = final, mw_ch = [],
                  mw_recursive = wo_Recursive opts, mw_overflow = False \<rparr>],
               next_addr := Suc (next_addr m)\<rparr>))"

text \<open>The stop function of a subscription: what the closed channel still holds, if it was live.\<close>

definition stop_watch :: "nat \<Rightarrow> MemFileOps \<Rightarrow> WatchEvent list option \<times> MemFileOps" where
  "stop_watch a m =
    (case find (\<lambda>w. mw_addr w = a) (watchers m) of
       None \<Rightarrow> (None, m)
     | Some w \<Rightarrow>
         (Some (flushOverflow (mw_ch w) (mw_root w) (mw_overflow w)),
          m\<lparr>watchers := remove1 w (watchers m)\<rparr>))"

text \<open>The subscriber takes an event out of its channel.\<close>

definition receive_watch :: "nat \<Rightarrow> MemFileOps \<Rightarrow> WatchEvent option \<times> MemFileOps" where
  "receive_watch a m =
    (case find (\<lambda>w. mw_addr w = a) (watchers m) of
       None \<Rightarrow> (None, m)
     | Some w \<Rightarrow>
       (case mw_ch w of
          [] \<Rightarrow> (None, m)
        | ev # evs \<Rightarrow>
            (Some ev, m\<lparr>watchers := map (\<lambda>u. if mw_addr u = a then u\<lparr>mw_ch := evs\<rparr> else u) (watchers m)\<rparr>)))"

end
