(* ===== verification/Mem_Resolve.thy ===== *)
theory Mem_Resolve
  imports Mem_Ops
begin

text \<open>
  Laws of path resolution in MemFileOps: the result is a clean path with no file
  and no link above it, and resolution depends only on where links and files
  are.
\<close>

section \<open>Joining a component\<close>

lemma clean_comps_append:
  "clean_comps r out (cs @ ds) = clean_comps r (rev (clean_comps r out cs)) ds"
  by (induction r out cs rule: clean_comps.induct)
    (auto simp: clean_comps.simps(2) split: list.splits)

lemma Clean_append:
  assumes "comps_ok r cs"
  shows "filepath_Clean (clean_str r cs @ slash # p) = clean_str r (clean_comps r (rev cs) (go_split slash p))"
proof -
  have id: "clean_comps r [] cs = cs" using clean_comps_id [of r "[]" cs] assms by simp
  have abs: "filepath_IsAbs (clean_str r cs @ slash # p) = r"
    using IsAbs_clean_str [OF assms] clean_str_nonempty [OF assms]
    by (auto simp: filepath_IsAbs_def go_has_prefix_def take_append
        simp: Suc_le_eq split: nat_diff_split)
  show ?thesis
  proof (cases "cs = []")
    case True
    then show ?thesis
      using abs by (cases r) (auto simp: clean_str_def filepath_Clean_def)
  next
    case False
    have "go_split slash (go_join slash cs @ slash # p) = cs @ go_split slash p"
      using split_join_sep [OF False comps_ok_slash [OF assms], of p] by simp
    then show ?thesis
      using abs False id clean_comps_append [of r "[]" cs "go_split slash p"]
      by (cases r) (auto simp: clean_str_def filepath_Clean_def)
  qed
qed

lemma Clean_join:
  assumes "comps_ok r cs" "comp_ok c"
  shows "filepath_Clean (clean_str r cs @ slash # c) = clean_str r (clean_comps r (rev cs) [c])"
  using Clean_append [OF assms(1), of c] assms(2) by (simp add: go_split_part comp_ok_def)

lemma Join_comp:
  assumes "is_clean acc" "comp_ok c"
  shows "is_clean (filepath_Join acc c)"
    and "filepath_Dir (filepath_Join acc c) = acc \<or> filepath_Join acc c = filepath_Dir acc"
proof -
  obtain r cs where acc: "comps_ok r cs" "acc = clean_str r cs" using assms(1) by (rule is_cleanE)
  have j: "filepath_Join acc c = clean_str r (clean_comps r (rev cs) [c])"
    using acc Clean_join [OF acc(1) assms(2)] by (simp add: filepath_Join_def)
  have nn: "c \<noteq> []" "c \<noteq> ''.''" using assms by (auto simp: comp_ok_def)
  show "is_clean (filepath_Join acc c)"
    using acc by (auto simp: filepath_Join_def)
  show "filepath_Dir (filepath_Join acc c) = acc \<or> filepath_Join acc c = filepath_Dir acc"
  proof (cases "c = ''..''")
    case False
    then have "filepath_Join acc c = clean_str r (cs @ [c])"
      using j nn by (simp add: clean_comps.simps(2))
    then show ?thesis
      using acc assms False comps_ok_snoc Dir_clean_str by metis
  next
    case dd: True
    show ?thesis
    proof (cases cs rule: rev_cases)
      case Nil
      have "comps_ok False [''..'']" by (simp add: comps_ok_def comp_ok_def)
      then have "filepath_Dir (clean_str False [''..'']) = clean_str False []"
        using Dir_clean_str [of False "[]" "''..''"] by simp
      then show ?thesis
        using Nil j dd nn acc by (cases r) (auto simp: clean_comps.simps(2) clean_str_def)
    next
      case (snoc ds d)
      show ?thesis
      proof (cases "d = ''..''")
        case True
        have ok: "comps_ok r (cs @ [c])"
          using acc snoc True dd assms comps_ok_snoc_iff [of r "ds @ [d]" c]
          by (auto simp: comps_ok_snoc_iff)
        have "filepath_Join acc c = clean_str r (cs @ [c])"
          using j dd nn snoc True by (simp add: clean_comps.simps(2))
        then show ?thesis using ok acc Dir_clean_str by metis
      next
        case False
        then have "filepath_Join acc c = clean_str r ds"
          using j dd nn snoc by (simp add: clean_comps.simps(2))
        then show ?thesis using acc snoc Dir_clean_str by metis
      qed
    qed
  qed
qed

lemma Join_first:
  assumes "comp_ok c"
  shows "is_clean (filepath_Join [] c)" "isMemRoot (filepath_Dir (filepath_Join [] c))"
proof -
  have ok: "comps_ok False [c]"
    using assms by (auto simp: comps_ok_def)
  have "filepath_Join [] c = clean_str False [c]"
    using assms Clean_clean_str [OF ok] by (auto simp: filepath_Join_def clean_str_def comp_ok_def)
  then show "is_clean (filepath_Join [] c)" "isMemRoot (filepath_Dir (filepath_Join [] c))"
    using ok Dir_clean_str [of False "[]" c] by (auto simp: root_clean_str)
qed

text \<open>The components the walk starts with.\<close>

lemma walk_comps:
  assumes "is_clean p" "\<not> isMemRoot p"
  shows "filepath_IsAbs p \<Longrightarrow> list_all comp_ok (go_split slash (tl p)) \<and> ''..'' \<notin> set (go_split slash (tl p))"
    and "\<not> filepath_IsAbs p \<Longrightarrow> list_all comp_ok (go_split slash p)"
proof -
  obtain r cs where p: "comps_ok r cs" "p = clean_str r cs" using assms(1) by (rule is_cleanE)
  have ne: "cs \<noteq> []" using assms p root_clean_str by auto
  have r: "filepath_IsAbs p = r" using p by simp
  have sp: "go_split slash (go_join slash cs) = cs" using ne p by (simp add: go_split_join comps_ok_slash)
  show "list_all comp_ok (go_split slash (tl p)) \<and> ''..'' \<notin> set (go_split slash (tl p))" if "filepath_IsAbs p"
    using that r sp p by (simp add: clean_str_def comps_ok_def)
  show "list_all comp_ok (go_split slash p)" if "\<not> filepath_IsAbs p"
    using that r sp p ne by (simp add: clean_str_def comps_ok_def)
qed

section \<open>What resolution guarantees\<close>

text \<open>No name above a path, or none at it or above it, is a file or a link.\<close>

definition plain_at :: "MemFileOps \<Rightarrow> string \<Rightarrow> bool" where
  "plain_at m q = (\<not> isFileEntry m q \<and> link_target m q = None)"

definition plain_above :: "MemFileOps \<Rightarrow> string \<Rightarrow> bool" where
  "plain_above m p =
    (\<forall>q. is_clean q \<and> \<not> isMemRoot q \<and> isUnder p q \<and> q \<noteq> p \<longrightarrow> plain_at m q)"

definition plain_to :: "MemFileOps \<Rightarrow> string \<Rightarrow> bool" where
  "plain_to m p = (\<forall>q. is_clean q \<and> \<not> isMemRoot q \<and> isUnder p q \<longrightarrow> plain_at m q)"

lemma plain_to_above: "plain_to m p \<Longrightarrow> plain_above m p"
  by (auto simp: plain_to_def plain_above_def)

lemma plain_above_to: "\<lbrakk>plain_above m p; \<not> isMemRoot p \<longrightarrow> plain_at m p\<rbrakk> \<Longrightarrow> plain_to m p"
  by (auto simp: plain_to_def plain_above_def)

lemma plain_above_root: "\<lbrakk>is_clean p; isMemRoot p\<rbrakk> \<Longrightarrow> plain_to m p"
  using isUnder_root by (auto simp: plain_to_def)

lemma plain_above_Dir:
  assumes "is_clean p" "plain_to m (filepath_Dir p)"
  shows "plain_above m p"
proof (cases "isMemRoot p")
  case True
  then show ?thesis using plain_above_root plain_to_above assms by blast
next
  case False
  then show ?thesis
    using assms by (auto simp: plain_above_def plain_to_def isUnder_Dir)
qed

lemma plain_to_Dir:
  assumes "is_clean p" "plain_to m p"
  shows "plain_to m (filepath_Dir p)"
  unfolding plain_to_def
proof (intro allI impI, elim conjE)
  fix q assume q: "is_clean q" "\<not> isMemRoot q" "isUnder (filepath_Dir p) q"
  then have "isUnder p q"
    using assms isUnder_Dir isUnder_root [OF _ q] by (metis clean_cases is_clean_Dir)
  with assms q show "plain_at m q" by (auto simp: plain_to_def)
qed

definition resolved_ok :: "MemFileOps \<Rightarrow> bool \<Rightarrow> (nat \<times> string) fs_result \<Rightarrow> bool" where
  "resolved_ok m follow r =
    (case r of
       Inl _ \<Rightarrow> True
     | Inr (d, p) \<Rightarrow> is_clean p \<and> plain_above m p \<and> (follow \<and> \<not> isMemRoot p \<longrightarrow> link_target m p = None))"

definition walk_pre :: "MemFileOps \<Rightarrow> bool \<Rightarrow> string \<Rightarrow> string list \<Rightarrow> bool" where
  "walk_pre m follow acc cs =
    (list_all comp_ok cs \<and>
     (if cs = [] then resolved_ok m follow (Inr (0, acc))
      else acc = [] \<or> (is_clean acc \<and> plain_to m acc)))"

lemma walk_step:
  assumes "walk_pre m follow acc (c # cs)"
  shows "is_clean (filepath_Join acc c) \<and> plain_above m (filepath_Join acc c) \<and> list_all comp_ok cs"
proof -
  have c: "comp_ok c" "list_all comp_ok cs" using assms by (auto simp: walk_pre_def)
  show ?thesis
  proof (cases "acc = []")
    case True
    then show ?thesis
      using Join_first [OF c(1)] c plain_above_Dir plain_above_root is_clean_Dir by metis
  next
    case False
    then have acc: "is_clean acc" "plain_to m acc" using assms by (auto simp: walk_pre_def)
    note j = Join_comp [OF acc(1) c(1)]
    from j(2) have "plain_above m (filepath_Join acc c)"
    proof
      assume "filepath_Dir (filepath_Join acc c) = acc"
      then show ?thesis using plain_above_Dir [OF j(1)] acc by simp
    next
      assume "filepath_Join acc c = filepath_Dir acc"
      then show ?thesis using plain_to_Dir [OF acc] plain_to_above by simp
    qed
    with j c show ?thesis by blast
  qed
qed

lemma resolve_ok_parts:
  shows "is_clean resolved \<longrightarrow> resolved_ok m follow (resolveSteps m resolved follow d orig)"
    and "walk_pre m follow acc cs \<longrightarrow> resolved_ok m follow (comp_walk m acc cs follow d orig)"
    and "is_clean p \<and> plain_above m p \<and> list_all comp_ok cs \<longrightarrow>
      resolved_ok m follow (link_chase m p cs follow d orig)"
proof (induction m resolved follow d orig and m acc cs follow d orig and m p cs follow d orig
    rule: resolveSteps_comp_walk_link_chase.induct)
  case (1 m resolved follow d orig)
  show ?case
  proof (intro impI)
    assume c: "is_clean resolved"
    show "resolved_ok m follow (resolveSteps m resolved follow d orig)"
    proof (cases "isMemRoot resolved \<or> resolved = []")
      case True
      then show ?thesis
        using c plain_to_above [OF plain_above_root] is_clean_nonempty
        by (auto simp: resolveSteps.simps resolved_ok_def)
    next
      case nr: False
      have sl: "is_clean [slash]" "plain_to m [slash]"
        using is_cleanI [of True "[]"] plain_above_root [of "[slash]" m]
        by (auto simp: clean_str_def isMemRoot_def)
      show ?thesis
      proof (cases "filepath_IsAbs resolved")
        case True
        have "walk_pre m follow [slash] (go_split slash (tl resolved))"
          using walk_comps(1) [of resolved] c nr True sl by (simp add: walk_pre_def)
        then show ?thesis using 1(1) [OF nr True] nr True by (simp add: resolveSteps.simps)
      next
        case False
        have "walk_pre m follow [] (go_split slash resolved)"
          using walk_comps(2) [of resolved] c nr False by (simp add: walk_pre_def)
        then show ?thesis using 1(2) [OF nr False] nr False by (simp add: resolveSteps.simps)
      qed
    qed
  qed
next
  case (2 m acc follow d orig)
  then show ?case by (simp add: walk_pre_def resolved_ok_def)
next
  case (3 m acc c cs follow d orig)
  then show ?case using walk_step by simp
next
  case (4 m p cs follow d orig)
  show ?case
  proof (intro impI, elim conjE)
    assume p: "is_clean p" "plain_above m p" "list_all comp_ok cs"
    show "resolved_ok m follow (link_chase m p cs follow d orig)"
    proof (cases "if cs = [] \<and> \<not> follow then None else link_target m p")
      case None
      show ?thesis
      proof (cases "cs \<noteq> [] \<and> isFileEntry m p")
        case True
        with None show ?thesis by (simp add: link_chase.simps resolved_ok_def)
      next
        case False
        have "walk_pre m follow p cs"
        proof (cases "cs = []")
          case True
          then show ?thesis using p None by (auto simp: walk_pre_def resolved_ok_def split: if_splits)
        next
          case ne: False
          then have "plain_at m p" using None False by (auto simp: plain_at_def split: if_splits)
          then show ?thesis using ne p plain_above_to by (auto simp: walk_pre_def)
        qed
        moreover have "link_chase m p cs follow d orig = comp_walk m p cs follow d orig"
          unfolding link_chase.simps [of m p] None using False by auto
        ultimately show ?thesis using 4(1) [OF None False] by simp
      qed
    next
      case (Some t)
      let ?r = "resolveSteps m
        (filepath_Clean (if filepath_IsAbs t then t else filepath_Join (filepath_Dir p) t)) True (Suc d) orig"
      show ?thesis
      proof (cases "40 < Suc d")
        case True
        then show ?thesis using Some by (simp add: link_chase.simps [of m p] resolved_ok_def)
      next
        case False
        show ?thesis
        proof (cases ?r)
          case (Inl err)
          then show ?thesis using Some False by (simp add: link_chase.simps [of m p] resolved_ok_def)
        next
          case (Inr q)
          obtain d' rp where q: "q = (d', rp)" by (cases q)
          have "resolved_ok m True ?r" using 4(2) [OF Some False] by simp
          then have "is_clean rp \<and> plain_above m rp" using Inr q by (simp add: resolved_ok_def)
          moreover have "link_chase m p cs follow d orig = link_chase m rp cs follow d' orig"
            using Some False Inr q by (simp add: link_chase.simps [of m p])
          ultimately show ?thesis using 4(3) [OF Some False Inr q [symmetric]] p by simp
        qed
      qed
    qed
  qed
qed

lemma is_clean_ResolvePath [simp]: "is_clean (ResolvePath_mem m path)"
  by (simp add: ResolvePath_mem_def)

lemma resolve_ok:
  assumes "resolve m path follow = Inr p"
  shows "is_clean p" "plain_above m p" "follow \<Longrightarrow> \<not> isMemRoot p \<Longrightarrow> link_target m p = None"
proof -
  have "resolved_ok m follow (resolveSteps m (ResolvePath_mem m path) follow 0 path)"
    using resolve_ok_parts(1) by simp
  with assms show "is_clean p" "plain_above m p" "follow \<Longrightarrow> \<not> isMemRoot p \<Longrightarrow> link_target m p = None"
    by (auto simp: resolve_def resolved_ok_def split: sum.splits prod.splits)
qed

section \<open>What resolution depends on\<close>

lemma resolve_parts_cong:
  assumes "link_target m' = link_target m" "isFileEntry m' = isFileEntry m"
  shows "resolveSteps m' resolved follow d orig = resolveSteps m resolved follow d orig"
    and "comp_walk m' acc cs follow d orig = comp_walk m acc cs follow d orig"
    and "link_chase m' p cs follow d orig = link_chase m p cs follow d orig"
  using assms
proof (induction m resolved follow d orig and m acc cs follow d orig and m p cs follow d orig
    rule: resolveSteps_comp_walk_link_chase.induct)
  case (1 m resolved follow d orig)
  then show ?case by (simp add: resolveSteps.simps)
next
  case (4 m p cs follow d orig)
  then show ?case
    by (simp add: link_chase.simps [of m p] link_chase.simps [of m' p] cong: option.case_cong sum.case_cong)
      (auto split: option.split sum.split if_split)
qed simp_all

lemma resolve_cong:
  assumes "link_target m' = link_target m" "isFileEntry m' = isFileEntry m" "Cwd m' = Cwd m"
  shows "resolve m' = resolve m"
  using resolve_parts_cong(1) [OF assms(1,2)] assms(3)
  by (auto simp: resolve_def ResolvePath_mem_def fun_eq_iff)

lemma Join_normal:
  assumes "is_clean acc" "comp_ok c" "c \<noteq> ''..''"
  shows "filepath_Dir (filepath_Join acc c) = acc" "\<not> isMemRoot (filepath_Join acc c)"
    "filepath_IsAbs (filepath_Join acc c) = filepath_IsAbs acc"
proof -
  obtain r cs where acc: "comps_ok r cs" "acc = clean_str r cs" using assms(1) by (rule is_cleanE)
  have j: "filepath_Join acc c = clean_str r (cs @ [c])"
    using acc Clean_join [OF acc(1) assms(2)] assms
    by (simp add: filepath_Join_def clean_comps.simps(2) comp_ok_def)
  have ok: "comps_ok r (cs @ [c])" using acc assms comps_ok_snoc by simp
  show "filepath_Dir (filepath_Join acc c) = acc" "\<not> isMemRoot (filepath_Join acc c)"
    "filepath_IsAbs (filepath_Join acc c) = filepath_IsAbs acc"
    using j ok acc by (simp_all add: Dir_clean_str root_clean_str)
qed

lemma Join_under:
  assumes "is_clean acc" "comp_ok c" "c \<noteq> ''..''" "\<not> isMemRoot acc"
  shows "isUnder (filepath_Join acc c) acc" "filepath_Join acc c \<noteq> acc"
proof -
  have cl: "is_clean (filepath_Join acc c)" using Join_comp assms by blast
  show "isUnder (filepath_Join acc c) acc"
    using isUnder_Dir_le [OF cl] Join_normal [OF assms(1-3)] assms(4) by simp
  show "filepath_Join acc c \<noteq> acc"
    using Dir_neq [OF cl] Join_normal [OF assms(1-3)] by auto
qed

lemma absent_walk:
  assumes "is_clean p" "\<not> isMemRoot p" "\<forall>q. isUnder q p \<longrightarrow> plain_at m q"
    and "list_all comp_ok cs" "''..'' \<notin> set cs"
  shows "\<exists>q. comp_walk m p cs follow d orig = Inr (d, q) \<and> isUnder q p \<and> (cs \<noteq> [] \<longrightarrow> q \<noteq> p)"
  using assms
proof (induction cs arbitrary: p)
  case Nil
  then show ?case by simp
next
  case (Cons c cs)
  have c: "comp_ok c" "c \<noteq> ''..''" using Cons.prems by auto
  let ?q = "filepath_Join p c"
  note u = Join_under [OF Cons.prems(1) c Cons.prems(2)]
  have q: "is_clean ?q" "\<not> isMemRoot ?q"
    using Join_comp Join_normal Cons.prems(1) c by blast+
  have pl: "\<forall>x. isUnder x ?q \<longrightarrow> plain_at m x" using Cons.prems(3) u isUnder_trans by blast
  then have "plain_at m ?q" by simp
  then have "comp_walk m p (c # cs) follow d orig = comp_walk m ?q cs follow d orig"
    by (simp add: link_chase.simps plain_at_def)
  moreover obtain x where "comp_walk m ?q cs follow d orig = Inr (d, x)" "isUnder x ?q"
    using Cons.IH [OF q pl] Cons.prems by auto
  moreover have "x \<noteq> p" using u calculation(3) isUnder_antisym by blast
  ultimately show ?case using u isUnder_trans by auto
qed

lemma absent_chase:
  assumes "is_clean p" "\<not> isMemRoot p" "\<forall>q. isUnder q p \<longrightarrow> plain_at m q"
    and "list_all comp_ok cs" "''..'' \<notin> set cs"
  shows "\<exists>q. link_chase m p cs follow d orig = Inr (d, q) \<and> isUnder q p \<and> (cs \<noteq> [] \<longrightarrow> q \<noteq> p)"
proof -
  have "plain_at m p" using assms(3) by simp
  then have "link_chase m p cs follow d orig = comp_walk m p cs follow d orig"
    by (simp add: link_chase.simps plain_at_def)
  then show ?thesis using absent_walk [OF assms] by simp
qed

lemma IsAbs_Clean [simp]: "filepath_IsAbs (filepath_Clean p) = filepath_IsAbs p"
  unfolding filepath_Clean_def
  by (rule IsAbs_clean_str, rule clean_comps_ok) (auto dest: go_split_no_sep)

lemma IsAbs_Dir [simp]: "is_clean p \<Longrightarrow> filepath_IsAbs (filepath_Dir p) = filepath_IsAbs p"
  by (erule clean_cases) (auto dest: comps_ok_prefix)

lemma IsAbs_append: "a \<noteq> [] \<Longrightarrow> filepath_IsAbs (a @ b) = filepath_IsAbs a"
  by (cases a) (auto simp: filepath_IsAbs_def go_has_prefix_def)

lemma IsAbs_Join: "a \<noteq> [] \<Longrightarrow> filepath_IsAbs (filepath_Join a b) = filepath_IsAbs a"
  by (simp add: filepath_Join_def IsAbs_append)

text \<open>
  A new file at a name with nothing at or under it changes no rooted resolution,
  except of names strictly under it.
\<close>

definition strictly_under :: "string \<Rightarrow> string \<Rightarrow> bool" where
  "strictly_under q f = (isUnder q f \<and> q \<noteq> f)"

definition stable_at :: "string \<Rightarrow> (nat \<times> string) fs_result \<Rightarrow> (nat \<times> string) fs_result \<Rightarrow> bool" where
  "stable_at f r r' =
    (case r of Inl _ \<Rightarrow> True
     | Inr (d, q) \<Rightarrow> is_clean q \<and> filepath_IsAbs q \<and> (r' = r \<or> strictly_under q f))"

lemma new_file_parts:
  assumes f: "is_clean f" "\<not> isMemRoot f" "\<forall>q. isUnder q f \<longrightarrow> plain_at m q"
    and m': "link_target m' = link_target m" "\<And>q. isFileEntry m' q = (isFileEntry m q \<or> q = f)"
  shows "is_clean resolved \<and> filepath_IsAbs resolved \<longrightarrow>
      stable_at f (resolveSteps m resolved follow d orig) (resolveSteps m' resolved follow d orig)"
    and "is_clean acc \<and> filepath_IsAbs acc \<and> list_all comp_ok cs \<and> ''..'' \<notin> set cs \<longrightarrow>
      stable_at f (comp_walk m acc cs follow d orig) (comp_walk m' acc cs follow d orig)"
    and "is_clean p \<and> filepath_IsAbs p \<and> list_all comp_ok cs \<and> ''..'' \<notin> set cs \<longrightarrow>
      stable_at f (link_chase m p cs follow d orig) (link_chase m' p cs follow d orig)"
  using f m'
proof (induction m resolved follow d orig and m acc cs follow d orig and m p cs follow d orig
    rule: resolveSteps_comp_walk_link_chase.induct)
  case (1 m resolved follow d orig)
  have sl: "is_clean [slash]" "filepath_IsAbs [slash]"
    using is_cleanI [of True "[]"] by (auto simp: clean_str_def filepath_IsAbs_def go_has_prefix_def)
  show ?case
  proof (intro impI, elim conjE)
    assume c: "is_clean resolved" "filepath_IsAbs resolved"
    show "stable_at f (resolveSteps m resolved follow d orig) (resolveSteps m' resolved follow d orig)"
    proof (cases "isMemRoot resolved \<or> resolved = []")
      case True
      then show ?thesis using c by (auto simp: resolveSteps.simps stable_at_def)
    next
      case nr: False
      then show ?thesis
        using 1(1) [OF nr c(2)] 1(3-) walk_comps(1) [OF c(1)] c sl
        by (simp add: resolveSteps.simps)
    qed
  qed
next
  case (2 m acc follow d orig)
  then show ?case by (simp add: stable_at_def)
next
  case (3 m acc c cs follow d orig)
  show ?case
  proof (intro impI, elim conjE)
    assume a: "is_clean acc" "filepath_IsAbs acc" "list_all comp_ok (c # cs)" "''..'' \<notin> set (c # cs)"
    then have "comp_ok c" "c \<noteq> ''..''" by auto
    then have "is_clean (filepath_Join acc c)" "filepath_IsAbs (filepath_Join acc c)"
      using a Join_normal(3) Join_comp(1) by blast+
    with 3 a show "stable_at f (comp_walk m acc (c # cs) follow d orig) (comp_walk m' acc (c # cs) follow d orig)"
      by simp
  qed
next
  case (4 m p cs follow d orig)
  note f = 4(4-6) and m' = 4(7,8)
  show ?case
  proof (intro impI, elim conjE)
    assume p: "is_clean p" "filepath_IsAbs p" "list_all comp_ok cs" "''..'' \<notin> set cs"
    have lt: "(if cs = [] \<and> \<not> follow then None else link_target m' p)
        = (if cs = [] \<and> \<not> follow then None else link_target m p)"
      using m' by simp
    show "stable_at f (link_chase m p cs follow d orig) (link_chase m' p cs follow d orig)"
    proof (cases "if cs = [] \<and> \<not> follow then None else link_target m p")
      case None
      show ?thesis
      proof (cases "cs \<noteq> [] \<and> isFileEntry m p")
        case True
        with None show ?thesis by (simp add: link_chase.simps [of m p] stable_at_def)
      next
        case nf: False
        have e: "link_chase m p cs follow d orig = comp_walk m p cs follow d orig"
          unfolding link_chase.simps [of m p] None using nf by auto
        show ?thesis
        proof (cases "cs \<noteq> [] \<and> p = f")
          case True
          then obtain q where "link_chase m p cs follow d orig = Inr (d, q)" "isUnder q f" "q \<noteq> f"
            using absent_chase [of p m cs follow d orig] f p by auto
          moreover have "stable_at f (comp_walk m p cs follow d orig) (comp_walk m' p cs follow d orig)"
            using 4(1) [OF None nf f m'] p by simp
          then have "is_clean q \<and> filepath_IsAbs q"
            using calculation(1) unfolding e by (simp add: stable_at_def)
          ultimately show ?thesis by (simp add: stable_at_def strictly_under_def)
        next
          case False
          have "link_chase m' p cs follow d orig = comp_walk m' p cs follow d orig"
            unfolding link_chase.simps [of m' p] lt None using nf False m' by auto
          then show ?thesis using 4(1) [OF None nf f m'] p e by simp
        qed
      qed
    next
      case (Some t)
      let ?t = "filepath_Clean (if filepath_IsAbs t then t else filepath_Join (filepath_Dir p) t)"
      have tabs: "filepath_IsAbs ?t"
        using p IsAbs_Join [of "filepath_Dir p" t] is_clean_nonempty by auto
      show ?thesis
      proof (cases "40 < Suc d")
        case True
        then show ?thesis using Some by (simp add: link_chase.simps [of m p] stable_at_def)
      next
        case False
        show ?thesis
        proof (cases "resolveSteps m ?t True (Suc d) orig")
          case (Inl err)
          then show ?thesis using Some False by (simp add: link_chase.simps [of m p] stable_at_def)
        next
          case (Inr q)
          obtain d' rp where q: "q = (d', rp)" by (cases q)
          have st: "stable_at f (resolveSteps m ?t True (Suc d) orig) (resolveSteps m' ?t True (Suc d) orig)"
            using 4(2) [OF Some False f m'] tabs by simp
          then have rp: "is_clean rp" "filepath_IsAbs rp" using Inr q by (auto simp: stable_at_def)
          have e: "link_chase m p cs follow d orig = link_chase m rp cs follow d' orig"
            using Some False Inr q by (simp add: link_chase.simps [of m p])
          have IH: "stable_at f (link_chase m rp cs follow d' orig) (link_chase m' rp cs follow d' orig)"
            using 4(3) [OF Some False Inr q [symmetric] f m'] rp p by simp
          show ?thesis
          proof (cases "resolveSteps m' ?t True (Suc d) orig = resolveSteps m ?t True (Suc d) orig")
            case True
            then have "link_chase m' p cs follow d orig = link_chase m' rp cs follow d' orig"
              using Some False Inr q lt by (simp add: link_chase.simps [of m' p] m')
            then show ?thesis using IH e by simp
          next
            case dif: False
            then have su: "isUnder rp f" "rp \<noteq> f"
              using st Inr q by (auto simp: stable_at_def strictly_under_def)
            have "\<not> isMemRoot rp" using isUnder_root rp f su by blast
            moreover have "\<forall>x. isUnder x rp \<longrightarrow> plain_at m x" using f(3) su isUnder_trans by blast
            ultimately obtain x where x: "link_chase m rp cs follow d' orig = Inr (d', x)" "isUnder x rp"
              using absent_chase [of rp m cs follow d' orig] rp p by auto
            have "strictly_under x f"
              using su x isUnder_trans isUnder_antisym unfolding strictly_under_def by blast
            then show ?thesis using IH x e by (simp add: stable_at_def)
          qed
        qed
      qed
    qed
  qed
qed

lemma resolve_new_file:
  assumes "resolve m path follow = Inr f" "filepath_IsAbs (ResolvePath_mem m path)"
    and "\<not> isMemRoot f" "\<forall>q. isUnder q f \<longrightarrow> plain_at m q"
    and m': "link_target m' = link_target m" "\<And>q. isFileEntry m' q = (isFileEntry m q \<or> q = f)"
      "Cwd m' = Cwd m"
  shows "resolve m' path follow = Inr f"
proof -
  have cw: "ResolvePath_mem m' path = ResolvePath_mem m path" using m' by (simp add: ResolvePath_mem_def)
  have "is_clean f" using resolve_ok assms(1) by blast
  then have "stable_at f (resolveSteps m (ResolvePath_mem m path) follow 0 path)
      (resolveSteps m' (ResolvePath_mem m path) follow 0 path)"
    using new_file_parts(1) [OF _ assms(3,4) m'(1,2)] assms(2) by simp
  with assms(1) show ?thesis
    unfolding resolve_def cw
    by (auto simp: stable_at_def strictly_under_def split: sum.splits prod.splits)
qed

end
