(* ===== verification/Mem_Laws.thy ===== *)
theory Mem_Laws
  imports Mem_Resolve
begin

text \<open>
  The invariant of the maps of MemFileOps, the view of a state as a tree of
  nodes, and the effect of every primitive on both.
\<close>

section \<open>Invariant\<close>

definition entry :: "MemFileOps \<Rightarrow> string \<Rightarrow> bool" where
  "entry m p = (isFileEntry m p \<or> is_dir m p \<or> link_target m p \<noteq> None)"

definition maps_ok :: "MemFileOps \<Rightarrow> bool" where
  "maps_ok m = (gm_ok (Files m) \<and> gm_ok (Dirs m) \<and> gm_ok (Metas m) \<and> gm_ok (Links m))"

text \<open>Every name is clean, and what holds it is a recorded directory or a root.\<close>

definition tree_ok :: "MemFileOps \<Rightarrow> bool" where
  "tree_ok m = (\<forall>p. entry m p \<longrightarrow>
    is_clean p \<and> (isMemRoot (filepath_Dir p) \<or> is_dir m (filepath_Dir p)))"

text \<open>A name is of one kind only; no root is recorded as a directory.\<close>

definition kinds_ok :: "MemFileOps \<Rightarrow> bool" where
  "kinds_ok m = (\<forall>p.
    (gm_get (Files m) p \<noteq> None \<longrightarrow> gm_get (Links m) p = None) \<and>
    (link_target m p \<noteq> None \<longrightarrow> \<not> isFileEntry m p \<and> \<not> is_dir m p) \<and>
    (is_dir m p \<longrightarrow> \<not> isFileEntry m p \<and> \<not> isMemRoot p))"

text \<open>An alias leads to a file that holds data, and what holds data or is a directory has
  metadata.\<close>

definition refs_ok :: "MemFileOps \<Rightarrow> bool" where
  "refs_ok m =
    ((\<forall>a c. gm_get (Links m) a = Some c \<longrightarrow> gm_get (Files m) c \<noteq> None) \<and>
     (\<forall>p b. gm_get (Dirs m) p = Some b \<longrightarrow> b) \<and>
     (\<forall>p. gm_get (Files m) p \<noteq> None \<or> is_dir m p \<longrightarrow> gm_get (Metas m) p \<noteq> None))"

definition fs_ok :: "MemFileOps \<Rightarrow> bool" where
  "fs_ok m = (maps_ok m \<and> tree_ok m \<and> kinds_ok m \<and> refs_ok m)"

named_theorems fs_defs \<open>the parts of the invariant\<close>

lemmas [fs_defs] = fs_ok_def tree_ok_def kinds_ok_def refs_ok_def

lemma isFileEntry_get: "isFileEntry m p \<longleftrightarrow> gm_get (Files m) p \<noteq> None \<or> gm_get (Links m) p \<noteq> None"
  unfolding isFileEntry_def gm_has_def ..

lemma NewMem_ok: "fs_ok NewMem"
  by (auto simp: fs_defs maps_ok_def NewMem_def entry_def isFileEntry_get is_dir_def link_target_def
      gm_ok_def gm_empty_def gm_get_def)

lemma fs_okD:
  assumes "fs_ok m"
  shows "maps_ok m" "tree_ok m" "kinds_ok m" "refs_ok m"
  using assms by (auto simp: fs_ok_def)

lemma entry_clean: "\<lbrakk>fs_ok m; entry m p\<rbrakk> \<Longrightarrow> is_clean p"
  by (simp add: fs_ok_def tree_ok_def)

lemma entry_parent:
  "\<lbrakk>fs_ok m; entry m p\<rbrakk> \<Longrightarrow> isMemRoot (filepath_Dir p) \<or> is_dir m (filepath_Dir p)"
  by (simp add: fs_ok_def tree_ok_def)

lemma dir_entry: "is_dir m p \<Longrightarrow> entry m p"
  by (simp add: entry_def)

lemma dir_kind: "\<lbrakk>fs_ok m; is_dir m p\<rbrakk> \<Longrightarrow> \<not> isFileEntry m p \<and> \<not> isMemRoot p \<and> link_target m p = None"
  by (auto simp: fs_ok_def kinds_ok_def)

lemma link_kind: "\<lbrakk>fs_ok m; link_target m p \<noteq> None\<rbrakk> \<Longrightarrow> \<not> isFileEntry m p \<and> \<not> is_dir m p"
  by (auto simp: fs_ok_def kinds_ok_def)

lemma alias_kind: "\<lbrakk>fs_ok m; gm_get (Links m) a = Some c\<rbrakk> \<Longrightarrow>
    gm_get (Files m) a = None \<and> gm_get (Files m) c \<noteq> None"
  by (auto simp: fs_ok_def kinds_ok_def refs_ok_def)

lemma meta_present: "\<lbrakk>fs_ok m; gm_get (Files m) p \<noteq> None \<or> is_dir m p\<rbrakk> \<Longrightarrow> gm_get (Metas m) p \<noteq> None"
  by (auto simp: fs_ok_def refs_ok_def)

text \<open>What lies above an entry is a directory.\<close>

lemma above_entry:
  assumes "fs_ok m" "entry m q" "isUnder q f" "q \<noteq> f" "is_clean f" "\<not> isMemRoot f"
  shows "is_dir m f"
  using assms(2-4)
proof (induction "dir_measure q" arbitrary: q rule: less_induct)
  case less
  have q: "is_clean q" using entry_clean assms(1) less.prems by blast
  have nr: "\<not> isMemRoot q" using isUnder_root q assms(5,6) less.prems by blast
  have u: "isUnder (filepath_Dir q) f"
    using isUnder_Dir [OF q assms(5,6) nr] less.prems by auto
  have "\<not> isMemRoot (filepath_Dir q)" using isUnder_root [OF _ assms(5,6) u] by simp
  then have d: "is_dir m (filepath_Dir q)" using entry_parent assms(1) less.prems by blast
  show ?case
  proof (cases "filepath_Dir q = f")
    case False
    have "dir_measure (filepath_Dir q) < dir_measure q"
      using nr q is_clean_nonempty by (intro Dir_measure) (auto simp: isMemRoot_def)
    then show ?thesis using less.hyps dir_entry [OF d] u False by blast
  qed (use d in simp)
qed

lemma nothing_under:
  assumes "fs_ok m" "is_clean f" "\<not> isMemRoot f" "\<not> is_dir m f" "isUnder q f" "q \<noteq> f"
  shows "\<not> entry m q"
  using above_entry assms by blast

section \<open>The tree of nodes\<close>

datatype fnode =
    NFile "8 word list" "memMeta option"
  | NDir "memMeta option"
  | NLink memMeta

definition view :: "MemFileOps \<Rightarrow> string \<Rightarrow> fnode option" where
  "view m p =
    (if link_target m p \<noteq> None then map_option NLink (gm_get (Metas m) p)
     else if isFileEntry m p
     then Some (NFile (file_data m (canon m p)) (gm_get (Metas m) (canon m p)))
     else if is_dir m p then Some (NDir (gm_get (Metas m) p))
     else None)"

lemma view_entry: "view m p \<noteq> None \<longleftrightarrow> entry m p"
  by (auto simp: view_def entry_def link_target_def split: option.splits)

lemma view_None: "view m p = None \<longleftrightarrow> \<not> entry m p"
  using view_entry [of m p] by blast

text \<open>The info of a name is a function of its node.\<close>

definition info_of :: "mem_env \<Rightarrow> string \<Rightarrow> fnode \<Rightarrow> FileInfo" where
  "info_of e name n =
    (case n of
       NLink mm \<Rightarrow> \<lparr> fi_Name = name, fi_Size = int (length (mm_Target mm)), fi_Mode = or ModeSymlink ModePerm,
         fi_ModTime = mm_MTime mm, fi_IsDir = False, fi_Symlink = True, fi_Target = mm_Target mm,
         fi_UID = fst (ownerOf e (Some mm)), fi_GID = snd (ownerOf e (Some mm)) \<rparr>
     | NFile data mm \<Rightarrow> \<lparr> fi_Name = name, fi_Size = int (length data), fi_Mode = modeOf mm perm_file,
         fi_ModTime = mtimeOf mm, fi_IsDir = False, fi_Symlink = False, fi_Target = [],
         fi_UID = fst (ownerOf e mm), fi_GID = snd (ownerOf e mm) \<rparr>
     | NDir mm \<Rightarrow> \<lparr> fi_Name = name, fi_Size = 0, fi_Mode = or ModeDir (and (modeOf mm perm_dir) ModePerm),
         fi_ModTime = mtimeOf mm, fi_IsDir = True, fi_Symlink = False, fi_Target = [],
         fi_UID = fst (ownerOf e mm), fi_GID = snd (ownerOf e mm) \<rparr>)"

lemma infoFor_view: "infoFor e m p = map_option (info_of e (filepath_Base p)) (view m p)"
  by (auto simp: infoFor_def view_def info_of_def link_target_def Let_def mtimeOf_def split: option.splits)

lemma infoFor_None: "infoFor e m p = None \<longleftrightarrow> \<not> entry m p"
  by (simp add: infoFor_view view_None)

lemma info_of_kind [simp]:
  "fi_IsDir (info_of e n (NFile d mm)) = False" "fi_Symlink (info_of e n (NFile d mm)) = False"
  "fi_IsDir (info_of e n (NDir mm)) = True" "fi_Symlink (info_of e n (NDir mm)) = False"
  "fi_IsDir (info_of e n (NLink k)) = False" "fi_Symlink (info_of e n (NLink k)) = True"
  by (simp_all add: info_of_def)

lemma view_kinds:
  assumes "fs_ok m"
  shows "(\<exists>mm. view m p = Some (NDir mm)) \<longleftrightarrow> is_dir m p"
    and "(\<exists>k. view m p = Some (NLink k)) \<longleftrightarrow> link_target m p \<noteq> None"
    and "(\<exists>d mm. view m p = Some (NFile d mm)) \<longleftrightarrow> isFileEntry m p"
  using dir_kind [OF assms, of p] link_kind [OF assms, of p]
  by (auto simp: view_def link_target_def split: option.splits)

section \<open>Recording directories\<close>

abbreviation dir_of :: "string \<Rightarrow> string \<Rightarrow> bool" where
  "dir_of dir q \<equiv> is_clean q \<and> \<not> isMemRoot q \<and> isUnder dir q"

definition dir_meta :: "mem_env \<Rightarrow> memMeta" where
  "dir_meta e = stampOwner e (zero_memMeta\<lparr>mm_Mode := perm_dir, mm_MTime := clock e\<rparr>)"

lemma dir_meta_target [simp]: "mm_Target (dir_meta e) = []"
  by (simp add: dir_meta_def stampOwner_def zero_memMeta_def)

lemma recordDir_other [simp]:
  "Files (recordDir e dir m) = Files m" "Links (recordDir e dir m) = Links m"
  "Cwd (recordDir e dir m) = Cwd m" "watchers (recordDir e dir m) = watchers m"
  "fileLocks (recordDir e dir m) = fileLocks m" "next_addr (recordDir e dir m) = next_addr m"
  "tempSeq (recordDir e dir m) = tempSeq m"
  by (induction e dir m rule: recordDir.induct; subst recordDir.simps; simp)+

lemma recordDir_maps: "maps_ok m \<Longrightarrow> maps_ok (recordDir e dir m)"
proof (induction e dir m rule: recordDir.induct)
  case (1 e dir m)
  then show ?case
    by (subst recordDir.simps) (auto simp: maps_ok_def gm.ok_put)
qed

lemma dir_of_step:
  assumes "is_clean dir" "\<not> isMemRoot dir"
  shows "dir_of dir q \<longleftrightarrow> q = dir \<or> dir_of (filepath_Dir dir) q"
  using assms isUnder_Dir [of dir q] by auto

lemma dir_of_root: "\<lbrakk>is_clean dir; isMemRoot dir\<rbrakk> \<Longrightarrow> \<not> dir_of dir q"
  using isUnder_root by blast

lemma recordDir_Dirs:
  "is_clean dir \<Longrightarrow> gm_get (Dirs (recordDir e dir m)) q
    = (if dir_of dir q then Some True else gm_get (Dirs m) q)"
proof (induction e dir m rule: recordDir.induct)
  case (1 e dir m)
  show ?case
  proof (cases "isMemRoot dir")
    case True
    then show ?thesis using dir_of_root [OF 1(2) True]
      by (subst recordDir.simps) (auto simp: isMemRoot_def)
  next
    case False
    then have "\<not> (dir = ''.'' \<or> dir = [slash] \<or> dir = [])"
      using is_clean_nonempty 1(2) by (auto simp: isMemRoot_def)
    note e = 1(1) [OF this is_clean_Dir]
    show ?thesis
      using False \<open>\<not> (dir = ''.'' \<or> dir = [slash] \<or> dir = [])\<close> dir_of_step [OF 1(2) False, of q]
      by (subst recordDir.simps) (simp add: e)
  qed
qed

lemma recordDir_Metas:
  "is_clean dir \<Longrightarrow> gm_get (Metas (recordDir e dir m)) q
    = (if dir_of dir q \<and> gm_get (Metas m) q = None then Some (dir_meta e) else gm_get (Metas m) q)"
proof (induction e dir m rule: recordDir.induct)
  case (1 e dir m)
  show ?case
  proof (cases "isMemRoot dir")
    case True
    then show ?thesis using dir_of_root [OF 1(2) True]
      by (subst recordDir.simps) (auto simp: isMemRoot_def)
  next
    case False
    then have "\<not> (dir = ''.'' \<or> dir = [slash] \<or> dir = [])"
      using is_clean_nonempty 1(2) by (auto simp: isMemRoot_def)
    note e = 1(1) [OF this is_clean_Dir]
    show ?thesis
      using False \<open>\<not> (dir = ''.'' \<or> dir = [slash] \<or> dir = [])\<close> dir_of_step [OF 1(2) False, of q]
      by (subst recordDir.simps) (auto simp: e dir_meta_def)
  qed
qed

lemma recordDir_link: "is_clean dir \<Longrightarrow> link_target (recordDir e dir m) = link_target m"
  by (rule ext) (simp add: link_target_def recordDir_Metas)

lemma recordDir_file: "isFileEntry (recordDir e dir m) = isFileEntry m"
  by (rule ext) (simp add: isFileEntry_get)

lemma recordDir_is_dir: "is_clean dir \<Longrightarrow> is_dir (recordDir e dir m) q \<longleftrightarrow> dir_of dir q \<or> is_dir m q"
  by (auto simp: is_dir_def recordDir_Dirs)

lemma recordDir_ok:
  assumes "fs_ok m" "is_clean dir" "plain_to m dir"
  shows "fs_ok (recordDir e dir m)"
proof -
  let ?m = "recordDir e dir m"
  have ent: "entry ?m p \<longleftrightarrow> entry m p \<or> dir_of dir p" for p
    using assms(2) by (auto simp: entry_def recordDir_link recordDir_file recordDir_is_dir)
  have pl: "plain_at m q" if "dir_of dir q" for q
    using assms(3) that by (auto simp: plain_to_def)
  have "tree_ok ?m"
    unfolding tree_ok_def
  proof (intro allI impI)
    fix p assume "entry ?m p"
    then consider "entry m p" | "dir_of dir p" using ent by blast
    then show "is_clean p \<and> (isMemRoot (filepath_Dir p) \<or> is_dir ?m (filepath_Dir p))"
    proof cases
      case 1
      then show ?thesis
        using entry_clean entry_parent assms(1) recordDir_is_dir [OF assms(2)] by blast
    next
      case 2
      have "isMemRoot (filepath_Dir p) \<or> dir_of dir (filepath_Dir p)"
        using 2 isUnder_Dir_le [of p] isUnder_trans [of dir p "filepath_Dir p"] by blast
      then show ?thesis using 2 recordDir_is_dir [OF assms(2)] by blast
    qed
  qed
  moreover have "kinds_ok ?m"
    using fs_okD(3) [OF assms(1)] pl assms(2) unfolding kinds_ok_def
    by (auto simp: recordDir_link recordDir_file recordDir_is_dir plain_at_def)
  moreover have "refs_ok ?m"
    using fs_okD(4) [OF assms(1)] assms(2) unfolding refs_ok_def
    by (auto simp: recordDir_is_dir recordDir_Dirs recordDir_Metas)
  ultimately show ?thesis
    using recordDir_maps fs_okD(1) [OF assms(1)] by (simp add: fs_ok_def)
qed

lemma recordDir_view:
  assumes "fs_ok m" "is_clean dir" "plain_to m dir"
  shows "view (recordDir e dir m) q
    = (if dir_of dir q \<and> \<not> is_dir m q then Some (NDir (gm_get (Metas (recordDir e dir m)) q)) else view m q)"
proof -
  have pl: "dir_of dir q \<Longrightarrow> plain_at m q" using assms(3) by (auto simp: plain_to_def)
  have c: "canon (recordDir e dir m) q = canon m q" by (simp add: canon_def)
  have mt: "gm_get (Metas (recordDir e dir m)) q = gm_get (Metas m) q" if "gm_get (Metas m) q \<noteq> None" for q
    using that assms(2) by (simp add: recordDir_Metas)
  have fc: "gm_get (Metas m) (canon m q) \<noteq> None" if "isFileEntry m q"
    using that meta_present [OF assms(1)] alias_kind [OF assms(1)]
    by (auto simp: isFileEntry_get canon_def split: option.splits)
  have ld: "gm_get (Metas m) q \<noteq> None" if "link_target m q \<noteq> None \<or> is_dir m q"
    using that meta_present [OF assms(1), of q] by (auto simp: link_target_def split: option.splits)
  show ?thesis
  proof (cases "dir_of dir q \<and> \<not> is_dir m q")
    case True
    then have "plain_at m q" using pl by blast
    with True assms(2) show ?thesis
      by (simp add: view_def recordDir_link recordDir_file recordDir_is_dir plain_at_def)
  next
    case False
    then show ?thesis
      using assms(2) c mt fc ld False
      by (auto simp: view_def recordDir_link recordDir_file recordDir_is_dir file_data_def)
  qed
qed

end
