(* ===== verification/Mem_Tree.thy ===== *)
theory Mem_Tree
  imports Mem_Laws
begin

text \<open>
  Unlinking a name, removing a subtree and moving a subtree in MemFileOps: each
  keeps the invariant and acts on the view as the operation on a tree, hard
  links included.
\<close>

section \<open>Maps\<close>

lemma gm_drop_get [simp]: "gm_get (gm_drop P mp) k = (if P k then None else gm_get mp k)"
  by (induction mp) (auto simp: gm_drop_def gm_get_def)

lemma gm_drop_ok: "gm_ok mp \<Longrightarrow> gm_ok (gm_drop P mp)"
  unfolding gm_ok_def gm_drop_def by (simp add: distinct_map_filter)

lemma gm_put_all_get:
  "gm_get (fold (\<lambda>a. gm_put a v) as mp) q = (if q \<in> set as then Some v else gm_get mp q)"
  by (induction as arbitrary: mp) auto

lemma gm_put_all_ok: "gm_ok mp \<Longrightarrow> gm_ok (fold (\<lambda>a. gm_put a v) as mp)"
  by (induction as arbitrary: mp) (auto simp: gm.ok_put)

lemma gm_get_in: "gm_ok mp \<Longrightarrow> gm_get mp k = Some v \<longleftrightarrow> (k, v) \<in> set mp"
  by (simp add: gm_get_def gm_ok_def)

lemma gm_get_keys: "gm_get mp k \<noteq> None \<longleftrightarrow> k \<in> set (gm_keys mp)"
  by (metis gm_has_iff gm_has_def)

lemma is_dir_Dirs: "fs_ok m \<Longrightarrow> is_dir m p \<longleftrightarrow> gm_get (Dirs m) p \<noteq> None"
  unfolding is_dir_def fs_ok_def refs_ok_def by (cases "gm_get (Dirs m) p") auto

section \<open>Unlinking\<close>

lemma set_aliases: "maps_ok m \<Longrightarrow> set (aliases_of m p) = {a. gm_get (Links m) a = Some p}"
  by (auto simp: aliases_of_def maps_ok_def gm_get_in image_iff)

lemma distinct_aliases: "maps_ok m \<Longrightarrow> distinct (aliases_of m p)"
  by (auto simp: aliases_of_def maps_ok_def gm_ok_def distinct_map_filter)

text \<open>The heir of a name: the alias that takes its content over.\<close>

definition heir :: "MemFileOps \<Rightarrow> string \<Rightarrow> string option" where
  "heir m p = (case aliases_of m p of [] \<Rightarrow> None | a # as \<Rightarrow> Some a)"

lemma heir_alias: "\<lbrakk>maps_ok m; heir m p = Some a\<rbrakk> \<Longrightarrow> gm_get (Links m) a = Some p"
  using set_aliases [of m p] by (auto simp: heir_def split: list.splits)

lemma heir_None: "\<lbrakk>maps_ok m; heir m p = None\<rbrakk> \<Longrightarrow> gm_get (Links m) a \<noteq> Some p"
  using set_aliases [of m p] by (auto simp: heir_def split: list.splits)

lemma unlink_gets:
  assumes ok: "fs_ok m" and p: "isFileEntry m p"
  shows "gm_get (Files (removeFileEntry p m)) q
      = (if q = p then None else if heir m p = Some q then Some (file_data m p) else gm_get (Files m) q)"
    and "gm_get (Links (removeFileEntry p m)) q
      = (if q = p then None
         else if gm_get (Links m) q = Some p then (if heir m p = Some q then None else heir m p)
         else gm_get (Links m) q)"
    and "gm_get (Metas (removeFileEntry p m)) q
      = (if q = p \<and> gm_get (Files m) p \<noteq> None then None
         else if heir m p = Some q then gm_get (Metas m) p else gm_get (Metas m) q)"
    and "Dirs (removeFileEntry p m) = Dirs m"
    and "maps_ok (removeFileEntry p m)"
proof -
  note maps = fs_okD(1) [OF ok]
  have "(gm_get (Files (removeFileEntry p m)) q
      = (if q = p then None else if heir m p = Some q then Some (file_data m p) else gm_get (Files m) q)) \<and>
    (gm_get (Links (removeFileEntry p m)) q
      = (if q = p then None
         else if gm_get (Links m) q = Some p then (if heir m p = Some q then None else heir m p)
         else gm_get (Links m) q)) \<and>
    (gm_get (Metas (removeFileEntry p m)) q
      = (if q = p \<and> gm_get (Files m) p \<noteq> None then None
         else if heir m p = Some q then gm_get (Metas m) p else gm_get (Metas m) q)) \<and>
    Dirs (removeFileEntry p m) = Dirs m \<and> maps_ok (removeFileEntry p m)"
  proof (cases "gm_get (Links m) p")
    case (Some c)
    have np: "gm_get (Files m) p = None" using alias_kind [OF ok Some] by simp
    have na: "gm_get (Links m) a \<noteq> Some p" for a
      using alias_kind [OF ok, of a p] np by auto
    then have "heir m p = None"
      using heir_alias [OF maps, of p] by (cases "heir m p") auto
    moreover have "removeFileEntry p m = m\<lparr>Links := gm_del p (Links m)\<rparr>"
      using Some by (simp add: removeFileEntry_def gm_has_def del: gm_has_iff)
    ultimately show ?thesis
      using np na maps by (auto simp: maps_ok_def gm.ok_del)
  next
    case None
    then have fp: "gm_get (Files m) p \<noteq> None" using p by (simp add: isFileEntry_get)
    have nh: "\<not> gm_has (Links m) p" using None by (simp add: gm_has_def del: gm_has_iff)
    have mp: "gm_get (Metas m) p \<noteq> None" using meta_present [OF ok] fp by blast
    show ?thesis
    proof (cases "aliases_of m p")
      case Nil
      have na: "gm_get (Links m) a \<noteq> Some p" for a
        using set_aliases [OF maps, of p] Nil by auto
      have "removeFileEntry p m = m\<lparr>Files := gm_del p (Files m), Metas := gm_del p (Metas m)\<rparr>"
        using nh Nil by (simp add: removeFileEntry_def del: gm_has_iff)
      then show ?thesis
        using Nil na fp None maps by (auto simp: maps_ok_def gm.ok_del heir_def)
    next
      case (Cons a0 as)
      have al: "set (a0 # as) = {a. gm_get (Links m) a = Some p}"
        using set_aliases [OF maps, of p] Cons by simp
      have d: "a0 \<notin> set as" using distinct_aliases [OF maps, of p] Cons by simp
      have "a0 \<in> set (a0 # as)" by simp
      then have qa0: "gm_get (Links m) a0 = Some p" unfolding al by simp
      have a0: "a0 \<noteq> p" using qa0 None by auto
      have "q \<in> set (a0 # as) \<longleftrightarrow> gm_get (Links m) q = Some p" for q
        unfolding al by simp
      then have as: "q \<in> set as \<longleftrightarrow> gm_get (Links m) q = Some p \<and> q \<noteq> a0" for q
        using d by (metis set_ConsD list.set_intros(2))
      obtain mm where mm: "gm_get (Metas m) p = Some mm" using mp by blast
      have e: "removeFileEntry p m =
          m\<lparr>Files := gm_del p (gm_put a0 (file_data m p) (Files m)),
            Metas := gm_del p (gm_put a0 mm (Metas m)),
            Links := fold (\<lambda>a. gm_put a a0) as (gm_del a0 (Links m))\<rparr>"
        using nh Cons mm by (simp add: removeFileEntry_def del: gm_has_iff)
      have h: "heir m p = Some q \<longleftrightarrow> a0 = q" using Cons by (auto simp: heir_def)
      have hv: "heir m p = Some a0" using Cons by (simp add: heir_def)
      have F: "gm_get (Files (removeFileEntry p m)) q
          = (if q = p then None else if heir m p = Some q then Some (file_data m p) else gm_get (Files m) q)"
        unfolding e h by simp
      have L: "gm_get (Links (removeFileEntry p m)) q
          = (if q = p then None
             else if gm_get (Links m) q = Some p then (if heir m p = Some q then None else heir m p)
             else gm_get (Links m) q)"
        unfolding e using None as [of q] a0 qa0 hv by (auto simp: gm_put_all_get)
      have M: "gm_get (Metas (removeFileEntry p m)) q
          = (if q = p \<and> gm_get (Files m) p \<noteq> None then None
             else if heir m p = Some q then gm_get (Metas m) p else gm_get (Metas m) q)"
        unfolding e h using fp mm by simp
      have "maps_ok (removeFileEntry p m)"
        unfolding e using maps by (simp add: maps_ok_def gm.ok_del gm.ok_put gm_put_all_ok)
      with F L M show ?thesis by (simp add: e)
    qed
  qed
  then show "gm_get (Files (removeFileEntry p m)) q
      = (if q = p then None else if heir m p = Some q then Some (file_data m p) else gm_get (Files m) q)"
    and "gm_get (Links (removeFileEntry p m)) q
      = (if q = p then None
         else if gm_get (Links m) q = Some p then (if heir m p = Some q then None else heir m p)
         else gm_get (Links m) q)"
    and "gm_get (Metas (removeFileEntry p m)) q
      = (if q = p \<and> gm_get (Files m) p \<noteq> None then None
         else if heir m p = Some q then gm_get (Metas m) p else gm_get (Metas m) q)"
    and "Dirs (removeFileEntry p m) = Dirs m"
    and "maps_ok (removeFileEntry p m)"
    by blast+
qed

text \<open>The node of every other name, its content included, is what it was.\<close>

lemma unlink_view:
  assumes ok: "fs_ok m" and p: "isFileEntry m p"
  shows "view (removeFileEntry p m) q = (if q = p then None else view m q)"
proof -
  let ?m = "removeFileEntry p m"
  note g = unlink_gets [OF ok p]
  note maps = fs_okD(1) [OF ok]
  have hp: "gm_get (Links m) a = Some p" if "heir m p = Some a" for a
    using heir_alias [OF maps that] .
  have lp: "link_target m p = None" "\<not> is_dir m p"
    using p dir_kind [OF ok, of p] link_kind [OF ok, of p] by blast+
  have fileq: "isFileEntry ?m q \<longleftrightarrow> isFileEntry m q \<and> q \<noteq> p"
    using hp heir_None [OF maps] by (auto simp: isFileEntry_get g)
  have hl: "link_target m a = None" if "heir m p = Some a" for a
    using hp [OF that] link_kind [OF ok, of a] by (cases "link_target m a") (auto simp: isFileEntry_get)
  have lt: "link_target ?m q = link_target m q"
  proof (cases "heir m p = Some q")
    case True
    have "q \<noteq> p" using hp [OF True] alias_kind [OF ok, of q p] by auto
    then have "link_target ?m q = link_target m p" using True by (simp add: link_target_def g)
    then show ?thesis using hl [OF True] lp by simp
  next
    case False
    then show ?thesis using lp by (auto simp: link_target_def g)
  qed
  have dr: "is_dir ?m q = is_dir m q" by (simp add: is_dir_def g)
  show ?thesis
  proof (cases "q = p")
    case True
    then show ?thesis using lt lp fileq dr by (simp add: view_def)
  next
    case ne: False
    show ?thesis
    proof (cases "isFileEntry m q")
      case False
      then have "heir m p \<noteq> Some q" using hp by (auto simp: isFileEntry_get)
      then have "gm_get (Metas ?m) q = gm_get (Metas m) q" using ne by (simp add: g)
      then show ?thesis using ne False lt fileq dr by (simp add: view_def)
    next
      case True
      have lq: "link_target m q = None" using link_kind [OF ok, of q] True by blast
      have cont: "file_data ?m (canon ?m q) = file_data m (canon m q) \<and>
          gm_get (Metas ?m) (canon ?m q) = gm_get (Metas m) (canon m q)"
      proof (cases "gm_get (Links m) q")
        case None
        then have "heir m p \<noteq> Some q" using hp by auto
        then show ?thesis using None ne by (simp add: canon_def g file_data_def)
      next
        case (Some c)
        note fc = alias_kind [OF ok Some]
        show ?thesis
        proof (cases "c = p")
          case False
          have "heir m p \<noteq> Some c"
          proof
            assume "heir m p = Some c"
            then show False using hp alias_kind [OF ok, of c p] fc by blast
          qed
          then show ?thesis using Some ne False by (simp add: canon_def g file_data_def)
        next
          case True
          then obtain h where h: "heir m p = Some h" using heir_None [OF maps, of p q] Some by blast
          have hne: "h \<noteq> p" using hp [OF h] fc True alias_kind [OF ok, of p p] by auto
          show ?thesis
          proof (cases "h = q")
            case True
            then show ?thesis using Some h hne \<open>c = p\<close> by (simp add: canon_def g file_data_def)
          next
            case False
            then show ?thesis using Some h hne \<open>c = p\<close> ne by (simp add: canon_def g file_data_def)
          qed
        qed
      qed
      show ?thesis using ne True lt lq fileq cont by (simp add: view_def)
    qed
  qed
qed

lemma unlink_parts:
  assumes ok: "fs_ok m" and p: "isFileEntry m p"
  shows "is_dir (removeFileEntry p m) = is_dir m"
    and "link_target (removeFileEntry p m) = link_target m"
    and "isFileEntry (removeFileEntry p m) q \<longleftrightarrow> isFileEntry m q \<and> q \<noteq> p"
    and "entry (removeFileEntry p m) q \<longleftrightarrow> entry m q \<and> q \<noteq> p"
proof -
  note g = unlink_gets [OF ok p] and v = unlink_view [OF ok p]
  show d: "is_dir (removeFileEntry p m) = is_dir m"
    by (rule ext) (simp add: is_dir_def g)
  show e: "entry (removeFileEntry p m) q \<longleftrightarrow> entry m q \<and> q \<noteq> p" for q
    using v [of q] by (auto simp flip: view_entry)
  note maps = fs_okD(1) [OF ok]
  show f: "isFileEntry (removeFileEntry p m) q \<longleftrightarrow> isFileEntry m q \<and> q \<noteq> p" for q
    using heir_alias [OF maps] heir_None [OF maps] by (auto simp: isFileEntry_get g)
  have lp: "link_target m p = None" using p link_kind [OF ok, of p] by blast
  show "link_target (removeFileEntry p m) = link_target m"
  proof
    fix q
    show "link_target (removeFileEntry p m) q = link_target m q"
    proof (cases "heir m p = Some q")
      case True
      then have "gm_get (Links m) q = Some p" using heir_alias [OF maps] by blast
      then have "link_target m q = None" "q \<noteq> p"
        using link_kind [OF ok, of q] alias_kind [OF ok, of q p]
        by (cases "link_target m q"; auto simp: isFileEntry_get)+
      then show ?thesis using True lp by (simp add: link_target_def g)
    next
      case False
      then show ?thesis using lp by (auto simp: link_target_def g)
    qed
  qed
qed

lemma unlink_ok:
  assumes ok: "fs_ok m" and p: "isFileEntry m p"
  shows "fs_ok (removeFileEntry p m)"
proof -
  let ?m = "removeFileEntry p m"
  note g = unlink_gets [OF ok p] and u = unlink_parts [OF ok p]
  note maps = fs_okD(1) [OF ok]
  have "tree_ok ?m"
    using fs_okD(2) [OF ok] by (simp add: tree_ok_def u)
  moreover have "kinds_ok ?m"
    unfolding kinds_ok_def
  proof (intro allI conjI impI)
    fix q assume "gm_get (Files ?m) q \<noteq> None"
    then show "gm_get (Links ?m) q = None"
      using fs_okD(3) [OF ok] heir_alias [OF maps, of p q]
      by (auto simp: g kinds_ok_def split: if_splits)
  qed (use dir_kind [OF ok] link_kind [OF ok] in \<open>auto simp: u\<close>)
  moreover have "refs_ok ?m"
    unfolding refs_ok_def
  proof (intro allI conjI impI)
    fix a c assume "gm_get (Links ?m) a = Some c"
    then consider "heir m p = Some c" "a \<noteq> p" "gm_get (Links m) a = Some p"
      | "a \<noteq> p" "gm_get (Links m) a = Some c" "c \<noteq> p"
      by (auto simp: g split: if_splits)
    then show "gm_get (Files ?m) c \<noteq> None"
    proof cases
      case 1
      then have "c \<noteq> p" using heir_alias [OF maps] alias_kind [OF ok, of p p] by auto
      with 1 show ?thesis by (simp add: g)
    next
      case 2
      then show ?thesis using alias_kind [OF ok] by (simp add: g)
    qed
  next
    fix q b assume "gm_get (Dirs ?m) q = Some b"
    then show b using fs_okD(4) [OF ok] by (auto simp: g refs_ok_def)
  next
    fix q assume a: "gm_get (Files ?m) q \<noteq> None \<or> is_dir ?m q"
    have "\<not> is_dir m p" using p dir_kind [OF ok] by blast
    then have "q \<noteq> p" using a by (auto simp: g u)
    then show "gm_get (Metas ?m) q \<noteq> None"
      using a meta_present [OF ok] heir_alias [OF maps, of p q] alias_kind [OF ok, of q p]
      by (auto simp: g u split: if_splits)
  qed
  ultimately show ?thesis using g by (simp add: fs_ok_def)
qed

section \<open>Removing a subtree\<close>

lemma drop_links_gets:
  "gm_get (Links (m\<lparr>Links := gm_drop P (Links m)\<rparr>)) q = (if P q then None else gm_get (Links m) q)"
  by simp

text \<open>The aliases inside the subtree go first: nothing is below a file, so the tree stays a tree.\<close>

lemma drop_links_ok:
  assumes ok: "fs_ok m"
  shows "fs_ok (m\<lparr>Links := gm_drop P (Links m)\<rparr>)"
    and "view (m\<lparr>Links := gm_drop P (Links m)\<rparr>) q
      = (if P q \<and> gm_get (Links m) q \<noteq> None then None else view m q)"
proof -
  let ?m = "m\<lparr>Links := gm_drop P (Links m)\<rparr>"
  have f: "isFileEntry ?m q \<longleftrightarrow> gm_get (Files m) q \<noteq> None \<or> (\<not> P q \<and> gm_get (Links m) q \<noteq> None)" for q
    by (simp add: isFileEntry_get)
  have d: "is_dir ?m = is_dir m" "link_target ?m = link_target m"
    by (auto simp: is_dir_def link_target_def fun_eq_iff)
  have e: "entry ?m q \<Longrightarrow> entry m q" for q
    using d by (auto simp: entry_def isFileEntry_get split: if_splits)
  show "fs_ok ?m"
    unfolding fs_ok_def
  proof (intro conjI)
    show "maps_ok ?m" using fs_okD(1) [OF ok] by (simp add: maps_ok_def gm_drop_ok)
    show "tree_ok ?m" using fs_okD(2) [OF ok] e by (auto simp: tree_ok_def d)
    show "kinds_ok ?m"
      using fs_okD(3) [OF ok] by (auto simp: kinds_ok_def d isFileEntry_get split: if_splits)
    show "refs_ok ?m"
      using fs_okD(4) [OF ok] by (auto simp: refs_ok_def d)
  qed
  show "view ?m q = (if P q \<and> gm_get (Links m) q \<noteq> None then None else view m q)"
  proof (cases "gm_get (Links m) q")
    case None
    then have "isFileEntry ?m q = isFileEntry m q" by (simp add: f) (simp add: isFileEntry_get)
    moreover have "canon ?m q = q" "canon m q = q" using None by (auto simp: canon_def)
    ultimately show ?thesis using None by (simp add: view_def d file_data_def)
  next
    case (Some c)
    then have "gm_get (Files m) q = None" using alias_kind [OF ok] by blast
    moreover have "link_target m q = None" "\<not> is_dir m q"
      using Some link_kind [OF ok, of q] dir_kind [OF ok, of q]
      by (cases "link_target m q"; auto simp: isFileEntry_get)+
    ultimately show ?thesis using Some by (simp add: view_def d f isFileEntry_get canon_def file_data_def)
  qed
qed

lemma unlink_all:
  assumes "fs_ok m" "distinct ps" "\<forall>p \<in> set ps. gm_get (Files m) p \<noteq> None"
    and "\<forall>a c. gm_get (Links m) a = Some c \<longrightarrow> a \<notin> S" "set ps \<subseteq> S"
  shows "fs_ok (fold removeFileEntry ps m) \<and>
    (\<forall>q. view (fold removeFileEntry ps m) q = (if q \<in> set ps then None else view m q)) \<and>
    (\<forall>a c. gm_get (Links (fold removeFileEntry ps m)) a = Some c \<longrightarrow> a \<notin> S) \<and>
    (\<forall>q \<in> S. gm_get (Files (fold removeFileEntry ps m)) q
       = (if q \<in> set ps then None else gm_get (Files m) q)) \<and>
    Dirs (fold removeFileEntry ps m) = Dirs m"
  using assms
proof (induction ps arbitrary: m)
  case Nil
  then show ?case by simp
next
  case (Cons p ps)
  let ?m = "removeFileEntry p m"
  have p: "isFileEntry m p" using Cons.prems(3) by (simp add: isFileEntry_get)
  note ok = Cons.prems(1)
  note g = unlink_gets [OF ok p] and v = unlink_view [OF ok p]
  have links: "\<forall>a c. gm_get (Links ?m) a = Some c \<longrightarrow> a \<notin> S"
    using Cons.prems(4) by (auto simp: g split: if_splits)
  have heir: "heir m p \<noteq> Some q" if "q \<in> S" for q
    using heir_alias [OF fs_okD(1) [OF ok], of p q] Cons.prems(4) that by auto
  have files: "gm_get (Files ?m) q = (if q = p then None else gm_get (Files m) q)" if "q \<in> S" for q
    using heir [OF that] by (simp add: g)
  have "\<forall>q \<in> set ps. gm_get (Files ?m) q \<noteq> None"
    using Cons.prems files by (metis distinct.simps(2) list.set_intros(2) subsetD)
  moreover have "set ps \<subseteq> S" "distinct ps" using Cons.prems by auto
  ultimately have IH: "fs_ok (fold removeFileEntry ps ?m) \<and>
    (\<forall>q. view (fold removeFileEntry ps ?m) q = (if q \<in> set ps then None else view ?m q)) \<and>
    (\<forall>a c. gm_get (Links (fold removeFileEntry ps ?m)) a = Some c \<longrightarrow> a \<notin> S) \<and>
    (\<forall>q \<in> S. gm_get (Files (fold removeFileEntry ps ?m)) q
       = (if q \<in> set ps then None else gm_get (Files ?m) q)) \<and>
    Dirs (fold removeFileEntry ps ?m) = Dirs ?m"
    using Cons.IH unlink_ok [OF ok p] links by blast
  show ?case
  proof (intro conjI)
    show "\<forall>q. view (fold removeFileEntry (p # ps) m) q = (if q \<in> set (p # ps) then None else view m q)"
      using IH v by simp
    show "\<forall>q \<in> S. gm_get (Files (fold removeFileEntry (p # ps) m)) q
        = (if q \<in> set (p # ps) then None else gm_get (Files m) q)"
    proof
      fix q assume q: "q \<in> S"
      then show "gm_get (Files (fold removeFileEntry (p # ps) m)) q
          = (if q \<in> set (p # ps) then None else gm_get (Files m) q)"
        using IH files [OF q] by (cases "q \<in> set ps"; cases "q = p") simp_all
    qed
  qed (use IH g in simp_all)
qed

lemma removeTree_laws:
  assumes ok: "fs_ok m" and r: "is_clean root" "\<not> isMemRoot root"
  shows "fs_ok (removeTree root m)"
    and "view (removeTree root m) q = (if isUnder q root then None else view m q)"
proof -
  define P where "P = (\<lambda>p. isUnder p root)"
  define m1 where "m1 = m\<lparr>Links := gm_drop P (Links m)\<rparr>"
  define ps where "ps = sort (filter P (gm_keys (Files m1)))"
  define m2 where "m2 = fold removeFileEntry ps m1"
  define m3 where "m3 = m2\<lparr>Dirs := gm_drop P (Dirs m2), Metas := gm_drop P (Metas m2)\<rparr>"
  have ok1: "fs_ok m1" and v1: "view m1 q = (if P q \<and> gm_get (Links m) q \<noteq> None then None else view m q)" for q
    using drop_links_ok [OF ok, of P] unfolding m1_def by blast+
  have fm1: "Files m1 = Files m" and lm1: "\<And>a. gm_get (Links m1) a = (if P a then None else gm_get (Links m) a)"
    by (simp_all add: m1_def)
  have e: "removeTree root m = m3"
    by (simp only: removeTree_def Let_def P_def m1_def ps_def m2_def m3_def)
  have k: "set ps = {p. P p \<and> gm_get (Files m) p \<noteq> None}"
    using gm_get_keys [of "Files m"] by (auto simp: ps_def fm1)
  have "distinct ps"
    using fs_okD(1) [OF ok] by (simp add: ps_def fm1 maps_ok_def gm_ok_def gm_keys_def)
  moreover have "\<forall>p \<in> set ps. gm_get (Files m1) p \<noteq> None" unfolding k fm1 by simp
  moreover have "\<forall>a c. gm_get (Links m1) a = Some c \<longrightarrow> a \<notin> Collect P" by (auto simp: lm1 split: if_splits)
  moreover have "set ps \<subseteq> Collect P" unfolding k by blast
  ultimately have u: "fs_ok m2 \<and>
      (\<forall>q. view m2 q = (if q \<in> set ps then None else view m1 q)) \<and>
      (\<forall>a c. gm_get (Links m2) a = Some c \<longrightarrow> a \<notin> Collect P) \<and>
      (\<forall>q \<in> Collect P. gm_get (Files m2) q = (if q \<in> set ps then None else gm_get (Files m1) q)) \<and>
      Dirs m2 = Dirs m1"
    unfolding m2_def by (rule unlink_all [OF ok1])
  then have ok2: "fs_ok m2" by blast
  have fin: "\<not> isFileEntry m2 q" if "P q" for q
  proof -
    have "gm_get (Files m2) q = (if q \<in> set ps then None else gm_get (Files m) q)"
      using u that fm1 by simp
    then have "gm_get (Files m2) q = None" using k that by auto
    moreover have "gm_get (Links m2) q = None" using u that by (cases "gm_get (Links m2) q") auto
    ultimately show ?thesis by (simp add: isFileEntry_get)
  qed
  have f3: "isFileEntry m3 = isFileEntry m2" by (auto simp: m3_def isFileEntry_get fun_eq_iff)
  have d3: "is_dir m3 q \<longleftrightarrow> is_dir m2 q \<and> \<not> P q" for q by (simp add: m3_def is_dir_def)
  have l3: "link_target m3 q = (if P q then None else link_target m2 q)" for q
    by (simp add: m3_def link_target_def)
  have e3: "entry m3 q \<longleftrightarrow> entry m2 q \<and> \<not> P q" for q
    using fin by (auto simp: entry_def f3 d3 l3)
  have cq: "canon m3 q = canon m2 q" for q by (simp add: m3_def canon_def)
  have cu: "\<not> P (canon m2 q)" if "isFileEntry m2 q" for q
  proof (cases "gm_get (Links m2) q")
    case None
    then show ?thesis using fin that by (auto simp: canon_def)
  next
    case (Some c)
    then have "isFileEntry m2 c" using alias_kind [OF ok2 Some] by (simp add: isFileEntry_get)
    then show ?thesis using fin Some by (auto simp: canon_def)
  qed
  have mt3: "gm_get (Metas m3) q = (if P q then None else gm_get (Metas m2) q)"
    and fl3: "Files m3 = Files m2" "Links m3 = Links m2" for q
    by (simp_all add: m3_def)
  have v3: "view m3 q = (if P q then None else view m2 q)"
  proof (cases "P q")
    case True
    then show ?thesis using fin by (simp add: view_def f3 d3 l3)
  next
    case False
    then show ?thesis
      using cu [of q] by (auto simp: view_def f3 d3 l3 cq file_data_def mt3 fl3)
  qed
  have "view m3 q = (if P q then None else view m q)"
  proof (cases "P q")
    case False
    then have "view m2 q = view m q" using u k v1 [of q] by simp
    with False v3 show ?thesis by simp
  qed (use v3 in simp)
  then show "view (removeTree root m) q = (if isUnder q root then None else view m q)"
    unfolding e P_def .
  show "fs_ok (removeTree root m)"
    unfolding e fs_ok_def
  proof (intro conjI)
    show "maps_ok m3" using fs_okD(1) [OF ok2] by (simp add: m3_def maps_ok_def gm_drop_ok)
    show "tree_ok m3"
      unfolding tree_ok_def
    proof (intro allI impI)
      fix p assume p: "entry m3 p"
      then have p2: "entry m2 p" "\<not> P p" using e3 by blast+
      have cl: "is_clean p" using entry_clean [OF ok2 p2(1)] .
      show "is_clean p \<and> (isMemRoot (filepath_Dir p) \<or> is_dir m3 (filepath_Dir p))"
      proof (cases "isMemRoot (filepath_Dir p)")
        case False
        then have "is_dir m2 (filepath_Dir p)" using entry_parent [OF ok2 p2(1)] by blast
        moreover have "\<not> P (filepath_Dir p)"
        proof
          assume a: "P (filepath_Dir p)"
          have "isUnder p (filepath_Dir p)" using isUnder_Dir_le [OF cl False] .
          then show False using a p2 isUnder_trans unfolding P_def by blast
        qed
        ultimately show ?thesis using cl d3 by blast
      qed (use cl in blast)
    qed
    show "kinds_ok m3"
      unfolding kinds_ok_def f3 d3 l3 fl3
    proof (rule allI)
      fix p
      show "(gm_get (Files m2) p \<noteq> None \<longrightarrow> gm_get (Links m2) p = None) \<and>
          ((if P p then None else link_target m2 p) \<noteq> None \<longrightarrow>
            \<not> isFileEntry m2 p \<and> \<not> (is_dir m2 p \<and> \<not> P p)) \<and>
          (is_dir m2 p \<and> \<not> P p \<longrightarrow> \<not> isFileEntry m2 p \<and> \<not> isMemRoot p)"
        using fs_okD(3) [OF ok2, unfolded kinds_ok_def, THEN spec, of p] by (cases "P p") simp_all
    qed
    show "refs_ok m3"
      unfolding refs_ok_def
    proof (intro conjI allI impI)
      fix a c assume "gm_get (Links m3) a = Some c"
      then show "gm_get (Files m3) c \<noteq> None" using alias_kind [OF ok2] by (simp add: fl3)
    next
      fix p b assume "gm_get (Dirs m3) p = Some b"
      then show b using fs_okD(4) [OF ok2] by (auto simp: m3_def refs_ok_def split: if_splits)
    next
      fix p assume a: "gm_get (Files m3) p \<noteq> None \<or> is_dir m3 p"
      then have "\<not> P p" using fin [of p] d3 [of p] unfolding fl3 isFileEntry_get by blast
      then show "gm_get (Metas m3) p \<noteq> None" using a meta_present [OF ok2, of p] d3 by (auto simp: fl3 mt3)
    qed
  qed
qed

end
