(* ===== verification/Mem_Move.thy ===== *)
theory Mem_Move
  imports Mem_Tree
begin

text \<open>
  Moving a subtree in MemFileOps: the four maps are rewritten key by key, and
  the result is the old tree with the subtree at its new place.
\<close>

section \<open>Rewriting the keys of a map\<close>

lemma remap_isUnder: "remap old new p = (if isUnder p old then Some (move_path old new p) else None)"
  by (auto simp: remap_def isUnder_def move_path_def go_has_prefix_iff)

lemma move_back:
  assumes "isUnder p old"
  shows "isUnder (move_path old new p) new" "move_path new old (move_path old new p) = p"
  using assms by (auto simp: isUnder_def move_path_def go_has_prefix_iff)

lemma move_eq:
  assumes "isUnder p old"
  shows "move_path old new p = q \<longleftrightarrow> isUnder q new \<and> p = move_path new old q"
proof
  assume "move_path old new p = q"
  then show "isUnder q new \<and> p = move_path new old q"
    using move_back [OF assms, of new] by auto
next
  assume a: "isUnder q new \<and> p = move_path new old q"
  then show "move_path old new p = q"
    using move_back [of q new old] by simp
qed

definition move_keys :: "(string \<Rightarrow> string option) \<Rightarrow> ('v option \<Rightarrow> 'v) \<Rightarrow> string list \<Rightarrow> (string, 'v) gomap \<Rightarrow> (string, 'v) gomap" where
  "move_keys f g ks mp = fold (\<lambda>k mp'. case f k of Some n \<Rightarrow> gm_del k (gm_put n (g (gm_get mp' k)) mp') | None \<Rightarrow> mp') ks mp"

lemma move_keys_ok: "gm_ok mp \<Longrightarrow> gm_ok (move_keys f g ks mp)"
  unfolding move_keys_def
  by (induction ks arbitrary: mp) (auto simp: gm.ok_del gm.ok_put split: option.splits)

text \<open>The keys move independently of their order when no image is itself moved.\<close>

lemma move_keys_get:
  assumes "distinct ks" "\<forall>k n. f k = Some n \<longrightarrow> f n = None" "\<forall>k k' n. f k = Some n \<longrightarrow> f k' = Some n \<longrightarrow> k = k'"
  shows "gm_get (move_keys f g ks mp) q
    = (case find (\<lambda>k. f k = Some q) ks of
         Some k \<Rightarrow> Some (g (gm_get mp k))
       | None \<Rightarrow> if q \<in> set ks \<and> f q \<noteq> None then None else gm_get mp q)"
  using assms(1)
proof (induction ks arbitrary: mp)
  case Nil
  then show ?case by (simp add: move_keys_def)
next
  case (Cons k ks)
  show ?case
  proof (cases "f k")
    case None
    have "move_keys f g (k # ks) mp = move_keys f g ks mp" using None by (simp add: move_keys_def)
    then show ?thesis using Cons None by (auto split: option.split)
  next
    case (Some n)
    let ?mp = "gm_del k (gm_put n (g (gm_get mp k)) mp)"
    have e: "move_keys f g (k # ks) mp = move_keys f g ks ?mp" using Some by (simp add: move_keys_def)
    have fn: "f n = None" using assms(2) Some by blast
    then have nk: "n \<noteq> k" "f n = None" using Some by auto
    have IH: "gm_get (move_keys f g ks ?mp) q
      = (case find (\<lambda>k. f k = Some q) ks of
           Some k \<Rightarrow> Some (g (gm_get ?mp k))
         | None \<Rightarrow> if q \<in> set ks \<and> f q \<noteq> None then None else gm_get ?mp q)"
      using Cons by simp
    show ?thesis
    proof (cases "find (\<lambda>k. f k = Some q) ks")
      case None
      then have "n = q \<longleftrightarrow> find (\<lambda>k. f k = Some q) (k # ks) = Some k" using Some by simp
      then show ?thesis unfolding e IH using None Some nk Cons.prems by auto
    next
      case (Some k')
      then have k': "k' \<in> set ks" "f k' = Some q" by (auto simp: find_Some_iff)
      then have "k' \<noteq> k" using Cons.prems by auto
      then have "f k \<noteq> Some q" using assms(3) k' by blast
      moreover have "k' \<noteq> n" using nk k' by auto
      ultimately show ?thesis unfolding e IH using Some \<open>k' \<noteq> k\<close> by simp
    qed
  qed
qed

section \<open>Moving the tree\<close>

text \<open>What the caller ensures: neither name is inside the other, nothing is at or below the new
  one, whose parent is there, and the old one is a path proper.\<close>

definition movable :: "MemFileOps \<Rightarrow> string \<Rightarrow> string \<Rightarrow> bool" where
  "movable m old new =
    (is_clean old \<and> \<not> isMemRoot old \<and> ''..'' \<notin> set (go_split slash old) \<and>
     is_clean new \<and> \<not> isMemRoot new \<and> \<not> isUnder new old \<and> \<not> isUnder old new \<and>
     (\<forall>q. isUnder q new \<longrightarrow> \<not> entry m q) \<and>
     (isMemRoot (filepath_Dir new) \<or> is_dir m (filepath_Dir new)))"

lemma move_disjoint: "\<lbrakk>movable m old new; isUnder q new\<rbrakk> \<Longrightarrow> \<not> isUnder q old"
  using isUnder_linear unfolding movable_def by blast

lemma remap_conditions:
  assumes "movable m old new"
  shows "\<forall>k n. remap old new k = Some n \<longrightarrow> remap old new n = None"
    and "\<forall>k k' n. remap old new k = Some n \<longrightarrow> remap old new k' = Some n \<longrightarrow> k = k'"
proof -
  show "\<forall>k n. remap old new k = Some n \<longrightarrow> remap old new n = None"
  proof (intro allI impI)
    fix k n assume "remap old new k = Some n"
    then have "isUnder n new" using move_back(1) by (auto simp: remap_isUnder split: if_splits)
    then show "remap old new n = None" using move_disjoint [OF assms] by (simp add: remap_isUnder)
  qed
  show "\<forall>k k' n. remap old new k = Some n \<longrightarrow> remap old new k' = Some n \<longrightarrow> k = k'"
    using move_back(2) by (auto simp: remap_isUnder split: if_splits) metis
qed

lemma find_remap:
  "find (\<lambda>k. remap old new k = Some q) ks
    = (if isUnder q new \<and> move_path new old q \<in> set ks then Some (move_path new old q) else None)"
proof -
  have "remap old new k = Some q \<longleftrightarrow> isUnder q new \<and> k = move_path new old q" for k
    using move_eq [of k old new q] move_back(1) [of q new old]
    by (auto simp: remap_isUnder)
  then have "(\<lambda>k. remap old new k = Some q) = (\<lambda>k. isUnder q new \<and> k = move_path new old q)" by blast
  then show ?thesis by (induction ks) auto
qed

lemma remap_keys_get:
  assumes "movable m old new" "gm_ok mp"
  shows "gm_get (remap_keys (remap old new) z mp) q
    = (if isUnder q new \<and> gm_get mp (move_path new old q) \<noteq> None then gm_get mp (move_path new old q)
       else if isUnder q old then None else gm_get mp q)"
proof -
  let ?g = "\<lambda>v. case v of Some v \<Rightarrow> v | None \<Rightarrow> z"
  have e: "remap_keys (remap old new) z mp = move_keys (remap old new) ?g (gm_keys mp) mp"
    by (simp add: remap_keys_def move_keys_def)
  have d: "distinct (gm_keys mp)" using assms(2) by (simp add: gm_ok_def gm_keys_def)
  have k: "move_path new old q \<in> set (gm_keys mp) \<longleftrightarrow> gm_get mp (move_path new old q) \<noteq> None"
    using gm_get_keys by metis
  have kq: "q \<in> set (gm_keys mp) \<longleftrightarrow> gm_get mp q \<noteq> None" using gm_get_keys by metis
  show ?thesis
    unfolding e move_keys_get [OF d remap_conditions [OF assms(1)]] find_remap k kq
    by (auto simp: remap_isUnder)
qed

lemma rename_gets:
  assumes ok: "fs_ok m" and mv: "movable m old new"
  defines "m' \<equiv> rename_tree old new m"
  shows "gm_get (Files m') q
      = (if isUnder q new then gm_get (Files m) (move_path new old q)
         else if isUnder q old then None else gm_get (Files m) q)"
    and "gm_get (Dirs m') q
      = (if isUnder q new then gm_get (Dirs m) (move_path new old q)
         else if isUnder q old then None else gm_get (Dirs m) q)"
    and "gm_get (Links m') q
      = map_option (\<lambda>c. if isUnder c old then move_path old new c else c)
          (if isUnder q new then gm_get (Links m) (move_path new old q)
           else if isUnder q old then None else gm_get (Links m) q)"
    and "gm_get (Metas m') q
      = (if isUnder q new \<and> gm_get (Metas m) (move_path new old q) \<noteq> None
         then gm_get (Metas m) (move_path new old q)
         else if isUnder q old then None else gm_get (Metas m) q)"
    and "maps_ok m'"
proof -
  note maps = fs_okD(1) [OF ok]
  have none: "gm_get (Files m) q = None" "gm_get (Links m) q = None" "gm_get (Dirs m) q = None"
    if "isUnder q new"
    using that mv is_dir_Dirs [OF ok, of q] by (auto simp: movable_def entry_def isFileEntry_get)
  have dis: "\<not> isUnder q old" if "isUnder q new" using move_disjoint [OF mv that] .
  show "gm_get (Files m') q
      = (if isUnder q new then gm_get (Files m) (move_path new old q)
         else if isUnder q old then None else gm_get (Files m) q)"
    using none dis remap_keys_get [OF mv, of "Files m" "[]" q] maps
    by (simp add: m'_def rename_tree_def Let_def maps_ok_def)
  have dirs: "Dirs m' = move_keys (remap old new) (\<lambda>_. True) (gm_keys (Dirs m)) (Dirs m)"
    by (simp add: m'_def rename_tree_def Let_def move_keys_def)
  have dd: "distinct (gm_keys (Dirs m))" using maps by (simp add: maps_ok_def gm_ok_def gm_keys_def)
  have tr: "gm_get (Dirs m) k = Some True" if "gm_get (Dirs m) k \<noteq> None" for k
    using that is_dir_Dirs [OF ok, of k] by (simp add: is_dir_def)
  have kb: "k \<in> set (gm_keys (Dirs m)) \<longleftrightarrow> gm_get (Dirs m) k \<noteq> None" for k
    using gm_get_keys by metis
  show "gm_get (Dirs m') q
      = (if isUnder q new then gm_get (Dirs m) (move_path new old q)
         else if isUnder q old then None else gm_get (Dirs m) q)"
    unfolding dirs move_keys_get [OF dd remap_conditions [OF mv]] find_remap kb
    using none dis tr [of "move_path new old q"]
    by (auto simp: remap_isUnder)
  have ml: "gm_get (map (\<lambda>(a, c). (a, h c)) mp) q = map_option h (gm_get mp q)"
    for h :: "string \<Rightarrow> string" and mp :: "(string, string) gomap"
    by (simp add: gm_get_def map_of_map)
  have mk: "gm_ok (map (\<lambda>(a, c). (a, h c)) mp)" if "gm_ok mp"
    for h :: "string \<Rightarrow> string" and mp :: "(string, string) gomap"
    using that by (simp add: gm_ok_def comp_def case_prod_beta)
  have hc: "(case remap old new c of Some nc \<Rightarrow> nc | None \<Rightarrow> c)
      = (if isUnder c old then move_path old new c else c)" for c
    by (simp add: remap_isUnder)
  have links: "Links m' = map (\<lambda>(a, c). (a, if isUnder c old then move_path old new c else c))
      (remap_keys (remap old new) [] (Links m))"
    by (simp add: m'_def rename_tree_def Let_def hc)
  show "gm_get (Links m') q
      = map_option (\<lambda>c. if isUnder c old then move_path old new c else c)
          (if isUnder q new then gm_get (Links m) (move_path new old q)
           else if isUnder q old then None else gm_get (Links m) q)"
    unfolding links ml
    using none dis remap_keys_get [OF mv, of "Links m" "[]" q] maps by (simp add: maps_ok_def)
  show "gm_get (Metas m') q
      = (if isUnder q new \<and> gm_get (Metas m) (move_path new old q) \<noteq> None
         then gm_get (Metas m) (move_path new old q)
         else if isUnder q old then None else gm_get (Metas m) q)"
    using remap_keys_get [OF mv, of "Metas m" zero_memMeta q] maps
    by (simp add: m'_def rename_tree_def Let_def maps_ok_def)
  have rk: "gm_ok (remap_keys (remap old new) z mp)" if "gm_ok mp" for z :: 'v and mp
    using move_keys_ok [OF that, of "remap old new" "\<lambda>v. case v of Some v \<Rightarrow> v | None \<Rightarrow> z" "gm_keys mp"]
    by (simp add: remap_keys_def move_keys_def)
  have "gm_ok (Files m')" "gm_ok (Metas m')" "gm_ok (Dirs m')" "gm_ok (Links m')"
    using maps move_keys_ok [of "Dirs m"] dirs
      move_keys_ok [of "Files m" "remap old new" "\<lambda>v. case v of Some v \<Rightarrow> v | None \<Rightarrow> []" "gm_keys (Files m)"]
      move_keys_ok [of "Metas m" "remap old new" "\<lambda>v. case v of Some v \<Rightarrow> v | None \<Rightarrow> zero_memMeta" "gm_keys (Metas m)"]
      mk [OF move_keys_ok [of "Links m" "remap old new" "\<lambda>v. case v of Some v \<Rightarrow> v | None \<Rightarrow> []" "gm_keys (Links m)"]]
    by (simp_all add: m'_def rename_tree_def Let_def maps_ok_def remap_keys_def move_keys_def)
  then show "maps_ok m'" by (simp add: maps_ok_def)
qed

section \<open>The moved tree\<close>

definition moved_from :: "string \<Rightarrow> string \<Rightarrow> string \<Rightarrow> string" where
  "moved_from old new q = (if isUnder q new then move_path new old q else q)"

definition moved_to :: "string \<Rightarrow> string \<Rightarrow> string \<Rightarrow> string" where
  "moved_to old new c = (if isUnder c old then move_path old new c else c)"

lemma movable_entry: "\<lbrakk>movable m old new; entry m q\<rbrakk> \<Longrightarrow> \<not> isUnder q new"
  by (auto simp: movable_def)

lemma back_fwd:
  assumes "movable m old new" "\<not> isUnder c new"
  shows "moved_from old new (moved_to old new c) = c" "\<not> isUnder (moved_to old new c) old"
  using assms move_back [of c old new] move_disjoint [OF assms(1)]
  by (auto simp: moved_from_def moved_to_def)

lemma fwd_back:
  assumes "movable m old new" "\<not> isUnder q old"
  shows "moved_to old new (moved_from old new q) = q" "\<not> isUnder (moved_from old new q) new"
  using assms move_back [of q new old] move_disjoint [OF assms(1)]
  by (auto simp: moved_from_def moved_to_def)

lemma rename_parts:
  assumes ok: "fs_ok m" and mv: "movable m old new" and q: "\<not> isUnder q old"
  defines "m' \<equiv> rename_tree old new m"
  shows "gm_get (Files m') q = gm_get (Files m) (moved_from old new q)"
    and "gm_get (Links m') q = map_option (moved_to old new) (gm_get (Links m) (moved_from old new q))"
    and "is_dir m' q = is_dir m (moved_from old new q)"
    and "isFileEntry m' q = isFileEntry m (moved_from old new q)"
    and "link_target m' q = link_target m (moved_from old new q)"
    and "canon m' q = moved_to old new (canon m (moved_from old new q))"
proof -
  note g = rename_gets(1-4) [OF ok mv, of q, folded m'_def]
  show f: "gm_get (Files m') q = gm_get (Files m) (moved_from old new q)"
    using q by (simp add: g moved_from_def)
  show l: "gm_get (Links m') q = map_option (moved_to old new) (gm_get (Links m) (moved_from old new q))"
    using q by (simp add: g moved_from_def moved_to_def [abs_def])
  show "is_dir m' q = is_dir m (moved_from old new q)"
    using q by (simp add: is_dir_def g moved_from_def)
  show "isFileEntry m' q = isFileEntry m (moved_from old new q)"
    by (simp add: isFileEntry_get f l)
  have "link_target m q = None" if "isUnder q new"
    using that mv by (auto simp: movable_def entry_def)
  then show "link_target m' q = link_target m (moved_from old new q)"
    using q by (auto simp: link_target_def g moved_from_def split: option.splits if_splits)
  show "canon m' q = moved_to old new (canon m (moved_from old new q))"
    using fwd_back(1) [OF mv q] by (simp add: canon_def l split: option.split)
qed

lemma rename_metas:
  assumes "fs_ok m" "movable m old new" "\<not> isUnder q old" "gm_get (Metas m) (moved_from old new q) \<noteq> None"
  shows "gm_get (Metas (rename_tree old new m)) q = gm_get (Metas m) (moved_from old new q)"
  using assms(3,4) by (auto simp: rename_gets(4) [OF assms(1,2)] moved_from_def)

lemma rename_none:
  assumes "fs_ok m" "movable m old new" "isUnder q old"
  shows "\<not> entry (rename_tree old new m) q"
proof -
  have "\<not> isUnder q new" using move_disjoint assms by blast
  then show ?thesis
    using assms(3) by (simp add: entry_def isFileEntry_get is_dir_def link_target_def rename_gets [OF assms(1,2)])
qed

lemma rename_entry:
  assumes "fs_ok m" "movable m old new" "\<not> isUnder q old"
  shows "entry (rename_tree old new m) q \<longleftrightarrow> entry m (moved_from old new q)"
  by (simp add: entry_def rename_parts [OF assms])

lemma canon_file:
  assumes "fs_ok m" "isFileEntry m q"
  shows "gm_get (Files m) (canon m q) \<noteq> None" "gm_get (Metas m) (canon m q) \<noteq> None"
proof -
  show f: "gm_get (Files m) (canon m q) \<noteq> None"
    using assms alias_kind [OF assms(1)] by (auto simp: isFileEntry_get canon_def split: option.split)
  then show "gm_get (Metas m) (canon m q) \<noteq> None" using meta_present [OF assms(1)] by blast
qed

lemma rename_view:
  assumes ok: "fs_ok m" and mv: "movable m old new"
  shows "view (rename_tree old new m) q = (if isUnder q old then None else view m (moved_from old new q))"
proof (cases "isUnder q old")
  case True
  then show ?thesis using rename_none [OF ok mv True] view_None by simp
next
  case q: False
  let ?m = "rename_tree old new m" and ?b = "moved_from old new q"
  note p = rename_parts [OF ok mv q] and mt = rename_metas [OF ok mv]
  have cont: "file_data ?m (canon ?m q) = file_data m (canon m ?b) \<and>
      gm_get (Metas ?m) (canon ?m q) = gm_get (Metas m) (canon m ?b)" if f: "isFileEntry m ?b"
  proof -
    note cf = canon_file [OF ok f]
    have "entry m (canon m ?b)" using cf(1) by (simp add: entry_def isFileEntry_get)
    then have nn: "\<not> isUnder (canon m ?b) new" using movable_entry [OF mv] by blast
    note bf = back_fwd [OF mv nn]
    show ?thesis
      unfolding p(6) using rename_parts(1) [OF ok mv bf(2)] mt [OF bf(2)] cf bf(1)
      by (simp add: file_data_def)
  qed
  have other: "gm_get (Metas ?m) q = gm_get (Metas m) ?b" if "link_target m ?b \<noteq> None \<or> is_dir m ?b"
  proof (rule mt [OF q])
    show "gm_get (Metas m) ?b \<noteq> None"
      using that meta_present [OF ok, of ?b] by (auto simp: link_target_def split: option.splits)
  qed
  show ?thesis using q cont other by (simp add: view_def p)
qed

text \<open>A moved name is clean, and its parent is the moved parent.\<close>

lemma moved_clean:
  assumes mv: "movable m old new" and q: "isUnder q new" and b: "is_clean (moved_from old new q)"
  shows "is_clean q" and "q = new \<or> (isUnder (filepath_Dir q) new \<and> moved_from old new (filepath_Dir q) = filepath_Dir (moved_from old new q))"
proof -
  obtain r os where o: "comps_ok r os" "old = clean_str r os"
    using mv by (auto simp: movable_def elim: is_cleanE)
  obtain r' ns where n: "comps_ok r' ns" "new = clean_str r' ns"
    using mv by (auto simp: movable_def elim: is_cleanE)
  have ne: "os \<noteq> []" "ns \<noteq> []" using mv o n by (auto simp: movable_def root_clean_str)
  have dd: "''..'' \<notin> set os" using mv o ne by (auto simp: movable_def split_clean_str split: if_splits)
  have bq: "moved_from old new q = move_path new old q" using q by (simp add: moved_from_def)
  have u: "isUnder (moved_from old new q) old" using move_back(1) [OF q] bq by simp
  obtain rb bs where bs: "comps_ok rb bs" "moved_from old new q = clean_str rb bs" using b by (rule is_cleanE)
  obtain ts where ts: "rb = r" "bs = os @ ts"
    using u isUnder_clean_str [OF bs(1) o(1) ne(1)] bs o by auto
  have okb: "comps_ok r (os @ ts)" using bs ts by simp
  have qq: "q = clean_str r' (ns @ ts)"
    using move_back(2) [OF q, of old] bq bs(2) ts o(2) n(2) move_clean_str [OF okb ne, of r'] by simp
  have "dropWhile (\<lambda>c. c = ''..'') (os @ ts) = os @ ts" using dd ne by (cases os) auto
  then have "''..'' \<notin> set ts" using okb by (simp add: comps_ok_def)
  moreover have "list_all comp_ok ts" using okb by (simp add: comps_ok_def)
  ultimately have okq: "comps_ok r' (ns @ ts)" using n(1) comps_ok_append by blast
  then show "is_clean q" using qq by blast
  show "q = new \<or> (isUnder (filepath_Dir q) new \<and> moved_from old new (filepath_Dir q) = filepath_Dir (moved_from old new q))"
  proof (cases ts rule: rev_cases)
    case Nil
    then show ?thesis using qq n by simp
  next
    case (snoc us t)
    have d: "filepath_Dir q = clean_str r' (ns @ us)" "filepath_Dir (moved_from old new q) = clean_str r (os @ us)"
      using Dir_clean_str [of r' "ns @ us" t] Dir_clean_str [of r "os @ us" t] okq okb qq bs(2) ts snoc by simp_all
    have ok1: "comps_ok r' (ns @ us)" using okq snoc comps_ok_prefix [of r' "ns @ us" "[t]"] by simp
    have "isUnder (filepath_Dir q) new"
      unfolding d using isUnder_clean_str [OF ok1 n(1) ne(2)] n by simp
    moreover have "move_path new old (filepath_Dir q) = clean_str r (os @ us)"
      unfolding d n(2) o(2) using move_clean_str [OF ok1 ne(2,1)] .
    ultimately show ?thesis using d by (simp add: moved_from_def)
  qed
qed

lemma rename_ok:
  assumes ok: "fs_ok m" and mv: "movable m old new"
  shows "fs_ok (rename_tree old new m)"
proof -
  let ?m = "rename_tree old new m" and ?b = "moved_from old new"
  note p = rename_parts [OF ok mv]
  have dir: "is_dir ?m d" if "is_dir m (?b d)" "\<not> isUnder d old" for d
    using that p(3) by simp
  have ent: "\<not> isUnder q old \<and> entry m (?b q)" if "entry ?m q" for q
    using rename_none [OF ok mv] rename_entry [OF ok mv] that by blast
  have clean: "is_clean q" if "entry ?m q" for q
  proof (cases "isUnder q new")
    case True
    then show ?thesis using moved_clean(1) [OF mv] ent [OF that] entry_clean [OF ok] by blast
  next
    case False
    then show ?thesis using ent [OF that] entry_clean [OF ok, of q] by (simp add: moved_from_def)
  qed
  have up: "\<not> isUnder (filepath_Dir q) s" if "is_clean q" "\<not> isMemRoot (filepath_Dir q)" "\<not> isUnder q s" for q s
    using that isUnder_trans isUnder_Dir_le by blast
  have par: "isMemRoot (filepath_Dir q) \<or> is_dir ?m (filepath_Dir q)" if e: "entry ?m q" for q
  proof (cases "isMemRoot (filepath_Dir q)")
    case nr: False
    note q = ent [OF e] and c = clean [OF e]
    have no: "\<not> isUnder (filepath_Dir q) old" using up [OF c nr] q by blast
    have "is_dir m (?b (filepath_Dir q))"
    proof (cases "isUnder q new")
      case False
      then have b: "?b q = q" by (simp add: moved_from_def)
      then have "is_dir m (filepath_Dir q)" using q nr entry_parent [OF ok, of q] by simp
      moreover have "\<not> isUnder (filepath_Dir q) new"
        using up [OF c nr False] .
      ultimately show ?thesis by (simp add: moved_from_def)
    next
      case True
      have bc: "is_clean (?b q)" using q entry_clean [OF ok] by blast
      from moved_clean(2) [OF mv True bc] show ?thesis
      proof
        assume "q = new"
        moreover have "\<not> isUnder (filepath_Dir new) new"
          using Dir_not_under mv by (simp add: movable_def)
        ultimately show ?thesis using mv nr by (simp add: movable_def moved_from_def)
      next
        assume d: "isUnder (filepath_Dir q) new \<and> ?b (filepath_Dir q) = filepath_Dir (?b q)"
        have "isUnder (?b (filepath_Dir q)) old"
          using d move_back(1) by (simp add: moved_from_def)
        then have "\<not> isMemRoot (filepath_Dir (?b q))"
          using d isUnder_root [of "filepath_Dir (?b q)" old] mv by (simp add: movable_def)
        then show ?thesis using d q entry_parent [OF ok] by metis
      qed
    qed
    then show ?thesis using dir no by blast
  qed simp
  have "tree_ok ?m" using clean par by (simp add: tree_ok_def)
  moreover have "kinds_ok ?m"
    unfolding kinds_ok_def
  proof (intro allI)
    fix q
    show "(gm_get (Files ?m) q \<noteq> None \<longrightarrow> gm_get (Links ?m) q = None) \<and>
      (link_target ?m q \<noteq> None \<longrightarrow> \<not> isFileEntry ?m q \<and> \<not> is_dir ?m q) \<and>
      (is_dir ?m q \<longrightarrow> \<not> isFileEntry ?m q \<and> \<not> isMemRoot q)"
    proof (cases "entry ?m q")
      case False
      then show ?thesis by (auto simp: entry_def isFileEntry_get)
    next
      case True
      note q = ent [OF True]
      have a: "gm_get (Files m) (?b q) \<noteq> None \<longrightarrow> gm_get (Links m) (?b q) = None"
        using fs_okD(3) [OF ok] by (simp add: kinds_ok_def)
      have nr: "\<not> isMemRoot q" if "is_dir m (?b q)"
        using that dir_kind [OF ok, of "?b q"] isUnder_root [OF clean [OF True], of new] mv
        by (cases "isUnder q new") (auto simp: movable_def moved_from_def)
      show ?thesis
        using p [of q] q a nr dir_kind [OF ok, of "?b q"] link_kind [OF ok, of "?b q"] by auto
    qed
  qed
  moreover have "refs_ok ?m"
    unfolding refs_ok_def
  proof (intro conjI allI impI)
    fix a c assume l: "gm_get (Links ?m) a = Some c"
    then have "entry ?m a" by (simp add: entry_def isFileEntry_get)
    then have "\<not> isUnder a old" using ent by blast
    then obtain c0 where c0: "gm_get (Links m) (?b a) = Some c0" "c = moved_to old new c0"
      using l p(2) by auto
    have f: "gm_get (Files m) c0 \<noteq> None" using alias_kind [OF ok c0(1)] by blast
    then have "\<not> isUnder c0 new" using movable_entry [OF mv] by (simp add: entry_def isFileEntry_get)
    note bf = back_fwd [OF mv this]
    show "gm_get (Files ?m) c \<noteq> None" using p(1) [OF bf(2)] bf(1) c0 f by simp
  next
    fix q b assume "gm_get (Dirs ?m) q = Some b"
    then show b using fs_okD(4) [OF ok] by (auto simp: rename_gets [OF ok mv] refs_ok_def split: if_splits)
  next
    fix q assume a: "gm_get (Files ?m) q \<noteq> None \<or> is_dir ?m q"
    then have "entry ?m q" by (auto simp: entry_def isFileEntry_get)
    then have q: "\<not> isUnder q old" using ent by blast
    then have "gm_get (Metas m) (?b q) \<noteq> None"
      using a p(1,3) [OF q] meta_present [OF ok, of "?b q"] by simp
    then show "gm_get (Metas ?m) q \<noteq> None" using rename_metas [OF ok mv q] by simp
  qed
  moreover have "maps_ok ?m" using rename_gets(5) [OF ok mv] .
  ultimately show ?thesis by (simp add: fs_ok_def)
qed

end
