(* ===== verification/Mem_Step.thy ===== *)
theory Mem_Step
  imports Mem_Move
begin

text \<open>
  Every operation of MemFileOps keeps the invariant of its maps; the changes
  it makes are first described as a few primitive updates.
\<close>

section \<open>What the invariant and the view depend on\<close>

lemma fs_same:
  assumes "Files m' = Files m" "Dirs m' = Dirs m" "Links m' = Links m" "Metas m' = Metas m"
  shows "fs_ok m' = fs_ok m" "view m' = view m" "entry m' = entry m" "is_dir m' = is_dir m"
    "isFileEntry m' = isFileEntry m" "link_target m' = link_target m" "canon m' = canon m"
    "plain_to m' = plain_to m"
proof -
  show a: "is_dir m' = is_dir m" "isFileEntry m' = isFileEntry m" "link_target m' = link_target m"
    "canon m' = canon m"
    using assms by (auto simp: is_dir_def isFileEntry_get link_target_def canon_def fun_eq_iff)
  show b: "entry m' = entry m" by (simp add: entry_def a fun_eq_iff)
  show "view m' = view m" by (simp add: view_def a assms file_data_def fun_eq_iff)
  show "fs_ok m' = fs_ok m" by (simp add: fs_defs maps_ok_def a b assms)
  show "plain_to m' = plain_to m" by (simp add: plain_to_def plain_at_def a fun_eq_iff)
qed

lemma emit_same [simp]:
  "fs_ok (emit op p m) = fs_ok m" "view (emit op p m) = view m" "entry (emit op p m) = entry m"
  "is_dir (emit op p m) = is_dir m" "isFileEntry (emit op p m) = isFileEntry m"
  "link_target (emit op p m) = link_target m" "canon (emit op p m) = canon m"
  "Files (emit op p m) = Files m" "Dirs (emit op p m) = Dirs m" "Links (emit op p m) = Links m"
  "Metas (emit op p m) = Metas m" "Cwd (emit op p m) = Cwd m" "tempSeq (emit op p m) = tempSeq m"
  "fileLocks (emit op p m) = fileLocks m" "next_addr (emit op p m) = next_addr m"
proof -
  have e: "Files (emit op p m) = Files m" "Dirs (emit op p m) = Dirs m" "Links (emit op p m) = Links m"
    "Metas (emit op p m) = Metas m"
    by (simp_all add: emit_def)
  show "fs_ok (emit op p m) = fs_ok m" "view (emit op p m) = view m" "entry (emit op p m) = entry m"
    "is_dir (emit op p m) = is_dir m" "isFileEntry (emit op p m) = isFileEntry m"
    "link_target (emit op p m) = link_target m" "canon (emit op p m) = canon m"
    using fs_same [OF e] by simp_all
qed (simp_all add: emit_def)

text \<open>The invariant is a property of the lookups alone.\<close>

lemma fs_ok_gets:
  assumes ok: "fs_ok m" and "maps_ok m'"
    and g: "\<And>q. gm_get (Files m') q = gm_get (Files m) q" "\<And>q. gm_get (Links m') q = gm_get (Links m) q"
      "\<And>q. gm_get (Dirs m') q = gm_get (Dirs m) q" "link_target m' = link_target m"
    and mt: "\<And>q. gm_get (Files m) q \<noteq> None \<or> is_dir m q \<Longrightarrow> gm_get (Metas m') q \<noteq> None"
  shows "fs_ok m'" "entry m' = entry m" "isFileEntry m' = isFileEntry m" "is_dir m' = is_dir m" "canon m' = canon m"
proof -
  show a: "is_dir m' = is_dir m" "isFileEntry m' = isFileEntry m" "canon m' = canon m"
    using g by (auto simp: is_dir_def isFileEntry_get canon_def fun_eq_iff)
  show b: "entry m' = entry m" by (simp add: entry_def a g fun_eq_iff)
  have "tree_ok m'" using fs_okD(2) [OF ok] by (simp add: tree_ok_def a b)
  moreover have "kinds_ok m'" using fs_okD(3) [OF ok] by (simp add: kinds_ok_def a g)
  moreover have "refs_ok m'" using fs_okD(4) [OF ok] mt unfolding refs_ok_def a g by blast
  ultimately show "fs_ok m'" using assms(2) by (simp add: fs_ok_def)
qed

section \<open>Updates in place\<close>

text \<open>Metadata that names no target may overwrite a link, which ends it.\<close>

lemma put_plain_meta:
  assumes ok: "fs_ok m" and t: "mm_Target mm = []"
  shows "fs_ok (m\<lparr>Metas := gm_put c mm (Metas m)\<rparr>)"
proof -
  let ?m = "m\<lparr>Metas := gm_put c mm (Metas m)\<rparr>"
  have a: "is_dir ?m = is_dir m" "isFileEntry ?m = isFileEntry m"
    by (auto simp: is_dir_def isFileEntry_get fun_eq_iff)
  have l: "link_target ?m q = (if q = c then None else link_target m q)" for q
    using t by (auto simp: link_target_def)
  have e: "entry ?m q \<Longrightarrow> entry m q" for q by (auto simp: entry_def l a split: if_splits)
  have "maps_ok ?m" using fs_okD(1) [OF ok] by (simp add: maps_ok_def gm.ok_put)
  moreover have "tree_ok ?m" using entry_clean [OF ok] entry_parent [OF ok] e by (simp add: tree_ok_def a)
  moreover have "kinds_ok ?m" using fs_okD(3) [OF ok] by (simp add: kinds_ok_def a l)
  moreover have "refs_ok ?m" using fs_okD(4) [OF ok] by (auto simp: refs_ok_def a)
  ultimately show ?thesis by (simp add: fs_ok_def)
qed

lemma put_meta:
  assumes ok: "fs_ok m" and t: "(if mm_Target mm = [] then None else Some (mm_Target mm)) = link_target m c"
  defines "m' \<equiv> m\<lparr>Metas := gm_put c mm (Metas m)\<rparr>"
  shows "fs_ok m'" "entry m' = entry m" "isFileEntry m' = isFileEntry m" "is_dir m' = is_dir m"
    "canon m' = canon m" "link_target m' = link_target m"
proof -
  have l: "link_target m' = link_target m"
    using t by (cases "mm_Target mm = []") (auto simp: link_target_def m'_def fun_eq_iff split: option.splits if_splits)
  have "maps_ok m'" using fs_okD(1) [OF ok] by (simp add: maps_ok_def m'_def gm.ok_put)
  then show "fs_ok m'" "entry m' = entry m" "isFileEntry m' = isFileEntry m" "is_dir m' = is_dir m"
    "canon m' = canon m" "link_target m' = link_target m"
    using fs_ok_gets [OF ok, of m'] meta_present [OF ok] l by (auto simp: m'_def)
qed

lemma put_data:
  fixes data :: "8 word list"
  assumes ok: "fs_ok m" and f: "gm_get (Files m) c \<noteq> None"
  defines "m' \<equiv> m\<lparr>Files := gm_put c data (Files m)\<rparr>"
  shows "fs_ok m'" "isFileEntry m' = isFileEntry m" "is_dir m' = is_dir m"
    "canon m' = canon m" "link_target m' = link_target m" "entry m' = entry m"
    "view m' q = (if isFileEntry m q \<and> canon m q = c then Some (NFile data (gm_get (Metas m) c)) else view m q)"
proof -
  have a: "is_dir m' = is_dir m" "canon m' = canon m" "link_target m' = link_target m"
    by (auto simp: is_dir_def canon_def link_target_def m'_def fun_eq_iff)
  moreover have b: "isFileEntry m' = isFileEntry m"
    using f by (auto simp: isFileEntry_get m'_def fun_eq_iff)
  ultimately show "is_dir m' = is_dir m" "canon m' = canon m" "link_target m' = link_target m"
    "isFileEntry m' = isFileEntry m" by blast+
  show c: "entry m' = entry m" using a b by (simp add: entry_def fun_eq_iff)
  have "maps_ok m'" using fs_okD(1) [OF ok] by (simp add: maps_ok_def m'_def gm.ok_put)
  moreover have "tree_ok m'" using fs_okD(2) [OF ok] by (simp add: tree_ok_def a c)
  moreover have "kinds_ok m'" using fs_okD(3) [OF ok] f by (auto simp: kinds_ok_def a b) (auto simp: m'_def split: if_splits)
  moreover have "refs_ok m'" using fs_okD(4) [OF ok] f by (auto simp: refs_ok_def a) (auto simp: m'_def split: if_splits)
  ultimately show "fs_ok m'" by (simp add: fs_ok_def)
  show "view m' q = (if isFileEntry m q \<and> canon m q = c then Some (NFile data (gm_get (Metas m) c)) else view m q)"
    using link_kind [OF ok, of q] by (auto simp: view_def a b file_data_def) (auto simp: m'_def)
qed

section \<open>New names\<close>

definition vacant :: "MemFileOps \<Rightarrow> string \<Rightarrow> bool" where
  "vacant m f = (is_clean f \<and> \<not> entry m f \<and> (isMemRoot (filepath_Dir f) \<or> is_dir m (filepath_Dir f)))"

lemma vacant_Files: "vacant m f \<Longrightarrow> gm_get (Files m) f = None \<and> gm_get (Links m) f = None"
  by (auto simp: vacant_def entry_def isFileEntry_get)

text \<open>A file may also take the place of a link (the code can record one only at a root).\<close>

definition openable :: "MemFileOps \<Rightarrow> string \<Rightarrow> bool" where
  "openable m f = (is_clean f \<and> \<not> isFileEntry m f \<and> \<not> is_dir m f \<and>
    (isMemRoot (filepath_Dir f) \<or> is_dir m (filepath_Dir f)))"

lemma vacant_openable: "vacant m f \<Longrightarrow> openable m f"
  by (auto simp: vacant_def openable_def entry_def)

lemma new_file:
  fixes data :: "8 word list"
  assumes ok: "fs_ok m" and v: "openable m f" and t: "mm_Target mm = []"
  defines "m' \<equiv> m\<lparr>Files := gm_put f data (Files m), Metas := gm_put f mm (Metas m)\<rparr>"
  shows "fs_ok m'" "view m' q = (if q = f then Some (NFile data (Some mm)) else view m q)"
    "link_target m' q = (if q = f then None else link_target m q)"
    "isFileEntry m' q = (isFileEntry m q \<or> q = f)" "is_dir m' = is_dir m"
proof -
  have lf: "gm_get (Files m) f = None" "gm_get (Links m) f = None" "\<not> is_dir m f"
    using v by (auto simp: openable_def isFileEntry_get)
  have a: "is_dir m' = is_dir m" "canon m' = canon m"
    by (auto simp: is_dir_def canon_def m'_def fun_eq_iff)
  have l: "link_target m' q = (if q = f then None else link_target m q)" for q
    using t by (auto simp: link_target_def m'_def)
  have b: "isFileEntry m' q = (isFileEntry m q \<or> q = f)" for q
    by (auto simp: isFileEntry_get m'_def)
  then show "isFileEntry m' q = (isFileEntry m q \<or> q = f)" .
  show "link_target m' q = (if q = f then None else link_target m q)" "is_dir m' = is_dir m" by (fact l a)+
  have c: "entry m' q \<Longrightarrow> (entry m q \<or> q = f)" for q using a b l by (auto simp: entry_def split: if_splits)
  have "maps_ok m'" using fs_okD(1) [OF ok] by (simp add: maps_ok_def m'_def gm.ok_put)
  moreover have "tree_ok m'"
    unfolding tree_ok_def a
  proof (intro allI impI)
    fix q assume "entry m' q"
    with c consider "entry m q" | "q = f" by blast
    then show "is_clean q \<and> (isMemRoot (filepath_Dir q) \<or> is_dir m (filepath_Dir q))"
      using entry_clean [OF ok] entry_parent [OF ok] v by (cases; auto simp: openable_def)
  qed
  moreover have "kinds_ok m'"
    using fs_okD(3) [OF ok] lf by (auto simp: kinds_ok_def a b l) (auto simp: m'_def split: if_splits)
  moreover have "refs_ok m'"
    using fs_okD(4) [OF ok] lf by (auto simp: refs_ok_def a) (auto simp: m'_def split: if_splits)
  ultimately show "fs_ok m'" by (simp add: fs_ok_def)
  have cf: "canon m q \<noteq> f" if "isFileEntry m q"
    using canon_file(1) [OF ok that] lf by auto
  have "q \<noteq> f" if "isFileEntry m q" using that lf by (auto simp: isFileEntry_get)
  moreover have "canon m f = f" using lf by (simp add: canon_def)
  ultimately show "view m' q = (if q = f then Some (NFile data (Some mm)) else view m q)"
    unfolding view_def a b l file_data_def using cf lf by (cases "q = f") (auto simp: m'_def)
qed

lemma new_alias:
  assumes ok: "fs_ok m" and v: "vacant m f" and c: "gm_get (Files m) c \<noteq> None"
  defines "m' \<equiv> m\<lparr>Links := gm_put f c (Links m)\<rparr>"
  shows "fs_ok m'" "view m' q = (if q = f then Some (NFile (file_data m c) (gm_get (Metas m) c)) else view m q)"
proof -
  have lf: "link_target m f = None" "gm_get (Files m) f = None" "gm_get (Links m) f = None" "\<not> is_dir m f"
    using v by (auto simp: vacant_def entry_def isFileEntry_get)
  have a: "is_dir m' = is_dir m" "link_target m' = link_target m"
    by (auto simp: is_dir_def link_target_def m'_def fun_eq_iff)
  have b: "isFileEntry m' q = (isFileEntry m q \<or> q = f)" for q
    by (auto simp: isFileEntry_get m'_def)
  have e: "entry m' q = (entry m q \<or> q = f)" for q using a b by (auto simp: entry_def)
  have "maps_ok m'" using fs_okD(1) [OF ok] by (simp add: maps_ok_def m'_def gm.ok_put)
  moreover have "tree_ok m'" using fs_okD(2) [OF ok] v by (auto simp: tree_ok_def a e vacant_def)
  moreover have "kinds_ok m'"
    using fs_okD(3) [OF ok] lf by (auto simp: kinds_ok_def a b) (auto simp: m'_def split: if_splits)
  moreover have "refs_ok m'"
    using fs_okD(4) [OF ok] c by (auto simp: refs_ok_def a) (auto simp: m'_def split: if_splits)
  ultimately show "fs_ok m'" by (simp add: fs_ok_def)
  have k: "canon m' q = (if q = f then c else canon m q)" by (simp add: canon_def m'_def)
  show "view m' q = (if q = f then Some (NFile (file_data m c) (gm_get (Metas m) c)) else view m q)"
    unfolding view_def a b k file_data_def using lf by (cases "q = f") (auto simp: m'_def)
qed

lemma new_link:
  fixes mm :: memMeta
  assumes ok: "fs_ok m" and v: "vacant m f"
  defines "m' \<equiv> m\<lparr>Metas := gm_put f mm (Metas m)\<rparr>"
  shows "fs_ok m'"
    "view m' q = (if q = f then (if mm_Target mm = [] then None else Some (NLink mm)) else view m q)"
proof -
  have lf: "link_target m f = None" "gm_get (Files m) f = None" "gm_get (Links m) f = None" "\<not> is_dir m f"
    using v by (auto simp: vacant_def entry_def isFileEntry_get)
  have a: "is_dir m' = is_dir m" "isFileEntry m' = isFileEntry m" "canon m' = canon m"
    by (auto simp: is_dir_def isFileEntry_get canon_def m'_def fun_eq_iff)
  have l: "link_target m' q = (if q = f then (if mm_Target mm = [] then None else Some (mm_Target mm)) else link_target m q)" for q
    by (auto simp: link_target_def m'_def)
  have e: "entry m' q \<Longrightarrow> entry m q \<or> q = f" for q by (auto simp: entry_def l a split: if_splits)
  have "maps_ok m'" using fs_okD(1) [OF ok] by (simp add: maps_ok_def m'_def gm.ok_put)
  moreover have "tree_ok m'"
    unfolding tree_ok_def a
  proof (intro allI impI)
    fix q assume "entry m' q"
    with e consider "entry m q" | "q = f" by blast
    then show "is_clean q \<and> (isMemRoot (filepath_Dir q) \<or> is_dir m (filepath_Dir q))"
      using entry_clean [OF ok] entry_parent [OF ok] v by (cases; auto simp: vacant_def)
  qed
  moreover have "kinds_ok m'"
    using fs_okD(3) [OF ok] lf by (auto simp: kinds_ok_def a l isFileEntry_get) (auto simp: m'_def split: if_splits)
  moreover have "refs_ok m'"
    using fs_okD(4) [OF ok] by (auto simp: refs_ok_def a) (auto simp: m'_def split: if_splits)
  ultimately show "fs_ok m'" by (simp add: fs_ok_def)
  have cf: "canon m q \<noteq> f" if "isFileEntry m q"
    using canon_file(1) [OF ok that] lf by auto
  have nf: "\<not> isFileEntry m f" using lf by (simp add: isFileEntry_get)
  show "view m' q = (if q = f then (if mm_Target mm = [] then None else Some (NLink mm)) else view m q)"
    unfolding view_def a l file_data_def using cf lf nf by (cases "q = f") (auto simp: m'_def)
qed

lemma drop_link:
  assumes ok: "fs_ok m" and t: "link_target m f \<noteq> None"
  defines "m' \<equiv> m\<lparr>Metas := gm_del f (Metas m)\<rparr>"
  shows "fs_ok m'" "view m' q = (if q = f then None else view m q)"
proof -
  have lf: "\<not> isFileEntry m f" "\<not> is_dir m f" using link_kind [OF ok t] by auto
  have a: "is_dir m' = is_dir m" "isFileEntry m' = isFileEntry m" "canon m' = canon m"
    by (auto simp: is_dir_def isFileEntry_get canon_def m'_def fun_eq_iff)
  have l: "link_target m' q = (if q = f then None else link_target m q)" for q
    by (auto simp: link_target_def m'_def)
  have e: "entry m' q \<Longrightarrow> entry m q" for q by (auto simp: entry_def l a split: if_splits)
  have "maps_ok m'" using fs_okD(1) [OF ok] by (simp add: maps_ok_def m'_def gm.ok_del)
  moreover have "tree_ok m'" using entry_clean [OF ok] entry_parent [OF ok] e by (simp add: tree_ok_def a)
  moreover have "kinds_ok m'" using fs_okD(3) [OF ok] by (auto simp: kinds_ok_def a l) (auto simp: m'_def split: if_splits)
  moreover have "refs_ok m'"
    using fs_okD(4) [OF ok] lf by (auto simp: refs_ok_def a isFileEntry_get) (auto simp: m'_def split: if_splits)
  ultimately show "fs_ok m'" by (simp add: fs_ok_def)
  have cf: "canon m q \<noteq> f" if "isFileEntry m q"
    using canon_file(1) [OF ok that] lf by (auto simp: isFileEntry_get)
  show "view m' q = (if q = f then None else view m q)"
    unfolding view_def a l file_data_def using cf lf by (cases "q = f") (auto simp: m'_def)
qed

end
