(* ===== verification/Mem_Effects.thy ===== *)
theory Mem_Effects
  imports Mem_Step
begin

text \<open>
  Every operation of MemFileOps keeps the invariant.
\<close>

section \<open>The parents of a new name\<close>

lemma plain_parent:
  assumes "is_clean f" "plain_above m f"
  shows "plain_to m (filepath_Dir f)"
proof (cases "isMemRoot f")
  case True
  then have "filepath_Dir f = f" by (auto simp: isMemRoot_def)
  then show ?thesis using plain_above_root assms(1) True by simp
next
  case False
  show ?thesis
    unfolding plain_to_def
  proof (intro allI impI, elim conjE)
    fix q assume q: "is_clean q" "\<not> isMemRoot q" "isUnder (filepath_Dir f) q"
    then have "isUnder f q" "q \<noteq> f"
      using isUnder_Dir [OF assms(1) q(1,2) False] Dir_not_under [OF assms(1) False] by auto
    then show "plain_at m q" using assms(2) q by (simp add: plain_above_def)
  qed
qed

lemma dir_of_Dir: "is_clean f \<Longrightarrow> \<not> dir_of (filepath_Dir f) f"
  using Dir_not_under by blast

lemma prepared:
  fixes e :: mem_env
  assumes ok: "fs_ok m" and r: "resolve m path follow = Inr f"
  defines "m1 \<equiv> recordDir e (filepath_Dir f) m"
  shows "fs_ok m1" and "isMemRoot (filepath_Dir f) \<or> is_dir m1 (filepath_Dir f)" and "view m1 f = view m f"
    and "link_target m1 = link_target m" and "isFileEntry m1 = isFileEntry m" and "is_dir m1 f = is_dir m f"
    and "canon m1 = canon m"
proof -
  note f = resolve_ok(1,2) [OF r]
  note pl = plain_parent [OF f]
  show "fs_ok m1" using recordDir_ok [OF ok is_clean_Dir pl] by (simp add: m1_def)
  show "link_target m1 = link_target m" "isFileEntry m1 = isFileEntry m"
    by (simp_all add: m1_def recordDir_link recordDir_file)
  show "is_dir m1 f = is_dir m f"
    using dir_of_Dir [OF f(1)] recordDir_is_dir [OF is_clean_Dir] unfolding m1_def by blast
  show "canon m1 = canon m" by (simp add: m1_def canon_def fun_eq_iff)
  show "view m1 f = view m f"
    using recordDir_view [OF ok is_clean_Dir pl, of e f] dir_of_Dir [OF f(1)] by (auto simp: m1_def)
  show "isMemRoot (filepath_Dir f) \<or> is_dir m1 (filepath_Dir f)"
    using recordDir_is_dir [OF is_clean_Dir, of e f m "filepath_Dir f"] by (auto simp: m1_def)
qed

lemma prepared_vacant:
  assumes "fs_ok m" "resolve m path follow = Inr f" "\<not> entry m f"
  shows "vacant (recordDir e (filepath_Dir f) m) f"
  using prepared(2,3) [OF assms(1,2), of e] resolve_ok(1) [OF assms(2)] assms(3)
  by (simp add: vacant_def flip: view_None)

lemma prepared_openable:
  assumes "fs_ok m" "resolve m path follow = Inr f" "\<not> isFileEntry m f" "\<not> is_dir m f"
  shows "openable (recordDir e (filepath_Dir f) m) f"
  using prepared(2,5,6) [OF assms(1,2), of e] resolve_ok(1) [OF assms(2)] assms(3,4)
  by (simp add: openable_def)

text \<open>Where the name exists its parents do.\<close>

lemma parents_exist:
  assumes ok: "fs_ok m" and f: "entry m f" and d: "dir_of (filepath_Dir f) q"
  shows "is_dir m q"
proof -
  have c: "is_clean f" using entry_clean ok f by blast
  have "\<not> isMemRoot (filepath_Dir f)" using isUnder_root [OF is_clean_Dir] d by blast
  then have "isUnder f (filepath_Dir f)" using isUnder_Dir_le c by blast
  then have u: "isUnder f q" using isUnder_trans d by blast
  have "f \<noteq> q" using dir_of_Dir [OF c] d by blast
  then show ?thesis using above_entry [OF ok f u] d by blast
qed

lemma recordDir_existing:
  assumes "fs_ok m" "resolve m path follow = Inr f" "entry m f"
  shows "view (recordDir e (filepath_Dir f) m) = view m"
proof
  fix q
  show "view (recordDir e (filepath_Dir f) m) q = view m q"
    using recordDir_view [OF assms(1) is_clean_Dir plain_parent [OF resolve_ok(1,2) [OF assms(2)]], of e q]
      parents_exist [OF assms(1,3), of q] by auto
qed

section \<open>Writing\<close>

lemma file_meta_plain:
  "\<lbrakk>fs_ok m; gm_get (Files m) c \<noteq> None; gm_get (Metas m) c = Some mm\<rbrakk> \<Longrightarrow> mm_Target mm = []"
  using link_kind [of m c] by (cases "mm_Target mm = []") (auto simp: isFileEntry_get link_target_def)

lemma file_meta_link:
  "\<lbrakk>fs_ok m; gm_get (Files m) c \<noteq> None\<rbrakk> \<Longrightarrow> link_target m c = None"
  using link_kind [of m c] by (cases "link_target m c") (auto simp: isFileEntry_get)

lemma stampOwner_target [simp]: "mm_Target (stampOwner e mm) = mm_Target mm"
  by (simp add: stampOwner_def)

lemma zero_target [simp]: "mm_Target zero_memMeta = []"
  by (simp add: zero_memMeta_def)

lemma fresh_target [simp]: "mm_Target (fresh_meta e perm) = []"
  by (simp add: fresh_meta_def)

lemma file_in_Files:
  assumes "fs_ok m"
  shows "gm_has (Files m) (canon m f) \<longleftrightarrow> isFileEntry m f"
  unfolding gm_has_def using alias_kind [OF assms] by (auto simp: isFileEntry_get canon_def split: option.splits)

lemma WriteFile_inv: "fs_ok m \<Longrightarrow> fs_ok (snd (writeFileLocked e path data perm m))"
proof -
  assume ok: "fs_ok m"
  show ?thesis
  proof (cases "resolve m path True")
    case (Inl err)
    then show ?thesis using ok by (simp add: writeFileLocked_def)
  next
    case (Inr f)
    note p = prepared [OF ok Inr, of e]
    let ?m1 = "recordDir e (filepath_Dir f) m" and ?c = "canon m f"
    show ?thesis
    proof (cases "isFileEntry m f")
      case True
      then have fc: "gm_get (Files ?m1) ?c \<noteq> None" using canon_file(1) ok by simp
      let ?m2 = "?m1\<lparr>Files := gm_put ?c data (Files ?m1)\<rparr>"
      have ok2: "fs_ok ?m2" using put_data(1) [OF p(1) fc] .
      let ?mm = "case gm_get (Metas ?m2) ?c of Some mm \<Rightarrow> mm | None \<Rightarrow> stampOwner e (zero_memMeta\<lparr>mm_Mode := perm_file\<rparr>)"
      have "mm_Target ?mm = []"
        using file_meta_plain [OF p(1) fc] by (auto split: option.split simp: zero_memMeta_def)
      then have "fs_ok (?m2\<lparr>Metas := gm_put ?c (?mm\<lparr>mm_MTime := clock e\<rparr>) (Metas ?m2)\<rparr>)"
        by (intro put_plain_meta [OF ok2]) simp
      then show ?thesis
        using ok Inr True file_in_Files [OF ok, of f]
        by (auto simp: writeFileLocked_def Let_def split: option.split)
    next
      case False
      then have c: "?c = f" by (auto simp: canon_def isFileEntry_get split: option.split)
      show ?thesis
      proof (cases "is_dir m f")
        case True
        then show ?thesis using ok Inr by (simp add: writeFileLocked_def)
      next
        case nd: False
        have "fs_ok (?m1\<lparr>Files := gm_put f data (Files ?m1), Metas := gm_put f (fresh_meta e perm) (Metas ?m1)\<rparr>)"
          by (intro new_file(1) [OF p(1) prepared_openable [OF ok Inr False nd]]) simp
        then show ?thesis
          using ok Inr False file_in_Files [OF ok, of f] c
          by (auto simp: writeFileLocked_def Let_def split: option.split)
      qed
    qed
  qed
qed

lemma mkdir_prepared:
  assumes "resolve m path True = Inr f" "\<not> isFileEntry m f"
  shows "plain_to m f"
  using plain_above_to [OF resolve_ok(2) [OF assms(1)]] resolve_ok(3) [OF assms(1)] assms(2)
  by (auto simp: plain_at_def)

lemma MkdirAll_inv: "fs_ok m \<Longrightarrow> fs_ok (snd (mkdirAllLocked e path perm m))"
proof -
  assume ok: "fs_ok m"
  show ?thesis
  proof (cases "resolve m path True")
    case (Inl err)
    then show ?thesis using ok by (simp add: mkdirAllLocked_def)
  next
    case (Inr f)
    have "fs_ok ((recordDir e f m)\<lparr>Metas := gm_put f (fresh_meta e perm) (Metas (recordDir e f m))\<rparr>)"
      if "\<not> isFileEntry m f"
      using recordDir_ok [OF ok resolve_ok(1) [OF Inr] mkdir_prepared [OF Inr that]]
      by (intro put_plain_meta) auto
    then show ?thesis using ok Inr by (auto simp: mkdirAllLocked_def Let_def split: option.split)
  qed
qed

section \<open>Removing\<close>

lemma infoFor_kind:
  assumes "fs_ok m" "infoFor e m p = Some info"
  shows "fi_IsDir info \<longleftrightarrow> is_dir m p" "fi_Symlink info \<longleftrightarrow> link_target m p \<noteq> None"
    "\<not> fi_IsDir info \<Longrightarrow> \<not> fi_Symlink info \<Longrightarrow> isFileEntry m p" "entry m p"
proof -
  obtain n where n: "view m p = Some n" "info = info_of e (filepath_Base p) n"
    using assms(2) by (auto simp: infoFor_view)
  note k = view_kinds [OF assms(1), of p]
  show "fi_IsDir info \<longleftrightarrow> is_dir m p" "fi_Symlink info \<longleftrightarrow> link_target m p \<noteq> None"
    "\<not> fi_IsDir info \<Longrightarrow> \<not> fi_Symlink info \<Longrightarrow> isFileEntry m p" "entry m p"
    using n k view_entry [of m p] by (cases n; auto)+
qed

lemma Remove_inv: "fs_ok m \<Longrightarrow> fs_ok (snd (Remove_mem e path rec m))"
proof -
  assume ok: "fs_ok m"
  show ?thesis
  proof (cases "resolve m path False")
    case (Inl err)
    then show ?thesis using ok by (simp add: Remove_mem_def)
  next
    case (Inr f)
    show ?thesis
    proof (cases "infoFor e m f")
      case None
      then show ?thesis using ok Inr by (simp add: Remove_mem_def)
    next
      case (Some info)
      note k = infoFor_kind [OF ok Some]
      have "fs_ok (removeTree f m)" if "fi_IsDir info"
        using removeTree_laws(1) [OF ok] that k dir_kind [OF ok, of f] entry_clean [OF ok] by blast
      moreover have "fs_ok (m\<lparr>Metas := gm_del f (Metas m)\<rparr>)" if "fi_Symlink info"
        using drop_link(1) [OF ok] that k by blast
      moreover have "fs_ok (removeFileEntry f m)" if "\<not> fi_IsDir info" "\<not> fi_Symlink info"
        using unlink_ok [OF ok] that k by blast
      ultimately show ?thesis
        using ok Inr Some by (auto simp: Remove_mem_def split: option.split)
    qed
  qed
qed

section \<open>Links\<close>

lemma Symlink_inv: "fs_ok m \<Longrightarrow> fs_ok (snd (Symlink_mem e target path m))"
proof -
  assume ok: "fs_ok m"
  show ?thesis
  proof (cases "resolve m path False")
    case (Inl err)
    then show ?thesis using ok by (simp add: Symlink_mem_def)
  next
    case (Inr f)
    have "fs_ok ((recordDir e (filepath_Dir f) m)\<lparr>Metas := gm_put f mm (Metas (recordDir e (filepath_Dir f) m))\<rparr>)"
      if "infoFor e m f = None" for mm
      using prepared_vacant [OF ok Inr] that infoFor_None prepared(1) [OF ok Inr]
      by (intro new_link(1)) auto
    then show ?thesis using ok Inr by (auto simp: Symlink_mem_def Let_def split: option.split)
  qed
qed

lemma Link_inv: "fs_ok m \<Longrightarrow> fs_ok (snd (Link_mem e target path m))"
proof -
  assume ok: "fs_ok m"
  show ?thesis
  proof (cases "resolve m target False")
    case (Inl err)
    then show ?thesis using ok by (simp add: Link_mem_def)
  next
    case t: (Inr t)
    show ?thesis
    proof (cases "resolve m path False")
      case (Inl err)
      then show ?thesis using ok t by (simp add: Link_mem_def)
    next
      case (Inr f)
      let ?m1 = "recordDir e (filepath_Dir f) m"
      show ?thesis
      proof (cases "infoFor e m t = None \<or> infoFor e m f \<noteq> None")
        case True
        then show ?thesis using ok t Inr by (auto simp: Link_mem_def split: option.split)
      next
        case False
        then obtain info where info: "infoFor e m t = Some info" "infoFor e m f = None" by auto
        note k = infoFor_kind [OF ok info(1)]
        note p = prepared [OF ok Inr, of e]
        have v: "vacant ?m1 f" using prepared_vacant [OF ok Inr] info infoFor_None by blast
        have "fs_ok (?m1\<lparr>Metas := gm_put f mm (Metas ?m1)\<rparr>)" for mm
          using new_link(1) [OF p(1) v] .
        moreover have "fs_ok (?m1\<lparr>Links := gm_put f (canon ?m1 t) (Links ?m1)\<rparr>)"
          if "\<not> fi_IsDir info" "\<not> fi_Symlink info"
          using new_alias(1) [OF p(1) v] canon_file(1) [OF p(1)] k(3) [OF that] p(5) by simp
        ultimately show ?thesis
          using ok t Inr info p(1) by (auto simp: Link_mem_def Let_def split: option.split)
      qed
    qed
  qed
qed

section \<open>Metadata\<close>

text \<open>What exists has metadata, so metaForExisting finds it and changes nothing.\<close>

lemma meta_of_entry:
  assumes ok: "fs_ok m" and "entry m f"
  shows "gm_get (Metas m) (canon m f) \<noteq> None"
proof (cases "isFileEntry m f")
  case True
  then show ?thesis using canon_file ok by blast
next
  case False
  then have "canon m f = f" by (auto simp: canon_def isFileEntry_get split: option.split)
  moreover have "gm_get (Metas m) f \<noteq> None"
    using assms(2) False meta_present [OF ok, of f]
    by (auto simp: entry_def link_target_def split: option.splits)
  ultimately show ?thesis by simp
qed

lemma metaForExisting_ok:
  assumes "fs_ok m"
  shows "metaForExisting e f m = (if entry m f then gm_get (Metas m) (canon m f) else None, m)"
  using meta_of_entry [OF assms, of f] infoFor_None [of e m f]
  by (auto simp: metaForExisting_def Let_def split: option.split)

lemma set_meta_ok:
  assumes ok: "fs_ok m" and "gm_get (Metas m) (canon m f) = Some mm" "mm_Target mm' = mm_Target mm"
  shows "fs_ok (set_meta f mm' m)" "canon (set_meta f mm' m) = canon m"
    "gm_get (Metas (set_meta f mm' m)) (canon m f) = Some mm'" "entry (set_meta f mm' m) = entry m"
proof -
  have t: "(if mm_Target mm' = [] then None else Some (mm_Target mm')) = link_target m (canon m f)"
    using assms(2,3) by (simp add: link_target_def)
  show "fs_ok (set_meta f mm' m)" "canon (set_meta f mm' m) = canon m" "entry (set_meta f mm' m) = entry m"
    "gm_get (Metas (set_meta f mm' m)) (canon m f) = Some mm'"
    using put_meta [OF ok t] by (simp_all add: set_meta_def)
qed

lemmas meta_cases = metaForExisting_ok set_meta_ok

lemma Chmod_inv: "fs_ok m \<Longrightarrow> fs_ok (snd (Chmod_mem e path mode m))"
  using set_meta_ok(1) by (auto simp: Chmod_mem_def metaForExisting_ok split: sum.split option.split)

lemma Chtimes_inv: "fs_ok m \<Longrightarrow> fs_ok (snd (Chtimes_mem e path at mt m))"
  using set_meta_ok(1) by (auto simp: Chtimes_mem_def metaForExisting_ok split: sum.split option.split)

lemma Chown_inv: "fs_ok m \<Longrightarrow> fs_ok (snd (Chown_mem e path uid gid follow m))"
  using set_meta_ok(1) by (auto simp: Chown_mem_def metaForExisting_ok Let_def split: sum.split option.split)

lemma Truncate_inv: "fs_ok m \<Longrightarrow> fs_ok (snd (Truncate_mem e path size' m))"
proof -
  assume ok: "fs_ok m"
  show ?thesis
  proof (cases "resolve m path True")
    case (Inl err)
    then show ?thesis using ok by (simp add: Truncate_mem_def)
  next
    case (Inr f)
    have "fs_ok (case metaForExisting e f (m\<lparr>Files := gm_put (canon m f) d (Files m)\<rparr>) of
        (Some mm, m) \<Rightarrow> set_meta f (mm\<lparr>mm_MTime := clock e\<rparr>) m | (None, m) \<Rightarrow> m)"
      if "gm_get (Files m) (canon m f) \<noteq> None" for d
    proof -
      have ok2: "fs_ok (m\<lparr>Files := gm_put (canon m f) d (Files m)\<rparr>)" using put_data(1) [OF ok that] .
      then show ?thesis
        using set_meta_ok(1) [OF ok2] by (auto simp: metaForExisting_ok split: option.split)
    qed
    then show ?thesis using ok Inr by (auto simp: Truncate_mem_def Let_def split: option.split)
  qed
qed

lemma xattrsForRead_state: "fs_ok m \<Longrightarrow> snd (xattrsForRead e op path m) = m"
  by (auto simp: xattrsForRead_def metaForExisting_ok split: sum.split option.split)

lemma xattrsForWrite_inv:
  assumes ok: "fs_ok m" and r: "xattrsForWrite e op path m = (r, m')"
  shows "fs_ok m'" and "r = Inr (xs, mm, f) \<Longrightarrow> gm_get (Metas m') (canon m' f) = Some mm"
proof -
  have "(m' = m \<and> (\<exists>err. r = Inl err)) \<or>
    (\<exists>f0 mm0 xs0. gm_get (Metas m) (canon m f0) = Some mm0 \<and>
      r = Inr (xs0, mm0\<lparr>mm_Xattrs := Some xs0\<rparr>, f0) \<and> m' = set_meta f0 (mm0\<lparr>mm_Xattrs := Some xs0\<rparr>) m)"
  proof (cases "resolve m path True")
    case (Inl err)
    then show ?thesis using r by (auto simp: xattrsForWrite_def)
  next
    case (Inr f0)
    show ?thesis
    proof (cases "if entry m f0 then gm_get (Metas m) (canon m f0) else None")
      case None
      then show ?thesis using r Inr by (auto simp: xattrsForWrite_def metaForExisting_ok [OF ok])
    next
      case (Some mm0)
      then have "gm_get (Metas m) (canon m f0) = Some mm0" by (simp split: if_splits)
      moreover have "metaForExisting e f0 m = (Some mm0, m)"
        using Some by (simp add: metaForExisting_ok [OF ok])
      ultimately show ?thesis
        using r Inr by (cases "checkPerm e m op path f0 perm_write") (auto simp: xattrsForWrite_def Let_def)
    qed
  qed
  then consider "m' = m" "\<exists>err. r = Inl err"
    | f0 mm0 xs0 where "gm_get (Metas m) (canon m f0) = Some mm0"
        "r = Inr (xs0, mm0\<lparr>mm_Xattrs := Some xs0\<rparr>, f0)" "m' = set_meta f0 (mm0\<lparr>mm_Xattrs := Some xs0\<rparr>) m"
    by blast
  then have "fs_ok m' \<and> (r = Inr (xs, mm, f) \<longrightarrow> gm_get (Metas m') (canon m' f) = Some mm)"
  proof cases
    case 1
    then show ?thesis using ok by auto
  next
    case 2
    then show ?thesis using set_meta_ok [OF ok 2(1)] by auto
  qed
  then show "fs_ok m'" and "r = Inr (xs, mm, f) \<Longrightarrow> gm_get (Metas m') (canon m' f) = Some mm" by blast+
qed

lemma XattrGet_state: "fs_ok m \<Longrightarrow> snd (XattrGet_mem e path name m) = m"
  using xattrsForRead_state [of m e "''xattr-get''" path]
  by (auto simp: XattrGet_mem_def split: prod.splits sum.splits option.split)

lemma XattrList_state: "fs_ok m \<Longrightarrow> snd (XattrList_mem e path m) = m"
  using xattrsForRead_state [of m e "''xattr-list''" path]
  by (auto simp: XattrList_mem_def split: prod.splits sum.splits option.split)

lemma XattrSet_inv:
  assumes "fs_ok m"
  shows "fs_ok (snd (XattrSet_mem e path name val m))"
proof (cases "xattrsForWrite e ''xattr-set'' path m")
  case (Pair r m')
  note x = xattrsForWrite_inv [OF assms Pair]
  show ?thesis
  proof (cases r)
    case (Inl err)
    then show ?thesis using Pair x(1) by (simp add: XattrSet_mem_def)
  next
    case (Inr b)
    obtain xs mm f where b: "b = (xs, mm, f)" by (cases b)
    have "fs_ok (set_meta f (mm\<lparr>mm_Xattrs := Some (gm_put name val xs)\<rparr>) m')"
      using set_meta_ok(1) [OF x(1) x(2) [OF Inr [unfolded b]]] by simp
    then show ?thesis using Pair Inr b by (simp add: XattrSet_mem_def)
  qed
qed

lemma XattrRemove_inv:
  assumes "fs_ok m"
  shows "fs_ok (snd (XattrRemove_mem e path name m))"
proof (cases "xattrsForWrite e ''xattr-remove'' path m")
  case (Pair r m')
  note x = xattrsForWrite_inv [OF assms Pair]
  show ?thesis
  proof (cases r)
    case (Inl err)
    then show ?thesis using Pair x(1) by (simp add: XattrRemove_mem_def)
  next
    case (Inr b)
    obtain xs mm f where b: "b = (xs, mm, f)" by (cases b)
    have "fs_ok (set_meta f (mm\<lparr>mm_Xattrs := Some (gm_del name xs)\<rparr>) m')"
      using set_meta_ok(1) [OF x(1) x(2) [OF Inr [unfolded b]]] by simp
    then show ?thesis using Pair Inr b x(1) by (simp add: XattrRemove_mem_def split: option.split)
  qed
qed

section \<open>Temporary names\<close>

lemma seq_same [simp]:
  "fs_ok (m\<lparr>tempSeq := k\<rparr>) = fs_ok m" "entry (m\<lparr>tempSeq := k\<rparr>) = entry m"
  "view (m\<lparr>tempSeq := k\<rparr>) = view m"
  using fs_same [of "m\<lparr>tempSeq := k\<rparr>" m] by simp_all

definition temp_found :: "string \<Rightarrow> string \<Rightarrow> MemFileOps \<Rightarrow> string \<times> MemFileOps \<Rightarrow> bool" where
  "temp_found r p m q =
    (\<exists>k > tempSeq m. q = (filepath_Join r (temp_name_of p (dec_str k)), m\<lparr>tempSeq := k\<rparr>) \<and> \<not> entry m (fst q))"

lemma temp_found_later: "temp_found r p (m\<lparr>tempSeq := tempSeq m + 1\<rparr>) q \<Longrightarrow> temp_found r p m q"
  unfolding temp_found_def by force

lemma temp_loop_state:
  assumes "temp_loop e r p m = Some q"
  shows "temp_found r p m q"
proof (rule temp_loop.raw_induct [where P = "\<lambda>e r p m q. temp_found r p m q", OF _ assms])
  fix loop e r p m q
  assume IH: "\<And>e r p m q. loop e r p m = Some q \<Longrightarrow> temp_found r p m q"
    and st: "(let m = m\<lparr>tempSeq := tempSeq m + 1\<rparr>;
         candidate = filepath_Join r (temp_name_of p (dec_str (tempSeq m)))
       in if infoFor e m candidate = None then Some (candidate, m) else loop e r p m) = Some q"
  let ?m = "m\<lparr>tempSeq := tempSeq m + 1\<rparr>"
  let ?c = "filepath_Join r (temp_name_of p (dec_str (tempSeq m + 1)))"
  show "temp_found r p m q"
  proof (cases "infoFor e ?m ?c = None")
    case True
    then have "\<not> entry m ?c" using infoFor_None [of e ?m ?c] by simp
    moreover have "q = (?c, ?m)" using st True by (simp add: Let_def)
    ultimately show ?thesis unfolding temp_found_def by (intro exI [of _ "tempSeq m + 1"]) simp
  next
    case False
    then obtain y where "infoFor e ?m ?c = Some y" by blast
    then have "loop e r p ?m = Some q" using st by (simp add: Let_def)
    then show ?thesis using IH temp_found_later by blast
  qed
qed

lemma tempName_state:
  assumes "tempName e dir p m = Some (r, m')"
  shows "\<exists>k. m' = m\<lparr>tempSeq := k\<rparr>"
proof -
  have "\<exists>k. m = m\<lparr>tempSeq := k\<rparr>" by (rule exI [of _ "tempSeq m"]) simp
  moreover have "m' = m \<or> (\<exists>e r p c. temp_loop e r p m = Some (c, m'))"
    using assms by (auto simp: tempName_def Let_def split: option.splits if_splits)
  ultimately show ?thesis
    using temp_loop_state [of _ _ _ m "(_, m')"] unfolding temp_found_def by blast
qed

lemma TempFile_inv: "\<lbrakk>fs_ok m; TempFile_mem e dir p m = Some (r, m')\<rbrakk> \<Longrightarrow> fs_ok m'"
proof -
  assume ok: "fs_ok m" and t: "TempFile_mem e dir p m = Some (r, m')"
  obtain r1 m1 where n: "tempName e dir p m = Some (r1, m1)"
    using t by (auto simp: TempFile_mem_def split: option.splits)
  then have "fs_ok m1" using tempName_state ok by fastforce
  then have "fs_ok (snd (writeFileLocked e path [] 0x180 m1))" for path using WriteFile_inv by blast
  with t n \<open>fs_ok m1\<close> show "fs_ok m'"
    by (auto simp: TempFile_mem_def split: sum.splits prod.splits) (metis snd_conv)+
qed

lemma TempDir_inv: "\<lbrakk>fs_ok m; TempDir_mem e dir p m = Some (r, m')\<rbrakk> \<Longrightarrow> fs_ok m'"
proof -
  assume ok: "fs_ok m" and t: "TempDir_mem e dir p m = Some (r, m')"
  obtain r1 m1 where n: "tempName e dir p m = Some (r1, m1)"
    using t by (auto simp: TempDir_mem_def split: option.splits)
  then have "fs_ok m1" using tempName_state ok by fastforce
  then have "fs_ok (snd (mkdirAllLocked e path 0x1C0 m1))" for path using MkdirAll_inv by blast
  with t n \<open>fs_ok m1\<close> show "fs_ok m'"
    by (auto simp: TempDir_mem_def split: sum.splits prod.splits) (metis snd_conv)+
qed

lemma Watch_inv: "fs_ok m \<Longrightarrow> fs_ok (snd (Watch_mem e path opts m))"
  using fs_same(1) [of "m\<lparr>watchers := w, next_addr := n\<rparr>" m for w n]
  by (auto simp: Watch_mem_def split: sum.split)

end
