(* ===== verification/Mem_Rename.thy ===== *)
theory Mem_Rename
  imports Mem_Effects
begin

text \<open>
  Rename: what it leaves of the tree, and the invariant.  The guard names the
  calls that leave no tree behind: a directory moved into itself, a root, or a
  name that starts with \<open>..\<close>.
\<close>

section \<open>Children\<close>

lemma fold_add_child_nonempty:
  "\<lbrakk>c \<in> set ks; c \<noteq> d; filepath_Dir c = d\<rbrakk> \<Longrightarrow> fold (add_child e m d) ks acc \<noteq> []"
proof (induction ks arbitrary: acc)
  case (Cons k ks)
  have ne: "fold (add_child e m d) ks acc \<noteq> []" if "acc \<noteq> []" for acc
    using that
  proof (induction ks arbitrary: acc)
    case (Cons k ks)
    have "add_child e m d k acc \<noteq> []"
      using Cons.prems by (auto simp: add_child_def Let_def gm_put_def)
    then show ?case using Cons.IH by simp
  qed simp
  show ?case
  proof (cases "k = c")
    case True
    then have "add_child e m d k acc \<noteq> []"
      using Cons.prems by (auto simp: add_child_def Let_def gm_put_def)
    then show ?thesis using ne by simp
  next
    case False
    then show ?thesis using Cons by simp
  qed
qed simp

lemma entry_key:
  assumes "maps_ok m" "entry m c"
  shows "c \<in> set (all_keys m)"
proof -
  consider "gm_get (Files m) c \<noteq> None" | "gm_get (Links m) c \<noteq> None" | "gm_get (Dirs m) c \<noteq> None"
    | mm where "gm_get (Metas m) c = Some mm" "mm_Target mm \<noteq> []"
    using assms(2) by (auto simp: entry_def isFileEntry_get is_dir_def link_target_def split: option.splits if_splits)
  then show ?thesis
  proof cases
    case 4
    then have "(c, mm) \<in> set (Metas m)" using assms(1) gm_get_in [of "Metas m" c mm] by (simp add: maps_ok_def)
    with 4 show ?thesis by (force simp: all_keys_def)
  qed (auto simp: all_keys_def simp flip: gm_get_keys)
qed

lemma children_nonempty:
  assumes "fs_ok m" "entry m c" "filepath_Dir c = d" "c \<noteq> d"
  shows "collectChildren e m d \<noteq> []"
  unfolding collectChildren_def
  using fold_add_child_nonempty [OF entry_key] fs_okD(1) assms by blast

lemma child_between:
  assumes "fs_ok m" "is_clean d" "\<not> isMemRoot d" "entry m q" "isUnder q d" "q \<noteq> d"
  shows "\<exists>c. entry m c \<and> filepath_Dir c = d \<and> c \<noteq> d"
  using assms(4-6)
proof (induction "dir_measure q" arbitrary: q rule: less_induct)
  case less
  have q: "is_clean q" using entry_clean assms(1) less.prems by blast
  have nr: "\<not> isMemRoot q" using isUnder_root [OF q assms(2,3)] less.prems by blast
  show ?case
  proof (cases "filepath_Dir q = d")
    case True
    then show ?thesis using less.prems by blast
  next
    case False
    have u: "isUnder (filepath_Dir q) d" using isUnder_Dir [OF q assms(2,3) nr] less.prems by auto
    then have "\<not> isMemRoot (filepath_Dir q)" using isUnder_root [OF _ assms(2,3)] by blast
    then have e: "entry m (filepath_Dir q)" using entry_parent [OF assms(1) less.prems(1)] dir_entry by blast
    have "dir_measure (filepath_Dir q) < dir_measure q"
      using nr q is_clean_nonempty by (intro Dir_measure) (auto simp: isMemRoot_def)
    then show ?thesis using less.hyps e u False by blast
  qed
qed

section \<open>Clearing the new name\<close>

lemma gm_del_absent: "gm_get mp k = None \<Longrightarrow> gm_del k mp = mp"
  by (auto simp: gm_del_def gm_get_def map_of_eq_None_iff intro!: filter_True)

lemma unlink_symlink:
  assumes ok: "fs_ok m" and l: "link_target m n \<noteq> None"
  shows "removeFileEntry n m = m\<lparr>Metas := gm_del n (Metas m)\<rparr>"
proof -
  have nf: "gm_get (Files m) n = None" "gm_get (Links m) n = None"
    using link_kind [OF ok l] by (auto simp: isFileEntry_get)
  have "gm_get (Links m) a \<noteq> Some n" for a using alias_kind [OF ok, of a n] nf by auto
  then have "aliases_of m n = []" using set_aliases [OF fs_okD(1) [OF ok], of n] by auto
  then show ?thesis
    using nf by (simp add: removeFileEntry_def gm_del_absent gm_has_def del: gm_has_iff)
qed

lemma plain_view:
  "fs_ok m \<Longrightarrow> plain_at m q \<longleftrightarrow> (\<forall>n. view m q = Some n \<longrightarrow> (\<exists>mm. n = NDir mm))"
  using view_kinds [of m q] by (auto simp: plain_at_def view_def)

definition cleared :: "mem_env \<Rightarrow> string \<Rightarrow> MemFileOps \<Rightarrow> MemFileOps" where
  "cleared e n m =
    (case infoFor e m n of
       None \<Rightarrow> m
     | Some i \<Rightarrow> if fi_IsDir i then removeTree n m else removeFileEntry n m)"

lemma cleared_laws:
  assumes ok: "fs_ok m" and n: "is_clean n" "\<not> isMemRoot n"
  shows "fs_ok (cleared e n m)" "view (cleared e n m) q = (if isUnder q n then None else view m q)"
proof -
  have below: "view m q = None" if "\<not> is_dir m n" "isUnder q n" "q \<noteq> n" for q
    using nothing_under [OF ok n that] view_None by blast
  have "fs_ok (cleared e n m) \<and> view (cleared e n m) q = (if isUnder q n then None else view m q)"
  proof (cases "infoFor e m n")
    case None
    then have "view m n = None" "\<not> is_dir m n"
      using infoFor_None [of e m n] view_None dir_entry by auto
    then show ?thesis using None ok below by (auto simp: cleared_def)
  next
    case (Some i)
    note k = infoFor_kind [OF ok Some]
    show ?thesis
    proof (cases "fi_IsDir i")
      case True
      then show ?thesis using Some removeTree_laws [OF ok n] by (simp add: cleared_def)
    next
      case False
      then have nd: "\<not> is_dir m n" using k by simp
      show ?thesis
      proof (cases "fi_Symlink i")
        case True
        then have l: "link_target m n \<noteq> None" using k by simp
        have "cleared e n m = m\<lparr>Metas := gm_del n (Metas m)\<rparr>"
          using Some False unlink_symlink [OF ok l] by (simp add: cleared_def)
        then show ?thesis using drop_link(1) [OF ok l] drop_link(2) [OF ok l, of q] below [OF nd, of q] by auto
      next
        case ns: False
        have f: "isFileEntry m n" using k(3) [OF False ns] .
        have "cleared e n m = removeFileEntry n m" using Some False by (simp add: cleared_def)
        then show ?thesis
          using unlink_ok [OF ok f] unlink_view [OF ok f, of q] below [OF nd, of q] by auto
      qed
    qed
  qed
  then show "fs_ok (cleared e n m)" "view (cleared e n m) q = (if isUnder q n then None else view m q)"
    by blast+
qed

section \<open>A name renamed to itself\<close>

lemma remap_self_get:
  "gm_get (fold (\<lambda>k mp'. case remap p p k of Some n \<Rightarrow> gm_del k (gm_put n (g (gm_get mp' k)) mp') | None \<Rightarrow> mp') ks mp) q
    = (if q \<in> set ks \<and> isUnder q p then None else gm_get mp q)"
proof (induction ks arbitrary: mp)
  case (Cons k ks)
  have s: "remap p p k = (if isUnder k p then Some k else None)"
    using move_back(2) [of k p p] by (auto simp: remap_isUnder move_path_def isUnder_def go_has_prefix_iff)
  show ?case by (auto simp: Cons s)
qed simp

lemma rename_self:
  assumes ok: "fs_ok m" and none: "\<And>q. isUnder q p \<Longrightarrow> \<not> entry m q"
  shows "fs_ok (rename_tree p p m)" "view (rename_tree p p m) = view m"
    "gm_get (Metas (rename_tree p p m)) q = (if isUnder q p then None else gm_get (Metas m) q)"
proof -
  let ?m = "rename_tree p p m"
  have empty: "gm_get (Files m) q = None" "gm_get (Links m) q = None" "gm_get (Dirs m) q = None"
      "link_target m q = None" if "isUnder q p" for q
    using none [OF that] is_dir_Dirs [OF ok, of q] by (auto simp: entry_def isFileEntry_get)
  have inmap: "gm_get mp q = None" if "q \<notin> set (gm_keys mp)" for mp :: "(string, 'v) gomap" and q
    using that gm_get_keys by metis
  have F: "gm_get (Files ?m) q = gm_get (Files m) q" for q
    using empty(1) [of q] remap_self_get [of "\<lambda>v. case v of Some v \<Rightarrow> v | None \<Rightarrow> []" p "gm_keys (Files m)" "Files m" q]
    by (auto simp: rename_tree_def Let_def remap_keys_def)
  have D: "gm_get (Dirs ?m) q = gm_get (Dirs m) q" for q
    using empty(3) [of q] remap_self_get [of "\<lambda>v. True" p "gm_keys (Dirs m)" "Dirs m" q]
    by (auto simp: rename_tree_def Let_def)
  have M: "gm_get (Metas ?m) q = (if isUnder q p then None else gm_get (Metas m) q)" for q
    using inmap [of q "Metas m"] remap_self_get [of "\<lambda>v. case v of Some v \<Rightarrow> v | None \<Rightarrow> zero_memMeta" p "gm_keys (Metas m)" "Metas m" q]
    by (auto simp: rename_tree_def Let_def remap_keys_def)
  have ml: "gm_get (map (\<lambda>(a, c). (a, h c)) mp) q = map_option h (gm_get mp q)"
    for h :: "string \<Rightarrow> string" and mp :: "(string, string) gomap" and q
    by (simp add: gm_get_def map_of_map)
  have c: "(case remap p p c of Some nc \<Rightarrow> nc | None \<Rightarrow> c) = c" for c
    by (auto simp: remap_isUnder move_path_def isUnder_def go_has_prefix_iff)
  have L: "gm_get (Links ?m) q = gm_get (Links m) q" for q
    using empty(2) [of q] remap_self_get [of "\<lambda>v. case v of Some v \<Rightarrow> v | None \<Rightarrow> []" p "gm_keys (Links m)" "Links m" q]
    by (auto simp: rename_tree_def Let_def remap_keys_def ml c option.map_ident)
  have T: "link_target ?m = link_target m"
  proof
    fix q show "link_target ?m q = link_target m q"
      using empty(4) [of q] by (simp add: link_target_def M)
  qed
  have mk: "gm_ok (map (\<lambda>(a, c). (a, h c)) mp)" if "gm_ok mp"
    for h :: "string \<Rightarrow> string" and mp :: "(string, string) gomap"
    using that by (simp add: gm_ok_def comp_def case_prod_beta)
  have maps: "maps_ok ?m"
    using fs_okD(1) [OF ok] move_keys_ok [of "Dirs m" "remap p p" "\<lambda>_. True" "gm_keys (Dirs m)"]
      move_keys_ok [of "Files m" "remap p p" "\<lambda>v. case v of Some v \<Rightarrow> v | None \<Rightarrow> []" "gm_keys (Files m)"]
      move_keys_ok [of "Metas m" "remap p p" "\<lambda>v. case v of Some v \<Rightarrow> v | None \<Rightarrow> zero_memMeta" "gm_keys (Metas m)"]
      mk [OF move_keys_ok [of "Links m" "remap p p" "\<lambda>v. case v of Some v \<Rightarrow> v | None \<Rightarrow> []" "gm_keys (Links m)"]]
    by (simp add: rename_tree_def Let_def maps_ok_def remap_keys_def move_keys_def)
  have mt: "gm_get (Metas ?m) q \<noteq> None" if "gm_get (Files m) q \<noteq> None \<or> is_dir m q" for q
  proof -
    have "entry m q" using that by (auto simp: entry_def isFileEntry_get)
    then have "\<not> isUnder q p" using none by blast
    then show ?thesis using M meta_present [OF ok that] by simp
  qed
  have g: "fs_ok ?m" "entry ?m = entry m" "isFileEntry ?m = isFileEntry m" "is_dir ?m = is_dir m"
    "canon ?m = canon m"
    by (rule fs_ok_gets [OF ok maps F L D T], erule mt)+
  then show "fs_ok ?m" by blast
  show "gm_get (Metas ?m) q = (if isUnder q p then None else gm_get (Metas m) q)" by (rule M)
  show "view ?m = view m"
  proof
    fix q
    show "view ?m q = view m q"
    proof (cases "entry m q")
      case False
      then show ?thesis using g(2) view_None by metis
    next
      case True
      then have "\<not> isUnder q p" using none by blast
      moreover have "\<not> isUnder (canon m q) p" if "isFileEntry m q"
        using canon_file(1) [OF ok that] none by (auto simp: entry_def isFileEntry_get)
      ultimately show ?thesis by (simp add: view_def g T M file_data_def F)
    qed
  qed
qed

section \<open>Rename\<close>

definition rename_guard :: "MemFileOps \<Rightarrow> string \<Rightarrow> string \<Rightarrow> bool" where
  "rename_guard m oldPath newPath =
    (case resolve m oldPath False of
       Inl _ \<Rightarrow> True
     | Inr old \<Rightarrow>
       (case resolve m newPath False of
          Inl _ \<Rightarrow> True
        | Inr new \<Rightarrow> \<not> isMemRoot old \<and> \<not> isMemRoot new \<and> ''..'' \<notin> set (go_split slash old) \<and>
            (isUnder new old \<longrightarrow> new = old)))"

lemma rename_result:
  assumes "Rename_mem e oldPath newPath m = (r, m')"
  shows "(m' = m \<and> (\<exists>err. r = Inl err)) \<or>
    (\<exists>old new. resolve m oldPath False = Inr old \<and> resolve m newPath False = Inr new \<and> entry m old \<and> r = Inr () \<and>
      (is_dir m new \<longrightarrow> collectChildren e m new = [] \<or> \<not> fs_ok m) \<and>
      m' = emit ''create'' new (emit ''rename'' old
        (rename_tree old new (recordDir e (filepath_Dir new) (cleared e new m)))))"
proof (cases "resolve m oldPath False")
  case (Inl err)
  then show ?thesis using assms by (auto simp: Rename_mem_def)
next
  case o: (Inr old)
  show ?thesis
  proof (cases "resolve m newPath False")
    case (Inl err)
    then show ?thesis using assms o by (auto simp: Rename_mem_def)
  next
    case n: (Inr new)
    show ?thesis
    proof (cases "infoFor e m old")
      case None
      then show ?thesis using assms o n by (auto simp: Rename_mem_def)
    next
      case (Some src)
      have eo: "entry m old" using Some infoFor_None [of e m old] by simp
      show ?thesis
      proof (cases "checkParentWrite e m ''rename'' oldPath old = None \<and> checkParentWrite e m ''rename'' newPath new = None")
        case False
        then show ?thesis using assms o n Some by (auto simp: Rename_mem_def split: option.splits)
      next
        case perm: True
        show ?thesis
        proof (cases "infoFor e m new")
          case None
          then have "\<not> is_dir m new" using infoFor_None [of e m new] dir_entry by auto
          then show ?thesis
            using assms o n Some perm None eo by (auto simp: Rename_mem_def cleared_def)
        next
          case dst: (Some dst)
          have k: "is_dir m new \<longrightarrow> fi_IsDir dst \<or> \<not> fs_ok m" using infoFor_kind(1) [OF _ dst] by blast
          then show ?thesis
            using assms o n Some perm dst eo
            by (cases "fi_IsDir src"; cases "fi_IsDir dst"; cases "collectChildren e m new = []")
              (auto simp: Rename_mem_def cleared_def)
        qed
      qed
    qed
  qed
qed

lemma rename_prepared:
  fixes e :: mem_env
  assumes ok: "fs_ok m" and r: "resolve m newPath False = Inr new" and nr: "\<not> isMemRoot new"
  defines "m2 \<equiv> recordDir e (filepath_Dir new) (cleared e new m)"
  shows "fs_ok m2"
    and "view m2 q = (if isUnder q new then None
      else if dir_of (filepath_Dir new) q \<and> \<not> is_dir m q then Some (NDir (gm_get (Metas m2) q)) else view m q)"
    and "isMemRoot (filepath_Dir new) \<or> is_dir m2 (filepath_Dir new)"
    and "isUnder q new \<Longrightarrow> \<not> entry m2 q"
proof -
  note n = resolve_ok(1,2) [OF r]
  let ?m1 = "cleared e new m"
  note c = cleared_laws [OF ok n(1) nr, of e]
  have nu: "\<not> isUnder q new" if "dir_of (filepath_Dir new) q" for q
    using that isUnder_trans [of "filepath_Dir new" q new] Dir_not_under [OF n(1) nr] by blast
  have pl: "plain_to ?m1 (filepath_Dir new)"
    unfolding plain_to_def plain_view [OF c(1)]
  proof (intro allI impI)
    fix q d assume q: "is_clean q \<and> \<not> isMemRoot q \<and> isUnder (filepath_Dir new) q" and v: "view ?m1 q = Some d"
    then have "view m q = Some d" using c(2) [of q] nu [of q] by simp
    moreover have "plain_at m q" using plain_parent [OF n] q by (simp add: plain_to_def)
    ultimately show "\<exists>mm. d = NDir mm" using plain_view [OF ok, of q] by blast
  qed
  show f2: "fs_ok m2" unfolding m2_def using recordDir_ok [OF c(1) is_clean_Dir pl] .
  have dd: "is_dir ?m1 q = is_dir m q" if "\<not> isUnder q new"
    using view_kinds(1) [OF c(1), of q] view_kinds(1) [OF ok, of q] c(2) [of q] that by simp
  show v: "view m2 q = (if isUnder q new then None
      else if dir_of (filepath_Dir new) q \<and> \<not> is_dir m q then Some (NDir (gm_get (Metas m2) q)) else view m q)" for q
  proof (cases "isUnder q new")
    case True
    then have "\<not> dir_of (filepath_Dir new) q" using nu by blast
    then show ?thesis
      unfolding m2_def using recordDir_view [OF c(1) is_clean_Dir pl, of e q] c(2) [of q] True by auto
  next
    case False
    have "is_dir ?m1 q = is_dir m q"
      using view_kinds(1) [OF c(1), of q] view_kinds(1) [OF ok, of q] c(2) [of q] False by simp
    then show ?thesis
      unfolding m2_def using recordDir_view [OF c(1) is_clean_Dir pl, of e q] c(2) [of q] False by simp
  qed
  show "isMemRoot (filepath_Dir new) \<or> is_dir m2 (filepath_Dir new)"
    unfolding m2_def using recordDir_is_dir [OF is_clean_Dir, of e new ?m1 "filepath_Dir new"] by auto
  show "\<not> entry m2 q" if "isUnder q new" using v [of q] that view_None by simp
qed

lemma rename_movable:
  assumes ok: "fs_ok m" and o: "resolve m oldPath False = Inr old" and n: "resolve m newPath False = Inr new"
    and g: "rename_guard m oldPath newPath" and ne: "old \<noteq> new" and eo: "entry m old"
    and dst: "is_dir m new \<longrightarrow> collectChildren e m new = []"
  shows "movable (recordDir e (filepath_Dir new) (cleared e new m)) old new"
proof -
  have gg: "\<not> isMemRoot old" "\<not> isMemRoot new" "''..'' \<notin> set (go_split slash old)" "\<not> isUnder new old"
    using g o n ne by (auto simp: rename_guard_def)
  note cl = resolve_ok(1) [OF o] resolve_ok(1) [OF n]
  have "\<not> isUnder old new"
  proof
    assume u: "isUnder old new"
    then have d: "is_dir m new" using above_entry [OF ok eo u ne cl(2) gg(2)] by blast
    obtain c where "entry m c" "filepath_Dir c = new" "c \<noteq> new"
      using child_between [OF ok cl(2) gg(2) eo u ne] by blast
    then show False using children_nonempty [OF ok] d dst by blast
  qed
  then show ?thesis
    using gg cl rename_prepared(3,4) [OF ok n gg(2)] by (auto simp: movable_def)
qed

lemma Rename_inv:
  assumes ok: "fs_ok m" and g: "rename_guard m oldPath newPath"
  shows "fs_ok (snd (Rename_mem e oldPath newPath m))"
proof (cases "Rename_mem e oldPath newPath m")
  case (Pair r m')
  from rename_result [OF Pair] show ?thesis
  proof
    assume "m' = m \<and> (\<exists>err. r = Inl err)"
    then show ?thesis using ok Pair by simp
  next
    let ?m2 = "\<lambda>new. recordDir e (filepath_Dir new) (cleared e new m)"
    assume "\<exists>old new. resolve m oldPath False = Inr old \<and> resolve m newPath False = Inr new \<and> entry m old \<and> r = Inr () \<and>
      (is_dir m new \<longrightarrow> collectChildren e m new = [] \<or> \<not> fs_ok m) \<and>
      m' = emit ''create'' new (emit ''rename'' old (rename_tree old new (?m2 new)))"
    then obtain old new where r: "resolve m oldPath False = Inr old" "resolve m newPath False = Inr new"
      "entry m old" "is_dir m new \<longrightarrow> collectChildren e m new = []"
      "m' = emit ''create'' new (emit ''rename'' old (rename_tree old new (?m2 new)))"
      using ok by blast
    have nr: "\<not> isMemRoot new" using g r by (auto simp: rename_guard_def)
    note p = rename_prepared [where e = e, OF ok r(2) nr]
    have "fs_ok (rename_tree old new (?m2 new))"
    proof (cases "old = new")
      case True
      then show ?thesis using rename_self(1) [OF p(1)] p(4) by blast
    next
      case False
      then show ?thesis using rename_ok [OF p(1) rename_movable [OF ok r(1,2) g False r(3,4)]] by blast
    qed
    then show ?thesis using Pair r by simp
  qed
qed

text \<open>The tree a successful Rename leaves.\<close>

lemma Rename_view:
  assumes ok: "fs_ok m" and g: "rename_guard m oldPath newPath"
    and r: "Rename_mem e oldPath newPath m = (Inr (), m')"
    and o: "resolve m oldPath False = Inr old" and n: "resolve m newPath False = Inr new"
  shows "view m' q =
    (if isUnder q new then (if old = new then None else view m (move_path new old q))
     else if isUnder q old then None
     else if dir_of (filepath_Dir new) q \<and> \<not> is_dir m q then Some (NDir (gm_get (Metas m') q))
     else view m q)"
proof -
  let ?m2 = "recordDir e (filepath_Dir new) (cleared e new m)"
  have nr: "\<not> isMemRoot new" using g o n by (auto simp: rename_guard_def)
  note p = rename_prepared [where e = e, OF ok n nr]
  obtain old' new' where r': "resolve m oldPath False = Inr old'" "resolve m newPath False = Inr new'"
    "entry m old'" "is_dir m new' \<longrightarrow> collectChildren e m new' = []"
    "m' = emit ''create'' new' (emit ''rename'' old'
      (rename_tree old' new' (recordDir e (filepath_Dir new') (cleared e new' m))))"
    using rename_result [OF r] ok by blast
  have on: "old' = old" "new' = new" using r'(1,2) o n by auto
  have m': "view m' = view (rename_tree old new ?m2)" "Metas m' = Metas (rename_tree old new ?m2)"
    using r'(5) on by simp_all
  show ?thesis
  proof (cases "old = new")
    case True
    note s = rename_self [OF p(1), of new, OF p(4)]
    show ?thesis using True p(2) [of q] s(3) [of q] by (simp add: m' s(2))
  next
    case False
    have mv: "movable ?m2 old new" using rename_movable [OF ok o n g False] r'(3,4) on by blast
    have uo: "\<not> isUnder new old" "\<not> isUnder old new"
      using mv by (simp_all add: movable_def)
    have par: "\<not> dir_of (filepath_Dir new) q'" if "isUnder q' old" for q'
    proof
      assume d: "dir_of (filepath_Dir new) q'"
      have "\<not> isMemRoot (filepath_Dir new)" using isUnder_root [OF is_clean_Dir] d by blast
      then have "isUnder new (filepath_Dir new)" using isUnder_Dir_le resolve_ok(1) [OF n] by blast
      then have "isUnder new old" using isUnder_trans d that by blast
      then show False using uo by blast
    qed
    have mt: "gm_get (Metas m') q = gm_get (Metas ?m2) q" if "\<not> isUnder q new" "\<not> isUnder q old"
      using rename_gets(4) [OF p(1) mv, of q] that by (simp add: m')
    show ?thesis
    proof (cases "isUnder q new")
      case True
      let ?b = "move_path new old q"
      have b: "isUnder ?b old" using move_back(1) [OF True] .
      then have nb: "\<not> isUnder ?b new"
        using isUnder_linear [OF b] uo isUnder_linear [of ?b old new] by blast
      have "view m' q = view ?m2 ?b"
        using rename_view [OF p(1) mv, of q] True move_disjoint [OF mv True] by (simp add: m' moved_from_def)
      then show ?thesis using p(2) [of ?b] nb par [OF b] True False by simp
    next
      case nn: False
      then have "view m' q = (if isUnder q old then None else view ?m2 q)"
        using rename_view [OF p(1) mv, of q] by (simp add: m' moved_from_def)
      then show ?thesis using p(2) [of q] nn mt by auto
    qed
  qed
qed

end
