(* ===== verification/Mem_Handles.thy ===== *)
theory Mem_Handles
  imports Mem_Ops Slices Floats
begin

text \<open>
  Open files and mapped regions of MemFileOps
  (lang/go/capabilities/handles.go, locks.go).  A handle holds the canonical
  key of its file, so every operation reads and writes the maps of the file
  system; offsets are 64-bit integers, and a slice expression out of bounds is
  a panic.
\<close>

section \<open>Slices with 64-bit bounds\<close>

text \<open>\<open>s[lo:hi]\<close> and \<open>make([]byte, n)\<close>.\<close>

definition go_slice :: "int \<Rightarrow> int \<Rightarrow> 'a list \<Rightarrow> 'a list go" where
  "go_slice lo hi s =
    (if 0 \<le> lo \<and> lo \<le> hi \<and> hi \<le> int (length s) then go_ok (slice (nat lo) (nat hi) s)
     else go_panics IndexOutOfRange)"

definition go_make :: "int \<Rightarrow> 8 word list go" where
  "go_make n = (if n < 0 then go_panics IndexOutOfRange else go_ok (replicate (nat n) 0))"

definition writeInto :: "8 word list \<Rightarrow> 8 word list \<Rightarrow> int \<Rightarrow> 8 word list go" where
  "writeInto dst src off =
    (let end = add64 off (int (length src));
         dst = (if end > int (length dst) then resize dst (nat end) else dst)
     in case go_slice off end dst of
          Inl p \<Rightarrow> Inl p
        | Inr _ \<Rightarrow> go_ok (go_copy (nat off) src dst))"

section \<open>Handles\<close>

record memFileHandle =
  h_canon :: string
  h_final :: string
  h_path :: string
  h_off :: int
  h_read :: bool
  h_write :: bool
  h_append :: bool
  h_closed :: bool

definition openPerm :: "OpenOpts \<Rightarrow> FileMode" where
  "openPerm opts = (if oo_Perm opts = 0 then perm_file else oo_Perm opts)"

definition set_mtime :: "mem_env \<Rightarrow> string \<Rightarrow> MemFileOps \<Rightarrow> MemFileOps" where
  "set_mtime e c m =
    (case gm_get (Metas m) c of
       Some mm \<Rightarrow> m\<lparr>Metas := gm_put c (mm\<lparr>mm_MTime := clock e\<rparr>) (Metas m)\<rparr>
     | None \<Rightarrow> m)"

definition Open_mem :: "mem_env \<Rightarrow> string \<Rightarrow> OpenOpts \<Rightarrow> memFileHandle mem_op" where
  "Open_mem e path opts m =
    (case resolve m path True of
       Inl err \<Rightarrow> (Inl err, m)
     | Inr final \<Rightarrow>
       if is_dir m final then (Inl (PathError ''open'' path errMemIsDir), m)
       else
         let c = canon m final;
             ex = gm_has (Files m) c;
             canRead = (oo_Read opts \<or> (\<not> oo_Write opts \<and> \<not> oo_Append opts));
             canWrite = (oo_Write opts \<or> oo_Append opts);
             h = \<lparr> h_canon = c, h_final = final, h_path = path, h_off = 0, h_read = canRead,
                   h_write = canWrite, h_append = oo_Append opts, h_closed = False \<rparr>
         in
         if ex \<and> oo_Create opts \<and> oo_Exclusive opts then (Inl (PathError ''open'' path ErrExist), m)
         else if \<not> ex \<and> \<not> oo_Create opts then (Inl (PathError ''open'' path ErrNotExist), m)
         else if \<not> ex then
           (case checkParentWrite e m ''open'' path final of
              Some err \<Rightarrow> (Inl err, m)
            | None \<Rightarrow>
                (let m = recordDir e (filepath_Dir final) m
                 in (Inr h, emit ''create'' final
                      (m\<lparr>Files := gm_put c [] (Files m),
                         Metas := gm_put c (fresh_meta e (openPerm opts)) (Metas m)\<rparr>))))
         else
           case (if canRead then checkPerm e m ''open'' path final perm_read else None) of
             Some err \<Rightarrow> (Inl err, m)
           | None \<Rightarrow>
           case (if canWrite then checkPerm e m ''open'' path final perm_write else None) of
             Some err \<Rightarrow> (Inl err, m)
           | None \<Rightarrow>
               if oo_Truncate opts \<and> canWrite
               then (Inr h, emit ''write'' final (set_mtime e c (m\<lparr>Files := gm_put c [] (Files m)\<rparr>)))
               else (Inr h, m))"

text \<open>An operation of a handle: its result, the handle and the file system after it.\<close>

type_synonym 'a handle_op = "memFileHandle \<Rightarrow> MemFileOps \<Rightarrow> 'a fs_result \<times> memFileHandle \<times> MemFileOps"

definition h_err :: "string \<Rightarrow> memFileHandle \<Rightarrow> errno \<Rightarrow> fs_error" where
  "h_err op h err = PathError op (h_path h) err"

definition handle_Sync :: "unit handle_op" where
  "handle_Sync h m = (if h_closed h then (Inl (h_err ''sync'' h ErrClosed), h, m) else (Inr (), h, m))"

definition handle_Close :: "unit handle_op" where
  "handle_Close h m =
    (if h_closed h then (Inl (h_err ''close'' h ErrClosed), h, m) else (Inr (), h\<lparr>h_closed := True\<rparr>, m))"

definition handle_data :: "memFileHandle \<Rightarrow> MemFileOps \<Rightarrow> 8 word list" where
  "handle_data h m = file_data m (h_canon h)"

definition handle_store :: "mem_env \<Rightarrow> 8 word list \<Rightarrow> memFileHandle \<Rightarrow> MemFileOps \<Rightarrow> MemFileOps" where
  "handle_store e b h m =
    emit ''write'' (h_final h) (set_mtime e (h_canon h) (m\<lparr>Files := gm_put (h_canon h) b (Files m)\<rparr>))"

text \<open>Read into a buffer of length n: the bytes read.\<close>

definition handle_Read :: "nat \<Rightarrow> 8 word list handle_op" where
  "handle_Read n h m =
    (if h_closed h then (Inl (h_err ''read'' h ErrClosed), h, m)
     else if \<not> h_read h then (Inl (h_err ''read'' h errHandleRead), h, m)
     else let data = handle_data h m in
       if h_off h \<ge> int (length data) then (Inl EOF, h, m)
       else let bs = take n (drop (nat (h_off h)) data)
            in (Inr bs, h\<lparr>h_off := add64 (h_off h) (int (length bs))\<rparr>, m))"

text \<open>A positioned read may give bytes and an error.\<close>

definition handle_ReadAt :: "nat \<Rightarrow> int \<Rightarrow> memFileHandle \<Rightarrow> MemFileOps \<Rightarrow> 8 word list \<times> fs_error option" where
  "handle_ReadAt n off h m =
    (if h_closed h then ([], Some (h_err ''read'' h ErrClosed))
     else if \<not> h_read h then ([], Some (h_err ''read'' h errHandleRead))
     else if off < 0 then ([], Some (h_err ''readat'' h ErrInvalid))
     else let data = handle_data h m in
       if off \<ge> int (length data) then ([], Some EOF)
       else let bs = take n (drop (nat off) data)
            in (bs, if length bs < n then Some EOF else None))"

definition handle_Write ::
  "mem_env \<Rightarrow> 8 word list \<Rightarrow> memFileHandle \<Rightarrow> MemFileOps \<Rightarrow> (nat fs_result \<times> memFileHandle \<times> MemFileOps) go" where
  "handle_Write e p h m =
    (if h_closed h then go_ok (Inl (h_err ''write'' h ErrClosed), h, m)
     else if \<not> h_write h then go_ok (Inl (h_err ''write'' h errHandleWrite), h, m)
     else
       let data = handle_data h m;
           h = (if h_append h then h\<lparr>h_off := int (length data)\<rparr> else h)
       in case writeInto data p (h_off h) of
            Inl pn \<Rightarrow> Inl pn
          | Inr b \<Rightarrow>
              go_ok (Inr (length p), h\<lparr>h_off := add64 (h_off h) (int (length p))\<rparr>, handle_store e b h m))"

definition handle_WriteAt ::
  "mem_env \<Rightarrow> 8 word list \<Rightarrow> int \<Rightarrow> memFileHandle \<Rightarrow> MemFileOps \<Rightarrow> (nat fs_result \<times> MemFileOps) go" where
  "handle_WriteAt e p off h m =
    (if h_closed h then go_ok (Inl (h_err ''write'' h ErrClosed), m)
     else if \<not> h_write h then go_ok (Inl (h_err ''write'' h errHandleWrite), m)
     else if h_append h then go_ok (Inl (h_err ''writeat'' h errAppendWriteAt), m)
     else if off < 0 then go_ok (Inl (h_err ''writeat'' h ErrInvalid), m)
     else case writeInto (handle_data h m) p off of
            Inl pn \<Rightarrow> Inl pn
          | Inr b \<Rightarrow> go_ok (Inr (length p), handle_store e b h m))"

text \<open>io.SeekStart, io.SeekCurrent and io.SeekEnd are 0, 1 and 2.\<close>

definition handle_Seek :: "int \<Rightarrow> int \<Rightarrow> int handle_op" where
  "handle_Seek offset whence h m =
    (if h_closed h then (Inl (h_err ''seek'' h ErrClosed), h, m)
     else
       case (if whence = 0 then Some 0 else if whence = 1 then Some (h_off h)
             else if whence = 2 then Some (int (length (handle_data h m))) else None) of
         None \<Rightarrow> (Inl (h_err ''seek'' h ErrInvalid), h, m)
       | Some base \<Rightarrow>
           (let next_off = add64 base offset
            in if next_off < 0 then (Inl (h_err ''seek'' h ErrInvalid), h, m)
               else (Inr next_off, h\<lparr>h_off := next_off\<rparr>, m)))"

definition handle_Truncate :: "mem_env \<Rightarrow> int \<Rightarrow> unit handle_op" where
  "handle_Truncate e size' h m =
    (if h_closed h then (Inl (h_err ''truncate'' h ErrClosed), h, m)
     else if \<not> h_write h then (Inl (h_err ''truncate'' h errHandleWrite), h, m)
     else if size' < 0 then (Inl (h_err ''truncate'' h ErrInvalid), h, m)
     else (Inr (), h, handle_store e (resize (handle_data h m) (nat size')) h m))"

section \<open>Mapped regions\<close>

definition mmapWindow :: "int \<Rightarrow> int \<Rightarrow> int \<Rightarrow> errno + int \<times> int" where
  "mmapWindow offset len size' =
    (if size' = 0 then Inl ErrInvalid
     else if offset < 0 \<or> offset > size' then Inl ErrInvalid
     else let hi = (if len > 0 then add64 offset len else size')
          in if hi > size' then Inl ErrInvalid else Inr (offset, hi))"

record memMmap =
  mp_key :: string
  mp_final :: string
  mp_offset :: int
  mp_view :: "8 word list"
  mp_writable :: bool
  mp_done :: bool

definition Mmap_mem :: "string \<Rightarrow> int \<Rightarrow> int \<Rightarrow> bool \<Rightarrow> MemFileOps \<Rightarrow> memMmap fs_result go" where
  "Mmap_mem path offset len writable m =
    (case resolve m path True of
       Inl err \<Rightarrow> go_ok (Inl err)
     | Inr final \<Rightarrow>
       if is_dir m final then go_ok (Inl (PathError ''mmap'' path errMemIsDir))
       else let c = canon m final in
         case gm_get (Files m) c of
           None \<Rightarrow> go_ok (Inl (PathError ''mmap'' path ErrNotExist))
         | Some data \<Rightarrow>
           (case mmapWindow offset len (int (length data)) of
              Inl err \<Rightarrow> go_ok (Inl (PathError ''mmap'' path err))
            | Inr (lo, hi) \<Rightarrow>
              (case go_make (add64 hi (- lo)) of
                 Inl pn \<Rightarrow> Inl pn
               | Inr view \<Rightarrow>
                 (case go_slice lo hi data of
                    Inl pn \<Rightarrow> Inl pn
                  | Inr src \<Rightarrow>
                      go_ok (Inr \<lparr> mp_key = c, mp_final = final, mp_offset = lo,
                        mp_view = go_copy 0 src view, mp_writable = writable, mp_done = False \<rparr>)))))"

definition writeBack :: "mem_env \<Rightarrow> memMmap \<Rightarrow> MemFileOps \<Rightarrow> MemFileOps go" where
  "writeBack e r m =
    (case writeInto (file_data m (mp_key r)) (mp_view r) (mp_offset r) of
       Inl pn \<Rightarrow> Inl pn
     | Inr b \<Rightarrow>
         go_ok (emit ''write'' (mp_final r) (set_mtime e (mp_key r) (m\<lparr>Files := gm_put (mp_key r) b (Files m)\<rparr>))))"

definition mmap_Flush :: "mem_env \<Rightarrow> memMmap \<Rightarrow> MemFileOps \<Rightarrow> MemFileOps go" where
  "mmap_Flush e r m = (if \<not> mp_writable r then go_ok m else writeBack e r m)"

definition mmap_Close :: "mem_env \<Rightarrow> memMmap \<Rightarrow> MemFileOps \<Rightarrow> (memMmap \<times> MemFileOps) go" where
  "mmap_Close e r m =
    (if mp_done r then go_ok (r, m)
     else if mp_writable r
     then (case writeBack e r m of Inl pn \<Rightarrow> Inl pn | Inr m' \<Rightarrow> go_ok (r\<lparr>mp_done := True\<rparr>, m'))
     else go_ok (r\<lparr>mp_done := True\<rparr>, m))"

section \<open>Splicing\<close>

lemma length_resize [simp]: "length (resize d n) = n"
  by (simp add: resize_def)

lemma resize_take: "n \<le> length d \<Longrightarrow> resize d n = take n d"
  by (simp add: resize_def)

text \<open>What writeInto gives while the end stays a 64-bit integer.\<close>

definition spliced :: "nat \<Rightarrow> 8 word list \<Rightarrow> 8 word list \<Rightarrow> 8 word list" where
  "spliced off src dst = resize (take off dst) off @ src @ drop (off + length src) dst"

lemma writeInto_spliced:
  assumes "0 \<le> off" "off + int (length src) < 2 ^ 63"
  shows "writeInto dst src off = go_ok (spliced (nat off) src dst)"
proof -
  have e: "add64 off (int (length src)) = off + int (length src)"
    using assms by (intro add64_in_range) auto
  define k where "k = nat off"
  have off: "off = int k" using assms by (simp add: k_def)
  define d where "d = (if off + int (length src) > int (length dst) then resize dst (k + length src) else dst)"
  have l: "k + length src \<le> length d" by (auto simp: d_def off)
  have "go_slice off (off + int (length src)) d = go_ok (slice k (k + length src) d)"
    using l by (simp add: go_slice_def off nat_int_add)
  moreover have "go_copy k src d = spliced k src dst"
  proof (cases "off + int (length src) > int (length dst)")
    case True
    then have d: "d = resize dst (k + length src)" by (simp add: d_def)
    have "take k (resize dst (k + length src)) = resize (take k dst) k"
      by (auto simp: resize_def take_replicate min_def)
    then show ?thesis using True unfolding d by (simp add: go_copy_def spliced_def off)
  next
    case False
    then have "d = dst" "k + length src \<le> length dst" by (auto simp: d_def off)
    then show ?thesis by (simp add: go_copy_def spliced_def resize_def)
  qed
  moreover have "(if off + int (length src) > int (length dst) then resize dst (nat (off + int (length src))) else dst) = d"
    using off by (simp add: d_def nat_int_add)
  moreover have "nat off = k" using off by simp
  ultimately show ?thesis
    unfolding writeInto_def e Let_def by simp
qed

lemma length_spliced: "length (spliced off src dst) = max (length dst) (off + length src)"
  by (auto simp: spliced_def)

lemma spliced_nth:
  "i < length (spliced off src dst) \<Longrightarrow>
    spliced off src dst ! i
      = (if off \<le> i \<and> i < off + length src then src ! (i - off)
         else if i < length dst then dst ! i else 0)"
  by (auto simp: spliced_def nth_append resize_def)

text \<open>The bytes written are the bytes found there.\<close>

lemma take_spliced: "take (length src) (drop off (spliced off src dst)) = src"
  by (simp add: spliced_def resize_def)

lemma spliced_end: "spliced (length dst) src dst = dst @ src"
  by (simp add: spliced_def resize_def)

lemma spliced_same: "lo + length v \<le> length d \<Longrightarrow> v = slice lo (lo + length v) d \<Longrightarrow> spliced lo v d = d"
  by (simp add: spliced_def resize_def slice_def drop_take) (metis append_assoc append_take_drop_id add.commute drop_drop)

end
