(* ===== verification/Mem_Locks.thy ===== *)
theory Mem_Locks
  imports Mem_Ops
begin

text \<open>
  Advisory locks of MemFileOps (lang/go/capabilities/locks.go): a table of
  reader counts and writer flags under one mutex, and a condition variable the
  blocked calls wait on.  A call holds the mutex from one wait to the next, so
  a step is one turn of its loop; every other step of the program is one that
  leaves the table alone.
\<close>

section \<open>The table\<close>

definition lock_key :: "mem_env \<Rightarrow> string \<Rightarrow> MemFileOps \<Rightarrow> string fs_result" where
  "lock_key e path m =
    (case resolve m path True of
       Inl err \<Rightarrow> Inl err
     | Inr final \<Rightarrow>
         if infoFor e m final = None then Inl (PathError ''lock'' path ErrNotExist)
         else Inr (canon m final))"

definition lock_state :: "string \<Rightarrow> MemFileOps \<Rightarrow> memLockState" where
  "lock_state c m =
    (case gm_get (fileLocks m) c of Some st \<Rightarrow> st | None \<Rightarrow> \<lparr> ml_readers = 0, ml_writer = False \<rparr>)"

definition set_lock :: "string \<Rightarrow> memLockState \<Rightarrow> MemFileOps \<Rightarrow> MemFileOps" where
  "set_lock c st m = m\<lparr>fileLocks := gm_put c st (fileLocks m)\<rparr>"

text \<open>One turn of the loop: the new state where the lock is free.\<close>

definition try_acquire :: "bool \<Rightarrow> memLockState \<Rightarrow> memLockState option" where
  "try_acquire shared st =
    (if shared then (if \<not> ml_writer st then Some (st\<lparr>ml_readers := ml_readers st + 1\<rparr>) else None)
     else if \<not> ml_writer st \<and> ml_readers st = 0 then Some (st\<lparr>ml_writer := True\<rparr>)
     else None)"

record memLock =
  lk_id :: nat
  lk_key :: string
  lk_shared :: bool

text \<open>A call that does not wait.\<close>

definition Lock_mem :: "mem_env \<Rightarrow> nat \<Rightarrow> string \<Rightarrow> bool \<Rightarrow> memLock mem_op" where
  "Lock_mem e i path shared m =
    (case lock_key e path m of
       Inl err \<Rightarrow> (Inl err, m)
     | Inr c \<Rightarrow>
       (case try_acquire shared (lock_state c m) of
          Some st \<Rightarrow> (Inr \<lparr> lk_id = i, lk_key = c, lk_shared = shared \<rparr>, set_lock c st m)
        | None \<Rightarrow> (Inl ErrLockBusy, set_lock c (lock_state c m) m)))"

text \<open>The body of a first Close.\<close>

definition release_lock :: "memLock \<Rightarrow> MemFileOps \<Rightarrow> MemFileOps" where
  "release_lock l m =
    (case gm_get (fileLocks m) (lk_key l) of
       None \<Rightarrow> m
     | Some st \<Rightarrow>
         set_lock (lk_key l)
           (if lk_shared l then st\<lparr>ml_readers := ml_readers st - 1\<rparr> else st\<lparr>ml_writer := False\<rparr>) m)"

section \<open>Steps\<close>

record lock_call =
  lw_id :: nat
  lw_key :: string
  lw_shared :: bool
  lw_block :: bool
  lw_awake :: bool

record lock_conf =
  lc_fs :: MemFileOps
  lc_held :: "memLock list"
  lc_calls :: "lock_call list"
  lc_next :: nat

definition lock_start :: "MemFileOps \<Rightarrow> lock_conf" where
  "lock_start m = \<lparr> lc_fs = m, lc_held = [], lc_calls = [], lc_next = 0 \<rparr>"

definition lock_of :: "lock_call \<Rightarrow> memLock" where
  "lock_of w = \<lparr> lk_id = lw_id w, lk_key = lw_key w, lk_shared = lw_shared w \<rparr>"

abbreviation attempt :: "lock_call \<Rightarrow> lock_conf \<Rightarrow> memLockState option" where
  "attempt w s \<equiv> try_acquire (lw_shared w) (lock_state (lw_key w) (lc_fs s))"

inductive lock_step :: "mem_env \<Rightarrow> lock_conf \<Rightarrow> lock_conf \<Rightarrow> bool" for e where
  call: "lock_key e path (lc_fs s) = Inr c \<Longrightarrow>
    lock_step e s (s\<lparr>lc_calls := \<lparr> lw_id = lc_next s, lw_key = c, lw_shared = shared, lw_block = block,
      lw_awake = True \<rparr> # lc_calls s, lc_next := Suc (lc_next s)\<rparr>)"
| grant: "\<lbrakk>w \<in> set (lc_calls s); lw_awake w; attempt w s = Some st\<rbrakk> \<Longrightarrow>
    lock_step e s (s\<lparr>lc_fs := set_lock (lw_key w) st (lc_fs s), lc_held := lock_of w # lc_held s,
      lc_calls := remove1 w (lc_calls s)\<rparr>)"
| busy: "\<lbrakk>w \<in> set (lc_calls s); lw_awake w; attempt w s = None; \<not> lw_block w\<rbrakk> \<Longrightarrow>
    lock_step e s (s\<lparr>lc_fs := set_lock (lw_key w) (lock_state (lw_key w) (lc_fs s)) (lc_fs s),
      lc_calls := remove1 w (lc_calls s)\<rparr>)"
| wait: "\<lbrakk>w \<in> set (lc_calls s); lw_awake w; attempt w s = None; lw_block w\<rbrakk> \<Longrightarrow>
    lock_step e s (s\<lparr>lc_fs := set_lock (lw_key w) (lock_state (lw_key w) (lc_fs s)) (lc_fs s),
      lc_calls := map (\<lambda>u. if u = w then u\<lparr>lw_awake := False\<rparr> else u) (lc_calls s)\<rparr>)"
| close: "l \<in> set (lc_held s) \<Longrightarrow>
    lock_step e s (s\<lparr>lc_fs := release_lock l (lc_fs s), lc_held := remove1 l (lc_held s),
      lc_calls := map (\<lambda>u. u\<lparr>lw_awake := True\<rparr>) (lc_calls s)\<rparr>)"
| other: "fileLocks m = fileLocks (lc_fs s) \<Longrightarrow> lock_step e s (s\<lparr>lc_fs := m\<rparr>)"

inductive_cases lock_stepE: "lock_step e s s'"

inductive lock_reach :: "mem_env \<Rightarrow> lock_conf \<Rightarrow> lock_conf \<Rightarrow> bool" for e s where
  start: "lock_reach e s s"
| step: "lock_reach e s t \<Longrightarrow> lock_step e t u \<Longrightarrow> lock_reach e s u"

lemma lock_reach_trans: "lock_reach e t u \<Longrightarrow> lock_reach e s t \<Longrightarrow> lock_reach e s u"
  by (induction rule: lock_reach.induct) (auto intro: lock_reach.step)

section \<open>Invariant\<close>

definition readers_of :: "string \<Rightarrow> memLock list \<Rightarrow> nat" where
  "readers_of c ls = length (filter (\<lambda>l. lk_key l = c \<and> lk_shared l) ls)"

definition writers_of :: "string \<Rightarrow> memLock list \<Rightarrow> nat" where
  "writers_of c ls = length (filter (\<lambda>l. lk_key l = c \<and> \<not> lk_shared l) ls)"

text \<open>The table counts the locks held, and a writer is alone.\<close>

definition entry_ok :: "memLockState \<Rightarrow> nat \<Rightarrow> nat \<Rightarrow> bool" where
  "entry_ok st r w =
    (ml_readers st = int r \<and> ml_writer st = (w = 1) \<and> w \<le> 1 \<and> (w = 1 \<longrightarrow> r = 0))"

definition table_ok :: "lock_conf \<Rightarrow> bool" where
  "table_ok s = (\<forall>c.
    entry_ok (lock_state c (lc_fs s)) (readers_of c (lc_held s)) (writers_of c (lc_held s)))"

text \<open>Whoever sleeps is really blocked: no wake-up is lost.\<close>

definition sleepers_ok :: "lock_conf \<Rightarrow> bool" where
  "sleepers_ok s = (\<forall>w \<in> set (lc_calls s). \<not> lw_awake w \<longrightarrow> lw_block w \<and> attempt w s = None)"

lemma lock_state_set [simp]: "lock_state c (set_lock c' st m) = (if c = c' then st else lock_state c m)"
  by (simp add: lock_state_def set_lock_def)

lemma lock_state_other: "fileLocks m' = fileLocks m \<Longrightarrow> lock_state c m' = lock_state c m"
  by (simp add: lock_state_def)

lemma held_Cons [simp]:
  "readers_of c (l # ls) = (if lk_key l = c \<and> lk_shared l then 1 else 0) + readers_of c ls"
  "writers_of c (l # ls) = (if lk_key l = c \<and> \<not> lk_shared l then 1 else 0) + writers_of c ls"
  by (simp_all add: readers_of_def writers_of_def)

lemma held_Nil [simp]: "readers_of c [] = 0" "writers_of c [] = 0"
  by (simp_all add: readers_of_def writers_of_def)

lemma held_remove1:
  "l \<in> set ls \<Longrightarrow> readers_of c ls = (if lk_key l = c \<and> lk_shared l then 1 else 0) + readers_of c (remove1 l ls)"
  "l \<in> set ls \<Longrightarrow> writers_of c ls = (if lk_key l = c \<and> \<not> lk_shared l then 1 else 0) + writers_of c (remove1 l ls)"
  by (induction ls) auto

lemma lock_of_sel [simp]: "lk_key (lock_of w) = lw_key w" "lk_shared (lock_of w) = lw_shared w"
  by (simp_all add: lock_of_def)

lemma try_acquire_cases:
  "try_acquire sh st = Some st' \<longleftrightarrow> \<not> ml_writer st \<and>
    (if sh then st' = st\<lparr>ml_readers := ml_readers st + 1\<rparr> else ml_readers st = 0 \<and> st' = st\<lparr>ml_writer := True\<rparr>)"
  "try_acquire sh st = None \<longleftrightarrow> ml_writer st \<or> (\<not> sh \<and> ml_readers st \<noteq> 0)"
  by (auto simp: try_acquire_def)

lemma start_ok: "fileLocks m = gm_empty \<Longrightarrow> table_ok (lock_start m) \<and> sleepers_ok (lock_start m)"
  by (auto simp: table_ok_def entry_ok_def sleepers_ok_def lock_start_def lock_state_def)

text \<open>The entry of a held lock is in the table.\<close>

lemma held_state:
  assumes "table_ok s" "l \<in> set (lc_held s)"
  shows "gm_get (fileLocks (lc_fs s)) (lk_key l) = Some (lock_state (lk_key l) (lc_fs s))"
proof (cases "gm_get (fileLocks (lc_fs s)) (lk_key l)")
  case None
  then have "lock_state (lk_key l) (lc_fs s) = \<lparr> ml_readers = 0, ml_writer = False \<rparr>" by (simp add: lock_state_def)
  then have "readers_of (lk_key l) (lc_held s) = 0" "writers_of (lk_key l) (lc_held s) \<noteq> 1"
    "writers_of (lk_key l) (lc_held s) \<le> 1"
    using assms(1) [unfolded table_ok_def, THEN spec, of "lk_key l"] by (simp_all add: entry_ok_def)
  moreover have "readers_of (lk_key l) (lc_held s) + writers_of (lk_key l) (lc_held s) \<noteq> 0"
    using held_remove1 [OF assms(2), of "lk_key l"] by auto
  ultimately show ?thesis by simp
qed (simp add: lock_state_def)

lemma release_state:
  assumes "table_ok s" "l \<in> set (lc_held s)"
  shows "lock_state c (release_lock l (lc_fs s)) =
    (if c = lk_key l
     then (if lk_shared l then (lock_state c (lc_fs s))\<lparr>ml_readers := ml_readers (lock_state c (lc_fs s)) - 1\<rparr>
           else (lock_state c (lc_fs s))\<lparr>ml_writer := False\<rparr>)
     else lock_state c (lc_fs s))"
  using held_state [OF assms] by (simp add: release_lock_def)

lemma table_okD: "table_ok s \<Longrightarrow>
    entry_ok (lock_state c (lc_fs s)) (readers_of c (lc_held s)) (writers_of c (lc_held s))"
  by (simp add: table_ok_def)

lemma entry_acquire:
  "\<lbrakk>entry_ok st r w; try_acquire sh st = Some st'\<rbrakk> \<Longrightarrow>
    entry_ok st' ((if sh then 1 else 0) + r) ((if \<not> sh then 1 else 0) + w)"
  by (auto simp: entry_ok_def try_acquire_cases split: if_splits)

lemma entry_release:
  "entry_ok st ((if sh then 1 else 0) + r) ((if \<not> sh then 1 else 0) + w) \<Longrightarrow>
    entry_ok (if sh then st\<lparr>ml_readers := ml_readers st - 1\<rparr> else st\<lparr>ml_writer := False\<rparr>) r w"
  by (auto simp: entry_ok_def split: if_splits)

lemma table_same:
  "\<lbrakk>table_ok s; lc_held s' = lc_held s; \<And>c. lock_state c (lc_fs s') = lock_state c (lc_fs s)\<rbrakk> \<Longrightarrow> table_ok s'"
  by (simp add: table_ok_def)

lemma table_step:
  assumes "lock_step e s s'" "table_ok s"
  shows "table_ok s'"
  using assms(1)
proof cases
  case (grant w st)
  show ?thesis
    unfolding table_ok_def
  proof
    fix c
    show "entry_ok (lock_state c (lc_fs s')) (readers_of c (lc_held s')) (writers_of c (lc_held s'))"
      using grant(1) entry_acquire [OF table_okD [OF assms(2)] grant(4)] table_okD [OF assms(2), of c]
      by (cases "c = lw_key w") simp_all
  qed
next
  case (close l)
  show ?thesis
    unfolding table_ok_def
  proof
    fix c
    have e: "entry_ok (lock_state c (lc_fs s)) (readers_of c (lc_held s)) (writers_of c (lc_held s))"
      using table_okD [OF assms(2)] .
    show "entry_ok (lock_state c (lc_fs s')) (readers_of c (lc_held s')) (writers_of c (lc_held s'))"
    proof (cases "c = lk_key l")
      case True
      have "entry_ok (lock_state c (lc_fs s))
          ((if lk_shared l then 1 else 0) + readers_of c (remove1 l (lc_held s)))
          ((if \<not> lk_shared l then 1 else 0) + writers_of c (remove1 l (lc_held s)))"
        using e unfolding held_remove1 [OF close(2), of c] by (simp add: True)
      from entry_release [OF this] show ?thesis
        using close(1) release_state [OF assms(2) close(2), of c] True by simp
    next
      case False
      then show ?thesis
        using e close(1) release_state [OF assms(2) close(2), of c] held_remove1 [OF close(2), of c] by simp
    qed
  qed
next
  case (call path c shared block)
  then show ?thesis by (intro table_same [OF assms(2)]) simp_all
next
  case (busy w)
  then show ?thesis by (intro table_same [OF assms(2)]) simp_all
next
  case (wait w)
  then show ?thesis by (intro table_same [OF assms(2)]) simp_all
next
  case (other m)
  then show ?thesis by (intro table_same [OF assms(2)]) (simp_all add: lock_state_other [OF other(2)])
qed

lemma sleepers_step:
  assumes "lock_step e s s'" "sleepers_ok s" "table_ok s"
  shows "sleepers_ok s'"
  using assms(1)
proof cases
  case (grant w st)
  show ?thesis
    unfolding sleepers_ok_def
  proof (intro ballI impI)
    fix u assume u: "u \<in> set (lc_calls s')" "\<not> lw_awake u"
    then have "u \<in> set (lc_calls s)" using set_remove1_subset [of w "lc_calls s"] unfolding grant(1) by auto
    then have b: "lw_block u" "attempt u s = None" using assms(2) u(2) by (auto simp: sleepers_ok_def)
    then show "lw_block u \<and> attempt u s' = None"
      using grant table_okD [OF assms(3), of "lw_key w"] by (auto simp: try_acquire_cases entry_ok_def split: if_splits)
  qed
next
  case (busy w)
  have "u \<in> set (lc_calls s)" if "u \<in> set (remove1 w (lc_calls s))" for u
    using that set_remove1_subset [of w "lc_calls s"] by blast
  moreover have "attempt u s' = attempt u s" for u unfolding busy(1) by simp
  ultimately show ?thesis using assms(2) unfolding sleepers_ok_def busy(1) by simp
next
  case (wait w)
  have "attempt u s' = attempt u s" for u unfolding wait(1) by simp
  moreover have "attempt (u\<lparr>lw_awake := False\<rparr>) s = attempt u s" for u by simp
  ultimately show ?thesis
    using assms(2) wait(4,5) unfolding sleepers_ok_def by (auto simp: wait(1))
next
  case (other m)
  then show ?thesis using assms(2) by (simp add: sleepers_ok_def lock_state_other [OF other(2)])
qed (use assms(2) in \<open>auto simp: sleepers_ok_def\<close>)

lemma lock_reach_ok:
  assumes "lock_reach e (lock_start m) s" "fileLocks m = gm_empty"
  shows "table_ok s \<and> sleepers_ok s"
  using assms(1)
proof induction
  case start
  then show ?case using start_ok assms(2) by blast
next
  case (step t u)
  then show ?case using table_step sleepers_step by blast
qed

section \<open>Progress\<close>

text \<open>The turn of a call that is awake, as a function: it acquires, gives up, or goes to sleep.\<close>

definition lock_turn :: "lock_call \<Rightarrow> lock_conf \<Rightarrow> lock_conf" where
  "lock_turn w s =
    (case attempt w s of
       Some st \<Rightarrow> s\<lparr>lc_fs := set_lock (lw_key w) st (lc_fs s), lc_held := lock_of w # lc_held s,
         lc_calls := remove1 w (lc_calls s)\<rparr>
     | None \<Rightarrow>
         s\<lparr>lc_fs := set_lock (lw_key w) (lock_state (lw_key w) (lc_fs s)) (lc_fs s),
           lc_calls := (if lw_block w
             then map (\<lambda>u. if u = w then u\<lparr>lw_awake := False\<rparr> else u) (lc_calls s)
             else remove1 w (lc_calls s))\<rparr>)"

lemma lock_turn_step: "w \<in> set (lc_calls s) \<Longrightarrow> lw_awake w \<Longrightarrow> lock_step e s (lock_turn w s)"
  using lock_step.grant [of w s _ e] lock_step.busy [of w s e] lock_step.wait [of w s e]
  by (auto simp: lock_turn_def split: option.splits)

lemma lock_turn_grants: "attempt w s \<noteq> None \<Longrightarrow> lock_of w \<in> set (lc_held (lock_turn w s))"
  by (auto simp: lock_turn_def)

text \<open>An infinite run: from the start every configuration steps to the next or stutters.  It is
  fair when no call that stays awake from some moment on is denied its turn for ever.\<close>

definition lock_run :: "mem_env \<Rightarrow> MemFileOps \<Rightarrow> (nat \<Rightarrow> lock_conf) \<Rightarrow> bool" where
  "lock_run e m r = (r 0 = lock_start m \<and> (\<forall>i. r (Suc i) = r i \<or> lock_step e (r i) (r (Suc i))))"

definition lock_fair :: "(nat \<Rightarrow> lock_conf) \<Rightarrow> bool" where
  "lock_fair r = (\<forall>w i. lw_awake w \<and> (\<forall>j \<ge> i. w \<in> set (lc_calls (r j))) \<longrightarrow>
     (\<exists>j \<ge> i. r (Suc j) = lock_turn w (r j)))"

text \<open>A call is pending while it is in the list, awake or asleep; a held lock stands in its way
  when it is on the same file and one of the two is exclusive.\<close>

definition pending_lock :: "lock_call \<Rightarrow> lock_conf \<Rightarrow> bool" where
  "pending_lock w s = (w\<lparr>lw_awake := True\<rparr> \<in> set (lc_calls s) \<or> w\<lparr>lw_awake := False\<rparr> \<in> set (lc_calls s))"

definition in_the_way :: "memLock \<Rightarrow> lock_call \<Rightarrow> bool" where
  "in_the_way l w = (lk_key l = lw_key w \<and> \<not> (lk_shared l \<and> lw_shared w))"

lemma lock_run_reach: "lock_run e m r \<Longrightarrow> lock_reach e (lock_start m) (r i)"
proof (induction i)
  case 0
  then show ?case by (simp add: lock_run_def lock_reach.start)
next
  case (Suc i)
  then have "r (Suc i) = r i \<or> lock_step e (r i) (r (Suc i))" by (simp add: lock_run_def)
  then show ?case using Suc lock_reach.step by metis
qed

text \<open>The table refuses a call exactly where a held lock is in its way.\<close>

lemma refused_iff:
  assumes "table_ok s"
  shows "attempt w s = None \<longleftrightarrow> (\<exists>l \<in> set (lc_held s). in_the_way l w)"
proof -
  have "readers_of (lw_key w) (lc_held s) = 0 \<longleftrightarrow> (\<forall>l \<in> set (lc_held s). lk_key l = lw_key w \<longrightarrow> \<not> lk_shared l)"
    "writers_of (lw_key w) (lc_held s) = 0 \<longleftrightarrow> (\<forall>l \<in> set (lc_held s). lk_key l = lw_key w \<longrightarrow> lk_shared l)"
    by (auto simp: readers_of_def writers_of_def filter_empty_conv)
  moreover have "ml_writer (lock_state (lw_key w) (lc_fs s)) \<longleftrightarrow> writers_of (lw_key w) (lc_held s) \<noteq> 0"
    "ml_readers (lock_state (lw_key w) (lc_fs s)) \<noteq> 0 \<longleftrightarrow> readers_of (lw_key w) (lc_held s) \<noteq> 0"
    using table_okD [OF assms, of "lw_key w"] by (auto simp: entry_ok_def)
  ultimately show ?thesis unfolding try_acquire_cases in_the_way_def by blast
qed

lemma same_call: "u\<lparr>lw_awake := True\<rparr> = w\<lparr>lw_awake := True\<rparr> \<Longrightarrow> u = w\<lparr>lw_awake := lw_awake u\<rparr>"
  by (cases u, cases w) simp

text \<open>A blocking call leaves the list only with its lock.\<close>

lemma pending_step:
  assumes "lock_step e s s'" "pending_lock w s" "lw_block w"
  shows "pending_lock w s' \<or> lock_of w \<in> set (lc_held s')"
proof -
  obtain v where v: "v \<in> set (lc_calls s)" "v\<lparr>lw_awake := True\<rparr> = w\<lparr>lw_awake := True\<rparr>"
    using assms(2) by (auto simp: pending_lock_def)
  have b: "lw_block v" "lock_of v = lock_of w"
    using v(2) assms(3) by (cases v, cases w, simp add: lock_of_def)+
  have p: "pending_lock w t"
    if "u \<in> set (lc_calls t)" "u\<lparr>lw_awake := True\<rparr> = w\<lparr>lw_awake := True\<rparr>" for u t
    using same_call [OF that(2)] that(1) by (cases "lw_awake u") (auto simp: pending_lock_def)
  show ?thesis
    using assms(1)
  proof cases
    case (grant u st)
    show ?thesis
    proof (cases "u = v")
      case False
      then have "v \<in> set (lc_calls s')" using v(1) by (simp add: grant(1) in_set_remove1)
      then show ?thesis using p v(2) by blast
    qed (use b grant in simp)
  next
    case (busy u)
    have "v \<noteq> u" using b(1) busy by blast
    then have "v \<in> set (lc_calls s')" using v(1) by (simp add: busy(1) in_set_remove1)
    then show ?thesis using p v(2) by blast
  next
    case (wait u)
    have "v \<in> set (lc_calls s') \<or> v\<lparr>lw_awake := False\<rparr> \<in> set (lc_calls s')"
      using v(1) by (force simp: wait(1))
    then show ?thesis using p [of v s'] p [of "v\<lparr>lw_awake := False\<rparr>" s'] v(2) by auto
  next
    case (close l)
    then have "v\<lparr>lw_awake := True\<rparr> \<in> set (lc_calls s')" using v(1) by simp
    then show ?thesis using p [of "v\<lparr>lw_awake := True\<rparr>" s'] v(2) by simp
  qed (use p [of v s'] v in auto)
qed

text \<open>Once nothing is in the way of a pending call any more, it is awake, and a fair run gives it
  the turn that acquires the lock.\<close>

lemma fair_grant:
  assumes run: "lock_run e m r" "lock_fair r" "fileLocks m = gm_empty"
    and w: "pending_lock w (r i)" "lw_block w"
    and free: "\<And>j. j \<ge> k \<Longrightarrow> pending_lock w (r j) \<Longrightarrow> \<forall>l \<in> set (lc_held (r j)). \<not> in_the_way l w"
  shows "\<exists>j > i. lock_of w \<in> set (lc_held (r j))"
proof (rule ccontr)
  assume never: "\<not> ?thesis"
  let ?v = "w\<lparr>lw_awake := True\<rparr>"
  have stays: "pending_lock w (r (i + n))" for n
  proof (induction n)
    case (Suc n)
    have "r (Suc (i + n)) = r (i + n) \<or> lock_step e (r (i + n)) (r (Suc (i + n)))"
      using run(1) by (simp add: lock_run_def)
    moreover have "lock_of w \<notin> set (lc_held (r (Suc (i + n))))" using never by auto
    ultimately show ?case using pending_step [OF _ Suc w(2)] Suc by auto
  qed (use w(1) in simp)
  have awake: "?v \<in> set (lc_calls (r j))" "attempt ?v (r j) \<noteq> None" if "j \<ge> i" "j \<ge> k" for j
  proof -
    have p: "pending_lock w (r j)" using stays [of "j - i"] that(1) by simp
    have ok: "table_ok (r j)" "sleepers_ok (r j)" using lock_reach_ok [OF lock_run_reach [OF run(1)] run(3)] by auto
    have a: "attempt w (r j) \<noteq> None" using refused_iff [OF ok(1), of w] free [OF that(2) p] by blast
    then show "attempt ?v (r j) \<noteq> None" by simp
    have "w\<lparr>lw_awake := False\<rparr> \<notin> set (lc_calls (r j))"
    proof
      assume "w\<lparr>lw_awake := False\<rparr> \<in> set (lc_calls (r j))"
      from bspec [OF ok(2) [unfolded sleepers_ok_def] this] show False using a by simp
    qed
    then show "?v \<in> set (lc_calls (r j))" using p by (simp add: pending_lock_def)
  qed
  have "\<forall>j \<ge> max i k. ?v \<in> set (lc_calls (r j))" using awake(1) by simp
  then obtain j where j: "j \<ge> max i k" "r (Suc j) = lock_turn ?v (r j)"
    using run(2) [unfolded lock_fair_def, rule_format, of ?v "max i k"] by auto
  have "lock_of ?v \<in> set (lc_held (r (Suc j)))"
    unfolding j(2) using j(1) by (intro lock_turn_grants awake(2)) auto
  moreover have "lock_of ?v = lock_of w" by (simp add: lock_of_def)
  ultimately show False using never j(1) by (auto dest: spec [of _ "Suc j"])
qed

end
