(* ===== verification/File_Interface.thy ===== *)
theory File_Interface
  imports Permissioned_File_Ops
begin

text \<open>
  The interface FileOps as a locale: what its clients rely on is that a call
  keeps the invariant of the implementation, and that a call the permission
  gate files under reading leaves the visible tree alone.  The client is the
  permission wrapper (lang/go/native/permissioned_fileops.go) run over a
  sequence of calls.
\<close>

section \<open>Calls that only read\<close>

definition change_ops :: "string list" where
  "change_ops = [''write'', ''mkdir'', ''remove'', ''rename'', ''link'', ''chmod'']"

definition reading :: "file_call \<Rightarrow> bool" where
  "reading c = (case gate_of c of None \<Rightarrow> True | Some (op, _) \<Rightarrow> op \<notin> set change_ops)"

section \<open>Sessions\<close>

text \<open>A sequence of calls made through the wrapper; the results are dropped.\<close>

definition session ::
  "(file_call \<Rightarrow> 's \<Rightarrow> ('e + 'r) \<times> 's) \<Rightarrow> Policy option \<Rightarrow> file_call list \<Rightarrow> 's \<Rightarrow> 's" where
  "session inner pol cs s = fold (\<lambda>c s. snd (fileops_call inner pol c s)) cs s"

locale file_ops =
  fixes run :: "file_call \<Rightarrow> 's \<Rightarrow> ('e + 'r) \<times> 's"
    and ok :: "'s \<Rightarrow> bool"
    and guard :: "file_call \<Rightarrow> 's \<Rightarrow> bool"
    and tree :: "'s \<Rightarrow> 't"
  assumes run_ok: "\<lbrakk>ok s; guard c s\<rbrakk> \<Longrightarrow> ok (snd (run c s))"
    and run_reading: "\<lbrakk>ok s; reading c\<rbrakk> \<Longrightarrow> tree (snd (run c s)) = tree s \<and> guard c s"
begin

lemma wrapped_state:
  "snd (fileops_call run pol c s) = s \<or> snd (fileops_call run pol c s) = snd (run c s)"
  by (auto simp: fileops_call_def permissioned_def Let_def split: option.splits prod.splits sum.splits)

lemma wrapped_ok: "\<lbrakk>ok s; guard c s\<rbrakk> \<Longrightarrow> ok (snd (fileops_call run pol c s))"
  using wrapped_state [of pol c s] run_ok [of s c] by auto

text \<open>A call that is no reading one passes only where the policy allows its operation.\<close>

lemma denied_state:
  assumes "gate_of c = Some (op, a)" "Check p ''fileops'' op a \<noteq> None"
  shows "snd (fileops_call run (Some p) c s) = s"
  using assms by (auto simp: fileops_call_def permissioned_def Let_def)

lemma read_only_step:
  assumes "ok s" "\<And>op a. op \<in> set change_ops \<Longrightarrow> Check p ''fileops'' op a \<noteq> None"
  shows "tree (snd (fileops_call run (Some p) c s)) = tree s \<and> ok (snd (fileops_call run (Some p) c s))"
proof (cases "reading c")
  case True
  then show ?thesis
    using wrapped_state [of "Some p" c s] run_reading [OF assms(1) True] run_ok [OF assms(1)] assms(1)
    by auto
next
  case False
  then obtain op a where "gate_of c = Some (op, a)" "op \<in> set change_ops"
    by (auto simp: reading_def split: option.splits)
  then show ?thesis using denied_state [of c op a p s] assms by simp
qed

lemma read_only_session:
  assumes "ok s" "\<And>op a. op \<in> set change_ops \<Longrightarrow> Check p ''fileops'' op a \<noteq> None"
  shows "tree (session run (Some p) cs s) = tree s"
  using assms(1)
proof (induction cs arbitrary: s)
  case Nil
  then show ?case by (simp add: session_def)
next
  case (Cons c cs)
  let ?s = "snd (fileops_call run (Some p) c s)"
  have st: "tree ?s = tree s \<and> ok ?s" using read_only_step Cons.prems assms(2) by blast
  then have "tree (session run (Some p) cs ?s) = tree ?s" using Cons.IH by blast
  with st show ?case by (simp add: session_def)
qed

end

end
