(* ===== verification/Mem_Calls.thy ===== *)
theory Mem_Calls
  imports Mem_Rename Mem_Handles Mem_Locks File_Interface
begin

text \<open>
  MemFileOps as an implementation of the interface FileOps: one function from
  a call to its result and the state after it, the states calls can lead to,
  and the interpretation of the interface.
\<close>

section \<open>Dispatch\<close>

datatype file_result =
    RNone
  | RBytes "8 word list"
  | RInfo FileInfo
  | RInfos "FileInfo list"
  | RString string
  | RStrings "string list"
  | RFsInfo FsInfo
  | RSub nat
  | RHandle memFileHandle
  | RLock memLock
  | RRegion memMmap

definition query :: "('a \<Rightarrow> file_result) \<Rightarrow> 'a fs_result \<Rightarrow> MemFileOps \<Rightarrow> file_result fs_result \<times> MemFileOps" where
  "query f r m = (case r of Inl err \<Rightarrow> (Inl err, m) | Inr x \<Rightarrow> (Inr (f x), m))"

definition update :: "('a \<Rightarrow> file_result) \<Rightarrow> 'a fs_result \<times> MemFileOps \<Rightarrow> file_result fs_result \<times> MemFileOps" where
  "update f p = (case p of (r, m) \<Rightarrow> query f r m)"

definition temp_call :: "MemFileOps \<Rightarrow> (string fs_result \<times> MemFileOps) option \<Rightarrow> file_result fs_result \<times> MemFileOps" where
  "temp_call m p = (case p of None \<Rightarrow> (Inl NoReturn, m) | Some q \<Rightarrow> update RString q)"

fun mem_call :: "mem_env \<Rightarrow> file_call \<Rightarrow> MemFileOps \<Rightarrow> file_result fs_result \<times> MemFileOps" where
  "mem_call e (ReadFile path) m = query RBytes (ReadFile_mem e path m) m"
| "mem_call e (WriteFile path data perm) m = update (\<lambda>_. RNone) (writeFileLocked e path data perm m)"
| "mem_call e (MkdirAll path perm) m = update (\<lambda>_. RNone) (mkdirAllLocked e path perm m)"
| "mem_call e (Stat path follow) m = query RInfo (Stat_mem e path follow m) m"
| "mem_call e (ReadDir path) m = query RInfos (ReadDir_mem e path m) m"
| "mem_call e (Remove_file path recursive) m = update (\<lambda>_. RNone) (Remove_mem e path recursive m)"
| "mem_call e (Rename oldPath newPath) m = update (\<lambda>_. RNone) (Rename_mem e oldPath newPath m)"
| "mem_call e (Symlink target linkPath) m = update (\<lambda>_. RNone) (Symlink_mem e target linkPath m)"
| "mem_call e (Link target linkPath) m = update (\<lambda>_. RNone) (Link_mem e target linkPath m)"
| "mem_call e (Chmod path mode) m = update (\<lambda>_. RNone) (Chmod_mem e path mode m)"
| "mem_call e (Chtimes path atime mtime) m = update (\<lambda>_. RNone) (Chtimes_mem e path atime mtime m)"
| "mem_call e (Truncate_file path size') m = update (\<lambda>_. RNone) (Truncate_mem e path size' m)"
| "mem_call e (Chown path uid gid follow) m = update (\<lambda>_. RNone) (Chown_mem e path uid gid follow m)"
| "mem_call e (XattrGet path name) m = update RBytes (XattrGet_mem e path name m)"
| "mem_call e (XattrSet path name val) m = update (\<lambda>_. RNone) (XattrSet_mem e path name val m)"
| "mem_call e (XattrList path) m = update RStrings (XattrList_mem e path m)"
| "mem_call e (XattrRemove path name) m = update (\<lambda>_. RNone) (XattrRemove_mem e path name m)"
| "mem_call e (TempFile dir pattern) m = temp_call m (TempFile_mem e dir pattern m)"
| "mem_call e (TempDir dir pattern) m = temp_call m (TempDir_mem e dir pattern m)"
| "mem_call e (Statfs path) m = query RFsInfo (Statfs_mem e path m) m"
| "mem_call e (ResolvePath path) m = (Inr (RString (ResolvePath_mem m path)), m)"
| "mem_call e (Watch path opts) m = update RSub (Watch_mem e path opts m)"
| "mem_call e (Open path opts) m = update RHandle (Open_mem e path opts m)"
| "mem_call e (Lock path shared block) m =
    (case Lock_mem e (next_addr m) path shared (m\<lparr>next_addr := Suc (next_addr m)\<rparr>) of
       (Inl ErrLockBusy, m') \<Rightarrow> (Inl (if block then NoReturn else ErrLockBusy), m')
     | p \<Rightarrow> update RLock p)"
| "mem_call e (Mmap path offset len writable) m =
    (case Mmap_mem path offset len writable m of
       Inl p \<Rightarrow> (Inl (Panics p), m)
     | Inr r \<Rightarrow> query RRegion r m)"

lemma query_state [simp]: "snd (query f r m) = m"
  by (simp add: query_def split: sum.split)

lemma update_state [simp]: "snd (update f p) = snd p"
  by (simp add: update_def split: prod.split)

section \<open>Invariant\<close>

definition call_guard :: "file_call \<Rightarrow> MemFileOps \<Rightarrow> bool" where
  "call_guard c m = (case c of Rename oldPath newPath \<Rightarrow> rename_guard m oldPath newPath | _ \<Rightarrow> True)"

lemma set_mtime_ok:
  assumes "fs_ok m"
  shows "fs_ok (set_mtime e c m)"
proof (cases "gm_get (Metas m) c")
  case (Some mm)
  have "(if mm_Target mm = [] then None else Some (mm_Target mm)) = link_target m c"
    using Some by (simp add: link_target_def)
  then have "fs_ok (m\<lparr>Metas := gm_put c (mm\<lparr>mm_MTime := clock e\<rparr>) (Metas m)\<rparr>)"
    by (intro put_meta(1) [OF assms]) (cases "mm_Target mm = []"; simp)
  then show ?thesis using Some by (simp add: set_mtime_def)
qed (use assms in \<open>simp add: set_mtime_def\<close>)

lemma Open_inv:
  assumes ok: "fs_ok m"
  shows "fs_ok (snd (Open_mem e path opts m))"
proof (cases "resolve m path True")
  case (Inl err)
  then show ?thesis using ok by (simp add: Open_mem_def)
next
  case (Inr f)
  let ?c = "canon m f" and ?m1 = "recordDir e (filepath_Dir f) m"
  show ?thesis
  proof (cases "is_dir m f")
    case True
    then show ?thesis using ok Inr by (simp add: Open_mem_def)
  next
    case nd: False
    show ?thesis
    proof (cases "isFileEntry m f")
      case True
      then have "fs_ok (set_mtime e ?c (m\<lparr>Files := gm_put ?c [] (Files m)\<rparr>))"
        using set_mtime_ok put_data(1) [OF ok canon_file(1) [OF ok]] by blast
      then show ?thesis
        using ok Inr nd True file_in_Files [OF ok, of f]
        by (simp add: Open_mem_def Let_def split: option.split)
    next
      case False
      then have c: "?c = f" by (auto simp: canon_def isFileEntry_get split: option.split)
      have "fs_ok (?m1\<lparr>Files := gm_put f [] (Files ?m1),
          Metas := gm_put f (fresh_meta e (openPerm opts)) (Metas ?m1)\<rparr>)"
        by (intro new_file(1) [OF prepared(1) [OF ok Inr] prepared_openable [OF ok Inr False nd]]) simp
      then show ?thesis
        using ok Inr nd False c file_in_Files [OF ok, of f]
        by (simp add: Open_mem_def Let_def split: option.split)
    qed
  qed
qed

lemma Lock_state:
  "\<exists>ls. snd (Lock_mem e i path shared m) = m\<lparr>fileLocks := ls\<rparr>"
proof (cases "lock_key e path m")
  case (Inl err)
  then have "snd (Lock_mem e i path shared m) = m\<lparr>fileLocks := fileLocks m\<rparr>" by (simp add: Lock_mem_def)
  then show ?thesis by blast
next
  case (Inr c)
  then have "snd (Lock_mem e i path shared m) = m\<lparr>fileLocks := gm_put c
      (case try_acquire shared (lock_state c m) of Some st \<Rightarrow> st | None \<Rightarrow> lock_state c m) (fileLocks m)\<rparr>"
    by (simp add: Lock_mem_def set_lock_def split: option.split)
  then show ?thesis by blast
qed

lemma Lock_call_state:
  "\<exists>ls n. snd (mem_call e (Lock path shared block) m) = m\<lparr>next_addr := n, fileLocks := ls\<rparr>"
proof -
  obtain ls where "snd (Lock_mem e (next_addr m) path shared (m\<lparr>next_addr := Suc (next_addr m)\<rparr>))
      = m\<lparr>next_addr := Suc (next_addr m), fileLocks := ls\<rparr>"
    using Lock_state by metis
  then have "snd (mem_call e (Lock path shared block) m) = m\<lparr>next_addr := Suc (next_addr m), fileLocks := ls\<rparr>"
    by (cases "Lock_mem e (next_addr m) path shared (m\<lparr>next_addr := Suc (next_addr m)\<rparr>)")
      (auto split: sum.split fs_error.split)
  then show ?thesis by blast
qed

lemma locks_same: "fs_ok (m\<lparr>next_addr := n, fileLocks := ls\<rparr>) = fs_ok m"
    "view (m\<lparr>next_addr := n, fileLocks := ls\<rparr>) = view m"
  using fs_same(1,2) [of "m\<lparr>next_addr := n, fileLocks := ls\<rparr>" m] by simp_all

lemma call_inv:
  assumes ok: "fs_ok m" and g: "call_guard c m"
  shows "fs_ok (snd (mem_call e c m))"
proof (cases c)
  case (TempFile d p)
  then show ?thesis using ok TempFile_inv by (auto simp: temp_call_def split: option.split)
next
  case (TempDir d p)
  then show ?thesis using ok TempDir_inv by (auto simp: temp_call_def split: option.split)
next
  case (Lock path shared block)
  then show ?thesis using ok Lock_call_state [of e path shared block m] locks_same(1) by metis
next
  case (Mmap path off len w)
  then show ?thesis using ok by (simp split: sum.split)
next
  case (Rename a b)
  then show ?thesis using Rename_inv ok g by (simp add: call_guard_def)
qed (use ok in \<open>simp_all add: WriteFile_inv MkdirAll_inv Remove_inv Symlink_inv Link_inv Chmod_inv Chtimes_inv
    Truncate_inv Chown_inv XattrGet_state XattrSet_inv XattrList_state XattrRemove_inv Watch_inv Open_inv\<close>)

text \<open>What reads leaves the tree alone.\<close>

lemma Open_reading:
  "\<not> oo_Write opts \<Longrightarrow> \<not> oo_Append opts \<Longrightarrow> \<not> oo_Create opts \<Longrightarrow> snd (Open_mem e path opts m) = m"
  by (simp add: Open_mem_def Let_def split: sum.split option.split)

lemma Watch_view: "view (snd (Watch_mem e path opts m)) = view m"
  using fs_same(2) [of "m\<lparr>watchers := w, next_addr := n\<rparr>" m for w n]
  by (auto simp: Watch_mem_def split: sum.split)

lemma call_reading:
  assumes ok: "fs_ok m" and r: "reading c"
  shows "view (snd (mem_call e c m)) = view m \<and> call_guard c m"
  using r
  by (cases c)
    (use ok in \<open>simp_all add: reading_def change_ops_def call_guard_def XattrGet_state XattrList_state Watch_view
      Open_reading split: sum.split if_splits\<close>)

interpretation mem: file_ops "mem_call e" fs_ok call_guard view for e
  by unfold_locales (simp_all only: call_inv call_reading)

section \<open>Reachable states\<close>

text \<open>What the calls lead to from an empty file system, whoever makes them and whenever; a
  subscriber may also receive or stop, and whoever holds an open file or a mapped region may write,
  truncate, flush or close it, as long as the file it was opened on still exists: a write
  through a handle of a file that was removed or moved brings the old name back
  (write_after_remove_resurrects).\<close>

inductive mem_reach :: "MemFileOps \<Rightarrow> bool" where
  new: "mem_reach (NewMem\<lparr>Cwd := d\<rparr>)"
| call: "mem_reach m \<Longrightarrow> call_guard c m \<Longrightarrow> mem_reach (snd (mem_call e c m))"
| receive: "mem_reach m \<Longrightarrow> mem_reach (snd (receive_watch a m))"
| stop: "mem_reach m \<Longrightarrow> mem_reach (snd (stop_watch a m))"
| handle_put: "\<lbrakk>mem_reach m; gm_get (Files m) (h_canon h) \<noteq> None; handle_Write e bs h m = Inr (r, h', m')\<rbrakk> \<Longrightarrow> mem_reach m'"
| handle_put_at: "\<lbrakk>mem_reach m; gm_get (Files m) (h_canon h) \<noteq> None; handle_WriteAt e bs off h m = Inr (r, m')\<rbrakk> \<Longrightarrow> mem_reach m'"
| handle_cut: "\<lbrakk>mem_reach m; gm_get (Files m) (h_canon h) \<noteq> None; handle_Truncate e size' h m = (r, h', m')\<rbrakk> \<Longrightarrow> mem_reach m'"
| flush: "\<lbrakk>mem_reach m; gm_get (Files m) (mp_key w) \<noteq> None; mmap_Flush e w m = Inr m'\<rbrakk> \<Longrightarrow> mem_reach m'"
| unmap: "\<lbrakk>mem_reach m; gm_get (Files m) (mp_key w) \<noteq> None; mmap_Close e w m = Inr (w', m')\<rbrakk> \<Longrightarrow> mem_reach m'"

lemma watchers_same: "fs_ok (m\<lparr>watchers := ws\<rparr>) = fs_ok m"
  using fs_same(1) [of "m\<lparr>watchers := ws\<rparr>" m] by simp

text \<open>Storing bytes in a file that exists keeps the invariant.\<close>

lemma store_ok:
  "\<lbrakk>fs_ok m; gm_get (Files m) c = Some d\<rbrakk> \<Longrightarrow> fs_ok (set_mtime e c (m\<lparr>Files := gm_put c b (Files m)\<rparr>))"
  by (rule set_mtime_ok, rule put_data(1)) simp_all

lemma writeBack_ok: "\<lbrakk>fs_ok m; gm_get (Files m) (mp_key w) = Some d; writeBack e w m = Inr m'\<rbrakk> \<Longrightarrow> fs_ok m'"
  using store_ok by (auto simp: writeBack_def split: sum.splits)

lemma reach_ok: "mem_reach m \<Longrightarrow> fs_ok m"
proof (induction rule: mem_reach.induct)
  case (new d)
  have "fs_ok (NewMem\<lparr>Cwd := d\<rparr>) = fs_ok NewMem" by (rule fs_same(1)) simp_all
  then show ?case using NewMem_ok by blast
next
  case (call m c e)
  then show ?case using call_inv by blast
next
  case (receive m a)
  then show ?case
    by (auto simp: receive_watch_def watchers_same split: option.split list.split)
next
  case (stop m a)
  then show ?case by (auto simp: stop_watch_def watchers_same split: option.split)
next
  case (handle_put m h e bs r h' m')
  then show ?case
    by (auto simp: handle_Write_def handle_store_def Let_def store_ok split: if_splits sum.splits)
next
  case (handle_put_at m h e bs off r m')
  then show ?case
    by (auto simp: handle_WriteAt_def handle_store_def store_ok split: if_splits sum.splits)
next
  case (handle_cut m h e size' r h' m')
  then show ?case by (auto simp: handle_Truncate_def handle_store_def store_ok split: if_splits)
next
  case (flush m w e m')
  then show ?case using writeBack_ok by (auto simp: mmap_Flush_def split: if_splits)
next
  case (unmap m w e w' m')
  then show ?case using writeBack_ok by (auto simp: mmap_Close_def split: if_splits sum.splits)
qed

end
