(* ===== verification/Mem_Props.thy ===== *)
theory Mem_Props
  imports Mem_Calls
begin

text \<open>
  Properties of the in-memory file system: the tree it keeps, what Remove and
  Rename make of it, what is written is read, and the permission wrapper over
  it.
\<close>

section \<open>A sample\<close>

definition root_env :: mem_env where
  "root_env = \<lparr> euid = 0, egid = 0, clock = 7 \<rparr>"

text \<open>A directory with a file, a second name of it, and a symbolic link to its directory.\<close>

definition sample_files :: MemFileOps where
  "sample_files =
    snd (mem_call root_env (Symlink ''d'' ''/s'')
    (snd (mem_call root_env (Link ''/d/f'' ''/g'')
    (snd (mem_call root_env (WriteFile ''/d/f'' [1, 2] 0x1A4) NewMem)))))"

lemma NewMem_reach: "mem_reach NewMem"
  using mem_reach.new [of "[]"] by (simp add: NewMem_def)

lemma sample_reach: "mem_reach sample_files"
  unfolding sample_files_def
  by (intro mem_reach.call NewMem_reach) (simp_all add: call_guard_def)

section \<open>The tree\<close>

text \<open>C2: Whatever calls are made, in whatever order and by whatever user, and whatever is written through
  open files and mapped regions, everything above an existing name of the in-memory file system is a
  directory, and a hard link leads to data: no orphan and no dangling alias is left.  Two things
  are excepted, as the code does leave orphans there: renames that move a directory into
  itself, or a root, and writes through a handle or a mapping whose file has been removed or moved.\<close>

theorem files_form_a_tree:
  assumes "mem_reach m" "entry m p"
  shows "(\<forall>q. is_clean q \<and> \<not> isMemRoot q \<and> isUnder p q \<and> q \<noteq> p \<longrightarrow> is_dir m q) \<and>
    (\<forall>c. gm_get (Links m) p = Some c \<longrightarrow> gm_get (Files m) c \<noteq> None \<and> gm_get (Links m) c = None)"
proof (intro conjI allI impI)
  have ok: "fs_ok m" using reach_ok assms(1) .
  show "is_dir m q" if "is_clean q \<and> \<not> isMemRoot q \<and> isUnder p q \<and> q \<noteq> p" for q
    using above_entry [OF ok assms(2)] that by blast
  show "gm_get (Files m) c \<noteq> None" if "gm_get (Links m) p = Some c" for c
    using alias_kind [OF ok that] by blast
  then show "gm_get (Links m) c = None" if "gm_get (Links m) p = Some c" for c
    using that fs_okD(3) [OF ok] by (auto simp: kinds_ok_def)
qed

lemma files_form_a_tree_witness:
  "is_dir sample_files ''/d'' \<and> gm_get (Links sample_files) ''/g'' = Some ''/d/f'' \<and>
   gm_get (Files sample_files) ''/d/f'' = Some [1, 2]"
proof -
  have e: "entry sample_files ''/d/f''" "gm_get (Links sample_files) ''/g'' = Some ''/d/f''"
    "gm_get (Files sample_files) ''/d/f'' = Some [1, 2]"
    by code_simp+
  have c: "is_clean ''/d''" "\<not> isMemRoot ''/d''" "isUnder ''/d/f'' ''/d''"
    using is_cleanI [of True "[''d'']"] by (simp_all add: comps_ok_def comp_ok_def clean_str_def isMemRoot_def isUnder_def go_has_prefix_def)
  show ?thesis using files_form_a_tree [OF sample_reach e(1)] c e by auto
qed

text \<open>C38: In every state that calls, and writes through open files and mapped regions whose file still
  exists, lead to (renames into itself or of a root excepted), a name is of exactly one kind, and Stat
  reports that kind: a successful Stat says directory, symbolic link or neither exactly as the name
  is recorded, and one that follows links never reports a link, except at a root.\<close>

theorem stat_reports_the_kind:
  assumes "mem_reach m" "Stat_mem e path follow m = Inr info"
  shows "\<exists>f. resolve m path follow = Inr f \<and> fi_Name info = filepath_Base f \<and>
    (fi_IsDir info \<longleftrightarrow> is_dir m f) \<and> (fi_Symlink info \<longleftrightarrow> link_target m f \<noteq> None) \<and>
    (\<not> fi_IsDir info \<and> \<not> fi_Symlink info \<longleftrightarrow> isFileEntry m f) \<and>
    \<not> (fi_IsDir info \<and> fi_Symlink info) \<and> (follow \<and> \<not> isMemRoot f \<longrightarrow> \<not> fi_Symlink info)"
proof -
  have ok: "fs_ok m" using reach_ok assms(1) .
  obtain f where f: "resolve m path follow = Inr f" "infoFor e m f = Some info"
    using assms(2) by (auto simp: Stat_mem_def split: sum.splits option.splits)
  note k = infoFor_kind [OF ok f(2)]
  obtain nd where "info = info_of e (filepath_Base f) nd" using f(2) by (auto simp: infoFor_view)
  then have n: "fi_Name info = filepath_Base f" by (cases nd) (simp_all add: info_of_def)
  have "\<not> (is_dir m f \<and> link_target m f \<noteq> None)" "isFileEntry m f \<longrightarrow> \<not> is_dir m f \<and> link_target m f = None"
    using dir_kind [OF ok, of f] link_kind [OF ok, of f] by blast+
  moreover have "follow \<and> \<not> isMemRoot f \<longrightarrow> link_target m f = None" using resolve_ok(3) [OF f(1)] by blast
  ultimately show ?thesis using f(1) n k by (intro exI [of _ f]) blast
qed

lemma stat_reports_the_kind_witness:
  "\<exists>info. Stat_mem root_env ''/s/f'' True sample_files = Inr info \<and> \<not> fi_IsDir info \<and> \<not> fi_Symlink info \<and>
    fi_Name info = ''f''"
proof -
  define info where "info = projr (Stat_mem root_env ''/s/f'' True sample_files)"
  have s: "Stat_mem root_env ''/s/f'' True sample_files = Inr info"
    unfolding info_def by code_simp
  have r: "resolve sample_files ''/s/f'' True = Inr ''/d/f''" "isFileEntry sample_files ''/d/f''"
    "filepath_Base ''/d/f'' = ''f''"
    by code_simp+
  show ?thesis using stat_reports_the_kind [OF sample_reach s] s r by auto
qed

section \<open>Removing\<close>

lemma under_root: "\<lbrakk>is_clean q; isMemRoot r; isUnder q r\<rbrakk> \<Longrightarrow> q = r"
proof (rule ccontr)
  assume a: "is_clean q" "isMemRoot r" "isUnder q r" "q \<noteq> r"
  then obtain t where t: "q = r @ slash # t" by (auto simp: isUnder_def go_has_prefix_iff)
  obtain rt cs where q: "comps_ok rt cs" "q = clean_str rt cs" using a(1) by (rule is_cleanE)
  have "go_split slash q = (if r = ''.'' then [''.''] else [[], []]) @ go_split slash t"
    using t a(2) by (auto simp: isMemRoot_def)
  then have "''.'' \<in> set (go_split slash q) \<and> 2 \<le> length (go_split slash q) \<or>
      (\<exists>s. go_split slash q = [] # [] # s \<and> s \<noteq> [])"
    by (cases "r = ''.''"; cases "go_split slash t") auto
  then show False
    using q comps_okD [OF q(1), of "[]"] comps_okD [OF q(1), of "''.''"] unfolding q(2) split_clean_str [OF q(1)]
    by (auto simp: comp_ok_def split: if_splits)
qed

text \<open>C9: Removing a name removes exactly what is at and below it.  Every other name keeps its
  node: its kind, its metadata and, where the removed file had further names, the data they
  share; the first of them takes the data over.\<close>

theorem remove_exact:
  assumes "mem_reach m" "Remove_mem e path rec m = (Inr (), m')"
    and "resolve m path False = Inr f" "entry m f"
  shows "view m' q = (if isUnder q f then None else view m q)"
proof -
  have ok: "fs_ok m" using reach_ok assms(1) .
  obtain info where i: "infoFor e m f = Some info"
    using assms(4) infoFor_None [of e m f] by (cases "infoFor e m f") auto
  note k = infoFor_kind [OF ok i]
  have m': "view m' = view (if fi_IsDir info then removeTree f m
      else if fi_Symlink info then m\<lparr>Metas := gm_del f (Metas m)\<rparr> else removeFileEntry f m)"
    using assms(2,3) i by (auto simp: Remove_mem_def split: option.splits if_splits)
  have below: "view m q = None" if "\<not> is_dir m f" "isUnder q f" "q \<noteq> f"
  proof (rule ccontr)
    assume "view m q \<noteq> None"
    then have q: "entry m q" using view_entry by blast
    show False
    proof (cases "isMemRoot f")
      case True
      then show False using under_root entry_clean [OF ok q] that by blast
    next
      case False
      then show False using above_entry [OF ok q that(2,3) entry_clean [OF ok assms(4)]] that by blast
    qed
  qed
  show ?thesis
  proof (cases "fi_IsDir info")
    case True
    then show ?thesis
      using m' removeTree_laws(2) [OF ok entry_clean [OF ok assms(4)], of q] k dir_kind [OF ok, of f] by simp
  next
    case False
    then have nd: "\<not> is_dir m f" using k by simp
    have "view m' q = (if q = f then None else view m q)"
    proof (cases "fi_Symlink info")
      case True
      then show ?thesis using m' False drop_link(2) [OF ok, of f q] k by simp
    next
      case ns: False
      then show ?thesis using m' False unlink_view [OF ok k(3) [OF False ns], of q] by simp
    qed
    then show ?thesis using below [OF nd] by auto
  qed
qed

lemma remove_exact_witness:
  "let m' = snd (Remove_mem root_env ''/d'' True sample_files)
   in view m' ''/d/f'' = None \<and> view m' ''/g'' = view sample_files ''/g'' \<and> view m' ''/g'' \<noteq> None"
proof -
  have r: "Remove_mem root_env ''/d'' True sample_files = (Inr (), snd (Remove_mem root_env ''/d'' True sample_files))"
    "resolve sample_files ''/d'' False = Inr ''/d''" "entry sample_files ''/d''"
    "view sample_files ''/g'' \<noteq> None"
    by code_simp+
  have "isUnder ''/d/f'' ''/d''" "\<not> isUnder ''/g'' ''/d''" by (simp_all add: isUnder_def go_has_prefix_def)
  then show ?thesis
    using remove_exact [OF sample_reach r(1-3), of "''/d/f''"] remove_exact [OF sample_reach r(1-3), of "''/g''"] r(4)
    by (simp add: Let_def)
qed

section \<open>Renaming\<close>



text \<open>A file renamed to itself is lost, with its data, though the call reports success.\<close>

lemma rename_to_itself_loses_the_file:
  "let m = snd (mem_call root_env (WriteFile ''/f'' [1] 0x1A4) NewMem);
       (r, m') = mem_call root_env (Rename ''/f'' ''/f'') m
   in r = Inr RNone \<and> gm_get (Files m) ''/f'' = Some [1] \<and> Files m' = []"
  by code_simp

text \<open>A directory can be moved into itself; its new name then has no parent.\<close>

lemma rename_into_itself_orphans:
  "let m = snd (mem_call root_env (WriteFile ''/a/f'' [1] 0x1A4) NewMem);
       (r, m') = mem_call root_env (Rename ''/a'' ''/a/b'') m
   in r = Inr RNone \<and> gm_get (Files m') ''/a/b/f'' = Some [1] \<and> \<not> is_dir m' ''/a''"
  by code_simp

section \<open>Reading what was written\<close>

lemma IsAbs_root: "filepath_IsAbs f \<Longrightarrow> isMemRoot f \<Longrightarrow> f = [slash]"
  by (auto simp: isMemRoot_def filepath_IsAbs_def go_has_prefix_def)

text \<open>C20: What WriteFile stored, ReadFile returns by the same path, whatever symbolic links and hard
  links the path goes through: after a write that succeeds on an absolute path other than a root, every
  reader whom the mode of the file lets read gets the bytes back as they were written, the superuser
  always, and every other reader gets the permission error and nothing else.\<close>

theorem write_then_read:
  assumes "mem_reach m" "writeFileLocked e path data perm m = (Inr (), m')"
    and "filepath_IsAbs (ResolvePath_mem m path)" "resolve m path True = Inr f" "\<not> isMemRoot f"
  shows "ReadFile_mem e' path m' =
      (case checkPerm e' m' ''open'' path f perm_read of Some err \<Rightarrow> Inl err | None \<Rightarrow> Inr data) \<and>
    (euid e' = 0 \<longrightarrow> ReadFile_mem e' path m' = Inr data) \<and>
    (ReadFile_mem e' path m' \<noteq> Inr data \<longrightarrow> ReadFile_mem e' path m' = Inl (PathError ''open'' path ErrPermission))"
proof -
  have ok: "fs_ok m" using reach_ok assms(1) .
  let ?m1 = "recordDir e (filepath_Dir f) m" and ?c = "canon m f"
  note p = prepared [OF ok assms(4), of e]
  have nd: "\<not> is_dir m f"
    using assms(2,4) by (auto simp: writeFileLocked_def split: if_splits)
  have "resolve m' path True = Inr f \<and> \<not> is_dir m' f \<and> gm_get (Files m') (canon m' f) = Some data"
  proof (cases "isFileEntry m f")
    case True
    then have fc: "gm_get (Files ?m1) ?c \<noteq> None" using canon_file(1) ok by simp
    let ?m2 = "?m1\<lparr>Files := gm_put ?c data (Files ?m1)\<rparr>"
    note d = put_data [OF p(1) fc, of data]
    let ?mm = "case gm_get (Metas ?m2) ?c of Some mm \<Rightarrow> mm | None \<Rightarrow> stampOwner e (zero_memMeta\<lparr>mm_Mode := perm_file\<rparr>)"
    have t: "mm_Target (?mm\<lparr>mm_MTime := clock e\<rparr>) = []"
      using file_meta_plain [OF p(1) fc] by (auto split: option.split simp: zero_memMeta_def)
    have lt: "link_target ?m2 ?c = None" using d(5) file_meta_link [OF p(1) fc] by simp
    let ?m3 = "?m2\<lparr>Metas := gm_put ?c (?mm\<lparr>mm_MTime := clock e\<rparr>) (Metas ?m2)\<rparr>"
    have tl: "(if mm_Target (?mm\<lparr>mm_MTime := clock e\<rparr>) = [] then None
        else Some (mm_Target (?mm\<lparr>mm_MTime := clock e\<rparr>))) = link_target ?m2 ?c"
      unfolding t lt by simp
    have u: "link_target ?m3 = link_target ?m2" "isFileEntry ?m3 = isFileEntry ?m2" "is_dir ?m3 = is_dir ?m2"
        "canon ?m3 = canon ?m2"
      by (rule put_meta [OF d(1) tl])+
    have m': "m' = emit ''write'' f ?m3"
      using assms(2,4) nd True file_in_Files [OF ok, of f]
      by (simp add: writeFileLocked_def Let_def split: option.splits)
    have "link_target m' = link_target m" "isFileEntry m' = isFileEntry m"
      unfolding m' emit_same by (simp_all only: u d p)
    then have "resolve m' = resolve m" by (rule resolve_cong) (simp add: m')
    moreover have "\<not> is_dir m' f" unfolding m' emit_same u d p(6) using nd .
    moreover have "canon m' f = ?c" unfolding m' emit_same by (simp only: u d p(7))
    ultimately show ?thesis using assms(4) by (simp add: m')
  next
    case False
    then have c: "?c = f" by (auto simp: canon_def isFileEntry_get split: option.split)
    let ?m3 = "?m1\<lparr>Files := gm_put f data (Files ?m1), Metas := gm_put f (fresh_meta e perm) (Metas ?m1)\<rparr>"
    note n = new_file [OF p(1) prepared_openable [OF ok assms(4) False nd] fresh_target [of e perm],
        where data = data]
    have m': "m' = emit ''create'' f ?m3"
      using assms(2,4) nd False c file_in_Files [OF ok, of f]
      by (simp add: writeFileLocked_def Let_def split: option.splits)
    have lf: "link_target m f = None" using resolve_ok(3) [OF assms(4)] assms(5) by simp
    have lt: "link_target m' = link_target m"
      using n(3) lf p(4) by (auto simp: m' fun_eq_iff)
    have pl: "\<forall>q. isUnder q f \<longrightarrow> plain_at m q"
    proof (intro allI impI)
      fix q assume "isUnder q f"
      then show "plain_at m q"
        using nothing_under [OF ok resolve_ok(1) [OF assms(4)] assms(5) nd, of q] False lf
        by (cases "q = f") (auto simp: plain_at_def entry_def)
    qed
    have fe: "isFileEntry m' q = (isFileEntry m q \<or> q = f)" for q
      unfolding m' emit_same n(4) p(5) ..
    have "resolve m' path True = Inr f"
      by (rule resolve_new_file [OF assms(4,3,5) pl lt fe]) (simp add: m')
    moreover have "\<not> is_dir m' f" unfolding m' emit_same n(5) p(6) using nd .
    moreover have "canon m' f = f" using False by (simp add: m' canon_def isFileEntry_get)
    ultimately show ?thesis by (simp add: m')
  qed
  then show ?thesis by (auto simp: ReadFile_mem_def checkPerm_def split: option.split)
qed

lemma write_then_read_witness:
  "ReadFile_mem root_env ''/s/f'' (snd (writeFileLocked root_env ''/s/f'' [9] 0x1A4 sample_files)) = Inr [9]"
proof -
  have "writeFileLocked root_env ''/s/f'' [9] 0x1A4 sample_files
      = (Inr (), snd (writeFileLocked root_env ''/s/f'' [9] 0x1A4 sample_files))"
    "filepath_IsAbs (ResolvePath_mem sample_files ''/s/f'')"
    "resolve sample_files ''/s/f'' True = Inr ''/d/f''" "\<not> isMemRoot ''/d/f''" "euid root_env = 0"
    by code_simp+
  then show ?thesis using write_then_read [OF sample_reach, of root_env "''/s/f''" "[9]" "0x1A4"] by blast
qed

end
