(* ===== verification/Mem_Path_Props.thy ===== *)
theory Mem_Path_Props
  imports Mem_Props
begin

text \<open>
  Properties of path resolution and of sessions under a policy on the in-memory
  file system.
\<close>

section \<open>Walking a plain path\<close>

lemma Join_clean_str:
  assumes "comps_ok r (cs @ [c])" "c \<noteq> ''..''"
  shows "filepath_Join (clean_str r cs) c = clean_str r (cs @ [c])"
proof -
  have ok: "comps_ok r cs" using comps_ok_prefix assms(1) by blast
  have c: "comp_ok c" using comps_okD [OF assms(1), of c] by simp
  show ?thesis
    using Clean_join [OF ok c] clean_str_nonempty [OF ok] c assms(2) ok
    by (simp add: filepath_Join_def clean_comps.simps(2) comp_ok_def)
qed

lemma plain_walk:
  assumes "comps_ok True (ds @ cs @ [c])" "plain_above m (clean_str True (ds @ cs @ [c]))"
  shows "comp_walk m (clean_str True ds) (cs @ [c]) follow d orig
    = link_chase m (clean_str True (ds @ cs @ [c])) [] follow d orig"
  using assms
proof (induction cs arbitrary: ds)
  case Nil
  then have "c \<noteq> ''..''" by (auto simp: comps_ok_def)
  then show ?case using Nil Join_clean_str [of True ds c] by simp
next
  case (Cons b cs)
  have okb: "comps_ok True (ds @ [b])" using Cons.prems(1) comps_ok_prefix [of True "ds @ [b]" "cs @ [c]"] by simp
  have b: "b \<noteq> ''..''" using Cons.prems by (auto simp: comps_ok_def)
  let ?q = "clean_str True (ds @ [b])"
  have "isUnder (clean_str True (ds @ b # cs @ [c])) ?q"
    using isUnder_clean_str [OF _ okb] Cons.prems(1) by simp
  moreover have "clean_str True (ds @ b # cs @ [c]) \<noteq> ?q"
    using clean_str_inj [OF _ okb, of True "ds @ b # cs @ [c]"] Cons.prems(1) by auto
  moreover have "is_clean ?q" "\<not> isMemRoot ?q" using okb by (auto simp: root_clean_str)
  ultimately have "plain_at m ?q" using Cons.prems(2) by (simp add: plain_above_def)
  then have "link_chase m ?q (cs @ [c]) follow d orig = comp_walk m ?q (cs @ [c]) follow d orig"
    by (simp add: link_chase.simps plain_at_def)
  moreover have "comp_walk m (clean_str True ds) ((b # cs) @ [c]) follow d orig
      = link_chase m ?q (cs @ [c]) follow d orig"
    using Join_clean_str [OF okb b] by simp
  ultimately show ?case using Cons.IH [of "ds @ [b]"] Cons.prems by simp
qed

lemma plain_resolve:
  assumes "is_clean p" "filepath_IsAbs p" "\<not> isMemRoot p" "plain_above m p"
  shows "resolveSteps m p follow d orig = link_chase m p [] follow d orig"
proof -
  obtain r cs where p: "comps_ok r cs" "p = clean_str r cs" using assms(1) by (rule is_cleanE)
  have r: "r" using assms(2) p by simp
  have ne: "cs \<noteq> []" using assms(3) p root_clean_str by auto
  then obtain bs b where cs: "cs = bs @ [b]" by (cases cs rule: rev_cases) auto
  have sp: "go_split slash (tl p) = cs"
    using p r ne by (simp add: clean_str_def go_split_join comps_ok_slash)
  have "p \<noteq> []" using p by simp
  then have "resolveSteps m p follow d orig = comp_walk m [slash] cs follow d orig"
    using assms(2,3) sp by (simp add: resolveSteps.simps)
  moreover have "[slash] = clean_str True []" by (simp add: clean_str_def)
  ultimately show ?thesis
    using plain_walk [of "[]" bs b m follow d orig] p r cs assms(4) by simp
qed

section \<open>Resolution\<close>

text \<open>C8: What a path resolves to is a clean path with no file and no symbolic link above it, and no
  link itself where links are followed; an absolute one is final, resolving to itself.\<close>

theorem resolution_is_final:
  assumes "resolve m path follow = Inr p"
  shows "is_clean p \<and>
    (\<forall>q. is_clean q \<and> \<not> isMemRoot q \<and> isUnder p q \<and> q \<noteq> p \<longrightarrow> \<not> isFileEntry m q \<and> link_target m q = None) \<and>
    (follow \<and> \<not> isMemRoot p \<longrightarrow> link_target m p = None) \<and>
    (filepath_IsAbs p \<longrightarrow> resolve m p follow = Inr p)"
proof (intro conjI impI)
  note r = resolve_ok [OF assms]
  show "is_clean p" by (fact r(1))
  show "\<forall>q. is_clean q \<and> \<not> isMemRoot q \<and> isUnder p q \<and> q \<noteq> p \<longrightarrow> \<not> isFileEntry m q \<and> link_target m q = None"
    using r(2) by (simp add: plain_above_def plain_at_def)
  show "link_target m p = None" if "follow \<and> \<not> isMemRoot p" using r(3) that by blast
  assume a: "filepath_IsAbs p"
  have rp: "ResolvePath_mem m p = p" using a r(1) by (simp add: ResolvePath_mem_def)
  show "resolve m p follow = Inr p"
  proof (cases "isMemRoot p")
    case True
    then show ?thesis by (simp add: resolve_def rp resolveSteps.simps)
  next
    case False
    have "link_chase m p [] follow 0 p = Inr (0, p)"
      using r(3) False by (cases follow) (simp_all add: link_chase.simps)
    then show ?thesis
      using plain_resolve [OF r(1) a False r(2)] by (simp add: resolve_def rp)
  qed
qed

lemma resolution_is_final_witness:
  "resolve sample_files ''/d/f'' True = Inr ''/d/f'' \<and> link_target sample_files ''/d'' = None"
proof -
  have r: "resolve sample_files ''/s/../s/./f'' True = Inr ''/d/f''" by code_simp
  have c: "is_clean ''/d''" "\<not> isMemRoot ''/d''" "isUnder ''/d/f'' ''/d''" "filepath_IsAbs ''/d/f''"
    using is_cleanI [of True "[''d'']"]
    by (simp_all add: comps_ok_def comp_ok_def clean_str_def isMemRoot_def isUnder_def go_has_prefix_def filepath_IsAbs_def)
  then show ?thesis using resolution_is_final [OF r] by auto
qed

text \<open>Where a link leads.\<close>

definition link_leads :: "MemFileOps \<Rightarrow> string \<Rightarrow> string option" where
  "link_leads m p =
    map_option (\<lambda>t. filepath_Clean (if filepath_IsAbs t then t else filepath_Join (filepath_Dir p) t)) (link_target m p)"

text \<open>Walking a prefix and then the rest is walking both; the prefix is followed to its end.\<close>

definition then_walk ::
  "MemFileOps \<Rightarrow> bool \<Rightarrow> string list \<Rightarrow> bool \<Rightarrow> string \<Rightarrow> (nat \<times> string) fs_result \<Rightarrow> (nat \<times> string) fs_result" where
  "then_walk m moved ds follow orig r =
    (case r of
       Inl err \<Rightarrow> Inl err
     | Inr (d, q) \<Rightarrow>
         if moved \<and> isFileEntry m q then Inl (PathError ''open'' orig errMemNotDir)
         else comp_walk m q ds follow d orig)"

lemma walk_append:
  "resolveSteps m x fw d orig = resolveSteps m x fw d orig"
  "fw \<and> ds \<noteq> [] \<Longrightarrow> comp_walk m acc (cs @ ds) follow d orig
    = then_walk m (cs \<noteq> []) ds follow orig (comp_walk m acc cs fw d orig)"
  "fw \<and> ds \<noteq> [] \<Longrightarrow> link_chase m p (cs @ ds) follow d orig
    = then_walk m True ds follow orig (link_chase m p cs fw d orig)"
proof (induction m x fw d orig and m acc cs fw d orig and m p cs fw d orig
    rule: resolveSteps_comp_walk_link_chase.induct)
  case (2 m acc fw d orig)
  then show ?case by (simp add: then_walk_def)
next
  case (3 m acc c cs fw d orig)
  then show ?case by simp
next
  case (4 m p cs fw d orig)
  then have fw: "fw" "ds \<noteq> []" by simp_all
  show ?case
  proof (cases "link_target m p")
    case None
    show ?thesis
    proof (cases "cs = []")
      case True
      then show ?thesis using None fw by (simp add: link_chase.simps [of m p] then_walk_def)
    next
      case ne: False
      show ?thesis
      proof (cases "isFileEntry m p")
        case True
        then show ?thesis using None fw ne by (simp add: link_chase.simps [of m p] then_walk_def)
      next
        case False
        then show ?thesis using None fw ne 4(1) by (simp add: link_chase.simps [of m p])
      qed
    qed
  next
    case (Some t)
    let ?t = "filepath_Clean (if filepath_IsAbs t then t else filepath_Join (filepath_Dir p) t)"
    have i: "(if cs = [] \<and> \<not> fw then None else link_target m p) = Some t" using fw Some by simp
    show ?thesis
    proof (cases "40 < Suc d")
      case True
      then show ?thesis using Some fw by (simp add: link_chase.simps [of m p] then_walk_def)
    next
      case False
      show ?thesis
      proof (cases "resolveSteps m ?t True (Suc d) orig")
        case (Inl err)
        then show ?thesis using Some fw False by (simp add: link_chase.simps [of m p] then_walk_def)
      next
        case (Inr q)
        obtain d' rp where q: "q = (d', rp)" by (cases q)
        then show ?thesis
          using 4(3) [OF i False Inr q [symmetric]] Some fw False Inr by (simp add: link_chase.simps [of m p])
      qed
    qed
  qed
qed simp

text \<open>A resolution that needs fewer links than the budget leaves fails from a smaller budget, or
  succeeds with the same result.\<close>

definition eloop :: "string \<Rightarrow> 'a fs_result" where
  "eloop orig = Inl (PathError ''open'' orig errMemTooManyLinks)"

definition shifted :: "nat \<Rightarrow> string \<Rightarrow> (nat \<times> string) fs_result \<Rightarrow> (nat \<times> string) fs_result \<Rightarrow> nat \<Rightarrow> bool" where
  "shifted k orig r r' d \<longleftrightarrow>
    (\<forall>d' q. r = Inr (d', q) \<longrightarrow>
      d \<le> d' \<and> (d + k \<le> 40 \<longrightarrow> r' = (if d' + k \<le> 40 then Inr (d' + k, q) else eloop orig)))"

lemma budget_shift:
  "shifted k orig' (resolveSteps m x fw d orig) (resolveSteps m x fw (d + k) orig') d"
  "shifted k orig' (comp_walk m acc cs fw d orig) (comp_walk m acc cs fw (d + k) orig') d"
  "shifted k orig' (link_chase m p cs fw d orig) (link_chase m p cs fw (d + k) orig') d"
proof (induction m x fw d orig and m acc cs fw d orig and m p cs fw d orig
    rule: resolveSteps_comp_walk_link_chase.induct)
  case (1 m x fw d orig)
  show ?case
  proof (cases "isMemRoot x \<or> x = []")
    case True
    then show ?thesis by (auto simp: shifted_def resolveSteps.simps)
  next
    case False
    then show ?thesis using 1 by (cases "filepath_IsAbs x") (simp_all add: resolveSteps.simps)
  qed
next
  case (2 m acc fw d orig)
  then show ?case by (simp add: shifted_def)
next
  case (3 m acc c cs fw d orig)
  then show ?case by simp
next
  case (4 m p cs fw d orig)
  show ?case
  proof (cases "if cs = [] \<and> \<not> fw then None else link_target m p")
    case None
    show ?thesis
    proof (cases "cs \<noteq> [] \<and> isFileEntry m p")
      case True
      then show ?thesis unfolding link_chase.simps [of m p] None by (simp add: shifted_def)
    next
      case False
      then show ?thesis using 4(1) [OF None False] False unfolding link_chase.simps [of m p] None by auto
    qed
  next
    case (Some t)
    let ?t = "filepath_Clean (if filepath_IsAbs t then t else filepath_Join (filepath_Dir p) t)"
    show ?thesis
    proof (cases "40 < Suc d")
      case True
      then show ?thesis unfolding link_chase.simps [of m p] Some by (simp add: shifted_def)
    next
      case False
      show ?thesis
      proof (cases "resolveSteps m ?t True (Suc d) orig")
        case (Inl err)
        then show ?thesis using False unfolding link_chase.simps [of m p cs fw d orig] Some by (simp add: shifted_def)
      next
        case (Inr z)
        obtain d1 rp where z: "z = (d1, rp)" by (cases z)
        have e: "link_chase m p cs fw d orig = link_chase m rp cs fw d1 orig"
          using False Inr z unfolding link_chase.simps [of m p cs fw d orig] Some by simp
        note A = 4(2) [OF Some False] and B = 4(3) [OF Some False Inr z [symmetric]]
        have d1: "Suc d \<le> d1" using A Inr z by (simp add: shifted_def)
        have s: "link_chase m p cs fw (d + k) orig' =
            (if 40 < Suc (d + k) \<or> 40 < d1 + k then eloop orig' else link_chase m rp cs fw (d1 + k) orig')"
          using A Inr z d1 unfolding link_chase.simps [of m p cs fw "d + k"] Some
          by (auto simp: shifted_def eloop_def)
        show ?thesis using B d1 unfolding shifted_def e s by auto
      qed
    qed
  qed
qed

text \<open>A path runs into a set of names when the directory part before one of its components resolves, and
  that component, looked up there, is a name of the set; the last one counts only where it is followed.\<close>

definition runs_into :: "MemFileOps \<Rightarrow> string set \<Rightarrow> bool \<Rightarrow> string \<Rightarrow> bool" where
  "runs_into m S follow path \<longleftrightarrow>
    (\<exists>ds c rest q. comps_ok True (ds @ c # rest) \<and> path = clean_str True (ds @ c # rest) \<and>
       resolve m (clean_str True ds) True = Inr q \<and> (ds \<noteq> [] \<longrightarrow> \<not> isFileEntry m q) \<and>
       filepath_Join q c \<in> S \<and> (rest \<noteq> [] \<or> follow))"

lemma rooted_walk:
  assumes "comps_ok True cs" "cs \<noteq> []"
  shows "resolveSteps m (clean_str True cs) follow d orig = comp_walk m [slash] cs follow d orig"
proof -
  have "\<not> isMemRoot (clean_str True cs)" using assms by (simp add: root_clean_str)
  moreover have "go_split slash (tl (clean_str True cs)) = cs"
    using assms by (simp add: clean_str_def go_split_join comps_ok_slash)
  ultimately show ?thesis using assms by (simp add: resolveSteps.simps)
qed

lemma rooted_prefix:
  assumes "comps_ok True ds" "resolve m (clean_str True ds) True = Inr q"
  shows "\<exists>k. comp_walk m [slash] ds True 0 (clean_str True ds) = Inr (k, q)"
proof -
  have "ResolvePath_mem m (clean_str True ds) = clean_str True ds"
    using assms(1) Clean_clean_str by (simp add: ResolvePath_mem_def)
  then obtain k where k: "resolveSteps m (clean_str True ds) True 0 (clean_str True ds) = Inr (k, q)"
    using assms(2) by (auto simp: resolve_def split: sum.splits)
  show ?thesis
  proof (cases "ds = []")
    case True
    then have "clean_str True ds = [slash]" by (simp add: clean_str_def)
    then have "q = [slash]" using k by (simp add: resolveSteps.simps isMemRoot_def)
    then show ?thesis using True by simp
  next
    case False
    then show ?thesis using k rooted_walk [OF assms(1) False] by auto
  qed
qed

lemma run_into_cycle:
  assumes S: "\<forall>p \<in> S. \<exists>t. link_leads m p = Some t \<and> runs_into m S True t"
    and "runs_into m S follow path" "d \<le> 40"
  shows "resolveSteps m path follow d orig = eloop orig"
  using assms(2,3)
proof (induction "40 - d" arbitrary: path follow d rule: less_induct)
  case less
  from less.prems(1) obtain ds c rest q where p: "comps_ok True (ds @ c # rest)" "path = clean_str True (ds @ c # rest)"
    "resolve m (clean_str True ds) True = Inr q" "ds \<noteq> [] \<longrightarrow> \<not> isFileEntry m q"
    "filepath_Join q c \<in> S" "rest \<noteq> [] \<or> follow"
    unfolding runs_into_def by blast
  let ?p = "filepath_Join q c"
  have "comps_ok True ds" using comps_ok_prefix [of True ds "c # rest"] p(1) by simp
  then obtain k where k: "comp_walk m [slash] ds True 0 (clean_str True ds) = Inr (k, q)"
    using rooted_prefix p(3) by blast
  have w: "resolveSteps m path follow d orig
      = then_walk m (ds \<noteq> []) (c # rest) follow orig (comp_walk m [slash] ds True d orig)"
    using rooted_walk [OF p(1)] walk_append(2) [of True "c # rest"] p(2) by simp
  show ?case
  proof (cases "k + d \<le> 40")
    case False
    then have "comp_walk m [slash] ds True d orig = eloop orig"
      using budget_shift(2) [of d orig m "[slash]" ds True 0 "clean_str True ds"] k less.prems(2)
      by (simp add: shifted_def)
    then show ?thesis using w by (simp add: then_walk_def eloop_def)
  next
    case True
    then have "comp_walk m [slash] ds True d orig = Inr (k + d, q)"
      using budget_shift(2) [of d orig m "[slash]" ds True 0 "clean_str True ds"] k less.prems(2)
      by (simp add: shifted_def)
    then have e: "resolveSteps m path follow d orig = link_chase m ?p rest follow (k + d) orig"
      using w p(4) by (auto simp: then_walk_def)
    obtain t where t: "link_leads m ?p = Some t" "runs_into m S True t" using S p(5) by blast
    then obtain u where u: "link_target m ?p = Some u"
      "t = filepath_Clean (if filepath_IsAbs u then u else filepath_Join (filepath_Dir ?p) u)"
      by (auto simp: link_leads_def)
    have i: "(if rest = [] \<and> \<not> follow then None else link_target m ?p) = Some u" using p(6) u by auto
    show ?thesis
    proof (cases "40 < Suc (k + d)")
      case True
      then show ?thesis unfolding e link_chase.simps [of m ?p] i by (simp add: eloop_def)
    next
      case False
      then have "resolveSteps m t True (Suc (k + d)) orig = eloop orig"
        using less.hyps [of "Suc (k + d)" True t] t(2) by simp
      then show ?thesis using False u(2) unfolding e link_chase.simps [of m ?p] i by (simp add: eloop_def)
    qed
  qed
qed

text \<open>C39: A cycle of symbolic links is an error, not a hang: given a set of links each of which leads to
  a path that runs into the set again, every absolute path that runs into it, at any of its components and
  through whatever other links, ends with ELOOP naming the path that was asked for.\<close>

theorem link_cycle_is_eloop:
  assumes "\<forall>p \<in> S. \<exists>t. link_leads m p = Some t \<and> runs_into m S True t"
    and "runs_into m S follow (ResolvePath_mem m path)"
  shows "resolve m path follow = Inl (PathError ''open'' path errMemTooManyLinks)"
  using run_into_cycle [OF assms, of 0 path] by (simp add: resolve_def eloop_def)

text \<open>Two links that lead to one another, one of them through a link to the root.\<close>

definition cyclic_links :: MemFileOps where
  "cyclic_links =
    snd (mem_call root_env (Symlink ''/r/b'' ''/a'') (snd (mem_call root_env (Symlink ''a'' ''/b'')
      (snd (mem_call root_env (Symlink ''/'' ''/r'') NewMem)))))"

lemma link_cycle_is_eloop_witness:
  "resolve cyclic_links ''/r/a/x'' False = Inl (PathError ''open'' ''/r/a/x'' errMemTooManyLinks)"
proof (rule link_cycle_is_eloop [where S = "{''/a'', ''/b''}"])
  have ok: "comps_ok True [''a'']" "comps_ok True [''r'', ''b'']" "comps_ok True [''r'', ''a'', ''x'']"
    by (simp_all add: comps_ok_def comp_ok_def)
  have r: "resolve cyclic_links ''/r'' True = Inr ''/''" "resolve cyclic_links ''/'' True = Inr ''/''"
    "\<not> isFileEntry cyclic_links ''/''" "filepath_Join ''/'' ''a'' = ''/a''" "filepath_Join ''/'' ''b'' = ''/b''"
    "link_leads cyclic_links ''/a'' = Some ''/r/b''" "link_leads cyclic_links ''/b'' = Some ''/a''"
    "ResolvePath_mem cyclic_links ''/r/a/x'' = ''/r/a/x''"
    by code_simp+
  have "runs_into cyclic_links {''/a'', ''/b''} True ''/a''" unfolding runs_into_def
    using ok(1) r by (intro exI [of _ "[]"] exI [of _ "''a''"] exI [of _ "''/''"]) (simp add: clean_str_def)
  moreover have "runs_into cyclic_links {''/a'', ''/b''} True ''/r/b''" unfolding runs_into_def
    using ok(2) r by (intro exI [of _ "[''r'']"] exI [of _ "''b''"] exI [of _ "[]"] exI [of _ "''/''"]) (simp add: clean_str_def)
  ultimately show "\<forall>p \<in> {''/a'', ''/b''}. \<exists>t. link_leads cyclic_links p = Some t \<and> runs_into cyclic_links {''/a'', ''/b''} True t"
    using r by auto
  show "runs_into cyclic_links {''/a'', ''/b''} False (ResolvePath_mem cyclic_links ''/r/a/x'')" unfolding runs_into_def
    using ok(3) r by (intro exI [of _ "[''r'']"] exI [of _ "''a''"] exI [of _ "[''x'']"] exI [of _ "''/''"]) (simp add: clean_str_def)
qed

section \<open>Sessions under a policy\<close>

text \<open>C18: Under a policy that denies writing, making directories, removing, renaming, linking and
  changing metadata, no sequence of file calls changes anything in the file system: every name
  has the node it had, whatever the calls are and whoever makes them.\<close>

theorem read_only_policy_holds:
  assumes "mem_reach m"
    and "\<forall>op \<in> set change_ops. \<forall>a. Check pol ''fileops'' op a \<noteq> None"
  shows "view (session (mem_call e) (Some pol) cs m) = view m"
  by (rule mem.read_only_session) (use assms reach_ok in blast)+

definition reader_policy :: Policy where
  "reader_policy = PCompiled \<lparr> comp_name = ''reader'', comp_scopes = [(''fileops'', Some (Scope None
     \<lparr>Default = EffectDeny, Rules = [\<lparr>Allow = [''read'', ''list'', ''stat''], Deny = [], Where = []\<rparr>]\<rparr> None))],
     comp_limits = zero_Limits, hasPerExportRules = False \<rparr>"

lemma read_only_policy_holds_witness:
  "view (session (mem_call root_env) (Some reader_policy)
     [WriteFile ''/d/f'' [5] 0, ReadFile ''/g'', Remove_file ''/d'' True] sample_files) = view sample_files \<and>
   Check reader_policy ''fileops'' ''read'' [] = None"
proof
  let ?rule = "\<lparr>Allow = [''read'', ''list'', ''stat''], Deny = [], Where = []\<rparr>"
  have n: "list_all (\<lambda>op. \<not> GlobAny (Rule_Names ?rule) op) change_ops"
    by code_simp
  have "Check reader_policy ''fileops'' op a \<noteq> None" if "op \<in> set change_ops" for op a
  proof -
    have "\<not> GlobAny (Rule_Names ?rule) op" using n that by (auto simp: list_all_iff)
    then have "evalWords \<lparr>Default = EffectDeny, Rules = [?rule]\<rparr> op a = (EffectDeny, -1)"
      by (simp add: evalWords_def rule_applies_def EffectDeny_def)
    then show ?thesis
      by (simp add: reader_policy_def Compiled_Check_def Let_def Scope_Installed_def scope_of_def gm_get_def EffectDeny_def EffectAllow_def
          split: option.splits)
  qed
  then show "view (session (mem_call root_env) (Some reader_policy)
     [WriteFile ''/d/f'' [5] 0, ReadFile ''/g'', Remove_file ''/d'' True] sample_files) = view sample_files"
    using read_only_policy_holds [OF sample_reach] by blast
  show "Check reader_policy ''fileops'' ''read'' [] = None" by code_simp
qed

end
