(* ===== verification/Mem_Listing.thy ===== *)
theory Mem_Listing
  imports Mem_Props
begin

text \<open>
  Properties of listings, temporary names and subscriptions of the in-memory
  file system.
\<close>

section \<open>Base names\<close>

lemma Base_clean_str:
  assumes "comps_ok r (cs @ [c])"
  shows "filepath_Base (clean_str r (cs @ [c])) = c"
proof -
  have c: "c \<noteq> []" "slash \<notin> set c" using comps_okD [OF assms, of c] by (auto simp: comp_ok_def)
  have "clean_str r (cs @ [c]) = (if cs = [] then if r then [slash] else [] else (if r then [slash] else []) @ go_join slash cs @ [slash]) @ c"
    by (auto simp: clean_str_def go_join_snoc)
  moreover define pre where "pre = (if cs = [] then if r then [slash] else [] else (if r then [slash] else []) @ go_join slash cs @ [slash])"
  ultimately have p: "clean_str r (cs @ [c]) = pre @ c" by simp
  have pre: "pre = [] \<or> last pre = slash" by (auto simp: pre_def)
  obtain c0 x where x: "c = c0 @ [x]" "x \<noteq> slash" using c by (cases c rule: rev_cases) auto
  have s: "rev (dropWhile (\<lambda>k. k = slash) (rev (pre @ c))) = pre @ c" using x by simp
  have "takeWhile (\<lambda>k. k \<noteq> slash) (rev (pre @ c)) = rev c"
    using pre c(2) by (cases pre rule: rev_cases) (auto simp: takeWhile_append takeWhile_eq_all_conv)
  then show ?thesis using c(1) s by (simp add: filepath_Base_def p Let_def)
qed

text \<open>In one directory a name is told by its base.\<close>

lemma Base_inj:
  assumes "is_clean p" "is_clean q" "filepath_Dir p = filepath_Dir q" "filepath_Base p = filepath_Base q"
    and "p \<noteq> filepath_Dir p" "q \<noteq> filepath_Dir q"
  shows "p = q"
proof -
  obtain r cs c where p: "comps_ok r (cs @ [c])" "p = clean_str r (cs @ [c])" "filepath_Dir p = clean_str r cs"
    using assms(1,5) by (cases rule: clean_cases) auto
  obtain r' ds d where q: "comps_ok r' (ds @ [d])" "q = clean_str r' (ds @ [d])" "filepath_Dir q = clean_str r' ds"
    using assms(2,6) by (cases rule: clean_cases) auto
  have "r = r' \<and> cs = ds"
    using clean_str_inj [OF comps_ok_prefix [OF p(1)] comps_ok_prefix [OF q(1)]] p(3) q(3) assms(3) by simp
  moreover have "c = d" using Base_clean_str p(1,2) q(1,2) assms(4) by metis
  ultimately show ?thesis using p(2) q(2) by simp
qed

section \<open>Children\<close>

definition child :: "MemFileOps \<Rightarrow> string \<Rightarrow> string \<Rightarrow> bool" where
  "child m d c = (entry m c \<and> filepath_Dir c = d \<and> c \<noteq> d)"

lemma key_entry:
  assumes ok: "fs_ok m" and "c \<in> set (all_keys m)"
  shows "entry m c"
proof -
  have maps: "gm_ok (Metas m)" using fs_okD(1) [OF ok] by (simp add: maps_ok_def)
  have "(\<exists>mm. gm_get (Metas m) c = Some mm \<and> mm_Target mm \<noteq> []) \<or> gm_get (Files m) c \<noteq> None \<or>
      gm_get (Links m) c \<noteq> None \<or> gm_get (MemFileOps.Dirs m) c \<noteq> None"
    using assms(2) gm_get_keys [of "Files m" c] gm_get_keys [of "MemFileOps.Dirs m" c] gm_get_keys [of "Links m" c]
    unfolding all_keys_def gm_get_in [OF maps] by auto
  then show ?thesis
    using is_dir_Dirs [OF ok, of c] by (auto simp: entry_def isFileEntry_get link_target_def)
qed

lemma all_keys_entry: "fs_ok m \<Longrightarrow> c \<in> set (all_keys m) \<longleftrightarrow> entry m c"
  using key_entry entry_key fs_okD(1) by blast

lemma fold_add_child:
  assumes ok: "fs_ok m" and "set ks \<subseteq> {c. entry m c}" "gm_ok acc"
    and acc: "\<forall>n i. gm_get acc n = Some i \<longleftrightarrow> (\<exists>c \<in> A. child m d c \<and> filepath_Base c = n \<and> infoFor e m c = Some i)"
    and "A \<subseteq> {c. entry m c}"
  shows "gm_ok (fold (add_child e m d) ks acc) \<and>
    (\<forall>n i. gm_get (fold (add_child e m d) ks acc) n = Some i \<longleftrightarrow>
      (\<exists>c \<in> A \<union> set ks. child m d c \<and> filepath_Base c = n \<and> infoFor e m c = Some i))"
  using assms(2-5)
proof (induction ks arbitrary: acc A)
  case Nil
  then show ?case by simp
next
  case (Cons k ks)
  have ek: "entry m k" using Cons.prems by simp
  then obtain i0 where i0: "infoFor e m k = Some i0"
    using infoFor_None [of e m k] by (cases "infoFor e m k") auto
  have nm: "fi_Name i0 = filepath_Base k"
    using i0 by (auto simp: infoFor_view) (metis (no_types, lifting) FileInfo.select_convs(1) fnode.exhaust fnode.simps(10-12) info_of_def)
  let ?acc = "add_child e m d k acc"
  have gk: "gm_ok ?acc" using Cons.prems(2) by (auto simp: add_child_def Let_def gm.ok_put)
  have g: "\<forall>n i. gm_get ?acc n = Some i \<longleftrightarrow>
      (\<exists>c \<in> insert k A. child m d c \<and> filepath_Base c = n \<and> infoFor e m c = Some i)"
  proof (cases "child m d k")
    case False
    then have "?acc = acc" using ek by (auto simp: add_child_def child_def)
    then show ?thesis using Cons.prems(3) False by auto
  next
    case True
    then have put: "?acc = gm_put (filepath_Base k) i0 acc"
      using i0 nm by (auto simp: add_child_def child_def Let_def)
    show ?thesis
    proof (intro allI)
      fix n i
      show "gm_get ?acc n = Some i \<longleftrightarrow>
        (\<exists>c \<in> insert k A. child m d c \<and> filepath_Base c = n \<and> infoFor e m c = Some i)"
      proof (cases "n = filepath_Base k")
        case n: True
        have "c = k" if "child m d c" "filepath_Base c = n" for c
          using that True n Base_inj [of c k] entry_clean [OF ok] by (auto simp: child_def)
        then have "(\<exists>c \<in> insert k A. child m d c \<and> filepath_Base c = n \<and> infoFor e m c = Some i) \<longleftrightarrow> i0 = i"
          using n True i0 by (metis insertI1 option.inject)
        then show ?thesis unfolding put using n by simp
      next
        case False
        then show ?thesis unfolding put using Cons.prems(3) by auto
      qed
    qed
  qed
  have "insert k A \<subseteq> {c. entry m c}" "set ks \<subseteq> {c. entry m c}" using Cons.prems ek by auto
  from Cons.IH [OF this(2) gk g this(1)] show ?case by simp
qed

lemma collect_children:
  assumes "fs_ok m"
  shows "gm_ok (collectChildren e m d)"
    and "gm_get (collectChildren e m d) n = Some i \<longleftrightarrow>
      (\<exists>c. child m d c \<and> filepath_Base c = n \<and> infoFor e m c = Some i)"
proof -
  have k: "set (all_keys m) = {c. entry m c}" using all_keys_entry [OF assms] by auto
  have "gm_ok (collectChildren e m d) \<and> (\<forall>n i. gm_get (collectChildren e m d) n = Some i \<longleftrightarrow>
      (\<exists>c \<in> {} \<union> set (all_keys m). child m d c \<and> filepath_Base c = n \<and> infoFor e m c = Some i))"
    unfolding collectChildren_def by (rule fold_add_child [OF assms]) (simp_all add: k gm_empty_def gm_get_def gm_ok_def)
  then show "gm_ok (collectChildren e m d)"
    and "gm_get (collectChildren e m d) n = Some i \<longleftrightarrow>
      (\<exists>c. child m d c \<and> filepath_Base c = n \<and> infoFor e m c = Some i)"
    by (auto simp: k child_def)
qed

text \<open>A listing is complete and exact: the names ReadDir returns are strictly increasing, and its
  entries are the infos of the names whose parent is the directory, each once.\<close>

theorem listing_is_exact:
  assumes "mem_reach m" "ReadDir_mem e path m = Inr infos" "resolve m path True = Inr d"
  shows "sorted (map fi_Name infos) \<and> distinct (map fi_Name infos) \<and>
    set infos = {i. \<exists>c. entry m c \<and> filepath_Dir c = d \<and> c \<noteq> d \<and> infoFor e m c = Some i}"
proof -
  have ok: "fs_ok m" using reach_ok assms(1) .
  let ?ch = "collectChildren e m d"
  note cc = collect_children [OF ok, of e d]
  have nm: "fi_Name i = n" if g: "gm_get ?ch n = Some i" for n i
  proof -
    obtain c where c: "filepath_Base c = n" "infoFor e m c = Some i"
      using g unfolding cc(2) by blast
    then obtain v where "i = info_of e (filepath_Base c) v" unfolding infoFor_view by auto
    then show ?thesis using c by (cases v) (simp_all add: info_of_def)
  qed
  have infos: "infos = map (\<lambda>n. the (gm_get ?ch n)) (sort (gm_keys ?ch))"
    using assms(2) unfolding ReadDir_mem_def assms(3) Let_def
    by (simp split: if_splits option.splits)
  have "fi_Name (the (gm_get ?ch n)) = n" if "n \<in> set (gm_keys ?ch)" for n
  proof -
    have "gm_get ?ch n \<noteq> None" using that unfolding gm_get_keys .
    then obtain i where "gm_get ?ch n = Some i" by blast
    then show ?thesis using nm by simp
  qed
  then have "map (\<lambda>n. fi_Name (the (gm_get ?ch n))) (sort (gm_keys ?ch)) = sort (gm_keys ?ch)"
    by (intro map_idI) simp
  then have names: "map fi_Name infos = sort (gm_keys ?ch)" unfolding infos by (simp add: comp_def)
  have "distinct (gm_keys ?ch)" using cc(1) by (simp add: gm_ok_def gm_keys_def)
  moreover have "set infos = {i. \<exists>n. gm_get ?ch n = Some i}"
  proof -
    have "i \<in> set infos \<longleftrightarrow> (\<exists>n \<in> set (gm_keys ?ch). i = the (gm_get ?ch n))" for i
      unfolding infos by auto
    moreover have "(\<exists>n \<in> set (gm_keys ?ch). i = the (gm_get ?ch n)) \<longleftrightarrow> (\<exists>n. gm_get ?ch n = Some i)" for i
    proof
      assume "\<exists>n \<in> set (gm_keys ?ch). i = the (gm_get ?ch n)"
      then obtain n where "gm_get ?ch n \<noteq> None" "i = the (gm_get ?ch n)" unfolding gm_get_keys by blast
      then have "gm_get ?ch n = Some i" by simp
      then show "\<exists>n. gm_get ?ch n = Some i" by blast
    next
      assume "\<exists>n. gm_get ?ch n = Some i"
      then obtain n where n: "gm_get ?ch n = Some i" by blast
      then have "gm_get ?ch n \<noteq> None" by simp
      then have "n \<in> set (gm_keys ?ch)" unfolding gm_get_keys .
      with n show "\<exists>n \<in> set (gm_keys ?ch). i = the (gm_get ?ch n)" by force
    qed
    ultimately show ?thesis by blast
  qed
  moreover have "(\<exists>n. gm_get ?ch n = Some i) \<longleftrightarrow>
      (\<exists>c. entry m c \<and> filepath_Dir c = d \<and> c \<noteq> d \<and> infoFor e m c = Some i)" for i
    unfolding cc(2) child_def by blast
  ultimately show ?thesis unfolding names by simp
qed

lemma listing_is_exact_witness:
  "\<exists>infos. ReadDir_mem root_env ''/'' sample_files = Inr infos \<and>
    set infos = {i. \<exists>c. entry sample_files c \<and> filepath_Dir c = ''/'' \<and> c \<noteq> ''/'' \<and> infoFor root_env sample_files c = Some i} \<and>
    map fi_Name infos = [''d'', ''g'', ''s'']"
proof -
  define infos where "infos = projr (ReadDir_mem root_env ''/'' sample_files)"
  have r: "ReadDir_mem root_env ''/'' sample_files = Inr infos" unfolding infos_def by code_simp
  have n: "map fi_Name infos = [''d'', ''g'', ''s'']" unfolding infos_def by code_simp
  have "resolve sample_files ''/'' True = Inr ''/''" by code_simp
  from listing_is_exact [OF sample_reach r this] have "set infos = {i. \<exists>c. entry sample_files c \<and>
      filepath_Dir c = ''/'' \<and> c \<noteq> ''/'' \<and> infoFor root_env sample_files c = Some i}"
    by (elim conjE)
  with r n show ?thesis by (intro exI [of _ infos] conjI)
qed

section \<open>Temporary names\<close>

lemma dec_rev_value:
  "foldr (\<lambda>c v. digit_val c + 10 * v) (dec_rev n) 0 = n"
proof (induction n rule: dec_rev.induct)
  case (1 n)
  then show ?case by (subst dec_rev.simps) auto
qed

lemma dec_str_inj: "0 \<le> i \<Longrightarrow> 0 \<le> j \<Longrightarrow> dec_str i = dec_str j \<Longrightarrow> i = j"
  using dec_rev_value by (auto simp: dec_str_def) (metis nat_0_le)

lemma dec_rev_digits: "dec_rev n \<noteq> [] \<and> (\<forall>c \<in> set (dec_rev n). c \<in> set ''0123456789'')"
proof (induction n rule: dec_rev.induct)
  case (1 n)
  have "hex_digit d \<in> set ''0123456789''" if "d < 10" for d
  proof -
    have "list_all (\<lambda>d. hex_digit d \<in> set ''0123456789'') [0..<10]" by code_simp
    then show ?thesis using that by (simp add: list_all_iff)
  qed
  then show ?case using 1 by (subst dec_rev.simps, subst (2) dec_rev.simps) auto
qed

lemma dec_str_digits: "0 \<le> i \<Longrightarrow> dec_str i \<noteq> [] \<and> (\<forall>c \<in> set (dec_str i). c \<in> set ''0123456789'')"
  using dec_rev_digits [of "nat i"] by (simp add: dec_str_def)

text \<open>A pattern is a prefix and a suffix.\<close>

lemma temp_name_parts: "\<exists>a b. (\<forall>t. temp_name_of pattern t = a @ t @ b) \<and> set a \<union> set b \<subseteq> set pattern"
proof (cases "CHR ''*'' \<in> set pattern")
  case True
  let ?a = "rev (tl (dropWhile (\<lambda>c. c \<noteq> CHR ''*'') (rev pattern)))"
  let ?b = "rev (takeWhile (\<lambda>c. c \<noteq> CHR ''*'') (rev pattern))"
  have "set (tl (dropWhile (\<lambda>c. c \<noteq> CHR ''*'') (rev pattern))) \<subseteq> set pattern"
  proof
    fix x assume "x \<in> set (tl (dropWhile (\<lambda>c. c \<noteq> CHR ''*'') (rev pattern)))"
    then have "x \<in> set (dropWhile (\<lambda>c. c \<noteq> CHR ''*'') (rev pattern))"
      by (cases "dropWhile (\<lambda>c. c \<noteq> CHR ''*'') (rev pattern)") auto
    then show "x \<in> set pattern" using set_dropWhileD by fastforce
  qed
  moreover have "set ?b \<subseteq> set pattern" by (auto dest: set_takeWhileD)
  ultimately show ?thesis using True by (intro exI [of _ ?a] exI [of _ ?b]) (simp add: temp_name_of_def)
next
  case False
  then show ?thesis by (intro exI [of _ pattern] exI [of _ "[]"]) (simp add: temp_name_of_def)
qed

lemma temp_comp:
  assumes "slash \<notin> set pattern" "0 \<le> i"
  shows "comp_ok (temp_name_of pattern (dec_str i)) \<and> temp_name_of pattern (dec_str i) \<noteq> ''..''"
proof -
  obtain a b where ab: "temp_name_of pattern (dec_str i) = a @ dec_str i @ b" "set a \<union> set b \<subseteq> set pattern"
    using temp_name_parts by blast
  note d = dec_str_digits [OF assms(2)]
  then obtain c where c: "c \<in> set (dec_str i)" "c \<in> set ''0123456789''" by (cases "dec_str i") auto
  then have "c \<in> set (temp_name_of pattern (dec_str i))" using ab by simp
  then have "temp_name_of pattern (dec_str i) \<noteq> []" "temp_name_of pattern (dec_str i) \<noteq> ''.''"
    "temp_name_of pattern (dec_str i) \<noteq> ''..''"
    using c(2) by auto
  moreover have "slash \<notin> set (temp_name_of pattern (dec_str i))" using ab d assms(1) by auto
  ultimately show ?thesis by (simp add: comp_ok_def)
qed

lemma temp_cand_inj:
  assumes "slash \<notin> set pattern" "is_clean r" "0 \<le> i" "0 \<le> j"
    and "filepath_Join r (temp_name_of pattern (dec_str i)) = filepath_Join r (temp_name_of pattern (dec_str j))"
  shows "i = j"
proof -
  obtain t cs where r: "comps_ok t cs" "r = clean_str t cs" using assms(2) by (rule is_cleanE)
  have c: "comps_ok t (cs @ [temp_name_of pattern (dec_str k)])" "temp_name_of pattern (dec_str k) \<noteq> ''..''"
    if "0 \<le> k" for k
    using comps_ok_snoc [OF r(1)] temp_comp [OF assms(1) that] by blast+
  have jn: "filepath_Join r (temp_name_of pattern (dec_str k)) = clean_str t (cs @ [temp_name_of pattern (dec_str k)])"
    if "0 \<le> k" for k
    using Clean_join [OF r(1)] temp_comp [OF assms(1) that] clean_str_nonempty [OF r(1)] r
    by (simp add: filepath_Join_def clean_comps.simps(2) comp_ok_def)
  have "temp_name_of pattern (dec_str i) = temp_name_of pattern (dec_str j)"
    using clean_str_inj [OF c(1) [OF assms(3)] c(1) [OF assms(4)]] jn assms(3-5) by simp
  moreover obtain a b where "\<forall>t. temp_name_of pattern t = a @ t @ b" using temp_name_parts by blast
  ultimately have "dec_str i = dec_str j" by simp
  then show ?thesis using dec_str_inj assms(3,4) by blast
qed

lemma entries_finite: "finite {c. entry m c}"
proof -
  have "{c. entry m c} \<subseteq> set (gm_keys (Files m)) \<union> set (gm_keys (Links m)) \<union>
      set (gm_keys (MemFileOps.Dirs m)) \<union> set (gm_keys (Metas m))"
  proof
    fix c assume "c \<in> {c. entry m c}"
    then have "gm_get (Files m) c \<noteq> None \<or> gm_get (Links m) c \<noteq> None \<or> gm_get (MemFileOps.Dirs m) c \<noteq> None \<or>
        gm_get (Metas m) c \<noteq> None"
      by (auto simp: entry_def isFileEntry_get is_dir_def link_target_def split: option.splits)
    then show "c \<in> set (gm_keys (Files m)) \<union> set (gm_keys (Links m)) \<union>
        set (gm_keys (MemFileOps.Dirs m)) \<union> set (gm_keys (Metas m))"
      unfolding gm_get_keys by blast
  qed
  then show ?thesis using finite_subset by (metis List.finite_set finite_Un)
qed

lemma temp_loop_finds:
  assumes "\<not> entry m (filepath_Join r (temp_name_of p (dec_str (tempSeq m + int (Suc n)))))"
  shows "temp_loop e r p m \<noteq> None"
  using assms
proof (induction n arbitrary: m)
  case 0
  have "infoFor e (m\<lparr>tempSeq := tempSeq m + 1\<rparr>) (filepath_Join r (temp_name_of p (dec_str (tempSeq m + 1)))) = None"
    using 0 by (simp add: infoFor_None)
  then show ?case by (subst temp_loop.simps) (simp add: Let_def)
next
  case (Suc n)
  let ?m = "m\<lparr>tempSeq := tempSeq m + 1\<rparr>"
  have "temp_loop e r p ?m \<noteq> None"
    by (rule Suc.IH) (use Suc.prems in \<open>simp add: ac_simps\<close>)
  then show ?case by (subst temp_loop.simps) (simp add: Let_def)
qed

text \<open>Asking for a temporary file or directory ends: with a pattern that holds no separator the
  search for a free name meets one, however full the directory is; and the name it gives was
  free.\<close>

theorem temp_name_found:
  assumes "slash \<notin> set pattern" "0 \<le> tempSeq m"
  shows "\<exists>r m'. tempName e dir pattern m = Some (r, m') \<and> (\<forall>c. r = Inr c \<longrightarrow> \<not> entry m c)"
proof -
  let ?r = "ResolvePath_mem m (if dir = [] then memTempRoot else dir)"
  let ?c = "\<lambda>n. filepath_Join ?r (temp_name_of pattern (dec_str (tempSeq m + int (Suc n))))"
  have "inj ?c"
  proof (rule injI)
    fix x y assume "?c x = ?c y"
    then have "tempSeq m + int (Suc x) = tempSeq m + int (Suc y)"
      by (intro temp_cand_inj [OF assms(1) is_clean_ResolvePath]) (use assms(2) in auto)
    then show "x = y" by simp
  qed
  then have "infinite (range ?c)" using finite_imageD infinite_UNIV_nat by blast
  then have "\<not> range ?c \<subseteq> {c. entry m c}" using entries_finite finite_subset by blast
  then obtain n where "\<not> entry m (?c n)" by blast
  then have "temp_loop e ?r pattern m \<noteq> None" by (rule temp_loop_finds)
  then obtain c m' where t: "temp_loop e ?r pattern m = Some (c, m')" by auto
  then have "\<not> entry m c" using temp_loop_state [OF t] by (auto simp: temp_found_def)
  then show ?thesis using t by (auto simp: tempName_def Let_def split: option.splits)
qed

lemma temp_name_found_witness:
  "\<exists>r m'. tempName root_env ''/d'' ''f'' (sample_files\<lparr>tempSeq := 0\<rparr>) = Some (r, m')"
proof -
  have "slash \<notin> set ''f''" "0 \<le> tempSeq (sample_files\<lparr>tempSeq := 0\<rparr>)" by simp_all
  then show ?thesis using temp_name_found [of "''f''" "sample_files\<lparr>tempSeq := 0\<rparr>" root_env "''/d''"] by blast
qed

text \<open>A pattern with a separator can make the search run for ever: every candidate is the directory.\<close>

lemma temp_search_hangs:
  assumes "comps_ok t cs" "entry m (clean_str t cs)" "0 \<le> tempSeq m"
  shows "temp_loop e (clean_str t cs) ''*/..'' m = None"
proof (rule ccontr)
  let ?r = "clean_str t cs"
  assume "temp_loop e ?r ''*/..'' m \<noteq> None"
  then obtain q where q: "temp_loop e ?r ''*/..'' m = Some q" by auto
  from temp_loop_state [OF q] obtain k where k: "tempSeq m < k" "\<not> entry m (fst q)"
    "fst q = filepath_Join ?r (temp_name_of ''*/..'' (dec_str k))"
    by (auto simp: temp_found_def)
  have tn: "temp_name_of ''*/..'' s = s @ slash # ''..''" for s by (simp add: temp_name_of_def)
  note d = dec_str_digits [of k]
  have k0: "0 \<le> k" using k(1) assms(3) by simp
  have nd: "slash \<notin> set ''0123456789''" "CHR ''.'' \<notin> set ''0123456789''" by simp_all
  have "slash \<notin> set (dec_str k)" using d [OF k0] nd by blast
  then have "go_split slash (dec_str k @ slash # ''..'') = [dec_str k, ''..'']" by (simp add: go_split_append)
  moreover have "CHR ''.'' \<notin> set (dec_str k)" using d [OF k0] nd by blast
  then have "dec_str k \<noteq> ''.''" "dec_str k \<noteq> ''..''" by auto
  moreover have "dec_str k \<noteq> []" using d [OF k0] by blast
  ultimately have "filepath_Join ?r (temp_name_of ''*/..'' (dec_str k)) = ?r"
    using Clean_append [OF assms(1), of "dec_str k @ slash # ''..''"] clean_str_nonempty [OF assms(1)] tn
    by (simp add: filepath_Join_def clean_comps.simps(2))
  then show False using k assms(2) by simp
qed

end
