(* ===== verification/Handle_Props.thy ===== *)
theory Handle_Props
  imports Mem_Props "HOL-Library.Sublist"
begin

text \<open>
  Properties of open files, mapped regions, advisory locks and subscriptions.
\<close>

section \<open>Open files\<close>

lemma set_mtime_Files [simp]: "Files (set_mtime e c m) = Files m"
  by (simp add: set_mtime_def split: option.split)

lemma store_data [simp]: "file_data (handle_store e b h m) (h_canon h) = b"
  by (simp add: handle_store_def file_data_def)

lemma WriteAt_data:
  assumes "handle_WriteAt e p off h m = go_ok (Inr n, m')" "off + int (length p) < 2 ^ 63"
  shows "m' = handle_store e (spliced (nat off) p (handle_data h m)) h m" "n = length p"
    "0 \<le> off" "\<not> h_closed h" "h_write h"
  using assms writeInto_spliced [of off p "handle_data h m"]
  by (auto simp: handle_WriteAt_def split: if_splits sum.splits)

text \<open>What a positioned write stores, a positioned read of the same handle returns, and nothing
  else of the file changes: every old byte outside the range stays, a gap before the range is
  zero, and the file grows exactly to the end of the range where it was shorter.\<close>

theorem write_at_then_read_at:
  assumes "handle_WriteAt e p off h m = go_ok (Inr n, m')" "h_read h" "p \<noteq> []"
    and "off + int (length p) < 2 ^ 63"
  shows "handle_ReadAt (length p) off h m' = (p, None) \<and>
    length (handle_data h m') = max (length (handle_data h m)) (nat off + length p) \<and>
    (\<forall>i < length (handle_data h m'). int i < off \<or> off + int (length p) \<le> int i \<longrightarrow>
      handle_data h m' ! i = (if i < length (handle_data h m) then handle_data h m ! i else 0))"
proof -
  note w = WriteAt_data [OF assms(1,4)]
  let ?d = "spliced (nat off) p (handle_data h m)"
  have d: "handle_data h m' = ?d" by (simp add: handle_data_def w(1))
  have l: "length ?d = max (length (handle_data h m)) (nat off + length p)" by (rule length_spliced)
  have "off < int (length ?d)" using w(3) assms(3) by (simp add: l) (cases p; simp)
  then have "handle_ReadAt (length p) off h m' = (p, None)"
    using w(3,4) assms(2) take_spliced [of p "nat off" "handle_data h m"]
    by (simp add: handle_ReadAt_def d Let_def)
  moreover have "?d ! i = (if i < length (handle_data h m) then handle_data h m ! i else 0)"
    if "i < length ?d" "int i < off \<or> off + int (length p) \<le> int i" for i
    using spliced_nth [OF that(1)] that(2) w(3) by (auto simp: nat_less_iff)
  ultimately show ?thesis using d l by simp
qed

definition opened :: "memFileHandle \<times> MemFileOps" where
  "opened = (case Open_mem root_env ''/d/f''
      \<lparr> oo_Read = True, oo_Write = True, oo_Append = False, oo_Create = False, oo_Exclusive = False,
        oo_Truncate = False, oo_Perm = 0 \<rparr> sample_files of
     (r, m) \<Rightarrow> (projr r, m))"

lemma write_at_then_read_at_witness:
  "\<exists>m'. handle_WriteAt root_env [7, 8] 4 (fst opened) (snd opened) = go_ok (Inr 2, m') \<and>
    handle_ReadAt 2 4 (fst opened) m' = ([7, 8], None) \<and> length (handle_data (fst opened) m') = 6"
proof -
  define m' where "m' = snd (projr (handle_WriteAt root_env [7, 8] 4 (fst opened) (snd opened)))"
  have w: "handle_WriteAt root_env [7, 8] 4 (fst opened) (snd opened) = go_ok (Inr 2, m')"
    unfolding m'_def by code_simp
  have r: "h_read (fst opened)" "length (handle_data (fst opened) (snd opened)) = 2" by code_simp+
  show ?thesis using write_at_then_read_at [OF w r(1)] w r(2) by (auto simp: numeral_2_eq_2)
qed

text \<open>A handle opened for append writes at the end of the file as it is at that moment, wherever
  its offset was and whoever wrote in between: the data it finds stays, followed by its own.\<close>

theorem append_writes_at_the_end:
  assumes "handle_Write e p h m = go_ok (Inr n, h', m')" "h_append h"
    and "int (length (handle_data h m)) + int (length p) < 2 ^ 63"
  shows "handle_data h' m' = handle_data h m @ p \<and> h_off h' = int (length (handle_data h' m'))"
proof -
  let ?d = "handle_data h m" and ?h = "h\<lparr>h_off := int (length (handle_data h m))\<rparr>"
  have wi: "writeInto ?d p (int (length ?d)) = go_ok (?d @ p)"
    using writeInto_spliced [of "int (length ?d)" p ?d] assms(3) spliced_end [of ?d p] by simp
  have "h' = ?h\<lparr>h_off := add64 (int (length ?d)) (int (length p))\<rparr> \<and> m' = handle_store e (?d @ p) ?h m"
    using assms(1,2) wi by (auto simp: handle_Write_def Let_def split: if_splits)
  moreover have "add64 (int (length ?d)) (int (length p)) = int (length ?d) + int (length p)"
    using assms(3) by (intro add64_in_range) auto
  moreover have "file_data (handle_store e (?d @ p) ?h m) (h_canon h) = ?d @ p"
    using store_data [of e "?d @ p" ?h m] by simp
  ultimately show ?thesis by (simp add: handle_data_def)
qed

lemma append_writes_at_the_end_witness:
  "\<exists>h' m'. handle_Write root_env [5] ((fst opened)\<lparr>h_append := True, h_off := 9\<rparr>) (snd opened) = go_ok (Inr 1, h', m') \<and>
    handle_data h' m' = [1, 2, 5]"
proof -
  let ?h = "(fst opened)\<lparr>h_append := True, h_off := 9\<rparr>"
  define q where "q = projr (handle_Write root_env [5] ?h (snd opened))"
  have w: "handle_Write root_env [5] ?h (snd opened) = go_ok (Inr 1, fst (snd q), snd (snd q))"
    unfolding q_def by code_simp
  have d: "handle_data ?h (snd opened) = [1, 2]" by code_simp
  show ?thesis using append_writes_at_the_end [OF w] w d
    by (intro exI [of _ "fst (snd q)"] exI [of _ "snd (snd q)"]) simp
qed

text \<open>Reading until the end with a buffer of n bytes, in at most k reads.\<close>

fun read_all :: "nat \<Rightarrow> nat \<Rightarrow> memFileHandle \<Rightarrow> MemFileOps \<Rightarrow> 8 word list option" where
  "read_all n 0 h m = None"
| "read_all n (Suc k) h m =
    (case handle_Read n h m of
       (Inl EOF, _, _) \<Rightarrow> Some []
     | (Inl _, _, _) \<Rightarrow> None
     | (Inr bs, h', m') \<Rightarrow> map_option ((@) bs) (read_all n k h' m'))"

lemma read_all_from:
  assumes "0 < n" "\<not> h_closed h" "h_read h" "0 \<le> h_off h" "length (handle_data h m) < 2 ^ 63"
    and "length (handle_data h m) - nat (h_off h) < k"
  shows "read_all n k h m = Some (drop (nat (h_off h)) (handle_data h m))"
  using assms
proof (induction k arbitrary: h)
  case 0
  then show ?case by simp
next
  case (Suc k)
  let ?d = "handle_data h m" and ?o = "nat (h_off h)"
  show ?case
  proof (cases "h_off h \<ge> int (length ?d)")
    case True
    then have "drop ?o ?d = []" by simp
    then show ?thesis using True Suc.prems by (simp add: handle_Read_def Let_def)
  next
    case False
    let ?bs = "take n (drop ?o ?d)"
    have lb: "?o + length ?bs \<le> length ?d" "0 < length ?bs" using False Suc.prems(1,4) by auto
    have "h_off h + int (length ?bs) \<le> int (length ?d)" using lb(1) Suc.prems(4) by linarith
    moreover have "int (length ?d) < 2 ^ 63" using Suc.prems(5) by (simp add: less_imp_of_nat_less [of _ "2 ^ 63"])
    ultimately have ad: "add64 (h_off h) (int (length ?bs)) = h_off h + int (length ?bs)"
      using Suc.prems(4) by (intro add64_in_range) auto
    let ?h = "h\<lparr>h_off := h_off h + int (length ?bs)\<rparr>"
    have r: "handle_Read n h m = (Inr ?bs, ?h, m)"
      using False Suc.prems(2,3) ad by (simp add: handle_Read_def Let_def)
    have hd: "handle_data ?h m = ?d" by (simp add: handle_data_def)
    have o': "nat (h_off ?h) = ?o + length ?bs" using Suc.prems(4) by simp
    have lt: "length (handle_data ?h m) - nat (h_off ?h) < k"
      unfolding hd o' using Suc.prems(6) lb by linarith
    have len: "length (handle_data ?h m) < 2 ^ 63" unfolding hd by (rule Suc.prems(5))
    have "read_all n k ?h m = Some (drop (nat (h_off ?h)) (handle_data ?h m))"
      by (rule Suc.IH [OF Suc.prems(1) _ _ _ len lt]) (use Suc.prems(2-4) in simp_all)
    then have "read_all n k ?h m = Some (drop (?o + length ?bs) ?d)" unfolding hd o' .
    moreover have "?bs @ drop (?o + length ?bs) ?d = drop ?o ?d"
      by (metis append_take_drop_id drop_drop length_take min_def nat_le_linear take_all add.commute)
    ultimately show ?thesis using r by simp
  qed
qed

text \<open>C40: Reading a handle to its end stops and misses nothing: with any buffer of at least one byte,
  as many reads as there are bytes left and one more give the rest of the file, in order, and
  then the end.\<close>

theorem reading_reaches_the_end:
  assumes "0 < n" "\<not> h_closed h" "h_read h" "0 \<le> h_off h" "length (handle_data h m) < 2 ^ 63"
  shows "read_all n (Suc (length (handle_data h m) - nat (h_off h))) h m
    = Some (drop (nat (h_off h)) (handle_data h m))"
  by (rule read_all_from [OF assms]) simp

lemma reading_reaches_the_end_witness:
  "read_all 1 (Suc (2 - 0)) (fst opened) (snd opened) = Some [1, 2]"
proof -
  have c: "\<not> h_closed (fst opened)" "h_read (fst opened)" "h_off (fst opened) = 0"
    and d: "handle_data (fst opened) (snd opened) = [1, 2]" by code_simp+
  moreover have "length (handle_data (fst opened) (snd opened)) < 2 ^ 63" unfolding d by simp
  ultimately have "read_all 1 (Suc (length [1 :: 8 word, 2] - nat 0)) (fst opened) (snd opened) = Some (drop (nat 0) [1, 2])"
    using reading_reaches_the_end [of 1 "fst opened" "snd opened"] unfolding d by simp
  then show ?thesis by (simp add: numeral_2_eq_2)
qed

text \<open>A handle whose file was removed writes it back into being, without metadata.\<close>

lemma write_after_remove_resurrects:
  "let m1 = snd (mem_call root_env (Remove_file ''/d'' True) (snd (mem_call root_env (Remove_file ''/g'' False) (snd opened))));
       m2 = snd (snd (projr (handle_Write root_env [3] (fst opened) m1)))
   in view m1 ''/d/f'' = None \<and> view m2 ''/d/f'' = Some (NFile [3] None) \<and> \<not> is_dir m2 ''/d''"
  by code_simp

text \<open>A write whose end is no 64-bit integer panics.\<close>

lemma write_at_end_of_range_panics:
  "handle_WriteAt root_env [7, 8] (2 ^ 63 - 1) (fst opened) (snd opened) = go_panics IndexOutOfRange"
  by code_simp

section \<open>Mapped regions\<close>

text \<open>A mapping stays inside the file: where the window's end is a 64-bit integer, mmapWindow
  either refuses or gives bounds in order within the file, as long as was asked for, or up to
  the end of the file where no length was.\<close>

theorem mmap_window_inside:
  assumes "0 \<le> size'" "size' < 2 ^ 63" "offset + len < 2 ^ 63"
  shows "(case mmapWindow offset len size' of
      Inl err \<Rightarrow> err = ErrInvalid \<and> (size' = 0 \<or> offset < 0 \<or> size' < offset \<or> (0 < len \<and> size' < offset + len))
    | Inr (lo, hi) \<Rightarrow> lo = offset \<and> 0 \<le> lo \<and> lo \<le> hi \<and> hi \<le> size' \<and> hi = (if 0 < len then lo + len else size'))"
proof (cases "size' = 0 \<or> offset < 0 \<or> size' < offset")
  case True
  then show ?thesis by (auto simp: mmapWindow_def)
next
  case False
  have "add64 offset len = offset + len" if "0 < len"
    using False assms that by (intro add64_in_range) auto
  then show ?thesis using False assms by (auto simp: mmapWindow_def Let_def)
qed

lemma mmap_window_inside_witness: "mmapWindow 1 2 5 = Inr (1, 3)"
  using mmap_window_inside [of 5 1 2] by (auto split: sum.splits prod.splits)

text \<open>Past that bound the end wraps round and passes the check; mapping then panics.\<close>

lemma mmap_window_wraps:
  "mmapWindow 1 (2 ^ 63 - 1) 2 = Inr (1, - (2 ^ 63))"
  "Mmap_mem ''/d/f'' 1 (2 ^ 63 - 1) False sample_files = go_panics IndexOutOfRange"
proof -
  show w: "mmapWindow 1 (2 ^ 63 - 1) 2 = Inr (1, - (2 ^ 63))" by code_simp
  have r: "resolve sample_files ''/d/f'' True = Inr ''/d/f''" "\<not> is_dir sample_files ''/d/f''"
    "gm_get (Files sample_files) (canon sample_files ''/d/f'') = Some [1, 2]" by code_simp+
  have "go_make n = Inl p \<Longrightarrow> p = IndexOutOfRange" for n p by (auto simp: go_make_def split: if_splits)
  moreover have "go_slice 1 (- (2 ^ 63)) [1, 2 :: 8 word] = go_panics IndexOutOfRange" by (simp add: go_slice_def)
  ultimately show "Mmap_mem ''/d/f'' 1 (2 ^ 63 - 1) False sample_files = go_panics IndexOutOfRange"
    using r w by (cases "go_make (add64 (- (2 ^ 63)) (- 1))") (simp_all add: Mmap_mem_def)
qed

lemma Mmap_parts:
  assumes "Mmap_mem path offset len wr m = go_ok (Inr r)"
  shows "\<exists>final data lo hi src vw. gm_get (Files m) (canon m final) = Some data \<and>
    mmapWindow offset len (int (length data)) = Inr (lo, hi) \<and> go_make (add64 hi (- lo)) = Inr vw \<and>
    go_slice lo hi data = Inr src \<and>
    r = \<lparr> mp_key = canon m final, mp_final = final, mp_offset = lo,
       mp_view = go_copy 0 src vw, mp_writable = wr, mp_done = False \<rparr>"
proof (cases "resolve m path True")
  case (Inl err)
  then show ?thesis using assms by (simp add: Mmap_mem_def)
next
  case r: (Inr final)
  show ?thesis
  proof (cases "is_dir m final")
    case True
    then show ?thesis using assms r by (simp add: Mmap_mem_def)
  next
    case d: False
    show ?thesis
    proof (cases "gm_get (Files m) (canon m final)")
      case None
      then show ?thesis using assms r d by (simp add: Mmap_mem_def)
    next
      case f: (Some data)
      show ?thesis
      proof (cases "mmapWindow offset len (int (length data))")
        case (Inl err)
        then show ?thesis using assms r d f by (simp add: Mmap_mem_def)
      next
        case (Inr w)
        obtain lo hi where w: "w = (lo, hi)" by (cases w)
        show ?thesis
        proof (cases "go_make (add64 hi (- lo))")
          case (Inl p)
          then show ?thesis using assms r d f \<open>mmapWindow _ _ _ = _\<close> w by (simp add: Mmap_mem_def)
        next
          case v: (Inr vw)
          show ?thesis
          proof (cases "go_slice lo hi data")
            case (Inl p)
            then show ?thesis using assms r d f \<open>mmapWindow _ _ _ = _\<close> w v by (simp add: Mmap_mem_def)
          next
            case (Inr src)
            then show ?thesis using assms r d f \<open>mmapWindow _ _ _ = _\<close> w v
              by (intro exI [of _ final] exI [of _ data] exI [of _ lo] exI [of _ hi] exI [of _ src] exI [of _ vw])
                (simp add: Mmap_mem_def)
          qed
        qed
      qed
    qed
  qed
qed

text \<open>A writable region writes back what it holds and nothing more: flushing a region right after
  mapping it, with its bytes changed or not, puts exactly these bytes at its window and keeps
  the rest of the file.\<close>

theorem mmap_flush_writes_the_window:
  assumes "Mmap_mem path offset len True m = go_ok (Inr r)" "length v = length (mp_view r)"
    and "length (file_data m (mp_key r)) < 2 ^ 63" "offset + len < 2 ^ 63"
  shows "mp_view r = slice (nat (mp_offset r)) (nat (mp_offset r) + length v) (file_data m (mp_key r)) \<and>
    (\<exists>m'. mmap_Flush e (r\<lparr>mp_view := v\<rparr>) m = go_ok m' \<and>
      file_data m' (mp_key r) = take (nat (mp_offset r)) (file_data m (mp_key r)) @ v
        @ drop (nat (mp_offset r) + length v) (file_data m (mp_key r)))"
proof -
  obtain final data lo hi src vw where s:
    "gm_get (Files m) (canon m final) = Some data" "mmapWindow offset len (int (length data)) = Inr (lo, hi)"
    "go_make (add64 hi (- lo)) = Inr vw" "go_slice lo hi data = Inr src"
    "r = \<lparr> mp_key = canon m final, mp_final = final, mp_offset = lo,
       mp_view = go_copy 0 src vw, mp_writable = True, mp_done = False \<rparr>"
    using Mmap_parts [OF assms(1)] by blast
  let ?k = "mp_key r"
  have fd: "file_data m ?k = data" using s(1,5) by (simp add: file_data_def)
  have b: "0 \<le> lo" "lo \<le> hi" "hi \<le> int (length data)"
    using s(4) by (auto simp: go_slice_def split: if_splits)
  have ld: "int (length data) < 2 ^ 63"
    using assms(3) unfolding fd by (simp add: less_imp_of_nat_less [of _ "2 ^ 63"])
  have "add64 hi (- lo) = hi - lo" using b ld add64_in_range [of hi "- lo"] by simp
  then have vw: "length vw = nat (hi - lo)" using s(3) b by (auto simp: go_make_def split: if_splits)
  have src: "src = slice (nat lo) (nat hi) data" using s(4) by (auto simp: go_slice_def split: if_splits)
  have "nat hi \<le> length data" using b by simp
  then have lsrc: "length src = nat (hi - lo)" using b by (simp add: src nat_diff_distrib min_absorb2)
  then have "go_copy 0 src vw = src" using vw by (simp add: go_copy_def)
  then have view: "mp_view r = src" using s(5) by simp
  then have lv: "length v = nat (hi - lo)" using assms(2) lsrc by simp
  then have hi: "nat lo + length v = nat hi" using b by simp
  have "lo + int (length v) < 2 ^ 63" using lv b ld by simp
  then have wi: "writeInto data v lo = go_ok (spliced (nat lo) v data)"
    using writeInto_spliced b(1) by blast
  have sp: "spliced (nat lo) v data = take (nat lo) data @ v @ drop (nat lo + length v) data"
    using b by (simp add: spliced_def resize_def)
  have "mmap_Flush e (r\<lparr>mp_view := v\<rparr>) m = go_ok (emit ''write'' (mp_final r) (set_mtime e ?k
      (m\<lparr>Files := gm_put ?k (spliced (nat lo) v data) (Files m)\<rparr>)))"
    using s(5) fd wi by (simp add: mmap_Flush_def writeBack_def)
  moreover have "file_data (emit ''write'' (mp_final r) (set_mtime e ?k
      (m\<lparr>Files := gm_put ?k (spliced (nat lo) v data) (Files m)\<rparr>))) ?k = spliced (nat lo) v data"
    by (simp add: file_data_def)
  moreover have "mp_offset r = lo" using s(5) by simp
  ultimately show ?thesis using fd sp view src hi by auto
qed

lemma mmap_flush_writes_the_window_witness:
  "\<exists>r m'. Mmap_mem ''/d/f'' 1 1 True sample_files = go_ok (Inr r) \<and>
    mmap_Flush root_env (r\<lparr>mp_view := [9]\<rparr>) sample_files = go_ok m' \<and> file_data m' ''/d/f'' = [1, 9]"
proof -
  define r where "r = projr (projr (Mmap_mem ''/d/f'' 1 1 True sample_files))"
  have m: "Mmap_mem ''/d/f'' 1 1 True sample_files = go_ok (Inr r)" unfolding r_def by code_simp
  have r: "mp_view r = [2]" "mp_key r = ''/d/f''" "mp_offset r = 1" "file_data sample_files ''/d/f'' = [1, 2]"
    unfolding r_def by code_simp+
  show ?thesis using mmap_flush_writes_the_window [OF m, of "[9]" root_env] m r by auto
qed

section \<open>Locks\<close>

text \<open>C6: An exclusive advisory lock is exclusive: in every configuration the calls and closes of any
  number of callers lead to, a lock held for writing is the only lock held on its file.\<close>

theorem exclusive_lock_is_alone:
  assumes "lock_reach e (lock_start m) s" "fileLocks m = gm_empty"
    and "l \<in> set (lc_held s)" "\<not> lk_shared l"
  shows "filter (\<lambda>k. lk_key k = lk_key l) (lc_held s) = [l]"
proof -
  let ?c = "lk_key l" and ?h = "lc_held s"
  have t: "entry_ok (lock_state ?c (lc_fs s)) (readers_of ?c ?h) (writers_of ?c ?h)"
    using table_okD lock_reach_ok [OF assms(1,2)] by blast
  have "l \<in> set (filter (\<lambda>k. lk_key k = ?c \<and> \<not> lk_shared k) ?h)" using assms(3,4) by simp
  then have "writers_of ?c ?h \<noteq> 0" by (auto simp: writers_of_def filter_empty_conv)
  then have w: "writers_of ?c ?h = 1" "readers_of ?c ?h = 0" using t by (auto simp: entry_ok_def)
  then have "filter (\<lambda>k. lk_key k = ?c \<and> \<not> lk_shared k) ?h = [l]"
    using \<open>l \<in> set (filter (\<lambda>k. lk_key k = ?c \<and> \<not> lk_shared k) ?h)\<close>
    by (cases "filter (\<lambda>k. lk_key k = ?c \<and> \<not> lk_shared k) ?h") (auto simp: writers_of_def)
  moreover have "\<not> lk_shared k" if "k \<in> set ?h" "lk_key k = ?c" for k
    using w(2) that by (auto simp: readers_of_def filter_empty_conv)
  then have "filter (\<lambda>k. lk_key k = ?c) ?h = filter (\<lambda>k. lk_key k = ?c \<and> \<not> lk_shared k) ?h"
    by (intro filter_cong) auto
  ultimately show ?thesis by simp
qed

lemma set_lock_again: "set_lock c st' (set_lock c st m) = set_lock c st' m"
proof -
  have "AList.update c st' (AList.update c st al) = AList.update c st' al" for al
    by (induction al) auto
  then show ?thesis by (simp add: set_lock_def gm_put_def)
qed

definition waiting_call :: lock_call where
  "waiting_call = \<lparr> lw_id = 1, lw_key = ''/d/f'', lw_shared = True, lw_block = True, lw_awake = True \<rparr>"

definition contended :: lock_conf where
  "contended = \<lparr> lc_fs = set_lock ''/d/f'' \<lparr> ml_readers = 0, ml_writer = True \<rparr> sample_files,
     lc_held = [\<lparr> lk_id = 0, lk_key = ''/d/f'', lk_shared = False \<rparr>],
     lc_calls = [waiting_call\<lparr>lw_awake := False\<rparr>], lc_next = 2 \<rparr>"

definition released :: lock_conf where
  "released = contended\<lparr>lc_fs := set_lock ''/d/f'' \<lparr> ml_readers = 0, ml_writer = False \<rparr> sample_files,
     lc_held := [], lc_calls := [waiting_call]\<rparr>"

text \<open>A run: a writer acquires, a reader blocks, the writer closes, the reader acquires.\<close>

definition first_call :: lock_call where
  "first_call = \<lparr> lw_id = 0, lw_key = ''/d/f'', lw_shared = False, lw_block = False, lw_awake = True \<rparr>"

definition contended_confs :: "lock_conf list" where
  "contended_confs =
    (let s0 = lock_start sample_files; s1 = s0\<lparr>lc_calls := [first_call], lc_next := 1\<rparr>;
         s2 = lock_turn first_call s1; s3 = s2\<lparr>lc_calls := [waiting_call], lc_next := 2\<rparr>
     in [s0, s1, s2, s3, contended, released, lock_turn waiting_call released])"

definition contended_run :: "nat \<Rightarrow> lock_conf" where
  "contended_run i = contended_confs ! min i 6"

lemma contended_steps:
  assumes "i < 6"
  shows "lock_step root_env (contended_confs ! i) (contended_confs ! Suc i)"
proof -
  let ?W = "set_lock ''/d/f'' \<lparr> ml_readers = 0, ml_writer = True \<rparr> sample_files"
  have k: "lock_key root_env ''/s/f'' sample_files = Inr ''/d/f''"
    "lock_state ''/d/f'' sample_files = \<lparr> ml_readers = 0, ml_writer = False \<rparr>"
    "lock_key root_env ''/s/f'' ?W = Inr ''/d/f''"
    by code_simp+
  have release: "release_lock \<lparr> lk_id = 0, lk_key = ''/d/f'', lk_shared = False \<rparr> ?W =
      set_lock ''/d/f'' \<lparr> ml_readers = 0, ml_writer = False \<rparr> sample_files"
    by (simp add: release_lock_def set_lock_again)
      (simp add: set_lock_def gm_put_def gm_get_def update_conv)
  note defs = contended_confs_def Let_def lock_start_def first_call_def waiting_call_def lock_turn_def
    try_acquire_def lock_of_def contended_def released_def k(2) set_lock_again
  have "lock_step root_env (contended_confs ! 0) (contended_confs ! 1)"
    using lock_step.call [of root_env "''/s/f''" "lock_start sample_files" "''/d/f''" False False] k(1)
    by (simp add: defs)
  moreover have "lock_step root_env (contended_confs ! 1) (contended_confs ! 2)"
    using lock_turn_step [of first_call "contended_confs ! 1" root_env]
    by (simp add: contended_confs_def Let_def first_call_def)
  moreover have "lock_step root_env (contended_confs ! 2) (contended_confs ! 3)"
    using lock_step.call [of root_env "''/s/f''" "contended_confs ! 2" "''/d/f''" True True] k(3)
    by (simp add: defs numeral_2_eq_2)
  moreover have "lock_step root_env (contended_confs ! 3) (contended_confs ! 4)"
    using lock_turn_step [of waiting_call "contended_confs ! 3" root_env] by (simp add: defs)
  moreover have "lock_step root_env (contended_confs ! 4) (contended_confs ! 5)"
    using lock_step.close [of "lock_of first_call" contended root_env]
    using release by (simp add: defs)
  moreover have "lock_step root_env (contended_confs ! 5) (contended_confs ! 6)"
    using lock_turn_step [of waiting_call released root_env]
    by (simp add: contended_confs_def Let_def released_def) (simp add: waiting_call_def)
  moreover have "i \<in> {0, 1, 2, 3, 4, 5}" using assms by auto
  ultimately show ?thesis by (auto simp: eval_nat_numeral)
qed

lemma contended_lock_run: "lock_run root_env sample_files contended_run"
proof -
  have "contended_run (Suc i) = contended_run i \<or> lock_step root_env (contended_run i) (contended_run (Suc i))" for i
    using contended_steps [of i] by (cases "i < 6") (simp_all add: contended_run_def min_def)
  then show ?thesis by (simp add: lock_run_def contended_run_def contended_confs_def Let_def)
qed

lemma contended_end: "j \<ge> 6 \<Longrightarrow> lc_calls (contended_run j) = []"
  by (simp add: contended_run_def contended_confs_def Let_def lock_turn_def released_def contended_def
      waiting_call_def try_acquire_def)

lemma contended_fair: "lock_fair contended_run"
  unfolding lock_fair_def
proof (intro allI impI)
  fix w i assume "lw_awake w \<and> (\<forall>j \<ge> i. w \<in> set (lc_calls (contended_run j)))"
  then have "w \<in> set (lc_calls (contended_run (max i 6)))" by simp
  then show "\<exists>j \<ge> i. contended_run (Suc j) = lock_turn w (contended_run j)"
    using contended_end [of "max i 6"] by simp
qed

lemma contended_reach: "lock_reach root_env (lock_start sample_files) contended"
  using lock_run_reach [OF contended_lock_run, of 4]
  by (simp add: contended_run_def contended_confs_def Let_def)

lemma no_locks: "fileLocks sample_files = gm_empty"
  by code_simp

lemma exclusive_lock_is_alone_witness:
  "filter (\<lambda>k. lk_key k = ''/d/f'') (lc_held contended) = [\<lparr> lk_id = 0, lk_key = ''/d/f'', lk_shared = False \<rparr>]"
  using exclusive_lock_is_alone [OF contended_reach no_locks, of "\<lparr> lk_id = 0, lk_key = ''/d/f'', lk_shared = False \<rparr>"]
  by (simp add: contended_def)

text \<open>C19: A blocked lock call gets its lock once nothing is in its way any more.  Take an infinite
  run of lock calls, turns and closes in which no call that stays awake is denied its turn for
  ever.  If a blocking call is pending, and from some moment on no lock is held on its file that
  conflicts with it (any lock for an exclusive request, an exclusive one for a shared request),
  then it acquires the lock.  A call sleeps only while a conflicting lock is held, and the close
  of that lock wakes it, so the premise on turns need speak of calls that are awake only.
  Nothing orders the waiting calls: a call can starve while others keep taking conflicting
  locks, and the premise excludes that.\<close>

theorem blocked_lock_proceeds:
  assumes "lock_run e m r" "lock_fair r" "fileLocks m = gm_empty"
    and "pending_lock w (r i)" "lw_block w"
    and "\<forall>j \<ge> k. pending_lock w (r j) \<longrightarrow> (\<forall>l \<in> set (lc_held (r j)). \<not> in_the_way l w)"
  shows "\<exists>j > i. lock_of w \<in> set (lc_held (r j))"
  using fair_grant [OF assms(1-5)] assms(6) by blast

lemma blocked_lock_proceeds_witness:
  "\<exists>j > 4. lock_of waiting_call \<in> set (lc_held (contended_run j))"
proof -
  have p: "pending_lock waiting_call (contended_run 4)"
    by (simp add: contended_run_def contended_confs_def Let_def contended_def pending_lock_def)
  have "\<forall>j \<ge> 6. pending_lock waiting_call (contended_run j) \<longrightarrow>
      (\<forall>l \<in> set (lc_held (contended_run j)). \<not> in_the_way l waiting_call)"
    using contended_end by (simp add: pending_lock_def)
  from blocked_lock_proceeds [OF contended_lock_run contended_fair no_locks p _ this]
  show ?thesis by (simp add: waiting_call_def)
qed

section \<open>Subscriptions\<close>

datatype watch_act = Emit WatchEvent | Receive

text \<open>What the subscriber received, and its subscription, after a sequence of changes and receives.\<close>

fun watch_run :: "watch_act list \<Rightarrow> WatchEvent list \<times> memWatcher \<Rightarrow> WatchEvent list \<times> memWatcher" where
  "watch_run [] (got, w) = (got, w)"
| "watch_run (Emit ev # acts) (got, w) = watch_run acts (got, deliver ev w)"
| "watch_run (Receive # acts) (got, w) =
    (case mw_ch w of [] \<Rightarrow> watch_run acts (got, w) | ev # evs \<Rightarrow> watch_run acts (got @ [ev], w\<lparr>mw_ch := evs\<rparr>))"

fun emitted :: "watch_act list \<Rightarrow> memWatcher \<Rightarrow> WatchEvent list" where
  "emitted [] w = []"
| "emitted (Emit ev # acts) w = (if covers w (we_Path ev) then ev # emitted acts w else emitted acts w)"
| "emitted (Receive # acts) w = emitted acts w"

text \<open>How a stream accounts for the changes es: it is cut into runs of changes that were kept, each
  followed by the marker in the place of a nonempty run that was lost; the last run may have
  lost changes at its end that no marker stands for yet.\<close>

definition accounts ::
  "WatchEvent \<Rightarrow> (WatchEvent list \<times> WatchEvent list) list \<Rightarrow> WatchEvent list \<Rightarrow> WatchEvent list \<Rightarrow>
   WatchEvent list \<Rightarrow> WatchEvent list \<Rightarrow> bool" where
  "accounts M gaps kept lost es ds =
    (es = concat (map (\<lambda>(k, l). k @ l) gaps) @ kept @ lost \<and>
     ds = concat (map (\<lambda>(k, l). k @ [M]) gaps) @ kept \<and>
     (\<forall>(k, l) \<in> set gaps. l \<noteq> []))"

definition stream_ok :: "WatchEvent list \<Rightarrow> WatchEvent list \<Rightarrow> memWatcher \<Rightarrow> bool" where
  "stream_ok es ds w =
    ((\<exists>gaps kept lost. accounts (overflow_marker (mw_root w)) gaps kept lost es ds \<and>
        (mw_overflow w \<longleftrightarrow> lost \<noteq> [])) \<and>
     length (mw_ch w) \<le> watchBufferSize \<and>
     (length es \<le> watchBufferSize \<longrightarrow> ds = es \<and> \<not> mw_overflow w))"

lemma accounts_keep: "accounts M gaps kept [] es ds \<Longrightarrow> accounts M gaps (kept @ [ev]) [] (es @ [ev]) (ds @ [ev])"
  by (simp add: accounts_def)

lemma accounts_lose: "accounts M gaps kept lost es ds \<Longrightarrow> accounts M gaps kept (lost @ [ev]) (es @ [ev]) ds"
  by (simp add: accounts_def)

lemma accounts_mark: "accounts M gaps kept lost es ds \<Longrightarrow> lost \<noteq> [] \<Longrightarrow>
    accounts M (gaps @ [(kept, lost)]) [] [] es (ds @ [M])"
  by (auto simp: accounts_def)

lemma deliver_fixed [simp]: "mw_root (deliver ev w) = mw_root w" "mw_recursive (deliver ev w) = mw_recursive w"
  by (simp_all add: deliver_def split: prod.split)

lemma covers_deliver [simp]: "covers (deliver ev w) p = covers w p" "covers (w\<lparr>mw_ch := c\<rparr>) p = covers w p"
  by (simp_all add: covers_def)

lemma emitted_cong: "mw_root w' = mw_root w \<Longrightarrow> mw_recursive w' = mw_recursive w \<Longrightarrow> emitted acts w' = emitted acts w"
  by (induction acts w rule: emitted.induct) (simp_all add: covers_def)

text \<open>The four outcomes of a covered change.\<close>

lemma deliver_cases:
  assumes "covers w (we_Path ev)" "length (mw_ch w) \<le> watchBufferSize"
  obtains
    (kept) "\<not> mw_overflow w" "length (mw_ch w) < watchBufferSize" "mw_ch (deliver ev w) = mw_ch w @ [ev]"
      "\<not> mw_overflow (deliver ev w)"
  | (full) "length (mw_ch w) = watchBufferSize" "mw_ch (deliver ev w) = mw_ch w" "mw_overflow (deliver ev w)"
  | (marked) "mw_overflow w" "Suc (length (mw_ch w)) < watchBufferSize" "\<not> mw_overflow (deliver ev w)"
      "mw_ch (deliver ev w) = mw_ch w @ [overflow_marker (mw_root w), ev]"
  | (again) "mw_overflow w" "Suc (length (mw_ch w)) = watchBufferSize" "mw_overflow (deliver ev w)"
      "mw_ch (deliver ev w) = mw_ch w @ [overflow_marker (mw_root w)]"
  using assms
  by (cases "mw_overflow w"; cases "length (mw_ch w) < watchBufferSize"; cases "Suc (length (mw_ch w)) < watchBufferSize")
    (auto simp: deliver_def sendWatch_def send_event_def try_send_def)

lemma deliver_stream:
  assumes "stream_ok es (got @ mw_ch w) w" "covers w (we_Path ev)"
  shows "stream_ok (es @ [ev]) (got @ mw_ch (deliver ev w)) (deliver ev w)"
proof -
  let ?M = "overflow_marker (mw_root w)"
  obtain gaps kept lost where acc: "accounts ?M gaps kept lost es (got @ mw_ch w)" "mw_overflow w \<longleftrightarrow> lost \<noteq> []"
    and len: "length (mw_ch w) \<le> watchBufferSize"
    and few: "length es \<le> watchBufferSize \<Longrightarrow> got @ mw_ch w = es \<and> \<not> mw_overflow w"
    using assms(1) unfolding stream_ok_def by blast
  have room: "length (mw_ch w) < watchBufferSize" if "length (es @ [ev]) \<le> watchBufferSize"
  proof -
    have "length (got @ mw_ch w) < watchBufferSize" using few that by simp
    then show ?thesis by simp
  qed
  show ?thesis
    using assms(2) len
  proof (cases rule: deliver_cases)
    case kept
    then show ?thesis
      using accounts_keep [of ?M gaps "kept" es "got @ mw_ch w" ev] acc few unfolding stream_ok_def by fastforce
  next
    case full
    then show ?thesis
      using accounts_lose [OF acc(1), of ev] room len unfolding stream_ok_def by fastforce
  next
    case marked
    then show ?thesis
      using accounts_keep [OF accounts_mark [OF acc(1)], of ev] acc(2) few unfolding stream_ok_def by fastforce
  next
    case again
    then show ?thesis
      using accounts_lose [OF accounts_mark [OF acc(1)], of ev] acc(2) few unfolding stream_ok_def by fastforce
  qed
qed

lemma watch_run_stream:
  assumes "stream_ok es (got @ mw_ch w) w" "watch_run acts (got, w) = (got', w')"
  shows "stream_ok (es @ emitted acts w) (got' @ mw_ch w') w' \<and> mw_root w' = mw_root w \<and>
    mw_recursive w' = mw_recursive w"
  using assms
proof (induction acts arbitrary: es got w)
  case Nil
  then show ?case by simp
next
  case (Cons a acts)
  note IH = Cons.IH and prems = Cons.prems
  show ?case
  proof (cases a)
    case (Emit ev)
    have em: "emitted acts (deliver ev w) = emitted acts w" by (rule emitted_cong) simp_all
    have run: "watch_run acts (got, deliver ev w) = (got', w')" using prems(2) Emit by simp
    show ?thesis
    proof (cases "covers w (we_Path ev)")
      case True
      from IH [OF deliver_stream [OF prems(1) True] run] show ?thesis using Emit True em by simp
    next
      case False
      then have "deliver ev w = w" by (simp add: deliver_def)
      then show ?thesis using IH [OF prems(1), of] run Emit False by simp
    qed
  next
    case Receive
    show ?thesis
    proof (cases "mw_ch w")
      case Nil
      then show ?thesis using IH [OF prems(1)] prems(2) Receive by simp
    next
      case (Cons ev evs)
      let ?w = "w\<lparr>mw_ch := evs\<rparr>"
      have "stream_ok es ((got @ [ev]) @ mw_ch ?w) ?w"
        using prems(1) Cons by (simp add: stream_ok_def)
      moreover have "watch_run acts (got @ [ev], ?w) = (got', w')"
        using prems(2) Receive Cons by simp
      ultimately have "stream_ok (es @ emitted acts ?w) (got' @ mw_ch w') w' \<and> mw_root w' = mw_root ?w \<and>
          mw_recursive w' = mw_recursive ?w"
        by (rule IH)
      moreover have "emitted acts ?w = emitted acts w" by (rule emitted_cong) simp_all
      ultimately show ?thesis using Receive by simp
    qed
  qed
qed

lemma stream_start:
  assumes "mw_ch w = []" "\<not> mw_overflow w"
  shows "stream_ok [] ([] @ mw_ch w) w"
proof -
  have "accounts (overflow_marker (mw_root w)) [] [] [] [] ([] @ mw_ch w)" using assms(1) by (simp add: accounts_def)
  then show ?thesis using assms unfolding stream_ok_def by auto
qed

lemma watch_run_snoc: "watch_run (acts @ [a]) q = watch_run [a] (watch_run acts q)"
  by (induction acts q rule: watch_run.induct) (auto split: list.splits)

text \<open>After a covered change a marker is owed only where the buffer is full.\<close>

lemma owed_when_full:
  assumes "watch_run (acts @ [Emit ev]) ([], w) = (got, w')" "mw_ch w = []" "\<not> mw_overflow w"
    and "covers w (we_Path ev)" "mw_overflow w'"
  shows "length (mw_ch w') = watchBufferSize"
proof -
  obtain got0 w0 where q: "watch_run acts ([], w) = (got0, w0)" by fastforce
  from watch_run_stream [OF stream_start [OF assms(2,3)] q] have ok: "length (mw_ch w0) \<le> watchBufferSize" "mw_root w0 = mw_root w"
    "mw_recursive w0 = mw_recursive w"
    by (simp_all add: stream_ok_def)
  have w': "w' = deliver ev w0" using assms(1) q by (simp add: watch_run_snoc)
  have "covers w0 (we_Path ev)" using assms(4) ok(2,3) by (simp add: covers_def)
  then show ?thesis using ok(1) assms(5) unfolding w' by (cases rule: deliver_cases) auto
qed

text \<open>C21: A subscriber misses no change silently, whatever the pace of changes and receives.  What
  it received, followed by what is still buffered, is the sequence of the changes its
  subscription covers, in order, except that each run of lost changes is replaced by one
  overflow marker in its place.  Only changes lost at the very end can be unmarked so far; then
  the subscription remembers that it owes a marker, and right after a covered change it owes one
  only when the buffer of watchBufferSize events is full, so a change that finds room delivers
  the marker first.  No change is lost while no more than watchBufferSize were made.\<close>

theorem subscriber_misses_nothing_silently:
  assumes "watch_run acts ([], w) = (got, w')" "mw_ch w = []" "\<not> mw_overflow w"
  shows "(\<exists>gaps kept lost.
      emitted acts w = concat (map (\<lambda>(k, l). k @ l) gaps) @ kept @ lost \<and>
      got @ mw_ch w' = concat (map (\<lambda>(k, l). k @ [overflow_marker (mw_root w)]) gaps) @ kept \<and>
      (\<forall>(k, l) \<in> set gaps. l \<noteq> []) \<and> (mw_overflow w' \<longleftrightarrow> lost \<noteq> [])) \<and>
    (\<forall>before ev. acts = before @ [Emit ev] \<and> covers w (we_Path ev) \<and> mw_overflow w' \<longrightarrow>
      length (mw_ch w') = watchBufferSize) \<and>
    (length (emitted acts w) \<le> watchBufferSize \<longrightarrow> got @ mw_ch w' = emitted acts w)"
proof -
  from watch_run_stream [OF stream_start [OF assms(2,3)] assms(1)]
  have ok: "stream_ok (emitted acts w) (got @ mw_ch w') w'" "mw_root w' = mw_root w" by simp_all
  have "\<forall>before ev. acts = before @ [Emit ev] \<and> covers w (we_Path ev) \<and> mw_overflow w' \<longrightarrow>
      length (mw_ch w') = watchBufferSize"
    using owed_when_full assms by blast
  then show ?thesis using ok unfolding stream_ok_def accounts_def by (simp add: ok(2))
qed

lemma subscriber_misses_nothing_silently_witness:
  "let w = \<lparr> mw_addr = 0, mw_root = ''/d'', mw_ch = [], mw_recursive = True, mw_overflow = False \<rparr>;
       ev = \<lparr> we_Op = ''write'', we_Path = ''/d/f'' \<rparr>;
       (got, w') = watch_run [Emit ev, Receive, Emit ev] ([], w)
   in got @ mw_ch w' = [ev, ev]"
proof -
  let ?w = "\<lparr> mw_addr = 0, mw_root = ''/d'', mw_ch = [], mw_recursive = True, mw_overflow = False \<rparr>"
  let ?ev = "\<lparr> we_Op = ''write'', we_Path = ''/d/f'' \<rparr>"
  define q where "q = watch_run [Emit ?ev, Receive, Emit ?ev] ([], ?w)"
  have r: "watch_run [Emit ?ev, Receive, Emit ?ev] ([], ?w) = (fst q, snd q)" by (simp add: q_def)
  have f: "emitted [Emit ?ev, Receive, Emit ?ev] ?w = [?ev, ?ev]" by code_simp
  have "length (emitted [Emit ?ev, Receive, Emit ?ev] ?w) \<le> watchBufferSize"
    unfolding f by (simp add: watchBufferSize_def)
  then have "fst q @ mw_ch (snd q) = emitted [Emit ?ev, Receive, Emit ?ev] ?w"
    using subscriber_misses_nothing_silently [OF r] by simp
  then show ?thesis unfolding f by (simp only: Let_def case_prod_beta flip: q_def)
qed

end
