(* ===== verification/Overlay_Files.thy ===== *)
theory Overlay_Files
  imports Mem_Calls
begin

text \<open>
  The overlay file system OverlayFileOps (lang/go/capabilities/overlay.go): a
  writable upper layer over a lower one that is only read, with whiteouts for
  what was deleted below.  A layer is an interface value: the methods of an
  implementation and the state they work on.
\<close>

section \<open>State\<close>

record 's FileOps =
  fo_run :: "file_call \<Rightarrow> 's \<Rightarrow> file_result fs_result \<times> 's"
  fo_self :: 's

record ('u, 'l) OverlayFileOps =
  Upper :: "'u FileOps"
  Lower :: "'l FileOps"
  whiteouts :: "(string, bool) gomap"

type_synonym ('u, 'l, 'a) ov = "('u, 'l) OverlayFileOps \<Rightarrow> 'a fs_result \<times> ('u, 'l) OverlayFileOps"

definition NewOverlay :: "'u FileOps \<Rightarrow> 'l FileOps \<Rightarrow> ('u, 'l) OverlayFileOps" where
  "NewOverlay upper lower = \<lparr> Upper = upper, Lower = lower, whiteouts = gm_empty \<rparr>"

section \<open>Steps\<close>

text \<open>A value, an error, a step whose error ends the call, and one whose outcome is looked at.\<close>

definition ov_ret :: "'a \<Rightarrow> ('u, 'l, 'a) ov" where
  "ov_ret x s = (Inr x, s)"

definition ov_fail :: "fs_error \<Rightarrow> ('u, 'l, 'a) ov" where
  "ov_fail err s = (Inl err, s)"

definition ov_bind :: "('u, 'l, 'a) ov \<Rightarrow> ('a \<Rightarrow> ('u, 'l, 'b) ov) \<Rightarrow> ('u, 'l, 'b) ov" where
  "ov_bind m f s = (case m s of (Inl err, s) \<Rightarrow> (Inl err, s) | (Inr x, s) \<Rightarrow> f x s)"

definition ov_try :: "('u, 'l, 'a) ov \<Rightarrow> ('a fs_result \<Rightarrow> ('u, 'l, 'b) ov) \<Rightarrow> ('u, 'l, 'b) ov" where
  "ov_try m f s = (case m s of (r, s) \<Rightarrow> f r s)"

definition on_upper :: "file_call \<Rightarrow> ('u, 'l, file_result) ov" where
  "on_upper c s =
    (case fo_run (Upper s) c (fo_self (Upper s)) of (r, u) \<Rightarrow> (r, s\<lparr>Upper := (Upper s)\<lparr>fo_self := u\<rparr>\<rparr>))"

definition on_lower :: "file_call \<Rightarrow> ('u, 'l, file_result) ov" where
  "on_lower c s =
    (case fo_run (Lower s) c (fo_self (Lower s)) of (r, l) \<Rightarrow> (r, s\<lparr>Lower := (Lower s)\<lparr>fo_self := l\<rparr>\<rparr>))"

definition setWhiteout :: "string \<Rightarrow> ('u, 'l, unit) ov" where
  "setWhiteout p s = (Inr (), s\<lparr>whiteouts := gm_put p True (whiteouts s)\<rparr>)"

definition clearWhiteout :: "string \<Rightarrow> ('u, 'l, unit) ov" where
  "clearWhiteout p s = (Inr (), s\<lparr>whiteouts := gm_del p (whiteouts s)\<rparr>)"

definition isWhiteout :: "(string, bool) gomap \<Rightarrow> string \<Rightarrow> bool" where
  "isWhiteout w p = (gm_get w p = Some True)"

text \<open>The value of a result, of the type the method has.\<close>

fun as_info :: "file_result \<Rightarrow> FileInfo" where
  "as_info (RInfo i) = i" | "as_info _ = zero_FileInfo"

fun as_infos :: "file_result \<Rightarrow> FileInfo list" where
  "as_infos (RInfos is) = is" | "as_infos _ = []"

fun as_bytes :: "file_result \<Rightarrow> 8 word list" where
  "as_bytes (RBytes b) = b" | "as_bytes _ = []"

fun as_string :: "file_result \<Rightarrow> string" where
  "as_string (RString s) = s" | "as_string _ = []"

fun as_strings :: "file_result \<Rightarrow> string list" where
  "as_strings (RStrings ss) = ss" | "as_strings _ = []"

section \<open>Paths\<close>

definition resolve_ov :: "string \<Rightarrow> ('u, 'l, string) ov" where
  "resolve_ov path = ov_try (on_upper (ResolvePath path))
    (\<lambda>r. ov_ret (case r of Inl _ \<Rightarrow> filepath_Clean path | Inr x \<Rightarrow> as_string x))"

function hidden_at :: "(string, bool) gomap \<Rightarrow> string \<Rightarrow> bool" where
  "hidden_at w p =
    (if isWhiteout w p then True
     else let parent = filepath_Dir p
       in if parent = p \<or> isMemRoot parent then False else hidden_at w parent)"
  by pat_completeness auto
termination
proof (relation "measure (\<lambda>(w, p). dir_measure p)")
  fix w p x
  assume x: "x = filepath_Dir p" and ne: "\<not> (x = p \<or> isMemRoot x)"
  have "filepath_Dir [] = ''.''"
    by (simp add: filepath_Dir_def upto_slash_def filepath_Clean_def filepath_IsAbs_def go_has_prefix_def clean_str_def)
  then have "p \<noteq> ''.''" "p \<noteq> [slash]" "p \<noteq> []"
    using x ne by (auto simp: isMemRoot_def)
  then show "((w, x), w, p) \<in> measure (\<lambda>(w, p). dir_measure p)" using Dir_measure x by simp
qed simp

declare hidden_at.simps [simp del]

definition hidden :: "string \<Rightarrow> ('u, 'l, bool) ov" where
  "hidden resolved s = (Inr (hidden_at (whiteouts s) resolved), s)"

definition inUpper :: "string \<Rightarrow> ('u, 'l, bool) ov" where
  "inUpper path = ov_try (on_upper (Stat path False)) (\<lambda>r. ov_ret (case r of Inl _ \<Rightarrow> False | Inr _ \<Rightarrow> True))"

text \<open>Whether a whiteout hides a path.\<close>

definition hidden_path :: "string \<Rightarrow> ('u, 'l, bool) ov" where
  "hidden_path path = ov_bind (resolve_ov path) hidden"

text \<open>The body of Stat after the trailing links have been followed.\<close>

definition stat_at :: "string \<Rightarrow> bool \<Rightarrow> ('u, 'l, file_result) ov" where
  "stat_at path follow =
    ov_bind (inUpper path) (\<lambda>up.
      if up then on_upper (Stat path follow)
      else ov_bind (hidden_path path) (\<lambda>hid.
        if hid then ov_fail (PathError ''stat'' path ErrNotExist)
        else on_lower (Stat path follow)))"

text \<open>The loop of deref, whose budget counts down.\<close>

fun deref_loop :: "nat \<Rightarrow> string \<Rightarrow> ('u, 'l, string) ov" where
  "deref_loop 0 path = ov_fail (PathError ''open'' path errMemTooManyLinks)"
| "deref_loop (Suc n) path =
    ov_try (stat_at path False) (\<lambda>r.
      case r of
        Inl _ \<Rightarrow> ov_ret path
      | Inr x \<Rightarrow>
          (let fi = as_info x; t = fi_Target fi in
           if \<not> fi_Symlink fi then ov_ret path
           else deref_loop n
             (filepath_Clean (if \<not> filepath_IsAbs t then filepath_Join (filepath_Dir path) t else t))))"

definition deref :: "string \<Rightarrow> ('u, 'l, string) ov" where
  "deref path = deref_loop 41 path"

section \<open>Reading\<close>

definition Stat_ov :: "string \<Rightarrow> bool \<Rightarrow> ('u, 'l, file_result) ov" where
  "Stat_ov path follow =
    (if follow then ov_bind (deref path) (\<lambda>path. stat_at path follow) else stat_at path follow)"

text \<open>The layer a read goes to, under the name a refusal carries.\<close>

definition read_side :: "string \<Rightarrow> (string \<Rightarrow> file_call) \<Rightarrow> string \<Rightarrow> ('u, 'l, file_result) ov" where
  "read_side op c path =
    ov_bind (deref path) (\<lambda>path.
    ov_bind (inUpper path) (\<lambda>up.
      if up then on_upper (c path)
      else ov_bind (hidden_path path) (\<lambda>hid.
        if hid then ov_fail (PathError op path ErrNotExist) else on_lower (c path))))"

definition ReadFile_ov :: "string \<Rightarrow> ('u, 'l, file_result) ov" where
  "ReadFile_ov = read_side ''open'' ReadFile"

definition put_info :: "FileInfo \<Rightarrow> (string, FileInfo) gomap \<Rightarrow> (string, FileInfo) gomap" where
  "put_info fi merged = gm_put (fi_Name fi) fi merged"

definition merge_infos :: "(string, bool) gomap \<Rightarrow> string \<Rightarrow> FileInfo list \<Rightarrow> FileInfo list \<Rightarrow> FileInfo list" where
  "merge_infos w resolved lowerInfos upperInfos =
    (let merged = fold put_info upperInfos
           (fold put_info (filter (\<lambda>fi. \<not> isWhiteout w (filepath_Join resolved (fi_Name fi))) lowerInfos) gm_empty)
     in map (\<lambda>n. the (gm_get merged n)) (sort (gm_keys merged)))"

definition ReadDir_ov :: "string \<Rightarrow> ('u, 'l, file_result) ov" where
  "ReadDir_ov path =
    ov_bind (deref path) (\<lambda>path.
    ov_bind (resolve_ov path) (\<lambda>resolved.
    ov_try (on_upper (ReadDir path)) (\<lambda>up.
    ov_bind (hidden resolved) (\<lambda>hid.
    ov_try (if hid then ov_fail (PathError ''readdir'' path ErrNotExist) else on_lower (ReadDir path)) (\<lambda>low.
      case (up, low) of
        (Inl err, Inl _) \<Rightarrow> ov_fail err
      | _ \<Rightarrow> (\<lambda>s. ov_ret (RInfos (merge_infos (whiteouts s) resolved
                (case low of Inl _ \<Rightarrow> [] | Inr x \<Rightarrow> as_infos x)
                (case up of Inl _ \<Rightarrow> [] | Inr x \<Rightarrow> as_infos x))) s))))))"

definition XattrGet_ov :: "string \<Rightarrow> string \<Rightarrow> ('u, 'l, file_result) ov" where
  "XattrGet_ov path name = read_side ''xattr-get'' (\<lambda>p. XattrGet p name) path"

definition XattrList_ov :: "string \<Rightarrow> ('u, 'l, file_result) ov" where
  "XattrList_ov path = read_side ''xattr-list'' XattrList path"

section \<open>Copying up\<close>

fun copy_xattrs :: "string \<Rightarrow> string list \<Rightarrow> ('u, 'l, unit) ov" where
  "copy_xattrs path [] = ov_ret ()"
| "copy_xattrs path (name # names) =
    ov_try (on_lower (XattrGet path name)) (\<lambda>g.
    ov_try (case g of Inl _ \<Rightarrow> ov_ret RNone | Inr v \<Rightarrow> on_upper (XattrSet path name (as_bytes v))) (\<lambda>_.
      copy_xattrs path names))"

definition copyUp :: "string \<Rightarrow> ('u, 'l, file_result) ov" where
  "copyUp path =
    ov_bind (on_lower (Stat path True)) (\<lambda>x.
      let fi = as_info x; perm = and (fi_Mode fi) ModePerm in
      if fi_IsDir fi then on_upper (MkdirAll path perm)
      else
        ov_bind (on_lower (ReadFile path)) (\<lambda>data.
        ov_bind (on_upper (WriteFile path (as_bytes data) perm)) (\<lambda>_.
        ov_try (if fi_UID fi \<noteq> -1 \<or> fi_GID fi \<noteq> -1
                then on_upper (Chown path (fi_UID fi) (fi_GID fi) True) else ov_ret RNone) (\<lambda>_.
        ov_try (on_lower (XattrList path)) (\<lambda>names.
        ov_bind (case names of Inl _ \<Rightarrow> ov_ret () | Inr x \<Rightarrow> copy_xattrs path (as_strings x)) (\<lambda>_.
          on_upper (Chtimes path (fi_ModTime fi) (fi_ModTime fi))))))))"

text \<open>The first number bounds the depth of the recursion.\<close>

fun copyUpTree :: "nat \<Rightarrow> string \<Rightarrow> ('u, 'l, unit) ov"
  and copy_children :: "nat \<Rightarrow> string \<Rightarrow> FileInfo list \<Rightarrow> ('u, 'l, unit) ov" where
  "copyUpTree 0 path = ov_fail NoReturn"
| "copyUpTree (Suc n) path =
    ov_bind (on_lower (Stat path True)) (\<lambda>x.
      let fi = as_info x in
      if \<not> fi_IsDir fi then
        ov_bind (inUpper path) (\<lambda>up. if up then ov_ret () else ov_bind (copyUp path) (\<lambda>_. ov_ret ()))
      else
        ov_bind (on_upper (MkdirAll path (and (fi_Mode fi) ModePerm))) (\<lambda>_.
        ov_bind (on_lower (ReadDir path)) (\<lambda>infos. copy_children n path (as_infos infos))))"
| "copy_children n path [] = ov_ret ()"
| "copy_children n path (child # cs) =
    ov_bind (resolve_ov path) (\<lambda>resolved s.
      (if isWhiteout (whiteouts s) (filepath_Join resolved (fi_Name child)) then copy_children n path cs
       else ov_bind (copyUpTree n (filepath_Join path (fi_Name child))) (\<lambda>_. copy_children n path cs)) s)"

definition copyUpIfLowerOnly :: "string \<Rightarrow> ('u, 'l, unit) ov" where
  "copyUpIfLowerOnly path =
    ov_bind (inUpper path) (\<lambda>up.
      if up then ov_ret ()
      else ov_bind (hidden_path path) (\<lambda>hid.
        if hid then ov_ret ()
        else ov_try (on_lower (Stat path False)) (\<lambda>r.
          case r of Inl _ \<Rightarrow> ov_ret () | Inr _ \<Rightarrow> ov_bind (copyUp path) (\<lambda>_. ov_ret ()))))"

section \<open>Changing\<close>

text \<open>A change of the upper layer that makes the path visible again.\<close>

definition unhide :: "string \<Rightarrow> ('u, 'l, unit) ov" where
  "unhide path = ov_bind (resolve_ov path) clearWhiteout"

definition WriteFile_ov :: "string \<Rightarrow> 8 word list \<Rightarrow> FileMode \<Rightarrow> ('u, 'l, file_result) ov" where
  "WriteFile_ov path data perm =
    ov_bind (deref path) (\<lambda>path.
    ov_bind (on_upper (WriteFile path data perm)) (\<lambda>_.
    ov_bind (unhide path) (\<lambda>_. ov_ret RNone)))"

definition MkdirAll_ov :: "string \<Rightarrow> FileMode \<Rightarrow> ('u, 'l, file_result) ov" where
  "MkdirAll_ov path perm =
    ov_bind (on_upper (MkdirAll path perm)) (\<lambda>_. ov_bind (unhide path) (\<lambda>_. ov_ret RNone))"

definition Remove_ov :: "string \<Rightarrow> bool \<Rightarrow> ('u, 'l, file_result) ov" where
  "Remove_ov path recursive =
    ov_bind (resolve_ov path) (\<lambda>resolved.
    ov_bind (inUpper path) (\<lambda>upperKnows.
    ov_bind (hidden resolved) (\<lambda>hid.
    ov_try (if hid then ov_fail (PathError ''stat'' path ErrNotExist) else on_lower (Stat path False)) (\<lambda>low.
      let lowerVisible = (case low of Inl _ \<Rightarrow> False | Inr _ \<Rightarrow> True) in
      if \<not> upperKnows \<and> \<not> lowerVisible then
        (if recursive then ov_ret RNone else ov_fail (PathError ''remove'' path ErrNotExist))
      else
        ov_try (if recursive then ov_ret False
                else ov_bind (Stat_ov path False) (\<lambda>x.
                  if fi_IsDir (as_info x)
                  then ov_bind (ReadDir_ov path) (\<lambda>infos. ov_ret (as_infos infos \<noteq> []))
                  else ov_ret False)) (\<lambda>full.
          if full = Inr True then ov_fail (PathError ''remove'' path errMemNotEmpty)
          else
            ov_bind (if upperKnows then on_upper (Remove_file path recursive) else ov_ret RNone) (\<lambda>_.
              if lowerVisible then ov_bind (setWhiteout resolved) (\<lambda>_. ov_ret RNone) else ov_ret RNone))))))"

definition Rename_ov :: "nat \<Rightarrow> string \<Rightarrow> string \<Rightarrow> ('u, 'l, file_result) ov" where
  "Rename_ov n oldPath newPath =
    ov_bind (resolve_ov oldPath) (\<lambda>oldResolved.
    ov_bind (inUpper oldPath) (\<lambda>up.
    ov_bind (hidden oldResolved) (\<lambda>hid.
    ov_bind (if hid then ov_ret False
             else ov_try (on_lower (Stat oldPath False)) (\<lambda>r.
               case r of
                 Inl _ \<Rightarrow> ov_ret False
               | Inr x \<Rightarrow>
                   if fi_IsDir (as_info x) then ov_bind (copyUpTree n oldPath) (\<lambda>_. ov_ret True)
                   else if \<not> up then ov_bind (copyUp oldPath) (\<lambda>_. ov_ret True)
                   else ov_ret True)) (\<lambda>lowerVisible.
      if \<not> up \<and> \<not> lowerVisible then ov_fail (PathError ''rename'' oldPath ErrNotExist)
      else
        ov_bind (on_upper (Rename oldPath newPath)) (\<lambda>_.
        ov_try (on_lower (Stat oldPath False)) (\<lambda>r.
        ov_bind (case r of Inl _ \<Rightarrow> ov_ret () | Inr _ \<Rightarrow> setWhiteout oldResolved) (\<lambda>_.
        ov_bind (unhide newPath) (\<lambda>_. ov_ret RNone))))))))"

definition Symlink_ov :: "string \<Rightarrow> string \<Rightarrow> ('u, 'l, file_result) ov" where
  "Symlink_ov target linkPath =
    ov_try (Stat_ov linkPath False) (\<lambda>r.
      case r of
        Inr _ \<Rightarrow> ov_fail (PathError ''symlink'' linkPath ErrExist)
      | Inl _ \<Rightarrow>
          ov_bind (on_upper (Symlink target linkPath)) (\<lambda>_. ov_bind (unhide linkPath) (\<lambda>_. ov_ret RNone)))"

definition Link_ov :: "string \<Rightarrow> string \<Rightarrow> ('u, 'l, file_result) ov" where
  "Link_ov target linkPath =
    ov_try (Stat_ov linkPath False) (\<lambda>r.
      case r of
        Inr _ \<Rightarrow> ov_fail (PathError ''link'' linkPath ErrExist)
      | Inl _ \<Rightarrow>
          ov_bind (inUpper target) (\<lambda>up.
          ov_bind (if up then ov_ret RNone
                   else ov_bind (hidden_path target) (\<lambda>hid.
                     if hid then ov_fail (PathError ''link'' target ErrNotExist) else copyUp target)) (\<lambda>_.
          ov_bind (on_upper (Link target linkPath)) (\<lambda>_.
          ov_bind (unhide linkPath) (\<lambda>_. ov_ret RNone)))))"

definition mutateInUpper :: "string \<Rightarrow> string \<Rightarrow> (string \<Rightarrow> file_call) \<Rightarrow> ('u, 'l, file_result) ov" where
  "mutateInUpper path op c =
    ov_bind (deref path) (\<lambda>path.
    ov_bind (inUpper path) (\<lambda>up.
    ov_bind (if up then ov_ret RNone
             else ov_bind (hidden_path path) (\<lambda>hid.
               if hid then ov_fail (PathError op path ErrNotExist)
               else ov_try (on_lower (Stat path False)) (\<lambda>r.
                 case r of Inl _ \<Rightarrow> ov_fail (PathError op path ErrNotExist) | Inr _ \<Rightarrow> copyUp path))) (\<lambda>_.
      on_upper (c path))))"

definition Temp_ov :: "file_call \<Rightarrow> ('u, 'l, file_result) ov" where
  "Temp_ov c = ov_bind (on_upper c) (\<lambda>x. ov_bind (unhide (as_string x)) (\<lambda>_. ov_ret x))"

definition Open_ov :: "string \<Rightarrow> OpenOpts \<Rightarrow> ('u, 'l, file_result) ov" where
  "Open_ov path opts =
    ov_bind (deref path) (\<lambda>path.
    let writeIntent = (oo_Write opts \<or> oo_Append opts \<or> oo_Create opts \<or> oo_Truncate opts) in
    ov_bind (inUpper path) (\<lambda>up.
      if \<not> writeIntent then
        (if up then on_upper (Open path opts)
         else ov_bind (hidden_path path) (\<lambda>hid.
           if hid then ov_fail (PathError ''open'' path ErrNotExist) else on_lower (Open path opts)))
      else
        ov_bind (if up then ov_ret False
                 else ov_bind (hidden_path path) (\<lambda>hid.
                   if hid then ov_ret False
                   else ov_try (on_lower (Stat path False)) (\<lambda>r.
                     ov_ret (case r of Inl _ \<Rightarrow> False | Inr _ \<Rightarrow> True)))) (\<lambda>lowerVisible.
        ov_bind (if oo_Create opts \<and> oo_Exclusive opts then inUpper path else ov_ret False) (\<lambda>up2.
          if oo_Create opts \<and> oo_Exclusive opts \<and> (up2 \<or> lowerVisible)
          then ov_fail (PathError ''open'' path ErrExist)
          else
            ov_bind (if lowerVisible then copyUp path else ov_ret RNone) (\<lambda>_.
            ov_bind (on_upper (Open path opts)) (\<lambda>h.
            ov_bind (unhide path) (\<lambda>_. ov_ret h)))))))"

definition Lock_ov :: "string \<Rightarrow> bool \<Rightarrow> bool \<Rightarrow> ('u, 'l, file_result) ov" where
  "Lock_ov path shared block =
    ov_bind (deref path) (\<lambda>path.
    ov_bind (copyUpIfLowerOnly path) (\<lambda>_. on_upper (Lock path shared block)))"

definition Mmap_ov :: "string \<Rightarrow> int \<Rightarrow> int \<Rightarrow> bool \<Rightarrow> ('u, 'l, file_result) ov" where
  "Mmap_ov path offset len writable =
    ov_bind (deref path) (\<lambda>path.
      if writable
      then ov_bind (copyUpIfLowerOnly path) (\<lambda>_. on_upper (Mmap path offset len True))
      else ov_bind (inUpper path) (\<lambda>up.
        if up then on_upper (Mmap path offset len False)
        else ov_bind (hidden_path path) (\<lambda>hid.
          if hid then ov_fail (PathError ''mmap'' path ErrNotExist)
          else on_lower (Mmap path offset len False))))"

text \<open>The subscriptions of the layers; the tasks that merge their streams are not part of the model.\<close>

definition Watch_ov :: "string \<Rightarrow> WatchOpts \<Rightarrow> ('u, 'l, file_result) ov" where
  "Watch_ov path opts =
    ov_bind (deref path) (\<lambda>path.
    ov_try (Stat_ov path True) (\<lambda>r.
      case r of
        Inl _ \<Rightarrow> ov_fail (PathError ''watch'' path ErrNotExist)
      | Inr x \<Rightarrow>
          ov_bind (inUpper path) (\<lambda>up.
          ov_bind (if up then ov_ret RNone
                   else if fi_IsDir (as_info x)
                   then on_upper (MkdirAll path (and (fi_Mode (as_info x)) ModePerm))
                   else copyUp path) (\<lambda>_.
          ov_bind (on_upper (Watch path opts)) (\<lambda>sub.
          ov_try (on_lower (Watch path opts)) (\<lambda>_. ov_ret sub))))))"

definition Whiteouts :: "('u, 'l) OverlayFileOps \<Rightarrow> string list" where
  "Whiteouts s = sort (gm_keys (whiteouts s))"

section \<open>The overlay as an implementation\<close>

fun overlay_call :: "nat \<Rightarrow> file_call \<Rightarrow> ('u, 'l, file_result) ov" where
  "overlay_call n (ReadFile path) = ReadFile_ov path"
| "overlay_call n (WriteFile path data perm) = WriteFile_ov path data perm"
| "overlay_call n (MkdirAll path perm) = MkdirAll_ov path perm"
| "overlay_call n (Stat path follow) = Stat_ov path follow"
| "overlay_call n (ReadDir path) = ReadDir_ov path"
| "overlay_call n (Remove_file path recursive) = Remove_ov path recursive"
| "overlay_call n (Rename oldPath newPath) = Rename_ov n oldPath newPath"
| "overlay_call n (Symlink target linkPath) = Symlink_ov target linkPath"
| "overlay_call n (Link target linkPath) = Link_ov target linkPath"
| "overlay_call n (Chmod path mode) = mutateInUpper path ''chmod'' (\<lambda>p. Chmod p mode)"
| "overlay_call n (Chtimes path atime mtime) = mutateInUpper path ''chtimes'' (\<lambda>p. Chtimes p atime mtime)"
| "overlay_call n (Truncate_file path size') = mutateInUpper path ''truncate'' (\<lambda>p. Truncate_file p size')"
| "overlay_call n (Chown path uid gid follow) = mutateInUpper path ''chown'' (\<lambda>p. Chown p uid gid follow)"
| "overlay_call n (XattrGet path name) = XattrGet_ov path name"
| "overlay_call n (XattrSet path name val) = mutateInUpper path ''xattr-set'' (\<lambda>p. XattrSet p name val)"
| "overlay_call n (XattrList path) = XattrList_ov path"
| "overlay_call n (XattrRemove path name) = mutateInUpper path ''xattr-remove'' (\<lambda>p. XattrRemove p name)"
| "overlay_call n (TempFile dir pattern) = Temp_ov (TempFile dir pattern)"
| "overlay_call n (TempDir dir pattern) = Temp_ov (TempDir dir pattern)"
| "overlay_call n (Statfs path) = on_upper (Statfs path)"
| "overlay_call n (ResolvePath path) = on_upper (ResolvePath path)"
| "overlay_call n (Watch path opts) = Watch_ov path opts"
| "overlay_call n (Open path opts) = Open_ov path opts"
| "overlay_call n (Lock path shared block) = Lock_ov path shared block"
| "overlay_call n (Mmap path offset len writable) = Mmap_ov path offset len writable"

end
