(* ===== verification/Overlay_Props.thy ===== *)
theory Overlay_Props
  imports Overlay_Files Mem_Props
begin

text \<open>
  Properties of the overlay file system: the lower layer is never changed, and
  a refused exclusive create changes nothing at all.  Both are proved for any
  layers that satisfy the interface of FileOps, and stated for in-memory ones.
\<close>

section \<open>Steps that keep a property of the state\<close>

named_theorems keeps_intro \<open>steps that keep a property of the overlay\<close>

definition keeps :: "(('u, 'l) OverlayFileOps \<Rightarrow> bool) \<Rightarrow> ('u, 'l, 'a) ov \<Rightarrow> bool" where
  "keeps P f = (\<forall>s. P s \<longrightarrow> P (snd (f s)))"

lemma keepsD: "keeps P f \<Longrightarrow> P s \<Longrightarrow> P (snd (f s))"
  by (simp add: keeps_def)

lemma keeps_ret [keeps_intro]: "keeps P (ov_ret x)"
  by (simp add: keeps_def ov_ret_def)

lemma keeps_fail [keeps_intro]: "keeps P (ov_fail err)"
  by (simp add: keeps_def ov_fail_def)

lemma keeps_bind [keeps_intro]: "keeps P m \<Longrightarrow> (\<And>x. keeps P (f x)) \<Longrightarrow> keeps P (ov_bind m f)"
  by (auto simp: keeps_def ov_bind_def split: prod.split sum.split)

lemma keeps_try [keeps_intro]: "keeps P m \<Longrightarrow> (\<And>r. keeps P (f r)) \<Longrightarrow> keeps P (ov_try m f)"
  by (auto simp: keeps_def ov_try_def split: prod.split)

lemma keeps_if [keeps_intro]: "(b \<Longrightarrow> keeps P f) \<Longrightarrow> (\<not> b \<Longrightarrow> keeps P g) \<Longrightarrow> keeps P (if b then f else g)"
  by simp

lemma keeps_sum [keeps_intro]:
  "(\<And>x. keeps P (f x)) \<Longrightarrow> (\<And>y. keeps P (g y)) \<Longrightarrow> keeps P (case r of Inl x \<Rightarrow> f x | Inr y \<Rightarrow> g y)"
  by (cases r) simp_all

lemma keeps_hidden [keeps_intro]: "keeps P (hidden p)"
  by (simp add: keeps_def hidden_def)

lemma keeps_state: "(\<And>t. keeps P (\<lambda>s. f t s)) \<Longrightarrow> keeps P (\<lambda>s. f (whiteouts s) s)"
  by (simp add: keeps_def)

text \<open>A property that calls which only read leave alone, in either layer.\<close>

locale overlay_reads =
  fixes P :: "('u, 'l) OverlayFileOps \<Rightarrow> bool"
  assumes read_upper: "reading c \<Longrightarrow> keeps P (on_upper c)"
    and read_lower: "reading c \<Longrightarrow> keeps P (on_lower c)"
begin

lemma reads [simp]:
  "reading (Stat p f)" "reading (ReadFile p)" "reading (ReadDir p)" "reading (ResolvePath p)"
  "reading (XattrGet p n)" "reading (XattrList p)" "reading (Statfs p)" "reading (Watch p w)"
  "reading (Mmap p a b False)"
  "\<not> (oo_Write opts \<or> oo_Append opts \<or> oo_Create opts \<or> oo_Truncate opts) \<Longrightarrow> reading (Open p opts)"
  by (simp_all add: reading_def change_ops_def)

lemmas layer [keeps_intro] = read_upper read_lower

lemma resolve_kept [keeps_intro]: "keeps P (resolve_ov p)"
  unfolding resolve_ov_def by (intro keeps_intro) simp

lemma inUpper_kept [keeps_intro]: "keeps P (inUpper p)"
  unfolding inUpper_def by (intro keeps_intro) simp

lemma hidden_path_kept [keeps_intro]: "keeps P (hidden_path p)"
  unfolding hidden_path_def by (intro keeps_intro)

lemma stat_at_kept [keeps_intro]: "keeps P (stat_at p f)"
  unfolding stat_at_def by (intro keeps_intro) simp_all

lemma deref_loop_kept: "keeps P (deref_loop n p)"
proof (induction n arbitrary: p)
  case 0
  show ?case by (simp add: keeps_fail)
next
  case (Suc n)
  then show ?case unfolding deref_loop.simps Let_def by (intro keeps_intro Suc)
qed

lemma deref_kept [keeps_intro]: "keeps P (deref p)"
  unfolding deref_def by (rule deref_loop_kept)

lemma Stat_kept [keeps_intro]: "keeps P (Stat_ov p f)"
  unfolding Stat_ov_def by (intro keeps_intro)

lemma read_side_kept: "(\<And>p. reading (c p)) \<Longrightarrow> keeps P (read_side op c p)"
  unfolding read_side_def by (intro keeps_intro) simp_all

lemma ReadDir_kept [keeps_intro]: "keeps P (ReadDir_ov p)"
proof -
  have "keeps P (case (up, low) of (Inl err, Inl _) \<Rightarrow> ov_fail err
      | _ \<Rightarrow> (\<lambda>s. ov_ret (RInfos (merge_infos (whiteouts s) r (a low) (b up))) s))" for up low r a b
    by (cases up; cases low) (simp_all add: keeps_def ov_fail_def ov_ret_def)
  then show ?thesis unfolding ReadDir_ov_def by (intro keeps_intro) simp_all
qed

lemma visible_kept [keeps_intro]: "keeps P (ov_bind (hidden_path p) (\<lambda>hid.
    if hid then ov_ret False
    else ov_try (on_lower (Stat p False)) (\<lambda>r. ov_ret (case r of Inl _ \<Rightarrow> False | Inr _ \<Rightarrow> True))))"
  by (intro keeps_intro) simp_all

end

text \<open>A property that also changes of the upper layer and of the whiteouts leave alone.\<close>

locale overlay_changes = overlay_reads P for P :: "('u, 'l) OverlayFileOps \<Rightarrow> bool" +
  assumes on_upper: "keeps P (on_upper c)"
    and whiteout: "keeps P (setWhiteout p)" "keeps P (clearWhiteout p)"
begin

lemmas changes [keeps_intro] = on_upper whiteout

lemma unhide_kept [keeps_intro]: "keeps P (unhide p)"
  unfolding unhide_def by (intro keeps_intro)

lemma copy_xattrs_kept [keeps_intro]: "keeps P (copy_xattrs p names)"
proof (induction names)
  case (Cons name names)
  then show ?case unfolding copy_xattrs.simps by (intro keeps_intro Cons) simp_all
qed (simp add: keeps_ret)

lemma copyUp_kept [keeps_intro]: "keeps P (copyUp p)"
  unfolding copyUp_def Let_def by (intro keeps_intro) simp_all

lemma copy_children_kept:
  assumes "\<And>p. keeps P (copyUpTree n p)"
  shows "keeps P (copy_children n p cs)"
proof (induction cs)
  case (Cons c cs)
  let ?f = "\<lambda>r w s. (if isWhiteout w (filepath_Join r (fi_Name c)) then copy_children n p cs
       else ov_bind (copyUpTree n (filepath_Join p (fi_Name c))) (\<lambda>_. copy_children n p cs)) s"
  have "keeps P (\<lambda>s. ?f r (whiteouts s) s)" for r
    by (rule keeps_state [of P "?f r"]) (auto intro: keeps_intro assms Cons)
  then show ?case unfolding copy_children.simps by (intro keeps_intro)
qed (simp add: keeps_ret)

lemma copyUpTree_kept [keeps_intro]: "keeps P (copyUpTree n p)"
proof (induction n arbitrary: p)
  case (Suc n)
  show ?case unfolding copyUpTree.simps Let_def by (intro keeps_intro copy_children_kept Suc) simp_all
qed (simp add: keeps_fail)

lemma copyUpIfLowerOnly_kept [keeps_intro]: "keeps P (copyUpIfLowerOnly p)"
  unfolding copyUpIfLowerOnly_def by (intro keeps_intro) simp_all

lemma mutateInUpper_kept [keeps_intro]: "keeps P (mutateInUpper p op c)"
  unfolding mutateInUpper_def by (intro keeps_intro) simp_all

lemma write_kept:
  "keeps P (WriteFile_ov p data perm)" "keeps P (MkdirAll_ov p perm)" "keeps P (Temp_ov c)"
  unfolding WriteFile_ov_def MkdirAll_ov_def Temp_ov_def by (intro keeps_intro)+

lemma Remove_kept: "keeps P (Remove_ov p r)"
  unfolding Remove_ov_def Let_def by (intro keeps_intro ReadDir_kept) simp_all

lemma Rename_kept: "keeps P (Rename_ov n p q)"
  unfolding Rename_ov_def by (intro keeps_intro) simp_all

lemma link_kept: "keeps P (Symlink_ov t p)" "keeps P (Link_ov t p)"
  unfolding Symlink_ov_def Link_ov_def by (intro keeps_intro)+

lemma Open_kept: "keeps P (Open_ov p opts)"
  unfolding Open_ov_def Let_def by (intro keeps_intro) simp_all

lemma Lock_Mmap_kept: "keeps P (Lock_ov p a b)" "keeps P (Mmap_ov p i j w)"
  unfolding Lock_ov_def Mmap_ov_def by (intro keeps_intro; simp)+

lemma Watch_kept: "keeps P (Watch_ov p w)"
  unfolding Watch_ov_def by (intro keeps_intro) simp_all

lemma read_side_ops_kept: "keeps P (ReadFile_ov p)" "keeps P (XattrGet_ov p a)" "keeps P (XattrList_ov p)"
  unfolding ReadFile_ov_def XattrGet_ov_def XattrList_ov_def by (simp_all add: read_side_kept)

theorem call_kept: "keeps P (overlay_call n c)"
  by (cases c) (simp_all add: read_side_ops_kept write_kept Stat_kept ReadDir_kept Remove_kept Rename_kept link_kept
    mutateInUpper_kept on_upper Watch_kept Open_kept Lock_Mmap_kept)

theorem run_kept: "P s \<Longrightarrow> P (fold (\<lambda>c s. snd (overlay_call n c s)) cs s)"
proof (induction cs arbitrary: s)
  case (Cons c cs)
  then show ?case using keepsD [OF call_kept, of s n c] by simp
qed simp

end

section \<open>The lower layer\<close>

definition lower_is :: "mem_env \<Rightarrow> (string \<Rightarrow> fnode option) \<Rightarrow> ('u, MemFileOps) OverlayFileOps \<Rightarrow> bool" where
  "lower_is e t s =
    (fo_run (Lower s) = mem_call e \<and> fs_ok (fo_self (Lower s)) \<and> view (fo_self (Lower s)) = t)"

lemma on_lower_kept: "reading c \<Longrightarrow> keeps (lower_is e t) (on_lower c)"
  using mem.run_ok mem.run_reading by (simp add: keeps_def lower_is_def on_lower_def split: prod.split) (metis snd_conv)

interpretation lower_layer: overlay_changes "lower_is e t" for e t
  by unfold_locales
    (simp_all add: on_lower_kept, simp_all add: keeps_def lower_is_def on_upper_def setWhiteout_def clearWhiteout_def
      split: prod.split)

text \<open>A session of an overlay over an in-memory layer, whose user and clock may change between the calls.\<close>

definition overlay_step ::
  "nat \<Rightarrow> mem_env \<times> file_call \<Rightarrow> ('u, MemFileOps) OverlayFileOps \<Rightarrow> ('u, MemFileOps) OverlayFileOps" where
  "overlay_step n c s = snd (overlay_call n (snd c) (s\<lparr>Lower := (Lower s)\<lparr>fo_run := mem_call (fst c)\<rparr>\<rparr>))"

definition overlay_session ::
  "nat \<Rightarrow> (mem_env \<times> file_call) list \<Rightarrow> ('u, MemFileOps) OverlayFileOps \<Rightarrow> ('u, MemFileOps) OverlayFileOps" where
  "overlay_session n cs s = fold (overlay_step n) cs s"

text \<open>C10: Whatever calls are made through an overlay, in whatever order, and whatever its upper layer is and
  does, the lower layer keeps every name, kind, content and attribute it had: copying up, renaming and removing
  only read it.\<close>

theorem lower_layer_untouched:
  assumes "mem_reach (fo_self (Lower s))"
  shows "view (fo_self (Lower (overlay_session n cs s))) = view (fo_self (Lower s))"
proof -
  have "fs_ok (fo_self (Lower s)) \<Longrightarrow>
      view (fo_self (Lower (overlay_session n cs s))) = view (fo_self (Lower s))" for s :: "('a, MemFileOps) OverlayFileOps"
    unfolding overlay_session_def
  proof (induction cs arbitrary: s)
    case (Cons c cs)
    have "lower_is (fst c) (view (fo_self (Lower s))) (overlay_step n c s)"
      unfolding overlay_step_def
      by (rule keepsD [OF lower_layer.call_kept]) (simp add: lower_is_def Cons.prems)
    then show ?case using Cons.IH by (simp add: lower_is_def)
  qed simp
  then show ?thesis using reach_ok [OF assms] by blast
qed

definition sample_overlay :: "(MemFileOps, MemFileOps) OverlayFileOps" where
  "sample_overlay = NewOverlay \<lparr> fo_run = mem_call root_env, fo_self = NewMem \<rparr>
     \<lparr> fo_run = mem_call root_env, fo_self = sample_files \<rparr>"

definition sample_session :: "(mem_env \<times> file_call) list" where
  "sample_session = [(root_env, Chmod ''/g'' 0x180), (root_env, Rename ''/d'' ''/e''), (root_env, Remove_file ''/s'' False)]"

lemma lower_layer_untouched_witness:
  "view (fo_self (Lower (overlay_session 9 sample_session sample_overlay))) = view sample_files \<and>
   gm_get (Files (fo_self (Upper (overlay_session 9 sample_session sample_overlay)))) ''/e/f'' = Some [1, 2] \<and>
   Whiteouts (overlay_session 9 sample_session sample_overlay) = [''/d'', ''/s'']"
proof (intro conjI)
  have l: "fo_self (Lower sample_overlay) = sample_files" by (simp add: sample_overlay_def NewOverlay_def)
  show "view (fo_self (Lower (overlay_session 9 sample_session sample_overlay))) = view sample_files"
    using lower_layer_untouched [of sample_overlay 9 sample_session] sample_reach unfolding l by blast
  show "gm_get (Files (fo_self (Upper (overlay_session 9 sample_session sample_overlay)))) ''/e/f'' = Some [1, 2]"
    by code_simp
  show "Whiteouts (overlay_session 9 sample_session sample_overlay) = [''/d'', ''/s'']"
    by code_simp
qed

section \<open>A refused create\<close>

definition layers_are ::
  "mem_env \<times> mem_env \<Rightarrow> (string \<Rightarrow> fnode option) \<times> (string \<Rightarrow> fnode option) \<Rightarrow> (string, bool) gomap \<Rightarrow>
    (MemFileOps, MemFileOps) OverlayFileOps \<Rightarrow> bool" where
  "layers_are e t w s =
    (fo_run (Upper s) = mem_call (fst e) \<and> fs_ok (fo_self (Upper s)) \<and> view (fo_self (Upper s)) = fst t \<and>
     lower_is (snd e) (snd t) s \<and> whiteouts s = w)"

interpretation both_layers: overlay_reads "layers_are e t w" for e t w
proof
  show "reading c \<Longrightarrow> keeps (layers_are e t w) (on_upper c)" for c
    using mem.run_ok mem.run_reading
    by (simp add: keeps_def layers_are_def lower_is_def on_upper_def split: prod.split) (metis snd_conv)
  show "reading c \<Longrightarrow> keeps (layers_are e t w) (on_lower c)" for c
    using mem.run_ok mem.run_reading
    by (simp add: keeps_def layers_are_def lower_is_def on_lower_def split: prod.split) (metis snd_conv)
qed

text \<open>What keeps a property where it fails, and what never fails.\<close>

definition keeps_err :: "(('u, 'l) OverlayFileOps \<Rightarrow> bool) \<Rightarrow> ('u, 'l, 'a) ov \<Rightarrow> bool" where
  "keeps_err P f = (\<forall>s err s'. P s \<longrightarrow> f s = (Inl err, s') \<longrightarrow> P s')"

definition never_fails :: "('u, 'l, 'a) ov \<Rightarrow> bool" where
  "never_fails f = (\<forall>s. \<exists>x. fst (f s) = Inr x)"

lemma keeps_err_keeps: "keeps P f \<Longrightarrow> keeps_err P f"
  by (auto simp: keeps_def keeps_err_def)

lemma keeps_err_bind: "\<lbrakk>keeps P m; \<And>x. keeps_err P (f x)\<rbrakk> \<Longrightarrow> keeps_err P (ov_bind m f)"
  unfolding keeps_err_def keeps_def ov_bind_def by (force split: prod.splits sum.splits)

lemma keeps_err_last: "\<lbrakk>keeps_err P m; \<And>x. never_fails (f x)\<rbrakk> \<Longrightarrow> keeps_err P (ov_bind m f)"
  unfolding keeps_err_def never_fails_def ov_bind_def
  by (auto split: prod.splits sum.splits) (metis Inl_Inr_False fst_conv)

lemma never_fails_unhide: "never_fails (ov_bind (unhide p) (\<lambda>_. ov_ret x))"
  by (simp add: never_fails_def unhide_def resolve_ov_def ov_bind_def ov_try_def ov_ret_def clearWhiteout_def
      split: prod.split)

lemma Open_fails: "Open_mem e path opts m = (Inl err, m') \<Longrightarrow> m' = m"
  by (auto simp: Open_mem_def Let_def split: sum.splits option.splits if_splits)

lemma open_upper: "keeps_err (layers_are e t w) (on_upper (Open p opts))"
proof -
  have m: "m' = m" if "mem_call e' (Open p opts) m = (Inl err, m')" for e' m m' err
    using that Open_fails [of e' p opts m] by (auto simp: update_def query_def split: prod.splits sum.splits)
  show ?thesis
    unfolding keeps_err_def
  proof (intro allI impI)
    fix s err s' assume s: "layers_are e t w s" and r: "on_upper (Open p opts) s = (Inl err, s')"
    have "fo_run (Upper s) = mem_call (fst e)" using s by (simp add: layers_are_def)
    then obtain u where "mem_call (fst e) (Open p opts) (fo_self (Upper s)) = (Inl err, u)"
      "s' = s\<lparr>Upper := (Upper s)\<lparr>fo_self := u\<rparr>\<rparr>"
      using r by (auto simp: on_upper_def simp del: mem_call.simps split: prod.splits)
    moreover from this(1) have "u = fo_self (Upper s)" by (rule m)
    ultimately show "layers_are e t w s'" using s by (simp add: layers_are_def lower_is_def)
  qed
qed

text \<open>C23: An exclusive create through an overlay that fails, for whatever reason, changes nothing: not the
  upper layer, although a lower file is otherwise copied up before it is opened, not the lower one, and no
  whiteout.\<close>

theorem refused_create_changes_nothing:
  assumes "oo_Create opts" "oo_Exclusive opts"
    and "overlay_call n (Open path opts) s = (Inl err, s')"
    and "fo_run (Upper s) = mem_call e" "fo_run (Lower s) = mem_call e'"
    and "mem_reach (fo_self (Upper s))" "mem_reach (fo_self (Lower s))"
  shows "view (fo_self (Upper s')) = view (fo_self (Upper s)) \<and>
    view (fo_self (Lower s')) = view (fo_self (Lower s)) \<and> whiteouts s' = whiteouts s"
proof -
  let ?P = "layers_are (e, e') (view (fo_self (Upper s)), view (fo_self (Lower s))) (whiteouts s)"
  have s: "?P s" using assms(4-7) reach_ok by (simp add: layers_are_def lower_is_def)
  let ?rest = "\<lambda>p lv up2. if up2 \<or> lv then ov_fail (PathError ''open'' p ErrExist)
      else ov_bind (if lv then copyUp p else ov_ret RNone) (\<lambda>_.
        ov_bind (on_upper (Open p opts)) (\<lambda>h. ov_bind (unhide p) (\<lambda>_. ov_ret h)))"
  have rest: "keeps_err ?P (?rest p lv up2)" for p lv up2
  proof (cases "up2 \<or> lv")
    case True
    then show ?thesis using keeps_err_keeps [OF keeps_fail] by auto
  next
    case False
    then show ?thesis
      using keeps_err_bind [OF keeps_ret keeps_err_last [OF open_upper never_fails_unhide]] by auto
  qed
  have eq: "(Open_ov path opts :: (MemFileOps, MemFileOps, file_result) ov) = ov_bind (deref path) (\<lambda>p. ov_bind (inUpper p) (\<lambda>up.
      ov_bind (if up then ov_ret False
               else ov_bind (hidden_path p) (\<lambda>hid.
                 if hid then ov_ret False
                 else ov_try (on_lower (Stat p False)) (\<lambda>r.
                   ov_ret (case r of Inl _ \<Rightarrow> False | Inr _ \<Rightarrow> True)))) (\<lambda>lv.
      ov_bind (inUpper p) (?rest p lv))))"
    using assms(1,2) by (simp add: Open_ov_def)
  have "keeps_err ?P (Open_ov path opts)"
    unfolding eq
    by (intro keeps_err_bind rest both_layers.deref_kept both_layers.inUpper_kept keeps_if keeps_ret
        both_layers.visible_kept)
  moreover have "Open_ov path opts s = (Inl err, s')" using assms(3) by simp
  ultimately have "?P s'" using s unfolding keeps_err_def by blast
  then show ?thesis by (simp add: layers_are_def lower_is_def)
qed

text \<open>The layers of the sample, with a file above and a whiteout over a directory below.\<close>

lemma refused_create_changes_nothing_witness:
  "\<exists>err s'. overlay_call 9 (Open ''/g'' \<lparr>oo_Read = False, oo_Write = True, oo_Append = False, oo_Create = True,
      oo_Exclusive = True, oo_Truncate = True, oo_Perm = 0\<rparr>) sample_overlay = (Inl err, s') \<and>
    err = PathError ''open'' ''/g'' ErrExist \<and>
    view (fo_self (Upper s')) = view NewMem \<and> view (fo_self (Lower s')) = view sample_files \<and> whiteouts s' = gm_empty"
proof -
  let ?o = "\<lparr>oo_Read = False, oo_Write = True, oo_Append = False, oo_Create = True,
      oo_Exclusive = True, oo_Truncate = True, oo_Perm = 0\<rparr>"
  have l: "fo_self (Lower sample_overlay) = sample_files" "fo_self (Upper sample_overlay) = NewMem"
    "fo_run (Lower sample_overlay) = mem_call root_env" "fo_run (Upper sample_overlay) = mem_call root_env"
    "whiteouts sample_overlay = gm_empty"
    by (simp_all add: sample_overlay_def NewOverlay_def)
  have r: "fst (overlay_call 9 (Open ''/g'' ?o) sample_overlay) = Inl (PathError ''open'' ''/g'' ErrExist)"
    by code_simp
  obtain s' where s': "overlay_call 9 (Open ''/g'' ?o) sample_overlay = (Inl (PathError ''open'' ''/g'' ErrExist), s')"
    using r by (cases "overlay_call 9 (Open ''/g'' ?o) sample_overlay") simp
  show ?thesis
    using refused_create_changes_nothing [OF _ _ s'] s' NewMem_reach sample_reach unfolding l by auto
qed

section \<open>A removed directory comes back\<close>

text \<open>Removing a directory of the lower layer hides its children; making the directory again clears the
  whiteout, and they show again, where a directory just made is empty on every other file system.\<close>

lemma recreated_directory_shows_old_children:
  "(let s = overlay_session 9 [(root_env, Remove_file ''/d'' True), (root_env, MkdirAll ''/d'' 0x1ED)] sample_overlay in
    fst (overlay_call 9 (ReadFile ''/d/f'') s)) = Inr (RBytes [1, 2])"
  by code_simp

lemma removed_child_is_hidden:
  "(let s = overlay_session 9 [(root_env, Remove_file ''/d'' True)] sample_overlay in
    fst (overlay_call 9 (ReadFile ''/d/f'') s)) = Inl (PathError ''open'' ''/d/f'' ErrNotExist)"
  by code_simp

text \<open>Chown of a link itself, with follow off, changes the owner of the file it leads to.\<close>

lemma lchown_follows_the_link:
  "(let s = overlay_session 9 [(root_env, Symlink ''/g'' ''/k''), (root_env, Chown ''/k'' 5 5 False)] sample_overlay in
    map (\<lambda>p. case fst (overlay_call 9 (Stat p False) s) of Inr (RInfo i) \<Rightarrow> fi_UID i | _ \<Rightarrow> -1) [''/g'', ''/k'']) = [5, 0]"
  by code_simp

end
