(* ===== verification/Processes.thy ===== *)
theory Processes
  imports Boru_Prelude
begin

text \<open>
  The lightweight processes of the kernel (core/go/process.go): the runtime
  with its pid table and name registry, the bounded mailboxes, and the blocking
  calls Send and PopFront as steps of a configuration in which a call that has
  to wait sleeps on the condition variable of the mailbox until a broadcast.
  Messages are the type parameter.  A pointer to a process is its index in the
  heap of the runtime.
\<close>

section \<open>State\<close>

definition DefaultMailboxBound :: int where "DefaultMailboxBound = 1024"

definition OverflowBlock :: string where "OverflowBlock = ''block''"

definition OverflowFail :: string where "OverflowFail = ''fail''"

definition OverflowDrop :: string where "OverflowDrop = ''drop''"

datatype proc_error = ErrMailboxOverload | ErrRuntimeDown

text \<open>The channel \<open>done\<close> is closed exactly when the field \<open>closed\<close> has been set.\<close>

record 'm Process =
  proc_ID :: string
  mailbox :: "'m list"
  proc_bound :: int
  overflow :: string
  proc_closed :: bool
  proc_name :: string

text \<open>A host writer is a number, a SyncWriter the number of its wrapper.\<close>

datatype writer = NilWriter | HostWriter nat | SyncWriter nat

record 'm ProcessRuntime =
  rt_heap :: "'m Process list"
  rt_table :: "(string, nat) gomap"
  rt_names :: "(string, nat) gomap"
  rt_down :: bool
  syncOuts :: "(nat, nat) gomap"

definition NewProcessRuntime :: "'m ProcessRuntime" where
  "NewProcessRuntime = \<lparr> rt_heap = [], rt_table = gm_empty, rt_names = gm_empty, rt_down = False,
     syncOuts = gm_empty \<rparr>"

definition proc :: "nat \<Rightarrow> 'm ProcessRuntime \<Rightarrow> 'm Process" where
  "proc p rt = rt_heap rt ! p"

definition set_proc :: "nat \<Rightarrow> ('m Process \<Rightarrow> 'm Process) \<Rightarrow> 'm ProcessRuntime \<Rightarrow> 'm ProcessRuntime" where
  "set_proc p f rt = rt\<lparr>rt_heap := (rt_heap rt)[p := f (rt_heap rt ! p)]\<rparr>"

section \<open>The runtime\<close>

text \<open>The identity, which the code generates, is an argument.\<close>

definition NewProcess :: "string \<Rightarrow> int \<Rightarrow> string \<Rightarrow> 'm ProcessRuntime \<Rightarrow> nat \<times> 'm ProcessRuntime" where
  "NewProcess pid bound over rt =
    (length (rt_heap rt),
     rt\<lparr>rt_heap := rt_heap rt @ [\<lparr> proc_ID = pid, mailbox = [], proc_bound = bound,
       overflow = (if over = [] then OverflowBlock else over), proc_closed = False, proc_name = [] \<rparr>]\<rparr>)"

definition SyncOutput :: "writer \<Rightarrow> 'm ProcessRuntime \<Rightarrow> writer \<times> 'm ProcessRuntime" where
  "SyncOutput w rt =
    (case w of
       NilWriter \<Rightarrow> (NilWriter, rt)
     | SyncWriter a \<Rightarrow> (SyncWriter a, rt)
     | HostWriter n \<Rightarrow>
         (case gm_get (syncOuts rt) n of
            Some a \<Rightarrow> (SyncWriter a, rt)
          | None \<Rightarrow> let a = length (syncOuts rt) in (SyncWriter a, rt\<lparr>syncOuts := gm_put n a (syncOuts rt)\<rparr>)))"

text \<open>Shutdown without its broadcasts, which are steps of their own below.\<close>

definition Shutdown :: "'m ProcessRuntime \<Rightarrow> 'm ProcessRuntime" where
  "Shutdown rt = (if rt_down rt then rt else rt\<lparr>rt_down := True\<rparr>)"

definition Insert_proc :: "nat \<Rightarrow> 'm ProcessRuntime \<Rightarrow> proc_error option \<times> 'm ProcessRuntime" where
  "Insert_proc p rt =
    (if rt_down rt then (Some ErrRuntimeDown, rt)
     else (None, rt\<lparr>rt_table := gm_put (proc_ID (proc p rt)) p (rt_table rt)\<rparr>))"

definition Remove_proc :: "nat \<Rightarrow> 'm ProcessRuntime \<Rightarrow> 'm ProcessRuntime" where
  "Remove_proc p rt =
    (let rt = rt\<lparr>rt_table := gm_del (proc_ID (proc p rt)) (rt_table rt)\<rparr>; name = proc_name (proc p rt) in
     if name \<noteq> []
     then set_proc p (proc_name_update (\<lambda>_. []))
       (if gm_get (rt_names rt) name = Some p then rt\<lparr>rt_names := gm_del name (rt_names rt)\<rparr> else rt)
     else rt)"

definition LookupPid :: "string \<Rightarrow> 'm ProcessRuntime \<Rightarrow> nat option" where
  "LookupPid pid rt = gm_get (rt_table rt) pid"

definition RegisterName :: "string \<Rightarrow> nat \<Rightarrow> 'm ProcessRuntime \<Rightarrow> proc_error option \<times> 'm ProcessRuntime" where
  "RegisterName name p rt =
    (if rt_down rt then (Some ErrRuntimeDown, rt)
     else
       (let rt = (case gm_get (rt_names rt) name of
                    Some prev \<Rightarrow> if prev \<noteq> p then set_proc prev (proc_name_update (\<lambda>_. [])) rt else rt
                  | None \<Rightarrow> rt);
            rt = rt\<lparr>rt_names := gm_put name p (rt_names rt)\<rparr>
        in (None, set_proc p (proc_name_update (\<lambda>_. name)) rt)))"

definition Whereis :: "string \<Rightarrow> 'm ProcessRuntime \<Rightarrow> nat option" where
  "Whereis name rt = gm_get (rt_names rt) name"

definition UnregisterName :: "string \<Rightarrow> 'm ProcessRuntime \<Rightarrow> 'm ProcessRuntime" where
  "UnregisterName name rt =
    (case gm_get (rt_names rt) name of
       Some p \<Rightarrow>
         (let rt = set_proc p (proc_name_update (\<lambda>_. [])) rt in rt\<lparr>rt_names := gm_del name (rt_names rt)\<rparr>)
     | None \<Rightarrow> rt)"

definition Close_proc :: "nat \<Rightarrow> 'm ProcessRuntime \<Rightarrow> 'm ProcessRuntime" where
  "Close_proc p rt = (if proc_closed (proc p rt) then rt else set_proc p (proc_closed_update (\<lambda>_. True)) rt)"

definition MailboxDepth :: "nat \<Rightarrow> 'm ProcessRuntime \<Rightarrow> int" where
  "MailboxDepth p rt = int (length (mailbox (proc p rt)))"

section \<open>One turn of the blocking calls\<close>

text \<open>
  The body of the loop of Send between two waits, all of it under the lock of
  the process: what the call returns, whether it enqueued, or that it waits.
\<close>

datatype send_turn = Enqueued | Returned "proc_error option" | SendWaits

definition Send_turn :: "'m \<Rightarrow> nat \<Rightarrow> 'm ProcessRuntime \<Rightarrow> send_turn" where
  "Send_turn msg p rt =
    (let q = proc p rt in
     if proc_closed q then Returned None
     else if proc_bound q \<le> 0 \<or> int (length (mailbox q)) < proc_bound q then Enqueued
     else if overflow q = OverflowFail then Returned (Some ErrMailboxOverload)
     else if overflow q = OverflowDrop then Returned None
     else if rt_down rt then Returned (Some ErrRuntimeDown)
     else SendWaits)"

definition enqueue :: "'m \<Rightarrow> nat \<Rightarrow> 'm ProcessRuntime \<Rightarrow> 'm ProcessRuntime" where
  "enqueue msg p = set_proc p (mailbox_update (\<lambda>ms. ms @ [msg]))"

text \<open>The same of PopFront; the flag says that there is a deadline and it has passed.\<close>

datatype 'm pop_turn = Popped 'm | PopDown | PopTimeout | PopWaits

definition Pop_turn :: "bool \<Rightarrow> nat \<Rightarrow> 'm ProcessRuntime \<Rightarrow> 'm pop_turn" where
  "Pop_turn expired p rt =
    (case mailbox (proc p rt) of
       m # _ \<Rightarrow> Popped m
     | [] \<Rightarrow> if rt_down rt then PopDown else if expired then PopTimeout else PopWaits)"

definition dequeue :: "nat \<Rightarrow> 'm ProcessRuntime \<Rightarrow> 'm ProcessRuntime" where
  "dequeue p = set_proc p (mailbox_update tl)"

section \<open>Steps\<close>

record 'm send_call =
  sc_id :: nat
  sc_to :: nat
  sc_msg :: 'm
  sc_awake :: bool

record recv_call =
  rc_id :: nat
  rc_at :: nat
  rc_deadline :: bool
  rc_awake :: bool

text \<open>What has been taken into a mailbox and out of it, in order.\<close>

datatype 'm mail_event = Accepted nat 'm | Received nat 'm

record 'm proc_conf =
  pc_rt :: "'m ProcessRuntime"
  pc_sends :: "'m send_call list"
  pc_recvs :: "recv_call list"
  pc_next :: nat
  pc_log :: "'m mail_event list"

definition proc_start :: "'m proc_conf" where
  "proc_start = \<lparr> pc_rt = NewProcessRuntime, pc_sends = [], pc_recvs = [], pc_next = 0, pc_log = [] \<rparr>"

definition wake_sends :: "nat \<Rightarrow> 'm send_call list \<Rightarrow> 'm send_call list" where
  "wake_sends p = map (\<lambda>w. if sc_to w = p then w\<lparr>sc_awake := True\<rparr> else w)"

definition wake_recvs :: "nat \<Rightarrow> recv_call list \<Rightarrow> recv_call list" where
  "wake_recvs p = map (\<lambda>w. if rc_at w = p then w\<lparr>rc_awake := True\<rparr> else w)"

definition sleep_sends :: "'m send_call \<Rightarrow> 'm send_call list \<Rightarrow> 'm send_call list" where
  "sleep_sends w = map (\<lambda>u. if u = w then u\<lparr>sc_awake := False\<rparr> else u)"

definition sleep_recvs :: "recv_call \<Rightarrow> recv_call list \<Rightarrow> recv_call list" where
  "sleep_recvs w = map (\<lambda>u. if u = w then u\<lparr>rc_awake := False\<rparr> else u)"

text \<open>The broadcast on the condition of a process.\<close>

definition broadcast :: "nat \<Rightarrow> 'm proc_conf \<Rightarrow> 'm proc_conf" where
  "broadcast p s = s\<lparr>pc_sends := wake_sends p (pc_sends s), pc_recvs := wake_recvs p (pc_recvs s)\<rparr>"

text \<open>
  A process that is live in the heap is created, inserted, removed, named,
  closed by whoever; Shutdown sets its flag.  A timer runs only for a call that
  sleeps, and its broadcast reaches every call on that process; the broadcasts
  of Shutdown are steps of the same shape, and change nothing where nobody
  sleeps.  A second Close does nothing.
\<close>

datatype host_op =
    NewP string int string
  | InsertP nat
  | RemoveP nat
  | RegisterP string nat
  | UnregisterP string
  | ShutdownP

fun host_exec :: "host_op \<Rightarrow> 'm ProcessRuntime \<Rightarrow> 'm ProcessRuntime" where
  "host_exec (NewP pid bound over) rt = snd (NewProcess pid bound over rt)"
| "host_exec (InsertP p) rt = snd (Insert_proc p rt)"
| "host_exec (RemoveP p) rt = Remove_proc p rt"
| "host_exec (RegisterP name p) rt = snd (RegisterName name p rt)"
| "host_exec (UnregisterP name) rt = UnregisterName name rt"
| "host_exec ShutdownP rt = Shutdown rt"

fun op_procs :: "host_op \<Rightarrow> nat set" where
  "op_procs (InsertP p) = {p}"
| "op_procs (RemoveP p) = {p}"
| "op_procs (RegisterP name p) = {p}"
| "op_procs _ = {}"

definition live :: "nat \<Rightarrow> 'm ProcessRuntime \<Rightarrow> bool" where
  "live p rt = (p < length (rt_heap rt))"

definition asleep_at :: "nat \<Rightarrow> 'm proc_conf \<Rightarrow> bool" where
  "asleep_at p s =
    ((\<exists>w \<in> set (pc_sends s). sc_to w = p \<and> \<not> sc_awake w) \<or> (\<exists>w \<in> set (pc_recvs s). rc_at w = p \<and> \<not> rc_awake w))"

inductive proc_step :: "'m proc_conf \<Rightarrow> 'm proc_conf \<Rightarrow> bool" where
  host: "\<forall>p \<in> op_procs op. live p (pc_rt s) \<Longrightarrow> proc_step s (s\<lparr>pc_rt := host_exec op (pc_rt s)\<rparr>)"
| close: "live p (pc_rt s) \<Longrightarrow> \<not> proc_closed (proc p (pc_rt s)) \<Longrightarrow>
    proc_step s (broadcast p (s\<lparr>pc_rt := Close_proc p (pc_rt s)\<rparr>))"
| timer: "asleep_at p s \<Longrightarrow> proc_step s (broadcast p s)"
| send: "live p (pc_rt s) \<Longrightarrow>
    proc_step s (s\<lparr>pc_sends := \<lparr> sc_id = pc_next s, sc_to = p, sc_msg = msg, sc_awake = True \<rparr> # pc_sends s,
      pc_next := Suc (pc_next s)\<rparr>)"
| enqueued: "\<lbrakk>w \<in> set (pc_sends s); sc_awake w; Send_turn (sc_msg w) (sc_to w) (pc_rt s) = Enqueued\<rbrakk> \<Longrightarrow>
    proc_step s (broadcast (sc_to w) (s\<lparr>pc_rt := enqueue (sc_msg w) (sc_to w) (pc_rt s),
      pc_sends := remove1 w (pc_sends s), pc_log := pc_log s @ [Accepted (sc_to w) (sc_msg w)]\<rparr>))"
| returned: "\<lbrakk>w \<in> set (pc_sends s); sc_awake w; Send_turn (sc_msg w) (sc_to w) (pc_rt s) = Returned r\<rbrakk> \<Longrightarrow>
    proc_step s (s\<lparr>pc_sends := remove1 w (pc_sends s)\<rparr>)"
| send_waits: "\<lbrakk>w \<in> set (pc_sends s); sc_awake w; Send_turn (sc_msg w) (sc_to w) (pc_rt s) = SendWaits\<rbrakk> \<Longrightarrow>
    proc_step s (s\<lparr>pc_sends := sleep_sends w (pc_sends s)\<rparr>)"
| receive: "live p (pc_rt s) \<Longrightarrow>
    proc_step s (s\<lparr>pc_recvs := \<lparr> rc_id = pc_next s, rc_at = p, rc_deadline = d, rc_awake = True \<rparr> # pc_recvs s,
      pc_next := Suc (pc_next s)\<rparr>)"
| popped: "\<lbrakk>w \<in> set (pc_recvs s); rc_awake w; x \<longrightarrow> rc_deadline w; Pop_turn x (rc_at w) (pc_rt s) = Popped m\<rbrakk> \<Longrightarrow>
    proc_step s (s\<lparr>pc_rt := dequeue (rc_at w) (pc_rt s), pc_recvs := remove1 w (pc_recvs s),
      pc_log := pc_log s @ [Received (rc_at w) m]\<rparr>)"
| gave_up: "\<lbrakk>w \<in> set (pc_recvs s); rc_awake w; x \<longrightarrow> rc_deadline w;
      Pop_turn x (rc_at w) (pc_rt s) \<in> {PopDown, PopTimeout}\<rbrakk> \<Longrightarrow>
    proc_step s (s\<lparr>pc_recvs := remove1 w (pc_recvs s)\<rparr>)"
| pop_waits: "\<lbrakk>w \<in> set (pc_recvs s); rc_awake w; x \<longrightarrow> rc_deadline w; Pop_turn x (rc_at w) (pc_rt s) = PopWaits\<rbrakk> \<Longrightarrow>
    proc_step s (s\<lparr>pc_recvs := sleep_recvs w (pc_recvs s)\<rparr>)"

inductive proc_reach :: "'m proc_conf \<Rightarrow> 'm proc_conf \<Rightarrow> bool" for s where
  start: "proc_reach s s"
| step: "proc_reach s t \<Longrightarrow> proc_step t u \<Longrightarrow> proc_reach s u"

lemma proc_reach_trans: "proc_reach t u \<Longrightarrow> proc_reach s t \<Longrightarrow> proc_reach s u"
  by (induction rule: proc_reach.induct) (auto intro: proc_reach.step)

section \<open>Runs\<close>

text \<open>The turn of a send that is awake, as a function.\<close>

definition take_turn :: "'m send_call \<Rightarrow> 'm proc_conf \<Rightarrow> 'm proc_conf" where
  "take_turn w s =
    (case Send_turn (sc_msg w) (sc_to w) (pc_rt s) of
       Enqueued \<Rightarrow> broadcast (sc_to w) (s\<lparr>pc_rt := enqueue (sc_msg w) (sc_to w) (pc_rt s),
         pc_sends := remove1 w (pc_sends s), pc_log := pc_log s @ [Accepted (sc_to w) (sc_msg w)]\<rparr>)
     | Returned r \<Rightarrow> s\<lparr>pc_sends := remove1 w (pc_sends s)\<rparr>
     | SendWaits \<Rightarrow> s\<lparr>pc_sends := sleep_sends w (pc_sends s)\<rparr>)"

lemma take_turn_step: "w \<in> set (pc_sends s) \<Longrightarrow> sc_awake w \<Longrightarrow> proc_step s (take_turn w s)"
  using proc_step.enqueued [of w s] proc_step.returned [of w s] proc_step.send_waits [of w s]
  by (cases "Send_turn (sc_msg w) (sc_to w) (pc_rt s)") (simp_all add: take_turn_def)

text \<open>An infinite run steps or stutters from the start on.  It is fair to senders when a send that
  stays awake is not denied its turn for ever, and the timer of one that sleeps fires.\<close>

definition proc_run :: "(nat \<Rightarrow> 'm proc_conf) \<Rightarrow> bool" where
  "proc_run r = (r 0 = proc_start \<and> (\<forall>i. r (Suc i) = r i \<or> proc_step (r i) (r (Suc i))))"

definition fair_to_senders :: "(nat \<Rightarrow> 'm proc_conf) \<Rightarrow> bool" where
  "fair_to_senders r =
    (\<forall>w i. (\<forall>j \<ge> i. w \<in> set (pc_sends (r j))) \<longrightarrow>
      (\<exists>j \<ge> i. r (Suc j) = (if sc_awake w then take_turn w (r j) else broadcast (sc_to w) (r j))))"

definition pending_send :: "'m send_call \<Rightarrow> 'm proc_conf \<Rightarrow> bool" where
  "pending_send w s = (w\<lparr>sc_awake := True\<rparr> \<in> set (pc_sends s) \<or> w\<lparr>sc_awake := False\<rparr> \<in> set (pc_sends s))"

lemma proc_run_reach: "proc_run r \<Longrightarrow> proc_reach proc_start (r i)"
proof (induction i)
  case 0
  then show ?case by (simp add: proc_run_def proc_reach.start)
next
  case (Suc i)
  then have "r (Suc i) = r i \<or> proc_step (r i) (r (Suc i))" by (simp add: proc_run_def)
  then show ?case using Suc proc_reach.step by metis
qed

end
