(* ===== verification/Process_Props.thy ===== *)
theory Process_Props
  imports Processes
begin

text \<open>
  Properties of the processes: mailboxes lose, repeat and reorder nothing and
  stay within their bound, blocked senders and calls under a shutdown go on, and
  names resolve to the process that holds them.
\<close>

section \<open>The heap\<close>

lemma live_set [simp]: "live q (set_proc p f rt) = live q rt"
  by (simp add: live_def set_proc_def)

lemma proc_set [simp]: "live q rt \<Longrightarrow> proc q (set_proc p f rt) = (if q = p then f (proc p rt) else proc q rt)"
  by (simp add: proc_def set_proc_def live_def)

lemma set_proc_fields [simp]:
  "rt_table (set_proc p f rt) = rt_table rt" "rt_names (set_proc p f rt) = rt_names rt"
  "rt_down (set_proc p f rt) = rt_down rt"
  by (simp_all add: set_proc_def)

lemma heap_same [simp]:
  "proc p (rt\<lparr>rt_table := tb\<rparr>) = proc p rt" "proc p (rt\<lparr>rt_names := ns\<rparr>) = proc p rt"
  "proc p (rt\<lparr>rt_down := d\<rparr>) = proc p rt"
  "live p (rt\<lparr>rt_table := tb\<rparr>) = live p rt" "live p (rt\<lparr>rt_names := ns\<rparr>) = live p rt"
  "live p (rt\<lparr>rt_down := d\<rparr>) = live p rt"
  by (simp_all add: proc_def live_def)

lemma NewProcess_heap [simp]:
  "live q (snd (NewProcess i b ov rt)) \<longleftrightarrow> live q rt \<or> q = length (rt_heap rt)"
  "live q rt \<Longrightarrow> proc q (snd (NewProcess i b ov rt)) = proc q rt"
  "proc (length (rt_heap rt)) (snd (NewProcess i b ov rt)) =
    \<lparr> proc_ID = i, mailbox = [], proc_bound = b, overflow = (if ov = [] then OverflowBlock else ov),
      proc_closed = False, proc_name = [] \<rparr>"
  by (auto simp: NewProcess_def live_def proc_def nth_append)

text \<open>What the operations of the host leave of a process.\<close>

lemma host_keeps:
  assumes "live q rt"
  shows "live q (host_exec op rt) \<and> mailbox (proc q (host_exec op rt)) = mailbox (proc q rt) \<and>
    proc_bound (proc q (host_exec op rt)) = proc_bound (proc q rt) \<and>
    proc_closed (proc q (host_exec op rt)) = proc_closed (proc q rt)"
  using assms
  by (cases op)
    (auto simp: Insert_proc_def Remove_proc_def RegisterName_def UnregisterName_def Shutdown_def Let_def
      split: option.split)

lemma host_live:
  "live q (host_exec op rt) \<Longrightarrow> \<not> live q rt \<Longrightarrow> mailbox (proc q (host_exec op rt)) = []"
  by (cases op)
    (auto simp: Insert_proc_def Remove_proc_def RegisterName_def UnregisterName_def Shutdown_def Let_def
      split: option.splits if_splits)

section \<open>Mailboxes\<close>

fun accepted :: "nat \<Rightarrow> 'm mail_event list \<Rightarrow> 'm list" where
  "accepted p [] = []"
| "accepted p (Accepted q m # es) = (if q = p then m # accepted p es else accepted p es)"
| "accepted p (Received q m # es) = accepted p es"

fun received :: "nat \<Rightarrow> 'm mail_event list \<Rightarrow> 'm list" where
  "received p [] = []"
| "received p (Accepted q m # es) = received p es"
| "received p (Received q m # es) = (if q = p then m # received p es else received p es)"

lemma log_append [simp]:
  "accepted p (es @ fs) = accepted p es @ accepted p fs" "received p (es @ fs) = received p es @ received p fs"
  by (induction es rule: accepted.induct) auto

definition box :: "nat \<Rightarrow> 'm ProcessRuntime \<Rightarrow> 'm list" where
  "box p rt = (if live p rt then mailbox (proc p rt) else [])"

definition mail_ok :: "'m proc_conf \<Rightarrow> bool" where
  "mail_ok s = (\<forall>p. accepted p (pc_log s) = received p (pc_log s) @ box p (pc_rt s))"

definition calls_ok :: "'m proc_conf \<Rightarrow> bool" where
  "calls_ok s = ((\<forall>p \<in> set (map sc_to (pc_sends s)) \<union> set (map rc_at (pc_recvs s)). live p (pc_rt s)) \<and>
    (\<forall>i \<in> set (map sc_id (pc_sends s)) \<union> set (map rc_id (pc_recvs s)). i < pc_next s) \<and>
    distinct (map sc_id (pc_sends s)) \<and> distinct (map rc_id (pc_recvs s)))"

definition bounds_ok :: "'m ProcessRuntime \<Rightarrow> bool" where
  "bounds_ok rt = (\<forall>p. live p rt \<longrightarrow> 0 < proc_bound (proc p rt) \<longrightarrow>
    int (length (mailbox (proc p rt))) \<le> proc_bound (proc p rt))"

definition conf_ok :: "'m proc_conf \<Rightarrow> bool" where
  "conf_ok s = (mail_ok s \<and> calls_ok s \<and> bounds_ok (pc_rt s))"

lemma broadcast_same [simp]:
  "pc_rt (broadcast p s) = pc_rt s" "pc_log (broadcast p s) = pc_log s" "pc_next (broadcast p s) = pc_next s"
  by (simp_all add: broadcast_def)

lemma map_wake [simp]:
  "map sc_id (wake_sends p ws) = map sc_id ws" "map sc_to (wake_sends p ws) = map sc_to ws"
  "map sc_id (sleep_sends w ws) = map sc_id ws" "map sc_to (sleep_sends w ws) = map sc_to ws"
  "map rc_id (wake_recvs p rs) = map rc_id rs" "map rc_at (wake_recvs p rs) = map rc_at rs"
  "map rc_id (sleep_recvs r rs) = map rc_id rs" "map rc_at (sleep_recvs r rs) = map rc_at rs"
  by (simp_all add: wake_sends_def wake_recvs_def sleep_sends_def sleep_recvs_def)

lemma calls_eq:
  "\<lbrakk>map sc_to (pc_sends s') = map sc_to (pc_sends s); map sc_id (pc_sends s') = map sc_id (pc_sends s);
    map rc_at (pc_recvs s') = map rc_at (pc_recvs s); map rc_id (pc_recvs s') = map rc_id (pc_recvs s);
    pc_next s' = pc_next s; pc_rt s' = pc_rt s\<rbrakk> \<Longrightarrow> calls_ok s' = calls_ok s"
  by (simp only: calls_ok_def)

lemma calls_broadcast [simp]: "calls_ok (broadcast p s) = calls_ok s"
  by (rule calls_eq) (simp_all add: broadcast_def)

lemma box_host [simp]: "box p (host_exec op rt) = box p rt"
  using host_keeps [of p rt op] host_live [of p op rt] by (auto simp: box_def)

lemma box_live: "live p rt \<Longrightarrow> box p rt = mailbox (proc p rt)"
  by (simp add: box_def)

lemma box_set: "live q rt \<Longrightarrow> box p (set_proc q f rt) = (if p = q then mailbox (f (proc q rt)) else box p rt)"
  by (auto simp: box_def)

lemma calls_mono:
  assumes "calls_ok s" "\<And>q. live q (pc_rt s) \<Longrightarrow> live q rt"
  shows "calls_ok (s\<lparr>pc_rt := rt\<rparr>)"
  using assms by (auto simp: calls_ok_def)

lemma distinct_map_remove1: "distinct (map f xs) \<Longrightarrow> distinct (map f (remove1 x xs))"
  using set_remove1_subset [of x] by (induction xs) fastforce+

lemma calls_remove1:
  "calls_ok s \<Longrightarrow> calls_ok (s\<lparr>pc_sends := remove1 w (pc_sends s)\<rparr>)"
  "calls_ok s \<Longrightarrow> calls_ok (s\<lparr>pc_recvs := remove1 u (pc_recvs s)\<rparr>)"
  using set_remove1_subset [of w "pc_sends s"] set_remove1_subset [of u "pc_recvs s"]
  by (auto simp: calls_ok_def distinct_map_remove1)

lemma calls_sleep:
  "calls_ok (s\<lparr>pc_sends := sleep_sends w (pc_sends s)\<rparr>) = calls_ok s"
  "calls_ok (s\<lparr>pc_recvs := sleep_recvs u (pc_recvs s)\<rparr>) = calls_ok s"
  by (rule calls_eq; simp)+

lemma calls_new:
  "\<lbrakk>calls_ok s; live p (pc_rt s)\<rbrakk> \<Longrightarrow> calls_ok (s\<lparr>pc_sends :=
    \<lparr> sc_id = pc_next s, sc_to = p, sc_msg = msg, sc_awake = a \<rparr> # pc_sends s, pc_next := Suc (pc_next s)\<rparr>)"
  "\<lbrakk>calls_ok s; live p (pc_rt s)\<rbrakk> \<Longrightarrow> calls_ok (s\<lparr>pc_recvs :=
    \<lparr> rc_id = pc_next s, rc_at = p, rc_deadline = d, rc_awake = a \<rparr> # pc_recvs s, pc_next := Suc (pc_next s)\<rparr>)"
  by (auto simp: calls_ok_def less_Suc_eq)

lemma calls_cong:
  "\<lbrakk>calls_ok s; pc_sends s' = pc_sends s; pc_recvs s' = pc_recvs s; pc_next s' = pc_next s;
    \<And>q. live q (pc_rt s) \<Longrightarrow> live q (pc_rt s')\<rbrakk> \<Longrightarrow> calls_ok s'"
  by (auto simp: calls_ok_def)

lemma calls_live:
  "\<lbrakk>calls_ok s; w \<in> set (pc_sends s)\<rbrakk> \<Longrightarrow> live (sc_to w) (pc_rt s)"
  "\<lbrakk>calls_ok s; r \<in> set (pc_recvs s)\<rbrakk> \<Longrightarrow> live (rc_at r) (pc_rt s)"
  by (auto simp: calls_ok_def)

lemma pops: "Pop_turn x p rt = Popped m \<longleftrightarrow> (\<exists>ms. mailbox (proc p rt) = m # ms)"
  by (auto simp: Pop_turn_def split: list.split)

lemma enqueues: "Send_turn msg p rt = Enqueued \<longleftrightarrow> \<not> proc_closed (proc p rt) \<and>
    (proc_bound (proc p rt) \<le> 0 \<or> int (length (mailbox (proc p rt))) < proc_bound (proc p rt))"
  by (simp add: Send_turn_def Let_def)

lemma conf_ok_calls:
  "\<lbrakk>conf_ok s; calls_ok s'; pc_rt s' = pc_rt s; pc_log s' = pc_log s\<rbrakk> \<Longrightarrow> conf_ok s'"
  by (simp add: conf_ok_def mail_ok_def)

lemma proc_step_ok:
  assumes "proc_step s s'" "conf_ok s"
  shows "conf_ok s'"
  using assms(1)
proof cases
  have ok: "mail_ok s" "calls_ok s" "bounds_ok (pc_rt s)" using assms(2) by (simp_all add: conf_ok_def)
  {
    case (host op)
    have "bounds_ok (host_exec op (pc_rt s))"
      unfolding bounds_ok_def
    proof (intro allI impI)
      fix p assume p: "live p (host_exec op (pc_rt s))" "0 < proc_bound (proc p (host_exec op (pc_rt s)))"
      show "int (length (mailbox (proc p (host_exec op (pc_rt s))))) \<le> proc_bound (proc p (host_exec op (pc_rt s)))"
      proof (cases "live p (pc_rt s)")
        case True
        then show ?thesis using host_keeps [OF True, of op] ok(3) p(2) by (simp add: bounds_ok_def)
      next
        case False
        then show ?thesis using host_live [OF p(1)] p(2) by simp
      qed
    qed
    moreover have "calls_ok s'"
      using calls_mono [OF ok(2)] host_keeps unfolding host(1) by blast
    ultimately show ?thesis using ok(1) unfolding host(1) by (simp add: conf_ok_def mail_ok_def)
  next
    case (close p)
    then show ?thesis
      using ok calls_mono [OF ok(2)]
      by (auto simp: conf_ok_def mail_ok_def bounds_ok_def Close_proc_def box_set box_live)
  next
    case (timer p)
    then show ?thesis using assms(2) by (intro conf_ok_calls [OF assms(2)]) (simp_all add: ok(2))
  next
    case (send p msg)
    then show ?thesis using calls_new(1) [OF ok(2)] by (intro conf_ok_calls [OF assms(2)]) simp_all
  next
    case (enqueued w)
    note l = calls_live(1) [OF ok(2) enqueued(2)]
    have "calls_ok (s\<lparr>pc_sends := remove1 w (pc_sends s)\<rparr>)" using calls_remove1(1) ok(2) by blast
    then have "calls_ok s'"
      unfolding enqueued(1) calls_broadcast by (rule calls_cong) (simp_all add: enqueue_def)
    then show ?thesis
      using ok enqueued l
      by (auto simp: conf_ok_def mail_ok_def bounds_ok_def enqueue_def box_set box_live enqueues)
  next
    case (returned w r)
    then show ?thesis using calls_remove1(1) ok(2) by (intro conf_ok_calls [OF assms(2)]) simp_all
  next
    case (send_waits w)
    then show ?thesis by (intro conf_ok_calls [OF assms(2)]) (simp_all add: calls_sleep ok(2))
  next
    case (receive p d)
    then show ?thesis using calls_new(2) [OF ok(2)] by (intro conf_ok_calls [OF assms(2)]) simp_all
  next
    case (popped w x m)
    note l = calls_live(2) [OF ok(2) popped(2)]
    obtain ms where ms: "mailbox (proc (rc_at w) (pc_rt s)) = m # ms" using popped(5) by (auto simp: pops)
    have "calls_ok (s\<lparr>pc_recvs := remove1 w (pc_recvs s)\<rparr>)" using calls_remove1(2) ok(2) by blast
    then have "calls_ok s'" unfolding popped(1) by (rule calls_cong) (simp_all add: dequeue_def)
    moreover have "mail_ok s'"
      using ok(1) l ms unfolding popped(1) mail_ok_def by (auto simp: dequeue_def box_set box_def)
    moreover have "bounds_ok (pc_rt s')"
      using ok(3) l ms unfolding popped(1) bounds_ok_def by (force simp: dequeue_def)
    ultimately show ?thesis by (simp add: conf_ok_def)
  next
    case (gave_up w x)
    then show ?thesis using calls_remove1(2) ok(2) by (intro conf_ok_calls [OF assms(2)]) simp_all
  next
    case (pop_waits w x)
    then show ?thesis by (intro conf_ok_calls [OF assms(2)]) (simp_all add: calls_sleep ok(2))
  }
qed

lemma proc_start_ok: "conf_ok proc_start"
  by (simp add: conf_ok_def mail_ok_def calls_ok_def bounds_ok_def box_def live_def proc_start_def NewProcessRuntime_def)

lemma reach_conf_ok: "proc_reach s t \<Longrightarrow> conf_ok s \<Longrightarrow> conf_ok t"
  by (induction rule: proc_reach.induct) (auto intro: proc_step_ok)

text \<open>C11: A mailbox neither loses nor repeats nor reorders: in every configuration that any number of
  senders, receivers and hosts lead to, the messages taken out of a process, followed by those
  still in its mailbox, are the messages accepted for it, in the order of acceptance.\<close>

theorem mailbox_is_fifo:
  assumes "proc_reach proc_start s" "live p (pc_rt s)"
  shows "accepted p (pc_log s) = received p (pc_log s) @ mailbox (proc p (pc_rt s))"
  using reach_conf_ok [OF assms(1) proc_start_ok] assms(2) by (simp add: conf_ok_def mail_ok_def box_def)

text \<open>A bounded mailbox never holds more than its bound, whatever its overflow policy and however many
  senders race for the last place.\<close>

theorem mailbox_within_bound:
  assumes "proc_reach proc_start s" "live p (pc_rt s)" "0 < proc_bound (proc p (pc_rt s))"
  shows "MailboxDepth p (pc_rt s) \<le> proc_bound (proc p (pc_rt s))"
  using reach_conf_ok [OF assms(1) proc_start_ok] assms(2,3) by (simp add: conf_ok_def bounds_ok_def MailboxDepth_def)

section \<open>Progress\<close>

lemma in_wake:
  "w \<in> set ws \<Longrightarrow> w\<lparr>sc_awake := True\<rparr> \<in> set (wake_sends (sc_to w) ws)"
  "r \<in> set rs \<Longrightarrow> r\<lparr>rc_awake := True\<rparr> \<in> set (wake_recvs (rc_at r) rs)"
  by (force simp: wake_sends_def wake_recvs_def)+

lemma id_removed: "\<lbrakk>distinct (map f xs); x \<in> set xs\<rbrakk> \<Longrightarrow> f x \<notin> f ` set (remove1 x xs)"
  by (induction xs) (auto simp: image_iff)

lemma set_wake: "sc_id ` set (wake_sends p ws) = sc_id ` set ws"
  by (metis list.set_map map_wake(1))

text \<open>A broadcast can be had whenever it makes a difference.\<close>

lemma broadcast_reach: "proc_reach s (broadcast p s)"
proof (cases "asleep_at p s")
  case True
  then show ?thesis using proc_reach.step [OF proc_reach.start proc_step.timer] by blast
next
  case False
  have "wake_sends p (pc_sends s) = pc_sends s"
    unfolding wake_sends_def by (rule map_idI) (use False in \<open>auto simp: asleep_at_def\<close>)
  moreover have "wake_recvs p (pc_recvs s) = pc_recvs s"
    unfolding wake_recvs_def by (rule map_idI) (use False in \<open>auto simp: asleep_at_def\<close>)
  ultimately have "broadcast p s = s" by (simp add: broadcast_def)
  then show ?thesis by (simp add: proc_reach.start)
qed

subsection \<open>Sleepers\<close>

definition sleeping_ok :: "'m proc_conf \<Rightarrow> bool" where
  "sleeping_ok s =
    ((\<forall>r \<in> set (pc_recvs s). \<not> rc_awake r \<longrightarrow> mailbox (proc (rc_at r) (pc_rt s)) = []) \<and>
     (\<forall>w \<in> set (pc_sends s). \<not> sc_awake w \<longrightarrow> \<not> proc_closed (proc (sc_to w) (pc_rt s)) \<and>
        0 < proc_bound (proc (sc_to w) (pc_rt s)) \<and>
        overflow (proc (sc_to w) (pc_rt s)) \<notin> {OverflowFail, OverflowDrop}))"

lemma host_overflow: "live q rt \<Longrightarrow> overflow (proc q (host_exec op rt)) = overflow (proc q rt)"
  by (cases op)
    (auto simp: Insert_proc_def Remove_proc_def RegisterName_def UnregisterName_def Shutdown_def Let_def
      split: option.split)

lemma waits: "Send_turn msg p rt = SendWaits \<Longrightarrow> \<not> proc_closed (proc p rt) \<and> 0 < proc_bound (proc p rt) \<and>
    overflow (proc p rt) \<notin> {OverflowFail, OverflowDrop}"
  by (auto simp: Send_turn_def Let_def split: if_splits)

lemma pop_waits_empty: "Pop_turn x p rt = PopWaits \<Longrightarrow> mailbox (proc p rt) = []"
  by (auto simp: Pop_turn_def split: list.splits)

lemma asleep_after:
  "w \<in> set (wake_sends p ws) \<Longrightarrow> \<not> sc_awake w \<Longrightarrow> w \<in> set ws \<and> sc_to w \<noteq> p"
  "r \<in> set (wake_recvs p rs) \<Longrightarrow> \<not> rc_awake r \<Longrightarrow> r \<in> set rs \<and> rc_at r \<noteq> p"
  "w \<in> set (sleep_sends v ws) \<Longrightarrow> \<not> sc_awake w \<Longrightarrow> w \<in> set ws \<or> v \<in> set ws \<and> w = v\<lparr>sc_awake := False\<rparr>"
  "r \<in> set (sleep_recvs u rs) \<Longrightarrow> \<not> rc_awake r \<Longrightarrow> r \<in> set rs \<or> u \<in> set rs \<and> r = u\<lparr>rc_awake := False\<rparr>"
  by (auto simp: wake_sends_def wake_recvs_def sleep_sends_def sleep_recvs_def split: if_splits)

lemma sleeping_keep:
  assumes "sleeping_ok s"
    and "\<And>r. r \<in> set (pc_recvs s') \<Longrightarrow> \<not> rc_awake r \<Longrightarrow> r \<in> set (pc_recvs s) \<and>
      (mailbox (proc (rc_at r) (pc_rt s)) = [] \<longrightarrow> mailbox (proc (rc_at r) (pc_rt s')) = [])"
    and "\<And>w. w \<in> set (pc_sends s') \<Longrightarrow> \<not> sc_awake w \<Longrightarrow> w \<in> set (pc_sends s) \<and>
      proc_closed (proc (sc_to w) (pc_rt s')) = proc_closed (proc (sc_to w) (pc_rt s)) \<and>
      proc_bound (proc (sc_to w) (pc_rt s')) = proc_bound (proc (sc_to w) (pc_rt s)) \<and>
      overflow (proc (sc_to w) (pc_rt s')) = overflow (proc (sc_to w) (pc_rt s))"
  shows "sleeping_ok s'"
  using assms(1) assms(2,3) unfolding sleeping_ok_def by metis

lemma sleeping_step:
  assumes "proc_step s s'" "sleeping_ok s" "calls_ok s"
  shows "sleeping_ok s'"
  using assms(1)
proof cases
  note l = calls_live [OF assms(3)]
  {
    case (host op)
    show ?thesis
      by (rule sleeping_keep [OF assms(2)]) (auto simp: host(1) l host_keeps host_overflow)
  next
    case (close p)
    show ?thesis
      by (rule sleeping_keep [OF assms(2)])
        (auto simp: close(1) broadcast_def Close_proc_def l dest!: asleep_after)
  next
    case (timer p)
    show ?thesis
      by (rule sleeping_keep [OF assms(2)]) (auto simp: timer(1) broadcast_def dest!: asleep_after)
  next
    case (send p msg)
    show ?thesis by (rule sleeping_keep [OF assms(2)]) (auto simp: send(1))
  next
    case (enqueued w)
    show ?thesis
    proof (rule sleeping_keep [OF assms(2)])
      fix r assume "r \<in> set (pc_recvs s')" "\<not> rc_awake r"
      then have "r \<in> set (pc_recvs s)" "rc_at r \<noteq> sc_to w"
        using asleep_after(2) by (auto simp: enqueued(1) broadcast_def)
      then show "r \<in> set (pc_recvs s) \<and>
          (mailbox (proc (rc_at r) (pc_rt s)) = [] \<longrightarrow> mailbox (proc (rc_at r) (pc_rt s')) = [])"
        by (simp add: enqueued(1) enqueue_def l)
    next
      fix u assume "u \<in> set (pc_sends s')" "\<not> sc_awake u"
      then have "u \<in> set (pc_sends s)"
        using asleep_after(1) set_remove1_subset [of w "pc_sends s"] by (fastforce simp: enqueued(1) broadcast_def)
      then show "u \<in> set (pc_sends s) \<and>
          proc_closed (proc (sc_to u) (pc_rt s')) = proc_closed (proc (sc_to u) (pc_rt s)) \<and>
          proc_bound (proc (sc_to u) (pc_rt s')) = proc_bound (proc (sc_to u) (pc_rt s)) \<and>
          overflow (proc (sc_to u) (pc_rt s')) = overflow (proc (sc_to u) (pc_rt s))"
        by (simp add: enqueued(1) enqueue_def l)
    qed
  next
    case (returned w r)
    show ?thesis
      by (rule sleeping_keep [OF assms(2)])
        (use set_remove1_subset [of w "pc_sends s"] in \<open>auto simp: returned(1)\<close>)
  next
    case (send_waits w)
    show ?thesis
      using assms(2) waits [OF send_waits(4)] unfolding sleeping_ok_def
      by (auto simp: send_waits(1) dest!: asleep_after)
  next
    case (receive p d)
    show ?thesis by (rule sleeping_keep [OF assms(2)]) (auto simp: receive(1))
  next
    case (popped w x m)
    show ?thesis
      by (rule sleeping_keep [OF assms(2)])
        (use set_remove1_subset [of w "pc_recvs s"] in \<open>auto simp: popped(1) dequeue_def l dest!: subsetD\<close>)
  next
    case (gave_up w x)
    show ?thesis
      by (rule sleeping_keep [OF assms(2)])
        (use set_remove1_subset [of w "pc_recvs s"] in \<open>auto simp: gave_up(1)\<close>)
  next
    case (pop_waits w x)
    show ?thesis
      using assms(2) pop_waits_empty [OF pop_waits(5)] unfolding sleeping_ok_def
      by (auto simp: pop_waits(1) dest!: asleep_after)
  }
qed

lemma reach_sleeping: "proc_reach proc_start s \<Longrightarrow> sleeping_ok s"
proof (induction rule: proc_reach.induct)
  case start
  then show ?case by (simp add: sleeping_ok_def proc_start_def)
next
  case (step t u)
  then show ?case
    using sleeping_step reach_conf_ok [OF step.hyps(1) proc_start_ok] by (auto simp: conf_ok_def)
qed

subsection \<open>Senders\<close>

text \<open>The step in which the message of a send is accepted, next after those accepted before, and the
  send returns.\<close>

definition accepts :: "'m send_call \<Rightarrow> 'm proc_conf \<Rightarrow> 'm proc_conf \<Rightarrow> bool" where
  "accepts w s s' =
    (pc_log s' = pc_log s @ [Accepted (sc_to w) (sc_msg w)] \<and> sc_id w \<notin> sc_id ` set (pc_sends s'))"

lemma same_send:
  assumes "u\<lparr>sc_awake := True\<rparr> = w\<lparr>sc_awake := True\<rparr>"
  shows "u = w\<lparr>sc_awake := sc_awake u\<rparr>" "sc_to u = sc_to w" "sc_msg u = sc_msg w" "sc_id u = sc_id w"
  using assms by (cases u, cases w, simp)+

lemma pendingI: "u \<in> set (pc_sends t) \<Longrightarrow> u\<lparr>sc_awake := True\<rparr> = w\<lparr>sc_awake := True\<rparr> \<Longrightarrow> pending_send w t"
  using same_send(1) [of u w] by (cases "sc_awake u") (auto simp: pending_send_def)

lemma pendingE:
  assumes "pending_send w s"
  obtains v where "v \<in> set (pc_sends s)" "v\<lparr>sc_awake := True\<rparr> = w\<lparr>sc_awake := True\<rparr>"
  using assms by (auto simp: pending_send_def)

lemma wake_keeps: "v \<in> set ws \<Longrightarrow> v \<in> set (wake_sends p ws) \<or> v\<lparr>sc_awake := True\<rparr> \<in> set (wake_sends p ws)"
  by (force simp: wake_sends_def)

lemma sleep_keeps: "v \<in> set ws \<Longrightarrow> v \<in> set (sleep_sends u ws) \<or> u = v \<and> v\<lparr>sc_awake := False\<rparr> \<in> set (sleep_sends u ws)"
  by (force simp: sleep_sends_def)

lemma enqueued_accepts:
  assumes "calls_ok s" "w \<in> set (pc_sends s)"
  shows "accepts w s (broadcast (sc_to w) (s\<lparr>pc_rt := rt, pc_sends := remove1 w (pc_sends s),
      pc_log := pc_log s @ [Accepted (sc_to w) (sc_msg w)]\<rparr>))"
proof -
  have "distinct (map sc_id (pc_sends s))" using assms(1) by (simp add: calls_ok_def)
  then show ?thesis using id_removed [of sc_id, OF _ assms(2)] by (simp add: accepts_def broadcast_def set_wake)
qed

text \<open>What one step does to a send: its own turn, or it stays in the list.\<close>

lemma send_step:
  assumes "proc_step s s'" "calls_ok s" "v \<in> set (pc_sends s)"
  shows "(v \<in> set (pc_sends s') \<or> v\<lparr>sc_awake := True\<rparr> \<in> set (pc_sends s')) \<or>
    (case Send_turn (sc_msg v) (sc_to v) (pc_rt s) of
       Enqueued \<Rightarrow> accepts v s s'
     | Returned r \<Rightarrow> True
     | SendWaits \<Rightarrow> v\<lparr>sc_awake := False\<rparr> \<in> set (pc_sends s'))"
  using assms(1)
proof cases
  case (enqueued w)
  show ?thesis
  proof (cases "w = v")
    case True
    then show ?thesis using enqueued_accepts [OF assms(2,3)] enqueued(1,4) by simp
  next
    case False
    then have "v \<in> set (remove1 w (pc_sends s))" using assms(3) by simp
    then show ?thesis using wake_keeps [of v _ "sc_to w"] by (simp add: enqueued(1) broadcast_def)
  qed
next
  case (send_waits w)
  then show ?thesis using sleep_keeps [OF assms(3), of w] by auto
next
  case (returned w r)
  then show ?thesis using assms(3) by (cases "w = v") auto
qed (use assms(3) wake_keeps [OF assms(3)] in \<open>auto simp: broadcast_def\<close>)

lemma pending_send_step:
  assumes "proc_step s s'" "calls_ok s" "pending_send w s"
    and "\<And>r. Send_turn (sc_msg w) (sc_to w) (pc_rt s) \<noteq> Returned r"
  shows "pending_send w s' \<or> accepts w s s'"
proof -
  obtain v where v: "v \<in> set (pc_sends s)" "v\<lparr>sc_awake := True\<rparr> = w\<lparr>sc_awake := True\<rparr>"
    using assms(3) by (rule pendingE)
  note same = same_send(2-4) [OF v(2)]
  have p: "u \<in> set (pc_sends s') \<Longrightarrow> u\<lparr>sc_awake := True\<rparr> = v\<lparr>sc_awake := True\<rparr> \<Longrightarrow> pending_send w s'" for u
    using pendingI [of u s' w] by (simp only: v(2))
  have "v \<in> set (pc_sends s') \<or> v\<lparr>sc_awake := True\<rparr> \<in> set (pc_sends s') \<or>
      v\<lparr>sc_awake := False\<rparr> \<in> set (pc_sends s') \<or> accepts v s s'"
    using send_step [OF assms(1,2) v(1)] assms(4)
    by (cases "Send_turn (sc_msg w) (sc_to w) (pc_rt s)") (auto simp: same)
  moreover have "accepts v s s' = accepts w s s'" by (simp add: accepts_def same)
  ultimately show ?thesis
    using p [of v] p [of "v\<lparr>sc_awake := True\<rparr>"] p [of "v\<lparr>sc_awake := False\<rparr>"] by auto
qed

lemma fair_send:
  assumes run: "proc_run r" "fair_to_senders r" and w: "pending_send w (r i)"
    and up: "\<And>j. j \<ge> i \<Longrightarrow> pending_send w (r j) \<Longrightarrow> \<not> proc_closed (proc (sc_to w) (pc_rt (r j))) \<and>
      \<not> rt_down (pc_rt (r j)) \<and> overflow (proc (sc_to w) (pc_rt (r j))) \<notin> {OverflowFail, OverflowDrop}"
    and room: "\<And>j. j \<ge> k \<Longrightarrow> pending_send w (r j) \<Longrightarrow> proc_bound (proc (sc_to w) (pc_rt (r j))) \<le> 0 \<or>
      int (length (mailbox (proc (sc_to w) (pc_rt (r j))))) < proc_bound (proc (sc_to w) (pc_rt (r j)))"
  shows "\<exists>j \<ge> i. pending_send w (r j) \<and> accepts w (r j) (r (Suc j))"
proof (rule ccontr)
  assume never: "\<not> ?thesis"
  let ?v = "w\<lparr>sc_awake := True\<rparr>" and ?u = "w\<lparr>sc_awake := False\<rparr>" and ?K = "max i k"
  have ok: "calls_ok (r j)" for j
    using reach_conf_ok [OF proc_run_reach [OF run(1)] proc_start_ok] by (simp add: conf_ok_def)
  have next_conf: "r (Suc j) = r j \<or> proc_step (r j) (r (Suc j))" for j using run(1) by (simp add: proc_run_def)
  have stays: "pending_send w (r (i + n))" for n
  proof (induction n)
    case (Suc n)
    have "Send_turn (sc_msg w) (sc_to w) (pc_rt (r (i + n))) \<noteq> Returned e" for e
      using up [OF _ Suc] by (auto simp: Send_turn_def Let_def)
    moreover have "\<not> accepts w (r (i + n)) (r (Suc (i + n)))" using never Suc by simp
    ultimately have "pending_send w (r (Suc (i + n)))"
      using next_conf [of "i + n"] pending_send_step [OF _ ok Suc] Suc by metis
    then show ?case by simp
  qed (use w in simp)
  have pend: "pending_send w (r j)" if "j \<ge> ?K" for j using stays [of "j - i"] that by simp
  have enq: "Send_turn (sc_msg w) (sc_to w) (pc_rt (r j)) = Enqueued" if "j \<ge> ?K" for j
    using up [OF _ pend [OF that]] room [OF _ pend [OF that]] that by (auto simp: enqueues)
  have awake: "?v \<in> set (pc_sends (r (Suc j)))" if "j \<ge> ?K" "?v \<in> set (pc_sends (r j))" for j
  proof -
    have "accepts ?v s t = accepts w s t" for s t by (simp add: accepts_def)
    then show ?thesis
      using next_conf [of j] send_step [OF _ ok that(2)] enq [OF that(1)] never pend [OF that(1)] that by auto
  qed
  have "\<exists>j0 \<ge> ?K. ?v \<in> set (pc_sends (r j0))"
  proof (rule ccontr)
    assume none: "\<not> ?thesis"
    then have "\<forall>j \<ge> ?K. ?u \<in> set (pc_sends (r j))" using pend unfolding pending_send_def by blast
    then obtain j where j: "j \<ge> ?K" "r (Suc j) = broadcast (sc_to w) (r j)"
      using run(2) unfolding fair_to_senders_def by fastforce
    have "?u \<in> set (pc_sends (r (Suc j)))" using \<open>\<forall>j \<ge> ?K. ?u \<in> _\<close> j(1) by simp
    then show False
      unfolding j(2) using asleep_after(1) [of ?u "sc_to w" "pc_sends (r j)"] by (simp add: broadcast_def)
  qed
  then obtain j0 where j0: "j0 \<ge> ?K" "?v \<in> set (pc_sends (r j0))" by blast
  have all: "?v \<in> set (pc_sends (r j))" if "j \<ge> j0" for j
    using that by (induction j rule: dec_induct) (use j0 awake in auto)
  then obtain j where j: "j \<ge> j0" "r (Suc j) = take_turn ?v (r j)"
    using run(2) [unfolded fair_to_senders_def, rule_format, of j0 ?v] by auto
  note v = all [OF j(1)]
  have "accepts ?v (r j) (r (Suc j))"
    unfolding j(2) take_turn_def using enq [of j] j j0(1) enqueued_accepts [OF ok v] by simp
  then have "accepts w (r j) (r (Suc j))" by (simp add: accepts_def)
  then show False using never pend [of j] j(1) j0(1) by auto
qed

text \<open>C22: A blocked sender gets its message in.  Take an infinite run of the calls on all processes
  that is fair to senders: a send that stays awake is not denied its turn for ever, and the
  100 ms timer of one that sleeps fires.  If a send is pending on a process with the policy
  block, the process stays open and the runtime up while it is pending, and from some moment on
  its mailbox has room, then there is a step in which exactly its message is accepted, next
  after all those accepted before, and the send returns.  Senders that keep filling the mailbox
  can starve it, which the premise on room excludes.\<close>

theorem blocked_sender_proceeds:
  assumes "proc_run r" "fair_to_senders r" "pending_send w (r i)"
    and "\<forall>j \<ge> i. pending_send w (r j) \<longrightarrow> \<not> proc_closed (proc (sc_to w) (pc_rt (r j))) \<and>
      \<not> rt_down (pc_rt (r j)) \<and> overflow (proc (sc_to w) (pc_rt (r j))) \<notin> {OverflowFail, OverflowDrop}"
    and "\<forall>j \<ge> k. pending_send w (r j) \<longrightarrow> proc_bound (proc (sc_to w) (pc_rt (r j))) \<le> 0 \<or>
      int (length (mailbox (proc (sc_to w) (pc_rt (r j))))) < proc_bound (proc (sc_to w) (pc_rt (r j)))"
  shows "\<exists>j \<ge> i. pending_send w (r j) \<and> pc_log (r (Suc j)) = pc_log (r j) @ [Accepted (sc_to w) (sc_msg w)] \<and>
    sc_id w \<notin> sc_id ` set (pc_sends (r (Suc j)))"
  using fair_send [OF assms(1-3), of k] assms(4,5) unfolding accepts_def by blast

text \<open>C26: No wake-up is lost: in every configuration that any number of senders, receivers and hosts
  lead to, a receiver sleeps only on an empty mailbox, and a sender only on an open process whose
  mailbox is bounded and whose policy is to block.  So whoever enqueues wakes the receivers, and
  whoever closes wakes the senders.  A pop is not in the list: it wakes nobody, and a sender
  sleeps on beside the room it made until its timer fires.\<close>

theorem wakeups_not_lost:
  assumes "proc_reach proc_start s"
  shows "(\<forall>r \<in> set (pc_recvs s). \<not> rc_awake r \<longrightarrow> mailbox (proc (rc_at r) (pc_rt s)) = []) \<and>
    (\<forall>w \<in> set (pc_sends s). \<not> sc_awake w \<longrightarrow> \<not> proc_closed (proc (sc_to w) (pc_rt s)) \<and>
       0 < proc_bound (proc (sc_to w) (pc_rt s)) \<and>
       overflow (proc (sc_to w) (pc_rt s)) \<notin> {OverflowFail, OverflowDrop})"
  using reach_sleeping [OF assms] unfolding sleeping_ok_def .

text \<open>Under a shutdown no turn waits, so a call that is woken returns.\<close>

definition pending :: "'m proc_conf \<Rightarrow> nat" where
  "pending s = length (pc_sends s) + length (pc_recvs s)"

lemma pending_broadcast [simp]: "pending (broadcast p s) = pending s"
    "length (pc_sends (broadcast p s)) = length (pc_sends s)" "length (pc_recvs (broadcast p s)) = length (pc_recvs s)"
  by (simp_all add: pending_def broadcast_def wake_sends_def wake_recvs_def)

lemma down_calls [simp]: "rt_down (enqueue m p rt) = rt_down rt" "rt_down (dequeue p rt) = rt_down rt"
  by (simp_all add: enqueue_def dequeue_def)

lemma down_send:
  assumes "rt_down (pc_rt s)" "w \<in> set (pc_sends s)"
  shows "\<exists>t. proc_reach s t \<and> rt_down (pc_rt t) \<and> pending t < pending s"
proof -
  let ?s = "broadcast (sc_to w) s" and ?w = "w\<lparr>sc_awake := True\<rparr>"
  have w: "?w \<in> set (pc_sends ?s)" "sc_awake ?w" using in_wake(1) [OF assms(2)] by (simp_all add: broadcast_def)
  have d: "rt_down (pc_rt ?s)" using assms(1) by simp
  have l: "length (remove1 ?w (pc_sends ?s)) < length (pc_sends ?s)"
    using w(1) length_pos_if_in_set [OF w(1)] by (simp add: length_remove1)
  have "\<exists>t. proc_step ?s t \<and> rt_down (pc_rt t) \<and> pending t < pending ?s"
  proof (cases "Send_turn (sc_msg ?w) (sc_to ?w) (pc_rt ?s)")
    case Enqueued
    show ?thesis
      by (rule exI, rule conjI [OF proc_step.enqueued [OF w Enqueued]]) (use d l in \<open>simp add: pending_def\<close>)
  next
    case (Returned r)
    show ?thesis
      by (rule exI, rule conjI [OF proc_step.returned [OF w Returned]]) (use d l in \<open>simp add: pending_def\<close>)
  next
    case SendWaits
    then show ?thesis using d by (auto simp: Send_turn_def Let_def split: if_splits)
  qed
  then show ?thesis
    by (metis pending_broadcast(1) broadcast_reach proc_reach.step)
qed

lemma down_receive:
  assumes "rt_down (pc_rt s)" "w \<in> set (pc_recvs s)"
  shows "\<exists>t. proc_reach s t \<and> rt_down (pc_rt t) \<and> pending t < pending s"
proof -
  let ?s = "broadcast (rc_at w) s" and ?w = "w\<lparr>rc_awake := True\<rparr>"
  have w: "?w \<in> set (pc_recvs ?s)" "rc_awake ?w" "False \<longrightarrow> rc_deadline ?w"
    using in_wake(2) [OF assms(2)] by (simp_all add: broadcast_def)
  have d: "rt_down (pc_rt ?s)" using assms(1) by simp
  have l: "length (remove1 ?w (pc_recvs ?s)) < length (pc_recvs ?s)"
    using w(1) length_pos_if_in_set [OF w(1)] by (simp add: length_remove1)
  have "\<exists>t. proc_step ?s t \<and> rt_down (pc_rt t) \<and> pending t < pending ?s"
  proof (cases "Pop_turn False (rc_at ?w) (pc_rt ?s)")
    case (Popped m)
    show ?thesis
      by (rule exI, rule conjI [OF proc_step.popped [OF w Popped]]) (use d l in \<open>simp add: pending_def\<close>)
  next
    case PopDown
    then have "Pop_turn False (rc_at ?w) (pc_rt ?s) \<in> {PopDown, PopTimeout}" by simp
    from proc_step.gave_up [OF w this] show ?thesis using d l by (auto simp: pending_def)
  qed (use d in \<open>auto simp: Pop_turn_def split: list.splits if_splits\<close>)
  then show ?thesis
    by (metis pending_broadcast(1) broadcast_reach proc_reach.step)
qed

text \<open>A shutdown releases everybody: once the runtime is down, every call that is pending, on whatever
  process, can return, whether a peer ever acts again or not.\<close>

theorem shutdown_releases_all:
  assumes "rt_down (pc_rt s)"
  shows "\<exists>t. proc_reach s t \<and> pc_sends t = [] \<and> pc_recvs t = []"
  using assms
proof (induction "pending s" arbitrary: s rule: less_induct)
  case less
  show ?case
  proof (cases "pending s = 0")
    case True
    then show ?thesis by (intro exI [of _ s]) (simp add: pending_def proc_reach.start)
  next
    case False
    then obtain w r where "w \<in> set (pc_sends s) \<or> r \<in> set (pc_recvs s)"
      by (cases "pc_sends s"; cases "pc_recvs s") (auto simp: pending_def)
    then obtain u where u: "proc_reach s u" "rt_down (pc_rt u)" "pending u < pending s"
      using down_send [OF less.prems] down_receive [OF less.prems] by blast
    then obtain t where "proc_reach u t" "pc_sends t = []" "pc_recvs t = []" using less.hyps by blast
    then show ?thesis using proc_reach_trans u(1) by blast
  qed
qed

section \<open>Names\<close>

text \<open>The runs in which a process is given a name only while it has no other.\<close>

definition name_guard :: "host_op \<Rightarrow> 'm ProcessRuntime \<Rightarrow> bool" where
  "name_guard op rt = ((\<forall>p \<in> op_procs op. live p rt) \<and>
    (case op of RegisterP name p \<Rightarrow> name \<noteq> [] \<and> proc_name (proc p rt) \<in> {[], name} | _ \<Rightarrow> True))"

inductive named_run :: "'m ProcessRuntime \<Rightarrow> bool" where
  new: "named_run NewProcessRuntime"
| op: "named_run rt \<Longrightarrow> name_guard op rt \<Longrightarrow> named_run (host_exec op rt)"

definition names_ok :: "'m ProcessRuntime \<Rightarrow> bool" where
  "names_ok rt = (gm_ok (rt_names rt) \<and> (\<forall>n p. gm_get (rt_names rt) n = Some p \<longleftrightarrow>
    live p rt \<and> proc_name (proc p rt) = n \<and> n \<noteq> []))"

lemma names_okD:
  assumes "names_ok rt"
  shows "gm_ok (rt_names rt)"
    "gm_get (rt_names rt) n = Some p \<longleftrightarrow> live p rt \<and> proc_name (proc p rt) = n \<and> n \<noteq> []"
  using assms unfolding names_ok_def by blast+

lemma names_uniq:
  assumes "names_ok rt" "live p rt" "live q rt" "proc_name (proc p rt) = proc_name (proc q rt)" "proc_name (proc q rt) \<noteq> []"
  shows "p = q"
proof -
  have "gm_get (rt_names rt) (proc_name (proc q rt)) = Some p"
    by (rule iffD2 [OF names_okD(2) [OF assms(1)]]) (intro conjI assms)
  moreover have "gm_get (rt_names rt) (proc_name (proc q rt)) = Some q"
    by (rule iffD2 [OF names_okD(2) [OF assms(1)]]) (intro conjI assms refl)
  ultimately show ?thesis by simp
qed

lemma RegisterName_effect:
  assumes "\<not> rt_down rt" "live p rt"
  shows "rt_names (snd (RegisterName n p rt)) = gm_put n p (rt_names rt)"
    "live q (snd (RegisterName n p rt)) = live q rt"
    "live q rt \<Longrightarrow> proc_name (proc q (snd (RegisterName n p rt))) =
      (if q = p then n else if gm_get (rt_names rt) n = Some q then [] else proc_name (proc q rt))"
  using assms by (auto simp: RegisterName_def Let_def split: option.split)

lemma names_host:
  assumes "names_ok rt" "name_guard op rt"
  shows "names_ok (host_exec op rt)"
proof (cases op)
  case (NewP i b ov)
  then show ?thesis
    using assms(1) unfolding names_ok_def
    by (auto simp: live_def proc_def NewProcess_def nth_append less_Suc_eq)
next
  case (RemoveP p)
  have l: "live p rt" using assms(2) RemoveP by (simp add: name_guard_def)
  show ?thesis
  proof (cases "proc_name (proc p rt) = []")
    case True
    then show ?thesis using assms(1) RemoveP by (simp add: names_ok_def Remove_proc_def Let_def)
  next
    case False
    then have "gm_get (rt_names rt) (proc_name (proc p rt)) = Some p" using assms(1) l by (simp add: names_ok_def)
    moreover from this have "proc_name (proc q rt) \<noteq> proc_name (proc p rt)" if "q \<noteq> p" "live q rt" for q
      using assms(1) that False unfolding names_ok_def by (metis option.inject)
    ultimately show ?thesis
      using assms(1) RemoveP False l unfolding names_ok_def
      by (auto simp: Remove_proc_def Let_def gm_oks split: if_splits)
  qed
next
  case (RegisterP n p)
  have g: "live p rt" "n \<noteq> []" "proc_name (proc p rt) = [] \<or> proc_name (proc p rt) = n"
    using assms(2) RegisterP by (auto simp: name_guard_def)
  let ?t = "host_exec op rt"
  have ok: "gm_ok (rt_names rt)" "\<And>n q. gm_get (rt_names rt) n = Some q \<longleftrightarrow>
      live q rt \<and> proc_name (proc q rt) = n \<and> n \<noteq> []"
    using assms(1) by (simp_all add: names_ok_def)
  show ?thesis
  proof (cases "rt_down rt")
    case True
    then show ?thesis using assms(1) RegisterP by (simp add: RegisterName_def)
  next
    case False
    note e = RegisterName_effect [where n = n, OF False g(1)]
    have "gm_get (rt_names ?t) k = Some q \<longleftrightarrow> live q ?t \<and> proc_name (proc q ?t) = k \<and> k \<noteq> []" for k q
      using e RegisterP g ok(2) [of k q] ok(2) [of n q] by (cases "q = p"; cases "k = n") auto
    then show ?thesis using e(1) RegisterP ok(1) by (simp add: names_ok_def gm_oks)
  qed
next
  case (UnregisterP n)
  show ?thesis
  proof (cases "gm_get (rt_names rt) n")
    case None
    then show ?thesis using assms(1) UnregisterP by (simp add: UnregisterName_def)
  next
    case (Some p)
    then have p: "live p rt" "proc_name (proc p rt) = n" "n \<noteq> []" using assms(1) by (auto simp: names_ok_def)
    have "proc_name (proc q rt) \<noteq> n" if "live q rt" "q \<noteq> p" for q
      using names_uniq [OF assms(1) that(1) p(1)] p that(2) by auto
    moreover have "host_exec op rt = (set_proc p (proc_name_update (\<lambda>_. [])) rt)\<lparr>rt_names := gm_del n (rt_names rt)\<rparr>"
      by (simp add: UnregisterP UnregisterName_def Some Let_def)
    ultimately show ?thesis
      using p names_okD [OF assms(1)] unfolding names_ok_def by (auto simp: gm_oks split: if_splits)
  qed
qed (use assms(1) in \<open>simp_all add: names_ok_def Insert_proc_def Shutdown_def\<close>)

lemma named_run_ok: "named_run rt \<Longrightarrow> names_ok rt"
proof (induction rule: named_run.induct)
  case new
  then show ?case by (simp add: names_ok_def NewProcessRuntime_def live_def)
next
  case (op rt op)
  then show ?case using names_host by blast
qed

text \<open>C24: Where a process is given a name only while it has none, the registry and the processes agree: a name
  resolves exactly to the process that holds it, and a process that exits leaves no name behind.\<close>

theorem names_resolve_to_holders:
  assumes "named_run rt"
  shows "(Whereis n rt = Some p \<longleftrightarrow> live p rt \<and> proc_name (proc p rt) = n \<and> n \<noteq> []) \<and>
    (live p rt \<longrightarrow> Whereis n (Remove_proc p rt) \<noteq> Some p)"
proof (intro conjI impI)
  show "Whereis n rt = Some p \<longleftrightarrow> live p rt \<and> proc_name (proc p rt) = n \<and> n \<noteq> []"
    using named_run_ok [OF assms] by (simp add: names_ok_def Whereis_def)
  assume l: "live p rt"
  then have "names_ok (Remove_proc p rt)"
    using names_host [OF named_run_ok [OF assms], of "RemoveP p"] by (simp add: name_guard_def)
  moreover have "proc_name (proc p (Remove_proc p rt)) = []" using l by (simp add: Remove_proc_def Let_def)
  ultimately show "Whereis n (Remove_proc p rt) \<noteq> Some p" by (auto simp: names_ok_def Whereis_def)
qed

text \<open>Without that discipline a name outlives its process: the second registration forgets the first.\<close>

lemma second_name_outlives_the_process:
  "(let rt = fold host_exec [NewP ''P_1'' 4 [], InsertP 0, RegisterP ''a'' 0, RegisterP ''b'' 0, RemoveP 0]
      (NewProcessRuntime :: nat ProcessRuntime) in (Whereis ''a'' rt, LookupPid ''P_1'' rt)) = (Some 0, None)"
  by code_simp

section \<open>A sample\<close>

text \<open>A process with one place, a message in it, and a sender that sleeps.\<close>

definition one_place :: "nat ProcessRuntime" where
  "one_place = snd (NewProcess ''P_1'' 1 [] NewProcessRuntime)"

definition sleeper :: "nat send_call" where
  "sleeper = \<lparr> sc_id = 1, sc_to = 0, sc_msg = 8, sc_awake = False \<rparr>"

definition full_conf :: "nat proc_conf" where
  "full_conf = \<lparr> pc_rt = enqueue 7 0 one_place, pc_sends = [sleeper], pc_recvs = [], pc_next = 2,
     pc_log = [Accepted 0 7] \<rparr>"

text \<open>A run: one message fills the mailbox, the next sender sleeps, a receive makes room, the timer
  fires, and the sender gets its message in.\<close>

definition first_send :: "nat send_call" where
  "first_send = \<lparr> sc_id = 0, sc_to = 0, sc_msg = 7, sc_awake = True \<rparr>"

definition late_recv :: recv_call where
  "late_recv = \<lparr> rc_id = 2, rc_at = 0, rc_deadline = False, rc_awake = True \<rparr>"

definition sample_confs :: "nat proc_conf list" where
  "sample_confs =
    (let s1 = proc_start\<lparr>pc_rt := one_place\<rparr>; s2 = s1\<lparr>pc_sends := [first_send], pc_next := 1\<rparr>;
         s3 = take_turn first_send s2; s4 = s3\<lparr>pc_sends := [sleeper\<lparr>sc_awake := True\<rparr>], pc_next := 2\<rparr>;
         s6 = full_conf\<lparr>pc_recvs := [late_recv], pc_next := 3\<rparr>;
         s7 = s6\<lparr>pc_rt := dequeue 0 (pc_rt s6), pc_recvs := [], pc_log := pc_log s6 @ [Received 0 7]\<rparr>;
         s8 = broadcast 0 s7
     in [proc_start, s1, s2, s3, s4, full_conf, s6, s7, s8, take_turn (sleeper\<lparr>sc_awake := True\<rparr>) s8])"

definition sample_run :: "nat \<Rightarrow> nat proc_conf" where
  "sample_run i = sample_confs ! min i 9"

lemma sample_steps:
  assumes "i < 9"
  shows "proc_step (sample_confs ! i) (sample_confs ! Suc i)"
proof -
  have l: "live 0 one_place" "live 0 (enqueue 7 0 one_place)"
    by (simp_all add: one_place_def live_def NewProcess_def enqueue_def set_proc_def)
  have t: "Send_turn 7 0 one_place = Enqueued" "Send_turn 8 0 (enqueue 7 0 one_place) = SendWaits"
    "Pop_turn False 0 (enqueue 7 0 one_place) = Popped 7" by code_simp+
  note defs = sample_confs_def Let_def proc_start_def first_send_def sleeper_def late_recv_def full_conf_def
    take_turn_def broadcast_def wake_sends_def wake_recvs_def sleep_sends_def t
  have "proc_step (sample_confs ! 0) (sample_confs ! 1)"
    using proc_step.host [of "NewP ''P_1'' 1 []" proc_start]
    by (simp add: sample_confs_def Let_def one_place_def) (simp add: proc_start_def)
  moreover have "proc_step (sample_confs ! 1) (sample_confs ! 2)"
    using proc_step.send [of 0 "sample_confs ! 1" 7] l by (simp add: defs)
  moreover have "proc_step (sample_confs ! 2) (sample_confs ! 3)"
    using take_turn_step [of first_send "sample_confs ! 2"]
    by (simp add: sample_confs_def Let_def first_send_def)
  moreover have "proc_step (sample_confs ! 3) (sample_confs ! 4)"
    using proc_step.send [of 0 "sample_confs ! 3" 8] l by (simp add: defs numeral_2_eq_2)
  moreover have "proc_step (sample_confs ! 4) (sample_confs ! 5)"
    using take_turn_step [of "sleeper\<lparr>sc_awake := True\<rparr>" "sample_confs ! 4"] by (simp add: defs)
  moreover have "proc_step (sample_confs ! 5) (sample_confs ! 6)"
    using proc_step.receive [of 0 full_conf False] l by (simp add: defs numeral_3_eq_3)
  moreover have "proc_step (sample_confs ! 6) (sample_confs ! 7)"
    using proc_step.popped [of late_recv "sample_confs ! 6" False 7] by (simp add: defs)
  moreover have "proc_step (sample_confs ! 7) (sample_confs ! 8)"
    using proc_step.timer [of 0 "sample_confs ! 7"] by (simp add: defs asleep_at_def)
  moreover have "proc_step (sample_confs ! 8) (sample_confs ! 9)"
    using take_turn_step [of "sleeper\<lparr>sc_awake := True\<rparr>" "sample_confs ! 8"]
    by (simp add: sample_confs_def Let_def) (simp add: full_conf_def broadcast_def wake_sends_def sleeper_def)
  moreover have "i \<in> {0, 1, 2, 3, 4, 5, 6, 7, 8}" using assms by auto
  ultimately show ?thesis by (auto simp: eval_nat_numeral)
qed

lemma sample_proc_run: "proc_run sample_run"
proof -
  have "sample_run (Suc i) = sample_run i \<or> proc_step (sample_run i) (sample_run (Suc i))" for i
    using sample_steps [of i] by (cases "i < 9") (simp_all add: sample_run_def min_def)
  then show ?thesis by (simp add: proc_run_def sample_run_def sample_confs_def Let_def)
qed

lemma room_again: "Send_turn 8 0 (dequeue 0 (enqueue 7 0 one_place)) = Enqueued"
  by code_simp

lemma sample_end: "j \<ge> 9 \<Longrightarrow> pc_sends (sample_run j) = []"
  by (simp add: sample_run_def sample_confs_def Let_def take_turn_def full_conf_def broadcast_def wake_sends_def
      sleeper_def room_again)

lemma sample_fair: "fair_to_senders sample_run"
  unfolding fair_to_senders_def
proof (intro allI impI)
  fix w i assume "\<forall>j \<ge> i. w \<in> set (pc_sends (sample_run j))"
  then have "w \<in> set (pc_sends (sample_run (max i 9)))" by simp
  then show "\<exists>j \<ge> i. sample_run (Suc j) = (if sc_awake w then take_turn w (sample_run j) else broadcast (sc_to w) (sample_run j))"
    using sample_end [of "max i 9"] by simp
qed

lemma full_reach: "proc_reach proc_start full_conf"
  using proc_run_reach [OF sample_proc_run, of 5] by (simp add: sample_run_def sample_confs_def Let_def)

lemma full_live: "live 0 (pc_rt full_conf)"
  by (simp add: full_conf_def one_place_def live_def NewProcess_def enqueue_def set_proc_def)

lemma mailbox_is_fifo_witness:
  "accepted 0 (pc_log full_conf) = [7] \<and> received 0 (pc_log full_conf) = [] \<and> mailbox (proc 0 (pc_rt full_conf)) = [7]"
  using mailbox_is_fifo [OF full_reach full_live] by (simp add: full_conf_def)

lemma mailbox_within_bound_witness: "MailboxDepth 0 (pc_rt full_conf) \<le> 1"
proof -
  have "proc_bound (proc 0 (pc_rt full_conf)) = 1" by code_simp
  then show ?thesis using mailbox_within_bound [OF full_reach full_live] by simp
qed

lemma sample_open:
  assumes "j \<ge> 5" "pending_send sleeper (sample_run j)"
  shows "\<not> proc_closed (proc 0 (pc_rt (sample_run j))) \<and> \<not> rt_down (pc_rt (sample_run j)) \<and>
    overflow (proc 0 (pc_rt (sample_run j))) \<notin> {OverflowFail, OverflowDrop}"
proof -
  have "j < 9" using assms(2) sample_end [of j] by (cases "j < 9") (simp_all add: pending_send_def)
  then have "j \<in> {5, 6, 7, 8}" using assms(1) by auto
  moreover have "pc_rt (sample_run i) = enqueue 7 0 one_place" if "i \<in> {5, 6}" for i
    using that by (auto simp: sample_run_def sample_confs_def Let_def full_conf_def eval_nat_numeral)
  moreover have "pc_rt (sample_run i) = dequeue 0 (enqueue 7 0 one_place)" if "i \<in> {7, 8}" for i
    using that by (auto simp: sample_run_def sample_confs_def Let_def full_conf_def eval_nat_numeral)
  moreover have "\<not> proc_closed (proc 0 rt) \<and> \<not> rt_down rt \<and> overflow (proc 0 rt) \<notin> {OverflowFail, OverflowDrop}"
    if "rt = enqueue 7 0 one_place \<or> rt = dequeue 0 (enqueue 7 0 one_place)" for rt
  proof -
    have "list_all (\<lambda>rt. \<not> proc_closed (proc 0 rt) \<and> \<not> rt_down rt \<and>
        overflow (proc 0 rt) \<noteq> OverflowFail \<and> overflow (proc 0 rt) \<noteq> OverflowDrop)
      [enqueue 7 0 one_place, dequeue 0 (enqueue 7 0 one_place)]" by code_simp
    then show ?thesis using that by auto
  qed
  ultimately show ?thesis by (metis insertE insertI1 singletonD insertI2)
qed

lemma blocked_sender_proceeds_witness:
  "\<exists>j \<ge> 5. pending_send sleeper (sample_run j) \<and> pc_log (sample_run (Suc j)) = pc_log (sample_run j) @ [Accepted 0 8] \<and>
    sc_id sleeper \<notin> sc_id ` set (pc_sends (sample_run (Suc j)))"
proof -
  have p: "pending_send sleeper (sample_run 5)"
    by (simp add: sample_run_def sample_confs_def Let_def full_conf_def pending_send_def sleeper_def)
  have s: "sc_to sleeper = 0" "sc_msg sleeper = 8" by (simp_all add: sleeper_def)
  have room: "\<forall>j \<ge> 9. \<not> pending_send sleeper (sample_run j)" using sample_end by (simp add: pending_send_def)
  have up: "\<forall>j \<ge> 5. pending_send sleeper (sample_run j) \<longrightarrow>
      \<not> proc_closed (proc (sc_to sleeper) (pc_rt (sample_run j))) \<and> \<not> rt_down (pc_rt (sample_run j)) \<and>
      overflow (proc (sc_to sleeper) (pc_rt (sample_run j))) \<notin> {OverflowFail, OverflowDrop}"
    unfolding s(1) using sample_open by blast
  show ?thesis
    using blocked_sender_proceeds [OF sample_proc_run sample_fair p up, of 9] room unfolding s by blast
qed

lemma wakeups_not_lost_witness: "0 < proc_bound (proc 0 (pc_rt full_conf)) \<and> \<not> proc_closed (proc 0 (pc_rt full_conf))"
proof -
  have "sleeper \<in> set (pc_sends full_conf)" "\<not> sc_awake sleeper" "sc_to sleeper = 0"
    by (simp_all add: full_conf_def sleeper_def)
  then show ?thesis using wakeups_not_lost [OF full_reach] by force
qed

lemma shutdown_releases_all_witness:
  "\<exists>t. proc_reach (full_conf\<lparr>pc_rt := Shutdown (pc_rt full_conf)\<rparr>) t \<and> pc_sends t = [] \<and> pc_recvs t = []"
  by (rule shutdown_releases_all) code_simp

lemma names_resolve_to_holders_witness:
  "Whereis ''a'' (fold host_exec [NewP ''P_1'' 4 [], RegisterP ''a'' 0] (NewProcessRuntime :: nat ProcessRuntime)) = Some 0"
proof -
  let ?rt = "host_exec (NewP ''P_1'' 4 []) (NewProcessRuntime :: nat ProcessRuntime)"
  have "named_run ?rt" by (rule named_run.op [OF named_run.new]) (simp add: name_guard_def)
  then have "named_run (host_exec (RegisterP ''a'' 0) ?rt)"
    by (rule named_run.op)
      (simp add: name_guard_def live_def NewProcess_def NewProcessRuntime_def proc_def)
  moreover have "live 0 (host_exec (RegisterP ''a'' 0) ?rt)" "proc_name (proc 0 (host_exec (RegisterP ''a'' 0) ?rt)) = ''a''"
    by code_simp+
  ultimately show ?thesis using names_resolve_to_holders [of "host_exec (RegisterP ''a'' 0) ?rt" "''a''" 0] by simp
qed

text \<open>A pop does not signal: the sender of the sample sleeps on although there is room again, until a
  timer wakes it.\<close>

lemma pop_wakes_no_sender:
  "\<exists>s. proc_reach full_conf s \<and> pc_sends s = [sleeper] \<and> Send_turn 8 0 (pc_rt s) = Enqueued"
proof -
  let ?r = "\<lparr> rc_id = 2, rc_at = 0, rc_deadline = False, rc_awake = True \<rparr>"
  let ?s = "full_conf\<lparr>pc_recvs := [?r], pc_next := 3\<rparr>"
  let ?t = "?s\<lparr>pc_rt := dequeue 0 (pc_rt ?s), pc_recvs := [], pc_log := pc_log ?s @ [Received 0 7]\<rparr>"
  have "proc_step full_conf ?s"
    using proc_step.receive [OF full_live, of False] by (simp add: full_conf_def numeral_3_eq_3)
  moreover have "Pop_turn False 0 (pc_rt full_conf) = Popped 7" by code_simp
  then have "proc_step ?s ?t" using proc_step.popped [of ?r ?s False 7] by simp
  moreover have "Send_turn 8 0 (pc_rt ?t) = Enqueued" "pc_sends ?t = [sleeper]" by code_simp+
  ultimately show ?thesis by (meson proc_reach.intros)
qed

text \<open>A mailbox with room takes messages after the shutdown too.\<close>

lemma send_after_shutdown: "Send_turn 7 0 (Shutdown one_place) = Enqueued"
  by code_simp

end
