(* ===== verification/Format_Doc.thy ===== *)
theory Format_Doc
  imports Floats
begin

text \<open>
  The layout documents of the formatter (lang/go/formatter/doc.go, and pad of
  rules.go): the two loops over explicit stacks, a recursive layout they are
  equivalent to, and what a layout leaves of a document.  Columns are lengths of
  what has been written, so they stay below the range of an int; the sums over a
  width and an indent of the caller wrap around.
\<close>

section \<open>Documents\<close>

datatype Doc =
    DocText string
  | DocLine bool
  | DocConcat "Doc list"
  | DocGroup Doc
  | DocIndent int Doc

definition maxPad :: int where "maxPad = 65536"

definition pad :: "int \<Rightarrow> string" where
  "pad n = (let n = (if n < 0 then 0 else n); n = (if n > maxPad then maxPad else n) in replicate (nat n) CHR '' '')"

section \<open>The loops\<close>

function fits_loop :: "int \<Rightarrow> Doc list \<Rightarrow> bool" where
  "fits_loop remaining [] = (0 \<le> remaining)"
| "fits_loop remaining (d # stack) =
    (if \<not> 0 \<le> remaining then False
     else case d of
       DocText s \<Rightarrow> fits_loop (remaining - int (length s)) stack
     | DocLine hard \<Rightarrow> if hard then False else fits_loop (remaining - 1) stack
     | DocConcat parts \<Rightarrow> fits_loop remaining (parts @ stack)
     | DocIndent n body \<Rightarrow> fits_loop remaining (body # stack)
     | DocGroup body \<Rightarrow> fits_loop remaining (body # stack))"
  by pat_completeness auto
termination by (relation "measure (size_list size \<circ> snd)") auto

definition fitsFlat :: "int \<Rightarrow> Doc \<Rightarrow> bool" where
  "fitsFlat remaining doc = fits_loop remaining [doc]"

function render_loop :: "int \<Rightarrow> (int \<times> bool \<times> Doc) list \<Rightarrow> int \<Rightarrow> string \<Rightarrow> string" where
  "render_loop width [] col b = b"
| "render_loop width ((indent, flat, d) # stack) col b =
    (case d of
       DocText s \<Rightarrow> render_loop width stack (col + int (length s)) (b @ s)
     | DocLine hard \<Rightarrow>
         if flat \<and> \<not> hard then render_loop width stack (col + 1) (b @ '' '')
         else render_loop width stack (int (length (pad indent))) (b @ [CHR 10] @ pad indent)
     | DocConcat parts \<Rightarrow> render_loop width (map (\<lambda>p. (indent, flat, p)) parts @ stack) col b
     | DocIndent n body \<Rightarrow> render_loop width ((add64 indent n, flat, body) # stack) col b
     | DocGroup body \<Rightarrow>
         render_loop width ((indent, flat \<or> fitsFlat (add64 width (- col)) body, body) # stack) col b)"
  by pat_completeness auto
termination
  by (relation "measure (\<lambda>(w, st, c, b). size_list (\<lambda>(i, f, d). size d) st)") (auto simp: o_def split_def)

definition RenderDoc :: "int \<Rightarrow> Doc \<Rightarrow> string" where
  "RenderDoc width doc = render_loop width [(0, False, doc)] 0 []"

declare fits_loop.simps(2) [simp del] render_loop.simps(2) [simp del]

section \<open>The layout as a recursion\<close>

text \<open>The width of a document on one line, where it can be on one.\<close>

fun flat_width :: "Doc \<Rightarrow> int option"
  and flat_widths :: "Doc list \<Rightarrow> int option" where
  "flat_width (DocText s) = Some (int (length s))"
| "flat_width (DocLine hard) = (if hard then None else Some 1)"
| "flat_width (DocConcat parts) = flat_widths parts"
| "flat_width (DocGroup body) = flat_width body"
| "flat_width (DocIndent n body) = flat_width body"
| "flat_widths [] = Some 0"
| "flat_widths (d # ds) =
    (case (flat_width d, flat_widths ds) of (Some m, Some n) \<Rightarrow> Some (m + n) | _ \<Rightarrow> None)"

definition fits :: "int \<Rightarrow> Doc \<Rightarrow> bool" where
  "fits remaining d = (case flat_width d of None \<Rightarrow> False | Some n \<Rightarrow> n \<le> remaining)"

text \<open>The text of a document from a column on, and the column after it.\<close>

fun layout :: "int \<Rightarrow> int \<Rightarrow> bool \<Rightarrow> int \<Rightarrow> Doc \<Rightarrow> string \<times> int"
  and layouts :: "int \<Rightarrow> int \<Rightarrow> bool \<Rightarrow> int \<Rightarrow> Doc list \<Rightarrow> string \<times> int" where
  "layout w ind flat col (DocText s) = (s, col + int (length s))"
| "layout w ind flat col (DocLine hard) =
    (if flat \<and> \<not> hard then ('' '', col + 1) else (CHR 10 # pad ind, int (length (pad ind))))"
| "layout w ind flat col (DocConcat parts) = layouts w ind flat col parts"
| "layout w ind flat col (DocGroup body) = layout w ind (flat \<or> fits (add64 w (- col)) body) col body"
| "layout w ind flat col (DocIndent n body) = layout w (add64 ind n) flat col body"
| "layouts w ind flat col [] = ([], col)"
| "layouts w ind flat col (d # ds) =
    (let (s, c) = layout w ind flat col d; (t, c') = layouts w ind flat c ds in (s @ t, c'))"

fun doc_text :: "Doc \<Rightarrow> string" where
  "doc_text (DocText s) = s"
| "doc_text (DocLine hard) = []"
| "doc_text (DocConcat parts) = concat (map doc_text parts)"
| "doc_text (DocGroup body) = doc_text body"
| "doc_text (DocIndent n body) = doc_text body"

section \<open>Equivalence\<close>

lemma flat_width_nonneg:
  "flat_width d = Some n \<Longrightarrow> 0 \<le> n"
  "flat_widths ds = Some n \<Longrightarrow> 0 \<le> n"
  by (induction d and ds arbitrary: n and n rule: flat_width_flat_widths.induct) (auto split: if_splits option.splits)

lemma flat_widths_append:
  "flat_widths (ds @ es) = (case (flat_widths ds, flat_widths es) of (Some m, Some n) \<Rightarrow> Some (m + n) | _ \<Rightarrow> None)"
  by (induction ds) (auto split: option.splits)

lemma fits_loop_correct: "fits_loop r ds = (case flat_widths ds of None \<Rightarrow> False | Some n \<Rightarrow> n \<le> r)"
proof (induction r ds rule: fits_loop.induct)
  case (2 r d st)
  show ?case
  proof (cases "0 \<le> r")
    case True
    then show ?thesis
      using 2 by (cases d) (auto simp: fits_loop.simps(2) flat_widths_append split: option.splits)
  next
    case False
    then show ?thesis
      using flat_width_nonneg(2) [of "d # st"] by (auto simp: fits_loop.simps(2) split: option.splits)
  qed
qed auto

lemma fitsFlat_fits: "fitsFlat r d = fits r d"
  by (simp add: fitsFlat_def fits_def fits_loop_correct split: option.split)

lemma render_loop_layout:
  "render_loop w ((i, flat, d) # st) c b = render_loop w st (snd (layout w i flat c d)) (b @ fst (layout w i flat c d))"
  "render_loop w (map (\<lambda>p. (i, flat, p)) ds @ st) c b =
    render_loop w st (snd (layouts w i flat c ds)) (b @ fst (layouts w i flat c ds))"
proof (induction w i flat c d and w i flat c ds arbitrary: st b and st b rule: layout_layouts.induct)
  case (7 w i flat c d ds)
  obtain s e where s: "layout w i flat c d = (s, e)" by fastforce
  show ?case using 7(1) [of "map (\<lambda>p. (i, flat, p)) ds @ st" b] 7(2) [OF s [symmetric] refl, of st "b @ s"]
    by (simp add: s split_def Let_def)
qed (simp_all add: render_loop.simps(2) fitsFlat_fits)

text \<open>C25: The formatter's loop with its stack and its look-ahead is the recursive layout in which a group goes on
  one line exactly when its width on one line is at most what is left of the line.\<close>

theorem render_is_layout:
  "RenderDoc width doc = fst (layout width 0 False 0 doc) \<and>
    (fitsFlat r doc \<longleftrightarrow> (\<exists>n. flat_width doc = Some n \<and> n \<le> r))"
  by (auto simp: RenderDoc_def render_loop_layout(1) fitsFlat_fits fits_def split: option.split)

section \<open>What a layout keeps\<close>

definition blank :: "char \<Rightarrow> bool" where
  "blank c = (c = CHR '' '' \<or> c = CHR 10)"

lemma filter_pad [simp]: "filter (\<lambda>c. \<not> blank c) (pad n) = []"
  by (simp add: pad_def Let_def blank_def)

lemma blanks [simp]: "blank CHR '' ''" "blank CHR 10"
  by (simp_all add: blank_def)

lemma layout_text:
  "filter (\<lambda>c. \<not> blank c) (fst (layout w i flat c d)) = filter (\<lambda>c. \<not> blank c) (doc_text d)"
  "filter (\<lambda>c. \<not> blank c) (fst (layouts w i flat c ds)) = filter (\<lambda>c. \<not> blank c) (concat (map doc_text ds))"
proof (induction w i flat c d and w i flat c ds rule: layout_layouts.induct)
  case (7 w i flat c d ds)
  obtain s e where s: "layout w i flat c d = (s, e)" by fastforce
  show ?case using 7(1) 7(2) [OF s [symmetric] refl] by (simp add: s split_def Let_def)
qed simp_all

text \<open>Formatting changes nothing but white space: whatever the width and the indents, the characters other
  than space and newline that come out are those of the document, in its order.\<close>

theorem layout_keeps_content:
  "filter (\<lambda>c. \<not> blank c) (RenderDoc width doc) = filter (\<lambda>c. \<not> blank c) (doc_text doc)"
  by (simp add: RenderDoc_def render_loop_layout(1) layout_text(1))

lemma flat_layout:
  "flat_width d = Some n \<Longrightarrow> snd (layout w i True c d) = c + n \<and>
    (CHR 10 \<notin> set (doc_text d) \<longrightarrow> CHR 10 \<notin> set (fst (layout w i True c d)))"
  "flat_widths ds = Some n \<Longrightarrow> snd (layouts w i True c ds) = c + n \<and>
    (CHR 10 \<notin> set (concat (map doc_text ds)) \<longrightarrow> CHR 10 \<notin> set (fst (layouts w i True c ds)))"
proof (induction d and ds arbitrary: i c n and i c n rule: flat_width_flat_widths.induct)
  case (7 d ds)
  then obtain m k where "flat_width d = Some m" "flat_widths ds = Some k" "n = m + k"
    by (auto split: option.splits)
  then show ?case using 7 by (auto simp: Let_def split_def)
qed (auto split: if_splits)

text \<open>A group that is kept flat stays on its line: what fits what is left of the line is laid out without
  a newline and ends within the width.\<close>

theorem flat_group_fits:
  assumes "fitsFlat (width - col) doc" "CHR 10 \<notin> set (doc_text doc)"
  shows "snd (layout width ind True col doc) \<le> width \<and> CHR 10 \<notin> set (fst (layout width ind True col doc))"
proof -
  obtain n where n: "flat_width doc = Some n" "n \<le> width - col"
    using assms(1) by (auto simp: fitsFlat_fits fits_def split: option.splits)
  show ?thesis using flat_layout(1) [OF n(1), of width ind col] n(2) assms(2) by auto
qed

definition sample_doc :: Doc where
  "sample_doc = DocGroup (DocConcat [DocText ''f('', DocIndent 2 (DocConcat [DocLine False, DocText ''x'']),
     DocLine False, DocText '')''])"

lemma flat_group_fits_witness:
  "snd (layout 10 0 True 0 sample_doc) \<le> 10 \<and> CHR 10 \<notin> set (fst (layout 10 0 True 0 sample_doc))"
  by (rule flat_group_fits; code_simp)

text \<open>Three columns less, and the group breaks.\<close>

lemma sample_layouts:
  "RenderDoc 10 sample_doc = ''f( x )'' \<and>
   RenderDoc 5 sample_doc = ''f('' @ [CHR 10] @ ''  x'' @ [CHR 10] @ '')''"
  by code_simp

text \<open>A width at the end of the range wraps around, and everything fits.\<close>

lemma smallest_width_fits_all:
  "RenderDoc (- 0x8000000000000000) (DocConcat [DocText ''a'', DocGroup (DocConcat [DocLine False, DocText ''b''])]) = ''a b''"
  by code_simp

end
