(* ===== verification/Tui_Frames.thy ===== *)
theory Tui_Frames
  imports Go_Runes
begin

text \<open>
  Frames of cells and what a backend repaints (lang/go/tuikit: frame.go, diff.go,
  width.go).
\<close>

section \<open>Widths\<close>

definition zeroWidth :: "(int \<times> int) list" where
  "zeroWidth = [(0x0300, 0x036F), (0x0483, 0x0489), (0x0591, 0x05BD), (0x0610, 0x061A), (0x064B, 0x065F),
    (0x0670, 0x0670), (0x06D6, 0x06DC), (0x0E31, 0x0E31), (0x0E34, 0x0E3A), (0x0E47, 0x0E4E), (0x200B, 0x200F),
    (0x1AB0, 0x1AFF), (0x1DC0, 0x1DFF), (0x20D0, 0x20FF), (0xFE00, 0xFE0F), (0xFE20, 0xFE2F), (0xE0100, 0xE01EF)]"

definition wide :: "(int \<times> int) list" where
  "wide = [(0x1100, 0x115F), (0x2E80, 0x303E), (0x3041, 0x33FF), (0x3400, 0x4DBF), (0x4E00, 0x9FFF),
    (0xA000, 0xA4CF), (0xAC00, 0xD7A3), (0xF900, 0xFAFF), (0xFE30, 0xFE4F), (0xFF00, 0xFF60), (0xFFE0, 0xFFE6),
    (0x1F300, 0x1F64F), (0x1F680, 0x1F6FF), (0x1F900, 0x1F9FF), (0x20000, 0x2FFFD), (0x30000, 0x3FFFD)]"

fun inRanges :: "int \<Rightarrow> (int \<times> int) list \<Rightarrow> bool" where
  "inRanges r [] = False"
| "inRanges r ((lo, hi) # table) = (if lo \<le> r \<and> r \<le> hi then True else inRanges r table)"

definition RuneWidth :: "int \<Rightarrow> int" where
  "RuneWidth r = (if r = 0 \<or> inRanges r zeroWidth then 0 else if inRanges r wide then 2 else 1)"

definition StringWidth :: "string \<Rightarrow> int" where
  "StringWidth s = fold (\<lambda>(r, n) w. w + RuneWidth r) (runes s) 0"

fun truncate_loop :: "string \<Rightarrow> int \<Rightarrow> (int \<times> nat) list \<Rightarrow> nat \<Rightarrow> int \<Rightarrow> string \<times> int" where
  "truncate_loop s limit [] i w = (s, w)"
| "truncate_loop s limit ((r, n) # rs) i w =
    (let rw = RuneWidth r in if w + rw > limit then (take i s, w) else truncate_loop s limit rs (i + n) (w + rw))"

definition truncateToWidth :: "string \<Rightarrow> int \<Rightarrow> string \<times> int" where
  "truncateToWidth s limit = truncate_loop s limit (runes s) 0 0"

section \<open>Cells and frames\<close>

record Style =
  FG :: string
  BG :: string
  Bold :: bool
  Italic :: bool
  Underline :: bool
  Reverse :: bool

definition no_style :: Style where
  "no_style = \<lparr> FG = [], BG = [], Bold = False, Italic = False, Underline = False, Reverse = False \<rparr>"

record Cell =
  Content :: string
  Width :: int
  cell_Style :: Style

definition no_cell :: Cell where
  "no_cell = \<lparr> Content = [], Width = 0, cell_Style = no_style \<rparr>"

record Frame =
  Cols :: int
  Rows :: int
  Cells :: "Cell list"

definition NewFrame :: "int \<Rightarrow> int \<Rightarrow> Frame" where
  "NewFrame cols rows =
    (let cols = (if cols < 0 then 0 else cols); rows = (if rows < 0 then 0 else rows)
     in \<lparr> Cols = cols, Rows = rows, Cells = replicate (nat (cols * rows)) no_cell \<rparr>)"

definition At_cell :: "Frame \<Rightarrow> int \<Rightarrow> int \<Rightarrow> Cell option" where
  "At_cell f x y =
    (if x < 0 \<or> y < 0 \<or> x \<ge> Cols f \<or> y \<ge> Rows f then None else Some (Cells f ! nat (y * Cols f + x)))"

definition Set_cell :: "int \<Rightarrow> int \<Rightarrow> Cell \<Rightarrow> Frame \<Rightarrow> Frame" where
  "Set_cell x y c f =
    (if x < 0 \<or> y < 0 \<or> x \<ge> Cols f \<or> y \<ge> Rows f then f
     else f\<lparr>Cells := (Cells f)[nat (y * Cols f + x) := c]\<rparr>)"

fun render_row :: "Cell list \<Rightarrow> string" where
  "render_row [] = []"
| "render_row (c # cs) =
    (if Width c < 0 then render_row cs
     else if Content c = [] then '' '' @ render_row cs
     else Content c @ render_row cs)"

text \<open>The cells of one row.\<close>

definition row_of :: "Frame \<Rightarrow> int \<Rightarrow> Cell list" where
  "row_of f y = take (nat (Cols f)) (drop (nat (y * Cols f)) (Cells f))"

definition renderRows :: "Frame \<Rightarrow> string list" where
  "renderRows f = map (\<lambda>y. render_row (row_of f y)) [0..Rows f - 1]"

section \<open>Damage\<close>

record Span =
  span_X :: int
  span_Y :: int
  span_Cells :: "Cell list"

text \<open>The run of changed cells from a column on, and the rest of the row.\<close>

fun changed_run :: "Cell list \<Rightarrow> Cell list \<Rightarrow> nat" where
  "changed_run (p # ps) (q # qs) = (if p \<noteq> q then Suc (changed_run ps qs) else 0)"
| "changed_run _ _ = 0"

lemma changed_run_le: "changed_run ps qs \<le> length qs"
  by (induction ps qs rule: changed_run.induct) auto

function row_spans :: "int \<Rightarrow> int \<Rightarrow> Cell list \<Rightarrow> Cell list \<Rightarrow> Span list" where
  "row_spans y x (p # ps) (q # qs) =
    (if p = q then row_spans y (x + 1) ps qs
     else let n = changed_run (p # ps) (q # qs) in
       \<lparr> span_X = x, span_Y = y, span_Cells = take n (q # qs) \<rparr> #
         row_spans y (x + int n) (drop n (p # ps)) (drop n (q # qs)))"
| "row_spans y x [] qs = []"
| "row_spans y x ps [] = []"
  by pat_completeness auto
termination by (relation "measure (\<lambda>(y, x, ps, qs). length ps)") auto

definition DiffFrames :: "Frame option \<Rightarrow> Frame \<Rightarrow> Span list" where
  "DiffFrames prev next =
    (case prev of
       Some p \<Rightarrow>
         if Cols p \<noteq> Cols next \<or> Rows p \<noteq> Rows next
         then map (\<lambda>y. \<lparr> span_X = 0, span_Y = y, span_Cells = row_of next y \<rparr>) [0..Rows next - 1]
         else concat (map (\<lambda>y. row_spans y 0 (row_of p y) (row_of next y)) [0..Rows next - 1])
     | None \<Rightarrow> map (\<lambda>y. \<lparr> span_X = 0, span_Y = y, span_Cells = row_of next y \<rparr>) [0..Rows next - 1])"

end
