(* ===== verification/Tui_Layout.thy ===== *)
theory Tui_Layout
  imports Tui_Frames
begin

text \<open>
  The widget tree as data and the solver of sizes (lang/go/tuikit/layout.go).
  Arithmetic on numbers of the tree wraps around as the 64-bit integers do.
\<close>

section \<open>Tree data\<close>

text \<open>
  The shapes an \<open>any\<close> of the tree has: \<open>NInt\<close> for int and int64, \<open>NFloat\<close> for a
  float64 (None for NaN and the infinities), \<open>NNumber\<close> for the text of a
  json.Number.
\<close>

datatype node =
    NMap "(string \<times> node) list"
  | NList "node list"
  | NStr string
  | NInt int
  | NFloat "rat option"
  | NNumber string
  | NBool bool
  | NNil

datatype tui_error =
    MustBe string string
  | NodeNotMap
  | NoKind
  | UnknownKind string
  | SizeError tui_error
  | SizeKeyword string
  | SizeNeedsKey
  | SizeShape
  | StyleNotMap
  | StyleError tui_error
  | BorderUnknown string
  | PadShape
  | PadNegative
  | BadItem
  | BadColumn
  | BadRow
  | OffsetShape
  | OffsetNegative
  | BadWidget tui_error

definition toInt :: "node \<Rightarrow> int option" where
  "toInt v =
    (case v of
       NInt n \<Rightarrow> Some n
     | NFloat (Some x) \<Rightarrow> if x = of_int (float_to_int x) then Some (float_to_int x) else None
     | NNumber s \<Rightarrow> ParseInt s
     | _ \<Rightarrow> None)"

definition asNode :: "node \<Rightarrow> (string, node) gomap option" where
  "asNode v = (case v of NMap m \<Rightarrow> Some m | _ \<Rightarrow> None)"

text \<open>The four readers of optional fields: absent is None, a wrong shape an error.\<close>

definition nodeStr :: "(string, node) gomap \<Rightarrow> string \<Rightarrow> tui_error + string option" where
  "nodeStr m key =
    (case gm_get m key of
       None \<Rightarrow> Inr None
     | Some (NStr s) \<Rightarrow> Inr (Some s)
     | Some _ \<Rightarrow> Inl (MustBe key ''String''))"

definition nodeInt :: "(string, node) gomap \<Rightarrow> string \<Rightarrow> tui_error + int option" where
  "nodeInt m key =
    (case gm_get m key of
       None \<Rightarrow> Inr None
     | Some v \<Rightarrow> (case toInt v of Some n \<Rightarrow> Inr (Some n) | None \<Rightarrow> Inl (MustBe key ''Integer'')))"

definition nodeBool :: "(string, node) gomap \<Rightarrow> string \<Rightarrow> tui_error + bool option" where
  "nodeBool m key =
    (case gm_get m key of
       None \<Rightarrow> Inr None
     | Some (NBool b) \<Rightarrow> Inr (Some b)
     | Some _ \<Rightarrow> Inl (MustBe key ''Boolean''))"

definition nodeList :: "(string, node) gomap \<Rightarrow> string \<Rightarrow> tui_error + node list option" where
  "nodeList m key =
    (case gm_get m key of
       None \<Rightarrow> Inr None
     | Some (NList l) \<Rightarrow> Inr (Some l)
     | Some _ \<Rightarrow> Inl (MustBe key ''List''))"

text \<open>The zero value a reader leaves for an absent field.\<close>

definition or0 :: "'a \<Rightarrow> 'a option \<Rightarrow> 'a" where
  "or0 d o' = (case o' of None \<Rightarrow> d | Some a \<Rightarrow> a)"

lemma or0_simps [simp]: "or0 d None = d" "or0 d (Some a) = a"
  by (simp_all add: or0_def)

section \<open>Size specifications\<close>

datatype sizeKind = sizeFlex | sizeFixed | sizePct | sizeFit

record sizeSpec =
  spec_kind :: sizeKind
  spec_n :: int

definition parseSizeSpec :: "(string, node) gomap \<Rightarrow> tui_error + sizeSpec" where
  "parseSizeSpec m =
    (case gm_get m ''size'' of
       None \<Rightarrow> Inr \<lparr> spec_kind = sizeFlex, spec_n = 1 \<rparr>
     | Some v \<Rightarrow>
         (case toInt v of
            Some n \<Rightarrow> Inr \<lparr> spec_kind = sizeFixed, spec_n = (if n < 0 then 0 else n) \<rparr>
          | None \<Rightarrow>
              (case v of
                 NStr s \<Rightarrow> if s = ''fit'' then Inr \<lparr> spec_kind = sizeFit, spec_n = 0 \<rparr> else Inl (SizeKeyword s)
               | NMap sm \<Rightarrow>
                   err_bind (err_map SizeError (nodeInt sm ''pct'')) (\<lambda>pct.
                     case pct of
                       Some n \<Rightarrow> Inr \<lparr> spec_kind = sizePct, spec_n = n \<rparr>
                     | None \<Rightarrow>
                         err_bind (err_map SizeError (nodeInt sm ''flex'')) (\<lambda>flex.
                           case flex of
                             Some n \<Rightarrow> Inr \<lparr> spec_kind = sizeFlex, spec_n = (if n < 1 then 1 else n) \<rparr>
                           | None \<Rightarrow> Inl SizeNeedsKey))
               | _ \<Rightarrow> Inl SizeShape)))"

section \<open>The solver\<close>

text \<open>What a child gets of what it wants, and what then remains.\<close>

definition claim :: "int \<Rightarrow> int \<Rightarrow> int \<times> int" where
  "claim want remaining =
    (let want = (if want < 0 then 0 else want);
         want = (if want > remaining then remaining else want)
     in (want, remaining - want))"

text \<open>The pass over the children of one kind.\<close>

fun claims :: "sizeKind \<Rightarrow> (nat \<Rightarrow> sizeSpec \<Rightarrow> int) \<Rightarrow> (nat \<times> sizeSpec) list \<Rightarrow> int list \<times> int \<Rightarrow> int list \<times> int" where
  "claims k want [] (out, remaining) = (out, remaining)"
| "claims k want ((i, s) # ss) (out, remaining) =
    (if spec_kind s = k
     then (case claim (want i s) remaining of (w, rest) \<Rightarrow> claims k want ss (out[i := w], rest))
     else claims k want ss (out, remaining))"

definition flex_weight :: "sizeSpec list \<Rightarrow> int" where
  "flex_weight specs = fold (\<lambda>s w. if spec_kind s = sizeFlex then add64 w (spec_n s) else w) specs 0"

fun flex_shares :: "int \<Rightarrow> int \<Rightarrow> (nat \<times> sizeSpec) list \<Rightarrow> int list \<times> int \<times> (nat \<times> int) list
    \<Rightarrow> int list \<times> int \<times> (nat \<times> int) list" where
  "flex_shares remaining totalWeight [] st = st"
| "flex_shares remaining totalWeight ((i, s) # ss) (out, distributed, fracs) =
    (if spec_kind s \<noteq> sizeFlex then flex_shares remaining totalWeight ss (out, distributed, fracs)
     else let share = mul64 remaining (spec_n s); q = div64 share totalWeight in
       flex_shares remaining totalWeight ss
         (out[i := q], add64 distributed q, fracs @ [(i, mod64 share totalWeight)]))"

text \<open>The index of the first largest remainder; the list is not empty where it is used.\<close>

definition best_frac :: "(nat \<times> int) list \<Rightarrow> nat" where
  "best_frac fracs = fold (\<lambda>j best. if snd (fracs ! j) > snd (fracs ! best) then j else best) [0..<length fracs] 0"

fun hand_out :: "nat \<Rightarrow> int list \<Rightarrow> (nat \<times> int) list \<Rightarrow> int list" where
  "hand_out 0 out fracs = out"
| "hand_out (Suc left) out fracs =
    (let best = best_frac fracs; i = fst (fracs ! best)
     in hand_out left (out[i := add64 (out ! i) 1]) (fracs[best := (i, - 1)]))"

definition solveSizes :: "int \<Rightarrow> int \<Rightarrow> sizeSpec list \<Rightarrow> int list \<Rightarrow> int list" where
  "solveSizes extent gap specs fits =
    (let out = replicate (length specs) 0 in
     if specs = [] then out
     else
       let avail = sub64 extent (mul64 gap (int (length specs) - 1));
           avail = (if avail < 0 then 0 else avail);
           is = zip [0..<length specs] specs;
           (out, remaining) = claims sizeFixed (\<lambda>i s. spec_n s) is (out, avail);
           (out, remaining) = claims sizePct (\<lambda>i s. div64 (mul64 avail (spec_n s)) 100) is (out, remaining);
           (out, remaining) = claims sizeFit (\<lambda>i s. fits ! i) is (out, remaining);
           totalWeight = flex_weight specs
       in if totalWeight = 0 then out
          else
            let (out, distributed, fracs) = flex_shares remaining totalWeight is (out, 0, [])
            in hand_out (nat (sub64 remaining distributed)) out fracs)"

end
