(* ===== verification/Tui_Render.thy ===== *)
theory Tui_Render
  imports Tui_Layout
begin

text \<open>
  The renderer from the widget tree to a frame (lang/go/tuikit/render.go):
  measuring, the painters of the nine kinds of widgets, and Render.  The frame
  behind the pointer of the renderer is threaded through.  What fmt prints for a
  cell that is neither text nor number is the argument \<open>fv\<close>.
\<close>

section \<open>Widgets and styles\<close>

record Rect =
  rX :: int
  rY :: int
  rW :: int
  rH :: int

definition viewportMaxCols :: int where "viewportMaxCols = 1024"

definition viewportMaxRows :: int where "viewportMaxRows = 4096"

definition widgetKinds :: "string list" where
  "widgetKinds = [''text'', ''rows'', ''cols'', ''box'', ''list-view'', ''table'', ''input'', ''viewport'', ''spacer'']"

definition parseWidget :: "node \<Rightarrow> tui_error + string \<times> (string, node) gomap" where
  "parseWidget v =
    (case asNode v of
       None \<Rightarrow> Inl (BadWidget NodeNotMap)
     | Some m \<Rightarrow>
         (case nodeStr m ''w'' of
            Inr (Some w) \<Rightarrow> if w \<in> set widgetKinds then Inr (w, m) else Inl (BadWidget (UnknownKind w))
          | _ \<Rightarrow> Inl (BadWidget NoKind)))"

definition style_flags :: "(string \<times> (bool \<Rightarrow> Style \<Rightarrow> Style)) list" where
  "style_flags = [(''bold'', \<lambda>b st. st\<lparr>Bold := b\<rparr>), (''italic'', \<lambda>b st. st\<lparr>Italic := b\<rparr>),
    (''underline'', \<lambda>b st. st\<lparr>Underline := b\<rparr>), (''reverse'', \<lambda>b st. st\<lparr>Reverse := b\<rparr>)]"

definition style_error :: "tui_error \<Rightarrow> tui_error" where
  "style_error e = BadWidget (StyleError e)"

definition styleOver :: "Style \<Rightarrow> (string, node) gomap \<Rightarrow> tui_error + Style" where
  "styleOver inherited m =
    (case gm_get m ''style'' of
       None \<Rightarrow> Inr inherited
     | Some v \<Rightarrow>
         (case asNode v of
            None \<Rightarrow> Inl (BadWidget StyleNotMap)
          | Some sm \<Rightarrow>
              err_bind (err_map style_error (nodeStr sm ''fg'')) (\<lambda>fg.
              err_bind (err_map style_error (nodeStr sm ''bg'')) (\<lambda>bg.
                fold_err (\<lambda>(key, set) st.
                    err_bind (err_map style_error (nodeBool sm key)) (\<lambda>b.
                      Inr (case b of None \<Rightarrow> st | Some b \<Rightarrow> set b st)))
                  style_flags (inherited\<lparr>FG := or0 (FG inherited) fg, BG := or0 (BG inherited) bg\<rparr>)))))"

section \<open>Boxes, items, columns\<close>

text \<open>Top left, top right, bottom left, bottom right, horizontal, vertical, as code points.\<close>

definition borderSets :: "(string, int list) gomap" where
  "borderSets = [(''line'', [0x250C, 0x2510, 0x2514, 0x2518, 0x2500, 0x2502]),
    (''round'', [0x256D, 0x256E, 0x2570, 0x256F, 0x2500, 0x2502]),
    (''double'', [0x2554, 0x2557, 0x255A, 0x255D, 0x2550, 0x2551])]"

text \<open>Two numbers that are not negative, as pad and offset are.\<close>

definition two_ints :: "tui_error \<Rightarrow> tui_error \<Rightarrow> node list \<Rightarrow> tui_error + int \<times> int" where
  "two_ints shape sign l =
    (if length l \<noteq> 2 then Inl (BadWidget shape)
     else case (toInt (l ! 0), toInt (l ! 1)) of
       (Some a, Some b) \<Rightarrow> if a < 0 \<or> b < 0 then Inl (BadWidget sign) else Inr (a, b)
     | _ \<Rightarrow> Inl (BadWidget sign))"

definition box_border :: "(string, node) gomap \<Rightarrow> tui_error + string" where
  "box_border m = err_bind (err_map BadWidget (nodeStr m ''border'')) (\<lambda>b. Inr (or0 ''line'' b))"

definition boxInsets :: "(string, node) gomap \<Rightarrow> tui_error + int \<times> int \<times> node option" where
  "boxInsets m =
    err_bind (box_border m) (\<lambda>border.
      if border \<noteq> ''none'' \<and> gm_get borderSets border = None then Inl (BadWidget (BorderUnknown border))
      else
        let e = (if border \<noteq> ''none'' then 1 else 0);
            child = (case gm_get m ''child'' of Some NNil \<Rightarrow> None | c \<Rightarrow> c)
        in err_bind (err_map BadWidget (nodeList m ''pad'')) (\<lambda>pad.
          case pad of
            None \<Rightarrow> Inr (e, e, child)
          | Some l \<Rightarrow> err_bind (two_ints PadShape PadNegative l) (\<lambda>(px, py).
              Inr (add64 e px, add64 e py, child))))"

definition itemLabel :: "node \<Rightarrow> tui_error + string" where
  "itemLabel it =
    (case it of
       NStr s \<Rightarrow> Inr s
     | NMap m \<Rightarrow> (case nodeStr m ''label'' of Inr (Some s) \<Rightarrow> Inr s | _ \<Rightarrow> Inl (BadWidget BadItem))
     | _ \<Rightarrow> Inl (BadWidget BadItem))"

definition tableColumns :: "(string, node) gomap \<Rightarrow> tui_error + (int \<times> string) list" where
  "tableColumns m =
    err_bind (err_map BadWidget (nodeList m ''columns'')) (\<lambda>cols.
      map_err (\<lambda>c.
        case asNode c of
          None \<Rightarrow> Inl (BadWidget BadColumn)
        | Some cm \<Rightarrow>
            err_bind (err_map BadWidget (nodeStr cm ''title'')) (\<lambda>title.
            err_bind (err_map BadWidget (nodeInt cm ''width'')) (\<lambda>width.
              let title = or0 [] title;
                  width = or0 (StringWidth title + 2) width
              in Inr (if width < 1 then 1 else width, title))))
      (or0 [] cols))"

section \<open>Measuring\<close>

definition ceil_div :: "int \<Rightarrow> int \<Rightarrow> int" where
  "ceil_div w a = div64 (sub64 (add64 w a) 1) a"

text \<open>The sum of widths or heights with the gaps between the children.\<close>

definition with_gaps :: "int \<Rightarrow> int \<Rightarrow> nat \<Rightarrow> int" where
  "with_gaps extent gap n = (if n > 1 then add64 extent (mul64 gap (int n - 1)) else extent)"

lemma size_entry: "gm_get m k = Some c \<Longrightarrow> size c < size (NMap m)"
proof -
  assume "gm_get m k = Some c"
  then have "(k, c) \<in> set m" by (simp add: gm_get_def map_of_SomeD)
  then have "size_prod (\<lambda>_. 0) size (k, c) \<le> size_list (size_prod (\<lambda>_. 0) size) m"
    by (rule size_list_estimation') simp
  then show ?thesis by simp
qed

lemma size_member: "c \<in> set l \<Longrightarrow> size c < size (NList l)"
  using size_list_estimation' [of c l "size c" size] by simp

lemma size_children: "nodeList m k = Inr (Some l) \<Longrightarrow> size_list size l < size (NMap m)"
  using size_entry [of m k "NList l"] by (auto simp: nodeList_def split: option.splits node.splits)

lemma parseWidget_map: "parseWidget v = Inr (kind, m) \<Longrightarrow> v = NMap m"
  by (auto simp: parseWidget_def asNode_def split: node.splits option.splits sum.splits if_splits)

lemma boxInsets_child: "boxInsets m = Inr (ix, iy, Some c) \<Longrightarrow> size c < size (NMap m)"
  using size_entry [of m "''child''" c]
  by (auto simp: boxInsets_def Let_def err_bind_Inr split: option.splits node.splits if_splits)

function measureFit :: "node \<Rightarrow> int \<Rightarrow> tui_error + int \<times> int"
  and measure_all :: "node list \<Rightarrow> int \<Rightarrow> int \<times> int \<times> int \<times> int \<Rightarrow> tui_error + int \<times> int \<times> int \<times> int" where
  "measureFit v availW = err_bind (parseWidget v) (\<lambda>(kind, m).
     if kind = ''text'' then
       err_bind (err_map BadWidget (nodeStr m ''text'')) (\<lambda>s.
       err_bind (err_map BadWidget (nodeStr m ''wrap'')) (\<lambda>wrap.
         let w = StringWidth (or0 [] s) in
         if wrap = Some ''wrap'' \<and> availW > 0 \<and> w > availW then Inr (availW, ceil_div w availW) else Inr (w, 1)))
     else if kind = ''rows'' \<or> kind = ''cols'' then
       err_bind (err_map BadWidget (nodeList m ''children'')) (\<lambda>children.
       err_bind (err_map BadWidget (nodeInt m ''gap'')) (\<lambda>gap.
       err_bind (case children of None \<Rightarrow> Inr (0, 0, 0, 0) | Some cs \<Rightarrow> measure_all cs availW (0, 0, 0, 0))
         (\<lambda>(maxW, maxH, sumW, sumH).
           let n = length (or0 [] children); gap = or0 0 gap in
           if kind = ''rows'' then Inr (maxW, with_gaps sumH gap n) else Inr (with_gaps sumW gap n, maxH))))
     else if kind = ''box'' then
       err_bind (boxInsets m) (\<lambda>(ix, iy, child).
       err_bind (case child of None \<Rightarrow> Inr (0, 0) | Some c \<Rightarrow> measureFit c (sub64 availW (mul64 2 ix))) (\<lambda>(cw, ch).
         Inr (add64 cw (mul64 2 ix), add64 ch (mul64 2 iy))))
     else if kind = ''list-view'' then
       err_bind (err_map BadWidget (nodeList m ''items'')) (\<lambda>items.
       err_bind (map_err itemLabel (or0 [] items)) (\<lambda>labels.
         Inr (fold (\<lambda>l w. if StringWidth l > w then StringWidth l else w) labels 0, int (length labels))))
     else if kind = ''table'' then
       err_bind (tableColumns m) (\<lambda>columns.
       err_bind (err_map BadWidget (nodeList m ''rows'')) (\<lambda>dataRows.
         let extent = fold (\<lambda>(w, t) s. add64 s w) columns 0; n = length columns in
         Inr (if n > 1 then add64 extent (int n - 1) else extent, 1 + int (length (or0 [] dataRows)))))
     else if kind = ''input'' then
       err_bind (err_map BadWidget (nodeStr m ''value'')) (\<lambda>value.
       err_bind (err_map BadWidget (nodeBool m ''mask'')) (\<lambda>mask.
         if or0 False mask then Inr (int (RuneCountInString (or0 [] value)) + 1, 1)
         else Inr (StringWidth (or0 [] value) + 1, 1)))
     else if kind = ''viewport'' then
       (case gm_get m ''child'' of None \<Rightarrow> Inr (0, 0) | Some c \<Rightarrow> measureFit c availW)
     else Inr (0, 0))"
| "measure_all [] availW acc = Inr acc"
| "measure_all (c # cs) availW (maxW, maxH, sumW, sumH) = err_bind (measureFit c availW) (\<lambda>(cw, ch).
     measure_all cs availW (if cw > maxW then cw else maxW, if ch > maxH then ch else maxH,
       add64 sumW cw, add64 sumH ch))"
  by pat_completeness auto
termination
  by (relation "measure (\<lambda>x. case x of Inl (v, a) \<Rightarrow> size v | Inr (cs, a, acc) \<Rightarrow> size_list size cs)")
    (auto dest!: parseWidget_map size_children boxInsets_child size_entry)

declare measureFit.simps [simp del]

section \<open>Drawing\<close>

record renderer =
  rd_frame :: Frame
  focused :: int
  rd_cursor :: "int \<times> int"

definition text_cell :: "int \<Rightarrow> int \<Rightarrow> Style \<Rightarrow> Cell" where
  "text_cell r w st = \<lparr> Content = rune_string r, Width = w, cell_Style = st \<rparr>"

definition shadow_cell :: "Style \<Rightarrow> Cell" where
  "shadow_cell st = \<lparr> Content = [], Width = - 1, cell_Style = st \<rparr>"

text \<open>A mark joins the cell before it, unless it opens the run.\<close>

definition join_mark :: "int \<Rightarrow> int \<Rightarrow> int \<Rightarrow> int \<Rightarrow> int \<Rightarrow> Frame \<Rightarrow> Frame" where
  "join_mark start maxX x y r f =
    (let px = sub64 x 1 in
     if start \<le> px \<and> px < maxX then
       (case At_cell f px y of
          Some c \<Rightarrow> if Content c \<noteq> [] then Set_cell px y (c\<lparr>Content := Content c @ rune_string r\<rparr>) f else f
        | None \<Rightarrow> f)
     else f)"

fun draw_runes :: "int \<Rightarrow> int \<Rightarrow> Style \<Rightarrow> int \<Rightarrow> (int \<times> nat) list \<Rightarrow> int \<Rightarrow> Frame \<Rightarrow> Frame" where
  "draw_runes start y st maxX [] x f = f"
| "draw_runes start y st maxX ((r, n) # rs) x f =
    (let w = RuneWidth r in
     if w = 0 then draw_runes start y st maxX rs x (join_mark start maxX x y r f)
     else if add64 x w > maxX then f
     else
       let f = Set_cell x y (text_cell r w st) f;
           f = (if w = 2 then Set_cell (add64 x 1) y (shadow_cell st) f else f)
       in draw_runes start y st maxX rs (add64 x w) f)"

definition drawText :: "int \<Rightarrow> int \<Rightarrow> string \<Rightarrow> Style \<Rightarrow> int \<Rightarrow> Frame \<Rightarrow> Frame" where
  "drawText x y s st maxX f = draw_runes x y st maxX (runes s) x f"

definition right :: "Rect \<Rightarrow> int" where "right r = add64 (rX r) (rW r)"

definition bottom :: "Rect \<Rightarrow> int" where "bottom r = add64 (rY r) (rH r)"

definition restyle :: "Style \<Rightarrow> int \<Rightarrow> int \<Rightarrow> Frame \<Rightarrow> Frame" where
  "restyle st y x f = (case At_cell f x y of None \<Rightarrow> f | Some c \<Rightarrow> Set_cell x y (c\<lparr>cell_Style := st\<rparr>) f)"

definition fillStyle :: "Rect \<Rightarrow> Style \<Rightarrow> Frame \<Rightarrow> Frame" where
  "fillStyle rect st f =
    fold (\<lambda>y f. fold (restyle st y) [rX rect..right rect - 1] f) [rY rect..bottom rect - 1] f"

section \<open>Painters\<close>

text \<open>The lines of a wrapped text; a rune too wide for the line ends them.\<close>

function wrap_lines :: "Rect \<Rightarrow> Style \<Rightarrow> string \<Rightarrow> int \<Rightarrow> Frame \<Rightarrow> Frame" where
  "wrap_lines rect st line y f =
    (if line \<noteq> [] \<and> y < bottom rect then
       let h = fst (truncateToWidth line (rW rect)) in
       if h = [] then f
       else wrap_lines rect st (drop (length h) line) (y + 1) (drawText (rX rect) y h st (right rect) f)
     else f)"
  by auto
termination
  by (relation "measure (\<lambda>(rect, st, line, y, f). length line)") auto

declare wrap_lines.simps [simp del]

definition paintText :: "(string, node) gomap \<Rightarrow> Rect \<Rightarrow> Style \<Rightarrow> Frame \<Rightarrow> tui_error + Frame" where
  "paintText m rect st f =
    err_bind (err_map BadWidget (nodeStr m ''text'')) (\<lambda>s.
    err_bind (err_map BadWidget (nodeStr m ''wrap'')) (\<lambda>wrap.
      if wrap \<noteq> Some ''wrap'' then Inr (drawText (rX rect) (rY rect) (or0 [] s) st (right rect) f)
      else Inr (wrap_lines rect st (or0 [] s) (rY rect) f)))"

text \<open>The specification of a child and, where it asks for its own size, that size.\<close>

definition child_spec :: "Rect \<Rightarrow> bool \<Rightarrow> node \<Rightarrow> tui_error + sizeSpec \<times> int" where
  "child_spec rect vertical c =
    (case asNode c of
       None \<Rightarrow> Inl (BadWidget NodeNotMap)
     | Some cm \<Rightarrow>
         err_bind (err_map BadWidget (parseSizeSpec cm)) (\<lambda>spec.
           if spec_kind spec = sizeFit
           then err_bind (measureFit c (rW rect)) (\<lambda>(fw, fh). Inr (spec, if vertical then fh else fw))
           else Inr (spec, 0)))"

fun child_rects :: "Rect \<Rightarrow> bool \<Rightarrow> int \<Rightarrow> (node \<times> int) list \<Rightarrow> int \<Rightarrow> (node \<times> Rect) list" where
  "child_rects rect vertical gap [] pos = []"
| "child_rects rect vertical gap ((c, n) # cs) pos =
    (c, if vertical then rect\<lparr>rY := add64 (rY rect) pos, rH := n\<rparr> else rect\<lparr>rX := add64 (rX rect) pos, rW := n\<rparr>) #
      child_rects rect vertical gap cs (add64 pos (add64 n gap))"

definition stackRects :: "(string, node) gomap \<Rightarrow> Rect \<Rightarrow> bool \<Rightarrow> tui_error + (node \<times> Rect) list" where
  "stackRects m rect vertical =
    err_bind (err_map BadWidget (nodeList m ''children'')) (\<lambda>children.
    err_bind (err_map BadWidget (nodeInt m ''gap'')) (\<lambda>gap.
      let children = or0 [] children; gap = (if or0 0 gap < 0 then 0 else or0 0 gap) in
      err_bind (map_err (child_spec rect vertical) children) (\<lambda>specs.
        let extent = (if vertical then rH rect else rW rect);
            sizes = solveSizes extent gap (map fst specs) (map snd specs)
        in Inr (child_rects rect vertical gap (zip children sizes) 0))))"

definition border_cell :: "int \<Rightarrow> Style \<Rightarrow> Cell" where
  "border_cell r st = text_cell r 1 st"

text \<open>The four edges, then the four corners, of a box from column \<open>x\<close> to \<open>x'\<close> and row \<open>y\<close> to \<open>y'\<close>.\<close>

definition draw_border :: "int list \<Rightarrow> Style \<Rightarrow> int \<Rightarrow> int \<Rightarrow> int \<Rightarrow> int \<Rightarrow> Frame \<Rightarrow> Frame" where
  "draw_border bs st x x' y y' f =
    (let f = fold (\<lambda>i f. Set_cell i y' (border_cell (bs ! 4) st) (Set_cell i y (border_cell (bs ! 4) st) f)) [add64 x 1..x' - 1] f;
         f = fold (\<lambda>i f. Set_cell x' i (border_cell (bs ! 5) st) (Set_cell x i (border_cell (bs ! 5) st) f)) [add64 y 1..y' - 1] f
     in Set_cell x' y' (border_cell (bs ! 3) st) (Set_cell x y' (border_cell (bs ! 2) st)
          (Set_cell x' y (border_cell (bs ! 1) st) (Set_cell x y (border_cell (bs ! 0) st) f))))"

text \<open>The border and the title of a box that is large enough for them.\<close>

definition paint_border :: "(string, node) gomap \<Rightarrow> Rect \<Rightarrow> Style \<Rightarrow> string \<Rightarrow> Frame \<Rightarrow> tui_error + Frame" where
  "paint_border m rect st border f =
    (if border \<noteq> ''none'' \<and> rW rect \<ge> 2 \<and> rH rect \<ge> 2 then
       let bs = or0 [] (gm_get borderSets border);
           x' = sub64 (right rect) 1; y' = sub64 (bottom rect) 1;
           f = draw_border bs st (rX rect) x' (rY rect) y' f
       in err_bind (err_map BadWidget (nodeStr m ''title'')) (\<lambda>title.
            if or0 [] title \<noteq> [] \<and> rW rect > 4
            then Inr (drawText (add64 (rX rect) 1) (rY rect)
              (fst (truncateToWidth ('' '' @ or0 [] title @ '' '') (rW rect - 2))) st x' f)
            else Inr f)
     else Inr f)"

text \<open>A box without its child, and what is left for the child.\<close>

definition inner_rect :: "Rect \<Rightarrow> int \<Rightarrow> int \<Rightarrow> Rect" where
  "inner_rect rect ix iy = \<lparr> rX = add64 (rX rect) ix, rY = add64 (rY rect) iy,
     rW = sub64 (rW rect) (mul64 2 ix), rH = sub64 (rH rect) (mul64 2 iy) \<rparr>"

definition paintBox :: "(string, node) gomap \<Rightarrow> Rect \<Rightarrow> Style \<Rightarrow> Frame \<Rightarrow> tui_error + Frame \<times> (node \<times> Rect) option" where
  "paintBox m rect st f =
    err_bind (box_border m) (\<lambda>border.
    err_bind (boxInsets m) (\<lambda>(ix, iy, child).
    err_bind (paint_border m rect st border f) (\<lambda>f.
      Inr (f, case child of None \<Rightarrow> None | Some c \<Rightarrow> Some (c, inner_rect rect ix iy)))))"

definition scrollOffset :: "int \<Rightarrow> int \<Rightarrow> int \<Rightarrow> int" where
  "scrollOffset cursor count h =
    (if h \<le> 0 \<or> cursor < h then 0
     else
       let off = cursor - h + 1; off = (if off > count - h then count - h else off)
       in if off < 0 then 0 else off)"

definition reversed :: "Style \<Rightarrow> Style" where
  "reversed st = st\<lparr>Reverse := \<not> Reverse st\<rparr>"

text \<open>The rows of a window that show an entry.\<close>

definition shown_rows :: "int \<Rightarrow> int \<Rightarrow> int \<Rightarrow> int list" where
  "shown_rows h off count = [0..min h (count - off) - 1]"

definition line_rect :: "Rect \<Rightarrow> int \<Rightarrow> Rect" where
  "line_rect rect y = rect\<lparr>rY := y, rH := 1\<rparr>"

definition paintList :: "(string, node) gomap \<Rightarrow> Rect \<Rightarrow> Style \<Rightarrow> Frame \<Rightarrow> tui_error + Frame" where
  "paintList m rect st f =
    err_bind (err_map BadWidget (nodeList m ''items'')) (\<lambda>items.
    err_bind (err_map BadWidget (nodeInt m ''cursor'')) (\<lambda>cursor.
      let items = or0 [] items; cursor = or0 0 cursor; off = scrollOffset cursor (int (length items)) (rH rect) in
      fold_err (\<lambda>row f.
        err_bind (itemLabel (items ! nat (off + row))) (\<lambda>label.
          let y = add64 (rY rect) row;
              lineStyle = (if off + row = cursor then reversed st else st);
              f = (if off + row = cursor then fillStyle (line_rect rect y) lineStyle f else f)
          in Inr (drawText (rX rect) y label lineStyle (right rect) f)))
      (shown_rows (rH rect) off (int (length items))) f))"

fun draw_columns :: "int \<Rightarrow> Style \<Rightarrow> int \<Rightarrow> int list \<Rightarrow> string list \<Rightarrow> int \<Rightarrow> Frame \<Rightarrow> Frame" where
  "draw_columns y st maxX [] cells x f = f"
| "draw_columns y st maxX (w # ws) cells x f =
    (let f = (case cells of [] \<Rightarrow> f | c # _ \<Rightarrow> drawText x y (fst (truncateToWidth c w)) st maxX f)
     in draw_columns y st maxX ws (drop 1 cells) (add64 x (add64 w 1)) f)"

definition cellText :: "(node \<Rightarrow> string) \<Rightarrow> node \<Rightarrow> string" where
  "cellText fv v =
    (case v of
       NStr s \<Rightarrow> s
     | NBool b \<Rightarrow> (if b then ''true'' else ''false'')
     | _ \<Rightarrow> (case toInt v of Some n \<Rightarrow> Itoa n | None \<Rightarrow> fv v))"

definition paintTable :: "(node \<Rightarrow> string) \<Rightarrow> (string, node) gomap \<Rightarrow> Rect \<Rightarrow> Style \<Rightarrow> Frame \<Rightarrow> tui_error + Frame" where
  "paintTable fv m rect st f =
    err_bind (tableColumns m) (\<lambda>columns.
    err_bind (err_map BadWidget (nodeList m ''rows'')) (\<lambda>dataRows.
    err_bind (err_map BadWidget (nodeInt m ''cursor'')) (\<lambda>cursor.
      let widths = map fst columns; dataRows = or0 [] dataRows; cursor = or0 0 cursor;
          f = draw_columns (rY rect) (st\<lparr>Bold := True\<rparr>) (right rect) widths (map snd columns) (rX rect) f;
          body = rH rect - 1; off = scrollOffset cursor (int (length dataRows)) body in
      fold_err (\<lambda>row f.
        case dataRows ! nat (off + row) of
          NList cs \<Rightarrow>
            let y = add64 (rY rect) (1 + row);
                rowStyle = (if off + row = cursor then reversed st else st);
                f = (if off + row = cursor then fillStyle (line_rect rect y) rowStyle f else f)
            in Inr (draw_columns y rowStyle (right rect) widths (map (cellText fv) cs) (rX rect) f)
        | _ \<Rightarrow> Inl (BadWidget BadRow))
      (shown_rows body off (int (length dataRows))) f)))"

fun rune_prefix :: "string \<Rightarrow> int \<Rightarrow> (int \<times> nat) list \<Rightarrow> nat \<Rightarrow> int \<Rightarrow> string" where
  "rune_prefix s n [] i seen = s"
| "rune_prefix s n ((r, k) # rs) i seen = (if seen = n then take i s else rune_prefix s n rs (i + k) (seen + 1))"

definition prefixByRunes :: "string \<Rightarrow> int \<Rightarrow> string" where
  "prefixByRunes s n = (if n \<le> 0 then [] else rune_prefix s n (runes s) 0 0)"

definition bullets :: "nat \<Rightarrow> string" where
  "bullets n = concat (replicate n (rune_string 0x2022))"

text \<open>What an input shows, in which style, and where it puts the cursor.\<close>

definition input_text :: "string \<Rightarrow> string \<Rightarrow> bool \<Rightarrow> Style \<Rightarrow> string \<times> Style" where
  "input_text v placeholder masked st =
    (let shown = (if masked then bullets (RuneCountInString v) else v)
     in if v = [] \<and> placeholder \<noteq> [] then (placeholder, st\<lparr>FG := ''grey''\<rparr>) else (shown, st))"

definition input_cursor :: "Rect \<Rightarrow> string \<Rightarrow> int \<Rightarrow> bool \<Rightarrow> int \<times> int" where
  "input_cursor rect v cursor masked =
    (let prefix = prefixByRunes v cursor;
         w = (if masked then int (RuneCountInString prefix) else StringWidth prefix);
         x = add64 (rX rect) w; edge = sub64 (right rect) 1
     in (if x > edge then edge else x, rY rect))"

definition paintInput :: "(string, node) gomap \<Rightarrow> Rect \<Rightarrow> Style \<Rightarrow> renderer \<Rightarrow> tui_error + renderer" where
  "paintInput m rect st rd =
    err_bind (err_map BadWidget (nodeStr m ''value'')) (\<lambda>v.
    err_bind (err_map BadWidget (nodeStr m ''placeholder'')) (\<lambda>placeholder.
    err_bind (err_map BadWidget (nodeInt m ''cursor'')) (\<lambda>cursor.
    err_bind (err_map BadWidget (nodeBool m ''focus'')) (\<lambda>focus.
    err_bind (err_map BadWidget (nodeBool m ''mask'')) (\<lambda>masked.
      let shown = input_text (or0 [] v) (or0 [] placeholder) (or0 False masked) st;
          rd = rd\<lparr>rd_frame := drawText (rX rect) (rY rect) (fst shown) (snd shown) (right rect) (rd_frame rd)\<rparr>
      in if or0 False focus
         then Inr (rd\<lparr>focused := focused rd + 1, rd_cursor := input_cursor rect (or0 [] v) (or0 0 cursor) (or0 False masked)\<rparr>)
         else Inr rd)))))"

definition canvas_size :: "Rect \<Rightarrow> int \<times> int \<Rightarrow> int \<times> int" where
  "canvas_size rect fit =
    (let cw = (if fst fit < rW rect then rW rect else fst fit);
         ch = (if snd fit < rH rect then rH rect else snd fit)
     in (if cw > viewportMaxCols then viewportMaxCols else cw, if ch > viewportMaxRows then viewportMaxRows else ch))"

text \<open>The canvas a viewport lays its child out on: the child, the offset and the size.\<close>

definition viewport_canvas :: "(string, node) gomap \<Rightarrow> Rect \<Rightarrow> tui_error + (node \<times> (int \<times> int) \<times> int \<times> int) option" where
  "viewport_canvas m rect =
    (case gm_get m ''child'' of
       None \<Rightarrow> Inr None
     | Some child \<Rightarrow>
         err_bind (err_map BadWidget (nodeList m ''offset'')) (\<lambda>off.
         err_bind (case off of None \<Rightarrow> Inr (0, 0) | Some l \<Rightarrow> two_ints OffsetShape OffsetNegative l) (\<lambda>o'.
         err_bind (measureFit child (rW rect)) (\<lambda>fit. Inr (Some (child, o', canvas_size rect fit))))))"

definition blit_cell :: "Frame \<Rightarrow> int \<Rightarrow> int \<Rightarrow> Rect \<Rightarrow> int \<Rightarrow> int \<Rightarrow> Frame \<Rightarrow> Frame" where
  "blit_cell sub ox oy rect y x f =
    (case At_cell sub (add64 ox x) (add64 oy y) of
       Some c \<Rightarrow> Set_cell (add64 (rX rect) x) (add64 (rY rect) y) c f
     | None \<Rightarrow> f)"

definition blit :: "Frame \<Rightarrow> int \<Rightarrow> int \<Rightarrow> Rect \<Rightarrow> Frame \<Rightarrow> Frame" where
  "blit sub ox oy rect f =
    fold (\<lambda>y f. fold (blit_cell sub ox oy rect y) [0..rW rect - 1] f) [0..rH rect - 1] f"

section \<open>Painting a tree\<close>

definition on_frame :: "(Frame \<Rightarrow> tui_error + Frame) \<Rightarrow> renderer \<Rightarrow> tui_error + renderer" where
  "on_frame g rd = err_bind (g (rd_frame rd)) (\<lambda>f. Inr (rd\<lparr>rd_frame := f\<rparr>))"

definition fresh_renderer :: "int \<Rightarrow> int \<Rightarrow> renderer" where
  "fresh_renderer cols rows = \<lparr> rd_frame = NewFrame cols rows, focused = 0, rd_cursor = (0, 0) \<rparr>"

definition whole :: "int \<Rightarrow> int \<Rightarrow> Rect" where
  "whole w h = \<lparr> rX = 0, rY = 0, rW = w, rH = h \<rparr>"

lemma rects_size: "sum_list (map (\<lambda>(c, r). Suc (size c)) (child_rects rect b gap (zip cs ns) pos)) \<le> size_list size cs"
proof (induction cs arbitrary: ns pos)
  case (Cons c cs)
  then show ?case by (cases ns) auto
qed simp

lemma stackRects_size:
  "stackRects m rect b = Inr cs \<Longrightarrow> sum_list (map (\<lambda>(c, r). Suc (size c)) cs) < size (NMap m)"
proof -
  assume "stackRects m rect b = Inr cs"
  then obtain o' gap ns where o': "nodeList m ''children'' = Inr o'"
    "cs = child_rects rect b gap (zip (or0 [] o') ns) 0"
    by (auto simp: stackRects_def err_bind_Inr Let_def)
  show ?thesis
  proof (cases o')
    case None
    then show ?thesis using o'(2) by simp
  next
    case (Some l)
    then show ?thesis using o' size_children [of m "''children''" l] rects_size [of rect b gap l ns 0] by auto
  qed
qed

lemma paintBox_parts:
  assumes "paintBox m rect st f = Inr (f', inner)"
  obtains border ix iy child where "box_border m = Inr border" "boxInsets m = Inr (ix, iy, child)"
    "paint_border m rect st border f = Inr f'" "inner = map_option (\<lambda>c. (c, inner_rect rect ix iy)) child"
proof -
  from assms obtain border ix iy child where p: "box_border m = Inr border" "boxInsets m = Inr (ix, iy, child)"
    unfolding paintBox_def by (cases "box_border m"; cases "boxInsets m") auto
  then have "paint_border m rect st border f = Inr f'" "inner = map_option (\<lambda>c. (c, inner_rect rect ix iy)) child"
    using assms by (cases "paint_border m rect st border f"; cases child; simp add: paintBox_def)+
  with p show ?thesis by (rule that)
qed

lemma paintBox_child: "paintBox m rect st f = Inr (f', Some (c, r)) \<Longrightarrow> size c < size (NMap m)"
proof (erule paintBox_parts)
  fix border ix iy child
  assume b: "boxInsets m = Inr (ix, iy, child)" and i: "Some (c, r) = map_option (\<lambda>c. (c, inner_rect rect ix iy)) child"
  then have "child = Some c" by (cases child) simp_all
  with b show "size c < size (NMap m)" by (simp only: boxInsets_child)
qed

lemma canvas_child:
  assumes "viewport_canvas m rect = Inr (Some (c, z))"
  shows "size c < size (NMap m)"
proof (cases "gm_get m ''child''")
  case None
  then show ?thesis using assms by (simp add: viewport_canvas_def)
next
  case (Some d)
  from assms have "d = c"
    unfolding viewport_canvas_def Some by (auto simp: err_bind_Inr)
  then show ?thesis using size_entry [OF Some] by simp
qed

function paint :: "(node \<Rightarrow> string) \<Rightarrow> node \<Rightarrow> Rect \<Rightarrow> Style \<Rightarrow> renderer \<Rightarrow> tui_error + renderer"
  and paint_children :: "(node \<Rightarrow> string) \<Rightarrow> (node \<times> Rect) list \<Rightarrow> Style \<Rightarrow> renderer \<Rightarrow> tui_error + renderer" where
  "paint fv v rect inherited rd =
     err_bind (parseWidget v) (\<lambda>(kind, m).
     err_bind (styleOver inherited m) (\<lambda>st.
       if rW rect \<le> 0 \<or> rH rect \<le> 0 then Inr rd
       else if kind = ''text'' then on_frame (paintText m rect st) rd
       else if kind = ''rows'' \<or> kind = ''cols'' then
         err_bind (stackRects m rect (kind = ''rows'')) (\<lambda>cs. paint_children fv cs st rd)
       else if kind = ''box'' then
         err_bind (paintBox m rect st (rd_frame rd)) (\<lambda>(f, inner).
           case inner of
             None \<Rightarrow> Inr (rd\<lparr>rd_frame := f\<rparr>)
           | Some (c, r) \<Rightarrow> paint fv c r st (rd\<lparr>rd_frame := f\<rparr>))
       else if kind = ''list-view'' then on_frame (paintList m rect st) rd
       else if kind = ''table'' then on_frame (paintTable fv m rect st) rd
       else if kind = ''input'' then paintInput m rect st rd
       else if kind = ''viewport'' then
         err_bind (viewport_canvas m rect) (\<lambda>canvas.
           case canvas of
             None \<Rightarrow> Inr rd
           | Some (c, o', cw, ch) \<Rightarrow>
               err_bind (paint fv c (whole cw ch) st (fresh_renderer cw ch)) (\<lambda>sub.
                 Inr (rd\<lparr>rd_frame := blit (rd_frame sub) (fst o') (snd o') rect (rd_frame rd)\<rparr>)))
       else Inr rd))"
| "paint_children fv [] st rd = Inr rd"
| "paint_children fv ((c, r) # cs) st rd = err_bind (paint fv c r st rd) (paint_children fv cs st)"
  by pat_completeness auto
termination
  by (relation "measure (\<lambda>x. case x of Inl (fv, v, r, st, rd) \<Rightarrow> size v
      | Inr (fv, cs, st, rd) \<Rightarrow> sum_list (map (\<lambda>(c, r). Suc (size c)) cs))")
    (auto dest!: parseWidget_map dest: stackRects_size paintBox_child canvas_child)

declare paint.simps [simp del]

definition Render :: "(node \<Rightarrow> string) \<Rightarrow> node \<Rightarrow> int \<Rightarrow> int \<Rightarrow> tui_error + Frame \<times> (int \<times> int) option" where
  "Render fv tree cols rows =
    (let rd = fresh_renderer cols rows in
     err_bind (paint fv tree (whole (Cols (rd_frame rd)) (Rows (rd_frame rd))) no_style rd) (\<lambda>rd.
       Inr (rd_frame rd, if focused rd = 1 then Some (rd_cursor rd) else None)))"

end
