(* ===== verification/Tui_Frame_Props.thy ===== *)
theory Tui_Frame_Props
  imports Tui_Frames
begin

text \<open>
  Laws of frames as grids, and what a backend gets from DiffFrames: repainting
  the damage turns the old screen into the new frame and touches nothing else.
\<close>

section \<open>Grids\<close>

text \<open>A grid of cells in place: drawing is writing cells, and a cell is written alone.\<close>

locale grid =
  fixes get :: "'f \<Rightarrow> int \<Rightarrow> int \<Rightarrow> 'c option"
    and put :: "int \<Rightarrow> int \<Rightarrow> 'c \<Rightarrow> 'f \<Rightarrow> 'f"
    and dim :: "'f \<Rightarrow> 'd"
    and ok :: "'f \<Rightarrow> bool"
  assumes get_put: "ok f \<Longrightarrow> get (put x y c f) x' y' =
      (if x' = x \<and> y' = y \<and> get f x y \<noteq> None then Some c else get f x' y')"
    and dim_put: "dim (put x y c f) = dim f"
    and ok_put: "ok f \<Longrightarrow> ok (put x y c f)"
    and grid_eq: "\<lbrakk>ok f; ok f'; dim f = dim f'; \<And>x y. get f x y = get f' x y\<rbrakk> \<Longrightarrow> f = f'"
    and get_dim: "\<lbrakk>dim f = dim f'; get f x y = None\<rbrakk> \<Longrightarrow> get f' x y = None"
begin

text \<open>From \<open>f\<close> to \<open>f'\<close> only cells of \<open>S\<close> have changed.\<close>

definition draws :: "(int \<times> int) set \<Rightarrow> 'f \<Rightarrow> 'f \<Rightarrow> bool" where
  "draws S f f' = (ok f' \<and> dim f' = dim f \<and> (\<forall>x y. (x, y) \<notin> S \<longrightarrow> get f' x y = get f x y))"

lemma draws_refl: "ok f \<Longrightarrow> draws S f f"
  by (simp add: draws_def)

lemma draws_trans: "draws S f g \<Longrightarrow> draws S g h \<Longrightarrow> draws S f h"
  by (simp add: draws_def)

lemma draws_mono: "draws S f g \<Longrightarrow> S \<subseteq> T \<Longrightarrow> draws T f g"
  by (auto simp: draws_def)

lemma draws_put: "ok f \<Longrightarrow> (x, y) \<in> S \<Longrightarrow> draws S f (put x y c f)"
  by (auto simp: draws_def get_put dim_put ok_put)

lemma draws_ok: "draws S f g \<Longrightarrow> ok g"
  by (simp add: draws_def)

lemma draws_dim: "draws S f g \<Longrightarrow> dim g = dim f"
  by (simp add: draws_def)

lemma draws_get: "draws S f g \<Longrightarrow> (x, y) \<notin> S \<Longrightarrow> get g x y = get f x y"
  by (simp add: draws_def)

lemma draws_fold:
  "\<lbrakk>ok f; \<And>a f. a \<in> set as \<Longrightarrow> ok f \<Longrightarrow> draws S f (g a f)\<rbrakk> \<Longrightarrow> draws S f (fold g as f)"
proof (induction as arbitrary: f)
  case (Cons a as)
  then have a: "draws S f (g a f)" by simp
  then have "draws S (g a f) (fold g as (g a f))" using Cons.IH [OF draws_ok [OF a]] Cons.prems(2) by simp
  with a show ?case by (simp add: draws_trans)
qed (simp add: draws_refl)

lemma get_same_dim: "dim f = dim f' \<Longrightarrow> (get f x y = None) = (get f' x y = None)"
  using get_dim [of f f'] get_dim [of f' f] by auto

text \<open>Writing cells that are all taken from one grid.\<close>

lemma get_puts:
  assumes "ok f" "dim f = dim g" "\<And>x y c. (x, y, c) \<in> set cs \<Longrightarrow> get g x y = Some c"
  shows "get (fold (\<lambda>(x, y, c). put x y c) cs f) x y =
    (if (x, y) \<in> (\<lambda>(x, y, c). (x, y)) ` set cs then get g x y else get f x y)"
  using assms
proof (induction cs arbitrary: f)
  case (Cons t cs)
  obtain a b c where t: "t = (a, b, c)" by (cases t)
  have n: "get f a b \<noteq> None" using Cons.prems(3) [of a b c] get_dim [OF Cons.prems(2)] by (force simp: t)
  have g: "get g a b = Some c" using Cons.prems(3) [of a b c] by (simp add: t)
  show ?case
    using Cons.IH [of "put a b c f"] Cons.prems n by (auto simp: t get_put dim_put ok_put g)
qed simp

lemma puts_draw: "ok f \<Longrightarrow> draws ((\<lambda>(x, y, c). (x, y)) ` set cs) f (fold (\<lambda>(x, y, c). put x y c) cs f)"
  by (rule draws_fold) (force intro!: draws_put)+

end

definition frame_ok :: "Frame \<Rightarrow> bool" where
  "frame_ok f = (0 \<le> Cols f \<and> 0 \<le> Rows f \<and> length (Cells f) = nat (Cols f * Rows f))"

lemma NewFrame_ok [simp]: "frame_ok (NewFrame cols rows)"
  by (simp add: frame_ok_def NewFrame_def Let_def)

lemma cell_index:
  fixes x y x' y' :: int
  assumes "0 \<le> x" "0 \<le> y" "x < c" "y < r"
  shows "nat (y * c + x) < nat (c * r)" "nat (y * c + x) = nat (y' * c + x') \<Longrightarrow>
    0 \<le> x' \<Longrightarrow> 0 \<le> y' \<Longrightarrow> x' < c \<Longrightarrow> x = x' \<and> y = y'"
proof -
  have "y * c + x < (y + 1) * c" using assms by (simp add: algebra_simps)
  also have "\<dots> \<le> r * c" using assms by (intro mult_right_mono) auto
  finally show "nat (y * c + x) < nat (c * r)" using assms by (simp add: mult.commute nat_less_eq_zless)
  assume "nat (y * c + x) = nat (y' * c + x')" "0 \<le> x'" "0 \<le> y'" "x' < c"
  moreover have "0 \<le> y * c + x" "0 \<le> y' * c + x'" using assms \<open>0 \<le> y'\<close> \<open>0 \<le> x'\<close> by simp_all
  ultimately have e: "y * c + x = y' * c + x'" by (simp add: eq_nat_nat_iff)
  have "(y * c + x) div c = y" "(y' * c + x') div c = y'" using assms \<open>0 \<le> x'\<close> \<open>x' < c\<close> by simp_all
  with e show "x = x' \<and> y = y'" by simp
qed

lemma At_Some: "At_cell f x y = Some c \<longleftrightarrow>
    0 \<le> x \<and> 0 \<le> y \<and> x < Cols f \<and> y < Rows f \<and> c = Cells f ! nat (y * Cols f + x)"
  by (auto simp: At_cell_def)

lemma At_None [simp]: "At_cell f x y = None \<longleftrightarrow> x < 0 \<or> y < 0 \<or> Cols f \<le> x \<or> Rows f \<le> y"
  by (auto simp: At_cell_def)

lemma Set_dims [simp]: "Cols (Set_cell x y c f) = Cols f" "Rows (Set_cell x y c f) = Rows f"
  by (simp_all add: Set_cell_def)

lemma At_Set: "frame_ok f \<Longrightarrow> At_cell (Set_cell x y c f) x' y' =
    (if x' = x \<and> y' = y \<and> At_cell f x y \<noteq> None then Some c else At_cell f x' y')"
  using cell_index [of x y "Cols f" "Rows f"]
  by (auto simp: At_cell_def Set_cell_def frame_ok_def nth_list_update simp del: mult_eq_if)

lemma frame_eq:
  assumes "frame_ok f" "frame_ok g" "(Cols f, Rows f) = (Cols g, Rows g)" "\<And>x y. At_cell f x y = At_cell g x y"
  shows "f = g"
proof -
  have l: "length (Cells f) = length (Cells g)" using assms(1-3) by (simp add: frame_ok_def)
  have "Cells f ! i = Cells g ! i" if i: "i < length (Cells f)" for i
  proof -
    let ?x = "int i mod Cols f" and ?y = "int i div Cols f"
    have n: "int i < Cols f * Rows f" using assms(1) i by (simp add: frame_ok_def)
    then have c: "0 < Cols f" using assms(1) by (cases "Cols f = 0") (auto simp: frame_ok_def)
    have "?y < Rows f"
    proof (rule ccontr)
      assume "\<not> ?y < Rows f"
      then have "Rows f * Cols f \<le> ?y * Cols f" using c by (intro mult_right_mono) auto
      also have "\<dots> \<le> int i" using c by (simp add: minus_mod_eq_div_mult [symmetric])
      finally show False using n by (simp add: mult.commute)
    qed
    then have "At_cell f ?x ?y = Some (Cells f ! i)" "At_cell g ?x ?y = Some (Cells g ! i)"
      using assms(3) c by (simp_all add: At_Some pos_imp_zdiv_nonneg_iff)
    with assms(4) [of ?x ?y] show ?thesis by simp
  qed
  then have "Cells f = Cells g" using l by (simp add: nth_equalityI)
  with assms(3) show ?thesis by simp
qed

interpretation fr: grid At_cell Set_cell "\<lambda>f. (Cols f, Rows f)" frame_ok
proof unfold_locales
  show "frame_ok (Set_cell x y c f)" if "frame_ok f" for x y c f
    using that by (simp add: frame_ok_def Set_cell_def)
qed (auto simp: At_Set intro: frame_eq)

section \<open>Damage\<close>

text \<open>What a backend does with the spans: each cell at its place.\<close>

definition span_cells :: "Span \<Rightarrow> (int \<times> int \<times> Cell) list" where
  "span_cells s = map (\<lambda>(i, c). (span_X s + int i, span_Y s, c)) (zip [0..<length (span_Cells s)] (span_Cells s))"

definition repaint :: "Span list \<Rightarrow> Frame \<Rightarrow> Frame" where
  "repaint spans f = fold (\<lambda>(x, y, c). Set_cell x y c) (concat (map span_cells spans)) f"

definition damage :: "Span list \<Rightarrow> (int \<times> int) set" where
  "damage spans = (\<lambda>(x, y, c). (x, y)) ` set (concat (map span_cells spans))"

fun changed_cells :: "int \<Rightarrow> int \<Rightarrow> Cell list \<Rightarrow> Cell list \<Rightarrow> (int \<times> int \<times> Cell) list" where
  "changed_cells y x (p # ps) (q # qs) = (if p = q then [] else [(x, y, q)]) @ changed_cells y (x + 1) ps qs"
| "changed_cells y x _ _ = []"

lemma span_cells_Cons:
  "span_cells \<lparr>span_X = x, span_Y = y, span_Cells = c # cs\<rparr> =
    (x, y, c) # span_cells \<lparr>span_X = x + 1, span_Y = y, span_Cells = cs\<rparr>"
proof -
  have "zip [0..<Suc (length cs)] (c # cs) = (0, c) # map (\<lambda>(i, c). (Suc i, c)) (zip [0..<length cs] cs)"
    by (rule nth_equalityI) (auto simp: nth_Cons split: nat.split simp del: upt_Suc)
  then show ?thesis by (simp add: span_cells_def split_def o_def algebra_simps del: upt_Suc)
qed

lemma changed_run_cells:
  "changed_cells y x ps qs = span_cells \<lparr>span_X = x, span_Y = y, span_Cells = take (changed_run ps qs) qs\<rparr> @
    changed_cells y (x + int (changed_run ps qs)) (drop (changed_run ps qs) ps) (drop (changed_run ps qs) qs)"
proof (induction ps qs arbitrary: x rule: changed_run.induct)
  case (1 p ps q qs)
  then show ?case
    using "1.IH" [of "x + 1"] by (auto simp: span_cells_Cons algebra_simps) (simp_all add: span_cells_def)
qed (simp_all add: span_cells_def)

lemma row_spans_cells: "concat (map span_cells (row_spans y x ps qs)) = changed_cells y x ps qs"
proof (induction y x ps qs rule: row_spans.induct)
  case (1 y x p ps q qs)
  show ?case
  proof (cases "p = q")
    case False
    then show ?thesis
      using "1.IH"(2) [OF False refl] changed_run_cells [of y x "p # ps" "q # qs"] by (simp add: Let_def)
  qed (use "1.IH"(1) in simp)
qed simp_all

lemma changed_cells_set:
  "length ps = length qs \<Longrightarrow> (a, b, c) \<in> set (changed_cells y x ps qs) \<longleftrightarrow>
    b = y \<and> x \<le> a \<and> a < x + int (length qs) \<and> c = qs ! nat (a - x) \<and> ps ! nat (a - x) \<noteq> qs ! nat (a - x)"
proof (induction ps qs arbitrary: x rule: list_induct2)
  case (Cons p ps q qs)
  show ?case
  proof (cases "a \<le> x")
    case False
    then have "nat (a - x) = Suc (nat (a - (x + 1)))" by simp
    then show ?thesis using Cons.IH [of "x + 1"] False by auto
  qed (use Cons.IH [of "x + 1"] in auto)
qed auto

lemma row_of_length: "frame_ok f \<Longrightarrow> 0 \<le> y \<Longrightarrow> y < Rows f \<Longrightarrow> length (row_of f y) = nat (Cols f)"
proof -
  assume a: "frame_ok f" "0 \<le> y" "y < Rows f"
  then have "y * Cols f + Cols f \<le> Rows f * Cols f"
    using mult_right_mono [of "y + 1" "Rows f" "Cols f"] by (simp add: frame_ok_def algebra_simps)
  then have "nat (y * Cols f) + nat (Cols f) \<le> length (Cells f)"
    using a by (simp add: frame_ok_def mult.commute flip: nat_add_distrib)
  then show ?thesis by (simp add: row_of_def)
qed

lemma row_of_nth:
  "\<lbrakk>frame_ok f; 0 \<le> y; y < Rows f; 0 \<le> x; x < Cols f\<rbrakk> \<Longrightarrow> At_cell f x y = Some (row_of f y ! nat x)"
proof -
  assume a: "frame_ok f" "0 \<le> y" "y < Rows f" "0 \<le> x" "x < Cols f"
  have "nat (y * Cols f) \<le> length (Cells f)"
    using row_of_length [OF a(1-3)] a(4,5) by (simp add: row_of_def)
  then show ?thesis using a by (simp add: At_cell_def row_of_def nat_add_distrib)
qed

text \<open>The cells of the damage, and which they are.\<close>

lemma row_changes:
  assumes "frame_ok p" "frame_ok f" "Cols p = Cols f" "Rows p = Rows f" "0 \<le> y" "y < Rows f"
  shows "(a, b, c) \<in> set (changed_cells y 0 (row_of p y) (row_of f y)) \<longleftrightarrow>
    b = y \<and> At_cell f a y = Some c \<and> At_cell p a y \<noteq> At_cell f a y"
proof (cases "0 \<le> a \<and> a < Cols f")
  case True
  then show ?thesis
    using assms row_of_nth [of f y a] row_of_nth [of p y a] row_of_length [of f y] row_of_length [of p y]
    by (auto simp: changed_cells_set)
next
  case False
  then show ?thesis
    using assms row_of_length [of f y] row_of_length [of p y] by (auto simp: changed_cells_set At_Some)
qed

lemma row_all:
  assumes "frame_ok f" "0 \<le> y" "y < Rows f"
  shows "(a, b, c) \<in> set (span_cells \<lparr>span_X = 0, span_Y = y, span_Cells = row_of f y\<rparr>) \<longleftrightarrow> b = y \<and> At_cell f a y = Some c"
proof (cases "0 \<le> a \<and> a < Cols f")
  case True
  have "nat a < length (row_of f y)" using True assms by (simp add: row_of_length)
  then show ?thesis
    using True assms row_of_nth [of f y a]
    by (auto simp: span_cells_def set_zip image_iff intro!: exI [of _ "nat a"])
next
  case False
  then show ?thesis using assms by (auto simp: span_cells_def set_zip At_Some row_of_length)
qed

definition total_damage :: "Frame option \<Rightarrow> Frame \<Rightarrow> bool" where
  "total_damage prev next = (case prev of None \<Rightarrow> True | Some p \<Rightarrow> Cols p \<noteq> Cols next \<or> Rows p \<noteq> Rows next)"

lemma diff_cells:
  assumes "frame_ok next" "\<And>p. prev = Some p \<Longrightarrow> frame_ok p"
  shows "(a, b, c) \<in> set (concat (map span_cells (DiffFrames prev next))) \<longleftrightarrow>
    At_cell next a b = Some c \<and> (total_damage prev next \<or> (\<exists>p. prev = Some p \<and> At_cell p a b \<noteq> At_cell next a b))"
proof (cases "total_damage prev next")
  case True
  then have "DiffFrames prev next = map (\<lambda>y. \<lparr>span_X = 0, span_Y = y, span_Cells = row_of next y\<rparr>) [0..Rows next - 1]"
    by (auto simp: DiffFrames_def total_damage_def split: option.splits)
  then show ?thesis using True row_all [OF assms(1)] by (auto simp: At_Some)
next
  case False
  then obtain p where p: "prev = Some p" "Cols p = Cols next" "Rows p = Rows next"
    by (auto simp: total_damage_def split: option.splits)
  have "DiffFrames prev next = concat (map (\<lambda>y. row_spans y 0 (row_of p y) (row_of next y)) [0..Rows next - 1])"
    using p by (simp add: DiffFrames_def)
  then have "set (concat (map span_cells (DiffFrames prev next))) =
      (\<Union>y \<in> {0..Rows next - 1}. set (changed_cells y 0 (row_of p y) (row_of next y)))"
    by (simp add: row_spans_cells [symmetric] del: set_concat) auto
  then show ?thesis using False p row_changes [OF assms(2) [OF p(1)] assms(1) p(2,3)] by (auto simp: At_Some)
qed

text \<open>C14: The damage between two frames is exact: a screen that shows the previous frame shows the next one
  after the spans are painted, and the cells painted are those that differ; without a previous frame
  of the same size any screen of the new size does.\<close>

theorem diff_repaints:
  assumes "frame_ok next" "frame_ok screen" "Cols screen = Cols next" "Rows screen = Rows next"
    and "prev = Some screen \<or> (total_damage prev next \<and> (\<forall>p. prev = Some p \<longrightarrow> frame_ok p))"
  shows "repaint (DiffFrames prev next) screen = next \<and>
    (prev = Some screen \<longrightarrow> damage (DiffFrames prev next) = {(x, y). At_cell screen x y \<noteq> At_cell next x y})"
proof
  have ok: "\<And>p. prev = Some p \<Longrightarrow> frame_ok p" using assms(2,5) by auto
  have d: "(a, b, c) \<in> set (concat (map span_cells (DiffFrames prev next))) \<longleftrightarrow>
      At_cell next a b = Some c \<and> (total_damage prev next \<or> (\<exists>p. prev = Some p \<and> At_cell p a b \<noteq> At_cell next a b))" for a b c
    using diff_cells [OF assms(1) ok] by blast
  let ?cs = "concat (map span_cells (DiffFrames prev next))"
  have dom: "At_cell screen x y = None \<longleftrightarrow> At_cell next x y = None" for x y using assms(3,4) by simp
  show "repaint (DiffFrames prev next) screen = next"
    unfolding repaint_def
  proof (rule fr.grid_eq)
    show "frame_ok (fold (\<lambda>(x, y, c). Set_cell x y c) ?cs screen)"
      "(Cols (fold (\<lambda>(x, y, c). Set_cell x y c) ?cs screen), Rows (fold (\<lambda>(x, y, c). Set_cell x y c) ?cs screen)) =
        (Cols next, Rows next)"
      using fr.draws_ok [OF fr.puts_draw [OF assms(2), of ?cs]] fr.draws_dim [OF fr.puts_draw [OF assms(2), of ?cs]]
        assms(3,4) by simp_all
    fix x y
    show "At_cell (fold (\<lambda>(x, y, c). Set_cell x y c) ?cs screen) x y = At_cell next x y"
    proof (subst fr.get_puts [of _ "next"])
      show "(if (x, y) \<in> (\<lambda>(x, y, c). (x, y)) ` set ?cs then At_cell next x y else At_cell screen x y) = At_cell next x y"
      proof (cases "At_cell next x y")
        case None
        moreover have "At_cell screen x y = None" using None dom by blast
        ultimately show ?thesis by (simp only: if_cancel)
      next
        case (Some c)
        then show ?thesis using d [of x y c] assms(5) dom [of x y] by (force simp: image_iff)
      qed
    qed (use assms d in auto)
  qed (rule assms(1))
  show "prev = Some screen \<longrightarrow> damage (DiffFrames prev next) = {(x, y). At_cell screen x y \<noteq> At_cell next x y}"
  proof
    assume p: "prev = Some screen"
    then have n: "\<not> total_damage prev next" using assms(3,4) by (simp add: total_damage_def)
    have m: "(x, y) \<in> damage (DiffFrames prev next) \<longleftrightarrow> (\<exists>c. (x, y, c) \<in> set (concat (map span_cells (DiffFrames prev next))))" for x y
      unfolding damage_def by (auto simp del: set_concat set_map) (metis (mono_tags, lifting) case_prod_conv image_eqI)
    have "(x, y) \<in> damage (DiffFrames prev next) \<longleftrightarrow> At_cell screen x y \<noteq> At_cell next x y" for x y
      unfolding m d using p n dom [of x y] by (cases "At_cell next x y") (simp_all add: option.inject del: At_None)
    then show "damage (DiffFrames prev next) = {(x, y). At_cell screen x y \<noteq> At_cell next x y}" by auto
  qed
qed

definition small_frame :: "string list \<Rightarrow> Frame" where
  "small_frame ss = \<lparr> Cols = 2, Rows = 2, Cells = map (\<lambda>s. \<lparr>Content = s, Width = 1, cell_Style = no_style\<rparr>) ss \<rparr>"

lemma diff_repaints_witness:
  "repaint (DiffFrames (Some (small_frame [''a'', ''b'', ''c'', ''d''])) (small_frame [''a'', ''x'', ''y'', ''d'']))
      (small_frame [''a'', ''b'', ''c'', ''d'']) = small_frame [''a'', ''x'', ''y'', ''d''] \<and>
    length (DiffFrames (Some (small_frame [''a'', ''b'', ''c'', ''d''])) (small_frame [''a'', ''x'', ''y'', ''d''])) = 2"
proof
  show "repaint (DiffFrames (Some (small_frame [''a'', ''b'', ''c'', ''d''])) (small_frame [''a'', ''x'', ''y'', ''d'']))
      (small_frame [''a'', ''b'', ''c'', ''d'']) = small_frame [''a'', ''x'', ''y'', ''d'']"
    by (rule diff_repaints [THEN conjunct1]) (simp_all add: frame_ok_def small_frame_def)
qed code_simp

end
