(* ===== verification/Tui_Draw_Laws.thy ===== *)
theory Tui_Draw_Laws
  imports Tui_Render Tui_Frame_Props
begin

text \<open>
  Laws of drawing: what each primitive of the renderer changes, and that it
  leaves wide cells whole, a lead of width two with its shadow to the right.
\<close>

section \<open>Truncation\<close>

lemma DecodeRune_take:
  assumes "s \<noteq> []" "snd (DecodeRune s) \<le> k"
  shows "DecodeRune (take k s) = DecodeRune s"
proof -
  obtain a s1 where s: "s = a # s1" using assms(1) by (cases s) auto
  have k: "1 \<le> k" using DecodeRune_size [OF assms(1)] assms(2) by linarith
  then obtain k1 where k1: "k = Suc k1" by (cases k) auto
  consider "s1 = []" | b where "s1 = [b]" | b c where "s1 = [b, c]" | b c d s4 where "s1 = b # c # d # s4"
    by (metis list.exhaust)
  then show ?thesis
  proof cases
    case (4 b c d s4)
    consider "k1 = 0" | "k1 = 1" | "k1 = 2" | k4 where "k1 = Suc (Suc (Suc k4))"
      by (metis One_nat_def numeral_2_eq_2 not0_implies_Suc)
    then show ?thesis
      using assms(2) by cases (auto simp: DecodeRune_def Let_def s 4 k1 numeral_2_eq_2 split: if_splits)
  next
    case (3 b c)
    consider "k1 = 0" | "k1 = 1" | k3 where "k1 = Suc (Suc k3)"
      by (metis One_nat_def not0_implies_Suc)
    then show ?thesis
      using assms(2) by cases (auto simp: DecodeRune_def Let_def s 3 k1 split: if_splits)
  next
    case (2 b)
    then show ?thesis using assms(2) by (cases k1) (auto simp: DecodeRune_def Let_def s k1 split: if_splits)
  qed (simp add: DecodeRune_def Let_def s k1)
qed

definition run_width :: "(int \<times> nat) list \<Rightarrow> int" where
  "run_width rs = sum_list (map (\<lambda>(r, n). RuneWidth r) rs)"

lemma run_width_simps [simp]: "run_width [] = 0" "run_width ((r, n) # rs) = RuneWidth r + run_width rs"
  by (simp_all add: run_width_def)

lemma RuneWidth_values: "RuneWidth r = 0 \<or> RuneWidth r = 1 \<or> RuneWidth r = 2"
  by (simp add: RuneWidth_def)

lemma RuneWidth_nonneg [simp]: "0 \<le> RuneWidth r"
  using RuneWidth_values [of r] by auto

lemma run_width_nonneg [simp]: "0 \<le> run_width rs"
  by (auto simp: run_width_def intro!: sum_list_nonneg)

lemma StringWidth_run: "StringWidth s = run_width (runes s)"
proof -
  have "fold (\<lambda>(r, n) w. w + RuneWidth r) rs w = w + run_width rs" for rs w
    by (induction rs arbitrary: w) auto
  then show ?thesis by (simp add: StringWidth_def)
qed

lemma runes_take: "k \<le> length (runes s) \<Longrightarrow> runes (take (sum_list (map snd (take k (runes s)))) s) = take k (runes s)"
proof (induction k arbitrary: s)
  case (Suc k)
  then have s: "s \<noteq> []" by auto
  let ?d = "DecodeRune s" let ?t = "drop (snd ?d) s"
  have r: "runes s = ?d # runes ?t" using s by (simp add: runes.simps [of s])
  let ?n = "snd ?d + sum_list (map snd (take k (runes ?t)))"
  have n: "1 \<le> ?n" using DecodeRune_size [OF s] by simp
  then have ne: "take ?n s \<noteq> []" using s unfolding take_eq_Nil by linarith
  have "runes (take ?n s) = DecodeRune (take ?n s) # runes (drop (snd (DecodeRune (take ?n s))) (take ?n s))"
    using ne by (simp add: runes.simps [of "take ?n s"])
  also have "DecodeRune (take ?n s) = ?d" using DecodeRune_take [OF s] by simp
  also have "drop (snd ?d) (take ?n s) = take (sum_list (map snd (take k (runes ?t)))) ?t"
    by (simp add: drop_take)
  also have "runes \<dots> = take k (runes ?t)" using Suc r by simp
  finally show ?case using r by simp
qed simp

lemma truncate_loop_prefix:
  assumes "w \<le> limit"
  shows "\<exists>k \<le> length rs. fst (truncate_loop s limit rs i w) = (if k = length rs then s else take (i + sum_list (map snd (take k rs))) s) \<and>
    w + run_width (take k rs) \<le> limit"
  using assms
proof (induction s limit rs i w rule: truncate_loop.induct)
  case (2 s limit r n rs i w)
  show ?case
  proof (cases "w + RuneWidth r > limit")
    case True
    then show ?thesis using 2(2) by (intro exI [of _ 0]) (auto simp: Let_def)
  next
    case False
    then obtain k where "k \<le> length rs"
      "fst (truncate_loop s limit rs (i + n) (w + RuneWidth r)) =
        (if k = length rs then s else take (i + n + sum_list (map snd (take k rs))) s)"
      "w + RuneWidth r + run_width (take k rs) \<le> limit"
      using 2(1) [OF refl] by auto
    then show ?thesis using False by (intro exI [of _ "Suc k"]) (auto simp: Let_def add.assoc)
  qed
qed simp

lemma truncate_width:
  assumes "0 \<le> limit"
  shows "run_width (runes (fst (truncateToWidth s limit))) \<le> limit"
proof -
  obtain k where k: "k \<le> length (runes s)" "run_width (take k (runes s)) \<le> limit"
    "fst (truncateToWidth s limit) = (if k = length (runes s) then s else take (sum_list (map snd (take k (runes s)))) s)"
    using truncate_loop_prefix [OF assms, of "runes s" s 0] by (auto simp: truncateToWidth_def)
  then show ?thesis using runes_take [OF k(1)] by (auto split: if_splits)
qed

section \<open>Wide cells\<close>

definition cell_width :: "Frame \<Rightarrow> int \<Rightarrow> int \<Rightarrow> int option" where
  "cell_width f x y = map_option Width (At_cell f x y)"

definition paired :: "Frame \<Rightarrow> bool" where
  "paired f = (\<forall>x y. (cell_width f x y = Some 2) = (cell_width f (x + 1) y = Some (- 1)) \<and>
    (\<forall>w. cell_width f x y = Some w \<longrightarrow> w \<in> {- 1, 0, 1, 2}))"

definition narrow :: "(int \<times> int) set \<Rightarrow> Frame \<Rightarrow> bool" where
  "narrow S f = (\<forall>x y w. (x, y) \<in> S \<longrightarrow> cell_width f x y = Some w \<longrightarrow> w \<in> {0, 1})"

definition paints :: "bool \<Rightarrow> (int \<times> int) set \<Rightarrow> Frame \<Rightarrow> Frame \<Rightarrow> bool" where
  "paints b S f g = (fr.draws S f g \<and> (b \<and> paired f \<and> narrow S f \<longrightarrow> paired g))"

definition calm :: "(int \<times> int) set \<Rightarrow> Frame \<Rightarrow> Frame \<Rightarrow> bool" where
  "calm S f g = (fr.draws S f g \<and> (paired f \<and> narrow S f \<longrightarrow> paired g \<and> narrow S g))"

lemma draws_width: "fr.draws S f g \<Longrightarrow> (x, y) \<notin> S \<Longrightarrow> cell_width g x y = cell_width f x y"
  by (simp add: cell_width_def fr.draws_get)

lemma narrow_mono: "narrow T f \<Longrightarrow> S \<subseteq> T \<Longrightarrow> narrow S f"
  by (auto simp: narrow_def)

lemma narrowD: "narrow S f \<Longrightarrow> (x, y) \<in> S \<Longrightarrow> cell_width f x y \<noteq> Some 2 \<and> cell_width f x y \<noteq> Some (- 1)"
  by (force simp: narrow_def)

lemma narrow_draws: "fr.draws S f g \<Longrightarrow> S \<inter> T = {} \<Longrightarrow> narrow T f \<Longrightarrow> narrow T g"
  unfolding narrow_def using draws_width [of S f g] by (metis disjoint_iff)

lemma paints_refl: "frame_ok f \<Longrightarrow> paints b S f f"
  by (simp add: paints_def fr.draws_refl)

lemma paints_ok: "paints b S f g \<Longrightarrow> frame_ok g"
  by (auto simp: paints_def dest: fr.draws_ok)

lemma paints_dims: "paints b S f g \<Longrightarrow> Cols g = Cols f \<and> Rows g = Rows f"
  by (auto simp: paints_def dest: fr.draws_dim)

lemma paints_mono: "paints b S f g \<Longrightarrow> S \<subseteq> T \<Longrightarrow> paints b T f g"
  using fr.draws_mono narrow_mono by (auto simp: paints_def)

lemma calm_mono:
  assumes "calm S f g" "S \<subseteq> T"
  shows "calm T f g"
proof -
  have d: "fr.draws S f g" using assms(1) by (simp add: calm_def)
  have "paired g \<and> narrow T g" if p: "paired f" and n: "narrow T f"
  proof
    have g: "paired g" "narrow S g" using assms(1) p narrow_mono [OF n assms(2)] by (auto simp: calm_def)
    then show "paired g" by simp
    show "narrow T g"
      using n g(2) draws_width [OF d] unfolding narrow_def by metis
  qed
  then show ?thesis using fr.draws_mono [OF d assms(2)] by (simp add: calm_def)
qed

lemma calm_paints: "calm S f g \<Longrightarrow> paints b S f g"
  by (auto simp: calm_def paints_def)

lemma calm_then: "calm S f g \<Longrightarrow> paints b S g h \<Longrightarrow> paints b S f h"
  unfolding calm_def paints_def using fr.draws_trans by blast

lemma calm_trans: "calm S f g \<Longrightarrow> calm S g h \<Longrightarrow> calm S f h"
  unfolding calm_def using fr.draws_trans by blast

lemma calm_refl: "frame_ok f \<Longrightarrow> calm S f f"
  by (simp add: calm_def fr.draws_refl)

lemma calm_ok: "calm S f g \<Longrightarrow> frame_ok g"
  by (auto simp: calm_def dest: fr.draws_ok)

lemma calm_dims: "calm S f g \<Longrightarrow> Cols g = Cols f \<and> Rows g = Rows f"
  by (auto simp: calm_def dest: fr.draws_dim)

lemma paints_disjoint:
  assumes "paints b S f g" "paints b T g h" "S \<inter> T = {}" "S \<union> T \<subseteq> U"
  shows "paints b U f h"
proof -
  have d: "fr.draws S f g" "fr.draws T g h" using assms(1,2) by (simp_all add: paints_def)
  have "fr.draws (S \<union> T) f h"
    by (rule fr.draws_trans [OF fr.draws_mono [OF d(1)] fr.draws_mono [OF d(2)]]) auto
  moreover have "paired h" if b "paired f" "narrow (S \<union> T) f"
  proof -
    have "narrow S f" "narrow T f" using that(3) by (auto intro: narrow_mono)
    then have "paired g" "narrow T g" using assms(1,3) that narrow_draws [OF d(1)] by (auto simp: paints_def)
    then show ?thesis using assms(2) that(1) by (simp add: paints_def)
  qed
  ultimately have "paints b (S \<union> T) f h" by (simp add: paints_def)
  then show ?thesis using assms(4) by (rule paints_mono)
qed

lemma calm_fold:
  "\<lbrakk>frame_ok f; \<And>a f. a \<in> set as \<Longrightarrow> frame_ok f \<Longrightarrow> calm S f (g a f)\<rbrakk> \<Longrightarrow> calm S f (fold g as f)"
proof (induction as arbitrary: f)
  case (Cons a as)
  then have a: "calm S f (g a f)" by simp
  then have "calm S (g a f) (fold g as (g a f))" using Cons.IH [OF calm_ok [OF a]] Cons.prems(2) by simp
  with a show ?case by (simp add: calm_trans)
qed (simp add: calm_refl)

section \<open>Writing cells\<close>

lemma width_Set: "frame_ok f \<Longrightarrow> cell_width (Set_cell x y c f) x' y' =
    (if x' = x \<and> y' = y \<and> cell_width f x y \<noteq> None then Some (Width c) else cell_width f x' y')"
  by (auto simp: cell_width_def At_Set simp del: At_None)

lemma calm_same_width:
  assumes "frame_ok f" "At_cell f x y = Some c" "Width c' = Width c" "(x, y) \<in> S"
  shows "calm S f (Set_cell x y c' f)"
proof -
  have "cell_width f x y = Some (Width c)" using assms(2) by (simp add: cell_width_def)
  then have "cell_width (Set_cell x y c' f) = cell_width f"
    using assms(3) by (intro ext) (simp add: width_Set [OF assms(1)])
  then show ?thesis using fr.draws_put [OF assms(1,4)] by (simp add: calm_def paired_def narrow_def)
qed

lemma paired_width: "paired f \<Longrightarrow> cell_width f x y = Some 2 \<longleftrightarrow> cell_width f (x + 1) y = Some (- 1)"
  by (simp add: paired_def)

lemma calm_narrow_cell:
  assumes "frame_ok f" "Width c = 1" "(x, y) \<in> S"
  shows "calm S f (Set_cell x y c f)"
proof -
  have "paired (Set_cell x y c f) \<and> narrow S (Set_cell x y c f)" if p: "paired f" and n: "narrow S f"
  proof
    have xy: "cell_width f x y \<noteq> Some 2" "cell_width f x y \<noteq> Some (- 1)"
      using narrowD [OF n assms(3)] by blast+
    have l: "cell_width f (x - 1) y \<noteq> Some 2" using paired_width [OF p, of "x - 1" y] xy(2) by simp
    have r: "cell_width f (x + 1) y \<noteq> Some (- 1)" using paired_width [OF p, of x y] xy(1) by simp
    have x1: "a + 1 = x \<longleftrightarrow> a = x - 1" for a by auto
    show "paired (Set_cell x y c f)"
      using p l r xy unfolding paired_def by (auto simp: width_Set [OF assms(1)] assms(2) x1)
    show "narrow S (Set_cell x y c f)" using n by (auto simp: narrow_def width_Set [OF assms(1)] assms(2))
  qed
  then show ?thesis using fr.draws_put [OF assms(1,3)] by (simp add: calm_def)
qed

text \<open>A wide rune with its shadow.\<close>

lemma paints_wide:
  assumes "frame_ok f" "Width c = 2" "Width d = - 1" "(x, y) \<in> S" "(x + 1, y) \<in> S"
    and "0 \<le> x" "x + 1 < Cols f" "0 \<le> y" "y < Rows f"
  shows "paints b S f (Set_cell (x + 1) y d (Set_cell x y c f))"
proof -
  let ?g = "Set_cell x y c f"
  have ok: "frame_ok ?g" using fr.ok_put [OF assms(1)] .
  have n: "cell_width f x y \<noteq> None" "cell_width f (x + 1) y \<noteq> None" using assms(6-9) by (auto simp: cell_width_def)
  then have w: "cell_width (Set_cell (x + 1) y d ?g) a e =
      (if a = x + 1 \<and> e = y then Some (- 1) else if a = x \<and> e = y then Some 2 else cell_width f a e)" for a e
    using assms(2,3) by (simp add: width_Set [OF ok] width_Set [OF assms(1)])
  have "paired (Set_cell (x + 1) y d ?g)" if p: "paired f" and n: "narrow S f"
  proof -
    have xy: "cell_width f x y \<noteq> Some (- 1)" "cell_width f (x + 1) y \<noteq> Some 2" 
      using narrowD [OF n assms(4)] narrowD [OF n assms(5)] by blast+
    have l: "cell_width f (x - 1) y \<noteq> Some 2" using paired_width [OF p, of "x - 1" y] xy(1) by simp
    have r: "cell_width f (x + 1 + 1) y \<noteq> Some (- 1)" using paired_width [OF p, of "x + 1" y] xy(2) by simp
    have x1: "a + 1 = x \<longleftrightarrow> a = x - 1" for a by auto
    show ?thesis unfolding paired_def w using p l r unfolding paired_def by (auto simp: x1)
  qed
  moreover have "fr.draws S f (Set_cell (x + 1) y d ?g)"
    using fr.draws_trans [OF fr.draws_put [OF assms(1,4)] fr.draws_put [OF ok assms(5)]] .
  ultimately show ?thesis by (simp add: paints_def)
qed

end
