(* ===== verification/Tui_Layout_Props.thy ===== *)
theory Tui_Layout_Props
  imports Tui_Layout
begin

text \<open>
  The solver of sizes: nothing is negative, nothing beyond the extent is handed
  out, flexible children fill the axis exactly and get their share rounded.
\<close>

section \<open>Sums over lists updated in place\<close>

lemma sum_update: "i < length xs \<Longrightarrow> sum_list (xs[i := x]) = sum_list xs + x - (xs ! i :: int)"
  by (induction xs arbitrary: i) (auto split: nat.split)

lemma sum_zero: "\<forall>i < length xs. xs ! i = (0::int) \<Longrightarrow> sum_list xs = 0"
  by (induction xs) fastforce+

section \<open>Claims\<close>

definition kind_at :: "sizeKind \<Rightarrow> (nat \<times> sizeSpec) list \<Rightarrow> nat set" where
  "kind_at k ss = {i. \<exists>s. (i, s) \<in> set ss \<and> spec_kind s = k}"

lemma kind_at_simps [simp]:
  "kind_at k [] = {}" "kind_at k ((i, s) # ss) = (if spec_kind s = k then insert i (kind_at k ss) else kind_at k ss)"
  by (auto simp: kind_at_def)

lemma unset_elsewhere:
  "\<lbrakk>i \<notin> A; \<forall>j \<in> insert i A. xs ! j = (0::int)\<rbrakk> \<Longrightarrow> \<forall>j \<in> A. xs[i := w] ! j = 0"
  by (metis insertI2 nth_list_update_neq)

lemma kind_at_fst: "kind_at k ss \<subseteq> fst ` set ss"
  by (force simp: kind_at_def)

lemma claim_le: "0 \<le> r \<Longrightarrow> claim w r = (a, r') \<Longrightarrow> 0 \<le> a \<and> 0 \<le> r' \<and> a + r' = r"
  by (auto simp: claim_def Let_def split: if_splits)

lemma claims_sound:
  assumes "claims k want ss (out, r) = (out', r')" "0 \<le> r" "distinct (map fst ss)"
    and "\<forall>i \<in> kind_at k ss. out ! i = 0" "\<forall>i \<in> fst ` set ss. i < length out"
  shows "length out' = length out \<and> 0 \<le> r' \<and> r' \<le> r \<and> sum_list out' + r' = sum_list out + r \<and>
    (\<forall>i. i \<notin> kind_at k ss \<longrightarrow> out' ! i = out ! i) \<and> (\<forall>i \<in> kind_at k ss. 0 \<le> out' ! i)"
  using assms
proof (induction k want ss "(out, r)" arbitrary: out r rule: claims.induct)
  case (2 k want i s ss out r)
  show ?case
  proof (cases "spec_kind s = k")
    case True
    obtain w t where c: "claim (want i s) r = (w, t)" by fastforce
    note cl = claim_le [OF 2(4) c]
    have i: "i < length out" "out ! i = 0" "i \<notin> kind_at k ss" using 2(5,6,7) True kind_at_fst [of k ss] by auto
    have "claims k want ss (out[i := w], t) = (out', r')" using 2(3) True c by simp
    moreover have "\<forall>j \<in> kind_at k ss. out[i := w] ! j = 0" using unset_elsewhere [OF i(3)] 2(6) True by simp
    ultimately have "length out' = length (out[i := w]) \<and> 0 \<le> r' \<and> r' \<le> t \<and>
        sum_list out' + r' = sum_list (out[i := w]) + t \<and>
        (\<forall>j. j \<notin> kind_at k ss \<longrightarrow> out' ! j = out[i := w] ! j) \<and> (\<forall>j \<in> kind_at k ss. 0 \<le> out' ! j)"
      using 2(1) [OF True c [symmetric]] cl 2(5,7) by simp
    then show ?thesis using i cl True by (auto simp: sum_update)
  qed (use 2 in simp)
qed simp

section \<open>Shares\<close>

definition flexes :: "(nat \<times> sizeSpec) list \<Rightarrow> (nat \<times> sizeSpec) list" where
  "flexes ss = filter (\<lambda>(i, s). spec_kind s = sizeFlex) ss"

lemma flexes_simps [simp]:
  "flexes [] = []" "flexes ((i, s) # ss) = (if spec_kind s = sizeFlex then (i, s) # flexes ss else flexes ss)"
  by (simp_all add: flexes_def)

lemma flexes_kind: "fst ` set (flexes ss) = kind_at sizeFlex ss"
  by (force simp: flexes_def kind_at_def)

text \<open>Numbers small enough for the products: sizes below \<open>2 ^ 31\<close>.\<close>

definition small :: "int \<Rightarrow> bool" where
  "small n = (0 \<le> n \<and> n \<le> 2 ^ 31)"

definition weights_ok :: "(nat \<times> sizeSpec) list \<Rightarrow> bool" where
  "weights_ok ss = (\<forall>(i, s) \<in> set ss. spec_kind s = sizeFlex \<longrightarrow> 1 \<le> spec_n s \<and> spec_n s \<le> 2 ^ 31)"

lemma share_ops:
  assumes "small r" "1 \<le> n" "n \<le> 2 ^ 31" "0 < w"
  shows "mul64 r n = r * n" "div64 (mul64 r n) w = r * n div w" "mod64 (mul64 r n) w = r * n mod w"
    "0 \<le> r * n div w" "r * n div w \<le> 2 ^ 62"
proof -
  have b: "r * n \<le> 2 ^ 31 * 2 ^ 31" using assms by (intro mult_mono) (auto simp: small_def)
  have p: "0 \<le> r * n" using assms by (simp add: small_def)
  have i: "int64 (r * n)" using b p by (simp add: int64_def)
  then show "mul64 r n = r * n" by (rule ops64)
  then show "div64 (mul64 r n) w = r * n div w" "mod64 (mul64 r n) w = r * n mod w"
    using assms(4) p i by (simp_all add: div64_nonneg mod64_nonneg)
  show "0 \<le> r * n div w" using p assms(4) by (simp add: pos_imp_zdiv_nonneg_iff)
  have "r * n div w \<le> r * n" using p assms(4) zdiv_mono2 [of "r * n" 1 w] by simp
  with b show "r * n div w \<le> 2 ^ 62" by simp
qed

definition weight_sum :: "(nat \<times> sizeSpec) list \<Rightarrow> int" where
  "weight_sum ss = sum_list (map (\<lambda>(i, s). spec_n s) (flexes ss))"

text \<open>The shares rounded down, their sum, and the remainders in order.\<close>

lemma flex_shares_sound:
  assumes "flex_shares r w ss (out, d, fr) = (out', d', fr')"
    and "small r" "0 < w" "weights_ok ss" "weight_sum ss \<le> w" "distinct (map fst ss)"
    and "0 \<le> d" "d + r \<le> 2 ^ 32" "d * w + r * weight_sum ss \<le> r * w"
    and "\<forall>i \<in> kind_at sizeFlex ss. out ! i = 0" "\<forall>i \<in> fst ` set ss. i < length out"
  shows "length out' = length out \<and> sum_list out' = sum_list out + (d' - d) \<and>
    fr' = fr @ map (\<lambda>(i, s). (i, r * spec_n s mod w)) (flexes ss) \<and>
    d' = d + sum_list (map (\<lambda>(i, s). r * spec_n s div w) (flexes ss)) \<and>
    (\<forall>i. i \<notin> kind_at sizeFlex ss \<longrightarrow> out' ! i = out ! i) \<and>
    (\<forall>(i, s) \<in> set (flexes ss). out' ! i = r * spec_n s div w)"
  using assms
proof (induction r w ss "(out, d, fr)" arbitrary: out d fr rule: flex_shares.induct)
  case (2 r w i s ss out d fr)
  show ?case
  proof (cases "spec_kind s = sizeFlex")
    case True
    let ?n = "spec_n s" and ?q = "r * spec_n s div w"
    have n: "1 \<le> ?n" "?n \<le> 2 ^ 31" using 2(6) True by (auto simp: weights_ok_def)
    note sh1 = share_ops [OF 2(4) n 2(5)]
    note sh = sh1 sh1(2,3) [unfolded sh1(1)]
    have i: "i < length out" "out ! i = 0" "i \<notin> kind_at sizeFlex ss"
      using 2(8,12,13) True kind_at_fst [of sizeFlex ss] by auto
    have ws: "weight_sum ((i, s) # ss) = ?n + weight_sum ss" using True by (simp add: weight_sum_def)
    have wn: "0 \<le> weight_sum ss"
      using 2(6) by (fastforce simp: weight_sum_def weights_ok_def flexes_def intro!: sum_list_nonneg)
    have qw: "?q * w \<le> r * ?n" using 2(5) by (simp add: minus_mod_eq_div_mult [symmetric])
    have dw: "(d + ?q) * w + r * weight_sum ss \<le> r * w" using 2(11) qw ws by (simp add: algebra_simps)
    have "0 \<le> r * weight_sum ss" using 2(4) wn by (simp add: small_def)
    then have "(d + ?q) * w \<le> r * w" using dw by simp
    then have dq: "d + ?q \<le> r" using 2(5) by simp
    have ad: "add64 d ?q = d + ?q" using dq 2(4,9) sh(4) by (intro ops64) (auto simp: int64_def small_def)
    have "flex_shares r w ss (out[i := ?q], d + ?q, fr @ [(i, r * ?n mod w)]) = (out', d', fr')"
      using 2(3) True by (simp add: Let_def sh ad)
    moreover have "\<forall>j \<in> kind_at sizeFlex ss. out[i := ?q] ! j = 0" using unset_elsewhere [OF i(3)] 2(12) True by simp
    moreover have "d + ?q + r \<le> 2 ^ 32" using dq 2(4) by (simp add: small_def)
    ultimately have r: "length out' = length (out[i := ?q]) \<and> sum_list out' = sum_list (out[i := ?q]) + (d' - (d + ?q)) \<and>
        fr' = (fr @ [(i, r * ?n mod w)]) @ map (\<lambda>(i, s). (i, r * spec_n s mod w)) (flexes ss) \<and>
        d' = (d + ?q) + sum_list (map (\<lambda>(i, s). r * spec_n s div w) (flexes ss)) \<and>
        (\<forall>i'. i' \<notin> kind_at sizeFlex ss \<longrightarrow> out' ! i' = out[i := ?q] ! i') \<and>
        (\<forall>(i, s) \<in> set (flexes ss). out' ! i = r * spec_n s div w)"
      using 2(2) [of "r * ?n" ?q] True 2(4-13) sh ad dw ws n(1) sh(4)
      by (simp add: Let_def weights_ok_def)
    then show ?thesis using True i by (auto simp: sum_update)
  qed (use 2 in \<open>simp add: weight_sum_def weights_ok_def\<close>)
qed simp

section \<open>The rest\<close>

lemma best_frac_max:
  assumes "fr \<noteq> []"
  shows "best_frac fr < length fr" "\<forall>j < length fr. snd (fr ! j) \<le> snd (fr ! best_frac fr)"
proof -
  let ?f = "\<lambda>j best. if snd (fr ! j) > snd (fr ! best) then j else best"
  have "m \<le> length fr \<Longrightarrow> fold ?f [0..<m] 0 < length fr \<and> (\<forall>j < m. snd (fr ! j) \<le> snd (fr ! fold ?f [0..<m] 0))" for m
    using assms by (induction m) (auto simp: less_Suc_eq)
  from this [of "length fr"]
  show "best_frac fr < length fr" "\<forall>j < length fr. snd (fr ! j) \<le> snd (fr ! best_frac fr)"
    by (auto simp: best_frac_def)
qed

definition unused :: "(nat \<times> int) list \<Rightarrow> nat set" where
  "unused fr = {j. j < length fr \<and> 0 \<le> snd (fr ! j)}"

lemma hand_out_sound:
  assumes "left \<le> card (unused fr)" "distinct (map fst fr)" "\<forall>i \<in> fst ` set fr. i < length out"
    and "\<forall>j \<in> unused fr. 0 \<le> out ! fst (fr ! j) \<and> out ! fst (fr ! j) \<le> 2 ^ 62"
  shows "length (hand_out left out fr) = length out \<and> sum_list (hand_out left out fr) = sum_list out + int left \<and>
    (\<forall>i. i \<notin> fst ` set fr \<longrightarrow> hand_out left out fr ! i = out ! i) \<and>
    (\<forall>j < length fr. hand_out left out fr ! fst (fr ! j) \<in>
      (if j \<in> unused fr then {out ! fst (fr ! j), out ! fst (fr ! j) + 1} else {out ! fst (fr ! j)}))"
  using assms
proof (induction left arbitrary: out fr)
  case (Suc left)
  let ?b = "best_frac fr" and ?i = "fst (fr ! best_frac fr)"
  let ?out = "out[?i := out ! ?i + 1]" and ?fr = "fr[?b := (?i, - 1)]"
  have u: "unused fr \<noteq> {}" using Suc.prems(1) by auto
  then have fr: "fr \<noteq> []" by (auto simp: unused_def)
  note b = best_frac_max [OF fr]
  have bu: "?b \<in> unused fr" using u b by (fastforce simp: unused_def)
  have fst_fr: "map fst ?fr = map fst fr" using b(1) by (simp add: map_update list_update_same_conv)
  then have sf: "fst ` set ?fr = fst ` set fr" by (metis list.set_map)
  have i: "?i \<in> fst ` set fr" using b(1) by simp
  have il: "?i < length out" "out ! ?i \<le> 2 ^ 62" "0 \<le> out ! ?i" using Suc.prems(3,4) i bu by auto
  have ad: "add64 (out ! ?i) 1 = out ! ?i + 1" using il by (intro ops64) (auto simp: int64_def)
  have "snd (?fr ! j) = (if j = ?b then - 1 else snd (fr ! j))" for j using b(1) by auto
  then have un: "unused ?fr = unused fr - {?b}" by (auto simp: unused_def split: if_splits)
  then have c: "left \<le> card (unused ?fr)" using Suc.prems(1) bu by (simp add: card_Diff_singleton)
  have other: "fst (fr ! j) \<noteq> ?i" if "j < length fr" "j \<noteq> ?b" for j
    using that b(1) Suc.prems(2) by (metis length_map nth_eq_iff_index_eq nth_map)
  have f: "fst (?fr ! j) = fst (fr ! j)" for j using b(1) by (cases "j = ?b") simp_all
  have o: "?out ! fst (fr ! j) = (if j = ?b then out ! ?i + 1 else out ! fst (fr ! j))" if "j < length fr" for j
    using other [OF that] il(1) by auto
  have p4: "\<forall>j \<in> unused ?fr. 0 \<le> ?out ! fst (?fr ! j) \<and> ?out ! fst (?fr ! j) \<le> 2 ^ 62"
    using Suc.prems(4) un o by (auto simp: f unused_def)
  have h: "hand_out (Suc left) out fr = hand_out left ?out ?fr" by (simp add: Let_def ad)
  have r: "length (hand_out left ?out ?fr) = length ?out \<and> sum_list (hand_out left ?out ?fr) = sum_list ?out + int left \<and>
    (\<forall>i. i \<notin> fst ` set ?fr \<longrightarrow> hand_out left ?out ?fr ! i = ?out ! i) \<and>
    (\<forall>j < length ?fr. hand_out left ?out ?fr ! fst (?fr ! j) \<in>
      (if j \<in> unused ?fr then {?out ! fst (?fr ! j), ?out ! fst (?fr ! j) + 1} else {?out ! fst (?fr ! j)}))"
    by (rule Suc.IH [OF c _ _ p4]) (use Suc.prems(2,3) fst_fr sf in auto)
  have "hand_out (Suc left) out fr ! fst (fr ! j) \<in>
      (if j \<in> unused fr then {out ! fst (fr ! j), out ! fst (fr ! j) + 1} else {out ! fst (fr ! j)})"
    if j: "j < length fr" for j
    using r j o [OF j] un bu unfolding h f by (cases "j = ?b") auto
  moreover have "sum_list ?out = sum_list out + 1" using il(1) by (simp add: sum_update)
  moreover have "?out ! k = out ! k" if "k \<notin> fst ` set fr" for k using that i by (metis nth_list_update_neq)
  ultimately show ?case using r unfolding h sf by auto
qed simp

lemma flex_weight_sum:
  assumes "weights_ok (zip is specs)" "length is = length specs" "0 \<le> w" "w + 2 ^ 31 * int (length specs) < 2 ^ 63"
  shows "fold (\<lambda>s w. if spec_kind s = sizeFlex then add64 w (spec_n s) else w) specs w = w + weight_sum (zip is specs)"
  using assms
proof (induction specs arbitrary: "is" w)
  case (Cons s specs)
  obtain i js where "is": "is = i # js" using Cons.prems(2) by (cases "is") auto
  then have w: "weights_ok (zip js specs)" using Cons.prems(1) by (auto simp: weights_ok_def)
  show ?case
  proof (cases "spec_kind s = sizeFlex")
    case True
    then have n: "1 \<le> spec_n s" "spec_n s \<le> 2 ^ 31" using Cons.prems(1) by (auto simp: "is" weights_ok_def)
    then have "add64 w (spec_n s) = w + spec_n s" using Cons.prems(3,4) by (intro ops64) (auto simp: int64_def)
    then show ?thesis
      using Cons.IH [OF w, of "w + spec_n s"] Cons.prems n True by (simp add: "is" weight_sum_def algebra_simps)
  qed (use Cons.IH [OF w, of w] Cons.prems in \<open>simp add: "is" weight_sum_def\<close>)
qed (simp add: weight_sum_def)

lemma shares_of_all:
  fixes fs :: "(nat \<times> sizeSpec) list"
  assumes "w = sum_list (map (\<lambda>(i, s). spec_n s) fs)" "0 < w" "0 \<le> (r::int)"
    and "left = r - sum_list (map (\<lambda>(i, s). r * spec_n s div w) fs)"
  shows "0 \<le> left \<and> left \<le> int (length fs)"
proof -
  let ?m = "sum_list (map (\<lambda>(i, s). r * spec_n s mod w) fs)"
  have split: "r * sum_list (map (\<lambda>(i, s). spec_n s) gs) =
      w * sum_list (map (\<lambda>(i, s). r * spec_n s div w) gs) + sum_list (map (\<lambda>(i, s). r * spec_n s mod w) gs)" for gs :: "(nat \<times> sizeSpec) list"
    by (induction gs) (auto simp: algebra_simps)
  have "r * w = w * sum_list (map (\<lambda>(i, s). r * spec_n s div w) fs) + ?m"
    using split [of fs] unfolding assms(1) [symmetric] .
  then have e: "w * left = ?m" unfolding assms(4) right_diff_distrib by (simp add: mult.commute)
  have m0: "0 \<le> ?m" using assms(2) by (auto intro!: sum_list_nonneg)
  have "sum_list (map (\<lambda>(i, s). r * spec_n s mod w) gs) \<le> w * int (length gs)" for gs :: "(nat \<times> sizeSpec) list"
    using assms(2) by (induction gs) (auto simp: algebra_simps intro: add_mono less_imp_le [OF pos_mod_bound])
  then have "w * left \<le> w * int (length fs)" "0 \<le> w * left" using e m0 by simp_all
  then show ?thesis using assms(2) by (simp add: zero_le_mult_iff)
qed

section \<open>The solver\<close>

lemma zip_mem: "(i, s) \<in> set (zip [0..<length specs] specs) \<longleftrightarrow> i < length specs \<and> s = specs ! i"
  by (auto simp: set_zip intro!: exI [of _ i])

lemma zip_facts:
  "map fst (zip [0..<length specs] specs) = [0..<length specs]"
  "fst ` set (zip [0..<length specs] specs) = {0..<length specs}"
  "kind_at k (zip [0..<length specs] specs) = {i. i < length specs \<and> spec_kind (specs ! i) = k}"
proof -
  show m: "map fst (zip [0..<length specs] specs) = [0..<length specs]" by simp
  show "fst ` set (zip [0..<length specs] specs) = {0..<length specs}" by (metis m list.set_map atLeastLessThan_upt)
  show "kind_at k (zip [0..<length specs] specs) = {i. i < length specs \<and> spec_kind (specs ! i) = k}"
    by (auto simp: kind_at_def zip_mem)
qed

text \<open>After the three passes: nothing given to flexible children yet.\<close>

lemma three_passes:
  fixes specs :: "sizeSpec list"
  defines "is \<equiv> zip [0..<length specs] specs"
  assumes "claims sizeFixed w1 is (replicate (length specs) 0, avail) = (o1, r1)"
    and "claims sizePct w2 is (o1, r1) = (o2, r2)" "claims sizeFit w3 is (o2, r2) = (o3, r3)" "0 \<le> avail"
  shows "length o3 = length specs \<and> 0 \<le> r3 \<and> r3 \<le> avail \<and> sum_list o3 + r3 = avail \<and>
    (\<forall>i < length specs. 0 \<le> o3 ! i \<and> (spec_kind (specs ! i) = sizeFlex \<longrightarrow> o3 ! i = 0))"
proof -
  note z = zip_facts [where specs = specs, folded is_def]
  have d: "distinct (map fst is)" by (simp add: z)
  have s1: "length o1 = length specs \<and> 0 \<le> r1 \<and> r1 \<le> avail \<and> sum_list o1 + r1 = avail \<and>
      (\<forall>i. i \<notin> kind_at sizeFixed is \<longrightarrow> i < length specs \<longrightarrow> o1 ! i = 0) \<and> (\<forall>i \<in> kind_at sizeFixed is. 0 \<le> o1 ! i)"
    using claims_sound [OF assms(2) assms(5) d] by (simp add: z sum_list_replicate)
  have s2: "length o2 = length specs \<and> 0 \<le> r2 \<and> r2 \<le> r1 \<and> sum_list o2 + r2 = sum_list o1 + r1 \<and>
      (\<forall>i. i \<notin> kind_at sizePct is \<longrightarrow> o2 ! i = o1 ! i) \<and> (\<forall>i \<in> kind_at sizePct is. 0 \<le> o2 ! i)"
    using claims_sound [OF assms(3) _ d] s1 by (simp add: z)
  have s3: "length o3 = length specs \<and> 0 \<le> r3 \<and> r3 \<le> r2 \<and> sum_list o3 + r3 = sum_list o2 + r2 \<and>
      (\<forall>i. i \<notin> kind_at sizeFit is \<longrightarrow> o3 ! i = o2 ! i) \<and> (\<forall>i \<in> kind_at sizeFit is. 0 \<le> o3 ! i)"
    using claims_sound [OF assms(4) _ d] s1 s2 by (simp add: z)
  have "0 \<le> o3 ! i \<and> (spec_kind (specs ! i) = sizeFlex \<longrightarrow> o3 ! i = 0)" if "i < length specs" for i
    using s1 s2 s3 that by (cases "spec_kind (specs ! i)") (auto simp: z)
  then show ?thesis using s1 s2 s3 by simp
qed

lemma weight_sum_zip:
  "weight_sum (zip [0..<length specs] specs) = (\<Sum>i | i < length specs \<and> spec_kind (specs ! i) = sizeFlex. spec_n (specs ! i))"
proof -
  let ?is = "zip [0..<length specs] specs"
  have "distinct ?is" using zip_facts(1) [where specs = specs] by (metis distinct_upt distinct_zipI1)
  then have "weight_sum ?is = sum (\<lambda>(i, s). spec_n s) (set (flexes ?is))"
    by (simp add: weight_sum_def flexes_def sum_list_distinct_conv_sum_set)
  also have "set (flexes ?is) = (\<lambda>i. (i, specs ! i)) ` {i. i < length specs \<and> spec_kind (specs ! i) = sizeFlex}"
    by (auto simp: flexes_def zip_mem)
  finally show ?thesis by (simp add: sum.reindex inj_on_def)
qed

text \<open>The last step, from what the passes left.\<close>

lemma flex_step:
  fixes specs :: "sizeSpec list"
  defines "is \<equiv> zip [0..<length specs] specs"
  assumes "flex_shares r w is (o3, 0, []) = (o4, d, fr)" "small r" "w = weight_sum is" "w \<noteq> 0" "weights_ok is"
    and "length o3 = length specs" "\<forall>i < length specs. 0 \<le> o3 ! i \<and> (spec_kind (specs ! i) = sizeFlex \<longrightarrow> o3 ! i = 0)"
    and "sizes = hand_out (nat (sub64 r d)) o4 fr"
  shows "length sizes = length specs \<and> sum_list sizes = sum_list o3 + r \<and>
    (\<forall>i < length specs. spec_kind (specs ! i) \<noteq> sizeFlex \<longrightarrow> sizes ! i = o3 ! i) \<and>
    (\<forall>i < length specs. spec_kind (specs ! i) = sizeFlex \<longrightarrow> sizes ! i - r * spec_n (specs ! i) div w \<in> {0, 1} \<and> 0 \<le> sizes ! i)"
proof -
  note z = zip_facts [where specs = specs, folded is_def]
  let ?fs = "flexes is"
  have wp: "0 < w"
    using assms(4-6) by (fastforce simp: weight_sum_def weights_ok_def flexes_def intro!: sum_list_nonneg order_neq_le_trans)
  have r: "0 \<le> r" "r \<le> 2 ^ 31" using assms(3) by (simp_all add: small_def)
  have fl: "length o4 = length o3 \<and> sum_list o4 = sum_list o3 + d \<and>
      fr = map (\<lambda>(i, s). (i, r * spec_n s mod w)) ?fs \<and> d = sum_list (map (\<lambda>(i, s). r * spec_n s div w) ?fs) \<and>
      (\<forall>i. i \<notin> kind_at sizeFlex is \<longrightarrow> o4 ! i = o3 ! i) \<and> (\<forall>(i, s) \<in> set ?fs. o4 ! i = r * spec_n s div w)"
    using flex_shares_sound [OF assms(2,3) wp assms(6)] assms(4,7,8) r by (simp add: z)
  have left: "0 \<le> r - d \<and> r - d \<le> int (length ?fs)"
    by (rule shares_of_all [OF _ wp r(1)]) (use fl assms(4) in \<open>simp_all add: weight_sum_def\<close>)
  have d0: "0 \<le> d"
    using fl wp r assms(6) by (auto simp: weights_ok_def flexes_def pos_imp_zdiv_nonneg_iff intro!: sum_list_nonneg mult_nonneg_nonneg) force
  have sb: "sub64 r d = r - d" using left d0 r by (intro ops64) (auto simp: int64_def)
  have u: "unused fr = {0..<length ?fs}" using fl wp by (auto simp: unused_def split_beta)
  have ffr: "map fst fr = map fst ?fs" using fl by (simp add: split_def o_def)
  have di: "distinct (map fst fr)" unfolding ffr flexes_def
    using z(1) by (metis distinct_map_filter distinct_upt)
  have il: "\<forall>i \<in> fst ` set fr. i < length o4"
    using fl assms(7) ffr flexes_kind [of "is"] by (metis (no_types, lifting) list.set_map mem_Collect_eq z(3))
  have val: "o4 ! fst (fr ! j) = r * spec_n (snd (?fs ! j)) div w \<and> fst (fr ! j) = fst (?fs ! j)" if "j < length ?fs" for j
    using fl that nth_mem [OF that] by (auto simp: split_beta)
  have qb: "0 \<le> o4 ! fst (fr ! j) \<and> o4 ! fst (fr ! j) \<le> 2 ^ 62" if "j < length ?fs" for j
  proof -
    have "?fs ! j \<in> set is" "spec_kind (snd (?fs ! j)) = sizeFlex" using nth_mem [OF that] by (auto simp: flexes_def)
    then have "1 \<le> spec_n (snd (?fs ! j))" "spec_n (snd (?fs ! j)) \<le> 2 ^ 31"
      using assms(6) by (auto simp: weights_ok_def split_beta)
    then show ?thesis unfolding conjunct1 [OF val [OF that]] using share_ops(4,5) [OF assms(3) _ _ wp] by blast
  qed
  have h: "length sizes = length o4 \<and> sum_list sizes = sum_list o4 + int (nat (r - d)) \<and>
      (\<forall>i. i \<notin> fst ` set fr \<longrightarrow> sizes ! i = o4 ! i) \<and>
      (\<forall>j < length fr. sizes ! fst (fr ! j) \<in> (if j \<in> unused fr then {o4 ! fst (fr ! j), o4 ! fst (fr ! j) + 1} else {o4 ! fst (fr ! j)}))"
    unfolding assms(9) sb by (rule hand_out_sound) (use left u di il qb in auto)
  have k: "fst ` set fr = {i. i < length specs \<and> spec_kind (specs ! i) = sizeFlex}"
    using ffr flexes_kind [of "is"] z(3) by (metis list.set_map)
  have "sizes ! i - r * spec_n (specs ! i) div w \<in> {0, 1} \<and> 0 \<le> sizes ! i"
    if i: "i < length specs" "spec_kind (specs ! i) = sizeFlex" for i
  proof -
    have "(i, specs ! i) \<in> set ?fs" using i by (simp add: flexes_def is_def zip_mem)
    then obtain j where j: "j < length ?fs" "?fs ! j = (i, specs ! i)" by (metis in_set_conv_nth)
    have "length fr = length ?fs" using fl by simp
    then show ?thesis using h u j val [OF j(1)] qb [OF j(1)] by auto
  qed
  then show ?thesis using h fl left assms(7) k z(3) by auto
qed

lemma solver_fills:
  assumes "small extent" "small gap" "length specs \<le> 2 ^ 20"
    and "\<forall>s \<in> set specs. spec_kind s = sizeFlex \<longrightarrow> 1 \<le> spec_n s \<and> spec_n s \<le> 2 ^ 31"
    and "sizes = solveSizes extent gap specs fits"
    and "avail = max 0 (extent - gap * (int (length specs) - 1))"
    and "rest = avail - (\<Sum>i | i < length specs \<and> spec_kind (specs ! i) \<noteq> sizeFlex. sizes ! i)"
    and "weight = (\<Sum>i | i < length specs \<and> spec_kind (specs ! i) = sizeFlex. spec_n (specs ! i))"
  shows "length sizes = length specs \<and> (\<forall>i < length specs. 0 \<le> sizes ! i) \<and> sum_list sizes \<le> avail \<and>
    (\<forall>i < length specs. spec_kind (specs ! i) = sizeFlex \<longrightarrow>
      sum_list sizes = avail \<and> sizes ! i - rest * spec_n (specs ! i) div weight \<in> {0, 1})"
proof (cases "specs = []")
  case True
  then show ?thesis using assms(5,6) by (simp add: solveSizes_def Let_def)
next
  case False
  let ?is = "zip [0..<length specs] specs"
  have n: "0 \<le> int (length specs) - 1" "int (length specs) - 1 \<le> 2 ^ 20" using False assms(3) by (simp_all add: Suc_leI)
  have gp: "0 \<le> gap * (int (length specs) - 1)" "gap * (int (length specs) - 1) \<le> 2 ^ 31 * 2 ^ 20"
    using mult_mono [of gap "2 ^ 31" "int (length specs) - 1" "2 ^ 20"] assms(2) n by (simp_all add: small_def)
  then have "sub64 extent (mul64 gap (int (length specs) - 1)) = extent - gap * (int (length specs) - 1)"
    using assms(1) by (simp add: ops64 int64_def small_def)
  then have av: "(let avail = sub64 extent (mul64 gap (int (length specs) - 1)) in if avail < 0 then 0 else avail) = avail"
    using assms(6) by (simp add: Let_def)
  have a: "0 \<le> avail" "avail \<le> 2 ^ 31" using assms(1,6) gp(1) by (auto simp: small_def)
  have wo: "weights_ok ?is" using assms(4) by (auto simp: weights_ok_def dest: set_zip_rightD)
  have w: "flex_weight specs = weight"
    using flex_weight_sum [OF wo, of 0] assms(3) by (simp add: flex_weight_def weight_sum_zip assms(8))
  obtain o1 r1 where 1: "claims sizeFixed (\<lambda>i s. spec_n s) ?is (replicate (length specs) 0, avail) = (o1, r1)" by fastforce
  obtain o2 r2 where 2: "claims sizePct (\<lambda>i s. div64 (mul64 avail (spec_n s)) 100) ?is (o1, r1) = (o2, r2)" by fastforce
  obtain o3 r3 where 3: "claims sizeFit (\<lambda>i s. fits ! i) ?is (o2, r2) = (o3, r3)" by fastforce
  note p = three_passes [OF 1 2 3 a(1)]
  obtain o4 d fr where 4: "flex_shares r3 weight ?is (o3, 0, []) = (o4, d, fr)" by (metis prod_cases3)
  have s: "sizes = (if weight = 0 then o3 else hand_out (nat (sub64 r3 d)) o4 fr)"
    using False 1 2 3 4 av assms(5) w by (simp add: solveSizes_def Let_def)
  have nf: "weight \<noteq> 0" if "i < length specs" "spec_kind (specs ! i) = sizeFlex" for i
  proof -
    have "spec_n (specs ! i) \<le> weight"
      unfolding assms(8) using that assms(4) by (intro member_le_sum) (auto simp: nth_mem intro: order_trans [OF zero_le_one])
    then show ?thesis using assms(4) that nth_mem [OF that(1)] by fastforce
  qed
  show ?thesis
  proof (cases "weight = 0")
    case True
    then show ?thesis using s p nf by auto
  next
    case False
    have "small r3" using p a by (simp add: small_def)
    then have f: "length sizes = length specs \<and> sum_list sizes = sum_list o3 + r3 \<and>
        (\<forall>i < length specs. spec_kind (specs ! i) \<noteq> sizeFlex \<longrightarrow> sizes ! i = o3 ! i) \<and>
        (\<forall>i < length specs. spec_kind (specs ! i) = sizeFlex \<longrightarrow> sizes ! i - r3 * spec_n (specs ! i) div weight \<in> {0, 1} \<and> 0 \<le> sizes ! i)"
      using flex_step [OF 4 _ _ False wo] p s False by (simp add: weight_sum_zip assms(8))
    have "sum_list o3 = (\<Sum>i < length specs. o3 ! i)" using p by (simp add: sum_list_sum_nth atLeast0LessThan)
    also have "\<dots> = (\<Sum>i | i < length specs \<and> spec_kind (specs ! i) \<noteq> sizeFlex. o3 ! i)"
      using p by (intro sum.mono_neutral_right) auto
    also have "\<dots> = (\<Sum>i | i < length specs \<and> spec_kind (specs ! i) \<noteq> sizeFlex. sizes ! i)"
      using f by (intro sum.cong) auto
    finally have "rest = r3" using p assms(7) by simp
    moreover have "0 \<le> sizes ! i" if "i < length specs" for i
      using f p that by (cases "spec_kind (specs ! i) = sizeFlex") auto
    ultimately show ?thesis using f p by auto
  qed
qed

text \<open>C16: The solver fills an axis exactly: no child gets a negative size, the sizes with the gaps never exceed
  the extent, and as soon as one child is flexible nothing is left over, each flexible child getting
  its share by weight of what the others leave, rounded down or up.\<close>

theorem sizes_fill_the_axis:
  assumes "small extent" "small gap" "length specs \<le> 2 ^ 20"
    and "\<forall>s \<in> set specs. spec_kind s = sizeFlex \<longrightarrow> 1 \<le> spec_n s \<and> spec_n s \<le> 2 ^ 31"
    and "sizes = solveSizes extent gap specs fits"
    and "avail = max 0 (extent - gap * (int (length specs) - 1))"
    and "rest = avail - (\<Sum>i | i < length specs \<and> spec_kind (specs ! i) \<noteq> sizeFlex. sizes ! i)"
    and "weight = (\<Sum>i | i < length specs \<and> spec_kind (specs ! i) = sizeFlex. spec_n (specs ! i))"
  shows "length sizes = length specs \<and> (\<forall>i < length specs. 0 \<le> sizes ! i) \<and> sum_list sizes \<le> avail \<and>
    (\<forall>i < length specs. spec_kind (specs ! i) = sizeFlex \<longrightarrow>
      sum_list sizes = avail \<and> sizes ! i - rest * spec_n (specs ! i) div weight \<in> {0, 1})"
  using assms by (rule solver_fills)

lemma sizes_fill_the_axis_witness:
  "solveSizes 20 1 [\<lparr>spec_kind = sizeFlex, spec_n = 1\<rparr>, \<lparr>spec_kind = sizeFixed, spec_n = 5\<rparr>, \<lparr>spec_kind = sizeFlex, spec_n = 2\<rparr>] [] =
      [4, 5, 9] \<and>
    sum_list (solveSizes 20 1 [\<lparr>spec_kind = sizeFlex, spec_n = 1\<rparr>, \<lparr>spec_kind = sizeFixed, spec_n = 5\<rparr>,
      \<lparr>spec_kind = sizeFlex, spec_n = 2\<rparr>] []) = 20 - 1 * 2"
proof
  let ?specs = "[\<lparr>spec_kind = sizeFlex, spec_n = 1\<rparr>, \<lparr>spec_kind = sizeFixed, spec_n = 5\<rparr>, \<lparr>spec_kind = sizeFlex, spec_n = 2\<rparr>]"
  show "solveSizes 20 1 ?specs [] = [4, 5, 9]" by code_simp
  show "sum_list (solveSizes 20 1 ?specs []) = 20 - 1 * 2"
    using sizes_fill_the_axis [of 20 1 ?specs _ "[]", OF _ _ _ _ refl refl refl refl] by (auto simp: small_def)
qed

text \<open>Weights at the end of the range wrap around, and a child gets a negative size.\<close>

lemma huge_weights_wrap:
  "solveSizes 10 0 [\<lparr>spec_kind = sizeFlex, spec_n = 0x1000000000000000\<rparr>, \<lparr>spec_kind = sizeFlex, spec_n = 1\<rparr>] [] = [- 5, 15]"
  by code_simp

end
