(* ===== verification/Tui_Paint_Laws.thy ===== *)
theory Tui_Paint_Laws
  imports Tui_Draw_Laws Tui_Layout_Props
begin

text \<open>
  What each painter of the renderer changes: nothing outside its rectangle, and
  only whole wide cells inside it, as long as the rectangle lies in the frame and
  the numbers of the tree are far from the end of the range.
\<close>

section \<open>Regions\<close>

definition seg :: "int \<Rightarrow> int \<Rightarrow> int \<Rightarrow> (int \<times> int) set" where
  "seg x x' y = {(a, e). e = y \<and> x \<le> a \<and> a < x'}"

definition rect_set :: "Rect \<Rightarrow> (int \<times> int) set" where
  "rect_set r = {(a, e). rX r \<le> a \<and> a < rX r + rW r \<and> rY r \<le> e \<and> e < rY r + rH r}"

definition in_frame :: "int \<Rightarrow> int \<Rightarrow> Rect \<Rightarrow> bool" where
  "in_frame cols rows r = (0 \<le> rX r \<and> 0 \<le> rY r \<and> rX r + rW r \<le> cols \<and> rY r + rH r \<le> rows \<and>
    0 \<le> rW r \<and> 0 \<le> rH r \<and> cols \<le> 2 ^ 31 \<and> rows \<le> 2 ^ 31)"

definition sized :: "int \<Rightarrow> int \<Rightarrow> Frame \<Rightarrow> bool" where
  "sized cols rows f = (frame_ok f \<and> Cols f = cols \<and> Rows f = rows)"

lemma paints_sized: "paints b S f g \<Longrightarrow> sized c r f \<Longrightarrow> sized c r g"
  using paints_ok paints_dims by (auto simp: sized_def)

lemma calm_sized: "calm S f g \<Longrightarrow> sized c r f \<Longrightarrow> sized c r g"
  using calm_ok calm_dims by (auto simp: sized_def)

lemma right_bottom: "in_frame c r rect \<Longrightarrow> right rect = rX rect + rW rect \<and> bottom rect = rY rect + rH rect"
  by (simp add: right_def bottom_def ops64 int64_def in_frame_def)

section \<open>Text\<close>

lemma join_same:
  assumes "frame_ok f" "0 \<le> x" "x \<le> 2 ^ 53"
  shows "fr.draws (seg start (min maxX x) y) f (join_mark start maxX x y r f) \<and>
    cell_width (join_mark start maxX x y r f) = cell_width f"
proof -
  have px: "sub64 x 1 = x - 1" using assms(2,3) by (intro ops64) (auto simp: int64_def)
  show ?thesis
  proof (cases "start \<le> x - 1 \<and> x - 1 < maxX \<and> (\<exists>c. At_cell f (x - 1) y = Some c \<and> Content c \<noteq> [])")
    case True
    then obtain c where c: "At_cell f (x - 1) y = Some c" "Content c \<noteq> []" by blast
    have j: "join_mark start maxX x y r f = Set_cell (x - 1) y (c\<lparr>Content := Content c @ rune_string r\<rparr>) f"
      using True c by (simp add: join_mark_def px Let_def)
    have "cell_width f (x - 1) y = Some (Width c)" using c(1) by (simp add: cell_width_def)
    then have "cell_width (Set_cell (x - 1) y (c\<lparr>Content := Content c @ rune_string r\<rparr>) f) = cell_width f"
      by (intro ext) (simp add: width_Set [OF assms(1)])
    then show ?thesis unfolding j using fr.draws_put [OF assms(1)] True by (simp add: seg_def)
  next
    case False
    then have "join_mark start maxX x y r f = f" by (auto simp: join_mark_def px Let_def split: option.split)
    then show ?thesis by (simp add: fr.draws_refl [OF assms(1)])
  qed
qed

lemma draw_runes_law:
  assumes "frame_ok f" "0 \<le> start" "start \<le> x" "x \<le> 2 ^ 53" "maxX \<le> Cols f" "Cols f \<le> 2 ^ 31" "0 \<le> y" "y < Rows f"
  shows "fr.draws (seg start (min maxX (x + run_width rs)) y) f (draw_runes start y st maxX rs x f) \<and>
    (paired f \<and> narrow (seg x (min maxX (x + run_width rs)) y) f \<longrightarrow> paired (draw_runes start y st maxX rs x f))"
  using assms
proof (induction start y st maxX rs x f rule: draw_runes.induct)
  case (1 start y st maxX x f)
  then show ?case by (simp add: fr.draws_refl)
next
  case (2 start y st maxX r n rs x f)
  let ?w = "RuneWidth r" and ?M = "min maxX (x + run_width ((r, n) # rs))"
  let ?S = "seg start ?M y" and ?T = "seg x ?M y"
  have ad: "add64 x ?w = x + ?w" "add64 x 1 = x + 1"
    using 2(4-6) RuneWidth_values [of r] by (auto simp: ops64 int64_def)
  consider (zero) "?w = 0" | (stop) "?w \<noteq> 0" "x + ?w > maxX" | (draw) "?w \<noteq> 0" "x + ?w \<le> maxX" by linarith
  then show ?case
  proof cases
    case zero
    let ?f = "join_mark start maxX x y r f"
    have j: "fr.draws (seg start (min maxX x) y) f ?f \<and> cell_width ?f = cell_width f"
      using join_same [OF 2(3)] 2(4-6) by simp
    have ok: "frame_ok ?f" "Cols ?f = Cols f" "Rows ?f = Rows f"
      using fr.draws_ok fr.draws_dim j by blast+
    have sub: "seg start (min maxX x) y \<subseteq> ?S" using zero by (auto simp: seg_def intro: less_le_trans)
    have i: "fr.draws (seg start (min maxX (x + run_width rs)) y) ?f (draw_runes start y st maxX rs x ?f) \<and>
      (paired ?f \<and> narrow (seg x (min maxX (x + run_width rs)) y) ?f \<longrightarrow> paired (draw_runes start y st maxX rs x ?f))"
      using 2(1) [OF refl zero ok(1)] 2(4-10) ok by simp
    have d: "draw_runes start y st maxX ((r, n) # rs) x f = draw_runes start y st maxX rs x ?f" using zero by simp
    have "fr.draws ?S f ?f" using fr.draws_mono [OF _ sub] j by blast
    then show ?thesis
      unfolding d using i zero fr.draws_trans j by (auto simp: paired_def narrow_def)
  next
    case stop
    then have "draw_runes start y st maxX ((r, n) # rs) x f = f" using ad by simp
    then show ?thesis using fr.draws_refl [OF 2(3)] by simp
  next
    case draw
    let ?g = "Set_cell x y (text_cell r ?w st) f"
    let ?f = "if ?w = 2 then Set_cell (add64 x 1) y (shadow_cell st) ?g else ?g"
    have w: "?w = 1 \<or> ?w = 2" using draw(1) RuneWidth_values [of r] by auto
    have "paints True (seg x (x + ?w) y) f ?f"
    proof (cases "?w = 2")
      case True
      then show ?thesis
        using paints_wide [OF 2(3), where c = "text_cell r 2 st" and d = "shadow_cell st" and x = x and S = "seg x (x + 2) y" and y = y and b = True] draw(2) 2(4-10) ad(2)
        by (simp add: text_cell_def shadow_cell_def seg_def)
    next
      case False
      then show ?thesis
        using calm_paints [OF calm_narrow_cell [OF 2(3)]] w by (simp add: text_cell_def seg_def)
    qed
    note p = this
    have ok: "frame_ok ?f" "Cols ?f = Cols f" "Rows ?f = Rows f" using paints_ok [OF p] paints_dims [OF p] by blast+
    have M: "x + ?w \<le> ?M" using draw(2) by simp
    have sb: "start \<le> x + ?w" "x + ?w \<le> 2 ^ 53"
      using draw(2) 2(5,7,8) add_increasing2 [OF RuneWidth_nonneg [of r] 2(5)] by simp_all
    have i: "fr.draws (seg start (min maxX (x + ?w + run_width rs)) y) ?f (draw_runes start y st maxX rs (x + ?w) ?f) \<and>
      (paired ?f \<and> narrow (seg (x + ?w) (min maxX (x + ?w + run_width rs)) y) ?f \<longrightarrow>
        paired (draw_runes start y st maxX rs (x + ?w) ?f))"
      using 2(2) [OF refl draw(1) _ refl refl] ad draw(2) ok sb 2(4,7-10) by simp
    have e: "min maxX (x + ?w + run_width rs) = ?M" by (simp add: add.assoc)
    have d: "draw_runes start y st maxX ((r, n) # rs) x f = draw_runes start y st maxX rs (x + ?w) ?f"
      using draw ad by (simp add: Let_def)
    have df: "fr.draws (seg x (x + ?w) y) f ?f" using p by (simp add: paints_def)
    have "fr.draws ?S f ?f" by (rule fr.draws_mono [OF df]) (use M 2(5) in \<open>unfold seg_def, clarify, linarith\<close>)
    moreover have "paired ?f \<and> narrow (seg (x + ?w) ?M y) ?f" if q: "paired f" "narrow ?T f"
    proof
      have "narrow (seg x (x + ?w) y) f" by (rule narrow_mono [OF q(2)]) (use M in \<open>unfold seg_def, clarify, linarith\<close>)
      then show "paired ?f" using p q(1) by (simp add: paints_def)
      have "narrow (seg (x + ?w) ?M y) f" by (rule narrow_mono [OF q(2)]) (use w in \<open>auto simp: seg_def\<close>)
      then show "narrow (seg (x + ?w) ?M y) ?f" by (rule narrow_draws [OF df, rotated]) (auto simp: seg_def)
    qed
    ultimately show ?thesis unfolding d using i unfolding e using fr.draws_trans by blast
  qed
qed

lemma drawText_paints:
  assumes "frame_ok f" "0 \<le> x" "x \<le> 2 ^ 53" "maxX \<le> Cols f" "Cols f \<le> 2 ^ 31" "0 \<le> y" "y < Rows f"
  shows "paints b (seg x (min maxX (x + run_width (runes s))) y) f (drawText x y s st maxX f)"
  using draw_runes_law [OF assms(1,2) order_refl assms(3-7), of "runes s" st]
  unfolding paints_def drawText_def by blast

lemma drawText_row:
  assumes "sized c r f" "0 \<le> x" "x \<le> 2 ^ 53" "maxX \<le> c" "c \<le> 2 ^ 31" "0 \<le> y" "y < r"
  shows "paints b (seg x maxX y) f (drawText x y s st maxX f)"
  by (rule paints_mono [OF drawText_paints]) (use assms in \<open>auto simp: sized_def seg_def\<close>)

section \<open>Styles and borders\<close>

lemma restyle_calm: "frame_ok f \<Longrightarrow> (x, y) \<in> S \<Longrightarrow> calm S f (restyle st y x f)"
  unfolding restyle_def using calm_same_width by (cases "At_cell f x y") (simp_all add: calm_refl del: At_None)

lemma fillStyle_calm:
  assumes "frame_ok f" "right rect = rX rect + rW rect" "bottom rect = rY rect + rH rect"
  shows "calm (rect_set rect) f (fillStyle rect st f)"
  unfolding fillStyle_def
proof (rule calm_fold [OF assms(1)])
  fix y f assume y: "y \<in> set [rY rect..bottom rect - 1]" and ok: "frame_ok f"
  show "calm (rect_set rect) f (fold (restyle st y) [rX rect..right rect - 1] f)"
    by (rule calm_fold [OF ok restyle_calm]) (use y assms in \<open>auto simp: rect_set_def\<close>)
qed

definition ring :: "Rect \<Rightarrow> (int \<times> int) set" where
  "ring r = rect_set r - {(a, e). rX r < a \<and> a < rX r + rW r - 1 \<and> rY r < e \<and> e < rY r + rH r - 1}"

lemma border_calm: "frame_ok f \<Longrightarrow> (x, y) \<in> S \<Longrightarrow> calm S f (Set_cell x y (border_cell r st) f)"
  by (rule calm_narrow_cell) (simp_all add: border_cell_def text_cell_def)

lemma border_two:
  assumes "frame_ok f" "(x, y) \<in> S" "(x', y') \<in> S"
  shows "calm S f (Set_cell x' y' (border_cell r' st) (Set_cell x y (border_cell r st) f))"
  by (rule calm_trans [OF border_calm [OF assms(1,2)] border_calm [OF calm_ok [OF border_calm [OF assms(1,2)]] assms(3)]])

lemma draw_border_calm:
  assumes "sized c r f" "in_frame c r rect" "2 \<le> rW rect" "2 \<le> rH rect"
  shows "calm (ring rect) f (draw_border bs st (rX rect) (rX rect + rW rect - 1) (rY rect) (rY rect + rH rect - 1) f)"
proof -
  have a: "add64 (rX rect) 1 = rX rect + 1" "add64 (rY rect) 1 = rY rect + 1"
    using assms(2-4) by (auto simp: in_frame_def ops64 int64_def)
  have ok: "frame_ok f" using assms(1) by (simp add: sized_def)
  define f1 where "f1 = fold (\<lambda>i f. Set_cell i (rY rect + rH rect - 1) (border_cell (bs ! 4) st)
    (Set_cell i (rY rect) (border_cell (bs ! 4) st) f)) [rX rect + 1..rX rect + rW rect - 1 - 1] f"
  define f2 where "f2 = fold (\<lambda>i f. Set_cell (rX rect + rW rect - 1) i (border_cell (bs ! 5) st)
    (Set_cell (rX rect) i (border_cell (bs ! 5) st) f)) [rY rect + 1..rY rect + rH rect - 1 - 1] f1"
  have 1: "calm (ring rect) f f1"
    unfolding f1_def by (rule calm_fold [OF ok border_two]) (use assms(3,4) in \<open>auto simp: ring_def rect_set_def\<close>)
  have 2: "calm (ring rect) f1 f2"
    unfolding f2_def by (rule calm_fold [OF calm_ok [OF 1] border_two]) (use assms(3,4) in \<open>auto simp: ring_def rect_set_def\<close>)
  let ?f3 = "Set_cell (rX rect + rW rect - 1) (rY rect) (border_cell (bs ! 1) st) (Set_cell (rX rect) (rY rect) (border_cell (bs ! 0) st) f2)"
  have 3: "calm (ring rect) f2 ?f3"
    by (rule border_two [OF calm_ok [OF 2]]) (use assms(3,4) in \<open>auto simp: ring_def rect_set_def\<close>)
  have 4: "calm (ring rect) ?f3 (Set_cell (rX rect + rW rect - 1) (rY rect + rH rect - 1) (border_cell (bs ! 3) st)
      (Set_cell (rX rect) (rY rect + rH rect - 1) (border_cell (bs ! 2) st) ?f3))"
    by (rule border_two [OF calm_ok [OF 3]]) (use assms(3,4) in \<open>auto simp: ring_def rect_set_def\<close>)
  show ?thesis
    unfolding draw_border_def Let_def a f1_def [symmetric] f2_def [symmetric]
    by (rule calm_trans [OF 1 calm_trans [OF 2 calm_trans [OF 3 4]]])
qed

section \<open>Painters\<close>

lemma rect_rows: "rect_set rect = (\<Union>y \<in> {rY rect..<rY rect + rH rect}. seg (rX rect) (rX rect + rW rect) y)"
  by (auto simp: rect_set_def seg_def)

lemma row_in_rect: "rY rect \<le> y \<Longrightarrow> y < rY rect + rH rect \<Longrightarrow> seg (rX rect) (rX rect + rW rect) y \<subseteq> rect_set rect"
  by (auto simp: rect_set_def seg_def)

text \<open>One row after the other, each painted once.\<close>

lemma rows_paint:
  assumes "fold_err g rows f = Inr f'" "sized c r f" "distinct (map h rows)"
    and "\<And>row f f'. \<lbrakk>row \<in> set rows; sized c r f; g row f = Inr f'\<rbrakk> \<Longrightarrow> paints b (seg x x' (h row)) f f'"
  shows "paints b (\<Union>row \<in> set rows. seg x x' (h row)) f f'"
  using assms
proof (induction rows arbitrary: f)
  case Nil
  then show ?case by (simp add: paints_refl sized_def)
next
  case (Cons row rows)
  then obtain f1 where f1: "g row f = Inr f1" "fold_err g rows f1 = Inr f'" by (auto simp: err_bind_Inr)
  have p: "paints b (seg x x' (h row)) f f1" using Cons.prems(2,4) f1(1) by simp
  have "paints b (\<Union>row \<in> set rows. seg x x' (h row)) f1 f'"
    by (rule Cons.IH [OF f1(2) paints_sized [OF p Cons.prems(2)]]) (use Cons.prems(3,4) in auto)
  then show ?case by (rule paints_disjoint [OF p]) (use Cons.prems(3) in \<open>auto simp: seg_def\<close>)
qed

lemma wrap_lines_paints:
  assumes "in_frame c r rect" "sized c r f" "0 < rW rect" "rY rect \<le> y"
  shows "paints b (rect_set (rect\<lparr>rY := y, rH := max 0 (rY rect + rH rect - y)\<rparr>)) f (wrap_lines rect st line y f)"
  using assms
proof (induction rect st line y f rule: wrap_lines.induct)
  case (1 rect st line y f)
  note rb = right_bottom [OF 1(2)]
  let ?h = "fst (truncateToWidth line (rW rect))"
  show ?case
  proof (cases "line \<noteq> [] \<and> y < bottom rect \<and> ?h \<noteq> []")
    case True
    let ?g = "drawText (rX rect) y ?h st (right rect) f"
    have p: "paints b (seg (rX rect) (right rect) y) f ?g"
      using 1(2-5) True rb by (intro drawText_row [OF 1(3)]) (auto simp: in_frame_def)
    have i: "paints b (rect_set (rect\<lparr>rY := y + 1, rH := max 0 (rY rect + rH rect - (y + 1))\<rparr>)) ?g
        (wrap_lines rect st (drop (length ?h) line) (y + 1) ?g)"
      using 1(1) True 1(2-5) paints_sized [OF p 1(3)] by simp
    have w: "wrap_lines rect st line y f = wrap_lines rect st (drop (length ?h) line) (y + 1) ?g"
      using True by (subst wrap_lines.simps) (simp add: Let_def)
    show ?thesis
      unfolding w by (rule paints_disjoint [OF p i]) (use True rb in \<open>auto simp: seg_def rect_set_def\<close>)
  next
    case False
    then have "wrap_lines rect st line y f = f" by (subst wrap_lines.simps) (auto simp: Let_def)
    then show ?thesis using 1(3) by (simp add: paints_refl sized_def)
  qed
qed

lemma paintText_paints:
  assumes "paintText m rect st f = Inr f'" "in_frame c r rect" "sized c r f" "0 < rW rect" "0 < rH rect"
  shows "paints b (rect_set rect) f f'"
proof -
  note rb = right_bottom [OF assms(2)]
  have "paints b (rect_set rect) f (drawText (rX rect) (rY rect) s st (right rect) f)" for s
    by (rule paints_mono [OF drawText_row [OF assms(3)]]) (use assms(2,4,5) rb row_in_rect [of rect "rY rect"] in \<open>auto simp: in_frame_def\<close>)
  moreover have "paints b (rect_set rect) f (wrap_lines rect st s (rY rect) f)" for s
    using wrap_lines_paints [OF assms(2,3,4) order_refl, of b st s] assms(5) by (simp add: max_def)
  ultimately show ?thesis using assms(1) by (auto simp: paintText_def err_bind_Inr split: if_splits)
qed

text \<open>A cursor line: its style first, then its text.\<close>

lemma line_calm:
  assumes "in_frame c r rect" "sized c r f" "rY rect \<le> y" "y < rY rect + rH rect"
  shows "calm (seg (rX rect) (rX rect + rW rect) y) f (fillStyle (line_rect rect y) st f)"
proof -
  have "in_frame c r (line_rect rect y)" using assms(1,3,4) by (auto simp: in_frame_def line_rect_def)
  note rb = right_bottom [OF this]
  have "rect_set (line_rect rect y) = seg (rX rect) (rX rect + rW rect) y"
    by (auto simp: rect_set_def seg_def line_rect_def)
  then show ?thesis using fillStyle_calm [of f "line_rect rect y" st] rb assms(2) by (simp add: sized_def)
qed

lemma add_row: "in_frame c r rect \<Longrightarrow> 0 \<le> i \<Longrightarrow> i < rH rect \<Longrightarrow> add64 (rY rect) i = rY rect + i"
  by (auto simp: in_frame_def ops64 int64_def)

lemma paintList_paints:
  assumes "paintList m rect st f = Inr f'" "in_frame c r rect" "sized c r f" "0 < rW rect" "0 < rH rect"
  shows "paints b (rect_set rect) f f'"
proof -
  note rb = right_bottom [OF assms(2)]
  let ?row = "\<lambda>items cursor off row f. err_bind (itemLabel (items ! nat (off + row))) (\<lambda>label.
      let y = add64 (rY rect) row; lineStyle = (if off + row = cursor then reversed st else st);
          f = (if off + row = cursor then fillStyle (line_rect rect y) lineStyle f else f)
      in Inr (drawText (rX rect) y label lineStyle (right rect) f))"
  obtain items cursor off where e: "fold_err (?row items cursor off) (shown_rows (rH rect) off (int (length items))) f = Inr f'"
    using assms(1) by (auto simp: paintList_def err_bind_Inr Let_def)
  let ?rows = "shown_rows (rH rect) off (int (length items))"
  have rows: "0 \<le> row \<and> row < rH rect" if "row \<in> set ?rows" for row using that by (auto simp: shown_rows_def)
  have "paints b (\<Union>row \<in> set ?rows. seg (rX rect) (right rect) (rY rect + row)) f f'"
  proof (rule rows_paint [OF e assms(3)])
    fix row g g' assume row: "row \<in> set ?rows" and g: "sized c r g" and s: "?row items cursor off row g = Inr g'"
    have y: "add64 (rY rect) row = rY rect + row" using rows [OF row] add_row [OF assms(2)] by simp
    have t: "paints b (seg (rX rect) (right rect) (rY rect + row)) h (drawText (rX rect) (rY rect + row) l z (right rect) h)"
      if "sized c r h" for h l z
      using rows [OF row] assms(2) rb by (intro drawText_row [OF that]) (auto simp: in_frame_def)
    have cl: "calm (seg (rX rect) (right rect) (rY rect + row)) g (fillStyle (line_rect rect (rY rect + row)) z g)" for z
      using line_calm [OF assms(2) g, of "rY rect + row"] rows [OF row] rb by simp
    obtain l where l: "itemLabel (items ! nat (off + row)) = Inr l" using s by (auto simp: err_bind_Inr)
    show "paints b (seg (rX rect) (right rect) (rY rect + row)) g g'"
      using s t [OF g] calm_then [OF cl t [OF calm_sized [OF cl g]]] by (auto simp: l y Let_def split: if_splits)
  qed (simp add: distinct_map shown_rows_def)
  then show ?thesis
    by (rule paints_mono) (unfold conjunct1 [OF rb], intro UN_least row_in_rect; use rows in force)
qed

lemma draw_columns_paints:
  assumes "sized c r f" "0 \<le> x" "x + int (length ws) * (2 ^ 31 + 1) \<le> 2 ^ 53" "maxX \<le> c" "c \<le> 2 ^ 31" "0 \<le> y" "y < r"
    and "\<forall>w \<in> set ws. 1 \<le> w \<and> w \<le> 2 ^ 31"
  shows "paints b (seg x maxX y) f (draw_columns y st maxX ws cells x f)"
  using assms
proof (induction ws arbitrary: cells x f)
  case Nil
  then show ?case by (simp add: paints_refl sized_def)
next
  case (Cons w ws)
  have w: "1 \<le> w" "w \<le> 2 ^ 31" using Cons.prems(8) by auto
  have x: "x \<le> 2 ^ 53" "x + w + 1 + int (length ws) * (2 ^ 31 + 1) \<le> 2 ^ 53"
    using Cons.prems(3) w by (auto simp: algebra_simps intro: order_trans [rotated])
  have ad: "add64 x (add64 w 1) = x + w + 1" "add64 w 1 = w + 1"
    using w x Cons.prems(2) by (auto simp: ops64 int64_def)
  let ?g = "case cells of [] \<Rightarrow> f | e # _ \<Rightarrow> drawText x y (fst (truncateToWidth e w)) st maxX f"
  have p: "paints b (seg x (min maxX (x + w)) y) f ?g"
  proof (cases cells)
    case Nil
    then show ?thesis using Cons.prems(1) by (simp add: paints_refl sized_def)
  next
    case (Cons e es)
    have t: "run_width (runes (fst (truncateToWidth e w))) \<le> w" using truncate_width w(1) by simp
    have "paints b (seg x (min maxX (x + run_width (runes (fst (truncateToWidth e w))))) y) f
        (drawText x y (fst (truncateToWidth e w)) st maxX f)"
      using Cons.prems x by (intro drawText_paints) (auto simp: sized_def)
    then have "paints b (seg x (min maxX (x + w)) y) f (drawText x y (fst (truncateToWidth e w)) st maxX f)"
      by (rule paints_mono) (use t in \<open>auto simp: seg_def\<close>)
    then show ?thesis by (simp add: Cons)
  qed
  have i: "paints b (seg (x + w + 1) maxX y) ?g (draw_columns y st maxX ws (drop 1 cells) (x + w + 1) ?g)"
    by (rule Cons.IH [OF paints_sized [OF p Cons.prems(1)]]) (use Cons.prems x w in auto)
  have d: "draw_columns y st maxX (w # ws) cells x f = draw_columns y st maxX ws (drop 1 cells) (x + w + 1) ?g"
    using ad by (simp add: Let_def)
  show ?case unfolding d by (rule paints_disjoint [OF p i]) (use w in \<open>auto simp: seg_def\<close>)
qed

definition column_ok :: "int \<times> string \<Rightarrow> bool" where
  "column_ok col = (1 \<le> fst col \<and> fst col \<le> 2 ^ 31)"

lemma paintTable_paints:
  assumes "paintTable fv m rect st f = Inr f'" "in_frame c r rect" "sized c r f" "0 < rW rect" "0 < rH rect"
    and "\<And>columns. tableColumns m = Inr columns \<Longrightarrow> list_all column_ok columns \<and> length columns \<le> 2 ^ 20"
  shows "paints b (rect_set rect) f f'"
proof -
  note rb = right_bottom [OF assms(2)]
  let ?row = "\<lambda>widths dataRows cursor off row f. case dataRows ! nat (off + row) of
      NList cs \<Rightarrow>
        let y = add64 (rY rect) (1 + row); rowStyle = (if off + row = cursor then reversed st else st);
            f = (if off + row = cursor then fillStyle (line_rect rect y) rowStyle f else f)
        in Inr (draw_columns y rowStyle (right rect) widths (map (cellText fv) cs) (rX rect) f)
    | _ \<Rightarrow> Inl (BadWidget BadRow)"
  obtain columns dataRows cursor off where cols: "tableColumns m = Inr columns" and
    e: "fold_err (?row (map fst columns) dataRows cursor off) (shown_rows (rH rect - 1) off (int (length dataRows)))
      (draw_columns (rY rect) (st\<lparr>Bold := True\<rparr>) (right rect) (map fst columns) (map snd columns) (rX rect) f) = Inr f'"
    using assms(1) by (auto simp: paintTable_def err_bind_Inr Let_def)
  let ?rows = "shown_rows (rH rect - 1) off (int (length dataRows))" and ?ws = "map fst columns"
  have ws: "\<forall>w \<in> set ?ws. 1 \<le> w \<and> w \<le> 2 ^ 31" "rX rect + int (length ?ws) * (2 ^ 31 + 1) \<le> 2 ^ 53"
  proof -
    show "\<forall>w \<in> set ?ws. 1 \<le> w \<and> w \<le> 2 ^ 31" using assms(6) [OF cols] by (auto simp: list_all_iff column_ok_def)
    have "int (length ?ws) * (2 ^ 31 + 1) \<le> 2 ^ 20 * (2 ^ 31 + 1)" using assms(6) [OF cols] by (intro mult_right_mono) auto
    then show "rX rect + int (length ?ws) * (2 ^ 31 + 1) \<le> 2 ^ 53" using assms(2) by (simp add: in_frame_def)
  qed
  have cp: "paints b (seg (rX rect) (right rect) y) g (draw_columns y z (right rect) ?ws cells (rX rect) g)"
    if "sized c r g" "rY rect \<le> y" "y < rY rect + rH rect" for g y z cells
    using that assms(2) rb ws by (intro draw_columns_paints [OF that(1)]) (auto simp: in_frame_def)
  let ?f = "draw_columns (rY rect) (st\<lparr>Bold := True\<rparr>) (right rect) ?ws (map snd columns) (rX rect) f"
  have p: "paints b (seg (rX rect) (right rect) (rY rect)) f ?f" using cp [OF assms(3)] assms(5) by simp
  have rows: "0 \<le> row \<and> row < rH rect - 1" if "row \<in> set ?rows" for row using that by (auto simp: shown_rows_def)
  have q: "paints b (\<Union>row \<in> set ?rows. seg (rX rect) (right rect) (rY rect + 1 + row)) ?f f'"
  proof (rule rows_paint [OF e paints_sized [OF p assms(3)]])
    fix row g g' assume row: "row \<in> set ?rows" and g: "sized c r g" and s: "?row ?ws dataRows cursor off row g = Inr g'"
    have y: "add64 (rY rect) (1 + row) = rY rect + 1 + row" using rows [OF row] add_row [OF assms(2), of "1 + row"] by simp
    have t: "paints b (seg (rX rect) (right rect) (rY rect + 1 + row)) h
        (draw_columns (rY rect + 1 + row) z (right rect) ?ws cells (rX rect) h)" if "sized c r h" for h z cells
      using cp [OF that] rows [OF row] by simp
    have cl: "calm (seg (rX rect) (right rect) (rY rect + 1 + row)) g (fillStyle (line_rect rect (rY rect + 1 + row)) z g)" for z
      using line_calm [OF assms(2) g, of "rY rect + 1 + row"] rows [OF row] rb by simp
    obtain cs where l: "dataRows ! nat (off + row) = NList cs" using s by (auto split: node.splits)
    show "paints b (seg (rX rect) (right rect) (rY rect + 1 + row)) g g'"
      using s t [OF g] calm_then [OF cl t [OF calm_sized [OF cl g]]] by (auto simp: l y Let_def split: if_splits)
  qed (simp add: distinct_map shown_rows_def inj_on_def)
  have "paints b (seg (rX rect) (right rect) (rY rect) \<union> (\<Union>row \<in> set ?rows. seg (rX rect) (right rect) (rY rect + 1 + row))) f f'"
    by (rule paints_disjoint [OF p q]) (use rows in \<open>force simp: seg_def\<close>)+
  then show ?thesis
    by (rule paints_mono)
      (unfold conjunct1 [OF rb], intro Un_least UN_least row_in_rect; use rows assms(5) in force)
qed

lemma paintInput_paints:
  assumes "paintInput m rect st rd = Inr rd'" "in_frame c r rect" "sized c r (rd_frame rd)" "0 < rW rect" "0 < rH rect"
  shows "paints b (rect_set rect) (rd_frame rd) (rd_frame rd')"
proof -
  note rb = right_bottom [OF assms(2)]
  have t: "paints b (rect_set rect) (rd_frame rd) (drawText (rX rect) (rY rect) s z (right rect) (rd_frame rd))" for s z
    by (rule paints_mono [OF drawText_row [OF assms(3)]]) (use assms(2,4,5) rb row_in_rect [of rect "rY rect"] in \<open>auto simp: in_frame_def\<close>)
  obtain s z where "rd_frame rd' = drawText (rX rect) (rY rect) s z (right rect) (rd_frame rd)"
    using assms(1) by (auto simp: paintInput_def err_bind_Inr Let_def split: if_splits)
  then show ?thesis using t by simp
qed

lemma paint_border_paints:
  assumes "paint_border m rect st border f = Inr f'" "in_frame c r rect" "sized c r f"
  shows "if border = ''none'' \<or> rW rect < 2 \<or> rH rect < 2 then f' = f else paints b (ring rect) f f'"
proof (cases "border = ''none'' \<or> rW rect < 2 \<or> rH rect < 2")
  case False
  note rb = right_bottom [OF assms(2)]
  have x: "sub64 (right rect) 1 = rX rect + rW rect - 1" "sub64 (bottom rect) 1 = rY rect + rH rect - 1" "add64 (rX rect) 1 = rX rect + 1"
    using False assms(2) rb by (auto simp: ops64 int64_def in_frame_def)
  let ?g = "draw_border (or0 [] (gm_get borderSets border)) st (rX rect) (rX rect + rW rect - 1) (rY rect) (rY rect + rH rect - 1) f"
  have g: "calm (ring rect) f ?g" using draw_border_calm [OF assms(3,2)] False by simp
  have t: "paints b (ring rect) ?g (drawText (rX rect + 1) (rY rect) s st (rX rect + rW rect - 1) ?g)" for s
    by (rule paints_mono [OF drawText_row [OF calm_sized [OF g assms(3)]]])
      (use False assms(2) in \<open>auto simp: in_frame_def seg_def ring_def rect_set_def\<close>)
  have "f' = ?g \<or> (\<exists>s. f' = drawText (rX rect + 1) (rY rect) s st (rX rect + rW rect - 1) ?g)"
    using assms(1) False x by (auto simp: paint_border_def err_bind_Inr Let_def split: if_splits)
  then show ?thesis using calm_paints [OF g] calm_then [OF g t] False by auto
qed (use assms(1) in \<open>auto simp: paint_border_def\<close>)

lemma blit_draws:
  assumes "in_frame c r rect" "frame_ok f"
  shows "fr.draws (rect_set rect) f (blit sub ox oy rect f)"
  unfolding blit_def
proof (rule fr.draws_fold [OF assms(2)])
  fix y f assume y: "y \<in> set [0..rH rect - 1]" and ok: "frame_ok f"
  show "fr.draws (rect_set rect) f (fold (blit_cell sub ox oy rect y) [0..rW rect - 1] f)"
  proof (rule fr.draws_fold [OF ok])
    fix x f assume x: "x \<in> set [0..rW rect - 1]" and ok: "frame_ok f"
    have "add64 (rX rect) x = rX rect + x" "add64 (rY rect) y = rY rect + y"
      using x y assms(1) by (auto simp: ops64 int64_def in_frame_def)
    then show "fr.draws (rect_set rect) f (blit_cell sub ox oy rect y x f)"
      using x y fr.draws_put [OF ok] fr.draws_refl [OF ok]
      by (auto simp: blit_cell_def rect_set_def split: option.split)
  qed
qed

end
