(* ===== verification/Tui_Props.thy ===== *)
theory Tui_Props
  imports Tui_Paint_Laws
begin

text \<open>
  Properties of the renderer: a widget never paints outside its rectangle, a
  rendered frame has whole wide cells, and the cursor lies on it.
\<close>

section \<open>Trees\<close>

lemma size_pair: "(k, c) \<in> set m \<Longrightarrow> size c < size (NMap m)"
  by (induction m) auto

text \<open>Trees whose numbers are at most \<open>2 ^ 31\<close>, whose lists have at most \<open>2 ^ 20\<close> members and whose texts have
  at most \<open>2 ^ 29\<close> bytes.\<close>

function small_node :: "node \<Rightarrow> bool" where
  "small_node v =
    ((\<forall>n. toInt v = Some n \<longrightarrow> \<bar>n\<bar> \<le> 2 ^ 31) \<and>
     (case v of
        NMap m \<Rightarrow> list_all (\<lambda>(k, c). small_node c) m
      | NList l \<Rightarrow> length l \<le> 2 ^ 20 \<and> list_all small_node l
      | NStr s \<Rightarrow> length s \<le> 2 ^ 29
      | _ \<Rightarrow> True))"
  by auto
termination
proof (relation "measure size")
  fix v m z k c
  assume "v = NMap m" "z \<in> set m" "(k, c) = z"
  then show "(c, v) \<in> measure size" using size_pair [of k c m] by simp
next
  fix v l z
  assume "v = NList l" "z \<in> set l"
  then show "(z, v) \<in> measure size" using size_member by simp
qed simp

declare small_node.simps [simp del]

text \<open>Trees without a viewport.\<close>

function no_viewport :: "node \<Rightarrow> bool" where
  "no_viewport v =
    (case v of
       NMap m \<Rightarrow> gm_get m ''w'' \<noteq> Some (NStr ''viewport'') \<and> list_all (\<lambda>(k, c). no_viewport c) m
     | NList l \<Rightarrow> list_all no_viewport l
     | _ \<Rightarrow> True)"
  by auto
termination
proof (relation "measure size")
  fix v m z k c
  assume "v = NMap m" "z \<in> set m" "(k, c) = z"
  then show "(c, v) \<in> measure size" using size_pair [of k c m] by simp
next
  fix v l z
  assume "v = NList l" "z \<in> set l"
  then show "(z, v) \<in> measure size" using size_member by simp
qed simp

declare no_viewport.simps [simp del]

lemma small_entry: "small_node (NMap m) \<Longrightarrow> gm_get m k = Some c \<Longrightarrow> small_node c"
  by (auto simp: small_node.simps [of "NMap m"] list_all_iff gm_get_def dest: map_of_SomeD)

lemma viewport_entry: "no_viewport (NMap m) \<Longrightarrow> gm_get m k = Some c \<Longrightarrow> no_viewport c"
  by (auto simp: no_viewport.simps [of "NMap m"] list_all_iff gm_get_def dest: map_of_SomeD)

lemma small_int: "small_node v \<Longrightarrow> toInt v = Some n \<Longrightarrow> \<bar>n\<bar> \<le> 2 ^ 31"
  by (simp add: small_node.simps [of v])

lemma nodeInt_small: "nodeInt m k = Inr (Some n) \<Longrightarrow> small_node (NMap m) \<Longrightarrow> \<bar>n\<bar> \<le> 2 ^ 31"
  using small_entry [of m k] small_int by (auto simp: nodeInt_def split: option.splits)

lemma nodeList_entry: "nodeList m k = Inr (Some l) \<Longrightarrow> gm_get m k = Some (NList l)"
  by (auto simp: nodeList_def split: option.splits node.splits)

lemma nodeList_small:
  "nodeList m k = Inr (Some l) \<Longrightarrow> small_node (NMap m) \<Longrightarrow> length l \<le> 2 ^ 20 \<and> (\<forall>c \<in> set l. small_node c)"
  using small_entry [of m k "NList l"] nodeList_entry [of m k l] by (auto simp: small_node.simps [of "NList l"] list_all_iff)

lemma nodeList_viewport: "nodeList m k = Inr (Some l) \<Longrightarrow> no_viewport (NMap m) \<Longrightarrow> \<forall>c \<in> set l. no_viewport c"
  using viewport_entry [of m k "NList l"] nodeList_entry [of m k l] by (auto simp: no_viewport.simps [of "NList l"] list_all_iff)

lemma spec_small:
  assumes "parseSizeSpec m = Inr s" "small_node (NMap m)" "spec_kind s = sizeFlex"
  shows "1 \<le> spec_n s \<and> spec_n s \<le> 2 ^ 31"
proof (cases "gm_get m ''size''")
  case None
  then show ?thesis using assms(1) by (auto simp: parseSizeSpec_def)
next
  case (Some v)
  then have t: "toInt v = None" using assms(1,3) by (auto simp: parseSizeSpec_def split: option.splits)
  then obtain sm where v: "v = NMap sm"
    using assms(1,3) Some by (auto simp: parseSizeSpec_def split: node.splits if_splits)
  have p: "err_bind (err_map SizeError (nodeInt sm ''pct'')) (\<lambda>pct. case pct of
      Some n \<Rightarrow> Inr \<lparr>spec_kind = sizePct, spec_n = n\<rparr>
    | None \<Rightarrow> err_bind (err_map SizeError (nodeInt sm ''flex'')) (\<lambda>flex. case flex of
        Some n \<Rightarrow> Inr \<lparr>spec_kind = sizeFlex, spec_n = (if n < 1 then 1 else n)\<rparr>
      | None \<Rightarrow> Inl SizeNeedsKey)) = Inr s"
    using assms(1) Some v t by (simp add: parseSizeSpec_def)
  obtain n where n: "nodeInt sm ''flex'' = Inr (Some n)" "s = \<lparr>spec_kind = sizeFlex, spec_n = (if n < 1 then 1 else n)\<rparr>"
    using p assms(3) by (cases "nodeInt sm ''pct''"; cases "nodeInt sm ''flex''") (auto split: option.splits)
  have "\<bar>n\<bar> \<le> 2 ^ 31" using nodeInt_small [OF n(1)] small_entry [OF assms(2)] Some v by simp
  then show ?thesis by (auto simp: n(2))
qed

lemma nodeStr_small: "nodeStr m k = Inr (Some s) \<Longrightarrow> small_node (NMap m) \<Longrightarrow> length s \<le> 2 ^ 29"
  using small_entry [of m k "NStr s"] by (auto simp: nodeStr_def small_node.simps [of "NStr s"] split: option.splits node.splits)

lemma runes_length: "length (runes s) \<le> length s"
proof (induction s rule: runes.induct)
  case (1 s)
  then show ?case
    using DecodeRune_size [of s] by (cases "s = []") (auto simp: runes.simps [of s])
qed

lemma StringWidth_le: "StringWidth s \<le> 2 * int (length s)"
proof -
  have "run_width rs \<le> 2 * int (length rs)" for rs
  proof (induction rs)
    case (Cons a rs)
    then show ?case using RuneWidth_values [of "fst a"] by (cases a) auto
  qed simp
  from this [of "runes s"] runes_length [of s] show ?thesis by (simp add: StringWidth_run)
qed

lemma map_err_all: "map_err f xs = Inr ys \<Longrightarrow> \<forall>x \<in> set xs. \<forall>y. f x = Inr y \<longrightarrow> P y \<Longrightarrow> list_all P ys"
  by (induction xs arbitrary: ys) (auto simp: err_bind_Inr)

lemma columns_small:
  assumes "tableColumns m = Inr columns" "small_node (NMap m)"
  shows "list_all column_ok columns \<and> length columns \<le> 2 ^ 20"
proof -
  obtain o' where o': "nodeList m ''columns'' = Inr o'" using assms(1) by (auto simp: tableColumns_def err_bind_Inr)
  then have s: "\<forall>c \<in> set (or0 [] o'). small_node c" "length (or0 [] o') \<le> 2 ^ 20"
    using nodeList_small [OF _ assms(2)] by (cases o'; simp)+
  let ?col = "\<lambda>c. case asNode c of None \<Rightarrow> Inl (BadWidget BadColumn)
    | Some cm \<Rightarrow> err_bind (err_map BadWidget (nodeStr cm ''title'')) (\<lambda>title.
        err_bind (err_map BadWidget (nodeInt cm ''width'')) (\<lambda>width.
          let title = or0 [] title; width = or0 (StringWidth title + 2) width
          in Inr (if width < 1 then 1 else width, title)))"
  have m: "map_err ?col (or0 [] o') = Inr columns" using assms(1) o' by (simp add: tableColumns_def)
  have "column_ok col" if c_in: "c \<in> set (or0 [] o')" and c_col: "?col c = Inr col" for c col
  proof -
    obtain cm title width where c: "c = NMap cm" "nodeStr cm ''title'' = Inr title" "nodeInt cm ''width'' = Inr width"
      "col = (let w = or0 (StringWidth (or0 [] title) + 2) width in (if w < 1 then 1 else w, or0 [] title))"
      using c_col by (auto simp: asNode_def err_bind_Inr Let_def split: node.splits)
    have sn: "small_node (NMap cm)" using s(1) c_in c(1) by simp
    have "length (or0 [] title) \<le> 2 ^ 29" using nodeStr_small [OF _ sn] c(2) by (cases title) auto
    then have "StringWidth (or0 [] title) + 2 \<le> 2 ^ 31" using StringWidth_le [of "or0 [] title"] by simp
    then show ?thesis using abs_le_D1 [OF nodeInt_small [OF _ sn]] c(3,4) by (cases width) (auto simp: column_ok_def Let_def)
  qed
  then show ?thesis using map_err_all [OF m, of column_ok] map_err_length [OF m] s(2) by simp
qed

section \<open>Stacks\<close>

definition beyond :: "Rect \<Rightarrow> bool \<Rightarrow> int \<Rightarrow> Rect \<Rightarrow> bool" where
  "beyond rect vertical pos q = (if vertical then rY rect + pos \<le> rY q else rX rect + pos \<le> rX q)"

lemma child_rects_inside:
  assumes "\<forall>n \<in> set ns. 0 \<le> n" "0 \<le> gap" "0 \<le> pos" "in_frame c r rect" "length cs = length ns"
    and "pos + sum_list ns + gap * (int (length ns) - 1) \<le> (if vertical then rH rect else rW rect)"
  shows "(\<forall>(d, q) \<in> set (child_rects rect vertical gap (zip cs ns) pos). d \<in> set cs \<and> in_frame c r q \<and> rect_set q \<subseteq> rect_set rect \<and>
      beyond rect vertical pos q) \<and>
    sorted_wrt (\<lambda>(d, q) (d', q'). rect_set q \<inter> rect_set q' = {}) (child_rects rect vertical gap (zip cs ns) pos)"
  using assms
proof (induction ns arbitrary: cs pos)
  case (Cons n ns)
  obtain d ds where cs: "cs = d # ds" "length ds = length ns" using Cons.prems(5) by (cases cs) auto
  have g: "0 \<le> sum_list ns" "0 \<le> gap * int (length ns)" using Cons.prems(1,2) by (auto intro: sum_list_nonneg)
  let ?ext = "if vertical then rH rect else rW rect"
  have b: "pos + n + sum_list ns + gap * int (length ns) \<le> ?ext" "?ext \<le> 2 ^ 31"
    using Cons.prems(4,6) by (auto simp: in_frame_def)
  then have pn: "pos + n \<le> ?ext" "0 \<le> n" using g Cons.prems(1) by auto
  let ?q = "if vertical then rect\<lparr>rY := rY rect + pos, rH := n\<rparr> else rect\<lparr>rX := rX rect + pos, rW := n\<rparr>"
  have a: "add64 (rY rect) pos = rY rect + pos" if vertical
    using that Cons.prems(3,4) pn b(2) by (intro ops64) (auto simp: in_frame_def int64_def)
  have a': "add64 (rX rect) pos = rX rect + pos" if "\<not> vertical"
    using that Cons.prems(3,4) pn b(2) by (intro ops64) (auto simp: in_frame_def int64_def)
  have e: "child_rects rect vertical gap (zip cs (n # ns)) pos = (d, ?q) # child_rects rect vertical gap (zip ds ns) (add64 pos (add64 n gap))"
    using cs a a' by simp
  have q: "in_frame c r ?q" "rect_set ?q \<subseteq> rect_set rect"
    using Cons.prems(3,4) pn by (auto simp: in_frame_def rect_set_def split: if_splits)
  show ?case
  proof (cases "ns = []")
    case True
    then show ?thesis unfolding e using q cs by (simp add: beyond_def)
  next
    case False
    then have gp: "gap \<le> gap * int (length ns)" using Cons.prems(2) mult_left_mono [of 1 "int (length ns)" gap] by (cases ns) auto
    have ad: "add64 pos (add64 n gap) = pos + n + gap"
      using Cons.prems(2,3) pn gp b g by (auto simp: ops64 int64_def split: if_splits)
    have ih: "(\<forall>(d, q) \<in> set (child_rects rect vertical gap (zip ds ns) (pos + n + gap)). d \<in> set ds \<and> in_frame c r q \<and> rect_set q \<subseteq> rect_set rect \<and>
        beyond rect vertical (pos + n + gap) q) \<and>
      sorted_wrt (\<lambda>(d, q) (d', q'). rect_set q \<inter> rect_set q' = {}) (child_rects rect vertical gap (zip ds ns) (pos + n + gap))"
      by (rule Cons.IH) (use Cons.prems pn b cs(2) in \<open>auto simp: algebra_simps\<close>)
    have "rect_set ?q \<inter> rect_set q' = {}" if "beyond rect vertical (pos + n + gap) q'" for q'
      using that Cons.prems(2) by (auto simp: rect_set_def beyond_def split: if_splits)
    moreover have "beyond rect vertical pos q'" if "beyond rect vertical (pos + n + gap) q'" for q'
      using that Cons.prems(2) pn(2) by (auto simp: beyond_def split: if_splits)
    moreover have "beyond rect vertical pos ?q" by (simp add: beyond_def)
    ultimately show ?thesis unfolding e ad using ih q cs(1) by (fastforce simp del: child_rects.simps split del: if_split)
  qed
qed simp

lemma child_rects_empty:
  "\<forall>n \<in> set ns. n = 0 \<Longrightarrow> length cs = length ns \<Longrightarrow>
    \<forall>(d, q) \<in> set (child_rects rect vertical gap (zip cs ns) pos). d \<in> set cs \<and> (rW q \<le> 0 \<or> rH q \<le> 0)"
proof (induction ns arbitrary: cs pos)
  case (Cons n ns)
  then show ?case by (cases cs) fastforce+
qed simp

definition outside_view :: "Rect \<Rightarrow> bool" where
  "outside_view q = (rW q \<le> 0 \<or> rH q \<le> 0)"

lemma outside_view_set: "outside_view q \<Longrightarrow> rect_set q = {}"
  by (auto simp: outside_view_def rect_set_def)

lemma stackRects_inside:
  assumes "stackRects m rect vertical = Inr cs" "small_node (NMap m)" "in_frame c r rect"
  shows "(\<forall>(d, q) \<in> set cs. (\<exists>l. nodeList m ''children'' = Inr (Some l) \<and> d \<in> set l) \<and>
      (outside_view q \<or> in_frame c r q \<and> rect_set q \<subseteq> rect_set rect)) \<and>
    sorted_wrt (\<lambda>(d, q) (d', q'). rect_set q \<inter> rect_set q' = {}) cs"
proof -
  obtain o' gap0 specs where o': "nodeList m ''children'' = Inr o'" "nodeInt m ''gap'' = Inr gap0"
    "map_err (child_spec rect vertical) (or0 [] o') = Inr specs"
    and cs: "cs = child_rects rect vertical (if or0 0 gap0 < 0 then 0 else or0 0 gap0)
      (zip (or0 [] o') (solveSizes (if vertical then rH rect else rW rect) (if or0 0 gap0 < 0 then 0 else or0 0 gap0)
        (map fst specs) (map snd specs))) 0"
    using assms(1) by (auto simp: stackRects_def err_bind_Inr Let_def)
  show ?thesis
  proof (cases o')
    case None
    then show ?thesis using cs by simp
  next
    case (Some l)
    define gap where "gap = (if or0 0 gap0 < 0 then 0 else or0 0 gap0)"
    define ext where "ext = (if vertical then rH rect else rW rect)"
    define ns where "ns = solveSizes ext gap (map fst specs) (map snd specs)"
    have l: "length l \<le> 2 ^ 20" "\<forall>c \<in> set l. small_node c" using nodeList_small [OF _ assms(2)] o'(1) Some by auto
    have len: "length specs = length l" using map_err_length [OF o'(3)] Some by simp
    have g: "small gap" using abs_le_D1 [OF nodeInt_small [OF _ assms(2)]] o'(2) by (cases gap0) (auto simp: gap_def small_def)
    have e: "small ext" using assms(3) by (auto simp: ext_def small_def in_frame_def)
    have "\<forall>c \<in> set l. \<forall>sp. child_spec rect vertical c = Inr sp \<longrightarrow>
        (spec_kind (fst sp) = sizeFlex \<longrightarrow> 1 \<le> spec_n (fst sp) \<and> spec_n (fst sp) \<le> 2 ^ 31)"
    proof (intro ballI allI impI)
      fix d sp assume d: "d \<in> set l" "child_spec rect vertical d = Inr sp" "spec_kind (fst sp) = sizeFlex"
      then obtain cm where cm: "d = NMap cm" "parseSizeSpec cm = Inr (fst sp)"
        by (auto simp: child_spec_def asNode_def err_bind_Inr split: node.splits if_splits)
      show "1 \<le> spec_n (fst sp) \<and> spec_n (fst sp) \<le> 2 ^ 31" using spec_small [OF cm(2)] l(2) d cm(1) by simp
    qed
    then have "list_all (\<lambda>sp. spec_kind (fst sp) = sizeFlex \<longrightarrow> 1 \<le> spec_n (fst sp) \<and> spec_n (fst sp) \<le> 2 ^ 31) specs"
      using map_err_all [OF o'(3)] Some by simp
    then have sp: "\<forall>s \<in> set (map fst specs). spec_kind s = sizeFlex \<longrightarrow> 1 \<le> spec_n s \<and> spec_n s \<le> 2 ^ 31"
      by (auto simp: list_all_iff)
    have ns: "length ns = length l" "\<forall>i < length l. 0 \<le> ns ! i" "sum_list ns \<le> max 0 (ext - gap * (int (length l) - 1))"
      using solver_fills [OF e g _ sp ns_def refl refl refl] l(1) len by auto
    then have nn: "\<forall>n \<in> set ns. 0 \<le> n" by (metis in_set_conv_nth)
    have cs': "cs = child_rects rect vertical gap (zip l ns) 0"
      using cs Some by (simp add: gap_def [symmetric] ext_def [symmetric] ns_def [symmetric])
    show ?thesis
    proof (cases "0 \<le> ext - gap * (int (length l) - 1)")
      case True
      have "(\<forall>(d, q) \<in> set cs. d \<in> set l \<and> in_frame c r q \<and> rect_set q \<subseteq> rect_set rect \<and> beyond rect vertical 0 q) \<and>
          sorted_wrt (\<lambda>(d, q) (d', q'). rect_set q \<inter> rect_set q' = {}) cs"
        unfolding cs' by (rule child_rects_inside) (use nn g assms(3) ns True in \<open>auto simp: small_def ext_def\<close>)
      then show ?thesis using o'(1) Some by auto
    next
      case False
      then have "sum_list ns \<le> 0" using ns(3) by simp
      then have "\<forall>n \<in> set ns. n = 0"
        using nn sum_list_nonneg_eq_0_iff [of ns] sum_list_nonneg [of ns] by force
      then have z: "\<forall>(d, q) \<in> set cs. d \<in> set l \<and> (rW q \<le> 0 \<or> rH q \<le> 0)"
        unfolding cs' using child_rects_empty ns(1) by simp
      then have "sorted_wrt (\<lambda>(d, q) (d', q'). rect_set q \<inter> rect_set q' = {}) cs"
        by (induction cs) (auto simp: rect_set_def)
      then show ?thesis using z o'(1) Some by (auto simp: outside_view_def)
    qed
  qed
qed

section \<open>Boxes\<close>

lemma insets_small:
  assumes "boxInsets m = Inr (ix, iy, child)" "small_node (NMap m)" "box_border m = Inr border"
  shows "0 \<le> ix \<and> 0 \<le> iy \<and> ix \<le> 2 ^ 32 \<and> iy \<le> 2 ^ 32 \<and> (border \<noteq> ''none'' \<longrightarrow> 1 \<le> ix \<and> 1 \<le> iy)"
proof -
  let ?e = "if border \<noteq> ''none'' then 1 else 0 :: int"
  obtain pad where pad: "nodeList m ''pad'' = Inr pad"
    using assms(1,3) by (cases "nodeList m ''pad''") (auto simp: boxInsets_def Let_def split: if_splits)
  have b: "case pad of None \<Rightarrow> ix = ?e \<and> iy = ?e
      | Some l \<Rightarrow> \<exists>px py. two_ints PadShape PadNegative l = Inr (px, py) \<and> ix = add64 ?e px \<and> iy = add64 ?e py"
    using assms(1,3) pad by (cases pad) (auto simp: boxInsets_def Let_def err_bind_Inr split: if_splits)
  show ?thesis
  proof (cases pad)
    case None
    then show ?thesis using b by (auto split: if_splits)
  next
    case (Some l)
    then obtain px py where p: "two_ints PadShape PadNegative l = Inr (px, py)" "ix = add64 ?e px" "iy = add64 ?e py"
      using b by auto
    then have l: "length l = 2" "toInt (l ! 0) = Some px" "toInt (l ! 1) = Some py" "0 \<le> px" "0 \<le> py"
      by (auto simp: two_ints_def split: if_splits option.splits)
    have "\<forall>c \<in> set l. small_node c" using nodeList_small [OF _ assms(2)] pad Some by simp
    then have "small_node (l ! 0)" "small_node (l ! 1)" using l(1) by (auto intro: nth_mem)
    then have pp: "px \<le> 2 ^ 31" "py \<le> 2 ^ 31" using small_int l(2,3) by fastforce+
    then have "ix = ?e + px" "iy = ?e + py" using p(2,3) l(4,5) by (auto simp: ops64 int64_def)
    then show ?thesis using pp l(4,5) by auto
  qed
qed

lemma inner_rect_inside:
  assumes "in_frame c r rect" "0 \<le> ix" "0 \<le> iy" "ix \<le> 2 ^ 32" "iy \<le> 2 ^ 32"
  shows "outside_view (inner_rect rect ix iy) \<or>
    in_frame c r (inner_rect rect ix iy) \<and> rect_set (inner_rect rect ix iy) \<subseteq> rect_set rect \<and>
      (1 \<le> ix \<longrightarrow> 1 \<le> iy \<longrightarrow> ring rect \<inter> rect_set (inner_rect rect ix iy) = {})"
proof -
  have "inner_rect rect ix iy = \<lparr>rX = rX rect + ix, rY = rY rect + iy, rW = rW rect - 2 * ix, rH = rH rect - 2 * iy\<rparr>"
    using assms by (auto simp: inner_rect_def ops64 int64_def in_frame_def)
  then show ?thesis using assms by (auto simp: outside_view_def in_frame_def rect_set_def ring_def)
qed

section \<open>The cursor\<close>

definition on_screen :: "int \<Rightarrow> int \<Rightarrow> int \<times> int \<Rightarrow> bool" where
  "on_screen c r p = (0 \<le> fst p \<and> fst p < c \<and> 0 \<le> snd p \<and> snd p < r)"

definition focuses :: "int \<Rightarrow> int \<Rightarrow> renderer \<Rightarrow> renderer \<Rightarrow> bool" where
  "focuses c r rd rd' = (focused rd \<le> focused rd' \<and> (focused rd' = focused rd \<longrightarrow> rd_cursor rd' = rd_cursor rd) \<and>
    (focused rd < focused rd' \<longrightarrow> on_screen c r (rd_cursor rd')))"

lemma focuses_refl: "focuses c r rd (rd\<lparr>rd_frame := f\<rparr>)"
  by (simp add: focuses_def)

lemma focuses_trans: "focuses c r rd rd' \<Longrightarrow> focuses c r rd' rd'' \<Longrightarrow> focuses c r rd rd''"
  by (auto simp: focuses_def)

lemma prefix_length: "length (prefixByRunes s n) \<le> length s"
proof -
  have "length (rune_prefix s n rs i k) \<le> length s" for rs i k
    by (induction rs arbitrary: i k) auto
  then show ?thesis by (simp add: prefixByRunes_def)
qed

lemma paintInput_focuses:
  assumes "paintInput m rect st rd = Inr rd'" "in_frame c r rect" "0 < rW rect" "0 < rH rect" "small_node (NMap m)"
  shows "focuses c r rd rd'"
proof -
  note rb = right_bottom [OF assms(2)]
  obtain o' cursor masked f where v: "nodeStr m ''value'' = Inr o'" and
    rd': "rd' = rd\<lparr>rd_frame := f\<rparr> \<or>
      rd' = rd\<lparr>rd_frame := f, focused := focused rd + 1, rd_cursor := input_cursor rect (or0 [] o') cursor masked\<rparr>"
    using assms(1) by (auto simp: paintInput_def err_bind_Inr Let_def split: if_splits)
  let ?p = "prefixByRunes (or0 [] o') cursor"
  define w where "w = (if masked then int (RuneCountInString ?p) else StringWidth ?p)"
  have "length (or0 [] o') \<le> 2 ^ 29" using nodeStr_small [OF _ assms(5)] v by (cases o') auto
  then have "length ?p \<le> 2 ^ 29" using prefix_length [of "or0 [] o'" cursor] by linarith
  then have w: "0 \<le> w" "w \<le> 2 ^ 30"
    using StringWidth_le [of ?p] runes_length [of ?p] by (auto simp: w_def RuneCountInString_def StringWidth_run)
  have "add64 (rX rect) w = rX rect + w" "sub64 (right rect) 1 = rX rect + rW rect - 1"
    using w assms(2,3) rb by (auto simp: ops64 int64_def in_frame_def)
  then have "on_screen c r (input_cursor rect (or0 [] o') cursor masked)"
    using w assms(2-4) by (simp add: input_cursor_def Let_def w_def [symmetric] on_screen_def in_frame_def)
  then show ?thesis using rd' by (elim disjE) (simp_all add: focuses_def)
qed

section \<open>The whole tree\<close>

definition renders :: "bool \<Rightarrow> int \<Rightarrow> int \<Rightarrow> (int \<times> int) set \<Rightarrow> renderer \<Rightarrow> renderer \<Rightarrow> bool" where
  "renders b c r S rd rd' = (paints b S (rd_frame rd) (rd_frame rd') \<and> focuses c r rd rd')"

lemma renders_frame: "paints b S (rd_frame rd) f \<Longrightarrow> renders b c r S rd (rd\<lparr>rd_frame := f\<rparr>)"
  by (simp add: renders_def focuses_refl)

lemma children_law:
  assumes "paint_children fv cs st rd = Inr rd'" "sized c r (rd_frame rd)"
    and "\<And>d q rd rd'. \<lbrakk>(d, q) \<in> set cs; sized c r (rd_frame rd); paint fv d q st rd = Inr rd'\<rbrakk> \<Longrightarrow> renders b c r (rect_set q) rd rd'"
    and "sorted_wrt (\<lambda>(d, q) (d', q'). rect_set q \<inter> rect_set q' = {}) cs"
  shows "renders b c r (\<Union>(d, q) \<in> set cs. rect_set q) rd rd'"
  using assms
proof (induction cs arbitrary: rd)
  case Nil
  then show ?case by (simp add: renders_def focuses_def paints_refl sized_def)
next
  case (Cons z cs)
  obtain d q where z: "z = (d, q)" by (cases z)
  obtain rd1 where rd1: "paint fv d q st rd = Inr rd1" "paint_children fv cs st rd1 = Inr rd'"
    using Cons.prems(1) by (auto simp: z err_bind_Inr)
  have p: "renders b c r (rect_set q) rd rd1" by (rule Cons.prems(3) [OF _ Cons.prems(2) rd1(1)]) (simp add: z)
  then have s: "sized c r (rd_frame rd1)" using paints_sized [OF _ Cons.prems(2)] unfolding renders_def by blast
  have i: "renders b c r (\<Union>(d, q) \<in> set cs. rect_set q) rd1 rd'"
    by (rule Cons.IH [OF rd1(2) s]) (use Cons.prems(3,4) in auto)
  have "paints b (\<Union>(d, q) \<in> set (z # cs). rect_set q) (rd_frame rd) (rd_frame rd')"
  proof (rule paints_disjoint)
    show "paints b (rect_set q) (rd_frame rd) (rd_frame rd1)" using p by (simp add: renders_def)
    show "paints b (\<Union>(d, q) \<in> set cs. rect_set q) (rd_frame rd1) (rd_frame rd')" using i by (simp add: renders_def)
  qed (use Cons.prems(4) z in auto)
  then show ?case using p i focuses_trans by (auto simp: renders_def)
qed

lemma paint_law:
  assumes "paint fv v rect inherited rd = Inr rd'" "small_node v" "sized c r (rd_frame rd)"
    and "outside_view rect \<or> in_frame c r rect" "b \<longrightarrow> no_viewport v"
  shows "renders b c r (rect_set rect) rd rd'"
  using assms
proof (induction "size v" arbitrary: v rect inherited rd rd' rule: less_induct)
  case less
  obtain kind m where w: "parseWidget v = Inr (kind, m)" using less.prems(1) by (cases "parseWidget v") (auto simp: paint.simps [of fv v])
  have v: "v = NMap m" using parseWidget_map [OF w] .
  obtain st where st: "styleOver inherited m = Inr st"
    using less.prems(1) w by (cases "styleOver inherited m") (auto simp: paint.simps [of fv v])
  have sm: "small_node (NMap m)" using less.prems(2) v by simp
  have nv: "b \<longrightarrow> no_viewport (NMap m)" using less.prems(5) v by simp
  have ok: "frame_ok (rd_frame rd)" using less.prems(3) by (simp add: sized_def)
  show ?case
  proof (cases "rW rect \<le> 0 \<or> rH rect \<le> 0")
    case True
    then have "rd' = rd" using less.prems(1) w st by (simp add: paint.simps [of fv v])
    then show ?thesis by (simp add: renders_def focuses_def paints_refl ok)
  next
    case False
    then have inf: "in_frame c r rect" and pos: "0 < rW rect" "0 < rH rect" using less.prems(4) by (auto simp: outside_view_def)
    have step: "(if kind = ''text'' then on_frame (paintText m rect st) rd
       else if kind = ''rows'' \<or> kind = ''cols'' then
         err_bind (stackRects m rect (kind = ''rows'')) (\<lambda>cs. paint_children fv cs st rd)
       else if kind = ''box'' then
         err_bind (paintBox m rect st (rd_frame rd)) (\<lambda>(f, inner).
           case inner of None \<Rightarrow> Inr (rd\<lparr>rd_frame := f\<rparr>) | Some (c, r) \<Rightarrow> paint fv c r st (rd\<lparr>rd_frame := f\<rparr>))
       else if kind = ''list-view'' then on_frame (paintList m rect st) rd
       else if kind = ''table'' then on_frame (paintTable fv m rect st) rd
       else if kind = ''input'' then paintInput m rect st rd
       else if kind = ''viewport'' then
         err_bind (viewport_canvas m rect) (\<lambda>canvas.
           case canvas of None \<Rightarrow> Inr rd
           | Some (c, o', cw, ch) \<Rightarrow>
               err_bind (paint fv c (whole cw ch) st (fresh_renderer cw ch)) (\<lambda>sub.
                 Inr (rd\<lparr>rd_frame := blit (rd_frame sub) (fst o') (snd o') rect (rd_frame rd)\<rparr>)))
       else Inr rd) = Inr rd'"
      using less.prems(1) w st False by (simp add: paint.simps [of fv v])
    have frame: "renders b c r (rect_set rect) rd rd'"
      if "on_frame g rd = Inr rd'" "\<And>f'. g (rd_frame rd) = Inr f' \<Longrightarrow> paints b (rect_set rect) (rd_frame rd) f'" for g
      using that by (auto simp: on_frame_def err_bind_Inr intro: renders_frame)
    consider "kind = ''text''" | "kind = ''rows'' \<or> kind = ''cols''" | "kind = ''box''" | "kind = ''list-view''"
      | "kind = ''table''" | "kind = ''input''" | "kind = ''viewport''"
      | "kind \<noteq> ''text'' \<and> kind \<noteq> ''rows'' \<and> kind \<noteq> ''cols'' \<and> kind \<noteq> ''box'' \<and> kind \<noteq> ''list-view'' \<and>
          kind \<noteq> ''table'' \<and> kind \<noteq> ''input'' \<and> kind \<noteq> ''viewport''" by argo
    then show ?thesis
    proof cases
      case 1
      then show ?thesis using step frame paintText_paints [OF _ inf less.prems(3) pos] by simp
    next
      case 2
      then obtain cs where cs: "stackRects m rect (kind = ''rows'') = Inr cs" "paint_children fv cs st rd = Inr rd'"
        using step by (auto simp: err_bind_Inr)
      note si = stackRects_inside [OF cs(1) sm inf]
      have "renders b c r (\<Union>(d, q) \<in> set cs. rect_set q) rd rd'"
      proof (rule children_law [OF cs(2) less.prems(3)])
        fix d q rd1 rd2 assume d: "(d, q) \<in> set cs" "sized c r (rd_frame rd1)" "paint fv d q st rd1 = Inr rd2"
        then obtain l where l: "nodeList m ''children'' = Inr (Some l)" "d \<in> set l" "outside_view q \<or> in_frame c r q" using si by fastforce
        have "size d < size v"
          using size_member [OF l(2)] size_entry [OF nodeList_entry [OF l(1)]] v by simp
        then show "renders b c r (rect_set q) rd1 rd2"
          using less.hyps [OF _ d(3) _ d(2) l(3)] nodeList_small [OF l(1) sm] nodeList_viewport [OF l(1)] nv l(2) by blast
      qed (use si in simp)
      moreover have "(\<Union>(d, q) \<in> set cs. rect_set q) \<subseteq> rect_set rect" using si outside_view_set by fastforce
      ultimately show ?thesis unfolding renders_def using paints_mono by blast
    next
      case 3
      then obtain f inner where pb: "paintBox m rect st (rd_frame rd) = Inr (f, inner)" and
        rest: "(case inner of None \<Rightarrow> Inr (rd\<lparr>rd_frame := f\<rparr>) | Some (c, r) \<Rightarrow> paint fv c r st (rd\<lparr>rd_frame := f\<rparr>)) = Inr rd'"
        using step by (auto simp: err_bind_Inr)
      obtain border ix iy child where bx: "box_border m = Inr border" "boxInsets m = Inr (ix, iy, child)"
        "paint_border m rect st border (rd_frame rd) = Inr f" "inner = map_option (\<lambda>c. (c, inner_rect rect ix iy)) child"
        using paintBox_parts [OF pb] .
      note ins = insets_small [OF bx(2) sm bx(1)]
      note bp = paint_border_paints [OF bx(3) inf less.prems(3), of b]
      have rr: "ring rect \<subseteq> rect_set rect" by (auto simp: ring_def)
      have pf: "paints b (rect_set rect) (rd_frame rd) f"
        using bp paints_mono [OF _ rr] paints_refl [OF ok] by (auto split: if_splits)
      show ?thesis
      proof (cases child)
        case None
        then show ?thesis using rest bx(4) renders_frame [OF pf] by simp
      next
        case (Some d)
        let ?q = "inner_rect rect ix iy"
        have p: "paint fv d ?q st (rd\<lparr>rd_frame := f\<rparr>) = Inr rd'" using rest bx(4) Some by simp
        have dm: "size d < size v" using boxInsets_child bx(2) Some v by blast
        have de: "gm_get m ''child'' = Some d"
          using bx(2) Some by (auto simp: boxInsets_def Let_def err_bind_Inr split: option.splits node.splits if_splits)
        have sf: "sized c r (rd_frame (rd\<lparr>rd_frame := f\<rparr>))" using paints_sized [OF pf less.prems(3)] by simp
        have q: "outside_view ?q \<or> in_frame c r ?q \<and> rect_set ?q \<subseteq> rect_set rect \<and>
            (1 \<le> ix \<longrightarrow> 1 \<le> iy \<longrightarrow> ring rect \<inter> rect_set ?q = {})"
          using inner_rect_inside [OF inf] ins by blast
        then have qf: "outside_view ?q \<or> in_frame c r ?q" by blast
        have i: "renders b c r (rect_set ?q) (rd\<lparr>rd_frame := f\<rparr>) rd'"
          by (rule less.hyps [OF dm p small_entry [OF sm de] sf qf]) (use viewport_entry [OF _ de] nv in blast)
        have "paints b (rect_set rect) (rd_frame rd) (rd_frame rd')"
        proof (cases "outside_view ?q")
          case True
          then have "paints b (rect_set rect - rect_set rect) f (rd_frame rd')"
            using i outside_view_set [OF True] by (simp add: renders_def)
          then show ?thesis using paints_disjoint [OF pf, of "{}" "rd_frame rd'" "rect_set rect"] by simp
        next
          case False
          then have qq: "rect_set ?q \<subseteq> rect_set rect" "1 \<le> ix \<longrightarrow> 1 \<le> iy \<longrightarrow> ring rect \<inter> rect_set ?q = {}" using q by auto
          have pi: "paints b (rect_set ?q) f (rd_frame rd')" using i by (simp add: renders_def)
          show ?thesis
          proof (cases "border = ''none'' \<or> rW rect < 2 \<or> rH rect < 2")
            case True
            then have "f = rd_frame rd" using bp by simp
            then show ?thesis using paints_mono [OF pi qq(1)] by simp
          next
            case False
            then have "paints b (ring rect) (rd_frame rd) f" "ring rect \<inter> rect_set ?q = {}" using bp qq(2) ins by auto
            then show ?thesis using paints_disjoint [OF _ pi] rr qq(1) by blast
          qed
        qed
        then show ?thesis using i focuses_trans [OF focuses_refl] by (auto simp: renders_def)
      qed
    next
      case 4
      then show ?thesis using step frame paintList_paints [OF _ inf less.prems(3) pos] by simp
    next
      case 5
      then show ?thesis using step frame paintTable_paints [OF _ inf less.prems(3) pos] columns_small [OF _ sm] by simp
    next
      case 6
      then have "paintInput m rect st rd = Inr rd'" using step by simp
      then show ?thesis
        using paintInput_paints [OF _ inf less.prems(3) pos] paintInput_focuses [OF _ inf pos sm] by (simp add: renders_def)
    next
      case 7
      have "\<not> no_viewport (NMap m)"
        using w v 7 by (auto simp: no_viewport.simps [of "NMap m"] parseWidget_def asNode_def nodeStr_def
          split: option.splits node.splits if_splits)
      then have nb: "\<not> b" using nv by simp
      have "renders b c r (rect_set rect) rd (rd\<lparr>rd_frame := blit sub ox oy rect (rd_frame rd)\<rparr>)" for sub ox oy
        using blit_draws [OF inf ok] nb by (auto simp: renders_def focuses_def paints_def)
      moreover have "renders b c r (rect_set rect) rd rd" by (simp add: renders_def focuses_def paints_refl ok)
      ultimately show ?thesis using step 7 by (auto simp: err_bind_Inr split: option.splits)
    next
      case 8
      then have "rd' = rd" using step by simp
      then show ?thesis by (simp add: renders_def focuses_def paints_refl ok)
    qed
  qed
qed

text \<open>C13: A widget paints only inside the rectangle it is given: whatever the tree, no cell outside it changes, so
  siblings never overwrite one another and no child reaches over the border of its box.\<close>

theorem paint_stays_inside:
  assumes "paint fv v rect inherited rd = Inr rd'" "small_node v" "frame_ok (rd_frame rd)"
    and "in_frame (Cols (rd_frame rd)) (Rows (rd_frame rd)) rect"
  shows "Cols (rd_frame rd') = Cols (rd_frame rd) \<and> Rows (rd_frame rd') = Rows (rd_frame rd) \<and>
    (\<forall>x y. \<not> (rX rect \<le> x \<and> x < rX rect + rW rect \<and> rY rect \<le> y \<and> y < rY rect + rH rect) \<longrightarrow>
      At_cell (rd_frame rd') x y = At_cell (rd_frame rd) x y)"
proof -
  have "sized (Cols (rd_frame rd)) (Rows (rd_frame rd)) (rd_frame rd)" using assms(3) by (simp add: sized_def)
  then have d: "fr.draws (rect_set rect) (rd_frame rd) (rd_frame rd')"
    using paint_law [OF assms(1,2), of _ _ False] assms(4) by (auto simp: renders_def paints_def)
  have "(x, y) \<notin> rect_set rect \<Longrightarrow> At_cell (rd_frame rd') x y = At_cell (rd_frame rd) x y" for x y by (rule fr.draws_get [OF d])
  then show ?thesis using fr.draws_dim [OF d] by (auto simp: rect_set_def)
qed

definition sample_tree :: node where
  "sample_tree = NMap [(''w'', NStr ''rows''), (''children'', NList
    [NMap [(''w'', NStr ''list-view''), (''items'', NList [NStr ''one''])],
     NMap [(''w'', NStr ''input''), (''size'', NInt 1), (''value'', NStr ''x''), (''focus'', NBool True)]])]"

lemma paint_stays_inside_witness:
  "\<exists>rd'. paint (\<lambda>_. []) sample_tree \<lparr>rX = 1, rY = 1, rW = 2, rH = 2\<rparr> no_style (fresh_renderer 4 3) = Inr rd' \<and>
    At_cell (rd_frame rd') 3 1 = Some no_cell"
proof -
  let ?r = "\<lparr>rX = 1, rY = 1, rW = 2, rH = 2\<rparr>"
  have "\<not> isl (paint (\<lambda>_. []) sample_tree ?r no_style (fresh_renderer 4 3))" by code_simp
  then obtain rd' where p: "paint (\<lambda>_. []) sample_tree ?r no_style (fresh_renderer 4 3) = Inr rd'"
    by (metis sum.collapse(2))
  have s: "small_node sample_tree"
    by (simp add: sample_tree_def small_node.simps toInt_def)
  have f: "rd_frame (fresh_renderer 4 3) = NewFrame 4 3" "Cols (NewFrame 4 3) = 4" "Rows (NewFrame 4 3) = 3"
    by (simp_all add: fresh_renderer_def NewFrame_def)
  have "At_cell (rd_frame rd') 3 1 = At_cell (NewFrame 4 3) 3 1"
    using paint_stays_inside [OF p s] by (simp add: f in_frame_def)
  also have "\<dots> = Some no_cell" by code_simp
  finally show ?thesis using p by blast
qed

text \<open>C15: A rendered frame is sound: it has the size asked for, the cursor lies on it, and, in a tree without
  viewports, every wide rune is whole: a cell of width two has its shadow to the right and a shadow
  its rune to the left, so that no painting order ever splits one.\<close>

theorem render_keeps_wide_cells:
  assumes "Render fv tree cols rows = Inr (f, cursor)" "small_node tree"
    and "0 \<le> cols" "cols \<le> 2 ^ 31" "0 \<le> rows" "rows \<le> 2 ^ 31"
  shows "frame_ok f \<and> Cols f = cols \<and> Rows f = rows \<and>
    (\<forall>x y. cursor = Some (x, y) \<longrightarrow> 0 \<le> x \<and> x < cols \<and> 0 \<le> y \<and> y < rows) \<and>
    (no_viewport tree \<longrightarrow> (\<forall>x y. (\<exists>c. At_cell f x y = Some c \<and> Width c = 2) \<longleftrightarrow> (\<exists>d. At_cell f (x + 1) y = Some d \<and> Width d = - 1)))"
proof -
  let ?rd = "fresh_renderer cols rows" and ?b = "no_viewport tree"
  have n: "Cols (rd_frame ?rd) = cols" "Rows (rd_frame ?rd) = rows" "frame_ok (rd_frame ?rd)"
    using assms(3,5) by (simp_all add: fresh_renderer_def) (simp_all add: NewFrame_def Let_def)
  obtain rd where p: "paint fv tree (whole cols rows) no_style ?rd = Inr rd" "f = rd_frame rd"
    "cursor = (if focused rd = 1 then Some (rd_cursor rd) else None)"
    using assms(1) by (auto simp: Render_def Let_def n err_bind_Inr)
  have r: "renders ?b cols rows (rect_set (whole cols rows)) ?rd rd"
    by (rule paint_law [OF p(1) assms(2)]) (use n assms(3-6) in \<open>auto simp: sized_def in_frame_def whole_def\<close>)
  have w: "cell_width (rd_frame ?rd) x y \<noteq> Some k" if "k \<noteq> 0" for x y k
  proof (cases "At_cell (rd_frame ?rd) x y")
    case None
    then show ?thesis by (simp add: cell_width_def del: At_None)
  next
    case (Some c)
    then have "c \<in> set (Cells (rd_frame ?rd))"
      using n(3) cell_index(1) [of x y cols rows] n by (auto simp: At_Some frame_ok_def)
    then have "c = no_cell" by (auto simp: fresh_renderer_def NewFrame_def Let_def)
    then show ?thesis using Some that by (simp add: cell_width_def no_cell_def)
  qed
  have "paired (rd_frame ?rd)" unfolding paired_def using w by (metis insertCI one_neq_zero zero_neq_neg_one zero_neq_numeral)
  moreover have "narrow (rect_set (whole cols rows)) (rd_frame ?rd)" unfolding narrow_def using w by blast
  ultimately have pr: "?b \<longrightarrow> paired f" using r p(2) by (auto simp: renders_def paints_def)
  have "frame_ok f" "Cols f = cols" "Rows f = rows"
    using r n p(2) paints_ok paints_dims by (auto simp: renders_def)
  moreover have "0 \<le> x \<and> x < cols \<and> 0 \<le> y \<and> y < rows" if "cursor = Some (x, y)" for x y
    using that p(3) r by (auto simp: renders_def focuses_def on_screen_def fresh_renderer_def split: if_splits)
  ultimately show ?thesis using pr by (auto simp: paired_def cell_width_def)
qed

definition wide_text :: string where
  "wide_text = [CHR 0xE6, CHR 0xBC, CHR 0xA2]"

lemma render_keeps_wide_cells_witness:
  "\<exists>f x y. Render (\<lambda>_. []) (NMap [(''w'', NStr ''text''), (''text'', NStr (wide_text @ wide_text))]) 3 1 = Inr (f, None) \<and>
    (\<exists>c. At_cell f 0 0 = Some c \<and> Width c = 2) = (\<exists>d. At_cell f 1 0 = Some d \<and> Width d = - 1) \<and> Cols f = 3"
proof -
  let ?t = "NMap [(''w'', NStr ''text''), (''text'', NStr (wide_text @ wide_text))]"
  have "\<not> isl (Render (\<lambda>_. []) ?t 3 1) \<and> snd (projr (Render (\<lambda>_. []) ?t 3 1)) = None" by code_simp
  then obtain f where r: "Render (\<lambda>_. []) ?t 3 1 = Inr (f, None)" by (metis prod.collapse sum.collapse(2))
  have "small_node ?t" "no_viewport ?t"
    by (simp_all add: small_node.simps no_viewport.simps toInt_def wide_text_def gm_get_def)
  then show ?thesis using render_keeps_wide_cells [OF r] r by fastforce
qed

section \<open>Where runes are split or lost\<close>

text \<open>A viewport scrolled by one column cuts a wide rune: its shadow is shown without the rune, and the next
  one loses its shadow at the right edge.\<close>

lemma viewport_splits_wide_runes:
  "map_sum id (\<lambda>(f, c). map Width (Cells f)) (Render (\<lambda>_. [])
    (NMap [(''w'', NStr ''viewport''), (''offset'', NList [NInt 1, NInt 0]),
      (''child'', NMap [(''w'', NStr ''text''), (''text'', NStr (wide_text @ wide_text))])]) 2 1) = Inr [- 1, 2]"
  by code_simp

text \<open>Three wide runes in three columns need three lines, and the measure says two.\<close>

lemma wrapped_wide_runes_measured_short:
  "(let t = NMap [(''w'', NStr ''text''), (''wrap'', NStr ''wrap''), (''text'', NStr (wide_text @ wide_text @ wide_text))]
    in (measureFit t 3, map_sum id (\<lambda>(f, c). renderRows f) (Render (\<lambda>_. []) t 3 3))) =
    (Inr (3, 2), Inr [wide_text @ '' '', wide_text @ '' '', wide_text @ '' ''])"
  by code_simp

text \<open>A combining mark joins a narrow rune and is dropped behind a wide one, whose last cell is the shadow.\<close>

lemma mark_behind_wide_rune_is_dropped:
  "(let mark = [CHR 0xCC, CHR 0x81];
        row = (\<lambda>s. map_sum id (\<lambda>(f, c). renderRows f) (Render (\<lambda>_. []) (NMap [(''w'', NStr ''text''), (''text'', NStr s)]) 2 1))
    in (row (''e'' @ mark), row (wide_text @ mark))) = (Inr [''e'' @ [CHR 0xCC, CHR 0x81] @ '' ''], Inr [wide_text])"
  by code_simp

end
