(* ===== verification/Tui_Colors.thy ===== *)
theory Tui_Colors
  imports Tui_Frames
begin

text \<open>
  Colours and escape sequences (lang/go/tuikit: color.go, ansi.go): parsing, the
  degradation to the palettes, the sequence of a style, and stripping.  Names are
  lower-cased as ASCII.
\<close>

section \<open>Colours\<close>

datatype Color =
    ColorNone
  | ColorNamed string int
  | ColorIndex int
  | ColorRGB int int int

definition ansiNames :: "(string, int) gomap" where
  "ansiNames = [(''black'', 0), (''red'', 1), (''green'', 2), (''yellow'', 3),
    (''blue'', 4), (''magenta'', 5), (''cyan'', 6), (''white'', 7),
    (''bright-black'', 8), (''bright-red'', 9), (''bright-green'', 10), (''bright-yellow'', 11),
    (''bright-blue'', 12), (''bright-magenta'', 13), (''bright-cyan'', 14), (''bright-white'', 15),
    (''grey'', 8), (''gray'', 8)]"

definition lower_byte :: "char \<Rightarrow> char" where
  "lower_byte c = (if 65 \<le> byte_val c \<and> byte_val c \<le> 90 then byte_of (byte_val c + 32) else c)"

definition hex_byte :: "char \<Rightarrow> int option" where
  "hex_byte c =
    (let b = byte_val c in
     if 48 \<le> b \<and> b \<le> 57 then Some (b - 48)
     else if 97 \<le> b \<and> b \<le> 102 then Some (b - 87)
     else if 65 \<le> b \<and> b \<le> 70 then Some (b - 55)
     else None)"

text \<open>\<open>strconv.ParseUint\<close> in base 16 on at most eight digits.\<close>

fun hex_digits :: "string \<Rightarrow> int \<Rightarrow> int option" where
  "hex_digits [] n = Some n"
| "hex_digits (c # cs) n = (case hex_byte c of None \<Rightarrow> None | Some d \<Rightarrow> hex_digits cs (16 * n + d))"

definition ParseColor :: "string \<Rightarrow> Color option" where
  "ParseColor s =
    (if s = [] then Some ColorNone
     else
       let lower = map lower_byte s in
       case gm_get ansiNames lower of
         Some idx \<Rightarrow> Some (ColorNamed lower idx)
       | None \<Rightarrow>
           if hd s = CHR ''#'' then
             if length s \<noteq> 7 then None
             else (case hex_digits (tl s) 0 of
                     None \<Rightarrow> None
                   | Some n \<Rightarrow> Some (ColorRGB (n div 65536 mod 256) (n div 256 mod 256) (n mod 256)))
           else (case ParseInt s of
                   Some n \<Rightarrow> if 0 \<le> n \<and> n \<le> 255 then Some (ColorIndex n) else None
                 | None \<Rightarrow> None))"

definition isGreyish :: "int \<Rightarrow> int \<Rightarrow> int \<Rightarrow> bool" where
  "isGreyish r g b =
    (let (hi, lo) = fold (\<lambda>v (hi, lo). (if v > hi then v else hi, if v < lo then v else lo)) [g, b] (r, r)
     in hi - lo < 24)"

definition cubeStep :: "int \<Rightarrow> int" where
  "cubeStep v = (if v < 48 then 0 else if v < 115 then 1 else (v - 35) div 40)"

definition To256 :: "Color \<Rightarrow> int" where
  "To256 c =
    (case c of
       ColorNamed _ i \<Rightarrow> i
     | ColorIndex i \<Rightarrow> i
     | ColorRGB r g b \<Rightarrow>
         if isGreyish r g b then
           (let v = (r + g + b) div 3 in if v < 8 then 16 else if v > 238 then 231 else 232 + (v - 8) div 10)
         else 16 + 36 * cubeStep r + 6 * cubeStep g + cubeStep b
     | ColorNone \<Rightarrow> - 1)"

definition rgbFrom256 :: "int \<Rightarrow> int \<times> int \<times> int" where
  "rgbFrom256 i =
    (if i < 16 then
       let (lo, hi) = (if i \<ge> 8 then (85, 255) else (0, 128));
           pick = (\<lambda>k::int. if i div k mod 2 = 1 then hi else lo)
       in (pick 1, pick 2, pick 4)
     else if i \<ge> 232 then let g = 8 + (i - 232) * 10 in (g, g, g)
     else
       let i = i - 16; steps = [0, 95, 135, 175, 215, 255]
       in (steps ! nat (i div 36), steps ! nat (i div 6 mod 6), steps ! nat (i mod 6)))"

definition ansi16FromRGB :: "int \<times> int \<times> int \<Rightarrow> int" where
  "ansi16FromRGB rgb =
    (case rgb of (r, g, b) \<Rightarrow>
       (if r > 127 then 1 else 0) + (if g > 127 then 2 else 0) + (if b > 127 then 4 else 0) +
       (if r > 191 \<or> g > 191 \<or> b > 191 then 8 else 0))"

definition To16 :: "Color \<Rightarrow> int" where
  "To16 c =
    (case c of
       ColorNamed _ i \<Rightarrow> i
     | ColorIndex i \<Rightarrow> if i < 16 then i else ansi16FromRGB (rgbFrom256 i)
     | ColorRGB r g b \<Rightarrow> ansi16FromRGB (r, g, b)
     | ColorNone \<Rightarrow> - 1)"

section \<open>Sequences\<close>

datatype ColorProfile = ProfileTrueColor | Profile256 | Profile16 | ProfileNone

definition ParseProfile :: "string \<Rightarrow> ColorProfile option" where
  "ParseProfile s =
    (if s = [] then Some ProfileTrueColor
     else if s = ''truecolor'' then Some ProfileTrueColor
     else if s = ''256'' then Some Profile256
     else if s = ''16'' then Some Profile16
     else if s = ''none'' then Some ProfileNone
     else None)"

definition ESC :: char where "ESC = CHR 0x1B"

definition SGRReset :: string where "SGRReset = ESC # ''[0m''"

definition palette_codes :: "string list \<Rightarrow> Color \<Rightarrow> bool \<Rightarrow> string list" where
  "palette_codes codes c background = codes @ [if background then ''48'' else ''38'', ''5'', Itoa (To256 c)]"

definition appendColor :: "string list \<Rightarrow> string \<Rightarrow> ColorProfile \<Rightarrow> bool \<Rightarrow> string list" where
  "appendColor codes s profile background =
    (if profile = ProfileNone then codes
     else case ParseColor s of
       None \<Rightarrow> codes
     | Some c \<Rightarrow>
         if c = ColorNone then codes
         else case profile of
           ProfileTrueColor \<Rightarrow>
             (case c of
                ColorRGB r g b \<Rightarrow> codes @ [if background then ''48'' else ''38'', ''2'', Itoa r, Itoa g, Itoa b]
              | _ \<Rightarrow> palette_codes codes c background)
         | Profile256 \<Rightarrow> palette_codes codes c background
         | _ \<Rightarrow>
             let n = To16 c in
             if n < 8 then codes @ [Itoa ((if background then 40 else 30) + n)]
             else codes @ [Itoa ((if background then 100 else 90) + n - 8)])"

definition SGR :: "Style \<Rightarrow> ColorProfile \<Rightarrow> string" where
  "SGR st profile =
    (let codes = (if Bold st then [''1''] else []) @ (if Italic st then [''3''] else []) @
           (if Underline st then [''4''] else []) @ (if Reverse st then [''7''] else []);
         codes = appendColor codes (FG st) profile False;
         codes = appendColor codes (BG st) profile True
     in if codes = [] then [] else ESC # ''['' @ go_join CHR '';'' codes @ ''m'')"

text \<open>What is left behind the final byte of a CSI sequence, and behind the end of an OSC sequence.\<close>

fun after_csi :: "string \<Rightarrow> string" where
  "after_csi [] = []"
| "after_csi (c # cs) = (if byte_val c < 0x40 \<or> byte_val c > 0x7E then after_csi cs else cs)"

fun after_osc :: "string \<Rightarrow> string" where
  "after_osc [] = []"
| "after_osc (c # cs) =
    (if c = CHR 0x07 then cs
     else if c = ESC \<and> cs \<noteq> [] \<and> hd cs = CHR 0x5C then tl cs
     else after_osc cs)"

lemma after_length: "length (after_csi s) \<le> length s" "length (after_osc s) \<le> length s"
  by (induction s) auto

function StripANSI :: "string \<Rightarrow> string" where
  "StripANSI [] = []"
| "StripANSI (c # cs) =
    (if c \<noteq> ESC then c # StripANSI cs
     else case cs of
       [] \<Rightarrow> []
     | d # ds \<Rightarrow>
         if d = CHR ''['' then StripANSI (after_csi ds)
         else if d = CHR '']'' then StripANSI (after_osc ds)
         else StripANSI ds)"
  by pat_completeness auto
termination
proof (relation "measure length")
  fix c d :: char and cs ds :: string
  show "cs = d # ds \<Longrightarrow> (after_csi ds, c # cs) \<in> measure length" using after_length(1) [of ds] by simp
  show "cs = d # ds \<Longrightarrow> (after_osc ds, c # cs) \<in> measure length" using after_length(2) [of ds] by simp
qed auto

section \<open>Stripping undoes colouring\<close>

lemma strip_plain: "ESC \<notin> set s \<Longrightarrow> StripANSI (s @ t) = s @ StripANSI t"
  by (induction s) auto

definition parameter_byte :: "char \<Rightarrow> bool" where
  "parameter_byte c = (byte_val c < 0x40)"

lemma csi_parameters: "list_all parameter_byte ps \<Longrightarrow> after_csi (ps @ t) = after_csi t"
  by (induction ps) (auto simp: parameter_byte_def)

lemma strip_csi: "list_all parameter_byte ps \<Longrightarrow> StripANSI (ESC # CHR ''['' # ps @ CHR ''m'' # t) = StripANSI t"
  by (simp add: csi_parameters)

lemma byte_of_val: "0 \<le> n \<Longrightarrow> n < 256 \<Longrightarrow> byte_val (byte_of n) = n"
  by (simp add: byte_of_def)

lemma digits_parameters: "list_all parameter_byte (dec_digits n)"
proof (induction n rule: dec_digits.induct)
  case (1 n)
  have "parameter_byte (byte_of (48 + int (n mod 10)))"
    using byte_of_val [of "48 + int (n mod 10)"] by (simp add: parameter_byte_def)
  then show ?case using 1 by (subst dec_digits.simps) simp
qed

lemma Itoa_parameters: "list_all parameter_byte (Itoa i)"
  using digits_parameters by (simp add: Itoa_def) (simp add: parameter_byte_def)

definition codes_ok :: "string list \<Rightarrow> bool" where
  "codes_ok codes = list_all (list_all parameter_byte) codes"

lemma codes_ok_append [simp]: "codes_ok (xs @ ys) = (codes_ok xs \<and> codes_ok ys)"
  by (simp add: codes_ok_def)

lemma join_ok: "codes_ok codes \<Longrightarrow> list_all parameter_byte (go_join CHR '';'' codes)"
  by (induction "CHR '';''" codes rule: go_join.induct) (auto simp: codes_ok_def parameter_byte_def)

lemma palette_ok: "codes_ok codes \<Longrightarrow> codes_ok (palette_codes codes c b)"
  by (simp add: palette_codes_def Itoa_parameters) (simp add: codes_ok_def Itoa_parameters parameter_byte_def)

lemma appendColor_ok: "codes_ok codes \<Longrightarrow> codes_ok (appendColor codes s profile b)"
  unfolding appendColor_def
  by (auto simp: palette_ok Let_def split: option.split ColorProfile.split Color.split)
    (auto simp: codes_ok_def Itoa_parameters parameter_byte_def)

text \<open>C17: Stripping undoes colouring: a text without escapes comes back as it was after it has been given any
  style under any colour profile, whatever is written in the style as a colour.\<close>

theorem strip_undoes_style:
  assumes "ESC \<notin> set s"
  shows "StripANSI (SGR st profile @ s @ SGRReset) = s"
proof -
  have "StripANSI (s @ SGRReset) = s" using strip_plain [OF assms] by (simp add: SGRReset_def)
  moreover have "StripANSI (SGR st profile @ t) = StripANSI t" for t
  proof (cases "SGR st profile = []")
    case False
    define codes where "codes = appendColor (appendColor ((if Bold st then [''1''] else []) @ (if Italic st then [''3''] else []) @
      (if Underline st then [''4''] else []) @ (if Reverse st then [''7''] else [])) (FG st) profile False) (BG st) profile True"
    have "codes_ok codes" unfolding codes_def by (intro appendColor_ok) (simp add: codes_ok_def parameter_byte_def)
    moreover have "SGR st profile = ESC # ''['' @ go_join CHR '';'' codes @ ''m''"
      using False by (simp add: SGR_def Let_def codes_def split: if_splits)
    ultimately show ?thesis using strip_csi [OF join_ok, of codes t] by simp
  qed simp
  ultimately show ?thesis by simp
qed

lemma strip_undoes_style_witness:
  "StripANSI (SGR (no_style\<lparr>Bold := True, FG := ''#102030''\<rparr>) ProfileTrueColor @ ''hi'' @ SGRReset) = ''hi'' \<and>
    SGR (no_style\<lparr>Bold := True, FG := ''#102030''\<rparr>) ProfileTrueColor = ESC # ''[1;38;2;16;32;48m''"
proof
  show "StripANSI (SGR (no_style\<lparr>Bold := True, FG := ''#102030''\<rparr>) ProfileTrueColor @ ''hi'' @ SGRReset) = ''hi''"
    by (rule strip_undoes_style) (simp add: ESC_def)
qed code_simp

section \<open>Palettes\<close>

lemma cubeStep_range: "0 \<le> v \<Longrightarrow> v \<le> 255 \<Longrightarrow> 0 \<le> cubeStep v \<and> cubeStep v \<le> 5"
  by (auto simp: cubeStep_def)

lemma named_range: "gm_get ansiNames s = Some i \<Longrightarrow> 0 \<le> i \<and> i \<le> 15"
  by (auto simp: gm_get_def ansiNames_def split: if_splits)

lemma ParseColor_shape:
  assumes "ParseColor s = Some c" "s \<noteq> []"
  shows "(\<exists>n i. c = ColorNamed n i \<and> gm_get ansiNames n = Some i) \<or> (\<exists>i. c = ColorIndex i \<and> 0 \<le> i \<and> i \<le> 255) \<or>
    (\<exists>n. c = ColorRGB (n div 65536 mod 256) (n div 256 mod 256) (n mod 256))"
proof (cases "gm_get ansiNames (map lower_byte s)")
  case (Some i)
  then show ?thesis using assms by (simp add: ParseColor_def Let_def) blast
next
  case None
  show ?thesis
  proof (cases "hd s = CHR ''#''")
    case True
    then show ?thesis
      using assms None by (cases "hex_digits (tl s) 0") (auto simp: ParseColor_def Let_def split: if_splits)
  next
    case False
    then show ?thesis
      using assms None by (cases "ParseInt s") (auto simp: ParseColor_def Let_def split: if_splits)
  qed
qed

text \<open>Degraded colours are valid: every colour that parses and is not empty has an index from 0 to 255 in the
  large palette and from 0 to 15 in the small one.\<close>

theorem palettes_in_range:
  assumes "ParseColor s = Some c" "s \<noteq> []"
  shows "0 \<le> To256 c \<and> To256 c \<le> 255 \<and> 0 \<le> To16 c \<and> To16 c \<le> 15"
proof (cases c)
  case ColorNone
  then show ?thesis using ParseColor_shape [OF assms] by simp
next
  case (ColorNamed n i)
  then have "0 \<le> i \<and> i \<le> 15"
    using ParseColor_shape [OF assms] named_range by auto
  then show ?thesis using ColorNamed by (simp add: To256_def To16_def)
next
  case (ColorIndex i)
  then have "0 \<le> i \<and> i \<le> 255" using ParseColor_shape [OF assms] by simp
  moreover have "0 \<le> ansi16FromRGB x \<and> ansi16FromRGB x \<le> 15" for x by (auto simp: ansi16FromRGB_def split: prod.split)
  ultimately show ?thesis using ColorIndex by (auto simp: To256_def To16_def)
next
  case (ColorRGB r g b)
  have m: "0 \<le> k mod 256 \<and> k mod 256 \<le> 255" for k :: int using pos_mod_bound [of 256 k] by simp
  obtain n where "r = n div 65536 mod 256" "g = n div 256 mod 256" "b = n mod 256"
    using ParseColor_shape [OF assms] ColorRGB by blast
  then have v: "0 \<le> r" "r \<le> 255" "0 \<le> g" "g \<le> 255" "0 \<le> b" "b \<le> 255" using m by blast+
  have a: "0 \<le> ansi16FromRGB x \<and> ansi16FromRGB x \<le> 15" for x by (auto simp: ansi16FromRGB_def split: prod.split)
  have "0 \<le> To256 c \<and> To256 c \<le> 255"
    using v cubeStep_range [of r] cubeStep_range [of g] cubeStep_range [of b] by (auto simp: ColorRGB To256_def Let_def)
  then show ?thesis using a by (simp add: ColorRGB To16_def)
qed

lemma palettes_in_range_witness:
  "\<exists>c. ParseColor ''#ff8000'' = Some c \<and> To256 c = 208 \<and> To16 c = 11 \<and> To256 c \<le> 255"
proof -
  have p: "ParseColor ''#ff8000'' = Some (ColorRGB 255 128 0)" "To256 (ColorRGB 255 128 0) = 208" "To16 (ColorRGB 255 128 0) = 11"
    by code_simp+
  then show ?thesis using palettes_in_range [OF p(1)] by simp
qed

end
