(* ===== verification/Tui_Virtual.thy ===== *)
theory Tui_Virtual
  imports Tui_Frames
begin

text \<open>
  The in-memory terminal (lang/go/tuikit/virtual.go): scripted input through a
  bounded queue, and the bounded history of the presented frames.  Events are the
  type parameter; the error fields are the texts of the forced errors.
\<close>

definition virtualEventBuffer :: nat where "virtualEventBuffer = 1024"

definition defaultMaxFrames :: nat where "defaultMaxFrames = 256"

record 'e VirtualBackend =
  OpenErr :: "string option"
  CloseErr :: "string option"
  SizeErr :: "string option"
  PresentErr :: "string option"
  CursorErr :: "string option"
  TitleErr :: "string option"
  BellErr :: "string option"
  vb_cols :: int
  vb_rows :: int
  vb_open :: bool
  vb_closed :: bool
  events :: "'e list"
  grid :: Frame
  frames :: "Frame list"
  maxKeep :: nat
  vb_title :: string
  bells :: int
  presents :: int
  vb_cursor :: "int \<times> int \<times> bool"

definition NewVirtualBackend :: "int \<Rightarrow> int \<Rightarrow> 'e VirtualBackend" where
  "NewVirtualBackend cols rows =
    \<lparr> OpenErr = None, CloseErr = None, SizeErr = None, PresentErr = None, CursorErr = None, TitleErr = None, BellErr = None,
      vb_cols = cols, vb_rows = rows, vb_open = False, vb_closed = False, events = [], grid = NewFrame cols rows,
      frames = [], maxKeep = defaultMaxFrames, vb_title = [], bells = 0, presents = 0, vb_cursor = (0, 0, False) \<rparr>"

definition Inject :: "'e \<Rightarrow> 'e VirtualBackend \<Rightarrow> 'e VirtualBackend" where
  "Inject ev vb =
    (if vb_closed vb then vb
     else if length (events vb) < virtualEventBuffer then vb\<lparr>events := events vb @ [ev]\<rparr>
     else vb)"

definition Open_vb :: "string \<Rightarrow> 'e VirtualBackend \<Rightarrow> (string + int \<times> int) \<times> 'e VirtualBackend" where
  "Open_vb title vb =
    (case OpenErr vb of
       Some e \<Rightarrow> (Inl e, vb)
     | None \<Rightarrow>
         if vb_closed vb then (Inl ''virtual backend is closed'', vb)
         else if vb_open vb then (Inl ''virtual backend is already open'', vb)
         else
           let vb = vb\<lparr>vb_open := True\<rparr>; vb = (if title \<noteq> [] then vb\<lparr>vb_title := title\<rparr> else vb)
           in (Inr (vb_cols vb, vb_rows vb), vb))"

definition Close_vb :: "'e VirtualBackend \<Rightarrow> string option \<times> 'e VirtualBackend" where
  "Close_vb vb =
    (if vb_closed vb then (None, vb)
     else case CloseErr vb of
       Some e \<Rightarrow> (Some e, vb)
     | None \<Rightarrow> (None, vb\<lparr>vb_closed := True, vb_open := False\<rparr>))"

definition Size_vb :: "'e VirtualBackend \<Rightarrow> string + int \<times> int" where
  "Size_vb vb = (case SizeErr vb of Some e \<Rightarrow> Inl e | None \<Rightarrow> Inr (vb_cols vb, vb_rows vb))"

definition Present :: "Frame \<Rightarrow> 'e VirtualBackend \<Rightarrow> string option \<times> 'e VirtualBackend" where
  "Present f vb =
    (case PresentErr vb of
       Some e \<Rightarrow> (Some e, vb)
     | None \<Rightarrow>
         (None, vb\<lparr>grid := f, presents := presents vb + 1,
           frames := (if length (frames vb) = maxKeep vb then tl (frames vb) else frames vb) @ [f]\<rparr>))"

definition SetCursor :: "int \<Rightarrow> int \<Rightarrow> bool \<Rightarrow> 'e VirtualBackend \<Rightarrow> string option \<times> 'e VirtualBackend" where
  "SetCursor x y visible vb =
    (case CursorErr vb of Some e \<Rightarrow> (Some e, vb) | None \<Rightarrow> (None, vb\<lparr>vb_cursor := (x, y, visible)\<rparr>))"

definition SetTitle :: "string \<Rightarrow> 'e VirtualBackend \<Rightarrow> string option \<times> 'e VirtualBackend" where
  "SetTitle title vb = (case TitleErr vb of Some e \<Rightarrow> (Some e, vb) | None \<Rightarrow> (None, vb\<lparr>vb_title := title\<rparr>))"

definition Bell :: "'e VirtualBackend \<Rightarrow> string option \<times> 'e VirtualBackend" where
  "Bell vb = (case BellErr vb of Some e \<Rightarrow> (Some e, vb) | None \<Rightarrow> (None, vb\<lparr>bells := bells vb + 1\<rparr>))"

definition Screen :: "'e VirtualBackend \<Rightarrow> string list" where
  "Screen vb = renderRows (grid vb)"

definition CellAt :: "int \<Rightarrow> int \<Rightarrow> 'e VirtualBackend \<Rightarrow> Cell option" where
  "CellAt x y vb = At_cell (grid vb) x y"

definition FrameCount :: "'e VirtualBackend \<Rightarrow> nat" where
  "FrameCount vb = length (frames vb)"

definition ScreenAt :: "int \<Rightarrow> 'e VirtualBackend \<Rightarrow> string list option" where
  "ScreenAt i vb = (if i < 0 \<or> i \<ge> int (length (frames vb)) then None else Some (renderRows (frames vb ! nat i)))"

text \<open>The history holds the last frames presented, the newest at the end, and the screen is the newest.\<close>

definition present_all :: "Frame list \<Rightarrow> 'e VirtualBackend \<Rightarrow> 'e VirtualBackend" where
  "present_all fs vb = fold (\<lambda>f vb. snd (Present f vb)) fs vb"

lemma history_is_last_frames:
  assumes "PresentErr vb = None" "length (frames vb) \<le> maxKeep vb" "0 < maxKeep vb"
  shows "frames (present_all fs vb) = drop (length (frames vb @ fs) - maxKeep vb) (frames vb @ fs) \<and>
    grid (present_all fs vb) = last (grid vb # fs)"
  using assms
proof (induction fs arbitrary: vb)
  case (Cons f fs)
  let ?vb = "snd (Present f vb)"
  have v: "frames ?vb = drop (length (frames vb @ [f]) - maxKeep vb) (frames vb @ [f])" "grid ?vb = f"
    "PresentErr ?vb = None" "maxKeep ?vb = maxKeep vb"
    using Cons.prems by (auto simp: Present_def drop_Suc neq_Nil_conv)
  have "length (frames ?vb) \<le> maxKeep ?vb" using v by simp
  then have i: "frames (present_all fs ?vb) = drop (length (frames ?vb @ fs) - maxKeep vb) (frames ?vb @ fs) \<and>
      grid (present_all fs ?vb) = last (grid ?vb # fs)"
    using Cons.IH [of ?vb] v Cons.prems(3) by simp
  have "present_all (f # fs) vb = present_all fs ?vb" by (simp add: present_all_def)
  moreover have "drop (length (frames ?vb @ fs) - maxKeep vb) (frames ?vb @ fs) =
      drop (length (frames vb @ f # fs) - maxKeep vb) (frames vb @ f # fs)"
    using Cons.prems(2,3) by (cases "length (frames vb) = maxKeep vb") (auto simp: v(1) drop_append not_less)
  ultimately show ?case using i v(2) by simp
qed (simp add: present_all_def)

lemma events_bounded: "length (events vb) \<le> virtualEventBuffer \<Longrightarrow> length (events (Inject ev vb)) \<le> virtualEventBuffer"
  by (simp add: Inject_def)

end
