(* ===== verification/Spec2Isabelle.thy ===== *)
theory Spec2Isabelle
  imports Type_Props Tape_Props Sandbox_Props Context_Props Compile_Props Dep_Props Suggest
    Mem_Path_Props Mem_Listing Handle_Props Overlay_Props
    Process_Props Format_Doc Tui_Props Tui_Colors Tui_Virtual
begin

text \<open>
  A verification library for the Boru language implementation (Go, modules
  core/go and lang/go).

  \<^bold>\<open>The program and the parts modelled.\<close>  Boru is a concatenative language.  Its
  kernel (core/go) keeps every value and type as a node of one lattice, a table
  of types, a table of stacked bindings per name, and a gap-buffer tape of tokens
  that the engine rewrites step by step; a compile pass runs over the same
  registry and is rolled back before the compiled program replays its bindings.
  The host side (lang/go) gates words, modules and file operations by a policy, and
  supplies in-memory and layered file systems, a formatter and a terminal toolkit.
  Lightweight processes with mailboxes run beside the engine.

  \<^item> Values and types.  Values (core/go/value.go, types.go, compare_types.go,
    compare.go, util.go): nodes, identity, IsAncestor, ConformsTo, the type order
    and the lowest common ancestor; Lattice: coherent sets of nodes, on which
    these are proved.  Type_Table, Builtins, Type_Names (core/go/typetable.go,
    types.go): the indexes, minting from a shared counter, registration,
    retirement, copies, the builtin declarations and the interval labels.
    Type_Laws, Intervals, Builtin_Laws: laws of minting and registration, the
    labels form nested intervals, the states a program reaches; these include
    the type parameters that AttachGenBound (generics.go) moves under their bounds.
    Type_Props: the properties.
  \<^item> The tape.  Floats and Slices: float64 arithmetic of the growth computation
    and Go slices.  Tape (core/go/tape.go): every operation of the gap buffer.
    Tape_Laws: its invariant, its content as a list, and one lemma per operation.
    Collect_Window (core/go/region_extent.go): the window interface as a locale
    with its interpretation on the tape, and the region walks.  Tape_Props.
  \<^item> Bindings.  Def_Table (core/go/deftable.go): the stacks, generations and
    three kinds of copies; Def_Laws: stack and generation of a name after each
    operation; Def_Props: refinement of a family of stacks and the snapshots.
    Binding_Sandbox (core/go/binding_sandbox.go, modules.go and the dispatch
    cache of registry.go): tables and ledgers behind pointers.  Sandbox_Props:
    the registry as a step relation with its invariants.
  \<^item> Contexts.  Context_Stores (core/go/contextstack.go, value.go, core_helpers.go,
    fork.go): copy-on-write stores and the stack of contexts over a heap of shared
    nodes.  Context_Laws: chains of links, lookup and enumeration along a chain,
    relinking, the layers a copy-on-write adds, divergence.  Context_Props.
  \<^item> Scalars.  Scalar_Compare (core/go/compare_scalar_behaviors.go): the comparers of
    the scalar families and the key they order by.  Dep_Scalars (depscalar.go,
    unify_dep.go): bounds over a scalar base.  Dep_Props: the total order, and
    intersection, complement and intervals as sets of values.
  \<^item> Suggestions.  Suggest (core/go/didyoumean.go): the budgeted edit distance, the
    ranking, and the distance by recursion on prefixes.  Lower-casing works on code
    points, with the table above ASCII as a parameter.
  \<^item> Permissions.  Glob (lang/go/policy/glob.go): the matcher and the language
    of a pattern.  Policy_Eval (evaluate.go, policy.go, profile.go, error.go):
    rules, caps and checks.  Policy_Compile (resolve.go, profile.go): validation,
    chain of parents, merging.  Policy_Compose (compose.go, subset.go).
    Permissioned_File_Ops (lang/go/native/permissioned_fileops.go): the wrapper
    of the file capability.  Policy_Props: the interface Policy as a locale with
    its interpretation, and the properties of checks and composition;
    Compile_Props: those of compilation and of the file wrapper, whose gate is
    pinned method by method.
  \<^item> File system.  Go_Paths: package path/filepath and clean paths as lists of
    components.  File_Calls and File_Interface (lang/go/capabilities/capabilities.go):
    the calls of the interface FileOps, and what its clients rely on as a locale, with the
    permission wrapper as a client.  Mem_Files, Mem_Ops, Mem_Handles, Mem_Locks,
    Mem_Calls (capabilities.go, handles.go, locks.go, watch.go): MemFileOps, that
    is, its maps from clean paths to data, directories, metadata and links,
    resolution of symbolic links, every operation with its checks in order, open
    files and mapped windows, the lock table as a step relation, watchers.
    Mem_Laws, Mem_Tree, Mem_Effects, Mem_Move, Mem_Rename, Mem_Resolve, Mem_Step:
    the invariant, the view of a state as a tree, the effect of every primitive.
    Mem_Props, Mem_Path_Props, Mem_Listing, Handle_Props: the names form a tree
    in the states that calls, writes through handles and flushes of mappings lead to,
    Remove and Rename change exactly what they should, what is written is read,
    resolution ends at a path without links or reports a cycle, locks exclude and,
    in fair runs, are granted once nothing is in their way, subscribers miss
    nothing silently.  Overlay_Files (overlay.go) and Overlay_Props:
    a writable layer with whiteouts over any other implementation of the
    interface, which it never changes.
  \<^item> Processes.  Processes (core/go/process.go): runtime, names, bounded mailboxes;
    Send and PopFront are turns under the lock between waits on the condition.
    Process_Props: order and bound of a mailbox in every interleaving, no lost
    wake-ups, progress of blocked senders in fair runs, release at shutdown, names.
  \<^item> Layout documents.  Format_Doc (lang/go/formatter/doc.go): the two loops with
    their stacks, equal to a recursive layout.
  \<^item> Terminal toolkit (lang/go/tuikit).  Go_Runes: UTF-8 and 64-bit
    arithmetic.  Tui_Frames (width.go, frame.go, diff.go): cells, frames, damage.
    Tui_Layout and Tui_Render (layout.go, render.go): widget trees, the solver of
    sizes, measuring and painting.  Tui_Colors (color.go, ansi.go): colours and escape
    codes.  Tui_Virtual (virtual.go): the in-memory terminal.  Tui_Frame_Props:
    a grid as a locale, and damage repaints the new frame; Tui_Layout_Props: the
    sizes of a stack fill its axis; Tui_Draw_Laws, Tui_Paint_Laws: where each
    painter draws and what it does to wide cells; Tui_Props: painting stays inside its
    rectangle and a rendered frame is sound.
  \<^item> Boru_Prelude: Go maps (a locale and its interpretation on association
    lists), strings, panics as values.

  \<^bold>\<open>How the code is represented.\<close>  A struct is a record, a nil-able pointer an
  option, a pointer whose sharing matters an address (type nodes carry their
  address; binding tables, module ledgers, stores and processes live in heaps), a Go
  map an association list in one iteration order, an error a datatype, a panic the
  left side of a sum.  Payloads of values, module descriptors, messages of processes
  and function aggregates are type parameters; the reading of a value as a function,
  the aggregation of functions, the resolver of profile names, fresh process
  identities and the text fmt prints are arguments of the definitions that use them.
  The file system reads the identity of the process and the clock from an
  environment whose clock stands still during one operation.  ReadFile gives the bytes
  of a file; the code hands out the slice the file system keeps, so the model is
  that of callers that do not write into what they read.  Code under a mutex is one
  step; where calls block, a step is one turn between two waits.  Progress is stated for
  infinite runs (functions from numbers to configurations) under weak fairness: a call
  that stays awake gets its turn, a timer that stays set fires.

  \<^bold>\<open>Bounds and fuel.\<close>  The mint counter is a 64-bit word; interval labels, depths,
  the counters of a binding table and those of mailboxes are integers, which int64
  holds for any run of fewer than 2^63 steps.  The ceiling of the tape is clamped to
  2^28 entries and its growth product rounded and converted as on amd64.  Scalars are
  compared with the int64 rounded where it meets a float; the order is total on
  sets where that rounding is exact, in particular for integers of at most 53 bits.
  Profile resolution takes the number of parents it may follow; resolve_terminates
  shows that the number of names is enough.  Links are followed at most 40 times,
  as in the code, with 41 steps for aliases; copying a tree up in the overlay takes a
  depth, and a run that needs more reports NoReturn, a branch of its own.
  Offsets of open files are 64-bit and their overflow is a panic where Go slices out
  of bounds.  Layout and painting of the terminal wrap as int64; their theorems are for
  numbers up to 2^31, texts up to 2^29 bytes and lists up to 2^20 entries, where no
  sum wraps.  Walks along prototype and parent links are partial functions
  with None for a walk that does not end; the properties say when they end.

  \<^bold>\<open>Not modelled.\<close>  The step loop of the engine, matching of signatures,
  unification, the checker, the compiler and the virtual machine: each ranges over
  every payload variant of values and calls the others, so no part of them has a
  definition that does not first need all payloads and the library words.  The
  library words themselves; they act through that loop.  The parser, which rests on a
  third-party grammar engine.  Disk files, terminals, network, loading of profiles and
  the command line are input and output.  Running out of memory; the
  goroutines that merge the watchers of the two layers of an overlay; parallel use
  of registries, which the code leaves to forks.
\<close>

end
